(* ===== verification/Prelude.thy ===== *)
theory Prelude
  imports Main "HOL-Library.Word" "HOL-Library.AList"
begin

text \<open>
  Shared vocabulary of the development: the widths of Rust's unsigned integers, the ways
  Rust arithmetic can end (checked, saturating, panicking), results as sums, \<open>HashMap\<close>s as
  association lists with distinct keys, and the lemmas on them that every component uses.

  Unsigned integers of the source (\<open>u8\<close> to \<open>u128\<close>, \<open>usize\<close>) are natural numbers, and every
  operation that can leave the type's range says what happens there: \<open>checked_add\<close> and its
  kin give \<^const>\<open>None\<close>, the saturating ones stop at the maximum, and the plain operators
  \<open>+\<close>, \<open>-\<close>, \<open>*\<close> are \<open>add_or_panic\<close> and its kin, which give \<open>Inl Overflow\<close> (a build with
  overflow checks stops there; one without them wraps around, so a theorem that the
  \<open>Overflow\<close> branch is not taken speaks of both builds). Bytes are \<open>8 word\<close>.
\<close>

unbundle bit_operations_syntax

named_theorems checked_defs \<open>definitions of the checked, saturating and panicking operators\<close>
named_theorems res_simps \<open>rewriting of results threaded by \<open>res_bind\<close>\<close>
named_theorems hm_simps \<open>reading a hash map after an update\<close>

type_synonym byte = "8 word"
type_synonym u8 = nat
type_synonym u16 = nat
type_synonym u32 = nat
type_synonym u64 = nat
type_synonym u128 = nat
type_synonym usize = nat
type_synonym rchar = nat

definition u8_max :: nat where "u8_max = 2 ^ 8 - 1"
definition u16_max :: nat where "u16_max = 2 ^ 16 - 1"
definition u32_max :: nat where "u32_max = 2 ^ 32 - 1"
definition u64_max :: nat where "u64_max = 2 ^ 64 - 1"
definition u128_max :: nat where "u128_max = 2 ^ 128 - 1"

lemmas width_defs = u8_max_def u16_max_def u32_max_def u64_max_def u128_max_def

text \<open>Why a Rust computation may stop without a value.\<close>

datatype rust_panic = Overflow | OutOfBounds | UnwrapNone | DivByZero | AssertFailed | Explicit

type_synonym 'a may_panic = "rust_panic + 'a"

definition checked_add :: "nat \<Rightarrow> nat \<Rightarrow> nat \<Rightarrow> nat option" where
  [checked_defs]: "checked_add mx a b = (if a + b \<le> mx then Some (a + b) else None)"

definition checked_mul :: "nat \<Rightarrow> nat \<Rightarrow> nat \<Rightarrow> nat option" where
  [checked_defs]: "checked_mul mx a b = (if a * b \<le> mx then Some (a * b) else None)"

definition checked_sub :: "nat \<Rightarrow> nat \<Rightarrow> nat option" where
  [checked_defs]: "checked_sub a b = (if b \<le> a then Some (a - b) else None)"

definition saturating_add :: "nat \<Rightarrow> nat \<Rightarrow> nat \<Rightarrow> nat" where
  [checked_defs]: "saturating_add mx a b = (if a + b \<le> mx then a + b else mx)"

definition saturating_mul :: "nat \<Rightarrow> nat \<Rightarrow> nat \<Rightarrow> nat" where
  [checked_defs]: "saturating_mul mx a b = (if a * b \<le> mx then a * b else mx)"

definition saturating_sub :: "nat \<Rightarrow> nat \<Rightarrow> nat" where
  [checked_defs]: "saturating_sub a b = (if b \<le> a then a - b else 0)"

definition try_from :: "nat \<Rightarrow> nat \<Rightarrow> nat option" where
  [checked_defs]: "try_from mx n = (if n \<le> mx then Some n else None)"

definition add_or_panic :: "nat \<Rightarrow> nat \<Rightarrow> nat \<Rightarrow> nat may_panic" where
  [checked_defs]: "add_or_panic mx a b = (if a + b \<le> mx then Inr (a + b) else Inl Overflow)"

definition mul_or_panic :: "nat \<Rightarrow> nat \<Rightarrow> nat \<Rightarrow> nat may_panic" where
  [checked_defs]: "mul_or_panic mx a b = (if a * b \<le> mx then Inr (a * b) else Inl Overflow)"

definition sub_or_panic :: "nat \<Rightarrow> nat \<Rightarrow> nat may_panic" where
  [checked_defs]: "sub_or_panic a b = (if b \<le> a then Inr (a - b) else Inl Overflow)"

lemma saturating_min:
  "saturating_add mx a b = min mx (a + b)" "saturating_mul mx a b = min mx (a * b)"
  by (simp_all add: checked_defs min_def)

text \<open>\<open>Option::unwrap\<close>, and slice indexing with its bounds check.\<close>

definition unwrap :: "'a option \<Rightarrow> 'a may_panic" where
  [checked_defs]: "unwrap x = (case x of None \<Rightarrow> Inl UnwrapNone | Some a \<Rightarrow> Inr a)"

definition index_or_panic :: "'a list \<Rightarrow> nat \<Rightarrow> 'a may_panic" where
  [checked_defs]: "index_or_panic xs i = (if i < length xs then Inr (xs ! i) else Inl OutOfBounds)"

definition slice_get :: "'a list \<Rightarrow> nat \<Rightarrow> 'a option" where
  [checked_defs]: "slice_get xs i = (if i < length xs then Some (xs ! i) else None)"

text \<open>The \<open>?\<close> operator: an error or a panic ends the computation.\<close>

definition res_bind :: "'e + 'a \<Rightarrow> ('a \<Rightarrow> 'e + 'b) \<Rightarrow> 'e + 'b" where
  "res_bind r f = (case r of Inl e \<Rightarrow> Inl e | Inr a \<Rightarrow> f a)"

lemma res_bind_simps [simp, res_simps]:
  "res_bind (Inl e) f = Inl e"
  "res_bind (Inr a) f = f a"
  by (simp_all add: res_bind_def)

lemma res_bind_eq_Inr [res_simps]:
  "res_bind r f = Inr b \<longleftrightarrow> (\<exists>a. r = Inr a \<and> f a = Inr b)"
  by (cases r) auto

lemma res_bind_InrE:
  assumes "res_bind r f = Inr b"
  obtains a where "r = Inr a" "f a = Inr b"
  using assms by (auto simp: res_simps)

lemma res_bind_pairE:
  assumes "res_bind r (\<lambda>(a, s). f a s) = Inr b"
  obtains a s where "r = Inr (a, s)" "f a s = Inr b"
  using assms by (auto simp: res_simps)

lemma res_bind_tripleE:
  assumes "res_bind r (\<lambda>((a, b), s). f a b s) = Inr c"
  obtains a b s where "r = Inr ((a, b), s)" "f a b s = Inr c"
  using assms by (auto simp: res_simps)

lemma res_bind_cong [fundef_cong]:
  "r = r' \<Longrightarrow> (\<And>a. r' = Inr a \<Longrightarrow> f a = g a) \<Longrightarrow> res_bind r f = res_bind r' g"
  by (cases r') auto

text \<open>Errors of a component that wrap a panic, and \<open>ok_or\<close>.\<close>

definition lift_panic :: "(rust_panic \<Rightarrow> 'e) \<Rightarrow> 'a may_panic \<Rightarrow> 'e + 'a" where
  "lift_panic w r = (case r of Inl p \<Rightarrow> Inl (w p) | Inr a \<Rightarrow> Inr a)"

definition ok_or :: "'e \<Rightarrow> 'a option \<Rightarrow> 'e + 'a" where
  "ok_or e x = (case x of None \<Rightarrow> Inl e | Some a \<Rightarrow> Inr a)"

lemma lift_panic_Inr [res_simps]: "lift_panic w r = Inr a \<longleftrightarrow> r = Inr a"
  by (cases r) (auto simp: lift_panic_def)

lemma ok_or_Inr [res_simps]: "ok_or e x = Inr a \<longleftrightarrow> x = Some a"
  by (cases x) (auto simp: ok_or_def)

lemma lift_panic_simps [simp]: "lift_panic w (Inr a) = Inr a" "lift_panic w (Inl p) = Inl (w p)"
  by (simp_all add: lift_panic_def)

lemma ok_or_simps [simp]: "ok_or e (Some a) = Inr a" "ok_or e None = Inl e"
  by (simp_all add: ok_or_def)

text \<open>Running a fallible step over a list, as a \<open>for\<close> loop with \<open>?\<close> in its body.\<close>

fun res_fold :: "('a \<Rightarrow> 's \<Rightarrow> 'e + 's) \<Rightarrow> 'a list \<Rightarrow> 's \<Rightarrow> 'e + 's" where
  "res_fold f [] s = Inr s"
| "res_fold f (x # xs) s = res_bind (f x s) (res_fold f xs)"

lemma res_fold_append:
  "res_fold f (xs @ ys) s = res_bind (res_fold f xs s) (res_fold f ys)"
proof (induction xs arbitrary: s)
  case Nil
  show ?case by simp
next
  case (Cons x xs)
  then show ?case by (cases "f x s") simp_all
qed

lemma res_fold_invariant:
  assumes "res_fold f xs s = Inr t" and "P s"
    and "\<And>x s s'. x \<in> set xs \<Longrightarrow> P s \<Longrightarrow> f x s = Inr s' \<Longrightarrow> P s'"
  shows "P t"
  using assms
proof (induction xs arbitrary: s)
  case Nil
  then show ?case by simp
next
  case (Cons x xs)
  from Cons.prems(1) obtain s' where "f x s = Inr s'" "res_fold f xs s' = Inr t"
    by (auto simp: res_simps)
  with Cons show ?case by (metis list.set_intros)
qed

text \<open>Panicking operators that return.\<close>

lemma add_or_panic_Inr [res_simps]: "add_or_panic mx a b = Inr c \<longleftrightarrow> c = a + b \<and> a + b \<le> mx"
  by (auto simp: checked_defs)

lemma mul_or_panic_Inr [res_simps]: "mul_or_panic mx a b = Inr c \<longleftrightarrow> c = a * b \<and> a * b \<le> mx"
  by (auto simp: checked_defs)

lemma sub_or_panic_Inr [res_simps]: "sub_or_panic a b = Inr c \<longleftrightarrow> c = a - b \<and> b \<le> a"
  by (auto simp: checked_defs)

lemma unwrap_Inr [res_simps]: "unwrap x = Inr a \<longleftrightarrow> x = Some a"
  by (auto simp: checked_defs split: option.splits)

lemma index_or_panic_Inr [res_simps]:
  "index_or_panic xs i = Inr a \<longleftrightarrow> i < length xs \<and> a = xs ! i"
  by (auto simp: checked_defs)

lemma try_from_Some [simp]: "try_from mx n = Some m \<longleftrightarrow> m = n \<and> n \<le> mx"
  by (auto simp: checked_defs)

section \<open>Hash maps\<close>

text \<open>
  A \<open>HashMap<K, V>\<close> is an association list with distinct keys; the order of the list stands
  for the order in which the map is iterated, which the source leaves open. \<open>hm_get\<close> reads a
  numeric map with \<open>unwrap_or_default\<close>, \<open>hm_add\<close> is \<open>*map.entry(k).or_default() += v\<close>.
\<close>

type_synonym ('k, 'v) hashmap = "('k \<times> 'v) list"

definition hm_ok :: "('k, 'v) hashmap \<Rightarrow> bool" where
  "hm_ok m \<longleftrightarrow> distinct (map fst m)"

definition hm_get :: "('k, nat) hashmap \<Rightarrow> 'k \<Rightarrow> nat" where
  "hm_get m k = (case map_of m k of None \<Rightarrow> 0 | Some v \<Rightarrow> v)"

definition hm_insert :: "'k \<Rightarrow> 'v \<Rightarrow> ('k, 'v) hashmap \<Rightarrow> ('k, 'v) hashmap" where
  "hm_insert k v m = AList.update k v m"

definition hm_add :: "nat \<Rightarrow> 'k \<Rightarrow> nat \<Rightarrow> ('k, nat) hashmap \<Rightarrow> ('k, nat) hashmap may_panic" where
  "hm_add mx k v m = res_bind (add_or_panic mx (hm_get m k) v) (\<lambda>s. Inr (hm_insert k s m))"

lemma map_of_hm_insert [simp, hm_simps]: "map_of (hm_insert k v m) = (map_of m)(k \<mapsto> v)"
  by (simp add: hm_insert_def update_conv')

lemma hm_ok_insert [simp]: "hm_ok m \<Longrightarrow> hm_ok (hm_insert k v m)"
  by (simp add: hm_ok_def hm_insert_def distinct_update)

lemma hm_ok_Nil [simp]: "hm_ok []"
  by (simp add: hm_ok_def)

lemma hm_get_Nil [simp, hm_simps]: "hm_get [] k = 0"
  by (simp add: hm_get_def)

lemma hm_get_insert [hm_simps]: "hm_get (hm_insert k v m) k' = (if k' = k then v else hm_get m k')"
  by (simp add: hm_get_def)

lemma hm_get_Cons: "hm_get ((k, v) # m) k' = (if k' = k then v else hm_get m k')"
  by (simp add: hm_get_def)

lemma hm_add_Inr [res_simps]:
  "hm_add mx k v m = Inr m' \<longleftrightarrow> hm_get m k + v \<le> mx \<and> m' = hm_insert k (hm_get m k + v) m"
  by (auto simp: hm_add_def res_simps)

lemma hm_get_map_of: "map_of m k = Some v \<Longrightarrow> hm_get m k = v"
  by (simp add: hm_get_def)

lemma hm_get_eq_0: "map_of m k = None \<Longrightarrow> hm_get m k = 0"
  by (simp add: hm_get_def)

lemma map_fst_hm_insert:
  "fst ` set (hm_insert k v m) = insert k (fst ` set m)"
  by (simp add: hm_insert_def dom_update)

text \<open>
  Adding every entry of one map into another, the loop
  \<open>for (k, v) in m { *acc.entry(k).or_default() += v }\<close>: whatever the order of iteration,
  each key ends with the sum of its two values.
\<close>

lemma res_fold_hm_add:
  assumes "res_fold (\<lambda>(k, v). hm_add mx k v) xs acc = Inr acc'"
  shows "hm_get acc' k = hm_get acc k + sum_list (map snd (filter (\<lambda>p. fst p = k) xs))"
  using assms
proof (induction xs arbitrary: acc)
  case Nil
  then show ?case by simp
next
  case (Cons x xs)
  obtain k0 v where x: "x = (k0, v)" by force
  from Cons.prems x obtain acc1 where
      "hm_add mx k0 v acc = Inr acc1" "res_fold (\<lambda>(k, v). hm_add mx k v) xs acc1 = Inr acc'"
    by (auto simp: res_bind_eq_Inr)
  with Cons.IH [of acc1] x show ?case by (auto simp: res_simps hm_simps)
qed

lemma res_fold_hm_add_ok:
  assumes "res_fold (\<lambda>(k, v). hm_add mx k v) xs acc = Inr acc'" and "hm_ok acc"
  shows "hm_ok acc'"
  using assms(1)
proof (rule res_fold_invariant [where P = hm_ok])
  show "hm_ok acc" by (fact assms(2))
qed (auto simp: res_simps)

lemma sum_list_filter_key:
  assumes "hm_ok m"
  shows "sum_list (map snd (filter (\<lambda>p. fst p = k) m)) = hm_get m k"
  using assms
proof (induction m)
  case Nil
  show ?case by simp
next
  case (Cons p m)
  obtain k0 v where p: "p = (k0, v)" by force
  have "filter (\<lambda>p. fst p = k0) m = []" if "k0 \<notin> fst ` set m"
    using that by (auto simp: filter_empty_conv)
  with Cons p show ?case by (auto simp: hm_ok_def hm_get_Cons)
qed

lemma hm_absorb:
  assumes "res_fold (\<lambda>(k, v). hm_add mx k v) m acc = Inr acc'" and "hm_ok m"
  shows "hm_get acc' k = hm_get acc k + hm_get m k"
  using res_fold_hm_add [OF assms(1)] sum_list_filter_key [OF assms(2)] by simp

section \<open>Lists and words\<close>

text \<open>\<open>slice::chunks_exact(n)\<close> and \<open>slice::chunks(n)\<close> for a positive \<open>n\<close>.\<close>

function chunks_exact :: "nat \<Rightarrow> 'a list \<Rightarrow> 'a list list" where
  "chunks_exact n xs = (if n = 0 \<or> length xs < n then [] else take n xs # chunks_exact n (drop n xs))"
  by pat_completeness auto
termination
  by (relation "measure (length \<circ> snd)") auto

function chunks :: "nat \<Rightarrow> 'a list \<Rightarrow> 'a list list" where
  "chunks n xs = (if n = 0 \<or> xs = [] then [] else take n xs # chunks n (drop n xs))"
  by pat_completeness auto
termination
  by (relation "measure (length \<circ> snd)") (auto simp: neq_Nil_conv)

declare chunks_exact.simps [simp del] chunks.simps [simp del]

lemma concat_chunks: "0 < n \<Longrightarrow> concat (chunks n xs) = xs"
proof (induction n xs rule: chunks.induct)
  case (1 n xs)
  show ?case
  proof (cases "xs = []")
    case True
    then show ?thesis by (simp add: chunks.simps)
  next
    case False
    with 1 show ?thesis by (simp add: chunks.simps [of n xs])
  qed
qed

lemma length_chunks: "c \<in> set (chunks n xs) \<Longrightarrow> length c \<le> n"
proof (induction n xs rule: chunks.induct)
  case (1 n xs)
  then show ?case by (cases "n = 0 \<or> xs = []") (auto simp: chunks.simps [of n xs])
qed

text \<open>Packing two fields into one integer with \<open><<\<close> and \<open>|\<close> is positional addition.\<close>

lemma or_push_bit_add:
  fixes a b :: nat
  assumes "a < 2 ^ k"
  shows "a OR push_bit k b = a + b * 2 ^ k"
proof -
  have a: "take_bit k a = a" using assms by (rule take_bit_nat_eq_self)
  have "take_bit k a AND push_bit k b = 0"
    by (rule bit_eqI) (simp add: bit_and_iff bit_push_bit_iff bit_take_bit_iff)
  then have "a AND push_bit k b = 0" by (simp only: a)
  then show ?thesis
    by (simp add: disjunctive_add_eq_or [symmetric] push_bit_eq_mult)
qed

lemma unat_of_nat_byte [simp]: "n < 256 \<Longrightarrow> unat (of_nat n :: byte) = n"
  by (simp add: unat_of_nat)

lemma unat_byte_less [simp]: "unat (b :: byte) < 256"
  using unsigned_less [of b, where 'a = nat] by simp

text \<open>\<open>to_le_bytes\<close> for a \<open>k\<close>-byte integer and \<open>from_le_bytes\<close>.\<close>

fun le_bytes :: "nat \<Rightarrow> nat \<Rightarrow> byte list" where
  "le_bytes 0 n = []"
| "le_bytes (Suc k) n = of_nat (n mod 256) # le_bytes k (n div 256)"

fun from_le :: "byte list \<Rightarrow> nat" where
  "from_le [] = 0"
| "from_le (b # bs) = unat b + 256 * from_le bs"

lemma length_le_bytes [simp]: "length (le_bytes k n) = k"
  by (induction k arbitrary: n) simp_all

lemma from_le_bytes: "from_le (le_bytes k n) = n mod 256 ^ k"
proof (induction k arbitrary: n)
  case 0
  show ?case by simp
next
  case (Suc k)
  have "unat (of_nat (n mod 256) :: byte) = n mod 256" by (rule unat_of_nat_byte) simp
  with Suc show ?case by (simp add: mod_mult2_eq add.commute)
qed

lemma le_bytes_from_le: "le_bytes (length bs) (from_le bs) = bs"
proof (induction bs)
  case Nil
  show ?case by simp
next
  case (Cons b bs)
  have "unat b < 256" by simp
  then have "(unat b + 256 * from_le bs) mod 256 = unat b" "(unat b + 256 * from_le bs) div 256 = from_le bs"
    by auto
  with Cons show ?case by simp
qed

lemma take_le_bytes: "j \<le> k \<Longrightarrow> take j (le_bytes k n) = le_bytes j n"
proof (induction j arbitrary: k n)
  case 0
  show ?case by simp
next
  case (Suc j)
  then show ?case by (cases k) simp_all
qed

lemma drop_le_bytes: "j \<le> k \<Longrightarrow> drop j (le_bytes k n) = le_bytes (k - j) (n div 256 ^ j)"
proof (induction j arbitrary: k n)
  case 0
  show ?case by simp
next
  case (Suc j)
  then show ?case by (cases k) (simp_all add: div_mult2_eq)
qed

lemma from_le_append_zeros: "from_le (bs @ replicate k 0) = from_le bs"
proof -
  have "from_le (replicate k 0) = 0" by (induction k) simp_all
  then show ?thesis by (induction bs) simp_all
qed

end
