(* ===== verification/Varint.thy ===== *)
theory Varint
  imports Prelude
begin

text \<open>
  The variable-length integers of \<open>src/dunes/varint.rs\<close>: the most significant group first,
  seven bits per byte, every byte but the last with its high bit set and offset by one, so
  that no number has two encodings. The encoder fills a 19-byte buffer from its end; the
  decoder saturates at \<open>u128::MAX\<close> and accepts a truncated number. The theory shows that
  nineteen bytes always suffice, that the loop computes a simple recursive encoding, and that
  decoding inverts encoding in any context.
\<close>

section \<open>Model\<close>

text \<open>
  \<open>encode_to_vec\<close>: \<open>i\<close> is the buffer index still to be written and \<open>out\<close> is \<open>out[i+1..]\<close>,
  the part of the buffer already filled.
\<close>

fun encode_loop :: "u128 \<Rightarrow> usize \<Rightarrow> byte list \<Rightarrow> byte list may_panic" where
  "encode_loop n i out =
    (let b = (of_nat n :: byte) AND 127;
         b' = (if i < 18 then b OR 128 else b);
         out' = b' # out
     in if n < 128 then Inr out'
        else (case i of 0 \<Rightarrow> Inl Overflow | Suc j \<Rightarrow> encode_loop (n div 128 - 1) j out'))"

declare encode_loop.simps [simp del]

definition encode_to_vec :: "u128 \<Rightarrow> byte list \<Rightarrow> byte list may_panic" where
  "encode_to_vec n v = res_bind (encode_loop n 18 []) (\<lambda>out. Inr (v @ out))"

definition encode :: "u128 \<Rightarrow> byte list may_panic" where
  "encode n = encode_to_vec n []"

text \<open>\<open>decode\<close>: the first argument is \<open>buffer[i..]\<close>.\<close>

fun decode_loop :: "byte list \<Rightarrow> u128 \<Rightarrow> usize \<Rightarrow> u128 \<times> usize" where
  "decode_loop [] n i = (n, i)"
| "decode_loop (b # bs) n i =
    (let n' = saturating_mul u128_max n 128
     in if unat b < 128 then (saturating_add u128_max n' (unat b), i + 1)
        else decode_loop bs (saturating_add u128_max n' (unat b - 127)) (i + 1))"

declare decode_loop.simps(2) [simp del]

definition decode :: "byte list \<Rightarrow> u128 \<times> usize" where
  "decode buffer = decode_loop buffer 0 0"

section \<open>The encoding as a recursive function\<close>

fun high_bytes :: "nat \<Rightarrow> byte list" where
  "high_bytes m =
    (if m < 128 then [of_nat (m + 128)]
     else high_bytes (m div 128 - 1) @ [of_nat (m mod 128 + 128)])"

declare high_bytes.simps [simp del]

definition varint_bytes :: "nat \<Rightarrow> byte list" where
  "varint_bytes n =
    (if n < 128 then [of_nat n] else high_bytes (n div 128 - 1) @ [of_nat (n mod 128)])"

lemma low7: "(of_nat n :: byte) AND 127 = of_nat (n mod 128)"
proof -
  have "(of_nat n :: byte) AND 127 = take_bit 7 (of_nat n)"
    using take_bit_eq_mask [of 7 "of_nat n :: byte"] by (simp add: mask_eq_exp_minus_1)
  also have "\<dots> = of_nat (take_bit 7 n)"
    by (simp add: of_nat_take_bit)
  finally show ?thesis by (simp add: take_bit_eq_mod)
qed

lemma set_high_bit:
  assumes "m < 128"
  shows "(of_nat m :: byte) OR 128 = of_nat (m + 128)"
proof -
  have "m OR 128 = m + (128 :: nat)"
    using or_push_bit_add [of m 7 1] assms by (simp add: push_bit_eq_mult)
  moreover have "(of_nat m :: byte) OR 128 = of_nat (m OR 128)"
    by (simp add: of_nat_or_eq)
  ultimately show ?thesis by simp
qed


lemma high_bytes_small: "m < 128 \<Longrightarrow> high_bytes m = [of_nat (m + 128)]"
  by (simp add: high_bytes.simps [of m])

lemma high_bytes_large:
  "128 \<le> m \<Longrightarrow> high_bytes m = high_bytes (m div 128 - 1) @ [of_nat (m mod 128 + 128)]"
  by (simp add: high_bytes.simps [of m])

text \<open>The loop on the continuation bytes (\<open>i < 18\<close>), given room for the whole number.\<close>

lemma encode_loop_high:
  assumes "i < 18" and "m < 2 ^ (7 * Suc i)"
  shows "encode_loop m i out = Inr (high_bytes m @ out)"
  using assms
proof (induction i arbitrary: m out)
  case 0
  then show ?case
    by (simp add: encode_loop.simps [of m] high_bytes_small low7 set_high_bit)
next
  case (Suc j)
  show ?case
  proof (cases "m < 128")
    case True
    with Suc.prems show ?thesis
      by (simp add: encode_loop.simps [of m] high_bytes_small low7 set_high_bit)
  next
    case False
    have "m < 128 * 2 ^ (7 * Suc j)" using Suc.prems(2) by (simp add: power_add)
    then have "m div 128 < 2 ^ (7 * Suc j)" by (simp add: less_mult_imp_div_less mult.commute)
    then have "m div 128 - 1 < 2 ^ (7 * Suc j)" by simp
    with Suc.IH Suc.prems(1) False show ?thesis
      by (simp add: encode_loop.simps [of m] high_bytes_large low7 set_high_bit)
  qed
qed

lemma encode_loop_total:
  assumes "n \<le> u128_max"
  shows "encode_loop n 18 [] = Inr (varint_bytes n)"
proof (cases "n < 128")
  case True
  then show ?thesis by (simp add: encode_loop.simps [of n] varint_bytes_def low7)
next
  case False
  have "n div 128 - 1 < 2 ^ (7 * Suc 17)"
    using assms by (simp add: u128_max_def)
  then have "encode_loop (n div 128 - 1) 17 out = Inr (high_bytes (n div 128 - 1) @ out)" for out
    by (rule encode_loop_high [of 17, rotated]) simp
  moreover have "(18 :: nat) = Suc 17" by simp
  ultimately show ?thesis using False
    by (simp only: encode_loop.simps [of n "Suc 17"] varint_bytes_def low7 Let_def) simp
qed

lemma encode_to_vec_eq: "n \<le> u128_max \<Longrightarrow> encode_to_vec n v = Inr (v @ varint_bytes n)"
  by (simp add: encode_to_vec_def encode_loop_total)

lemma length_high_bytes: "0 < k \<Longrightarrow> m < 2 ^ (7 * k) \<Longrightarrow> length (high_bytes m) \<le> k"
proof (induction k arbitrary: m)
  case 0
  then show ?case by simp
next
  case (Suc k)
  show ?case
  proof (cases "m < 128")
    case True
    then show ?thesis by (simp add: high_bytes_small)
  next
    case False
    have k: "0 < k" using Suc.prems False by (cases k) auto
    have "m < 128 * 2 ^ (7 * k)" using Suc.prems(2) by (simp add: power_add)
    then have "m div 128 - 1 < 2 ^ (7 * k)"
      using less_mult_imp_div_less [of m "2 ^ (7 * k)" 128] by (simp add: mult.commute)
    with Suc.IH k False show ?thesis by (simp add: high_bytes_large)
  qed
qed

lemma length_varint_bytes: "n \<le> u128_max \<Longrightarrow> length (varint_bytes n) \<le> 19"
  using length_high_bytes [of 18 "n div 128 - 1"] by (simp add: varint_bytes_def u128_max_def)

lemma varint_bytes_nonempty [simp]: "varint_bytes n \<noteq> []"
  by (simp add: varint_bytes_def)

section \<open>Decoding\<close>

lemma min_regroup:
  fixes m :: nat
  assumes "m + k \<le> u"
  shows "min u (min u (m div 128 * 128) + (m mod 128 + k)) = m + k"
proof -
  have "m div 128 * 128 \<le> u" using assms div_times_less_eq_dividend [of m 128] by linarith
  with assms show ?thesis by (simp add: min_absorb2)
qed

lemma decode_loop_more:
  assumes "k < 128"
  shows "decode_loop (of_nat (k + 128) # bs) n i =
    decode_loop bs (min u128_max (min u128_max (n * 128) + (k + 1))) (i + 1)"
proof -
  have "unat (of_nat (k + 128) :: byte) = k + 128" using assms by (intro unat_of_nat_byte) simp
  then show ?thesis
    by (simp add: decode_loop.simps(2) saturating_min Let_def del: of_nat_add)
qed

lemma decode_loop_last:
  assumes "k < 128"
  shows "decode_loop (of_nat k # bs) n i = (min u128_max (min u128_max (n * 128) + k), i + 1)"
  using assms by (simp add: decode_loop.simps(2) saturating_min Let_def)

text \<open>A run of continuation bytes leaves the decoder at the number above them plus one.\<close>

lemma decode_high_bytes:
  assumes "m < u128_max div 128"
  shows "decode_loop (high_bytes m @ rest) 0 i = decode_loop rest (m + 1) (i + length (high_bytes m))"
  using assms
proof (induction m arbitrary: rest i rule: high_bytes.induct)
  case (1 m)
  show ?case
  proof (cases "m < 128")
    case True
    then have "m + 1 \<le> u128_max" by (simp add: u128_max_def)
    with True show ?thesis
      by (simp add: high_bytes_small decode_loop_more min_def del: of_nat_add)
  next
    case False
    then have "m div 128 - 1 < u128_max div 128" using "1.prems" by linarith
    with False "1.IH" have "decode_loop (high_bytes m @ rest) 0 i =
        decode_loop (of_nat (m mod 128 + 128) # rest) (m div 128) (i + length (high_bytes (m div 128 - 1)))"
      by (simp add: high_bytes_large)
    moreover have "min u128_max (min u128_max (m div 128 * 128) + (m mod 128 + 1)) = m + 1"
      by (rule min_regroup) (use "1.prems" in linarith)
    ultimately show ?thesis using False
      by (simp add: high_bytes_large decode_loop_more del: of_nat_add)
  qed
qed

lemma decode_varint_bytes:
  assumes "n \<le> u128_max"
  shows "decode (varint_bytes n @ rest) = (n, length (varint_bytes n))"
proof (cases "n < 128")
  case True
  then show ?thesis
    by (simp add: varint_bytes_def decode_def decode_loop_last u128_max_def)
next
  case False
  have "n div 128 - 1 < u128_max div 128" using assms False
    by (simp add: u128_max_def)
  then have "decode (varint_bytes n @ rest) =
      decode_loop (of_nat (n mod 128) # rest) (n div 128) (length (high_bytes (n div 128 - 1)))"
    using False decode_high_bytes [of "n div 128 - 1" "of_nat (n mod 128) # rest" 0]
    by (simp add: varint_bytes_def decode_def)
  moreover have "min u128_max (min u128_max (n div 128 * 128) + n mod 128) = n"
    using min_regroup [of n 0] assms by simp
  ultimately show ?thesis using False
    by (simp add: varint_bytes_def decode_loop_last)
qed

lemma decode_loop_bounds:
  assumes "decode_loop bs n i = (v, l)" and "n \<le> u128_max"
  shows "v \<le> u128_max \<and> l \<le> i + length bs \<and> (bs \<noteq> [] \<longrightarrow> i < l)"
  using assms
proof (induction bs arbitrary: n i)
  case Nil
  then show ?case by simp
next
  case (Cons b bs)
  show ?case
  proof (cases "unat b < 128")
    case True
    with Cons.prems show ?thesis by (auto simp: decode_loop.simps(2) saturating_min Let_def)
  next
    case False
    let ?n = "saturating_add u128_max (saturating_mul u128_max n 128) (unat b - 127)"
    have "decode_loop bs ?n (i + 1) = (v, l)" using Cons.prems(1) False by (simp add: decode_loop.simps(2) Let_def)
    moreover have "?n \<le> u128_max" by (simp add: saturating_min)
    ultimately show ?thesis using Cons.IH [of ?n "i + 1"]
      by (cases bs) auto
  qed
qed

lemma decode_bounds:
  assumes "decode bs = (v, l)"
  shows "v \<le> u128_max" "l \<le> length bs" "bs \<noteq> [] \<Longrightarrow> 0 < l"
  using decode_loop_bounds [of bs 0 0 v l] assms by (simp_all add: decode_def)


section \<open>Saturation is clamping\<close>

text \<open>The same decoder over unbounded integers.\<close>

fun exact_loop :: "byte list \<Rightarrow> nat \<Rightarrow> nat \<Rightarrow> nat \<times> nat" where
  "exact_loop [] n i = (n, i)"
| "exact_loop (b # bs) n i =
    (if unat b < 128 then (n * 128 + unat b, i + 1)
     else exact_loop bs (n * 128 + (unat b - 127)) (i + 1))"

lemma min_step: "min u (min u (min u e * 128) + k) = min u (e * 128 + k)" for u e k :: nat
  by (cases "e \<le> u") (auto simp: min_def)

lemma decode_loop_clamps:
  "decode_loop bs (min u128_max e) i = map_prod (min u128_max) id (exact_loop bs e i)"
proof (induction bs arbitrary: e i)
  case Nil
  show ?case by simp
next
  case (Cons b bs)
  have "decode_loop (b # bs) (min u128_max e) i =
      (if unat b < 128 then (min u128_max (e * 128 + unat b), i + 1)
       else decode_loop bs (min u128_max (e * 128 + (unat b - 127))) (i + 1))"
    by (simp only: decode_loop.simps(2) saturating_min Let_def min_step)
  with Cons.IH [of "e * 128 + (unat b - 127)" "i + 1"] show ?case
    by (auto simp del: add_diff_assoc)
qed

section \<open>Sequences of encoded values\<close>

text \<open>
  Both clients of the encoding, the payload of a dunestone and the balances stored at an
  outpoint, read a buffer to its end: \<open>while i < buffer.len() { .. i += len }\<close>. The loop only
  advances if the decoder consumes something; a decoder that consumed nothing is cut short
  here (the code would spin), and the interface below requires progress.
\<close>

function decode_seq :: "(byte list \<Rightarrow> 'a \<times> nat) \<Rightarrow> byte list \<Rightarrow> 'a list" where
  "decode_seq dec bs =
    (if bs = [] \<or> snd (dec bs) = 0 then []
     else fst (dec bs) # decode_seq dec (drop (snd (dec bs)) bs))"
  by pat_completeness auto
termination
  by (relation "measure (length \<circ> snd)") auto

declare decode_seq.simps [simp del]

locale prefix_codec =
  fixes enc :: "'a \<Rightarrow> byte list"
    and dec :: "byte list \<Rightarrow> 'a \<times> nat"
    and ok :: "'a \<Rightarrow> bool"
  assumes dec_enc: "ok a \<Longrightarrow> dec (enc a @ rest) = (a, length (enc a))"
    and enc_nonempty: "enc a \<noteq> []"
    and dec_progress: "bs \<noteq> [] \<Longrightarrow> 0 < snd (dec bs)"
    and dec_within: "snd (dec bs) \<le> length bs"
begin

lemma seq_round_trip:
  assumes "list_all ok xs"
  shows "decode_seq dec (concat (map enc xs)) = xs"
  using assms
proof (induction xs)
  case Nil
  show ?case by (simp add: decode_seq.simps)
next
  case (Cons x xs)
  then show ?case
    by (simp add: decode_seq.simps [of dec "enc x @ concat (map enc xs)"] dec_enc enc_nonempty)
qed

lemma seq_unfold:
  "bs \<noteq> [] \<Longrightarrow> decode_seq dec bs = fst (dec bs) # decode_seq dec (drop (snd (dec bs)) bs)"
  using dec_progress [of bs] by (simp add: decode_seq.simps [of dec bs])

lemma enc_inject: "ok a \<Longrightarrow> ok b \<Longrightarrow> enc a @ r = enc b @ s \<Longrightarrow> a = b \<and> r = s"
  using dec_enc [of a r] dec_enc [of b s] by auto

end

interpretation vi: prefix_codec varint_bytes decode "\<lambda>n. n \<le> u128_max"
proof
  show "snd (decode bs) \<le> length bs" for bs
    using decode_bounds(2) [of bs] by (metis prod.collapse)
  show "0 < snd (decode bs)" if "bs \<noteq> []" for bs
    using decode_bounds(3) [OF _ that] by (metis prod.collapse)
qed (simp_all add: decode_varint_bytes)

text \<open>Two integers read one after the other.\<close>

definition decode2 :: "byte list \<Rightarrow> (u128 \<times> u128) \<times> usize" where
  "decode2 bs =
    (let (a, l) = decode bs; (b, m) = decode (drop l bs) in ((a, b), l + m))"

definition varint2_bytes :: "u128 \<times> u128 \<Rightarrow> byte list" where
  "varint2_bytes p = varint_bytes (fst p) @ varint_bytes (snd p)"

interpretation vi2: prefix_codec varint2_bytes decode2
  "\<lambda>p. fst p \<le> u128_max \<and> snd p \<le> u128_max"
proof
  show "decode2 (varint2_bytes p @ rest) = (p, length (varint2_bytes p))"
    if "fst p \<le> u128_max \<and> snd p \<le> u128_max" for p rest
    using that by (simp add: decode2_def varint2_bytes_def decode_varint_bytes Let_def)
  show "varint2_bytes p \<noteq> []" for p by (simp add: varint2_bytes_def)
  show "0 < snd (decode2 bs)" if "bs \<noteq> []" for bs
    using vi.dec_progress [OF that] by (auto simp: decode2_def split: prod.splits)
  show "snd (decode2 bs) \<le> length bs" for bs
    using vi.dec_within [of bs] vi.dec_within [of "drop (snd (decode bs)) bs"]
    by (auto simp: decode2_def split: prod.splits)
qed

lemma decode_seq_bounded: "n \<in> set (decode_seq decode bs) \<Longrightarrow> n \<le> u128_max"
proof (induction "decode :: byte list \<Rightarrow> _" bs rule: decode_seq.induct)
  case (1 bs)
  have "fst (decode bs) \<le> u128_max" using decode_bounds(1) [of bs] by (metis prod.collapse)
  with 1 show ?case by (auto simp: decode_seq.simps [of decode bs] split: if_splits)
qed

lemma decode2_seq_bounded: "p \<in> set (decode_seq decode2 bs) \<Longrightarrow> fst p \<le> u128_max"
proof (induction "decode2 :: byte list \<Rightarrow> _" bs rule: decode_seq.induct)
  case (1 bs)
  have "fst (fst (decode2 bs)) \<le> u128_max"
    using decode_bounds(1) [of bs] by (auto simp: decode2_def split: prod.splits)
  with 1 show ?case by (auto simp: decode_seq.simps [of decode2 bs] split: if_splits)
qed

section \<open>Properties\<close>

text \<open>
  C23: Round trip of the variable-length integers. Every \<open>u128\<close> encodes without running out
  of the 19-byte buffer, and decoding the encoding, whatever bytes follow it, gives the number
  back together with exactly the number of bytes of the encoding.
\<close>

theorem varint_round_trip:
  assumes "n \<le> u128_max"
  shows "\<exists>bs. encode n = Inr bs \<and> bs \<noteq> [] \<and> length bs \<le> 19 \<and> decode (bs @ rest) = (n, length bs)"
  using assms
  by (simp add: encode_def encode_to_vec_eq length_varint_bytes decode_varint_bytes)

theorem varint_round_trip_witness:
  "encode 65535 = Inr [0x82, 0xFE, 0x7F] \<and> decode ([0x82, 0xFE, 0x7F] @ [9]) = (65535, 3) \<and>
   (\<exists>bs. encode 65535 = Inr bs \<and> bs \<noteq> [] \<and> length bs \<le> 19 \<and> decode (bs @ [9]) = (65535, length bs))"
proof -
  have "(65535 :: nat) \<le> u128_max" by (simp add: u128_max_def)
  note ex = varint_round_trip [OF this, of "[9]"]
  have "encode 65535 = Inr [0x82, 0xFE, 0x7F]"
    by (simp add: encode_def encode_to_vec_def encode_loop.simps)
  moreover have "decode ([0x82, 0xFE, 0x7F] @ [9]) = (65535, 3)"
    by (simp add: decode_def decode_loop.simps checked_defs u128_max_def)
  ultimately show ?thesis using ex by blast
qed

text \<open>
  Decoding any buffer consumes at least one byte of a non-empty buffer and never more than
  the buffer holds, and its value is the exact value of the bytes clamped to \<open>u128::MAX\<close>: the
  repeated saturation of the loop loses nothing else.
\<close>

theorem varint_decode_clamps:
  "fst (decode bs) = min u128_max (fst (exact_loop bs 0 0)) \<and>
   snd (decode bs) = snd (exact_loop bs 0 0) \<and>
   snd (decode bs) \<le> length bs \<and> (snd (decode bs) = 0 \<longleftrightarrow> bs = [])"
proof -
  have "decode bs = map_prod (min u128_max) id (exact_loop bs 0 0)"
    using decode_loop_clamps [of bs 0 0] by (simp add: decode_def)
  moreover have "snd (decode []) = 0" by (simp add: decode_def)
  ultimately show ?thesis
    using vi.dec_within [of bs] vi.dec_progress [of bs]
    by (cases "bs = []") (auto simp: prod_eq_iff)
qed

end
