(* ===== verification/Dune_Name.thy ===== *)
theory Dune_Name
  imports Prelude
begin

text \<open>
  Dune names (\<open>src/dunes/dune.rs\<close>, \<open>src/dunes/spaced_dune.rs\<close>) and the chain parameters they
  depend on (\<open>src/chain.rs\<close>). A dune is a \<open>u128\<close>; its name is its number in bijective base 26,
  and a spaced name carries a bit mask of the gaps that show a bullet. Rust characters are
  Unicode code points (natural numbers), strings are lists of them. The theory shows that
  names and numbers determine each other, that spaced names survive printing and parsing, and
  that the minimum name length falls monotonically over the unlock schedule without a panic.
\<close>

section \<open>Chains\<close>

datatype chain = Mainnet | Testnet | Signet | Regtest

fun first_inscription_height :: "chain \<Rightarrow> u32" where
  "first_inscription_height Mainnet = 4600000"
| "first_inscription_height Regtest = 0"
| "first_inscription_height Signet = 0"
| "first_inscription_height Testnet = 4250000"

fun first_dune_height :: "chain \<Rightarrow> u32" where
  "first_dune_height Mainnet = 5084000"
| "first_dune_height Regtest = 0"
| "first_dune_height Signet = 0"
| "first_dune_height Testnet = 4250000"

fun default_rpc_port :: "chain \<Rightarrow> u16" where
  "default_rpc_port Mainnet = 22555"
| "default_rpc_port Regtest = 18332"
| "default_rpc_port Signet = 38332"
| "default_rpc_port Testnet = 44555"

fun inscription_content_size_limit :: "chain \<Rightarrow> usize option" where
  "inscription_content_size_limit _ = None"

section \<open>Dunes\<close>

definition STEPS :: "u128 list" where
  "STEPS =
    [0,
     26,
     702,
     18278,
     475254,
     12356630,
     321272406,
     8353082582,
     217180147158,
     5646683826134,
     146813779479510,
     3817158266467286,
     99246114928149462,
     2580398988131886038,
     67090373691429037014,
     1744349715977154962390,
     45353092615406029022166,
     1179180408000556754576342,
     30658690608014475618984918,
     797125955808376366093607894,
     20725274851017785518433805270,
     538857146126462423479278937046,
     14010285799288023010461252363222,
     364267430781488598271992561443798,
     9470953200318703555071806597538774,
     246244783208286292431866971536008150,
     6402364363415443603228541259936211926,
     166461473448801533683942072758341510102]"

definition RESERVED :: u128 where
  "RESERVED = 6402364363415443603228541259936211926"

text \<open>
  \<open>halving\<close> is \<open>bitcoin::blockdata::constants::SUBSIDY_HALVING_INTERVAL\<close>, a constant of the
  bitcoin library the crate is built against; \<open>SUBSIDY_HALVING_INTERVAL_10X\<close> is ten times it.
\<close>

definition minimum_at_height :: "u32 \<Rightarrow> chain \<Rightarrow> u32 \<Rightarrow> u128 may_panic" where
  "minimum_at_height halving chain height =
    (let offset = saturating_add u32_max height 1;
         tenfold = halving * 10;
         interval = tenfold div 12;
         start = first_dune_height chain
     in res_bind (add_or_panic u32_max start tenfold) (\<lambda>end_height.
        if offset < start then index_or_panic STEPS 12
        else if end_height \<le> offset then Inr 0
        else if interval = 0 then Inl DivByZero
        else
          let progress = saturating_sub offset start;
              len = saturating_sub 12 (progress div interval);
              remainder = progress mod interval
          in res_bind (sub_or_panic len 1) (\<lambda>len1.
             res_bind (index_or_panic STEPS len1) (\<lambda>low.
             res_bind (index_or_panic STEPS len) (\<lambda>high.
             res_bind (sub_or_panic high low) (\<lambda>width.
             res_bind (mul_or_panic u128_max width remainder) (\<lambda>part.
               sub_or_panic high (part div interval))))))))"

definition is_reserved :: "u128 \<Rightarrow> bool" where
  "is_reserved dune \<longleftrightarrow> RESERVED \<le> dune"

definition reserved :: "u128 \<Rightarrow> u128 may_panic" where
  "reserved n = unwrap (checked_add u128_max RESERVED n)"

text \<open>Printing: \<open>dune_symbol n\<close> is the string the loop pushes, in push order.\<close>

definition alphabet :: "rchar list" where
  "alphabet = [65..<91]"

fun dune_symbol :: "nat \<Rightarrow> rchar list" where
  "dune_symbol n =
    (if n = 0 then [] else alphabet ! ((n - 1) mod 26) # dune_symbol ((n - 1) div 26))"

declare dune_symbol.simps [simp del]

definition max_dune_name :: "rchar list" where
  "max_dune_name = map of_char ''BCGDENLQRQWDSLRUGSNLBTMFIJAV''"

definition dune_to_string :: "u128 \<Rightarrow> rchar list" where
  "dune_to_string n = (if n = u128_max then max_dune_name else rev (dune_symbol (n + 1)))"

datatype dune_error = OutOfRange | InvalidCharacter rchar | DunePanic rust_panic

text \<open>Parsing: one turn of the loop, on the character index and the number so far.\<close>

definition dune_from_str_step :: "rchar \<Rightarrow> nat \<times> u128 \<Rightarrow> dune_error + (nat \<times> u128)" where
  "dune_from_str_step c s =
    (let (i, x) = s
     in res_bind (if i > 0 then lift_panic DunePanic (add_or_panic u128_max x 1) else Inr x) (\<lambda>x.
        res_bind (ok_or OutOfRange (checked_mul u128_max x 26)) (\<lambda>x.
        if 65 \<le> c \<and> c \<le> 90
        then res_bind (ok_or OutOfRange (checked_add u128_max x (c - 65))) (\<lambda>x. Inr (i + 1, x))
        else Inl (InvalidCharacter c))))"

definition dune_from_str :: "rchar list \<Rightarrow> dune_error + u128" where
  "dune_from_str s = res_bind (res_fold dune_from_str_step s (0, 0)) (\<lambda>(i, x). Inr x)"

section \<open>Spaced names\<close>

record spaced_dune =
  sd_dune :: u128
  sd_spacers :: u32

datatype spaced_error =
  LeadingSpacer | DoubleSpacer | TrailingSpacer | SpacedInvalidCharacter
  | DuneError dune_error | SpacedPanic rust_panic

definition bullet :: rchar where "bullet = 0x2022"

definition spaced_step :: "rchar \<Rightarrow> rchar list \<times> u32 \<Rightarrow> spaced_error + (rchar list \<times> u32)" where
  "spaced_step c s =
    (let (dune, spacers) = s
     in if 65 \<le> c \<and> c \<le> 90 then Inr (dune @ [c], spacers)
        else if c = of_char (CHR ''.'') \<or> c = bullet then
          res_bind (ok_or LeadingSpacer (checked_sub (length dune) 1)) (\<lambda>k.
            if 32 \<le> k then Inl (SpacedPanic Overflow)
            else if spacers AND push_bit k 1 \<noteq> 0 then Inl DoubleSpacer
            else Inr (dune, spacers OR push_bit k 1))
        else Inl SpacedInvalidCharacter)"

text \<open>\<open>32 - spacers.leading_zeros()\<close>: the number of bits up to the highest one set.\<close>

fun bit_length :: "nat \<Rightarrow> nat" where
  "bit_length n = (if n = 0 then 0 else Suc (bit_length (n div 2)))"

declare bit_length.simps [simp del]

definition spaced_from_str :: "rchar list \<Rightarrow> spaced_error + spaced_dune" where
  "spaced_from_str s =
    res_bind (res_fold spaced_step s ([], 0)) (\<lambda>(dune, spacers).
    res_bind (lift_panic SpacedPanic (unwrap (try_from u32_max (length dune)))) (\<lambda>len.
    if bit_length spacers \<ge> len then Inl TrailingSpacer
    else (case dune_from_str dune of
            Inl e \<Rightarrow> Inl (DuneError e)
          | Inr d \<Rightarrow> Inr \<lparr>sd_dune = d, sd_spacers = spacers\<rparr>)))"

text \<open>Printing: letter \<open>i\<close> is followed by a bullet when bit \<open>i\<close> is set and it is not the last.\<close>

fun spaced_chars :: "nat \<Rightarrow> nat \<Rightarrow> u32 \<Rightarrow> rchar list \<Rightarrow> rchar list" where
  "spaced_chars len i spacers [] = []"
| "spaced_chars len i spacers (c # cs) =
    c # (if i < len - 1 \<and> spacers AND push_bit i 1 \<noteq> 0 then [bullet] else [])
      @ spaced_chars len (i + 1) spacers cs"

definition spaced_to_string :: "spaced_dune \<Rightarrow> rchar list" where
  "spaced_to_string sd =
    (let dune = dune_to_string (sd_dune sd)
     in spaced_chars (length dune) 0 (sd_spacers sd) dune)"


section \<open>Names and numbers\<close>

lemma alphabet_nth [simp]: "k < 26 \<Longrightarrow> alphabet ! k = 65 + k"
  unfolding alphabet_def by (subst nth_upt) auto

lemma dune_symbol_0 [simp]: "dune_symbol 0 = []"
  by (simp add: dune_symbol.simps)

lemma dune_symbol_Suc: "dune_symbol (Suc m) = (65 + m mod 26) # dune_symbol (m div 26)"
  by (simp add: dune_symbol.simps [of "Suc m"])

lemma dune_to_string_eq: "dune_to_string n = rev (dune_symbol (Suc n))"
proof (cases "n = u128_max")
  case True
  have "rev (dune_symbol (Suc u128_max)) = max_dune_name"
    by (simp add: u128_max_def max_dune_name_def dune_symbol.simps)
  with True show ?thesis by (simp add: dune_to_string_def)
next
  case False
  then show ?thesis by (simp add: dune_to_string_def)
qed

lemma dune_to_string_nonempty [simp]: "dune_to_string n \<noteq> []"
  by (simp add: dune_to_string_eq dune_symbol_Suc)

lemma dune_step_first:
  "k < 26 \<Longrightarrow> dune_from_str_step (65 + k) (0, 0) = Inr (1, k)"
  by (simp add: dune_from_str_step_def checked_defs u128_max_def)

lemma dune_step_next:
  assumes "0 < i" and "k < 26" and "Suc x * 26 + k \<le> u128_max"
  shows "dune_from_str_step (65 + k) (i, x) = Inr (i + 1, Suc x * 26 + k)"
  using assms by (simp add: dune_from_str_step_def checked_defs)

lemma dune_parse_symbol:
  assumes "0 < y" and "y \<le> Suc u128_max"
  shows "res_fold dune_from_str_step (rev (dune_symbol y)) (0, 0) = Inr (length (dune_symbol y), y - 1)"
  using assms
proof (induction y rule: less_induct)
  case (less y)
  then obtain m where y: "y = Suc m" by (cases y) auto
  let ?q = "m div 26" and ?k = "m mod 26"
  have k: "?k < 26" by simp
  show ?case
  proof (cases "?q = 0")
    case True
    then have "?k = m" by simp
    with y True dune_step_first [OF k] show ?thesis by (simp add: dune_symbol_Suc)
  next
    case False
    then obtain x where x: "?q = Suc x" by (cases ?q) auto
    have "?q < y" "?q \<le> Suc u128_max" using y less.prems by linarith+
    with less.IH [of ?q] False x have
      "res_fold dune_from_str_step (rev (dune_symbol ?q)) (0, 0) = Inr (length (dune_symbol ?q), x)"
      by simp
    moreover have "Suc x * 26 + ?k = m" using x [symmetric] by simp
    moreover have "0 < length (dune_symbol ?q)" using x by (simp add: dune_symbol_Suc)
    ultimately show ?thesis
      using y less.prems dune_step_next [OF _ k, of "length (dune_symbol ?q)" x]
      by (simp add: dune_symbol_Suc res_fold_append)
  qed
qed

lemma dune_step_Inr:
  assumes "dune_from_str_step c (i, x) = Inr (i', x')"
  shows "i' = i + 1" "65 \<le> c" "c \<le> 90" "x' \<le> u128_max"
    "x' = (if i > 0 then Suc x * 26 else x * 26) + (c - 65)"
  using assms by (auto simp: dune_from_str_step_def res_simps checked_defs split: if_splits)

lemma dune_parse_sound:
  assumes "res_fold dune_from_str_step s (0, 0) = Inr (i, x)"
  shows "i = length s \<and> (s = [] \<longrightarrow> x = 0) \<and>
    (s \<noteq> [] \<longrightarrow> x \<le> u128_max \<and> rev (dune_symbol (Suc x)) = s)"
  using assms
proof (induction s arbitrary: i x rule: rev_induct)
  case Nil
  then show ?case by simp
next
  case (snoc c s)
  from snoc.prems obtain i0 x0 where
      f: "res_fold dune_from_str_step s (0, 0) = Inr (i0, x0)" and
      st: "dune_from_str_step c (i0, x0) = Inr (i, x)"
    by (auto simp: res_fold_append res_bind_eq_Inr)
  note IH = snoc.IH [OF f] and S = dune_step_Inr [OF st]
  obtain k where k: "c = 65 + k" "k < 26" using S(2,3) by (auto simp: le_iff_add)
  have "x = (if s = [] then 0 else Suc x0) * 26 + k" using S(5) IH k(1) by auto
  then have "x mod 26 = k" "x div 26 = (if s = [] then 0 else Suc x0)" using k(2) by auto
  with S IH k show ?case by (auto simp: dune_symbol_Suc)
qed

lemma dune_from_str_iff:
  assumes "s \<noteq> []"
  shows "dune_from_str s = Inr n \<longleftrightarrow> n \<le> u128_max \<and> dune_to_string n = s"
proof
  assume "dune_from_str s = Inr n"
  then show "n \<le> u128_max \<and> dune_to_string n = s"
    using dune_parse_sound [of s] assms
    by (auto simp: dune_from_str_def res_bind_eq_Inr dune_to_string_eq)
next
  assume "n \<le> u128_max \<and> dune_to_string n = s"
  then show "dune_from_str s = Inr n"
    using dune_parse_symbol [of "Suc n"] by (auto simp: dune_from_str_def dune_to_string_eq)
qed

lemma set_dune_symbol: "c \<in> set (dune_symbol n) \<Longrightarrow> 65 \<le> c \<and> c \<le> 90"
proof (induction n rule: dune_symbol.induct)
  case (1 n)
  show ?case
  proof (cases n)
    case 0
    with 1 show ?thesis by simp
  next
    case (Suc m)
    have "m mod 26 < 26" by simp
    then have "65 + m mod 26 \<le> 90" by linarith
    with 1 Suc show ?thesis by (auto simp: dune_symbol_Suc)
  qed
qed

lemma length_dune_symbol: "n < 26 ^ k \<Longrightarrow> length (dune_symbol n) \<le> k"
proof (induction k arbitrary: n)
  case 0
  then show ?case by simp
next
  case (Suc k)
  show ?case
  proof (cases n)
    case (Suc m)
    with Suc.prems have "m div 26 < 26 ^ k" by simp
    with Suc.IH Suc show ?thesis by (simp add: dune_symbol_Suc)
  qed simp
qed

lemma length_dune_to_string: "n \<le> u128_max \<Longrightarrow> length (dune_to_string n) \<le> 28"
  using length_dune_symbol [of "Suc n" 28] by (simp add: dune_to_string_eq u128_max_def)

section \<open>Spaced names survive printing and parsing\<close>

lemma bit_length_less: "n < 2 ^ k \<Longrightarrow> bit_length n \<le> k"
proof (induction k arbitrary: n)
  case 0
  then show ?case by (simp add: bit_length.simps)
next
  case (Suc k)
  then have "n div 2 < 2 ^ k" by simp
  with Suc.IH show ?case by (simp add: bit_length.simps [of n])
qed

lemma and_push_bit_1: "(s :: nat) AND push_bit k 1 \<noteq> 0 \<longleftrightarrow> bit s k"
  by (simp add: push_bit_eq_mult and_exp_eq_0_iff_not_bit)

lemma take_bit_Suc_or:
  "take_bit (Suc k) (s :: nat) = (if bit s k then take_bit k s OR push_bit k 1 else take_bit k s)"
proof -
  have "take_bit k s < 2 ^ k" by simp
  then have "take_bit k s OR push_bit k 1 = take_bit k s + 2 ^ k"
    using or_push_bit_add [of "take_bit k s" k 1] by simp
  then show ?thesis by (simp add: take_bit_Suc_from_most)
qed

lemma spaced_step_letter:
  "65 \<le> c \<Longrightarrow> c \<le> 90 \<Longrightarrow> spaced_step c (d, s) = Inr (d @ [c], s)"
  by (simp add: spaced_step_def)

lemma spaced_step_bullet:
  assumes "length d = Suc k" and "k < 32" and "\<not> bit s k"
  shows "spaced_step bullet (d, s) = Inr (d, s OR push_bit k 1)"
  using assms and_push_bit_1 [of s k] by (simp add: spaced_step_def bullet_def checked_defs)

lemma spaced_parse_chars:
  assumes "set cs \<subseteq> {65..90}" and "i + length cs = len" and "length d = i" and "len \<le> 32"
  shows "res_fold spaced_step (spaced_chars len i s cs) (d, take_bit (min i (len - 1)) s) =
    Inr (d @ cs, take_bit (len - 1) s)"
  using assms
proof (induction cs arbitrary: i d)
  case Nil
  then show ?case by simp
next
  case (Cons c cs)
  let ?t = "take_bit (min i (len - 1)) s"
  have next_state: "res_fold spaced_step (c # (if i < len - 1 \<and> s AND push_bit i 1 \<noteq> 0 then [bullet] else []))
      (d, ?t) = Inr (d @ [c], take_bit (min (i + 1) (len - 1)) s)"
  proof (cases "i < len - 1")
    case True
    then show ?thesis
      using Cons.prems spaced_step_bullet [of "d @ [c]" i "take_bit i s"]
      by (simp add: spaced_step_letter and_exp_eq_0_iff_not_bit take_bit_Suc_or [simplified] bit_take_bit_iff)
  next
    case False
    then show ?thesis using Cons.prems by (simp add: spaced_step_letter min_def)
  qed
  have "res_fold spaced_step (spaced_chars len i s (c # cs)) (d, ?t) =
      res_bind (res_fold spaced_step
        (c # (if i < len - 1 \<and> s AND push_bit i 1 \<noteq> 0 then [bullet] else [])) (d, ?t))
        (res_fold spaced_step (spaced_chars len (i + 1) s cs))"
    by (simp only: spaced_chars.simps res_fold_append append_Cons [symmetric])
  also have "\<dots> = Inr (d @ c # cs, take_bit (len - 1) s)"
    unfolding next_state using Cons.IH [of "i + 1" "d @ [c]"] Cons.prems by simp
  finally show ?case .
qed

lemma spaced_round_trip_aux:
  assumes "n \<le> u128_max" and "s < 2 ^ (length (dune_to_string n) - 1)"
  shows "spaced_from_str (spaced_to_string \<lparr>sd_dune = n, sd_spacers = s\<rparr>) =
    Inr \<lparr>sd_dune = n, sd_spacers = s\<rparr>"
proof -
  let ?name = "dune_to_string n"
  have len: "length ?name \<le> 28" "0 < length ?name"
    using length_dune_to_string [OF assms(1)] by simp_all
  have set: "set ?name \<subseteq> {65..90}"
    using set_dune_symbol by (auto simp: dune_to_string_eq)
  have "res_fold spaced_step (spaced_chars (length ?name) 0 s ?name) ([], 0) = Inr (?name, s)"
    using spaced_parse_chars [OF set, of 0 "length ?name" "[]" s] len assms(2)
    by (simp add: take_bit_nat_eq_self)
  moreover have "bit_length s < length ?name"
    using bit_length_less [OF assms(2)] len(2) by linarith
  moreover have "dune_from_str ?name = Inr n"
    using dune_from_str_iff [of ?name n] assms(1) by simp
  ultimately show ?thesis using len
    by (simp add: spaced_from_str_def spaced_to_string_def checked_defs u32_max_def Let_def)
qed

section \<open>The unlock schedule\<close>

definition unlock :: "nat \<Rightarrow> nat \<Rightarrow> nat" where
  "unlock interval p =
    STEPS ! (12 - p div interval) -
      (STEPS ! (12 - p div interval) - STEPS ! (11 - p div interval)) * (p mod interval) div interval"

lemma steps_mono: "sorted STEPS"
  by (simp add: STEPS_def)

lemma steps_le: "i \<le> j \<Longrightarrow> j \<le> 12 \<Longrightarrow> STEPS ! i \<le> STEPS ! j"
  using sorted_nth_mono [OF steps_mono] by (simp add: STEPS_def)

lemma steps_12: "STEPS ! 12 = 99246114928149462"
  by (simp add: STEPS_def)

lemma unlock_bounds:
  assumes "p < 12 * interval"
  shows "STEPS ! (11 - p div interval) \<le> unlock interval p"
    and "unlock interval p \<le> STEPS ! (12 - p div interval)"
proof -
  let ?w = "STEPS ! (12 - p div interval) - STEPS ! (11 - p div interval)"
  have "p mod interval \<le> interval" "0 < interval" using assms by (auto intro: less_imp_le)
  then have "?w * (p mod interval) div interval \<le> ?w"
    by (metis div_le_mono mult_le_mono2 nonzero_mult_div_cancel_right not_gr0)
  moreover have "STEPS ! (11 - p div interval) \<le> STEPS ! (12 - p div interval)"
    by (rule steps_le) auto
  ultimately show "STEPS ! (11 - p div interval) \<le> unlock interval p"
    and "unlock interval p \<le> STEPS ! (12 - p div interval)"
    unfolding unlock_def by linarith+
qed

lemma unlock_antimono:
  assumes "p \<le> q" and "q < 12 * interval"
  shows "unlock interval q \<le> unlock interval p"
proof (cases "p div interval = q div interval")
  case True
  then have "p mod interval \<le> q mod interval" using assms
    by (metis add_le_cancel_left mult_div_mod_eq)
  then show ?thesis unfolding unlock_def True
    by (intro diff_le_mono2 div_le_mono mult_le_mono2)
next
  case False
  with assms have less: "p div interval < q div interval"
    by (simp add: div_le_mono le_neq_implies_less)
  have "unlock interval q \<le> STEPS ! (12 - q div interval)" using assms(2) by (rule unlock_bounds)
  also have "\<dots> \<le> STEPS ! (11 - p div interval)" using less by (intro steps_le) auto
  also have "\<dots> \<le> unlock interval p" using assms by (intro unlock_bounds) simp
  finally show ?thesis .
qed

text \<open>The last branch, for an interval \<open>i\<close> that divides the span into twelve equal parts.\<close>

lemma unlock_no_panic:
  assumes "p < 12 * i" and "i \<le> u32_max"
  shows "res_bind (sub_or_panic (saturating_sub 12 (p div i)) 1) (\<lambda>len1.
      res_bind (index_or_panic STEPS len1) (\<lambda>low.
      res_bind (index_or_panic STEPS (saturating_sub 12 (p div i))) (\<lambda>high.
      res_bind (sub_or_panic high low) (\<lambda>width.
      res_bind (mul_or_panic u128_max width (p mod i)) (\<lambda>part.
        sub_or_panic high (part div i)))))) = Inr (unlock i p)"
proof -
  define q r where "q = p div i" and "r = p mod i"
  have q: "q < 12" and r: "r < i"
    using assms(1) by (auto simp: q_def r_def less_mult_imp_div_less)
  let ?high = "STEPS ! (12 - q)" and ?low = "STEPS ! (11 - q)"
  have len: "12 - q < length STEPS" "11 - q < length STEPS" by (simp_all add: STEPS_def)
  have le: "?low \<le> ?high" "?high \<le> STEPS ! 12" by (rule steps_le; auto)+
  then have "?high - ?low \<le> 99246114928149462" using steps_12 by linarith
  then have "(?high - ?low) * r \<le> 99246114928149462 * u32_max"
    using r assms(2) by (intro mult_le_mono) auto
  also have "\<dots> \<le> u128_max" by (simp add: width_defs)
  finally have m: "(?high - ?low) * r \<le> u128_max" .
  have "(?high - ?low) * r div i \<le> (?high - ?low) * i div i"
    using r by (intro div_le_mono mult_le_mono2) simp
  then have "(?high - ?low) * r div i \<le> ?high - ?low" using r by simp
  then have s: "(?high - ?low) * r div i \<le> ?high" by linarith
  have "saturating_sub 12 q = 12 - q" using q by (simp add: saturating_sub_def)
  moreover have "1 \<le> 12 - q" "12 - q - 1 = 11 - q" using q by simp_all
  ultimately show ?thesis
    using len le m s unfolding unlock_def q_def [symmetric] r_def [symmetric]
    by (simp add: sub_or_panic_def index_or_panic_def mul_or_panic_def)
qed

lemma minimum_at_height_eq:
  assumes "0 < halving" and "6 dvd halving" and "first_dune_height chain + 10 * halving \<le> u32_max"
  shows "minimum_at_height halving chain height = Inr
    (let offset = saturating_add u32_max height 1; start = first_dune_height chain
     in if offset < start then STEPS ! 12
        else if start + 10 * halving \<le> offset then 0
        else unlock (10 * halving div 12) (offset - start))"
proof -
  define i where "i = 10 * halving div 12"
  obtain k where k: "halving = 6 * k" using assms(2) by (auto simp: dvd_def)
  have tf: "halving * 10 div 12 = i" "10 * halving = 12 * i" "i \<noteq> 0"
    using k assms(1) by (auto simp: i_def mult.commute)
  define offset start where "offset = saturating_add u32_max height 1" and "start = first_dune_height chain"
  have e: "add_or_panic u32_max start (halving * 10) = Inr (start + 12 * i)"
    using assms(3) tf(2) by (simp add: add_or_panic_def start_def)
  have i: "i \<le> u32_max" using assms(3) tf(2) by linarith
  have twelve: "index_or_panic STEPS 12 = Inr (STEPS ! 12)"
    by (simp add: index_or_panic_def STEPS_def)
  have sub: "\<not> offset < start \<Longrightarrow> saturating_sub offset start = offset - start"
    by (simp add: saturating_sub_def)
  have "minimum_at_height halving chain height = Inr
    (if offset < start then STEPS ! 12
     else if start + 12 * i \<le> offset then 0
     else unlock i (offset - start))"
    unfolding minimum_at_height_def Let_def offset_def [symmetric] start_def [symmetric] e tf(1)
    using sub tf(3) i by (auto simp: twelve unlock_no_panic [simplified])
  then show ?thesis by (simp add: Let_def offset_def start_def tf(2))
qed

text \<open>
  C35: over the whole schedule the minimum dune name never panics and never rises: for a
  halving interval that is a positive multiple of six and ends within \<open>u32\<close>, every height
  has a minimum, it is \<open>STEPS[12]\<close>
  (a name of thirteen letters) before the start, is zero once the
  schedule has ended, and a later height never has a larger one. The start is
  \<open>Chain::first_dune_height\<close>; the unit tests beside the function are written for other starts on
  mainnet (5058400) and testnet (twelve times ten halving intervals) and contradict the code there.
\<close>

theorem minimum_at_height_schedule:
  assumes "0 < halving" and "6 dvd halving" and "first_dune_height chain + 10 * halving \<le> u32_max"
    and "height \<le> height'"
  shows "\<exists>m m'. minimum_at_height halving chain height = Inr m \<and>
    minimum_at_height halving chain height' = Inr m' \<and> m' \<le> m \<and> m \<le> STEPS ! 12 \<and>
    (first_dune_height chain + 10 * halving \<le> height \<longrightarrow> m = 0) \<and>
    (height + 1 < first_dune_height chain \<longrightarrow> m = STEPS ! 12)"
proof -
  define i where "i = 10 * halving div 12"
  obtain k where k: "halving = 6 * k" using assms(2) by (auto simp: dvd_def)
  have tf: "10 * halving = 12 * i" using k by (simp add: i_def)
  let ?start = "first_dune_height chain"
  define m where "m o' = (if o' < ?start then STEPS ! 12
     else if ?start + 12 * i \<le> o' then 0 else unlock i (o' - ?start))" for o'
  have eq: "minimum_at_height halving chain h = Inr (m (saturating_add u32_max h 1))" for h
    using minimum_at_height_eq [OF assms(1-3), of h] by (simp add: m_def Let_def tf)
  have top: "unlock i p \<le> STEPS ! 12" if "p < 12 * i" for p
    using unlock_bounds(2) [OF that] steps_le [of "12 - p div i" 12] by simp
  have anti: "m b \<le> m a" if "a \<le> b" for a b
    using that top [of "b - ?start"] unlock_antimono [of "a - ?start" "b - ?start" i]
    by (auto simp: m_def)
  have "saturating_add u32_max height 1 \<le> saturating_add u32_max height' 1"
    using assms(4) by (simp add: saturating_add_def)
  then have "m (saturating_add u32_max height' 1) \<le> m (saturating_add u32_max height 1)"
    by (rule anti)
  moreover have "m a \<le> STEPS ! 12" for a using top [of "a - ?start"] by (auto simp: m_def)
  moreover have "m (saturating_add u32_max height 1) = 0" if "?start + 12 * i \<le> height"
    using that assms(3) tf by (auto simp: m_def saturating_add_def)
  moreover have "m (saturating_add u32_max height 1) = STEPS ! 12" if "height + 1 < ?start"
    using that assms(3) by (auto simp: m_def saturating_add_def)
  ultimately show ?thesis unfolding eq tf by auto
qed

theorem minimum_at_height_schedule_witness:
  "(\<exists>m m'. minimum_at_height 210000 Mainnet 5084000 = Inr m \<and>
     minimum_at_height 210000 Mainnet 6000000 = Inr m' \<and> m' \<le> m) \<and>
   minimum_at_height 210000 Mainnet 5058400 = Inr (STEPS ! 12) \<and> minimum_at_height 210000 Testnet 25200000 = Inr 0"
proof -
  note ex = minimum_at_height_schedule [of 210000]
  show ?thesis using ex [of Mainnet 5084000 6000000] ex [of Mainnet 5058400 5058400] ex [of Testnet 25200000 25200000]
    by (auto simp: width_defs)
qed

text \<open>
  C34: dune names and dune numbers determine each other: a non-empty string parses to \<open>n\<close> exactly
  when \<open>n\<close> is a \<open>u128\<close> and the string is the name printed for \<open>n\<close>.
\<close>

theorem dune_name_number:
  assumes "s \<noteq> []"
  shows "dune_from_str s = Inr n \<longleftrightarrow> n \<le> u128_max \<and> dune_to_string n = s"
  using assms by (rule dune_from_str_iff)

theorem dune_name_number_witness:
  "dune_from_str (dune_to_string 99246114928149462) = Inr 99246114928149462"
proof -
  note ex = dune_name_number [of "dune_to_string 99246114928149462" 99246114928149462]
  show ?thesis using ex by (simp add: u128_max_def)
qed

text \<open>
  A spaced name whose spacers all lie between two letters of its dune's name is read back
  from its printed form.
\<close>

theorem spaced_dune_round_trip:
  assumes "sd_dune sd \<le> u128_max" and "sd_spacers sd < 2 ^ (length (dune_to_string (sd_dune sd)) - 1)"
  shows "spaced_from_str (spaced_to_string sd) = Inr sd"
  using spaced_round_trip_aux [OF assms] by (cases sd) simp

theorem spaced_dune_round_trip_witness:
  "spaced_from_str (spaced_to_string \<lparr>sd_dune = 18278, sd_spacers = 5\<rparr>) =
    Inr \<lparr>sd_dune = 18278, sd_spacers = 5\<rparr>"
proof -
  note ex = spaced_dune_round_trip [of "\<lparr>sd_dune = 18278, sd_spacers = 5\<rparr>"]
  show ?thesis using ex by (simp add: u128_max_def dune_to_string_def dune_symbol.simps)
qed

text \<open>
  The increment before each further letter is a plain \<open>+=\<close>: the name of \<open>u128::MAX\<close> followed by
  any letter overflows there instead of being reported as out of range.
\<close>

lemma dune_from_str_overflow:
  "dune_from_str (dune_to_string u128_max @ [c]) = Inl (DunePanic Overflow)"
proof -
  have "res_fold dune_from_str_step (dune_to_string u128_max) (0, 0) =
      Inr (length (dune_to_string u128_max), u128_max)"
    using dune_parse_symbol [of "Suc u128_max"] by (simp add: dune_to_string_eq)
  then show ?thesis
    by (simp add: dune_from_str_def res_fold_append dune_from_str_step_def add_or_panic_def)
qed

end
