(* ===== verification/Dunestone.thy ===== *)
theory Dunestone
  imports Varint Dune_Name
begin

text \<open>
  Dunestones, the protocol messages of the dunes (\<open>src/dunes.rs\<close>, \<open>src/dunes/{dune_id, edict,
  etching, terms, flag, tag, dunestone}.rs\<close>). A message is a list of integers: pairs of a tag
  and a number, then after the tag \<open>Body\<close> triples (id delta, amount, output). \<open>decipher\<close> reads it from
  the pushes of the first output that starts with \<open>OP_RETURN "D"\<close>, \<open>encipher\<close> builds such a
  script. Scripts belong to the bitcoin library: the model takes the two operations used on
  them, iterating over the instructions and building from a list of them, as the record
  \<open>script_api\<close>.
\<close>

section \<open>Transactions and scripts\<close>

datatype instruction = Op nat | PushBytes "byte list"

datatype script_error = ScriptError

text \<open>
  \<open>instructions\<close> is the sequence of results the iterator yields; \<open>into_script\<close> is the
  \<open>Builder\<close> applied to a list of opcode and slice pushes; \<open>max_element\<close> is
  \<open>MAX_SCRIPT_ELEMENT_SIZE\<close>.
\<close>

record 's script_api =
  instructions :: "'s \<Rightarrow> (script_error + instruction) list"
  into_script :: "instruction list \<Rightarrow> 's"
  is_op_return :: "'s \<Rightarrow> bool"
  max_element :: nat

definition OP_RETURN :: nat where "OP_RETURN = 0x6a"

text \<open>
  What the round trip relies on: a script built as \<open>OP_RETURN\<close> and a sequence of slice pushes, each at
  most an element long, is read back instruction by instruction.
\<close>

definition script_reads_back :: "'s script_api \<Rightarrow> bool" where
  "script_reads_back api \<longleftrightarrow> 0 < max_element api \<and>
    (\<forall>pushes. (\<forall>p\<in>set pushes. length p \<le> max_element api) \<longrightarrow>
      instructions api (into_script api (Op OP_RETURN # map PushBytes pushes)) =
        Inr (Op OP_RETURN) # map (Inr \<circ> PushBytes) pushes)"

type_synonym txid = "byte list"

record outpoint =
  op_txid :: txid
  op_vout :: u32

record 's txout =
  txo_amount :: u64
  txo_script :: 's

record 's transaction =
  tx_input :: "outpoint list"
  tx_output :: "'s txout list"

section \<open>Constants, flags and tags\<close>

definition CLAIM_BIT :: u128 where "CLAIM_BIT = 2 ^ 48"
definition MAX_DIVISIBILITY :: u8 where "MAX_DIVISIBILITY = 38"
definition MAX_LIMIT :: u128 where "MAX_LIMIT = u64_max"
definition MAX_SPACERS :: u32 where "MAX_SPACERS = 0x07FFFFFF"

datatype flag = EtchingFlag | TermsFlag | TurboFlag | CenotaphFlag

fun flag_bit :: "flag \<Rightarrow> nat" where
  "flag_bit EtchingFlag = 0"
| "flag_bit TermsFlag = 1"
| "flag_bit TurboFlag = 2"
| "flag_bit CenotaphFlag = 127"

definition flag_mask :: "flag \<Rightarrow> u128" where
  "flag_mask f = push_bit (flag_bit f) 1"

definition flag_take :: "flag \<Rightarrow> u128 \<Rightarrow> bool \<times> u128" where
  "flag_take f flags = (flags AND flag_mask f \<noteq> 0, flags AND (u128_max - flag_mask f))"

definition flag_set :: "flag \<Rightarrow> u128 \<Rightarrow> u128" where
  "flag_set f flags = flags OR flag_mask f"

datatype tag =
  Body | Flags | Dune | Limit | OffsetEnd | Deadline | Pointer | HeightStart | OffsetStart
  | HeightEnd | Cap | Premine | Cenotaph | Divisibility | Spacers | Symbol | Nop

fun tag_code :: "tag \<Rightarrow> u128" where
  "tag_code Body = 0"
| "tag_code Flags = 2"
| "tag_code Dune = 4"
| "tag_code Limit = 6"
| "tag_code OffsetEnd = 8"
| "tag_code Deadline = 10"
| "tag_code Pointer = 12"
| "tag_code HeightStart = 14"
| "tag_code OffsetStart = 16"
| "tag_code HeightEnd = 18"
| "tag_code Cap = 20"
| "tag_code Premine = 22"
| "tag_code Cenotaph = 254"
| "tag_code Divisibility = 1"
| "tag_code Spacers = 3"
| "tag_code Symbol = 5"
| "tag_code Nop = 255"

definition tag_take :: "tag \<Rightarrow> (u128, u128) hashmap \<Rightarrow> u128 option \<times> (u128, u128) hashmap" where
  "tag_take t fs = (map_of fs (tag_code t), AList.delete (tag_code t) fs)"

definition tag_encode :: "tag \<Rightarrow> u128 \<Rightarrow> byte list \<Rightarrow> byte list may_panic" where
  "tag_encode t n payload = res_bind (encode_to_vec (tag_code t) payload) (encode_to_vec n)"

section \<open>Dune ids\<close>

record dune_id =
  di_height :: u64
  di_index :: u32

definition dune_id_try_from :: "u128 \<Rightarrow> dune_id option" where
  "dune_id_try_from n =
    (case try_from u64_max (drop_bit 16 n) of
       None \<Rightarrow> None
     | Some h \<Rightarrow> Some \<lparr>di_height = h, di_index = n AND 0xFFFF\<rparr>)"

definition dune_id_to_u128 :: "dune_id \<Rightarrow> u128" where
  "dune_id_to_u128 d = push_bit 16 (di_height d) OR di_index d"

section \<open>Edicts, etchings, dunestones\<close>

record edict =
  ed_id :: u128
  ed_amount :: u128
  ed_output :: u128

record terms =
  t_limit :: "u128 option"
  t_cap :: "u128 option"
  t_height :: "u64 option \<times> u64 option"
  t_offset :: "u64 option \<times> u64 option"

record etching =
  e_divisibility :: "u8 option"
  e_terms :: "terms option"
  e_premine :: "u128 option"
  e_dune :: "u128 option"
  e_spacers :: "u32 option"
  e_symbol :: "rchar option"
  e_turbo :: bool

record dunestone =
  ds_edicts :: "edict list"
  ds_etching :: "etching option"
  ds_pointer :: "u32 option"
  ds_cenotaph :: bool

definition edict_from_integers :: "'s transaction \<Rightarrow> u128 \<Rightarrow> u128 \<Rightarrow> u128 \<Rightarrow> edict option" where
  "edict_from_integers tx did amount output =
    (case dune_id_try_from did of
       None \<Rightarrow> None
     | Some dune_id \<Rightarrow>
         if di_height dune_id = 0 \<and> di_index dune_id > 0 then None
         else if output > length (tx_output tx) then None
         else Some \<lparr>ed_id = did, ed_amount = amount, ed_output = output\<rparr>)"

record message =
  m_cenotaph :: bool
  m_fields :: "(u128, u128) hashmap"
  m_edicts :: "edict list"

definition edict_chunk :: "'s transaction \<Rightarrow> u128 list \<Rightarrow> u128 \<times> bool \<times> edict list \<Rightarrow> u128 \<times> bool \<times> edict list" where
  "edict_chunk tx chunk s =
    (let (did, cenotaph, edicts) = s;
         did = saturating_add u128_max did (chunk ! 0)
     in case edict_from_integers tx did (chunk ! 1) (chunk ! 2) of
          Some edict \<Rightarrow> (did, cenotaph, edicts @ [edict])
        | None \<Rightarrow> (did, True, edicts))"

text \<open>\<open>Message::from_integers\<close>: the second argument is \<open>payload[i..]\<close> for the even index \<open>i\<close>.\<close>

definition or_insert :: "'k \<Rightarrow> 'v \<Rightarrow> ('k, 'v) hashmap \<Rightarrow> ('k, 'v) hashmap" where
  "or_insert k v m = (case map_of m k of None \<Rightarrow> hm_insert k v m | Some _ \<Rightarrow> m)"

fun message_loop :: "'s transaction \<Rightarrow> u128 list \<Rightarrow> (u128, u128) hashmap \<Rightarrow> message" where
  "message_loop tx [] fs = \<lparr>m_cenotaph = False, m_fields = fs, m_edicts = []\<rparr>"
| "message_loop tx (tag # rest) fs =
    (if tag = tag_code Body then
       (let (_, cenotaph, edicts) = fold (edict_chunk tx) (chunks_exact 3 rest) (0, False, [])
        in \<lparr>m_cenotaph = cenotaph, m_fields = fs, m_edicts = edicts\<rparr>)
     else (case rest of
             [] \<Rightarrow> \<lparr>m_cenotaph = False, m_fields = fs, m_edicts = []\<rparr>
           | v # rest' \<Rightarrow> message_loop tx rest' (or_insert tag v fs)))"

definition message_from_integers :: "'s transaction \<Rightarrow> u128 list \<Rightarrow> message" where
  "message_from_integers tx payload = message_loop tx payload []"

definition char_from_u32 :: "u32 \<Rightarrow> rchar option" where
  "char_from_u32 n = (if n < 0xD800 \<or> (0xE000 \<le> n \<and> n \<le> 0x10FFFF) then Some n else None)"

definition filter_opt :: "('a \<Rightarrow> bool) \<Rightarrow> 'a option \<Rightarrow> 'a option" where
  "filter_opt P x = (case x of Some a \<Rightarrow> if P a then Some a else None | None \<Rightarrow> None)"

definition unwrap_or_default :: "nat option \<Rightarrow> nat" where
  "unwrap_or_default x = (case x of None \<Rightarrow> 0 | Some n \<Rightarrow> n)"

text \<open>The supply check: the premine and all mints together must fit a \<open>u128\<close>.\<close>

definition supply_overflow :: "u128 option \<Rightarrow> u128 option \<Rightarrow> u128 option \<Rightarrow> bool" where
  "supply_overflow premine cap limit \<longleftrightarrow>
    (case checked_mul u128_max (unwrap_or_default cap) (unwrap_or_default limit) of
       None \<Rightarrow> True
     | Some m \<Rightarrow> checked_add u128_max (unwrap_or_default premine) m = None)"

text \<open>\<open>decipher\<close> after the payload has been found and split into integers.\<close>

definition decipher_integers :: "'s transaction \<Rightarrow> u128 list \<Rightarrow> dunestone" where
  "decipher_integers tx integers =
    (let msg = message_from_integers tx integers;
         (pointer, fs) = tag_take Pointer (m_fields msg);
         pointer = filter_opt (\<lambda>n. n \<le> u32_max) pointer;
         (divisibility, fs) = tag_take Divisibility fs;
         divisibility = filter_opt (\<lambda>n. n \<le> MAX_DIVISIBILITY) (filter_opt (\<lambda>n. n \<le> u8_max) divisibility);
         (limit, fs) = tag_take Limit fs;
         limit = map_option (\<lambda>n. min n MAX_LIMIT) limit;
         (dune, fs) = tag_take Dune fs;
         (cap, fs) = tag_take Cap fs;
         (premine, fs) = tag_take Premine fs;
         edicts = (if unwrap_or_default premine > 0
                   then m_edicts msg @ [\<lparr>ed_id = 0, ed_amount = unwrap_or_default premine, ed_output = 1\<rparr>]
                   else m_edicts msg);
         (spacers, fs) = tag_take Spacers fs;
         spacers = filter_opt (\<lambda>n. n \<le> MAX_SPACERS) (filter_opt (\<lambda>n. n \<le> u32_max) spacers);
         (symbol, fs) = tag_take Symbol fs;
         symbol = Option.bind (filter_opt (\<lambda>n. n \<le> u32_max) symbol) char_from_u32;
         (height_start, fs) = tag_take HeightStart fs;
         (height_end, fs) = tag_take HeightEnd fs;
         height = (filter_opt (\<lambda>n. n \<le> u64_max) height_start, filter_opt (\<lambda>n. n \<le> u64_max) height_end);
         (offset_start, fs) = tag_take OffsetStart fs;
         (offset_end, fs) = tag_take OffsetEnd fs;
         offset = (filter_opt (\<lambda>n. n \<le> u64_max) offset_start, filter_opt (\<lambda>n. n \<le> u64_max) offset_end);
         (flags, fs) = tag_take Flags fs;
         (etch, flags) = flag_take EtchingFlag (unwrap_or_default flags);
         (terms, flags) = flag_take TermsFlag flags;
         (turbo, flags) = flag_take TurboFlag flags;
         overflow = supply_overflow premine cap limit;
         etching = (if etch then Some
             \<lparr>e_divisibility = divisibility,
              e_terms = (if terms then Some \<lparr>t_limit = limit, t_cap = cap, t_height = height, t_offset = offset\<rparr>
                         else None),
              e_premine = premine, e_dune = dune, e_spacers = spacers, e_symbol = symbol, e_turbo = turbo\<rparr>
           else None)
     in \<lparr>ds_edicts = edicts, ds_etching = etching, ds_pointer = pointer,
         ds_cenotaph = (m_cenotaph msg \<or> overflow \<or> flags \<noteq> 0 \<or> (\<exists>tag\<in>fst ` set fs. even tag))\<rparr>)"

text \<open>\<open>payload\<close>: \<open>instructions.next().transpose()?\<close>, then the pushes of the rest of the script.\<close>

fun next_instruction ::
  "(script_error + instruction) list \<Rightarrow> script_error + (instruction option \<times> (script_error + instruction) list)" where
  "next_instruction [] = Inr (None, [])"
| "next_instruction (Inl e # is) = Inl e"
| "next_instruction (Inr i # is) = Inr (Some i, is)"

fun collect_pushes :: "(script_error + instruction) list \<Rightarrow> byte list \<Rightarrow> script_error + byte list" where
  "collect_pushes [] payload = Inr payload"
| "collect_pushes (Inl e # is) payload = Inl e"
| "collect_pushes (Inr (PushBytes push) # is) payload = collect_pushes is (payload @ push)"
| "collect_pushes (Inr (Op _) # is) payload = collect_pushes is payload"

fun payload_outputs :: "'s script_api \<Rightarrow> 's txout list \<Rightarrow> script_error + byte list option" where
  "payload_outputs api [] = Inr None"
| "payload_outputs api (output # outputs) =
    res_bind (next_instruction (instructions api (txo_script output))) (\<lambda>(first, is).
    if first \<noteq> Some (Op OP_RETURN) then payload_outputs api outputs
    else res_bind (next_instruction is) (\<lambda>(second, is).
      if second \<noteq> Some (PushBytes [0x44]) then payload_outputs api outputs
      else res_bind (collect_pushes is []) (\<lambda>payload. Inr (Some payload))))"

definition dunestone_payload :: "'s script_api \<Rightarrow> 's transaction \<Rightarrow> script_error + byte list option" where
  "dunestone_payload api tx = payload_outputs api (tx_output tx)"

definition integers :: "byte list \<Rightarrow> u128 list" where
  "integers payload = decode_seq decode payload"

definition decipher :: "'s script_api \<Rightarrow> 's transaction \<Rightarrow> script_error + dunestone option" where
  "decipher api tx = res_bind (dunestone_payload api tx) (\<lambda>p.
    case p of
      None \<Rightarrow> Inr None
    | Some payload \<Rightarrow> Inr (Some (decipher_integers tx (integers payload))))"

definition from_transaction :: "'s script_api \<Rightarrow> 's transaction \<Rightarrow> dunestone option" where
  "from_transaction api tx = (case decipher api tx of Inl e \<Rightarrow> None | Inr d \<Rightarrow> d)"

section \<open>Encipher\<close>

definition encode_opt :: "tag \<Rightarrow> u128 option \<Rightarrow> byte list \<Rightarrow> byte list may_panic" where
  "encode_opt t x payload = (case x of None \<Rightarrow> Inr payload | Some n \<Rightarrow> tag_encode t n payload)"

definition encipher_etching :: "etching \<Rightarrow> byte list \<Rightarrow> byte list may_panic" where
  "encipher_etching etching payload =
    (let flags = flag_set EtchingFlag 0;
         flags = (if e_terms etching \<noteq> None then flag_set EtchingFlag flags else flags)
     in res_bind (tag_encode Flags flags payload) (\<lambda>p.
        res_bind (encode_opt Dune (e_dune etching) p) (\<lambda>p.
        res_bind (encode_opt Divisibility (e_divisibility etching) p) (\<lambda>p.
        res_bind (encode_opt Spacers (e_spacers etching) p) (\<lambda>p.
        res_bind (encode_opt Symbol (e_symbol etching) p) (\<lambda>p.
        res_bind (encode_opt Premine (e_premine etching) p) (\<lambda>p.
        (case e_terms etching of
           None \<Rightarrow> Inr p
         | Some mint \<Rightarrow>
             res_bind (encode_opt Limit (t_limit mint) p) (\<lambda>p.
             res_bind (encode_opt HeightEnd (snd (t_height mint)) p) (\<lambda>p.
             encode_opt Cap (t_cap mint) p))))))))))"

definition encipher_edict :: "edict \<Rightarrow> u128 \<times> byte list \<Rightarrow> rust_panic + (u128 \<times> byte list)" where
  "encipher_edict edict s =
    (let (did, payload) = s
     in res_bind (sub_or_panic (ed_id edict) did) (\<lambda>delta.
        res_bind (encode_to_vec delta payload) (\<lambda>p.
        res_bind (encode_to_vec (ed_amount edict) p) (\<lambda>p.
        res_bind (encode_to_vec (ed_output edict) p) (\<lambda>p.
        Inr (ed_id edict, p))))))"

definition encipher_payload :: "dunestone \<Rightarrow> byte list may_panic" where
  "encipher_payload d =
    res_bind (case ds_etching d of None \<Rightarrow> Inr [] | Some e \<Rightarrow> encipher_etching e []) (\<lambda>p.
    res_bind (encode_opt Pointer (ds_pointer d) p) (\<lambda>p.
    res_bind (if ds_cenotaph d then tag_encode Cenotaph 0 p else Inr p) (\<lambda>p.
    if ds_edicts d \<noteq> [] then
      res_bind (encode_to_vec (tag_code Body) p) (\<lambda>p.
      res_bind (res_fold encipher_edict (sort_key ed_id (ds_edicts d)) (0, p)) (\<lambda>(did, p). Inr p))
    else Inr p)))"

definition encipher :: "'s script_api \<Rightarrow> dunestone \<Rightarrow> 's may_panic" where
  "encipher api d = res_bind (encipher_payload d) (\<lambda>payload.
    Inr (into_script api
      (Op OP_RETURN # PushBytes [0x44] # map PushBytes (chunks (max_element api) payload))))"

section \<open>Dune ids as integers\<close>

lemma dune_id_parts:
  assumes "di_index d < 2 ^ 16"
  shows "dune_id_to_u128 d = di_height d * 2 ^ 16 + di_index d"
  using or_push_bit_add [OF assms, of "di_height d"]
  by (simp add: dune_id_to_u128_def or.commute)

lemma and_0xFFFF: "(n :: nat) AND 0xFFFF = n mod 2 ^ 16"
  using take_bit_eq_mask [of 16 n] by (simp add: mask_eq_exp_minus_1 take_bit_eq_mod)

lemma dune_id_try_from_Some:
  "dune_id_try_from n = Some d \<longleftrightarrow>
    n div 2 ^ 16 \<le> u64_max \<and> d = \<lparr>di_height = n div 2 ^ 16, di_index = n mod 2 ^ 16\<rparr>"
  by (auto simp: dune_id_try_from_def drop_bit_eq_div and_0xFFFF try_from_def)

lemma dune_id_try_from_less: "dune_id_try_from n = Some d \<Longrightarrow> n < 2 ^ 80"
  by (auto simp: dune_id_try_from_Some u64_max_def div_le_mono)

text \<open>
  The integer form of a dune id: an id whose index fits 16 bits is recovered from its
  \<open>u128\<close>, every integer that is an id is the integer of the id read from it, and an integer is
  an id exactly when it is below \<open>2^80\<close>.
\<close>

theorem dune_id_integer:
  "(dune_id_try_from n \<noteq> None \<longleftrightarrow> n < 2 ^ 80) \<and>
   (\<forall>d. dune_id_try_from n = Some d \<longrightarrow> dune_id_to_u128 d = n) \<and>
   (\<forall>d. di_height d \<le> u64_max \<and> di_index d < 2 ^ 16 \<longrightarrow>
     dune_id_try_from (dune_id_to_u128 d) = Some d)"
proof (intro conjI allI impI)
  show "dune_id_try_from n \<noteq> None \<longleftrightarrow> n < 2 ^ 80"
    by (auto simp: dune_id_try_from_def drop_bit_eq_div try_from_def u64_max_def)
next
  fix d assume "dune_id_try_from n = Some d"
  then show "dune_id_to_u128 d = n" by (auto simp: dune_id_try_from_Some dune_id_parts)
next
  fix d :: dune_id assume "di_height d \<le> u64_max \<and> di_index d < 2 ^ 16"
  then show "dune_id_try_from (dune_id_to_u128 d) = Some d"
    by (simp add: dune_id_try_from_Some dune_id_parts)
qed

theorem dune_id_integer_witness:
  "dune_id_try_from (dune_id_to_u128 \<lparr>di_height = 3, di_index = 1\<rparr>) =
    Some \<lparr>di_height = 3, di_index = 1\<rparr>"
proof -
  note ex = dune_id_integer [of 0]
  show ?thesis using ex by (simp add: u64_max_def)
qed

section \<open>What a dunestone transmits\<close>

text \<open>
  The message of a dunestone as a list of integers: the present fields as pairs of tag and
  number, then the edicts in the order of their ids with the ids as differences.
\<close>

definition opt_pair :: "tag \<Rightarrow> u128 option \<Rightarrow> (u128 \<times> u128) list" where
  "opt_pair t x = (case x of None \<Rightarrow> [] | Some n \<Rightarrow> [(tag_code t, n)])"

definition etching_fields :: "etching \<Rightarrow> (u128 \<times> u128) list" where
  "etching_fields e =
    (tag_code Flags, 1) # opt_pair Dune (e_dune e) @ opt_pair Divisibility (e_divisibility e) @
    opt_pair Spacers (e_spacers e) @ opt_pair Symbol (e_symbol e) @ opt_pair Premine (e_premine e) @
    (case e_terms e of None \<Rightarrow> []
     | Some t \<Rightarrow> opt_pair Limit (t_limit t) @ opt_pair HeightEnd (snd (t_height t)) @ opt_pair Cap (t_cap t))"

definition dunestone_fields :: "dunestone \<Rightarrow> (u128 \<times> u128) list" where
  "dunestone_fields d =
    (case ds_etching d of None \<Rightarrow> [] | Some e \<Rightarrow> etching_fields e) @ opt_pair Pointer (ds_pointer d) @
    (if ds_cenotaph d then [(tag_code Cenotaph, 0)] else [])"

definition pair_ints :: "(u128 \<times> u128) list \<Rightarrow> u128 list" where
  "pair_ints ps = concat (map (\<lambda>(t, n). [t, n]) ps)"

fun edict_ints :: "u128 \<Rightarrow> edict list \<Rightarrow> u128 list" where
  "edict_ints prev [] = []"
| "edict_ints prev (e # es) = [ed_id e - prev, ed_amount e, ed_output e] @ edict_ints (ed_id e) es"

definition dunestone_ints :: "dunestone \<Rightarrow> u128 list" where
  "dunestone_ints d = pair_ints (dunestone_fields d) @
    (if ds_edicts d = [] then [] else tag_code Body # edict_ints 0 (sort_key ed_id (ds_edicts d)))"

definition ints_bytes :: "u128 list \<Rightarrow> byte list" where
  "ints_bytes ns = concat (map varint_bytes ns)"

lemma ints_bytes_simps [simp]:
  "ints_bytes [] = []" "ints_bytes (n # ns) = varint_bytes n @ ints_bytes ns"
  "ints_bytes (ms @ ns) = ints_bytes ms @ ints_bytes ns"
  by (simp_all add: ints_bytes_def)

lemma pair_ints_simps [simp]:
  "pair_ints [] = []" "pair_ints ((t, n) # ps) = t # n # pair_ints ps"
  "pair_ints (ps @ qs) = pair_ints ps @ pair_ints qs"
  by (simp_all add: pair_ints_def)

lemma tag_code_le: "tag_code t \<le> u128_max"
  by (cases t) (simp_all add: u128_max_def)

lemma tag_encode_eq:
  "n \<le> u128_max \<Longrightarrow> tag_encode t n p = Inr (p @ ints_bytes [tag_code t, n])"
  by (simp add: tag_encode_def encode_to_vec_eq tag_code_le)

lemma encode_opt_eq:
  "(\<And>n. x = Some n \<Longrightarrow> n \<le> u128_max) \<Longrightarrow>
    encode_opt t x p = Inr (p @ ints_bytes (pair_ints (opt_pair t x)))"
  by (cases x) (simp_all add: encode_opt_def opt_pair_def tag_encode_eq)

text \<open>The bounds that Rust's types give the fields of an etching and of an edict.\<close>

definition opt_le :: "nat \<Rightarrow> nat option \<Rightarrow> bool" where
  "opt_le mx x \<longleftrightarrow> (case x of None \<Rightarrow> True | Some n \<Rightarrow> n \<le> mx)"

definition terms_typed :: "terms \<Rightarrow> bool" where
  "terms_typed t \<longleftrightarrow> opt_le u128_max (t_limit t) \<and> opt_le u128_max (t_cap t) \<and>
    opt_le u64_max (fst (t_height t)) \<and> opt_le u64_max (snd (t_height t)) \<and>
    opt_le u64_max (fst (t_offset t)) \<and> opt_le u64_max (snd (t_offset t))"

definition etching_typed :: "etching \<Rightarrow> bool" where
  "etching_typed e \<longleftrightarrow> opt_le u8_max (e_divisibility e) \<and> opt_le u128_max (e_premine e) \<and>
    opt_le u128_max (e_dune e) \<and> opt_le u32_max (e_spacers e) \<and>
    (case e_symbol e of None \<Rightarrow> True | Some c \<Rightarrow> char_from_u32 c = Some c) \<and>
    (case e_terms e of None \<Rightarrow> True | Some t \<Rightarrow> terms_typed t)"

definition edict_typed :: "edict \<Rightarrow> bool" where
  "edict_typed e \<longleftrightarrow> ed_id e \<le> u128_max \<and> ed_amount e \<le> u128_max \<and> ed_output e \<le> u128_max"

definition dunestone_typed :: "dunestone \<Rightarrow> bool" where
  "dunestone_typed d \<longleftrightarrow> list_all edict_typed (ds_edicts d) \<and> opt_le u32_max (ds_pointer d) \<and>
    (case ds_etching d of None \<Rightarrow> True | Some e \<Rightarrow> etching_typed e)"

lemma opt_le_trans: "opt_le m x \<Longrightarrow> m \<le> mx \<Longrightarrow> x = Some n \<Longrightarrow> n \<le> mx"
  by (simp add: opt_le_def)

lemma width_order: "u8_max \<le> u128_max" "u32_max \<le> u128_max" "u64_max \<le> u128_max"
  by (simp_all add: width_defs)

lemma char_le: "char_from_u32 c = Some c' \<Longrightarrow> c \<le> u32_max \<and> c' = c"
  by (auto simp: char_from_u32_def u32_max_def split: if_splits)

lemma encipher_etching_eq:
  assumes "etching_typed e"
  shows "encipher_etching e p = Inr (p @ ints_bytes (pair_ints (etching_fields e)))"
proof -
  have flags: "flag_set EtchingFlag 0 = 1" "flag_set EtchingFlag 1 = 1"
    by (simp_all add: flag_set_def flag_mask_def)
  have one: "(1 :: nat) \<le> u128_max" by (simp add: u128_max_def)
  have enc: "encode_opt Dune (e_dune e) q = Inr (q @ ints_bytes (pair_ints (opt_pair Dune (e_dune e))))"
    "encode_opt Divisibility (e_divisibility e) q =
      Inr (q @ ints_bytes (pair_ints (opt_pair Divisibility (e_divisibility e))))"
    "encode_opt Spacers (e_spacers e) q = Inr (q @ ints_bytes (pair_ints (opt_pair Spacers (e_spacers e))))"
    "encode_opt Symbol (e_symbol e) q = Inr (q @ ints_bytes (pair_ints (opt_pair Symbol (e_symbol e))))"
    "encode_opt Premine (e_premine e) q = Inr (q @ ints_bytes (pair_ints (opt_pair Premine (e_premine e))))"
    for q
    using assms width_order
    by (auto simp: etching_typed_def intro!: encode_opt_eq elim: opt_le_trans dest!: char_le)
  have terms: "encode_opt Limit (t_limit t) q = Inr (q @ ints_bytes (pair_ints (opt_pair Limit (t_limit t))))"
    "encode_opt HeightEnd (snd (t_height t)) q =
      Inr (q @ ints_bytes (pair_ints (opt_pair HeightEnd (snd (t_height t)))))"
    "encode_opt Cap (t_cap t) q = Inr (q @ ints_bytes (pair_ints (opt_pair Cap (t_cap t))))"
    if "e_terms e = Some t" for t q
    using assms width_order that
    by (auto simp: etching_typed_def terms_typed_def intro!: encode_opt_eq elim: opt_le_trans)
  show ?thesis
    unfolding encipher_etching_def etching_fields_def Let_def flags if_cancel
    by (cases "e_terms e") (simp_all only: flags enc terms tag_encode_eq [OF one] res_bind_simps if_cancel
        option.case pair_ints_simps ints_bytes_simps append_assoc append_Nil append_Nil2 append_Cons)
qed

lemma encipher_edicts_eq:
  assumes "sorted (map ed_id es)" and "\<forall>e\<in>set es. prev \<le> ed_id e" and "list_all edict_typed es"
  shows "\<exists>last. res_fold encipher_edict es (prev, p) = Inr (last, p @ ints_bytes (edict_ints prev es))"
  using assms
proof (induction es arbitrary: prev p)
  case Nil
  then show ?case by simp
next
  case (Cons e es)
  have "ed_id e - prev \<le> u128_max" using Cons.prems(3) by (auto simp: edict_typed_def)
  then have "encipher_edict e (prev, p) =
      Inr (ed_id e, p @ ints_bytes [ed_id e - prev, ed_amount e, ed_output e])"
    using Cons.prems by (simp add: encipher_edict_def sub_or_panic_def edict_typed_def encode_to_vec_eq)
  with Cons.IH [of "ed_id e" "p @ ints_bytes [ed_id e - prev, ed_amount e, ed_output e]"] Cons.prems
  show ?case by auto
qed

lemma encipher_payload_eq:
  assumes "dunestone_typed d"
  shows "encipher_payload d = Inr (ints_bytes (dunestone_ints d))"
proof -
  let ?es = "sort_key ed_id (ds_edicts d)"
  have etch: "(case ds_etching d of None \<Rightarrow> Inr [] | Some e \<Rightarrow> encipher_etching e []) =
      Inr (ints_bytes (pair_ints (case ds_etching d of None \<Rightarrow> [] | Some e \<Rightarrow> etching_fields e)))"
    using assms encipher_etching_eq [of _ "[]"] by (auto simp: dunestone_typed_def split: option.splits)
  have ptr: "encode_opt Pointer (ds_pointer d) q =
      Inr (q @ ints_bytes (pair_ints (opt_pair Pointer (ds_pointer d))))" for q
    using assms width_order by (auto simp: dunestone_typed_def intro!: encode_opt_eq elim: opt_le_trans)
  have "list_all edict_typed ?es" using assms by (simp add: dunestone_typed_def list_all_iff)
  then have eds: "\<exists>last. res_fold encipher_edict ?es (0, q) = Inr (last, q @ ints_bytes (edict_ints 0 ?es))" for q
    by (intro encipher_edicts_eq) simp_all
  have cen: "tag_encode Cenotaph 0 q = Inr (q @ ints_bytes [tag_code Cenotaph, 0])" for q
    by (rule tag_encode_eq) simp
  have body: "encode_to_vec (tag_code Body) q = Inr (q @ varint_bytes (tag_code Body))" for q
    by (rule encode_to_vec_eq) (rule tag_code_le)
  have body_eds: "res_bind (res_fold encipher_edict ?es (0, q)) (\<lambda>(i, p). Inr p) =
      Inr (q @ ints_bytes (edict_ints 0 ?es))" for q
    using eds [of q] by auto
  show ?thesis
    unfolding encipher_payload_def etch dunestone_ints_def dunestone_fields_def
    by (simp only: res_bind_simps ptr cen body body_eds if_distrib [where f = Inr, symmetric]
        cong: if_cong) (simp add: cen body body_eds)
qed

section \<open>Reading the message back\<close>

lemma map_of_or_insert: "map_of (or_insert k v m) = map_of (m @ [(k, v)])"
  by (auto simp: or_insert_def map_add_def fun_eq_iff split: option.splits)

lemma message_loop_fields:
  assumes "\<forall>p\<in>set ps. fst p \<noteq> tag_code Body"
  shows "\<exists>m. message_loop tx (pair_ints ps @ tail) fs = message_loop tx tail m \<and> map_of m = map_of (fs @ ps)"
  using assms
proof (induction ps arbitrary: fs)
  case Nil
  show ?case by auto
next
  case (Cons p ps)
  obtain t n where p: "p = (t, n)" by force
  from Cons.IH [of "or_insert t n fs"] Cons.prems obtain m where
    "message_loop tx (pair_ints ps @ tail) (or_insert t n fs) = message_loop tx tail m"
    "map_of m = map_of (or_insert t n fs @ ps)" by auto
  then show ?case using Cons.prems p by (auto simp: map_of_or_insert)
qed

definition valid_edict :: "'s transaction \<Rightarrow> edict \<Rightarrow> bool" where
  "valid_edict tx e \<longleftrightarrow> edict_from_integers tx (ed_id e) (ed_amount e) (ed_output e) = Some e"

lemma edict_fold:
  assumes "sorted (map ed_id es)" and "\<forall>e\<in>set es. prev \<le> ed_id e"
    and "list_all (valid_edict tx) es" and "list_all edict_typed es"
  shows "\<exists>last. fold (edict_chunk tx) (chunks_exact 3 (edict_ints prev es)) (prev, False, acc) =
    (last, False, acc @ es)"
  using assms
proof (induction es arbitrary: prev acc)
  case Nil
  show ?case by (simp add: chunks_exact.simps)
next
  case (Cons e es)
  have "chunks_exact 3 (edict_ints prev (e # es)) =
      [ed_id e - prev, ed_amount e, ed_output e] # chunks_exact 3 (edict_ints (ed_id e) es)"
    by (subst chunks_exact.simps) simp
  moreover have "edict_chunk tx [ed_id e - prev, ed_amount e, ed_output e] (prev, False, acc) =
      (ed_id e, False, acc @ [e])"
    using Cons.prems
    by (simp add: edict_chunk_def saturating_add_def valid_edict_def edict_typed_def)
  ultimately show ?case using Cons.IH [of "ed_id e" "acc @ [e]"] Cons.prems by auto
qed

lemma message_body:
  assumes "list_all (valid_edict tx) es" and "list_all edict_typed es"
  shows "message_loop tx (if es = [] then [] else tag_code Body # edict_ints 0 (sort_key ed_id es)) fs =
    \<lparr>m_cenotaph = False, m_fields = fs, m_edicts = sort_key ed_id es\<rparr>"
proof (cases "es = []")
  case True
  then show ?thesis by simp
next
  case False
  obtain last where
    "fold (edict_chunk tx) (chunks_exact 3 (edict_ints 0 (sort_key ed_id es))) (0, False, []) =
      (last, False, [] @ sort_key ed_id es)"
    using edict_fold [of "sort_key ed_id es" 0 tx "[]"] assms by (auto simp: list_all_iff)
  with False show ?thesis by simp
qed

lemma message_of_dunestone:
  assumes "list_all (valid_edict tx) (ds_edicts d)" and "dunestone_typed d"
  shows "\<exists>fs. message_from_integers tx (dunestone_ints d) =
      \<lparr>m_cenotaph = False, m_fields = fs, m_edicts = sort_key ed_id (ds_edicts d)\<rparr> \<and>
    map_of fs = map_of (dunestone_fields d)"
proof -
  have "\<forall>p\<in>set (dunestone_fields d). fst p \<noteq> tag_code Body"
    by (auto simp: dunestone_fields_def etching_fields_def opt_pair_def split: option.splits if_splits)
  from message_loop_fields [OF this, of tx _ "[]"] obtain fs where
    "message_loop tx (pair_ints (dunestone_fields d) @
        (if ds_edicts d = [] then [] else tag_code Body # edict_ints 0 (sort_key ed_id (ds_edicts d)))) [] =
      message_loop tx (if ds_edicts d = [] then []
        else tag_code Body # edict_ints 0 (sort_key ed_id (ds_edicts d))) fs"
    "map_of fs = map_of (dunestone_fields d)" by fastforce
  moreover have "list_all edict_typed (ds_edicts d)" using assms(2) by (simp add: dunestone_typed_def)
  ultimately show ?thesis
    using message_body [OF assms(1)] by (auto simp: message_from_integers_def dunestone_ints_def)
qed

text \<open>\<open>decipher\<close> as a function of the field map: every tag is looked up independently.\<close>

definition known_tags :: "tag set" where
  "known_tags = {Pointer, Divisibility, Limit, Dune, Cap, Premine, Spacers, Symbol,
    HeightStart, HeightEnd, OffsetStart, OffsetEnd, Flags}"

lemma keys_delete: "fst ` set (AList.delete k fs) = fst ` set fs - {k}"
  by (induction fs) auto

lemma tag_code_inject: "tag_code t = tag_code u \<Longrightarrow> t = u"
  by (cases t; cases u) simp_all

lemma take_other:
  "t \<noteq> u \<Longrightarrow> map_of (AList.delete (tag_code t) fs) (tag_code u) = map_of fs (tag_code u)"
  using tag_code_inject [of t u] by (intro map_of_delete) auto

lemma flags_taken:
  "fst (flag_take EtchingFlag 1)" "\<not> fst (flag_take TermsFlag (snd (flag_take EtchingFlag 1)))"
  "\<not> fst (flag_take TurboFlag (snd (flag_take TermsFlag (snd (flag_take EtchingFlag 1)))))"
  "snd (flag_take TurboFlag (snd (flag_take TermsFlag (snd (flag_take EtchingFlag 1))))) = 0"
  "\<not> fst (flag_take EtchingFlag 0)"
  "snd (flag_take TurboFlag (snd (flag_take TermsFlag (snd (flag_take EtchingFlag 0))))) = 0"
  by (simp_all add: flag_take_def flag_mask_def u128_max_def)

lemma decipher_fields:
  assumes "message_from_integers tx ints = \<lparr>m_cenotaph = c, m_fields = fs, m_edicts = es\<rparr>"
    and "M = (\<lambda>t. map_of fs (tag_code t))"
    and "F1 = snd (flag_take EtchingFlag (unwrap_or_default (M Flags)))"
    and "F2 = snd (flag_take TermsFlag F1)"
    and "F3 = snd (flag_take TurboFlag F2)"
    and "limit = map_option (\<lambda>n. min n MAX_LIMIT) (M Limit)"
  shows "decipher_integers tx ints =
    \<lparr>ds_edicts = es @ (if unwrap_or_default (M Premine) > 0
         then [\<lparr>ed_id = 0, ed_amount = unwrap_or_default (M Premine), ed_output = 1\<rparr>] else []),
     ds_etching = (if fst (flag_take EtchingFlag (unwrap_or_default (M Flags))) then Some
       \<lparr>e_divisibility = filter_opt (\<lambda>n. n \<le> MAX_DIVISIBILITY) (filter_opt (\<lambda>n. n \<le> u8_max) (M Divisibility)),
        e_terms = (if fst (flag_take TermsFlag F1) then Some
          \<lparr>t_limit = limit, t_cap = M Cap,
           t_height = (filter_opt (\<lambda>n. n \<le> u64_max) (M HeightStart), filter_opt (\<lambda>n. n \<le> u64_max) (M HeightEnd)),
           t_offset = (filter_opt (\<lambda>n. n \<le> u64_max) (M OffsetStart), filter_opt (\<lambda>n. n \<le> u64_max) (M OffsetEnd))\<rparr>
          else None),
        e_premine = M Premine, e_dune = M Dune,
        e_spacers = filter_opt (\<lambda>n. n \<le> MAX_SPACERS) (filter_opt (\<lambda>n. n \<le> u32_max) (M Spacers)),
        e_symbol = Option.bind (filter_opt (\<lambda>n. n \<le> u32_max) (M Symbol)) char_from_u32,
        e_turbo = fst (flag_take TurboFlag F2)\<rparr> else None),
     ds_pointer = filter_opt (\<lambda>n. n \<le> u32_max) (M Pointer),
     ds_cenotaph = (c \<or> supply_overflow (M Premine) (M Cap) limit \<or> F3 \<noteq> 0 \<or>
       (\<exists>t\<in>fst ` set fs - tag_code ` known_tags. even t))\<rparr>"
proof -
  have leftover: "fst ` set (AList.delete (tag_code Flags) (AList.delete (tag_code OffsetEnd)
      (AList.delete (tag_code OffsetStart) (AList.delete (tag_code HeightEnd)
      (AList.delete (tag_code HeightStart) (AList.delete (tag_code Symbol)
      (AList.delete (tag_code Spacers) (AList.delete (tag_code Premine) (AList.delete (tag_code Cap)
      (AList.delete (tag_code Dune) (AList.delete (tag_code Limit)
      (AList.delete (tag_code Divisibility) (AList.delete (tag_code Pointer) fs))))))))))))) =
    fst ` set fs - tag_code ` known_tags"
    unfolding keys_delete known_tags_def by blast
  show ?thesis
    unfolding decipher_integers_def assms Let_def tag_take_def split_beta prod.sel leftover message.select_convs
    by (simp only: take_other tag.distinct not_False_eq_True simp_thms if_distrib append_Nil2
      cong: if_cong)
qed

text \<open>
  What arrives of an enciphered dunestone. The flag for the terms is never set, so the terms are
  lost (their cap and limit still count for the overflow check), \<open>turbo\<close> is lost, and a
  positive premine comes back as one more edict.
\<close>

definition transmitted_etching :: "etching \<Rightarrow> etching" where
  "transmitted_etching e = e\<lparr>e_divisibility := filter_opt (\<lambda>n. n \<le> MAX_DIVISIBILITY) (e_divisibility e),
    e_spacers := filter_opt (\<lambda>n. n \<le> MAX_SPACERS) (e_spacers e), e_terms := None, e_turbo := False\<rparr>"

definition etching_premine :: "etching option \<Rightarrow> u128 option" where
  "etching_premine e = Option.bind e e_premine"

definition etching_overflow :: "etching option \<Rightarrow> bool" where
  "etching_overflow e = supply_overflow (etching_premine e)
    (Option.bind (Option.bind e e_terms) t_cap)
    (map_option (\<lambda>n. min n MAX_LIMIT) (Option.bind (Option.bind e e_terms) t_limit))"

definition transmitted :: "dunestone \<Rightarrow> dunestone" where
  "transmitted d =
    \<lparr>ds_edicts = sort_key ed_id (ds_edicts d) @
       (if unwrap_or_default (etching_premine (ds_etching d)) > 0
        then [\<lparr>ed_id = 0, ed_amount = unwrap_or_default (etching_premine (ds_etching d)), ed_output = 1\<rparr>]
        else []),
     ds_etching = map_option transmitted_etching (ds_etching d),
     ds_pointer = ds_pointer d,
     ds_cenotaph = (ds_cenotaph d \<or> etching_overflow (ds_etching d))\<rparr>"

lemma map_of_opt_pair: "map_of (opt_pair t x) k = (if k = tag_code t then x else None)"
  by (cases x) (auto simp: opt_pair_def)

lemma filter_opt_le: "opt_le mx x \<Longrightarrow> filter_opt (\<lambda>n. n \<le> mx) x = x"
  by (auto simp: filter_opt_def opt_le_def split: option.splits)

definition field_of :: "dunestone \<Rightarrow> tag \<Rightarrow> u128 option" where
  "field_of d t = map_of (dunestone_fields d) (tag_code t)"

lemma field_of_common:
  "field_of d Pointer = ds_pointer d" "field_of d HeightStart = None" "field_of d OffsetStart = None"
  "field_of d OffsetEnd = None" "field_of d Premine = etching_premine (ds_etching d)"
  "field_of d Cap = Option.bind (Option.bind (ds_etching d) e_terms) t_cap"
  "field_of d Limit = Option.bind (Option.bind (ds_etching d) e_terms) t_limit"
  "field_of d Flags = (case ds_etching d of None \<Rightarrow> None | Some _ \<Rightarrow> Some 1)"
  "field_of d Dune = Option.bind (ds_etching d) e_dune"
  "field_of d Divisibility = Option.bind (ds_etching d) e_divisibility"
  "field_of d Spacers = Option.bind (ds_etching d) e_spacers"
  "field_of d Symbol = Option.bind (ds_etching d) e_symbol"
  by (simp_all add: field_of_def dunestone_fields_def etching_fields_def map_of_opt_pair etching_premine_def
      map_add_def split: option.splits)

lemma field_keys:
  "fst ` set (dunestone_fields d) \<subseteq> tag_code ` known_tags \<union> (if ds_cenotaph d then {254} else {})"
  by (auto simp: dunestone_fields_def etching_fields_def opt_pair_def known_tags_def
      split: option.splits if_splits)

lemma unknown_even_field:
  assumes "map_of fs = map_of (dunestone_fields d)"
  shows "(\<exists>t\<in>fst ` set fs - tag_code ` known_tags. even t) \<longleftrightarrow> ds_cenotaph d"
proof -
  have keys: "fst ` set fs = fst ` set (dunestone_fields d)"
    using assms by (metis dom_map_of_conv_image_fst)
  have "254 \<in> fst ` set (dunestone_fields d)" if "ds_cenotaph d"
    using that by (auto simp: dunestone_fields_def)
  moreover have "254 \<notin> tag_code ` known_tags" by (simp add: known_tags_def)
  moreover have "even (254 :: nat)" by simp
  ultimately show ?thesis using field_keys [of d] unfolding keys by (cases "ds_cenotaph d") (blast, force)
qed

lemma decipher_dunestone_ints:
  assumes "list_all (valid_edict tx) (ds_edicts d)" and "dunestone_typed d"
  shows "decipher_integers tx (dunestone_ints d) = transmitted d"
proof -
  obtain fs where
      msg: "message_from_integers tx (dunestone_ints d) =
        \<lparr>m_cenotaph = False, m_fields = fs, m_edicts = sort_key ed_id (ds_edicts d)\<rparr>" and
      M: "map_of fs = map_of (dunestone_fields d)"
    using message_of_dunestone [OF assms] by auto
  have Mf: "(\<lambda>t. map_of fs (tag_code t)) = field_of d" by (simp add: M field_of_def fun_eq_iff)
  note D = decipher_fields [OF msg Mf [symmetric] refl refl refl refl]
  note even = unknown_even_field [OF M]
  have ptr: "filter_opt (\<lambda>n. n \<le> u32_max) (ds_pointer d) = ds_pointer d"
    using assms(2) by (simp add: dunestone_typed_def filter_opt_le)
  show ?thesis
  proof (cases "ds_etching d")
    case None
    then show ?thesis unfolding D even field_of_common ptr
      by (auto simp: transmitted_def etching_overflow_def unwrap_or_default_def flags_taken)
  next
    case (Some e)
    then have e: "etching_typed e" using assms(2) by (simp add: dunestone_typed_def)
    have sym: "Option.bind (filter_opt (\<lambda>n. n \<le> u32_max) (e_symbol e)) char_from_u32 = e_symbol e"
      using e by (auto simp: etching_typed_def filter_opt_def split: option.splits dest: char_le)
    have "filter_opt (\<lambda>n. n \<le> u8_max) (e_divisibility e) = e_divisibility e"
      "filter_opt (\<lambda>n. n \<le> u32_max) (e_spacers e) = e_spacers e"
      using e by (simp_all add: etching_typed_def filter_opt_le)
    with Some sym show ?thesis unfolding D even field_of_common ptr
      by (auto simp: transmitted_def transmitted_etching_def etching_overflow_def etching_premine_def
          unwrap_or_default_def flags_taken [unfolded One_nat_def])
  qed
qed

lemma payload_skips:
  assumes "\<forall>out\<in>set pre. \<exists>i is. next_instruction (instructions api (txo_script out)) = Inr (i, is) \<and>
    i \<noteq> Some (Op OP_RETURN)"
  shows "payload_outputs api (pre @ outs) = payload_outputs api outs"
  using assms by (induction pre) auto

lemma collect_pushes_all:
  "collect_pushes (map (Inr \<circ> PushBytes) ps) acc = Inr (acc @ concat ps)"
  by (induction ps arbitrary: acc) simp_all

lemma typed_ints:
  assumes "dunestone_typed d"
  shows "list_all (\<lambda>n. n \<le> u128_max) (dunestone_ints d)"
proof -
  have opt: "list_all (\<lambda>n. n \<le> u128_max) (pair_ints (opt_pair t x))" if "opt_le m x" "m \<le> u128_max" for t m x
    using that tag_code_le [of t] by (auto simp: opt_pair_def opt_le_def split: option.splits)
  note opts = opt [OF _ order_refl] opt [OF _ width_order(1)] opt [OF _ width_order(2)] opt [OF _ width_order(3)]
  have one: "(1 :: nat) \<le> u128_max" by (simp add: u128_max_def)
  have etch: "list_all (\<lambda>n. n \<le> u128_max) (pair_ints (etching_fields e))" if e: "etching_typed e" for e
  proof -
    have "opt_le u32_max (e_symbol e)"
      using e by (auto simp: etching_typed_def opt_le_def split: option.splits dest: char_le)
    then show ?thesis
      using e width_order tag_code_le [of Flags] one
      unfolding etching_fields_def etching_typed_def terms_typed_def
      by (cases "e_terms e") (simp_all del: tag_code.simps add: opts)
  qed
  have eds: "list_all (\<lambda>n. n \<le> u128_max) (edict_ints p es)" if "list_all edict_typed es" for p es
    using that by (induction es arbitrary: p) (auto simp: edict_typed_def)
  show ?thesis
    using assms etch eds [of "sort_key ed_id (ds_edicts d)" 0] opt [of u32_max "ds_pointer d" Pointer] width_order
      tag_code_le [of Cenotaph]
    by (auto simp: dunestone_ints_def dunestone_fields_def dunestone_typed_def list_all_iff
        split: option.splits)
qed

lemma decipher_enciphered:
  assumes "script_reads_back api" and "dunestone_typed d" and "list_all (valid_edict tx) (ds_edicts d)"
    and "\<forall>out\<in>set pre. \<exists>i is. next_instruction (instructions api (txo_script out)) = Inr (i, is) \<and>
      i \<noteq> Some (Op OP_RETURN)"
    and "tx_output tx = pre @ \<lparr>txo_amount = amount, txo_script = script\<rparr> # post"
    and "encipher api d = Inr script"
  shows "from_transaction api tx = Some (transmitted d)"
proof -
  let ?p = "ints_bytes (dunestone_ints d)"
  let ?chunks = "chunks (max_element api) ?p"
  have script: "script = into_script api (Op OP_RETURN # map PushBytes ([0x44] # ?chunks))"
    using assms(6) encipher_payload_eq [OF assms(2)] by (simp add: encipher_def)
  have "\<forall>p\<in>set ([0x44] # ?chunks). length p \<le> max_element api"
    using assms(1) by (auto simp: script_reads_back_def dest: length_chunks)
  then have "instructions api script = Inr (Op OP_RETURN) # map (Inr \<circ> PushBytes) ([0x44] # ?chunks)"
    using assms(1) unfolding script script_reads_back_def by blast
  then have "payload_outputs api (tx_output tx) = Inr (Some (concat ?chunks))"
    unfolding assms(5) payload_skips [OF assms(4)] by (simp add: collect_pushes_all)
  moreover have "concat ?chunks = ?p" using assms(1) by (intro concat_chunks) (simp add: script_reads_back_def)
  moreover have "integers ?p = dunestone_ints d"
    unfolding integers_def ints_bytes_def using typed_ints [OF assms(2)] by (rule vi.seq_round_trip)
  ultimately show ?thesis
    using decipher_dunestone_ints [OF assms(3,2)]
    by (simp add: from_transaction_def decipher_def dunestone_payload_def)
qed

text \<open>
  C17: a typed dunestone enciphers without a panic, and any transaction that carries the script,
  with no earlier output starting with \<open>OP_RETURN\<close> and with enough outputs for its edicts,
  deciphers to exactly what \<open>transmitted\<close> says: the edicts ordered by id (plus the premine's),
  the pointer and the cenotaph mark, and the etching without its terms and \<open>turbo\<close>.
\<close>

theorem encipher_decipher:
  assumes "script_reads_back api" and "dunestone_typed d"
  shows "\<exists>script. encipher api d = Inr script \<and>
    (\<forall>tx pre amount post. tx_output tx = pre @ \<lparr>txo_amount = amount, txo_script = script\<rparr> # post \<and>
      list_all (valid_edict tx) (ds_edicts d) \<and>
      (\<forall>out\<in>set pre. \<exists>i is. next_instruction (instructions api (txo_script out)) = Inr (i, is) \<and>
        i \<noteq> Some (Op OP_RETURN)) \<longrightarrow>
      from_transaction api tx = Some (transmitted d))"
proof -
  obtain script where script: "encipher api d = Inr script"
    using encipher_payload_eq [OF assms(2)] by (simp add: encipher_def)
  moreover have "from_transaction api tx = Some (transmitted d)"
    if "tx_output tx = pre @ \<lparr>txo_amount = amount, txo_script = script\<rparr> # post"
      and "list_all (valid_edict tx) (ds_edicts d)"
      and "\<forall>out\<in>set pre. \<exists>i is. next_instruction (instructions api (txo_script out)) = Inr (i, is) \<and>
        i \<noteq> Some (Op OP_RETURN)" for tx pre amount post
    using decipher_enciphered [OF assms that(2,3,1) script] .
  ultimately show ?thesis by blast
qed

text \<open>A list of instructions is a script of its own, and an etching with terms loses them.\<close>

definition list_api :: "instruction list script_api" where
  "list_api = \<lparr>instructions = map Inr, into_script = (\<lambda>is. is),
    is_op_return = (\<lambda>is. is \<noteq> [] \<and> hd is = Op OP_RETURN), max_element = 520\<rparr>"

lemma list_api_reads_back: "script_reads_back list_api"
  by (simp add: script_reads_back_def list_api_def)

definition sample_etching :: etching where
  "sample_etching = \<lparr>e_divisibility = Some 2,
    e_terms = Some \<lparr>t_limit = Some 100, t_cap = Some 5, t_height = (None, Some 9), t_offset = (None, None)\<rparr>,
    e_premine = None, e_dune = Some 7, e_spacers = None, e_symbol = Some 68, e_turbo = False\<rparr>"

definition sample_dunestone :: dunestone where
  "sample_dunestone = \<lparr>ds_edicts = [], ds_etching = Some sample_etching, ds_pointer = Some 1, ds_cenotaph = False\<rparr>"

lemma sample_typed: "dunestone_typed sample_dunestone"
  by (simp add: dunestone_typed_def sample_dunestone_def sample_etching_def etching_typed_def terms_typed_def
      opt_le_def width_defs char_from_u32_def)

lemma sample_transmitted:
  "transmitted sample_dunestone = sample_dunestone\<lparr>ds_etching := Some (sample_etching\<lparr>e_terms := None\<rparr>)\<rparr>"
  by (simp add: transmitted_def sample_dunestone_def transmitted_etching_def sample_etching_def etching_premine_def
      unwrap_or_default_def etching_overflow_def supply_overflow_def checked_defs filter_opt_def
      MAX_DIVISIBILITY_def MAX_LIMIT_def width_defs)

theorem encipher_decipher_witness:
  "\<exists>script. encipher list_api sample_dunestone = Inr script \<and>
    from_transaction list_api \<lparr>tx_input = [], tx_output = [\<lparr>txo_amount = 0, txo_script = script\<rparr>]\<rparr> =
      Some (sample_dunestone\<lparr>ds_etching := Some (sample_etching\<lparr>e_terms := None\<rparr>)\<rparr>)"
proof -
  note ex = encipher_decipher [OF list_api_reads_back sample_typed]
  obtain script where script: "encipher list_api sample_dunestone = Inr script" and
    all: "\<forall>tx pre amount post. tx_output tx = pre @ \<lparr>txo_amount = amount, txo_script = script\<rparr> # post \<and>
      list_all (valid_edict tx) (ds_edicts sample_dunestone) \<and>
      (\<forall>out\<in>set pre. \<exists>i is. next_instruction (instructions list_api (txo_script out)) = Inr (i, is) \<and>
        i \<noteq> Some (Op OP_RETURN)) \<longrightarrow>
      from_transaction list_api tx = Some (transmitted sample_dunestone)"
    using ex by blast
  have "from_transaction list_api \<lparr>tx_input = [], tx_output = [\<lparr>txo_amount = 0, txo_script = script\<rparr>]\<rparr> =
      Some (transmitted sample_dunestone)"
    using all [rule_format, of _ "[]" 0 "[]"] by (simp add: sample_dunestone_def)
  with script show ?thesis by (auto simp: sample_transmitted)
qed

end
