(* ===== verification/Entry.thy ===== *)
theory Entry
  imports Dunestone
begin

text \<open>
  The rows of the index (\<open>src/index/entry.rs\<close>): how a dune entry, a dune id, an inscription
  entry, an inscription id and a sat range are packed for storage and unpacked again, and what a
  dune entry says about minting. A txid is its 32 bytes.
\<close>

section \<open>Dune entries\<close>

record dune_entry =
  de_block :: u64
  de_burned :: u128
  de_divisibility :: u8
  de_etching :: txid
  de_terms :: "terms option"
  de_mints :: u128
  de_number :: u64
  de_premine :: u128
  de_dune :: u128
  de_spacers :: u32
  de_supply :: u128
  de_symbol :: "rchar option"
  de_timestamp :: u64
  de_turbo :: bool

datatype mint_error = MintCap u128 | MintEnd u64 | MintStart u64 | Unmintable

definition entry_spaced_dune :: "dune_entry \<Rightarrow> spaced_dune" where
  "entry_spaced_dune e = \<lparr>sd_dune = de_dune e, sd_spacers = de_spacers e\<rparr>"

text \<open>\<open>zip\<close>, then the two fall-backs: the combination when both are present, else the one there is.\<close>

definition either_or_both :: "('a \<Rightarrow> 'a \<Rightarrow> 'a) \<Rightarrow> 'a option \<Rightarrow> 'a option \<Rightarrow> 'a option" where
  "either_or_both f x y =
    (case x of None \<Rightarrow> y | Some a \<Rightarrow> (case y of None \<Rightarrow> Some a | Some b \<Rightarrow> Some (f a b)))"

definition entry_start :: "dune_entry \<Rightarrow> u64 option" where
  "entry_start e =
    (case de_terms e of
       None \<Rightarrow> None
     | Some terms \<Rightarrow>
         let relative = map_option (\<lambda>offset. saturating_add u64_max (de_block e) offset) (fst (t_offset terms));
             absolute = fst (t_height terms)
         in either_or_both max relative absolute)"

definition entry_end :: "dune_entry \<Rightarrow> u64 option" where
  "entry_end e =
    (case de_terms e of
       None \<Rightarrow> None
     | Some terms \<Rightarrow>
         let relative = map_option (\<lambda>offset. saturating_add u64_max (de_block e) offset) (snd (t_offset terms));
             absolute = snd (t_height terms)
         in either_or_both min relative absolute)"

definition mintable :: "dune_entry \<Rightarrow> u64 \<Rightarrow> mint_error + u128" where
  "mintable e height =
    (case de_terms e of
       None \<Rightarrow> Inl Unmintable
     | Some terms \<Rightarrow>
         res_bind (case entry_start e of
             Some start \<Rightarrow> if height < start then Inl (MintStart start) else Inr ()
           | None \<Rightarrow> Inr ()) (\<lambda>_.
         res_bind (case entry_end e of
             Some end' \<Rightarrow> if end' \<le> height then Inl (MintEnd end') else Inr ()
           | None \<Rightarrow> Inr ()) (\<lambda>_.
         res_bind (case t_cap terms of
             Some cap \<Rightarrow> if cap \<le> de_mints e then Inl (MintCap cap) else Inr ()
           | None \<Rightarrow> if de_mints e = u128_max then Inl (MintCap u128_max) else Inr ()) (\<lambda>_.
         Inr (unwrap_or_default (t_limit terms))))))"

definition entry_supply :: "dune_entry \<Rightarrow> u128 may_panic" where
  "entry_supply e =
    res_bind (add_or_panic u128_max (de_premine e) (de_supply e)) (\<lambda>s. add_or_panic u128_max s (de_burned e))"

definition zero_txid :: txid where
  "zero_txid = replicate 32 0"

definition default_entry :: dune_entry where
  "default_entry = \<lparr>de_block = 0, de_burned = 0, de_divisibility = 0, de_etching = zero_txid, de_terms = None,
    de_mints = 0, de_number = 0, de_premine = 0, de_dune = 0, de_spacers = 0, de_supply = 0,
    de_symbol = None, de_timestamp = 0, de_turbo = False\<rparr>"

section \<open>Stored forms\<close>

type_synonym terms_entry_value =
  "u128 option \<times> u128 option \<times> (u64 option \<times> u64 option) \<times> (u64 option \<times> u64 option)"

type_synonym dune_entry_value =
  "u64 \<times> u128 \<times> u8 \<times> (u128 \<times> u128) \<times> terms_entry_value option \<times> u128 \<times> u64 \<times> (u128 \<times> u32) \<times>
   (u128 \<times> u128) \<times> u32 \<times> u64 \<times> bool"

definition dune_entry_load :: "dune_entry_value \<Rightarrow> dune_entry" where
  "dune_entry_load v =
    (case v of (block, burned, divisibility, etching, terms, mints, number, (dune, spacers),
                (supply, premine), symbol, timestamp, turbo) \<Rightarrow>
      \<lparr>de_block = block, de_burned = burned, de_divisibility = divisibility,
       de_etching = (let bytes = le_bytes 16 (fst etching) @ le_bytes 16 (snd etching)
                     in if length bytes = 32 then bytes else zero_txid),
       de_terms = map_option (\<lambda>(cap, limit, height, offset).
         \<lparr>t_limit = limit, t_cap = cap, t_height = height, t_offset = offset\<rparr>) terms,
       de_mints = mints, de_number = number, de_premine = premine, de_dune = dune, de_spacers = spacers,
       de_supply = supply, de_symbol = char_from_u32 symbol, de_timestamp = timestamp, de_turbo = turbo\<rparr>)"

definition dune_entry_store :: "dune_entry \<Rightarrow> dune_entry_value may_panic" where
  "dune_entry_store e =
    res_bind (if length (de_etching e) = 32 then Inr (de_etching e) else Inl Explicit) (\<lambda>bytes.
    Inr (de_block e, de_burned e, de_divisibility e, (from_le (take 16 bytes), from_le (drop 16 bytes)),
     map_option (\<lambda>t. (t_cap t, t_limit t, t_height t, t_offset t)) (de_terms e),
     de_mints e, de_number e, (de_dune e, de_spacers e), (de_supply e, de_premine e),
     (case de_symbol e of Some c \<Rightarrow> c | None \<Rightarrow> u32_max), de_timestamp e, de_turbo e))"

definition dune_id_load :: "u64 \<times> u32 \<Rightarrow> dune_id" where
  "dune_id_load v = \<lparr>di_height = fst v, di_index = snd v\<rparr>"

definition dune_id_store :: "dune_id \<Rightarrow> u64 \<times> u32" where
  "dune_id_store d = (di_height d, di_index d)"

record inscription_entry =
  ie_fee :: u64
  ie_height :: u32
  ie_inscription_number :: u64
  ie_sat :: "u64 option"
  ie_sequence_number :: u64
  ie_timestamp :: u32

type_synonym inscription_entry_value = "u64 \<times> u32 \<times> u64 \<times> u64 option \<times> u64 \<times> u32"

definition inscription_entry_load :: "inscription_entry_value \<Rightarrow> inscription_entry" where
  "inscription_entry_load v =
    (case v of (fee, height, inscription_number, sat, sequence_number, timestamp) \<Rightarrow>
      \<lparr>ie_fee = fee, ie_height = height, ie_inscription_number = inscription_number, ie_sat = sat,
       ie_sequence_number = sequence_number, ie_timestamp = timestamp\<rparr>)"

definition inscription_entry_store :: "inscription_entry \<Rightarrow> inscription_entry_value" where
  "inscription_entry_store e = (ie_fee e, ie_height e, ie_inscription_number e, ie_sat e,
    ie_sequence_number e, ie_timestamp e)"

record inscription_id =
  ii_txid :: txid
  ii_index :: u32

definition inscription_id_load :: "byte list \<Rightarrow> inscription_id" where
  "inscription_id_load bs = \<lparr>ii_txid = take 32 bs, ii_index = from_le (rev (drop 32 bs))\<rparr>"

definition inscription_id_store :: "inscription_id \<Rightarrow> byte list" where
  "inscription_id_store i = ii_txid i @ rev (le_bytes 4 (ii_index i))"

text \<open>Sat ranges: eleven bytes, the base in the low 51 bits.\<close>

definition sat_range_load :: "byte list \<Rightarrow> (u64 \<times> u64) may_panic" where
  "sat_range_load b =
    (let raw_base = from_le (take 7 b @ [0]);
         base = raw_base AND (2 ^ 51 - 1);
         raw_delta = from_le (drop 6 b @ [0, 0, 0]);
         delta = drop_bit 3 raw_delta
     in res_bind (add_or_panic u64_max base delta) (\<lambda>end'. Inr (base, end')))"

definition sat_range_store :: "u64 \<times> u64 \<Rightarrow> byte list may_panic" where
  "sat_range_store r =
    (let base = fst r
     in res_bind (sub_or_panic (snd r) (fst r)) (\<lambda>delta.
        let n = base OR push_bit 51 delta
        in Inr (take 11 (le_bytes 16 n))))"

section \<open>Properties\<close>

lemma dune_entry_round_trip:
  assumes "length (de_etching e) = 32"
    and "case de_symbol e of None \<Rightarrow> True | Some c \<Rightarrow> char_from_u32 c = Some c"
  shows "\<exists>v. dune_entry_store e = Inr v \<and> dune_entry_load v = e"
proof -
  have "length (take 16 (de_etching e)) = 16" "length (drop 16 (de_etching e)) = 16" using assms(1) by simp_all
  then have "le_bytes 16 (from_le (take 16 (de_etching e))) @ le_bytes 16 (from_le (drop 16 (de_etching e))) =
      de_etching e"
    using le_bytes_from_le [of "take 16 (de_etching e)"] le_bytes_from_le [of "drop 16 (de_etching e)"] by simp
  moreover have "map_option (\<lambda>t. \<lparr>t_limit = t_limit t, t_cap = t_cap t, t_height = t_height t, t_offset = t_offset t\<rparr>) x = x"
    for x :: "terms option" by (cases x) simp_all
  moreover have "char_from_u32 u32_max = None" by (simp add: char_from_u32_def u32_max_def)
  ultimately show ?thesis using assms
    by (cases e) (auto simp: dune_entry_store_def dune_entry_load_def Let_def option.map_comp o_def
        split: option.splits)
qed

text \<open>
  Rows survive storage: a dune entry with a 32-byte txid and a valid symbol, a dune id, an
  inscription entry and an inscription id with a 32-byte txid are all loaded back as stored.
\<close>

theorem rows_round_trip:
  assumes "length (de_etching e) = 32"
    and "case de_symbol e of None \<Rightarrow> True | Some c \<Rightarrow> char_from_u32 c = Some c"
    and "length (ii_txid i) = 32" and "ii_index i \<le> u32_max"
  shows "(\<exists>v. dune_entry_store e = Inr v \<and> dune_entry_load v = e) \<and>
    dune_id_load (dune_id_store d) = d \<and>
    inscription_entry_load (inscription_entry_store ie) = ie \<and>
    inscription_id_load (inscription_id_store i) = i \<and> length (inscription_id_store i) = 36"
proof -
  have "from_le (le_bytes 4 (ii_index i)) = ii_index i"
    using assms(4) by (simp add: from_le_bytes u32_max_def)
  then show ?thesis
    using dune_entry_round_trip [OF assms(1,2)] assms(3)
    by (simp add: dune_id_load_def dune_id_store_def inscription_entry_load_def inscription_entry_store_def
        inscription_id_load_def inscription_id_store_def)
qed

theorem rows_round_trip_witness:
  "\<exists>v. dune_entry_store (default_entry\<lparr>de_symbol := Some 68\<rparr>) = Inr v \<and>
    dune_entry_load v = default_entry\<lparr>de_symbol := Some 68\<rparr>"
proof -
  note ex = rows_round_trip [of "default_entry\<lparr>de_symbol := Some 68\<rparr>" "\<lparr>ii_txid = zero_txid, ii_index = 3\<rparr>"]
  show ?thesis using ex by (simp add: default_entry_def zero_txid_def char_from_u32_def u32_max_def)
qed

text \<open>
  C25: a mint is allowed exactly when the entry has terms, the height has reached both the
  absolute and the relative start, is before both ends, and the number of mints is below the
  cap (or below \<open>u128::MAX\<close> when there is none); the amount is then the limit of the terms, or 0.
\<close>

theorem mintable_iff:
  "mintable e h = Inr amount \<longleftrightarrow>
    (\<exists>t. de_terms e = Some t \<and>
      (\<forall>s. fst (t_height t) = Some s \<longrightarrow> s \<le> h) \<and>
      (\<forall>s. fst (t_offset t) = Some s \<longrightarrow> min u64_max (de_block e + s) \<le> h) \<and>
      (\<forall>s. snd (t_height t) = Some s \<longrightarrow> h < s) \<and>
      (\<forall>s. snd (t_offset t) = Some s \<longrightarrow> h < min u64_max (de_block e + s)) \<and>
      (case t_cap t of Some c \<Rightarrow> de_mints e < c | None \<Rightarrow> de_mints e \<noteq> u128_max) \<and>
      amount = unwrap_or_default (t_limit t))"
proof (cases "de_terms e")
  case None
  then show ?thesis by (simp add: mintable_def)
next
  case (Some t)
  have start: "(case entry_start e of Some s \<Rightarrow> if h < s then Inl (MintStart s) else Inr () | None \<Rightarrow> Inr ()) = Inr () \<longleftrightarrow>
      (\<forall>s. fst (t_height t) = Some s \<longrightarrow> s \<le> h) \<and>
      (\<forall>s. fst (t_offset t) = Some s \<longrightarrow> min u64_max (de_block e + s) \<le> h)"
    using Some by (auto simp: entry_start_def either_or_both_def saturating_min Let_def split: option.splits)
  have "end'": "(case entry_end e of Some s \<Rightarrow> if s \<le> h then Inl (MintEnd s) else Inr () | None \<Rightarrow> Inr ()) = Inr () \<longleftrightarrow>
      (\<forall>s. snd (t_height t) = Some s \<longrightarrow> h < s) \<and>
      (\<forall>s. snd (t_offset t) = Some s \<longrightarrow> h < min u64_max (de_block e + s))"
    using Some by (auto simp: entry_end_def either_or_both_def saturating_min Let_def split: option.splits)
  show ?thesis
    using Some unfolding mintable_def
    by (auto simp: res_bind_eq_Inr start "end'" split: option.splits if_splits)
qed

theorem mintable_iff_witness:
  "mintable (default_entry\<lparr>de_block := 10, de_mints := 1,
     de_terms := Some \<lparr>t_limit = Some 100, t_cap = Some 5, t_height = (None, Some 30), t_offset = (Some 2, None)\<rparr>\<rparr>) 12
    = Inr 100"
  using mintable_iff [of "default_entry\<lparr>de_block := 10, de_mints := 1,
     de_terms := Some \<lparr>t_limit = Some 100, t_cap = Some 5, t_height = (None, Some 30), t_offset = (Some 2, None)\<rparr>\<rparr>" 12 100]
  by (simp add: default_entry_def u64_max_def unwrap_or_default_def)

lemma and_mask51: "(n :: nat) AND (2 ^ 51 - 1) = n mod 2 ^ 51"
  using take_bit_eq_mask [of 51 n] by (simp add: mask_eq_exp_minus_1 take_bit_eq_mod)

lemma sat_range_load_store:
  assumes "a \<le> b"
  shows "res_bind (sat_range_store (a, b)) sat_range_load =
    Inr (a mod 2 ^ 51, a mod 2 ^ 51 + ((a OR push_bit 51 (b - a)) div 2 ^ 51) mod 2 ^ 37)"
proof -
  define n where "n = a OR push_bit 51 (b - a)"
  have low: "from_le (take 7 (le_bytes 11 n) @ [0]) = n mod 2 ^ 56"
    using from_le_append_zeros [of "le_bytes 7 n" 1] by (simp add: take_le_bytes from_le_bytes del: le_bytes.simps)
  have "from_le (le_bytes 5 (n div 2 ^ 48) @ replicate 3 0) = n div 2 ^ 48 mod 2 ^ 40"
    by (simp only: from_le_append_zeros from_le_bytes) simp
  then have high: "from_le (drop 6 (le_bytes 11 n) @ [0, 0, 0]) = n div 2 ^ 48 mod 2 ^ 40"
    by (simp add: drop_le_bytes numeral_3_eq_3 del: le_bytes.simps)
  have base: "n mod 2 ^ 56 mod 2 ^ 51 = a mod 2 ^ 51"
  proof -
    have "n mod 2 ^ 51 = take_bit 51 n" by (simp add: take_bit_eq_mod)
    also have "\<dots> = take_bit 51 a" by (simp add: n_def take_bit_push_bit)
    finally show ?thesis by (simp add: take_bit_eq_mod mod_mod_cancel)
  qed
  have delta: "drop_bit 3 (n div 2 ^ 48 mod 2 ^ 40) = (n div 2 ^ 51) mod 2 ^ 37"
  proof -
    have "drop_bit 3 (n div 2 ^ 48 mod 2 ^ 40) = drop_bit 3 (take_bit 40 (drop_bit 48 n))"
      by (simp add: take_bit_eq_mod drop_bit_eq_div)
    also have "\<dots> = take_bit 37 (drop_bit 51 n)" by (simp add: drop_bit_take_bit)
    finally show ?thesis by (simp add: take_bit_eq_mod drop_bit_eq_div)
  qed
  have "a mod 2 ^ 51 < 2 ^ 51" "(n div 2 ^ 51) mod 2 ^ 37 < 2 ^ 37" by simp_all
  then have "a mod 2 ^ 51 + (n div 2 ^ 51) mod 2 ^ 37 < 2 ^ 51 + 2 ^ 37" by (rule add_strict_mono)
  also have "\<dots> \<le> u64_max" by (simp add: u64_max_def)
  finally have "a mod 2 ^ 51 + (n div 2 ^ 51) mod 2 ^ 37 \<le> u64_max" by (rule less_imp_le)
  then have sum: "add_or_panic u64_max (a mod 2 ^ 51) ((n div 2 ^ 51) mod 2 ^ 37) =
      Inr (a mod 2 ^ 51 + (n div 2 ^ 51) mod 2 ^ 37)"
    by (simp only: add_or_panic_def if_True)
  have eleven: "take 11 (le_bytes 16 n) = le_bytes 11 n" by (rule take_le_bytes) simp
  have "sub_or_panic b a = Inr (b - a)" using assms by (simp add: sub_or_panic_def)
  then show ?thesis
    unfolding sat_range_store_def sat_range_load_def Let_def fst_conv snd_conv
    by (simp only: res_bind_simps n_def [symmetric] eleven low high and_mask51 base delta sum)
qed

text \<open>
  C36: a sat range survives its eleven-byte form exactly when its base is below \<open>2^51\<close> and its
  length below \<open>2^37\<close>; every other range is silently changed.
\<close>

theorem sat_range_round_trip:
  assumes "a \<le> b" and "b \<le> u64_max"
  shows "res_bind (sat_range_store (a, b)) sat_range_load = Inr (a, b) \<longleftrightarrow> a < 2 ^ 51 \<and> b - a < 2 ^ 37"
proof (cases "a < 2 ^ 51")
  case True
  then have "a OR push_bit 51 (b - a) = a + (b - a) * 2 ^ 51" by (rule or_push_bit_add)
  with True have "(a OR push_bit 51 (b - a)) div 2 ^ 51 = b - a" by simp
  moreover have "(b - a) mod 2 ^ 37 = b - a \<longleftrightarrow> b - a < 2 ^ 37"
    by (metis mod_less mod_less_divisor zero_less_numeral zero_less_power)
  ultimately show ?thesis
    using True assms(1) unfolding sat_range_load_store [OF assms(1)] by auto
next
  case False
  then have "a mod 2 ^ 51 \<noteq> a" by (metis mod_less_divisor zero_less_numeral zero_less_power)
  with False show ?thesis unfolding sat_range_load_store [OF assms(1)] by simp
qed

theorem sat_range_round_trip_witness:
  "res_bind (sat_range_store (0, 100000000000000)) sat_range_load \<noteq> Inr (0, 100000000000000) \<and>
   res_bind (sat_range_store (5, 5000000005)) sat_range_load = Inr (5, 5000000005)"
proof -
  note ex = sat_range_round_trip [of 0 100000000000000] sat_range_round_trip [of 5 5000000005]
  show ?thesis using ex by (simp add: u64_max_def)
qed

end
