(* ===== verification/Dune_Updater.thy ===== *)
theory Dune_Updater
  imports Entry "HOL-Library.Product_Lexorder" "HOL-Library.Multiset"
begin

text \<open>
  Indexing the dunes of one transaction (\<open>src/index/updater/dune_updater.rs\<close>). The updater
  takes the balances of the spent outputs, issues a new dune if the dunestone etches one, moves
  balances by edicts, assigns what is left to an output or burns it, and writes the balances
  of the new outputs and the counters of the entries. Every phase of \<open>index_dunes\<close> is a definition
  of its own; the tables of the database are maps. Failures of the database itself are not
  modelled. The main result: what the outputs hold plus what is burned is always exactly what
  was premined and minted.
\<close>

section \<open>State\<close>

datatype statistic = ReservedDunes | Dunes

record dune_tables =
  id_to_entry :: "dune_id \<rightharpoonup> dune_entry"
  inscription_id_to_inscription_entry :: "inscription_id \<rightharpoonup> inscription_entry"
  inscription_id_to_dune :: "inscription_id \<rightharpoonup> u128"
  outpoint_to_balances :: "outpoint \<rightharpoonup> byte list"
  dune_to_id :: "u128 \<rightharpoonup> dune_id"
  statistic_to_count :: "statistic \<rightharpoonup> u64"

record dune_updater =
  du_height :: u32
  du_minimum :: u128
  du_dunes :: u64
  du_timestamp :: u32
  du_tables :: dune_tables

definition dune_updater_new :: "u32 \<Rightarrow> dune_tables \<Rightarrow> u32 \<Rightarrow> u128 \<Rightarrow> dune_updater" where
  "dune_updater_new height tables timestamp minimum =
    \<lparr>du_height = height, du_minimum = minimum,
     du_dunes = unwrap_or_default (statistic_to_count tables Dunes),
     du_timestamp = timestamp, du_tables = tables\<rparr>"

definition claim :: "u128 \<Rightarrow> u128 option" where
  "claim i = (if i AND CLAIM_BIT \<noteq> 0 then Some (i XOR CLAIM_BIT) else None)"

record allocation =
  al_balance :: u128
  al_divisibility :: u8
  al_id :: u128
  al_mint :: "terms option"
  al_dune :: u128
  al_spacers :: u32
  al_symbol :: "rchar option"
  al_turbo :: bool

section \<open>Phases of \<open>index_dunes\<close>\<close>

text \<open>The balances of the spent outputs, removed from the table.\<close>

definition take_input :: "outpoint \<Rightarrow> (outpoint \<rightharpoonup> byte list) \<times> (u128, u128) hashmap \<Rightarrow>
    rust_panic + (outpoint \<rightharpoonup> byte list) \<times> (u128, u128) hashmap" where
  "take_input input s =
    (let (balances, unallocated) = s
     in case balances input of
          None \<Rightarrow> Inr (balances, unallocated)
        | Some buffer \<Rightarrow>
            res_bind (res_fold (\<lambda>(i, balance). hm_add u128_max i balance) (decode_seq decode2 buffer) unallocated)
              (\<lambda>unallocated. Inr (balances(input := None), unallocated)))"

text \<open>The issuance of an etching, if it is valid; the reserved names are counted.\<close>

definition new_allocation :: "dune_updater \<Rightarrow> usize \<Rightarrow> etching \<Rightarrow> rust_panic + allocation option \<times> dune_tables" where
  "new_allocation u index etching =
    (let t = du_tables u
     in if (case e_dune etching of None \<Rightarrow> False | Some d \<Rightarrow> d < du_minimum u \<or> is_reserved d)
           \<or> (case e_dune etching of None \<Rightarrow> False | Some d \<Rightarrow> dune_to_id t d \<noteq> None)
        then Inr (None, t)
        else
          res_bind (case e_dune etching of
              Some d \<Rightarrow> Inr (d, t)
            | None \<Rightarrow>
                let reserved_dunes = unwrap_or_default (statistic_to_count t ReservedDunes)
                in res_bind (add_or_panic u64_max reserved_dunes 1) (\<lambda>n.
                   res_bind (reserved reserved_dunes) (\<lambda>d.
                   Inr (d, t\<lparr>statistic_to_count := (statistic_to_count t)(ReservedDunes \<mapsto> n)\<rparr>))))
          (\<lambda>(d, t).
            case try_from u16_max index of
              None \<Rightarrow> Inr (None, t)
            | Some index \<Rightarrow> Inr (Some
                \<lparr>al_balance = u128_max,
                 al_divisibility = unwrap_or_default (e_divisibility etching),
                 al_id = push_bit 16 (du_height u) OR index,
                 al_mint = map_option (\<lambda>mint. mint\<lparr>t_limit := map_option (\<lambda>n. min n MAX_LIMIT) (t_limit mint)\<rparr>)
                   (e_terms etching),
                 al_dune = d,
                 al_spacers = unwrap_or_default (e_spacers etching),
                 al_symbol = e_symbol etching,
                 al_turbo = e_turbo etching\<rparr>, t)))"

text \<open>What each claimed dune allows to be minted.\<close>

definition claims :: "edict list \<Rightarrow> u128 list" where
  "claims edicts = remdups_adj (sort (List.map_filter (\<lambda>e. claim (ed_id e)) edicts))"

definition add_mintable :: "dune_updater \<Rightarrow> u128 \<Rightarrow> (u128, u128) hashmap \<Rightarrow> (u128, u128) hashmap" where
  "add_mintable u i m =
    (case dune_id_try_from i of
       None \<Rightarrow> m
     | Some key \<Rightarrow>
         (case id_to_entry (du_tables u) key of
            None \<Rightarrow> m
          | Some e \<Rightarrow>
              (case mintable e (du_height u) of
                 Inl _ \<Rightarrow> m
               | Inr limit \<Rightarrow> hm_insert i limit m)))"

definition mintables :: "dune_updater \<Rightarrow> edict list \<Rightarrow> (u128, u128) hashmap" where
  "mintables u edicts = fold (add_mintable u) (claims edicts) []"

text \<open>The edicts: the balances they draw on and the outputs they fill.\<close>

record alloc_state =
  as_allocation :: "allocation option"
  as_premine :: u128
  as_mintable :: "(u128, u128) hashmap"
  as_unallocated :: "(u128, u128) hashmap"
  as_allocated :: "(u128, u128) hashmap list"

datatype source = FromAllocation | FromMintable u128 | FromUnallocated u128

fun source_balance :: "source \<Rightarrow> alloc_state \<Rightarrow> u128" where
  "source_balance FromAllocation s = (case as_allocation s of None \<Rightarrow> 0 | Some a \<Rightarrow> al_balance a)"
| "source_balance (FromMintable i) s = hm_get (as_mintable s) i"
| "source_balance (FromUnallocated i) s = hm_get (as_unallocated s) i"

fun set_source :: "source \<Rightarrow> u128 \<Rightarrow> alloc_state \<Rightarrow> alloc_state" where
  "set_source FromAllocation b s = s\<lparr>as_allocation := map_option (al_balance_update (\<lambda>_. b)) (as_allocation s)\<rparr>"
| "set_source (FromMintable i) b s = s\<lparr>as_mintable := hm_insert i b (as_mintable s)\<rparr>"
| "set_source (FromUnallocated i) b s = s\<lparr>as_unallocated := hm_insert i b (as_unallocated s)\<rparr>"

definition edict_source :: "alloc_state \<Rightarrow> u128 \<Rightarrow> (source \<times> u128) option" where
  "edict_source s i =
    (if i = 0 then map_option (\<lambda>a. (FromAllocation, al_id a)) (as_allocation s)
     else case claim i of
       Some c \<Rightarrow> if map_of (as_mintable s) c \<noteq> None then Some (FromMintable c, c) else None
     | None \<Rightarrow> if map_of (as_unallocated s) i \<noteq> None then Some (FromUnallocated i, i) else None)"

definition allocate :: "source \<Rightarrow> u128 \<Rightarrow> u128 \<Rightarrow> usize \<Rightarrow> alloc_state \<Rightarrow> alloc_state may_panic" where
  "allocate src i amount output s =
    (if amount > 0 then
       res_bind (sub_or_panic (source_balance src s) amount) (\<lambda>b.
       res_bind (index_or_panic (as_allocated s) output) (\<lambda>m.
       res_bind (hm_add u128_max i amount m) (\<lambda>m'.
       Inr (set_source src b (s\<lparr>as_allocated := (as_allocated s)[output := m']\<rparr>)))))
     else Inr s)"

definition destinations :: "'s script_api \<Rightarrow> 's transaction \<Rightarrow> usize list" where
  "destinations api tx =
    filter (\<lambda>v. \<not> is_op_return api (txo_script (tx_output tx ! v))) [0..<length (tx_output tx)]"

definition split_edict :: "'s script_api \<Rightarrow> 's transaction \<Rightarrow> source \<Rightarrow> u128 \<Rightarrow> u128 \<Rightarrow> alloc_state \<Rightarrow> alloc_state may_panic" where
  "split_edict api tx src i amount s =
    (let ds = destinations api tx
     in if amount = 0 then
          (if ds = [] then Inl DivByZero
           else
             let share = source_balance src s div length ds;
                 remainder = source_balance src s mod length ds
             in res_fold (\<lambda>(n, output). allocate src i (if n < remainder then share + 1 else share) output)
                  (enumerate 0 ds) s)
        else res_fold (\<lambda>output s. allocate src i (min amount (source_balance src s)) output s) ds s)"

definition apply_edict :: "'s script_api \<Rightarrow> 's transaction \<Rightarrow> edict \<Rightarrow> alloc_state \<Rightarrow> alloc_state may_panic" where
  "apply_edict api tx e s =
    (case try_from u64_max (ed_output e) of
       None \<Rightarrow> Inr s
     | Some output \<Rightarrow>
         if length (tx_output tx) \<le> output then Inr s
         else
           (case edict_source s (ed_id e) of
              None \<Rightarrow> Inr s
            | Some (src, i) \<Rightarrow>
                res_bind (if ed_id e = 0 then
                    res_bind (add_or_panic u128_max (as_premine s) (ed_amount e)) (\<lambda>p. Inr (s\<lparr>as_premine := p\<rparr>))
                  else Inr s) (\<lambda>s.
                if output = length (tx_output tx) then split_edict api tx src i (ed_amount e) s
                else
                  let amount = (if ed_amount e = 0 then source_balance src s
                                else min (ed_amount e) (source_balance src s))
                  in allocate src i amount output s)))"

text \<open>The entries of the dunes that were minted.\<close>

definition mint_entry :: "(u128, u128) hashmap \<Rightarrow> u128 \<times> u128 \<Rightarrow> (dune_id \<rightharpoonup> dune_entry) \<Rightarrow>
    (dune_id \<rightharpoonup> dune_entry) may_panic" where
  "mint_entry limits p entries =
    (let (i, amount) = p
     in res_bind (unwrap (map_of limits i)) (\<lambda>limit.
        res_bind (sub_or_panic limit amount) (\<lambda>minted.
        if minted > 0 then
          res_bind (unwrap (dune_id_try_from i)) (\<lambda>key.
          res_bind (unwrap (entries key)) (\<lambda>e.
          res_bind (add_or_panic u128_max (de_supply e) minted) (\<lambda>supply.
          res_bind (add_or_panic u128_max (de_mints e) 1) (\<lambda>mints.
          Inr (entries(key \<mapsto> e\<lparr>de_supply := supply, de_mints := mints\<rparr>))))))
        else Inr entries)))"

text \<open>The entry of the dune that was etched.\<close>

definition create_entry :: "dune_updater \<Rightarrow> txid \<Rightarrow> bool \<Rightarrow> u128 \<Rightarrow> allocation \<Rightarrow> dune_updater may_panic" where
  "create_entry u txid cenotaph premine_amount a =
    (let t = du_tables u
     in res_bind (unwrap (dune_id_try_from (al_id a))) (\<lambda>key.
        res_bind (add_or_panic u64_max (du_dunes u) 1) (\<lambda>dunes.
        res_bind (sub_or_panic u128_max (al_balance a)) (\<lambda>issued.
        res_bind (sub_or_panic issued premine_amount) (\<lambda>supply.
        let inscription_id = \<lparr>ii_txid = txid, ii_index = 0\<rparr>;
            t = t\<lparr>dune_to_id := (dune_to_id t)(al_dune a \<mapsto> key),
                  statistic_to_count := (statistic_to_count t)(Dunes \<mapsto> dunes),
                  id_to_entry := (id_to_entry t)(key \<mapsto>
                    \<lparr>de_block = du_height u, de_burned = 0, de_divisibility = al_divisibility a,
                     de_etching = txid,
                     de_terms = (if cenotaph then None else al_mint a),
                     de_mints = 0, de_number = du_dunes u, de_premine = premine_amount,
                     de_dune = al_dune a, de_spacers = al_spacers a, de_supply = supply,
                     de_symbol = al_symbol a, de_timestamp = du_timestamp u, de_turbo = al_turbo a\<rparr>)\<rparr>;
            t = (if inscription_id_to_inscription_entry t inscription_id \<noteq> None
                 then t\<lparr>inscription_id_to_dune := (inscription_id_to_dune t)(inscription_id \<mapsto> al_dune a)\<rparr>
                 else t)
        in Inr (u\<lparr>du_tables := t, du_dunes := dunes\<rparr>))))))"

text \<open>What is left goes to an output, or is burned.\<close>

definition leftover_output :: "'s script_api \<Rightarrow> 's transaction \<Rightarrow> usize option \<Rightarrow> usize option" where
  "leftover_output api tx default_output =
    (case filter_opt (\<lambda>vout. vout < length (tx_output tx)) default_output of
       Some vout \<Rightarrow> Some vout
     | None \<Rightarrow> (case destinations api tx of [] \<Rightarrow> None | vout # _ \<Rightarrow> Some vout))"

definition assign_leftover :: "'s script_api \<Rightarrow> 's transaction \<Rightarrow> bool \<Rightarrow> usize option \<Rightarrow> (u128, u128) hashmap \<Rightarrow>
    (u128, u128) hashmap list \<Rightarrow> rust_panic + (u128, u128) hashmap list \<times> (u128, u128) hashmap" where
  "assign_leftover api tx cenotaph default_output unallocated allocated =
    (if cenotaph then
       res_bind (res_fold (\<lambda>(i, balance). hm_add u128_max i balance) unallocated []) (\<lambda>burned.
       Inr (allocated, burned))
     else
       (case leftover_output api tx default_output of
          Some vout \<Rightarrow>
            res_bind (index_or_panic allocated vout) (\<lambda>m.
            res_bind (res_fold (\<lambda>(i, balance). hm_add u128_max i balance)
                (filter (\<lambda>p. snd p > 0) unallocated) m) (\<lambda>m'.
            Inr (allocated[vout := m'], [])))
        | None \<Rightarrow>
            res_bind (res_fold (\<lambda>(i, balance). hm_add u128_max i balance)
                (filter (\<lambda>p. snd p > 0) unallocated) []) (\<lambda>burned.
            Inr (allocated, burned))))"

text \<open>The new outputs: written to the table, or burned with an \<open>OP_RETURN\<close>.\<close>

definition encode_balance :: "u128 \<times> u128 \<Rightarrow> byte list \<Rightarrow> byte list may_panic" where
  "encode_balance p buffer = res_bind (encode_to_vec (fst p) buffer) (encode_to_vec (snd p))"

definition write_output :: "'s script_api \<Rightarrow> 's transaction \<Rightarrow> txid \<Rightarrow> usize \<times> (u128, u128) hashmap \<Rightarrow>
    (outpoint \<rightharpoonup> byte list) \<times> (u128, u128) hashmap \<Rightarrow>
    rust_panic + (outpoint \<rightharpoonup> byte list) \<times> (u128, u128) hashmap" where
  "write_output api tx txid p s =
    (let (vout, balances) = p; (table, burned) = s
     in if balances = [] then Inr (table, burned)
        else res_bind (index_or_panic (tx_output tx) vout) (\<lambda>out.
          if is_op_return api (txo_script out) then
            res_bind (res_fold (\<lambda>(i, balance). hm_add u128_max i balance) balances burned) (\<lambda>burned.
            Inr (table, burned))
          else
            res_bind (res_fold encode_balance (sort balances) []) (\<lambda>buffer.
            res_bind (unwrap (try_from u32_max vout)) (\<lambda>vout.
            Inr (table(\<lparr>op_txid = txid, op_vout = vout\<rparr> \<mapsto> buffer), burned)))))"

text \<open>The entries of the dunes that were burned.\<close>

definition burn_entry :: "u128 \<times> u128 \<Rightarrow> (dune_id \<rightharpoonup> dune_entry) \<Rightarrow> (dune_id \<rightharpoonup> dune_entry) may_panic" where
  "burn_entry p entries =
    (let (i, amount) = p
     in res_bind (unwrap (dune_id_try_from i)) (\<lambda>key.
        res_bind (unwrap (entries key)) (\<lambda>e.
        res_bind (add_or_panic u128_max (de_burned e) amount) (\<lambda>burned.
        Inr (entries(key \<mapsto> e\<lparr>de_burned := burned\<rparr>))))))"

section \<open>Indexing a transaction\<close>

text \<open>The part of \<open>index_dunes\<close> under \<open>if let Some(dunestone)\<close>.\<close>

definition index_dunestone :: "'s script_api \<Rightarrow> 's transaction \<Rightarrow> txid \<Rightarrow> usize \<Rightarrow> dunestone \<Rightarrow>
    dune_updater \<Rightarrow> (u128, u128) hashmap \<Rightarrow> (u128, u128) hashmap list \<Rightarrow>
    rust_panic + dune_updater \<times> (u128, u128) hashmap \<times> (u128, u128) hashmap list" where
  "index_dunestone api tx txid index d u unallocated allocated =
    res_bind (case ds_etching d of
        Some etching \<Rightarrow> new_allocation u index etching
      | None \<Rightarrow> Inr (None, du_tables u)) (\<lambda>(allocation, t).
    let u = u\<lparr>du_tables := t\<rparr>;
        limits = mintables u (ds_edicts d);
        s = \<lparr>as_allocation = allocation, as_premine = 0, as_mintable = limits,
             as_unallocated = unallocated, as_allocated = allocated\<rparr>
    in res_bind (if ds_cenotaph d then Inr (s, u)
        else
          res_bind (res_fold (apply_edict api tx) (ds_edicts d) s) (\<lambda>s.
          res_bind (res_fold (mint_entry limits) (as_mintable s) (id_to_entry (du_tables u))) (\<lambda>entries.
          Inr (s, u\<lparr>du_tables := (du_tables u)\<lparr>id_to_entry := entries\<rparr>\<rparr>)))) (\<lambda>(s, u).
      res_bind (case as_allocation s of
          None \<Rightarrow> Inr u
        | Some a \<Rightarrow> create_entry u txid (ds_cenotaph d) (as_premine s) a) (\<lambda>u.
      Inr (u, as_unallocated s, as_allocated s))))"

definition index_dunes :: "'s script_api \<Rightarrow> usize \<Rightarrow> 's transaction \<Rightarrow> txid \<Rightarrow> dune_updater \<Rightarrow> dune_updater may_panic" where
  "index_dunes api index tx txid u =
    (let dunestone = from_transaction api tx
     in res_bind (res_fold take_input (tx_input tx) (outpoint_to_balances (du_tables u), [])) (\<lambda>(balances, unallocated).
        let u = u\<lparr>du_tables := (du_tables u)\<lparr>outpoint_to_balances := balances\<rparr>\<rparr>;
            cenotaph = (case dunestone of None \<Rightarrow> False | Some d \<Rightarrow> ds_cenotaph d);
            default_output = Option.bind dunestone ds_pointer;
            allocated = replicate (length (tx_output tx)) []
        in res_bind (case dunestone of
              None \<Rightarrow> Inr (u, unallocated, allocated)
            | Some d \<Rightarrow> index_dunestone api tx txid index d u unallocated allocated) (\<lambda>(u, unallocated, allocated).
           res_bind (assign_leftover api tx cenotaph default_output unallocated allocated) (\<lambda>(allocated, burned).
           res_bind (res_fold (write_output api tx txid) (enumerate 0 allocated)
               (outpoint_to_balances (du_tables u), burned)) (\<lambda>(balances, burned).
           res_bind (res_fold burn_entry burned (id_to_entry (du_tables u))) (\<lambda>entries.
           Inr (u\<lparr>du_tables := (du_tables u)\<lparr>outpoint_to_balances := balances, id_to_entry := entries\<rparr>\<rparr>)))))))"

section \<open>Well-formed maps\<close>

definition hm_typed :: "(u128, u128) hashmap \<Rightarrow> bool" where
  "hm_typed m \<longleftrightarrow> hm_ok m \<and> (\<forall>(i, v)\<in>set m. i \<le> u128_max \<and> v \<le> u128_max)"

lemma hm_typed_Nil [simp]: "hm_typed []"
  by (simp add: hm_typed_def)

lemma set_hm_insert: "set (hm_insert k v m) \<subseteq> insert (k, v) (set m)"
  unfolding hm_insert_def by (induction m) auto

lemma hm_typed_insert [intro]:
  "hm_typed m \<Longrightarrow> i \<le> u128_max \<Longrightarrow> v \<le> u128_max \<Longrightarrow> hm_typed (hm_insert i v m)"
  using set_hm_insert [of i v m] by (fastforce simp: hm_typed_def)

lemma hm_typed_get: "hm_typed m \<Longrightarrow> hm_get m i \<le> u128_max"
  by (auto simp: hm_typed_def hm_get_def split: option.splits dest!: map_of_SomeD)

lemma hm_typed_key: "hm_typed m \<Longrightarrow> map_of m i \<noteq> None \<Longrightarrow> i \<le> u128_max"
  by (auto simp: hm_typed_def dest!: map_of_SomeD)

lemma hm_typed_add: "hm_add u128_max i v m = Inr m' \<Longrightarrow> hm_typed m \<Longrightarrow> i \<le> u128_max \<Longrightarrow> hm_typed m'"
  by (auto simp: res_simps)

lemma hm_typed_add_all:
  assumes "res_fold (\<lambda>(i, v). hm_add u128_max i v) ps m = Inr m'" and "hm_typed m"
    and "\<forall>p\<in>set ps. fst p \<le> u128_max"
  shows "hm_typed m'"
  using assms(1,2)
proof (rule res_fold_invariant [where P = hm_typed])
  show "hm_typed s'" if "x \<in> set ps" "hm_typed s" "(case x of (i, v) \<Rightarrow> hm_add u128_max i v) s = Inr s'" for x s s'
    using that assms(3) hm_typed_add [of "fst x" "snd x" s s'] by (simp add: case_prod_beta)
qed

lemma hm_absorb_positive:
  assumes "res_fold (\<lambda>(i, v). hm_add mx i v) (filter (\<lambda>p. snd p > 0) m) acc = Inr acc'" and "hm_ok m"
  shows "hm_get acc' k = hm_get acc k + hm_get m k"
proof -
  have "sum_list (map snd (filter (\<lambda>p. fst p = k) (filter (\<lambda>p. snd p > 0) m))) =
      sum_list (map snd (filter (\<lambda>p. fst p = k) m))"
    by (induction m) auto
  then show ?thesis
    using res_fold_hm_add [OF assms(1)] sum_list_filter_key [OF assms(2)] by simp
qed

section \<open>What the tables hold\<close>

definition buffer_balance :: "byte list \<Rightarrow> u128 \<Rightarrow> nat" where
  "buffer_balance buffer k = sum_list (map snd (filter (\<lambda>p. fst p = k) (decode_seq decode2 buffer)))"

definition held :: "(outpoint \<rightharpoonup> byte list) \<Rightarrow> u128 \<Rightarrow> nat" where
  "held table k = (\<Sum>op\<in>dom table. buffer_balance (the (table op)) k)"

definition entry_of :: "(dune_id \<rightharpoonup> dune_entry) \<Rightarrow> u128 \<Rightarrow> dune_entry option" where
  "entry_of entries k = Option.bind (dune_id_try_from k) entries"

definition issued :: "(dune_id \<rightharpoonup> dune_entry) \<Rightarrow> u128 \<Rightarrow> nat" where
  "issued entries k = (case entry_of entries k of None \<Rightarrow> 0 | Some e \<Rightarrow> de_premine e + de_supply e)"

definition burnt :: "(dune_id \<rightharpoonup> dune_entry) \<Rightarrow> u128 \<Rightarrow> nat" where
  "burnt entries k = (case entry_of entries k of None \<Rightarrow> 0 | Some e \<Rightarrow> de_burned e)"

definition conserved :: "dune_tables \<Rightarrow> bool" where
  "conserved t \<longleftrightarrow> finite (dom (outpoint_to_balances t)) \<and>
    (\<forall>k. held (outpoint_to_balances t) k + burnt (id_to_entry t) k = issued (id_to_entry t) k)"

lemma held_remove:
  assumes "finite (dom table)" and "table op = Some buffer"
  shows "held (table(op := None)) k + buffer_balance buffer k = held table k"
proof -
  have "held table k = buffer_balance (the (table op)) k +
      (\<Sum>x\<in>dom table - {op}. buffer_balance (the (table x)) k)"
    unfolding held_def using assms by (intro sum.remove) auto
  moreover have "(\<Sum>x\<in>dom table - {op}. buffer_balance (the (table x)) k) = held (table(op := None)) k"
    unfolding held_def by (intro sum.cong) auto
  ultimately show ?thesis using assms(2) by simp
qed

lemma held_insert:
  assumes "finite (dom table)" and "table op = None"
  shows "held (table(op \<mapsto> buffer)) k = held table k + buffer_balance buffer k"
  using held_remove [of "table(op \<mapsto> buffer)" op buffer k] assms
  by (simp add: fun_upd_idem)

lemma try_from_inject: "dune_id_try_from i = Some d \<Longrightarrow> dune_id_try_from j = Some d \<Longrightarrow> i = j"
  unfolding dune_id_try_from_Some by (metis dune_id.ext_inject div_mult_mod_eq)

lemma entry_of_update:
  assumes "dune_id_try_from i = Some key"
  shows "entry_of (entries(key \<mapsto> e)) k = (if k = i then Some e else entry_of entries k)"
proof (cases "dune_id_try_from k")
  case None
  with assms show ?thesis by (auto simp: entry_of_def)
next
  case (Some d)
  with assms show ?thesis using try_from_inject [of k d i] by (auto simp: entry_of_def)
qed

section \<open>Conservation, phase by phase\<close>

lemma take_input_conserves:
  assumes "take_input input (table, un) = Inr (table', un')" and "finite (dom table)"
  shows "held table' k + hm_get un' k = held table k + hm_get un k"
    and "dom table' \<subseteq> dom table" and "hm_typed un \<Longrightarrow> hm_typed un'"
proof -
  show "held table' k + hm_get un' k = held table k + hm_get un k"
  proof (cases "table input")
    case None
    with assms show ?thesis by (simp add: take_input_def)
  next
    case (Some buffer)
    with assms(1) have t: "table' = table(input := None)" and
      f: "res_fold (\<lambda>(i, v). hm_add u128_max i v) (decode_seq decode2 buffer) un = Inr un'"
      by (auto simp: take_input_def res_bind_eq_Inr)
    show ?thesis
      using held_remove [OF assms(2) Some, of k] res_fold_hm_add [OF f, of k] by (simp add: t buffer_balance_def)
  qed
  show "dom table' \<subseteq> dom table"
    using assms(1) by (auto simp: take_input_def res_bind_eq_Inr split: option.splits if_splits)
  show "hm_typed un'" if "hm_typed un"
  proof (cases "table input")
    case None
    with assms that show ?thesis by (simp add: take_input_def)
  next
    case (Some buffer)
    with assms(1) have
      f: "res_fold (\<lambda>(i, v). hm_add u128_max i v) (decode_seq decode2 buffer) un = Inr un'"
      by (auto simp: take_input_def res_bind_eq_Inr)
    have "\<forall>p\<in>set (decode_seq decode2 buffer). fst p \<le> u128_max" using decode2_seq_bounded by blast
    then show ?thesis by (rule hm_typed_add_all [OF f that])
  qed
qed

lemma take_inputs_conserve:
  assumes "res_fold take_input inputs (table, un) = Inr (table', un')" and "finite (dom table)"
    and "hm_typed un"
  shows "held table' k + hm_get un' k = held table k + hm_get un k \<and> dom table' \<subseteq> dom table \<and> hm_typed un'"
  using assms
proof (induction inputs arbitrary: table un)
  case Nil
  then show ?case by simp
next
  case (Cons input inputs)
  from Cons.prems(1) obtain table1 un1 where
    s: "take_input input (table, un) = Inr (table1, un1)" and
    r: "res_fold take_input inputs (table1, un1) = Inr (table', un')"
    by (auto simp: res_bind_eq_Inr)
  note S = take_input_conserves [OF s Cons.prems(2)]
  have "finite (dom table1)" using S(2) Cons.prems(2) by (rule finite_subset)
  with Cons.IH [OF r] S Cons.prems(3) show ?case by (metis subset_trans)
qed

text \<open>The total of one dune in an allocation state, and the state's invariant.\<close>

definition total :: "alloc_state \<Rightarrow> u128 \<Rightarrow> nat" where
  "total s k = sum_list (map (\<lambda>m. hm_get m k) (as_allocated s)) + hm_get (as_unallocated s) k +
    hm_get (as_mintable s) k +
    (case as_allocation s of None \<Rightarrow> 0 | Some a \<Rightarrow> if al_id a = k then al_balance a else 0)"

definition alloc_inv :: "alloc_state \<Rightarrow> bool" where
  "alloc_inv s \<longleftrightarrow> hm_typed (as_unallocated s) \<and> list_all hm_typed (as_allocated s) \<and>
    hm_ok (as_mintable s) \<and> (\<forall>i\<in>fst ` set (as_mintable s). i \<le> u128_max) \<and>
    (\<forall>a. as_allocation s = Some a \<longrightarrow> al_id a \<le> u128_max)"

text \<open>What every step on the state keeps.\<close>

definition keeps :: "alloc_state \<Rightarrow> alloc_state \<Rightarrow> bool" where
  "keeps s s' \<longleftrightarrow> total s' = total s \<and> (alloc_inv s \<longrightarrow> alloc_inv s') \<and>
    fst ` set (as_mintable s') = fst ` set (as_mintable s) \<and>
    map_option al_id (as_allocation s') = map_option al_id (as_allocation s) \<and>
    length (as_allocated s') = length (as_allocated s)"

lemma keepsD:
  assumes "keeps s s'"
  shows "total s' = total s" and "alloc_inv s \<Longrightarrow> alloc_inv s'"
    and "fst ` set (as_mintable s') = fst ` set (as_mintable s)"
    and "map_option al_id (as_allocation s') = map_option al_id (as_allocation s)"
  using assms unfolding keeps_def by blast+

lemma keeps_refl [simp]: "keeps s s"
  by (simp add: keeps_def)

lemma keeps_trans: "keeps s s' \<Longrightarrow> keeps s' s'' \<Longrightarrow> keeps s s''"
  by (simp add: keeps_def)

lemma res_fold_keeps:
  assumes "res_fold f xs s = Inr t" and "P s"
    and "\<And>x s s'. P s \<Longrightarrow> f x s = Inr s' \<Longrightarrow> keeps s s' \<and> P s'"
  shows "keeps s t \<and> P t"
proof -
  have "keeps s t \<and> P t"
  proof (rule res_fold_invariant [where P = "\<lambda>t. keeps s t \<and> P t", OF assms(1)])
    show "keeps s s \<and> P s" using assms(2) by simp
    show "keeps s v \<and> P v" if "keeps s u \<and> P u" "f x u = Inr v" for x u v
      using that assms(3) [of u x v] keeps_trans [of s u v] by blast
  qed
  then show ?thesis .
qed

definition source_ok :: "source \<Rightarrow> u128 \<Rightarrow> alloc_state \<Rightarrow> bool" where
  "source_ok src i s \<longleftrightarrow>
    (case src of
       FromAllocation \<Rightarrow> map_option al_id (as_allocation s) = Some i
     | FromMintable c \<Rightarrow> c = i \<and> i \<in> fst ` set (as_mintable s)
     | FromUnallocated c \<Rightarrow> c = i \<and> i \<in> fst ` set (as_unallocated s))"

lemma edict_source_ok: "edict_source s i = Some (src, j) \<Longrightarrow> source_ok src j s"
  by (auto simp: edict_source_def source_ok_def split: if_splits option.splits)
    (auto simp: image_iff dest!: map_of_SomeD intro: rev_bexI)

lemma source_ok_key: "source_ok src i s \<Longrightarrow> alloc_inv s \<Longrightarrow> i \<le> u128_max"
  by (cases src) (auto simp: source_ok_def alloc_inv_def hm_typed_def)

lemma sum_list_update_get:
  assumes "output < length ms" and "hm_get m' k = hm_get (ms ! output) k + d"
  shows "sum_list (map (\<lambda>m. hm_get m k) (ms[output := m'])) = sum_list (map (\<lambda>m. hm_get m k) ms) + (d :: nat)"
proof -
  have "hm_get (ms ! output) k \<le> sum_list (map (\<lambda>m. hm_get m k) ms)"
    using assms(1) elem_le_sum_list [where ns = "map (\<lambda>m. hm_get m k) ms" and k = "output"] by simp
  then show ?thesis
    using assms by (simp add: map_update sum_list_update)
qed

lemma list_all_update: "list_all P xs \<Longrightarrow> P x \<Longrightarrow> list_all P (xs[i := x])"
  by (auto simp: list_all_iff dest!: subsetD [OF set_update_subset_insert])

lemma set_source_total:
  assumes "source_ok src i s" and "amount \<le> source_balance src s"
  shows "total (set_source src (source_balance src s - amount) s) k + (if k = i then amount else 0) = total s k"
  using assms
  by (cases src) (auto simp: source_ok_def total_def hm_get_insert split: option.splits)

lemma set_source_frame:
  "as_allocated (set_source src b s) = as_allocated s"
  "as_premine (set_source src b s) = as_premine s"
  "source_ok src i s \<Longrightarrow> fst ` set (as_mintable (set_source src b s)) = fst ` set (as_mintable s)"
  "source_ok src i s \<Longrightarrow> source_ok src i (set_source src b s)"
  "map_option al_id (as_allocation (set_source src b s)) = map_option al_id (as_allocation s)"
  by (cases src; auto simp: source_ok_def map_fst_hm_insert option.map_comp o_def split: option.splits)+

lemma set_source_inv:
  assumes "alloc_inv s" and "source_ok src i s" and "b \<le> source_balance src s"
  shows "alloc_inv (set_source src b s)"
  using assms source_ok_key [OF assms(2,1)]
  by (cases src)
    (auto simp: alloc_inv_def source_ok_def map_fst_hm_insert intro!: hm_typed_insert dest: hm_typed_get order_trans)

lemma allocate_keeps:
  assumes "source_ok src i s" and "allocate src i amount output s = Inr s'"
  shows "keeps s s' \<and> source_ok src i s'"
proof (cases "amount > 0")
  case False
  with assms show ?thesis by (simp add: allocate_def)
next
  case True
  let ?b = "source_balance src s"
  from assms(2) True obtain m' where
    le: "amount \<le> ?b" and out: "output < length (as_allocated s)" and
    add: "hm_add u128_max i amount (as_allocated s ! output) = Inr m'" and
    s': "s' = set_source src (?b - amount) (s\<lparr>as_allocated := (as_allocated s)[output := m']\<rparr>)"
    by (auto simp: allocate_def res_bind_eq_Inr sub_or_panic_Inr index_or_panic_Inr)
  let ?s = "s\<lparr>as_allocated := (as_allocated s)[output := m']\<rparr>"
  have src: "source_ok src i ?s" "source_balance src ?s = ?b"
    using assms(1) by (cases src; simp add: source_ok_def)+
  have "hm_get m' k = hm_get (as_allocated s ! output) k + (if k = i then amount else 0)" for k
    using add by (auto simp: hm_add_Inr hm_get_insert)
  then have "total ?s k = total s k + (if k = i then amount else 0)" for k
    using sum_list_update_get [OF out, of m' k] by (simp add: total_def)
  then have "total s' k = total s k" for k
    using set_source_total [of src i ?s amount k] src le unfolding s' by simp
  moreover have "alloc_inv s'" if "alloc_inv s"
  proof -
    have "hm_typed m'"
      using add that out source_ok_key [OF assms(1) that]
      by (intro hm_typed_add [OF add]) (auto simp: alloc_inv_def list_all_length)
    then have "alloc_inv ?s" using that by (auto simp: alloc_inv_def intro: list_all_update)
    then show ?thesis unfolding s' using src by (intro set_source_inv) auto
  qed
  ultimately show ?thesis
    using set_source_frame(3,4) [OF src(1)] unfolding s' by (auto simp: keeps_def set_source_frame(1,2,5))
qed

lemma split_edict_keeps:
  assumes "source_ok src i s" and "split_edict api tx src i amount s = Inr s'"
  shows "keeps s s'"
proof -
  have "keeps s s' \<and> source_ok src i s'"
  proof (cases "amount = 0")
    case True
    with assms(2) have "res_fold (\<lambda>(n, out). allocate src i
        (if n < source_balance src s mod length (destinations api tx)
         then source_balance src s div length (destinations api tx) + 1
         else source_balance src s div length (destinations api tx)) out)
        (enumerate 0 (destinations api tx)) s = Inr s'"
      by (simp add: split_edict_def Let_def split: if_splits)
    then show ?thesis using assms(1)
      by (rule res_fold_keeps) (auto split: prod.splits dest: allocate_keeps)
  next
    case False
    with assms(2) have "res_fold (\<lambda>out s. allocate src i (min amount (source_balance src s)) out s)
        (destinations api tx) s = Inr s'"
      by (simp add: split_edict_def Let_def)
    then show ?thesis using assms(1) by (rule res_fold_keeps) (auto dest: allocate_keeps)
  qed
  then show ?thesis by simp
qed

lemma keeps_premine: "keeps (s\<lparr>as_premine := p\<rparr>) s' \<longleftrightarrow> keeps s s'"
  by (simp add: keeps_def total_def [abs_def] alloc_inv_def)

text \<open>The last part of \<open>apply_edict\<close>, once the balance to draw on is known.\<close>

lemma edict_transfer_keeps:
  assumes "source_ok src i s"
    and "(if out = n then split_edict api tx src i amount s
          else allocate src i (if amount = 0 then source_balance src s else min amount (source_balance src s)) out s) = Inr s'"
  shows "keeps s s'"
  using assms split_edict_keeps [OF assms(1)] allocate_keeps [OF assms(1)] by (auto split: if_splits)

lemma apply_edict_keeps:
  assumes "apply_edict api tx e s = Inr s'"
  shows "keeps s s'"
proof (cases "edict_source s (ed_id e) = None \<or> try_from u64_max (ed_output e) = None \<or>
    length (tx_output tx) \<le> ed_output e")
  case True
  with assms have "s' = s" by (auto simp: apply_edict_def split: option.splits if_splits)
  then show ?thesis by simp
next
  case False
  then obtain src i where p: "edict_source s (ed_id e) = Some (src, i)" by auto
  have fits: "try_from u64_max (ed_output e) = Some (ed_output e)" using False by auto
  have ok0: "source_ok src i s" using p by (rule edict_source_ok)
  then have ok: "source_ok src i (s\<lparr>as_premine := q\<rparr>)" for q
    by (cases src) (simp_all add: source_ok_def)
  have "res_bind (if ed_id e = 0 then
        res_bind (add_or_panic u128_max (as_premine s) (ed_amount e)) (\<lambda>p. Inr (s\<lparr>as_premine := p\<rparr>))
      else Inr s) (\<lambda>s. if ed_output e = length (tx_output tx) then split_edict api tx src i (ed_amount e) s
      else allocate src i (if ed_amount e = 0 then source_balance src s
        else min (ed_amount e) (source_balance src s)) (ed_output e) s) = Inr s'"
    using assms False p by (simp add: apply_edict_def fits Let_def)
  then obtain s1 where
    pre: "(if ed_id e = 0 then
        res_bind (add_or_panic u128_max (as_premine s) (ed_amount e)) (\<lambda>p. Inr (s\<lparr>as_premine := p\<rparr>))
      else Inr s) = Inr s1" and
    tr: "(if ed_output e = length (tx_output tx) then split_edict api tx src i (ed_amount e) s1
          else allocate src i (if ed_amount e = 0 then source_balance src s1
            else min (ed_amount e) (source_balance src s1)) (ed_output e) s1) = Inr s'"
    by (rule res_bind_InrE)
  have s1: "s1 = s \<or> (\<exists>q. s1 = s\<lparr>as_premine := q\<rparr>)"
    using pre by (auto simp: res_bind_eq_Inr split: if_splits)
  have "source_ok src i s1" using s1 ok0 ok by auto
  from edict_transfer_keeps [OF this tr] s1 show ?thesis by (auto simp: keeps_premine)
qed

lemma apply_edicts_keep:
  assumes "res_fold (apply_edict api tx) es s = Inr s'"
  shows "keeps s s'"
  using res_fold_keeps [OF assms, of "\<lambda>_. True"] apply_edict_keeps by blast

section \<open>Conservation of the entries\<close>

lemma mint_entry_issues:
  assumes "mint_entry limits (i, amount) entries = Inr entries'"
  shows "issued entries' k + (if k = i then amount else 0) = issued entries k + (if k = i then hm_get limits i else 0)"
    and "burnt entries' = burnt entries"
    and "entry_of entries' k = None \<longleftrightarrow> entry_of entries k = None"
proof -
  from assms obtain limit where limit: "map_of limits i = Some limit" "amount \<le> limit"
    by (auto simp: mint_entry_def res_bind_eq_Inr unwrap_Inr sub_or_panic_Inr)
  have "issued entries' k + (if k = i then amount else 0) = issued entries k + (if k = i then hm_get limits i else 0) \<and>
      burnt entries' k = burnt entries k \<and> (entry_of entries' k = None \<longleftrightarrow> entry_of entries k = None)" for k
  proof (cases "limit - amount > 0")
    case False
    with assms limit show ?thesis by (auto simp: mint_entry_def checked_defs hm_get_def)
  next
    case True
    from assms limit True obtain key e where
      key: "dune_id_try_from i = Some key" and e: "entries key = Some e" and
      upd: "entries' = entries(key \<mapsto> e\<lparr>de_supply := de_supply e + (limit - amount), de_mints := de_mints e + 1\<rparr>)"
      by (auto simp: mint_entry_def res_simps)
    have "entry_of entries i = Some e" using key e by (simp add: entry_of_def)
    then show ?thesis
      using limit unfolding upd issued_def burnt_def entry_of_update [OF key] by (auto simp: hm_get_def)
  qed
  then show "issued entries' k + (if k = i then amount else 0) = issued entries k + (if k = i then hm_get limits i else 0)"
    and "burnt entries' = burnt entries"
    and "entry_of entries' k = None \<longleftrightarrow> entry_of entries k = None" by auto
qed

lemma mint_entries_issue:
  assumes "res_fold (mint_entry limits) m entries = Inr entries'"
  shows "issued entries' k + sum_list (map snd (filter (\<lambda>p. fst p = k) m)) =
      issued entries k + length (filter (\<lambda>p. fst p = k) m) * hm_get limits k \<and>
    burnt entries' = burnt entries \<and> (entry_of entries' k = None \<longleftrightarrow> entry_of entries k = None)"
  using assms
proof (induction m arbitrary: entries)
  case Nil
  then show ?case by simp
next
  case (Cons p m)
  obtain i amount where p: "p = (i, amount)" by force
  from Cons.prems p obtain entries1 where
    s: "mint_entry limits (i, amount) entries = Inr entries1" and
    r: "res_fold (mint_entry limits) m entries1 = Inr entries'"
    by (auto simp: res_bind_eq_Inr)
  show ?case using Cons.IH [OF r] mint_entry_issues(1,3) [OF s, of k] mint_entry_issues(2) [OF s] unfolding p by (auto split: if_splits)
qed

lemma length_filter_key:
  fixes m :: "('a, 'b) hashmap"
  assumes "hm_ok m"
  shows "length (filter (\<lambda>p. fst p = k) m) = (if k \<in> fst ` set m then 1 else 0)"
  using assms
proof (induction m)
  case Nil
  show ?case by simp
next
  case (Cons p m)
  have "filter (\<lambda>p. fst p = fst q) m = []" if "fst q \<notin> fst ` set m" for q :: "'a \<times> 'b"
    using that by (force simp: filter_empty_conv image_iff)
  with Cons show ?case by (auto simp: hm_ok_def)
qed

lemma minted_issued:
  assumes "res_fold (mint_entry limits) m entries = Inr entries'" and "hm_ok m"
    and "fst ` set m = fst ` set limits"
  shows "issued entries' k + hm_get m k = issued entries k + hm_get limits k"
    and "burnt entries' = burnt entries"
    and "entry_of entries' k = None \<longleftrightarrow> entry_of entries k = None"
proof -
  have "hm_get limits k = 0" if "k \<notin> fst ` set limits"
    using that by (simp add: hm_get_def map_of_eq_None_iff [symmetric])
  then show "issued entries' k + hm_get m k = issued entries k + hm_get limits k"
    and "burnt entries' = burnt entries"
    and "entry_of entries' k = None \<longleftrightarrow> entry_of entries k = None"
    using mint_entries_issue [OF assms(1), of k] sum_list_filter_key [OF assms(2), of k]
      length_filter_key [OF assms(2), of k] assms(3) by (auto split: if_splits)
qed

lemma create_entry_issues:
  assumes "create_entry u txid cenotaph premine a = Inr u'"
    and "entry_of (id_to_entry (du_tables u)) (al_id a) = None"
  shows "issued (id_to_entry (du_tables u')) k =
      issued (id_to_entry (du_tables u)) k + (if k = al_id a then u128_max - al_balance a else 0)"
    and "burnt (id_to_entry (du_tables u')) = burnt (id_to_entry (du_tables u))"
    and "outpoint_to_balances (du_tables u') = outpoint_to_balances (du_tables u)"
    and "al_balance a \<le> u128_max"
proof -
  from assms(1) obtain key where key: "dune_id_try_from (al_id a) = Some key"
    and le: "al_balance a \<le> u128_max" "premine \<le> u128_max - al_balance a"
    by (auto simp: create_entry_def res_simps Let_def)
  define e where "e = \<lparr>de_block = du_height u, de_burned = 0, de_divisibility = al_divisibility a, de_etching = txid,
     de_terms = (if cenotaph then None else al_mint a), de_mints = 0, de_number = du_dunes u,
     de_premine = premine, de_dune = al_dune a, de_spacers = al_spacers a,
     de_supply = u128_max - al_balance a - premine, de_symbol = al_symbol a,
     de_timestamp = du_timestamp u, de_turbo = al_turbo a\<rparr>"
  have upd: "id_to_entry (du_tables u') = (id_to_entry (du_tables u))(key \<mapsto> e)" and
    out: "outpoint_to_balances (du_tables u') = outpoint_to_balances (du_tables u)"
    using assms(1) key unfolding create_entry_def e_def
    by (auto simp: res_simps Let_def split: if_splits)
  have e: "de_premine e = premine" "de_supply e = u128_max - al_balance a - premine" "de_burned e = 0"
    by (simp_all add: e_def)
  show "issued (id_to_entry (du_tables u')) k =
      issued (id_to_entry (du_tables u)) k + (if k = al_id a then u128_max - al_balance a else 0)"
    using assms(2) e le unfolding upd issued_def entry_of_update [OF key] by auto
  show "burnt (id_to_entry (du_tables u')) = burnt (id_to_entry (du_tables u))"
    using assms(2) e unfolding upd burnt_def entry_of_update [OF key] by (auto simp: fun_eq_iff)
  show "outpoint_to_balances (du_tables u') = outpoint_to_balances (du_tables u)" by (fact out)
  show "al_balance a \<le> u128_max" by (fact le)
qed

lemma burn_entry_burns:
  assumes "burn_entry (i, amount) entries = Inr entries'"
  shows "issued entries' = issued entries" and "burnt entries' k = burnt entries k + (if k = i then amount else 0)"
proof -
  from assms obtain key e where
    key: "dune_id_try_from i = Some key" and e: "entries key = Some e" and
    upd: "entries' = entries(key \<mapsto> e\<lparr>de_burned := de_burned e + amount\<rparr>)"
    by (auto simp: burn_entry_def res_simps)
  have "entry_of entries i = Some e" using key e by (simp add: entry_of_def)
  then show "issued entries' = issued entries" and "burnt entries' k = burnt entries k + (if k = i then amount else 0)"
    unfolding upd issued_def burnt_def entry_of_update [OF key] by (auto simp: fun_eq_iff)
qed

lemma burn_entries_burn:
  assumes "res_fold burn_entry m entries = Inr entries'" and "hm_ok m"
  shows "issued entries' = issued entries \<and> burnt entries' k = burnt entries k + hm_get m k"
proof -
  have "issued entries' = issued entries \<and>
      burnt entries' k = burnt entries k + sum_list (map snd (filter (\<lambda>p. fst p = k) m))"
    using assms(1)
  proof (induction m arbitrary: entries)
    case Nil
    then show ?case by simp
  next
    case (Cons p m)
    obtain i amount where p: "p = (i, amount)" by force
    from Cons.prems p obtain entries1 where
      s: "burn_entry (i, amount) entries = Inr entries1" and r: "res_fold burn_entry m entries1 = Inr entries'"
      by (auto simp: res_bind_eq_Inr)
    show ?case using Cons.IH [OF r] burn_entry_burns [OF s] unfolding p by auto
  qed
  then show ?thesis using sum_list_filter_key [OF assms(2)] by simp
qed

section \<open>Conservation of the outputs\<close>

abbreviation all_allocated :: "(u128, u128) hashmap list \<Rightarrow> u128 \<Rightarrow> nat" where
  "all_allocated ms k \<equiv> sum_list (map (\<lambda>m. hm_get m k) ms)"

lemma hm_typed_keys: "hm_typed m \<Longrightarrow> p \<in> set m \<Longrightarrow> fst p \<le> u128_max"
  by (auto simp: hm_typed_def)

lemma assign_leftover_conserves:
  assumes "assign_leftover api tx cenotaph default_output un allocated = Inr (allocated', burned)"
    and "hm_typed un" and "list_all hm_typed allocated"
  shows "all_allocated allocated' k + hm_get burned k = all_allocated allocated k + hm_get un k"
    and "list_all hm_typed allocated'" and "hm_typed burned" and "length allocated' = length allocated"
proof -
  have ok: "hm_ok un" and keys: "\<forall>p\<in>set un. fst p \<le> u128_max"
    using assms(2) hm_typed_keys by (auto simp: hm_typed_def)
  have pos: "\<forall>p\<in>set (filter (\<lambda>p. snd p > 0) un). fst p \<le> u128_max" using keys by auto
  have "all_allocated allocated' k + hm_get burned k = all_allocated allocated k + hm_get un k \<and>
    list_all hm_typed allocated' \<and> hm_typed burned \<and> length allocated' = length allocated"
  proof (cases "cenotaph \<or> leftover_output api tx default_output = None")
    case True
    then have a: "allocated' = allocated" using assms(1)
      by (auto simp: assign_leftover_def res_bind_eq_Inr split: if_splits)
    consider "res_fold (\<lambda>(i, b). hm_add u128_max i b) un [] = Inr burned"
      | "res_fold (\<lambda>(i, b). hm_add u128_max i b) (filter (\<lambda>p. snd p > 0) un) [] = Inr burned"
      using assms(1) True by (auto simp: assign_leftover_def res_bind_eq_Inr split: if_splits)
    then have "hm_get burned k = hm_get un k \<and> hm_typed burned"
    proof cases
      case 1
      then show ?thesis using hm_absorb [OF 1 ok, of k] hm_typed_add_all [OF 1 hm_typed_Nil keys] by simp
    next
      case 2
      then show ?thesis using hm_absorb_positive [OF 2 ok, of k] hm_typed_add_all [OF 2 hm_typed_Nil pos] by simp
    qed
    then show ?thesis using a assms(3) by simp
  next
    case False
    then obtain vout m' where v: "vout < length allocated" and
      f: "res_fold (\<lambda>(i, b). hm_add u128_max i b) (filter (\<lambda>p. snd p > 0) un) (allocated ! vout) = Inr m'" and
      r: "allocated' = allocated[vout := m']" "burned = []"
      using assms(1) by (auto simp: assign_leftover_def res_bind_eq_Inr index_or_panic_Inr)
    have m: "hm_typed (allocated ! vout)" using assms(3) v by (simp add: list_all_length)
    show ?thesis
      using sum_list_update_get [OF v hm_absorb_positive [OF f ok, of k]] hm_typed_add_all [OF f m pos] assms(3)
      unfolding r by (simp add: list_all_update)
  qed
  then show "all_allocated allocated' k + hm_get burned k = all_allocated allocated k + hm_get un k"
    and "list_all hm_typed allocated'" and "hm_typed burned" and "length allocated' = length allocated" by auto
qed

text \<open>The buffer of an output holds exactly its balances.\<close>

lemma encode_balances:
  assumes "\<forall>p\<in>set ps. fst p \<le> u128_max \<and> snd p \<le> u128_max"
  shows "res_fold encode_balance ps buffer = Inr (buffer @ concat (map varint2_bytes ps))"
  using assms
proof (induction ps arbitrary: buffer)
  case Nil
  show ?case by simp
next
  case (Cons p ps)
  then show ?case by (simp add: encode_balance_def encode_to_vec_eq varint2_bytes_def)
qed

lemma buffer_of_balances:
  assumes "hm_typed m" and "res_fold encode_balance (sort m) [] = Inr buffer"
  shows "buffer_balance buffer k = hm_get m k"
proof -
  have typed: "\<forall>p\<in>set (sort m). fst p \<le> u128_max \<and> snd p \<le> u128_max"
    using assms(1) by (auto simp: hm_typed_def)
  have "buffer = concat (map varint2_bytes (sort m))"
    using encode_balances [OF typed, of "[]"] assms(2) by simp
  then have "decode_seq decode2 buffer = sort m"
    using vi2.seq_round_trip [of "sort m"] typed by (simp add: list_all_iff)
  then have "buffer_balance buffer k = sum_list (map snd (filter (\<lambda>p. fst p = k) (sort m)))"
    by (simp add: buffer_balance_def)
  also have "\<dots> = sum_list (map snd (filter (\<lambda>p. fst p = k) m))"
  proof -
    have "mset (map snd (filter (\<lambda>p. fst p = k) (sort m))) = mset (map snd (filter (\<lambda>p. fst p = k) m))" by simp
    then show ?thesis by (metis sum_mset_sum_list)
  qed
  also have "\<dots> = hm_get m k" using assms(1) by (intro sum_list_filter_key) (simp add: hm_typed_def)
  finally show ?thesis .
qed

lemma write_output_conserves:
  assumes "write_output api tx txid (vout, m) (table, burned) = Inr (table', burned')"
    and "finite (dom table)" and "table \<lparr>op_txid = txid, op_vout = vout\<rparr> = None"
    and "hm_typed m" and "hm_typed burned"
  shows "held table' k + hm_get burned' k = held table k + hm_get burned k + hm_get m k"
    and "dom table' \<subseteq> insert \<lparr>op_txid = txid, op_vout = vout\<rparr> (dom table)" and "hm_typed burned'"
proof -
  have "held table' k + hm_get burned' k = held table k + hm_get burned k + hm_get m k \<and>
    dom table' \<subseteq> insert \<lparr>op_txid = txid, op_vout = vout\<rparr> (dom table) \<and> hm_typed burned'"
  proof (cases "m = [] \<or> is_op_return api (txo_script (tx_output tx ! vout))")
    case True
    show ?thesis
    proof (cases "m = []")
      case True
      with assms show ?thesis by (auto simp: write_output_def)
    next
      case False
      with True assms(1) have t: "table' = table" and
        f: "res_fold (\<lambda>(i, b). hm_add u128_max i b) m burned = Inr burned'"
        by (auto simp: write_output_def res_bind_eq_Inr index_or_panic_Inr)
      have "\<forall>p\<in>set m. fst p \<le> u128_max" using assms(4) hm_typed_keys by blast
      with hm_absorb [OF f, of k] hm_typed_add_all [OF f assms(5)] assms(4) t show ?thesis
        by (auto simp: hm_typed_def)
    qed
  next
    case False
    with assms(1) obtain buffer where
      b: "res_fold encode_balance (sort m) [] = Inr buffer" and
      r: "table' = table(\<lparr>op_txid = txid, op_vout = vout\<rparr> \<mapsto> buffer)" "burned' = burned"
      by (auto simp: write_output_def res_bind_eq_Inr index_or_panic_Inr unwrap_Inr)
    show ?thesis
      using held_insert [OF assms(2,3), of buffer k] buffer_of_balances [OF assms(4) b, of k] assms(5)
      unfolding r by auto
  qed
  then show "held table' k + hm_get burned' k = held table k + hm_get burned k + hm_get m k"
    and "dom table' \<subseteq> insert \<lparr>op_txid = txid, op_vout = vout\<rparr> (dom table)" and "hm_typed burned'" by auto
qed

lemma write_outputs_conserve:
  assumes "res_fold (write_output api tx txid) (enumerate n ms) (table, burned) = Inr (table', burned')"
    and "finite (dom table)" and "\<forall>v\<ge>n. table \<lparr>op_txid = txid, op_vout = v\<rparr> = None"
    and "list_all hm_typed ms" and "hm_typed burned"
  shows "held table' k + hm_get burned' k = held table k + hm_get burned k + all_allocated ms k \<and>
    finite (dom table') \<and> hm_typed burned'"
  using assms
proof (induction ms arbitrary: n table burned)
  case Nil
  then show ?case by simp
next
  case (Cons m ms)
  from Cons.prems(1) obtain table1 burned1 where
    s: "write_output api tx txid (n, m) (table, burned) = Inr (table1, burned1)" and
    r: "res_fold (write_output api tx txid) (enumerate (Suc n) ms) (table1, burned1) = Inr (table', burned')"
    by (auto simp: res_bind_eq_Inr)
  have S: "held table1 k + hm_get burned1 k = held table k + hm_get burned k + hm_get m k"
    "dom table1 \<subseteq> insert \<lparr>op_txid = txid, op_vout = n\<rparr> (dom table)" "hm_typed burned1" for k
    using write_output_conserves [OF s] Cons.prems by auto
  have fin: "finite (dom table1)" using S(2) Cons.prems(2) by (meson finite.insertI finite_subset)
  have fresh: "\<forall>v\<ge>Suc n. table1 \<lparr>op_txid = txid, op_vout = v\<rparr> = None"
    using S(2) Cons.prems(3) by (fastforce simp: domIff)
  show ?case using Cons.IH [OF r fin fresh] Cons.prems(4) S by simp
qed

section \<open>The invariant of the index\<close>

lemma fold_add_mintable:
  assumes "hm_ok m" and "\<forall>i\<in>fst ` set m. i \<le> u128_max"
  shows "hm_ok (fold (add_mintable u) is m) \<and> (\<forall>i\<in>fst ` set (fold (add_mintable u) is m). i \<le> u128_max)"
  using assms
proof (induction "is" arbitrary: m)
  case Nil
  then show ?case by simp
next
  case (Cons i "is")
  have "add_mintable u i m = m \<or> (\<exists>v d. dune_id_try_from i = Some d \<and> add_mintable u i m = hm_insert i v m)"
    by (auto simp: add_mintable_def split: option.splits sum.splits)
  then consider "add_mintable u i m = m" | v d where "dune_id_try_from i = Some d" "add_mintable u i m = hm_insert i v m"
    by blast
  then have "hm_ok (add_mintable u i m) \<and> (\<forall>j\<in>fst ` set (add_mintable u i m). j \<le> u128_max)"
  proof cases
    case 1
    then show ?thesis using Cons.prems by simp
  next
    case (2 v d)
    then have "i \<le> u128_max" using dune_id_try_from_less [OF 2(1)] by (simp add: u128_max_def)
    then show ?thesis using Cons.prems hm_ok_insert [OF Cons.prems(1), of i v] unfolding 2(2) map_fst_hm_insert by simp
  qed
  then show ?case using Cons.IH [of "add_mintable u i m"] by simp
qed

lemma mintables_ok: "hm_ok (mintables u es)" "\<forall>i\<in>fst ` set (mintables u es). i \<le> u128_max"
  unfolding mintables_def using fold_add_mintable [of "[]" u "claims es"] by auto

lemma new_allocation_result:
  assumes "new_allocation u index e = Inr (allocation, t)"
  shows "id_to_entry t = id_to_entry (du_tables u)" and "outpoint_to_balances t = outpoint_to_balances (du_tables u)"
    and "allocation = Some a \<Longrightarrow> al_balance a = u128_max \<and> index \<le> u16_max \<and> al_id a = push_bit 16 (du_height u) OR index"
proof -
  have "id_to_entry t = id_to_entry (du_tables u) \<and> outpoint_to_balances t = outpoint_to_balances (du_tables u) \<and>
    (\<forall>a. allocation = Some a \<longrightarrow> al_balance a = u128_max \<and> index \<le> u16_max \<and> al_id a = push_bit 16 (du_height u) OR index)"
  proof (cases "e_dune e")
    case None
    with assms show ?thesis
      by (auto simp: new_allocation_def Let_def res_bind_eq_Inr split: option.splits)
  next
    case (Some d)
    with assms show ?thesis
      by (auto simp: new_allocation_def Let_def split: option.splits if_splits)
  qed
  then show "id_to_entry t = id_to_entry (du_tables u)" and "outpoint_to_balances t = outpoint_to_balances (du_tables u)"
    and "allocation = Some a \<Longrightarrow> al_balance a = u128_max \<and> index \<le> u16_max \<and> al_id a = push_bit 16 (du_height u) OR index"
    by auto
qed

lemma new_id:
  assumes "h \<le> u32_max" and "index \<le> u16_max"
  shows "dune_id_try_from (push_bit 16 h OR index) = Some \<lparr>di_height = h, di_index = index\<rparr>"
    and "push_bit 16 h OR index \<le> u128_max"
proof -
  have i: "index < 2 ^ 16" using assms(2) by (simp add: u16_max_def)
  have eq: "push_bit 16 h OR index = index + h * 2 ^ 16" using or_push_bit_add [OF i, of h] by (simp add: or.commute)
  show "dune_id_try_from (push_bit 16 h OR index) = Some \<lparr>di_height = h, di_index = index\<rparr>"
    using i assms(1) unfolding eq dune_id_try_from_Some by (simp add: width_defs)
  show "push_bit 16 h OR index \<le> u128_max" using i assms(1) unfolding eq by (simp add: width_defs)
qed

text \<open>What the phases under \<open>if let Some(dunestone)\<close> do to one dune, whatever the dunestone.\<close>

lemma index_dunestone_conserves:
  assumes "index_dunestone api tx txid index d u un allocated = Inr (u', un', allocated')"
    and "du_height u \<le> u32_max"
    and "id_to_entry (du_tables u) \<lparr>di_height = du_height u, di_index = index\<rparr> = None"
    and "hm_typed un" and "list_all hm_typed allocated"
  shows "all_allocated allocated' k + hm_get un' k + issued (id_to_entry (du_tables u)) k =
      all_allocated allocated k + hm_get un k + issued (id_to_entry (du_tables u')) k"
    and "burnt (id_to_entry (du_tables u')) = burnt (id_to_entry (du_tables u))"
    and "outpoint_to_balances (du_tables u') = outpoint_to_balances (du_tables u)"
    and "hm_typed un'" and "list_all hm_typed allocated'"
proof -
  from assms(1) obtain allocation t where
    na: "(case ds_etching d of Some etching \<Rightarrow> new_allocation u index etching | None \<Rightarrow> Inr (None, du_tables u)) =
      Inr (allocation, t)"
    by (auto simp: index_dunestone_def res_bind_eq_Inr)
  have t: "id_to_entry t = id_to_entry (du_tables u)" "outpoint_to_balances t = outpoint_to_balances (du_tables u)"
    using na by (auto split: option.splits dest: new_allocation_result)
  have al: "al_balance a = u128_max \<and> index \<le> u16_max \<and> al_id a = push_bit 16 (du_height u) OR index"
    if "allocation = Some a" for a
    using na that by (auto split: option.splits dest: new_allocation_result(3))
  define u1 where "u1 = u\<lparr>du_tables := t\<rparr>"
  define limits where "limits = mintables u1 (ds_edicts d)"
  define s0 where "s0 = \<lparr>as_allocation = allocation, as_premine = 0, as_mintable = limits,
    as_unallocated = un, as_allocated = allocated\<rparr>"
  let ?E = "id_to_entry (du_tables u)"
  have inv0: "alloc_inv s0"
    using assms(4,5) mintables_ok al new_id(2) [OF assms(2)] by (auto simp: alloc_inv_def s0_def limits_def)
  have "\<exists>s u2. (if ds_cenotaph d then Inr (s0, u1)
        else res_bind (res_fold (apply_edict api tx) (ds_edicts d) s0) (\<lambda>s.
          res_bind (res_fold (mint_entry limits) (as_mintable s) (id_to_entry (du_tables u1))) (\<lambda>entries.
          Inr (s, u1\<lparr>du_tables := (du_tables u1)\<lparr>id_to_entry := entries\<rparr>\<rparr>)))) = Inr (s, u2) \<and>
      (case as_allocation s of None \<Rightarrow> Inr u2 | Some a \<Rightarrow> create_entry u2 txid (ds_cenotaph d) (as_premine s) a) = Inr u' \<and>
      un' = as_unallocated s \<and> allocated' = as_allocated s"
    using assms(1) unfolding index_dunestone_def na
    by (simp only: res_bind_simps case_prod_conv Let_def u1_def [symmetric] limits_def [symmetric] s0_def [symmetric])
      (auto simp: res_bind_eq_Inr)
  then obtain s u2 where
    body: "(if ds_cenotaph d then Inr (s0, u1)
        else res_bind (res_fold (apply_edict api tx) (ds_edicts d) s0) (\<lambda>s.
          res_bind (res_fold (mint_entry limits) (as_mintable s) (id_to_entry (du_tables u1))) (\<lambda>entries.
          Inr (s, u1\<lparr>du_tables := (du_tables u1)\<lparr>id_to_entry := entries\<rparr>\<rparr>)))) = Inr (s, u2)" and
    ce: "(case as_allocation s of None \<Rightarrow> Inr u2 | Some a \<Rightarrow> create_entry u2 txid (ds_cenotaph d) (as_premine s) a) = Inr u'" and
    r: "un' = as_unallocated s" "allocated' = as_allocated s" by blast
  let ?E2 = "id_to_entry (du_tables u2)"
  have mid: "keeps s0 s \<and> (\<forall>k. issued ?E2 k + hm_get (as_mintable s) k = issued ?E k + hm_get limits k) \<and>
      burnt ?E2 = burnt ?E \<and> (\<forall>k. entry_of ?E2 k = None \<longleftrightarrow> entry_of ?E k = None) \<and>
      outpoint_to_balances (du_tables u2) = outpoint_to_balances (du_tables u)"
  proof (cases "ds_cenotaph d")
    case True
    with body show ?thesis by (auto simp: u1_def t s0_def)
  next
    case False
    with body obtain entries where
      ap: "res_fold (apply_edict api tx) (ds_edicts d) s0 = Inr s" and
      mt: "res_fold (mint_entry limits) (as_mintable s) ?E = Inr entries" and
      u2: "u2 = u1\<lparr>du_tables := t\<lparr>id_to_entry := entries\<rparr>\<rparr>"
      by (auto simp: res_bind_eq_Inr u1_def t)
    have keep: "keeps s0 s" using ap by (rule apply_edicts_keep)
    have "as_mintable s0 = limits" by (simp add: s0_def)
    then have "hm_ok (as_mintable s)" "fst ` set (as_mintable s) = fst ` set limits"
      using keepsD(2) [OF keep inv0] keepsD(3) [OF keep] by (simp_all only: alloc_inv_def)
    from minted_issued [OF mt this] keep show ?thesis by (simp add: u2 t)
  qed
  have keep: "keeps s0 s" using mid by blast
  have inv: "alloc_inv s" by (rule keepsD(2) [OF keep inv0])
  have ids: "map_option al_id (as_allocation s) = map_option al_id allocation"
    using keepsD(4) [OF keep] by (simp add: s0_def)
  have tot: "total s k = total s0 k" for k using keepsD(1) [OF keep] by simp
  show "hm_typed un'" "list_all hm_typed allocated'" using inv by (auto simp: alloc_inv_def r)
  show "all_allocated allocated' k + hm_get un' k + issued ?E k =
      all_allocated allocated k + hm_get un k + issued (id_to_entry (du_tables u')) k"
    "burnt (id_to_entry (du_tables u')) = burnt ?E"
    "outpoint_to_balances (du_tables u') = outpoint_to_balances (du_tables u)"
  proof (atomize (full), cases "as_allocation s")
    case None
    then have u': "u' = u2" and "allocation = None" using ce ids by auto
    then have "all_allocated allocated' k + hm_get un' k + hm_get (as_mintable s) k =
        all_allocated allocated k + hm_get un k + hm_get limits k"
      using tot [of k] None by (simp add: total_def s0_def r)
    moreover have "issued ?E2 k + hm_get (as_mintable s) k = issued ?E k + hm_get limits k" using mid by blast
    ultimately have "all_allocated allocated' k + hm_get un' k + issued ?E k =
        all_allocated allocated k + hm_get un k + issued ?E2 k" by linarith
    then show "all_allocated allocated' k + hm_get un' k + issued ?E k =
      all_allocated allocated k + hm_get un k + issued (id_to_entry (du_tables u')) k \<and>
      burnt (id_to_entry (du_tables u')) = burnt ?E \<and>
      outpoint_to_balances (du_tables u') = outpoint_to_balances (du_tables u)"
      using mid by (simp add: u')
  next
    case (Some a)
    then obtain a0 where a0: "allocation = Some a0" "al_id a0 = al_id a" using ids by (cases allocation) auto
    from Some ce have c: "create_entry u2 txid (ds_cenotaph d) (as_premine s) a = Inr u'" by simp
    have "entry_of ?E (al_id a) = None"
      using al [OF a0(1)] a0(2) assms(2,3) new_id(1) [of "du_height u" index] by (simp add: entry_of_def)
    then have "entry_of ?E2 (al_id a) = None" using mid by blast
    note C = create_entry_issues [OF c this]
    have "all_allocated allocated' k + hm_get un' k + hm_get (as_mintable s) k + (if k = al_id a then al_balance a else 0) =
        all_allocated allocated k + hm_get un k + hm_get limits k + (if k = al_id a then u128_max else 0)"
      using tot [of k] Some a0 al [OF a0(1)] by (simp add: total_def s0_def r eq_commute [of _ k])
    moreover have "issued ?E2 k + hm_get (as_mintable s) k = issued ?E k + hm_get limits k" using mid by blast
    moreover note C(1) [of k] C(4)
    ultimately have "all_allocated allocated' k + hm_get un' k + issued ?E k =
        all_allocated allocated k + hm_get un k + issued (id_to_entry (du_tables u')) k"
      by (simp split: if_splits)
    then show "all_allocated allocated' k + hm_get un' k + issued ?E k =
      all_allocated allocated k + hm_get un k + issued (id_to_entry (du_tables u')) k \<and>
      burnt (id_to_entry (du_tables u')) = burnt ?E \<and>
      outpoint_to_balances (du_tables u') = outpoint_to_balances (du_tables u)"
      using C(2,3) mid by simp
  qed
qed

text \<open>
  C2: conservation of dunes. Whenever a transaction is indexed without a panic, the invariant of
  the index is kept: for every dune, what all unspent outputs hold plus what has been burned is
  exactly the premine plus the minted supply of its entry, and nothing is held of a dune without
  an entry. The transaction's outputs must be new to the table and no dune may already have
  its position.
\<close>

theorem index_dunes_conserves:
  assumes "conserved (du_tables u)" and "index_dunes api index tx txid u = Inr u'"
    and "du_height u \<le> u32_max"
    and "\<forall>v. outpoint_to_balances (du_tables u) \<lparr>op_txid = txid, op_vout = v\<rparr> = None"
    and "id_to_entry (du_tables u) \<lparr>di_height = du_height u, di_index = index\<rparr> = None"
  shows "conserved (du_tables u')"
proof -
  let ?T = "outpoint_to_balances (du_tables u)" and ?E = "id_to_entry (du_tables u)"
  let ?al = "replicate (length (tx_output tx)) []"
  from assms(2) obtain T1 un u2 un2 al2 al3 b3 T4 b4 E5 where
    inp: "res_fold take_input (tx_input tx) (?T, []) = Inr (T1, un)" and
    st: "(case from_transaction api tx of
            None \<Rightarrow> Inr (u\<lparr>du_tables := (du_tables u)\<lparr>outpoint_to_balances := T1\<rparr>\<rparr>, un, ?al)
          | Some d \<Rightarrow> index_dunestone api tx txid index d
              (u\<lparr>du_tables := (du_tables u)\<lparr>outpoint_to_balances := T1\<rparr>\<rparr>) un ?al) = Inr (u2, un2, al2)" and
    lo: "assign_leftover api tx (case from_transaction api tx of None \<Rightarrow> False | Some d \<Rightarrow> ds_cenotaph d)
        (Option.bind (from_transaction api tx) ds_pointer) un2 al2 = Inr (al3, b3)" and
    wr: "res_fold (write_output api tx txid) (enumerate 0 al3) (outpoint_to_balances (du_tables u2), b3) = Inr (T4, b4)" and
    bu: "res_fold burn_entry b4 (id_to_entry (du_tables u2)) = Inr E5" and
    u': "u' = u2\<lparr>du_tables := (du_tables u2)\<lparr>outpoint_to_balances := T4, id_to_entry := E5\<rparr>\<rparr>"
    unfolding index_dunes_def Let_def by (auto elim!: res_bind_InrE)
  have fin: "finite (dom ?T)" and bal: "held ?T k + burnt ?E k = issued ?E k" for k
    using assms(1) by (auto simp: conserved_def)
  note I = take_inputs_conserve [OF inp fin hm_typed_Nil]
  have al: "list_all hm_typed ?al" by (simp add: list_all_iff)
  have zero: "all_allocated ?al k = 0" for k by (induction "length (tx_output tx)") simp_all
  have ST: "all_allocated al2 k + hm_get un2 k + issued ?E k = hm_get un k + issued (id_to_entry (du_tables u2)) k \<and>
      burnt (id_to_entry (du_tables u2)) = burnt ?E \<and> outpoint_to_balances (du_tables u2) = T1 \<and>
      hm_typed un2 \<and> list_all hm_typed al2" for k
  proof (cases "from_transaction api tx")
    case None
    with st I al zero show ?thesis by auto
  next
    case (Some d)
    with st have "index_dunestone api tx txid index d
        (u\<lparr>du_tables := (du_tables u)\<lparr>outpoint_to_balances := T1\<rparr>\<rparr>) un ?al = Inr (u2, un2, al2)" by simp
    note D = index_dunestone_conserves [OF this]
    show ?thesis using D(1) [of k] D(2-5) assms(3,5) I al zero by simp
  qed
  then have S: "all_allocated al2 k + hm_get un2 k + issued ?E k = hm_get un k + issued (id_to_entry (du_tables u2)) k"
    "burnt (id_to_entry (du_tables u2)) = burnt ?E" "outpoint_to_balances (du_tables u2) = T1"
    "hm_typed un2" "list_all hm_typed al2" for k by blast+
  note L = assign_leftover_conserves [OF lo S(4,5)]
  have fresh: "\<forall>v\<ge>0. T1 \<lparr>op_txid = txid, op_vout = v\<rparr> = None" and fin1: "finite (dom T1)"
    using I assms(4) fin by (auto simp: domIff dest: finite_subset) (metis domIff in_mono)
  note W = write_outputs_conserve [OF wr [unfolded S(3)] fin1 fresh L(2,3)]
  note B = burn_entries_burn [OF bu]
  have ok: "hm_ok b4" using W by (simp add: hm_typed_def)
  have "held T4 k + burnt E5 k = issued E5 k" for k
    using I [of k] S(1) [of k] S(2) L(1) [of k] W [of k] B [OF ok, of k] bal [of k] by simp
  then show ?thesis using W by (simp add: conserved_def u')
qed

lemma write_nothing:
  "res_fold (write_output api tx txid) (enumerate n (replicate j [])) (table, burned) = Inr (table, burned)"
  by (induction j arbitrary: n) (simp_all add: write_output_def)

lemma index_cenotaph:
  assumes "index_dunestone api tx txid index d u un allocated = Inr (u', un', allocated')" and "ds_cenotaph d"
  shows "un' = un" and "allocated' = allocated"
  using assms by (auto simp: index_dunestone_def Let_def elim!: res_bind_InrE)

lemma take_inputs_table:
  assumes "res_fold take_input inputs (table, un) = Inr (table', un')"
  shows "table' = (\<lambda>op. if op \<in> set inputs then None else table op)"
  using assms
proof (induction inputs arbitrary: table un)
  case Nil
  then show ?case by simp
next
  case (Cons input inputs)
  from Cons.prems obtain table1 un1 where
    s: "take_input input (table, un) = Inr (table1, un1)" and
    r: "res_fold take_input inputs (table1, un1) = Inr (table', un')"
    by (auto simp: res_bind_eq_Inr)
  have "table1 = table(input := None)"
    using s by (auto simp: take_input_def res_bind_eq_Inr split: option.splits)
  then show ?case using Cons.IH [OF r] by auto
qed

text \<open>
  C26: a cenotaph burns everything. When the transaction's dunestone is a cenotaph and indexing does
  not panic, the spent outputs leave the table and nothing else in it changes, so no new output
  holds any dune, and the burned amount of every dune grows by exactly what the inputs held.
\<close>

theorem cenotaph_burns_inputs:
  assumes "conserved (du_tables u)" and "index_dunes api index tx txid u = Inr u'"
    and "du_height u \<le> u32_max"
    and "id_to_entry (du_tables u) \<lparr>di_height = du_height u, di_index = index\<rparr> = None"
    and "from_transaction api tx = Some d" and "ds_cenotaph d"
  shows "outpoint_to_balances (du_tables u') =
      (\<lambda>op. if op \<in> set (tx_input tx) then None else outpoint_to_balances (du_tables u) op) \<and>
    burnt (id_to_entry (du_tables u')) k + held (outpoint_to_balances (du_tables u')) k =
      burnt (id_to_entry (du_tables u)) k + held (outpoint_to_balances (du_tables u)) k"
proof -
  let ?T = "outpoint_to_balances (du_tables u)" and ?al = "replicate (length (tx_output tx)) []"
  from assms(2,5,6) obtain T1 un u2 un2 al2 b3 T4 b4 E5 where
    inp: "res_fold take_input (tx_input tx) (?T, []) = Inr (T1, un)" and
    st: "index_dunestone api tx txid index d
        (u\<lparr>du_tables := (du_tables u)\<lparr>outpoint_to_balances := T1\<rparr>\<rparr>) un ?al = Inr (u2, un2, al2)" and
    lo: "res_fold (\<lambda>(i, b). hm_add u128_max i b) un2 [] = Inr b3" and
    wr: "res_fold (write_output api tx txid) (enumerate 0 al2) (outpoint_to_balances (du_tables u2), b3) = Inr (T4, b4)" and
    bu: "res_fold burn_entry b4 (id_to_entry (du_tables u2)) = Inr E5" and
    u': "u' = u2\<lparr>du_tables := (du_tables u2)\<lparr>outpoint_to_balances := T4, id_to_entry := E5\<rparr>\<rparr>"
    unfolding index_dunes_def Let_def assign_leftover_def by (auto elim!: res_bind_InrE)
  have fin: "finite (dom ?T)" using assms(1) by (simp add: conserved_def)
  note I = take_inputs_conserve [OF inp fin hm_typed_Nil]
  have al: "list_all hm_typed ?al" by (simp add: list_all_iff)
  note D = index_dunestone_conserves [OF st] and C = index_cenotaph [OF st assms(6)]
  have out: "outpoint_to_balances (du_tables u2) = T1" and
    bt: "burnt (id_to_entry (du_tables u2)) = burnt (id_to_entry (du_tables u))"
    using D(2,3) assms(3,4) I al by auto
  have w: "T4 = T1" "b4 = b3" using wr unfolding C(2) out write_nothing by auto
  have un: "hm_ok un" using I by (simp add: hm_typed_def)
  then have b3: "hm_get b3 k = hm_get un k" using hm_absorb [OF lo [unfolded C(1)], of k] by simp
  have "hm_ok b3" using lo by (rule res_fold_hm_add_ok) simp
  then have "burnt E5 k = burnt (id_to_entry (du_tables u)) k + hm_get un k"
    using burn_entries_burn [OF bu [unfolded w], of k] b3 bt by simp
  then show ?thesis using I [of k] take_inputs_table [OF inp] by (simp add: u' w)
qed

text \<open>
  By the invariant, premine plus supply already counts the burned dunes, so \<open>DuneEntry::supply\<close>,
  which adds the burned amount once more, reports them twice.
\<close>

lemma entry_supply_counts_burned_twice:
  assumes "conserved t" and "entry_of (id_to_entry t) k = Some e" and "entry_supply e = Inr n"
  shows "n = held (outpoint_to_balances t) k + 2 * de_burned e"
  using assms by (auto simp: conserved_def entry_supply_def res_simps issued_def burnt_def dest!: spec [of _ k])

section \<open>A worked transaction\<close>

text \<open>An etching without a name and with a premine of 100, in the second transaction of block 7.\<close>

definition sample_tables :: dune_tables where
  "sample_tables = \<lparr>id_to_entry = Map.empty, inscription_id_to_inscription_entry = Map.empty,
    inscription_id_to_dune = Map.empty, outpoint_to_balances = Map.empty, dune_to_id = Map.empty,
    statistic_to_count = Map.empty\<rparr>"

definition sample_tx :: "instruction list transaction" where
  "sample_tx = \<lparr>tx_input = [],
    tx_output = [\<lparr>txo_amount = 0, txo_script = [Op OP_RETURN, PushBytes [0x44], PushBytes [2, 1, 22, 100]]\<rparr>,
                 \<lparr>txo_amount = 5, txo_script = [Op 81]\<rparr>]\<rparr>"

definition sample_updater :: dune_updater where
  "sample_updater = dune_updater_new 7 sample_tables 0 0"

lemma sample_message: "from_transaction list_api sample_tx = Some
    \<lparr>ds_edicts = [\<lparr>ed_id = 0, ed_amount = 100, ed_output = 1\<rparr>],
     ds_etching = Some \<lparr>e_divisibility = None, e_terms = None, e_premine = Some 100, e_dune = None,
       e_spacers = None, e_symbol = None, e_turbo = False\<rparr>,
     ds_pointer = None, ds_cenotaph = False\<rparr>"
proof -
  have "dunestone_payload list_api sample_tx = Inr (Some [2, 1, 22, 100])"
    by (simp add: dunestone_payload_def sample_tx_def list_api_def)
  moreover have "integers [2, 1, 22, 100] = [2, 1, 22, 100]"
    by (simp add: integers_def decode_seq.simps decode_def decode_loop.simps checked_defs u128_max_def)
  moreover have msg: "message_from_integers sample_tx [2, 1, 22, 100] =
      \<lparr>m_cenotaph = False, m_fields = [(2, 1), (22, 100)], m_edicts = []\<rparr>"
    by (simp add: message_from_integers_def or_insert_def hm_insert_def)
  note D = decipher_fields [OF msg refl refl refl refl refl]
  ultimately show ?thesis
    by (simp add: from_transaction_def decipher_def D filter_opt_def known_tags_def
        unwrap_or_default_def flags_taken [unfolded One_nat_def] supply_overflow_def checked_defs u128_max_def)
qed

lemma sample_indexed: "\<exists>u'. index_dunes list_api 1 sample_tx zero_txid sample_updater = Inr u'"
proof -
  let ?etching = "\<lparr>e_divisibility = None, e_terms = None, e_premine = Some 100, e_dune = None,
       e_spacers = None, e_symbol = None, e_turbo = False\<rparr>"
  obtain a t where
    al: "new_allocation sample_updater 1 ?etching = Inr (Some a, t)" and
    a: "al_balance a = u128_max" "al_id a = 458753" and t: "outpoint_to_balances t = Map.empty"
    by (simp add: new_allocation_def sample_updater_def dune_updater_new_def sample_tables_def unwrap_or_default_def
        add_or_panic_def reserved_def checked_add_def RESERVED_def width_defs unwrap_def try_from_def Let_def)
  define s where "s = \<lparr>as_allocation = Some (a\<lparr>al_balance := u128_max - 100\<rparr>), as_premine = 100, as_mintable = [],
    as_unallocated = [], as_allocated = [[], [(458753, 100)]]\<rparr>"
  have ed: "apply_edict list_api sample_tx \<lparr>ed_id = 0, ed_amount = 100, ed_output = 1\<rparr>
      \<lparr>as_allocation = Some a, as_premine = 0, as_mintable = [], as_unallocated = [], as_allocated = [[], []]\<rparr> = Inr s"
    by (simp add: apply_edict_def edict_source_def try_from_def width_defs sample_tx_def a add_or_panic_def
        allocate_def sub_or_panic_def index_or_panic_def hm_add_def hm_insert_def s_def Let_def min_def)
  have cl: "mintables u [\<lparr>ed_id = 0, ed_amount = 100, ed_output = 1\<rparr>] = []" for u
    by (simp add: mintables_def claims_def map_filter_simps claim_def)
  obtain u2 where
    ce: "create_entry (sample_updater\<lparr>du_tables := t\<rparr>) zero_txid False 100 (a\<lparr>al_balance := u128_max - 100\<rparr>) = Inr u2"
      and u2: "outpoint_to_balances (du_tables u2) = Map.empty"
    by (simp add: create_entry_def a t dune_id_try_from_def drop_bit_eq_div try_from_def width_defs unwrap_def
        sample_updater_def dune_updater_new_def sample_tables_def unwrap_or_default_def checked_defs Let_def)
  have upd: "sample_updater\<lparr>du_tables := (du_tables sample_updater)\<lparr>outpoint_to_balances := Map.empty\<rparr>\<rparr> = sample_updater"
    by (simp add: sample_updater_def dune_updater_new_def sample_tables_def)
  have "index_dunestone list_api sample_tx zero_txid 1
      \<lparr>ds_edicts = [\<lparr>ed_id = 0, ed_amount = 100, ed_output = 1\<rparr>], ds_etching = Some ?etching,
       ds_pointer = None, ds_cenotaph = False\<rparr>
      (sample_updater\<lparr>du_tables := (du_tables sample_updater)\<lparr>outpoint_to_balances := Map.empty\<rparr>\<rparr>) [] [[], []] =
      Inr (u2, [], [[], [(458753, 100)]])"
    unfolding upd using al ed ce by (simp add: index_dunestone_def cl [unfolded One_nat_def] s_def Let_def)
  moreover have "outpoint_to_balances (du_tables sample_updater) = Map.empty"
    by (simp add: sample_updater_def dune_updater_new_def sample_tables_def)
  moreover have "tx_input sample_tx = []" "length (tx_output sample_tx) = 2" by (simp_all add: sample_tx_def)
  moreover have "assign_leftover list_api sample_tx False None [] [[], [(458753, 100)]] = Inr ([[], [(458753, 100)]], [])"
    by (simp add: assign_leftover_def leftover_output_def filter_opt_def destinations_def sample_tx_def list_api_def
        index_or_panic_def)
  moreover have "\<exists>buffer. encode_balance (458753, 100) [] = Inr buffer"
    by (simp add: encode_balance_def encode_to_vec_eq u128_max_def)
  then have "\<exists>table. res_fold (write_output list_api sample_tx zero_txid) (enumerate 0 [[], [(458753, 100)]]) (Map.empty, []) =
      Inr (table, [])"
    by (auto simp: write_output_def sample_tx_def list_api_def index_or_panic_def try_from_def unwrap_def u32_max_def
        OP_RETURN_def)
  ultimately show ?thesis
    using u2 by (auto simp: index_dunes_def sample_message numeral_2_eq_2)
qed

lemma sample_conserved: "conserved (du_tables sample_updater)"
  by (simp add: conserved_def held_def burnt_def issued_def entry_of_def sample_updater_def dune_updater_new_def
      sample_tables_def split: option.splits)

theorem index_dunes_conserves_witness:
  "\<exists>u'. index_dunes list_api 1 sample_tx zero_txid sample_updater = Inr u' \<and> conserved (du_tables u')"
proof -
  obtain u' where u': "index_dunes list_api 1 sample_tx zero_txid sample_updater = Inr u'"
    using sample_indexed by blast
  note ex = index_dunes_conserves [OF sample_conserved u']
  have "conserved (du_tables u')"
    using ex by (simp add: sample_updater_def dune_updater_new_def sample_tables_def u32_max_def)
  with u' show ?thesis by blast
qed

text \<open>A transaction whose dunestone has an unknown even tag.\<close>

definition cenotaph_tx :: "instruction list transaction" where
  "cenotaph_tx = \<lparr>tx_input = [],
    tx_output = [\<lparr>txo_amount = 0, txo_script = [Op OP_RETURN, PushBytes [0x44], PushBytes [126, 0]]\<rparr>]\<rparr>"

lemma cenotaph_message: "from_transaction list_api cenotaph_tx = Some
    \<lparr>ds_edicts = [], ds_etching = None, ds_pointer = None, ds_cenotaph = True\<rparr>"
proof -
  have "dunestone_payload list_api cenotaph_tx = Inr (Some [126, 0])"
    by (simp add: dunestone_payload_def cenotaph_tx_def list_api_def)
  moreover have "integers [126, 0] = [126, 0]"
    by (simp add: integers_def decode_seq.simps decode_def decode_loop.simps checked_defs u128_max_def)
  moreover have msg: "message_from_integers cenotaph_tx [126, 0] =
      \<lparr>m_cenotaph = False, m_fields = [(126, 0)], m_edicts = []\<rparr>"
    by (simp add: message_from_integers_def or_insert_def hm_insert_def)
  note D = decipher_fields [OF msg refl refl refl refl refl]
  ultimately show ?thesis
    by (simp add: from_transaction_def decipher_def D filter_opt_def known_tags_def
        unwrap_or_default_def flags_taken [unfolded One_nat_def] supply_overflow_def checked_defs u128_max_def)
qed

theorem cenotaph_burns_inputs_witness:
  "\<exists>u'. index_dunes list_api 1 cenotaph_tx zero_txid sample_updater = Inr u' \<and>
    outpoint_to_balances (du_tables u') = Map.empty"
proof -
  have "\<exists>u'. index_dunes list_api 1 cenotaph_tx zero_txid sample_updater = Inr u'"
    by (simp add: index_dunes_def cenotaph_message index_dunestone_def assign_leftover_def Let_def)
      (simp add: cenotaph_tx_def write_output_def)
  then obtain u' where u': "index_dunes list_api 1 cenotaph_tx zero_txid sample_updater = Inr u'" by blast
  note ex = cenotaph_burns_inputs [OF sample_conserved u' _ _ cenotaph_message, of 0]
  show ?thesis
    using ex u' by (simp add: sample_updater_def dune_updater_new_def sample_tables_def u32_max_def cenotaph_tx_def)
qed

end
