(* ===== verification/Text.thy ===== *)
theory Text
  imports Prelude
begin

text \<open>
  Numbers as text: what the sources use of Rust's \<open>Display\<close> and \<open>FromStr\<close> for unsigned integers,
  of zero padding, and of splitting a string at a separator. Strings are lists of code points.
\<close>

section \<open>Model\<close>

definition str :: "string \<Rightarrow> rchar list" where
  "str s = map of_char s"

fun show_nat :: "nat \<Rightarrow> rchar list" where
  "show_nat n = (if n < 10 then [48 + n] else show_nat (n div 10) @ [48 + n mod 10])"

declare show_nat.simps [simp del]

text \<open>The digits of \<open>parse::<u\<dots>>\<close>, after an optional plus sign.\<close>

fun parse_digits :: "nat \<Rightarrow> nat \<Rightarrow> rchar list \<Rightarrow> nat option" where
  "parse_digits mx acc [] = Some acc"
| "parse_digits mx acc (c # cs) =
    (if 48 \<le> c \<and> c \<le> 57 then
       Option.bind (checked_mul mx acc 10) (\<lambda>a.
       Option.bind (checked_add mx a (c - 48)) (\<lambda>a. parse_digits mx a cs))
     else None)"

definition parse_uint :: "nat \<Rightarrow> rchar list \<Rightarrow> nat option" where
  "parse_uint mx s =
    (let digits = (case s of c # rest \<Rightarrow> if c = 43 then rest else s | [] \<Rightarrow> [])
     in if digits = [] then None else parse_digits mx 0 digits)"

text \<open>\<open>{n:0>width$}\<close>.\<close>

definition pad_zeros :: "nat \<Rightarrow> rchar list \<Rightarrow> rchar list" where
  "pad_zeros w s = replicate (w - length s) 48 @ s"

text \<open>\<open>split_once(c)\<close> and \<open>rsplit_once(c)\<close>.\<close>

fun split_once :: "rchar \<Rightarrow> rchar list \<Rightarrow> (rchar list \<times> rchar list) option" where
  "split_once c [] = None"
| "split_once c (x # xs) =
    (if x = c then Some ([], xs) else map_option (\<lambda>(a, b). (x # a, b)) (split_once c xs))"

definition rsplit_once :: "rchar \<Rightarrow> rchar list \<Rightarrow> (rchar list \<times> rchar list) option" where
  "rsplit_once c s = map_option (\<lambda>(a, b). (rev b, rev a)) (split_once c (rev s))"

definition trim_end_matches :: "rchar \<Rightarrow> rchar list \<Rightarrow> rchar list" where
  "trim_end_matches c s = rev (dropWhile (\<lambda>x. x = c) (rev s))"

section \<open>Digits\<close>

lemma show_nat_digits: "c \<in> set (show_nat n) \<Longrightarrow> 48 \<le> c \<and> c \<le> 57"
proof (induction n rule: show_nat.induct)
  case (1 n)
  have "n mod 10 < 10" by simp
  then have "48 + n mod 10 \<le> 57" by linarith
  with 1 show ?case by (auto simp: show_nat.simps [of n] split: if_splits)
qed

lemma show_nat_nonempty [simp]: "show_nat n \<noteq> []"
  by (simp add: show_nat.simps)

lemma parse_digits_append:
  "parse_digits mx acc (xs @ ys) = Option.bind (parse_digits mx acc xs) (\<lambda>a. parse_digits mx a ys)"
proof (induction xs arbitrary: acc)
  case Nil
  show ?case by simp
next
  case (Cons x xs)
  then show ?case by (simp add: checked_defs)
qed

lemma parse_digits_show: "n \<le> mx \<Longrightarrow> parse_digits mx 0 (show_nat n) = Some n"
proof (induction n rule: show_nat.induct)
  case (1 n)
  show ?case
  proof (cases "n < 10")
    case True
    with 1 show ?thesis by (simp add: show_nat.simps [of n] checked_defs)
  next
    case False
    have "n mod 10 < 10" by simp
    then have d: "48 + n mod 10 \<le> 57" by linarith
    have "parse_digits mx 0 (show_nat (n div 10)) = Some (n div 10)"
      using 1 False by simp
    moreover have "n div 10 * 10 \<le> mx" "n div 10 * 10 + n mod 10 = n" using 1 by (linarith, simp)
    ultimately show ?thesis
      using False d 1(2) by (simp add: show_nat.simps [of n] parse_digits_append checked_defs)
  qed
qed

lemma parse_digits_zeros: "parse_digits mx 0 (replicate k 48 @ s) = parse_digits mx 0 s"
  by (induction k) (simp_all add: checked_defs)

lemma parse_uint_digits:
  assumes "s \<noteq> []" and "\<forall>c\<in>set s. 48 \<le> c \<and> c \<le> 57"
  shows "parse_uint mx s = parse_digits mx 0 s"
  using assms by (cases s) (auto simp: parse_uint_def)

lemma parse_uint_show [simp]: "n \<le> mx \<Longrightarrow> parse_uint mx (show_nat n) = Some n"
  using parse_uint_digits [of "show_nat n" mx] show_nat_digits [of _ n] parse_digits_show [of n mx] by auto

lemma pad_zeros_digits: "c \<in> set (pad_zeros w (show_nat n)) \<Longrightarrow> 48 \<le> c \<and> c \<le> 57"
  by (auto simp: pad_zeros_def dest: show_nat_digits)

lemma parse_uint_pad:
  assumes "n \<le> mx"
  shows "parse_uint mx (pad_zeros w (show_nat n)) = Some n"
proof -
  have "parse_uint mx (pad_zeros w (show_nat n)) = parse_digits mx 0 (pad_zeros w (show_nat n))"
    by (rule parse_uint_digits) (auto simp: pad_zeros_def dest: show_nat_digits)
  then show ?thesis using assms by (simp add: pad_zeros_def parse_digits_zeros parse_digits_show)
qed

lemma length_show_nat: "n < 10 ^ k \<Longrightarrow> 0 < k \<Longrightarrow> length (show_nat n) \<le> k"
proof (induction k arbitrary: n)
  case 0
  then show ?case by simp
next
  case (Suc k)
  show ?case
  proof (cases "n < 10")
    case True
    then show ?thesis by (simp add: show_nat.simps [of n])
  next
    case False
    with Suc.prems(1) have "n div 10 < 10 ^ k" "0 < k" by (auto intro: gr0I)
    with Suc.IH [of "n div 10"] False show ?thesis by (simp add: show_nat.simps [of n])
  qed
qed

lemma last_show_nat: "last (show_nat n) = 48 + n mod 10"
  by (simp add: show_nat.simps [of n])

lemma split_once_first: "c \<notin> set a \<Longrightarrow> split_once c (a @ c # b) = Some (a, b)"
  by (induction a) auto

lemma split_once_none: "split_once c s = None \<longleftrightarrow> c \<notin> set s"
  by (induction s) (auto split: prod.splits)

lemma rsplit_once_last:
  assumes "c \<notin> set b"
  shows "rsplit_once c (a @ c # b) = Some (a, b)"
proof -
  have "split_once c (rev b @ c # rev a) = Some (rev b, rev a)" using assms by (intro split_once_first) simp
  then show ?thesis by (simp add: rsplit_once_def)
qed

lemma show_nat_no_sep: "c < 48 \<or> 57 < c \<Longrightarrow> c \<notin> set (show_nat n)"
  using show_nat_digits [of c n] by auto

lemma trim_end_keeps: "s \<noteq> [] \<Longrightarrow> last s \<noteq> c \<Longrightarrow> trim_end_matches c s = s"
  by (cases s rule: rev_cases) (simp_all add: trim_end_matches_def)

end
