(* ===== verification/Decimal.thy ===== *)
theory Decimal
  imports Text Entry
begin

text \<open>
  Decimal amounts and their text (\<open>src/decimal.rs\<close>), the printed balance of a dune
  (\<open>src/dunes/pile.rs\<close>) and the text of dune ids (\<open>src/dunes/dune_id.rs\<close>). A decimal is an integer
  and a scale; the theory shows that printing and parsing keep its value, that conversion to
  an amount is exact or an error, and where parsing changes a number.
\<close>

section \<open>Model\<close>

record decimal =
  dec_value :: u128
  dec_scale :: u8

datatype decimal_error =
  DivisibilityOutOfRange | AmountOutOfRange | ExcessivePrecision | EmptyDecimal | ParseInt | ScaleOutOfRange
  | FmtError | DecimalPanic rust_panic

definition checked_pow :: "nat \<Rightarrow> nat \<Rightarrow> nat \<Rightarrow> nat option" where
  [checked_defs]: "checked_pow mx b e = (if b ^ e \<le> mx then Some (b ^ e) else None)"

definition pow_or_panic :: "nat \<Rightarrow> nat \<Rightarrow> nat \<Rightarrow> nat may_panic" where
  [checked_defs]: "pow_or_panic mx b e = (if b ^ e \<le> mx then Inr (b ^ e) else Inl Overflow)"

definition to_amount :: "decimal \<Rightarrow> u8 \<Rightarrow> decimal_error + u128" where
  "to_amount d divisibility =
    (case checked_sub divisibility (dec_scale d) of
       Some difference \<Rightarrow>
         res_bind (ok_or DivisibilityOutOfRange (checked_pow u128_max 10 difference)) (\<lambda>p.
         ok_or AmountOutOfRange (checked_mul u128_max (dec_value d) p))
     | None \<Rightarrow> Inl ExcessivePrecision)"

text \<open>The loop that drops trailing zeros of a positive fraction.\<close>

fun strip_zeros :: "nat \<Rightarrow> nat \<Rightarrow> rust_panic + (nat \<times> nat)" where
  "strip_zeros fraction width =
    (if fraction = 0 \<or> fraction mod 10 \<noteq> 0 then Inr (fraction, width)
     else res_bind (sub_or_panic width 1) (\<lambda>width. strip_zeros (fraction div 10) width))"

declare strip_zeros.simps [simp del]

definition decimal_to_string :: "decimal \<Rightarrow> decimal_error + rchar list" where
  "decimal_to_string d =
    res_bind (ok_or FmtError (checked_pow u128_max 10 (dec_scale d))) (\<lambda>magnitude.
    let integer = dec_value d div magnitude;
        fraction = dec_value d mod magnitude
    in if fraction > 0 then
         res_bind (lift_panic DecimalPanic (strip_zeros fraction (dec_scale d))) (\<lambda>(fraction, width).
         Inr (show_nat integer @ [46] @ pad_zeros width (show_nat fraction)))
       else Inr (show_nat integer))"

definition decimal_from_str :: "rchar list \<Rightarrow> decimal_error + decimal" where
  "decimal_from_str s =
    (case split_once 46 s of
       Some (integer, decimal) \<Rightarrow>
         if integer = [] \<and> decimal = [] then Inl EmptyDecimal
         else
           res_bind (if integer = [] then Inr 0 else ok_or ParseInt (parse_uint u128_max integer)) (\<lambda>integer.
           res_bind (if decimal = [] then Inr 0 else ok_or ParseInt (parse_uint u128_max decimal)) (\<lambda>decimal.
           res_bind (ok_or ScaleOutOfRange (try_from u8_max
             (length (drop 1 (dropWhile (\<lambda>c. c \<noteq> 46) (trim_end_matches 48 s)))))) (\<lambda>scale.
           res_bind (lift_panic DecimalPanic (pow_or_panic u128_max 10 scale)) (\<lambda>p.
           res_bind (lift_panic DecimalPanic (mul_or_panic u128_max integer p)) (\<lambda>m.
           res_bind (lift_panic DecimalPanic (add_or_panic u128_max m decimal)) (\<lambda>n.
           Inr \<lparr>dec_value = n, dec_scale = scale\<rparr>))))))
     | None \<Rightarrow> res_bind (ok_or ParseInt (parse_uint u128_max s)) (\<lambda>n. Inr \<lparr>dec_value = n, dec_scale = 0\<rparr>))"

record pile =
  pile_amount :: u128
  pile_divisibility :: u8
  pile_symbol :: "rchar option"

definition entry_pile :: "dune_entry \<Rightarrow> u128 \<Rightarrow> pile" where
  "entry_pile e amount = \<lparr>pile_amount = amount, pile_divisibility = de_divisibility e, pile_symbol = de_symbol e\<rparr>"

definition pile_to_string :: "pile \<Rightarrow> rchar list may_panic" where
  "pile_to_string p =
    res_bind (pow_or_panic u128_max 10 (pile_divisibility p)) (\<lambda>cutoff.
    let whole = pile_amount p div cutoff;
        fractional = pile_amount p mod cutoff;
        suffix = [0xA0, (case pile_symbol p of Some c \<Rightarrow> c | None \<Rightarrow> 0xA4)]
    in if fractional = 0 then Inr (show_nat whole @ suffix)
       else
         res_bind (strip_zeros fractional (pile_divisibility p)) (\<lambda>(fractional, width).
         Inr (show_nat whole @ [46] @ pad_zeros width (show_nat fractional) @ suffix)))"

datatype dune_id_error = InvalidDuneId | DuneIdInt

definition dune_id_to_string :: "dune_id \<Rightarrow> rchar list" where
  "dune_id_to_string d = show_nat (di_height d) @ [58] @ show_nat (di_index d)"

definition dune_id_from_str :: "rchar list \<Rightarrow> dune_id_error + dune_id" where
  "dune_id_from_str s =
    (case split_once 58 s of
       None \<Rightarrow> Inl InvalidDuneId
     | Some (height, index) \<Rightarrow>
         res_bind (ok_or DuneIdInt (parse_uint u64_max height)) (\<lambda>height.
         res_bind (ok_or DuneIdInt (parse_uint u32_max index)) (\<lambda>index.
         Inr \<lparr>di_height = height, di_index = index\<rparr>)))"

section \<open>Lemmas\<close>

lemma strip_zeros_spec:
  assumes "0 < f" and "f < 10 ^ w"
  shows "\<exists>f' w'. strip_zeros f w = Inr (f', w') \<and> f = f' * 10 ^ (w - w') \<and> w' \<le> w \<and> 0 < w' \<and>
    0 < f' \<and> f' < 10 ^ w' \<and> f' mod 10 \<noteq> 0"
  using assms
proof (induction f arbitrary: w rule: less_induct)
  case (less f)
  show ?case
  proof (cases "f mod 10 = 0")
    case False
    have "0 < w" using less.prems by (cases w) auto
    with False less.prems show ?thesis by (simp add: strip_zeros.simps [of f])
  next
    case True
    then obtain g where g: "f = 10 * g" by auto
    with less.prems obtain v where w: "w = Suc v" by (cases w) auto
    from g w less.prems have "0 < g" "g < f" "g < 10 ^ v" by auto
    with less.IH [of g v] obtain f' w' where IH: "strip_zeros g v = Inr (f', w')" "g = f' * 10 ^ (v - w')"
      "w' \<le> v" "0 < w'" "0 < f'" "f' < 10 ^ w'" "f' mod 10 \<noteq> 0" by auto
    have "strip_zeros f w = Inr (f', w')"
      using less.prems True IH(1) unfolding g w by (simp add: strip_zeros.simps [of "10 * g"] sub_or_panic_def)
    moreover have "f = f' * 10 ^ (w - w')" using IH(2,3) g w by (simp add: Suc_diff_le)
    ultimately show ?thesis using IH(3-7) w by auto
  qed
qed

lemma drop_to_fraction:
  "(46 :: nat) \<notin> set a \<Longrightarrow> drop 1 (dropWhile (\<lambda>c. c \<noteq> 46) (a @ 46 # b)) = b"
  by (induction a) auto

lemma length_pad_zeros: "length s \<le> w \<Longrightarrow> length (pad_zeros w s) = w"
  by (simp add: pad_zeros_def)

lemma decimal_parse_fraction:
  assumes "n \<le> u128_max" and "0 < f" and "f < 10 ^ w" and "f mod 10 \<noteq> 0" and "w \<le> 38"
    and "n * 10 ^ w + f \<le> u128_max"
  shows "decimal_from_str (show_nat n @ [46] @ pad_zeros w (show_nat f)) = Inr \<lparr>dec_value = n * 10 ^ w + f, dec_scale = w\<rparr>"
proof -
  let ?frac = "pad_zeros w (show_nat f)" and ?s = "show_nat n @ [46] @ pad_zeros w (show_nat f)"
  have dot: "46 \<notin> set (show_nat n)" by (rule show_nat_no_sep) simp
  have split: "split_once 46 ?s = Some (show_nat n, ?frac)" using split_once_first [OF dot] by simp
  have w: "0 < w" using assms(2,3) by (cases w) auto
  have len: "length ?frac = w" using length_show_nat [OF assms(3) w] by (rule length_pad_zeros)
  have last: "last ?s \<noteq> 48" using assms(4) by (simp add: pad_zeros_def last_show_nat)
  have trim: "trim_end_matches 48 ?s = ?s" using last by (intro trim_end_keeps) auto
  have f: "f \<le> u128_max" using assms(6) by linarith
  have "(10 :: nat) ^ w \<le> 10 ^ 38" using assms(5) by (intro power_increasing) auto
  then have p: "(10 :: nat) ^ w \<le> u128_max" by (simp add: u128_max_def)
  have m: "n * 10 ^ w \<le> u128_max" using assms(6) by linarith
  have frac: "?frac \<noteq> []" using len w by auto
  have sc: "length (drop 1 (dropWhile (\<lambda>c. c \<noteq> 46) (trim_end_matches 48 ?s))) = w"
    unfolding trim using drop_to_fraction [OF dot, of ?frac] len by simp
  have "w \<le> u8_max" using assms(5) by (simp add: u8_max_def)
  then show ?thesis
    unfolding decimal_from_str_def split sc using assms(1,6) f p m frac
    by (simp add: parse_uint_pad try_from_def pow_or_panic_def mul_or_panic_def add_or_panic_def)
qed

lemma decimal_print_parse:
  assumes "dec_value d \<le> u128_max" and "dec_scale d \<le> 38"
  shows "\<exists>s d'. decimal_to_string d = Inr s \<and> decimal_from_str s = Inr d' \<and> dec_scale d' \<le> dec_scale d \<and>
    dec_value d' * 10 ^ (dec_scale d - dec_scale d') = dec_value d"
proof -
  define v sc where "v = dec_value d" and "sc = dec_scale d"
  have "(10 :: nat) ^ sc \<le> 10 ^ 38" using assms(2) by (intro power_increasing) (auto simp: sc_def)
  then have p: "(10 :: nat) ^ sc \<le> u128_max" by (simp add: u128_max_def)
  have le: "v div 10 ^ sc \<le> u128_max" using assms(1) div_le_dividend [of v "10 ^ sc"] unfolding v_def by linarith
  show ?thesis
  proof (cases "v mod 10 ^ sc = 0")
    case True
    have "46 \<notin> set (show_nat (v div 10 ^ sc))" by (rule show_nat_no_sep) simp
    then have n: "split_once 46 (show_nat (v div 10 ^ sc)) = None" by (simp add: split_once_none)
    have v: "v div 10 ^ sc * 10 ^ sc = v" using True by auto
    have "decimal_to_string d = Inr (show_nat (v div 10 ^ sc))"
      using True p by (simp add: decimal_to_string_def checked_pow_def v_def sc_def Let_def)
    moreover have "decimal_from_str (show_nat (v div 10 ^ sc)) = Inr \<lparr>dec_value = v div 10 ^ sc, dec_scale = 0\<rparr>"
      using n le by (simp add: decimal_from_str_def)
    ultimately show ?thesis using v by (fastforce simp: v_def sc_def)
  next
    case False
    then have f: "0 < v mod 10 ^ sc" "v mod 10 ^ sc < 10 ^ sc" by auto
    obtain f' w where st: "strip_zeros (v mod 10 ^ sc) sc = Inr (f', w)"
      and e: "v mod 10 ^ sc = f' * 10 ^ (sc - w)" "w \<le> sc" "0 < w" "0 < f'" "f' < 10 ^ w" "f' mod 10 \<noteq> 0"
      using strip_zeros_spec [OF f] by blast
    define n where "n = v div 10 ^ sc"
    have pw: "(10 :: nat) ^ sc = 10 ^ w * 10 ^ (sc - w)" using e(2) by (simp flip: power_add)
    have "v = n * 10 ^ sc + f' * 10 ^ (sc - w)" using e(1) div_mult_mod_eq [of v "10 ^ sc"] by (simp add: n_def)
    then have v: "(n * 10 ^ w + f') * 10 ^ (sc - w) = v" by (simp add: pw algebra_simps)
    moreover have "n * 10 ^ w + f' \<le> (n * 10 ^ w + f') * 10 ^ (sc - w)" by simp
    ultimately have "n * 10 ^ w + f' \<le> u128_max" using assms(1) by (simp add: v_def)
    then have "decimal_from_str (show_nat n @ [46] @ pad_zeros w (show_nat f')) =
        Inr \<lparr>dec_value = n * 10 ^ w + f', dec_scale = w\<rparr>"
      using le e assms(2) by (intro decimal_parse_fraction) (auto simp: n_def sc_def)
    moreover have "decimal_to_string d = Inr (show_nat n @ [46] @ pad_zeros w (show_nat f'))"
      using f p st by (simp add: decimal_to_string_def checked_pow_def v_def sc_def n_def Let_def)
    ultimately show ?thesis using v e(2) by (fastforce simp: v_def sc_def)
  qed
qed

section \<open>Properties\<close>

text \<open>
  Printing a decimal and parsing it back keeps its value: for a scale up to 38 the text exists
  and parses to a decimal with a scale no larger, whose integer is the original one with exactly the
  dropped trailing zeros divided out.
\<close>

theorem decimal_round_trip:
  assumes "dec_value d \<le> u128_max" and "dec_scale d \<le> 38"
  shows "\<exists>s d'. decimal_to_string d = Inr s \<and> decimal_from_str s = Inr d' \<and> dec_scale d' \<le> dec_scale d \<and>
    dec_value d' * 10 ^ (dec_scale d - dec_scale d') = dec_value d"
  using assms by (rule decimal_print_parse)

theorem decimal_round_trip_witness:
  "\<exists>s d'. decimal_to_string \<lparr>dec_value = 12050, dec_scale = 4\<rparr> = Inr s \<and> decimal_from_str s = Inr d' \<and>
    dec_value d' * 10 ^ (4 - dec_scale d') = 12050"
proof -
  note ex = decimal_round_trip [of "\<lparr>dec_value = 12050, dec_scale = 4\<rparr>"]
  show ?thesis using ex by (auto simp: u128_max_def)
qed

text \<open>
  Converting a decimal to an amount is exact or an error: the amount is the value scaled up by
  the missing digits and fits a \<open>u128\<close>, and conversion fails exactly when the scale exceeds the
  divisibility, the power of ten overflows, or the product does.
\<close>

theorem to_amount_exact:
  "to_amount d n = Inr a \<longleftrightarrow>
    dec_scale d \<le> n \<and> 10 ^ (n - dec_scale d) \<le> u128_max \<and>
    a = dec_value d * 10 ^ (n - dec_scale d) \<and> a \<le> u128_max"
  by (auto simp: to_amount_def checked_defs ok_or_def split: if_splits)

text \<open>
  A dune id is recovered from its text.
\<close>

theorem dune_id_text_round_trip:
  assumes "di_height d \<le> u64_max" and "di_index d \<le> u32_max"
  shows "dune_id_from_str (dune_id_to_string d) = Inr d"
proof -
  have "58 \<notin> set (show_nat (di_height d))" by (rule show_nat_no_sep) simp
  from split_once_first [OF this] assms show ?thesis
    by (simp add: dune_id_from_str_def dune_id_to_string_def)
qed

theorem dune_id_text_round_trip_witness:
  "dune_id_from_str (dune_id_to_string \<lparr>di_height = 5084000, di_index = 12\<rparr>) = Inr \<lparr>di_height = 5084000, di_index = 12\<rparr>"
proof -
  note ex = dune_id_text_round_trip [of "\<lparr>di_height = 5084000, di_index = 12\<rparr>"]
  show ?thesis using ex by (simp add: width_defs)
qed

text \<open>
  The text of a pile is its exact value: the number printed before the symbol is a decimal that
  parses back to an integer \<open>n\<close> and a scale \<open>s\<close> with \<open>n\<close> times \<open>10^(divisibility - s)\<close> equal to the amount.
\<close>

theorem pile_text_exact:
  assumes "pile_amount p \<le> u128_max" and "pile_divisibility p \<le> MAX_DIVISIBILITY"
  shows "\<exists>s d. pile_to_string p = Inr (s @ [0xA0, (case pile_symbol p of Some c \<Rightarrow> c | None \<Rightarrow> 0xA4)]) \<and>
    decimal_from_str s = Inr d \<and> dec_scale d \<le> pile_divisibility p \<and>
    to_amount d (pile_divisibility p) = Inr (pile_amount p)"
proof -
  let ?d = "\<lparr>dec_value = pile_amount p, dec_scale = pile_divisibility p\<rparr>"
  let ?suffix = "[0xA0, (case pile_symbol p of Some c \<Rightarrow> c | None \<Rightarrow> 0xA4)]"
  have le: "pile_divisibility p \<le> 38" using assms(2) by (simp add: MAX_DIVISIBILITY_def)
  have ten: "(10 :: nat) ^ k \<le> u128_max" if "k \<le> 38" for k
  proof -
    have "(10 :: nat) ^ k \<le> 10 ^ 38" using that by (intro power_increasing) auto
    then show ?thesis by (simp add: u128_max_def)
  qed
  obtain s d' where s: "decimal_to_string ?d = Inr s" "decimal_from_str s = Inr d'"
    and d': "dec_scale d' \<le> pile_divisibility p"
      "dec_value d' * 10 ^ (pile_divisibility p - dec_scale d') = pile_amount p"
    using decimal_print_parse [of ?d] assms(1) le by auto
  have "pile_to_string p = Inr (s @ ?suffix)"
    using s(1) ten [OF le]
    by (auto simp: decimal_to_string_def pile_to_string_def checked_pow_def pow_or_panic_def Let_def res_simps
        split: if_splits)
  moreover have "to_amount d' (pile_divisibility p) = Inr (pile_amount p)"
    using d' assms(1) ten [of "pile_divisibility p - dec_scale d'"] le
    by (auto simp: to_amount_def checked_defs)
  ultimately show ?thesis using s(2) d'(1) by blast
qed

theorem pile_text_exact_witness:
  "\<exists>s d. pile_to_string \<lparr>pile_amount = 1005, pile_divisibility = 2, pile_symbol = None\<rparr> = Inr (s @ [0xA0, 0xA4]) \<and>
    decimal_from_str s = Inr d \<and> to_amount d 2 = Inr 1005"
proof -
  note ex = pile_text_exact [of "\<lparr>pile_amount = 1005, pile_divisibility = 2, pile_symbol = None\<rparr>"]
  show ?thesis using ex by (auto simp: u128_max_def MAX_DIVISIBILITY_def)
qed

text \<open>
  Trailing zeros change the number: the scale leaves them out while the integer of the fraction
  keeps them, so the text \<open>1.10\<close> is read as 20 with one decimal, that is 2.0.
\<close>

lemma decimal_trailing_zero:
  "decimal_from_str (str ''1.10'') = Inr \<lparr>dec_value = 20, dec_scale = 1\<rparr>"
  by (simp add: decimal_from_str_def str_def parse_uint_def checked_defs trim_end_matches_def width_defs)

end
