(* ===== verification/Sat.thy ===== *)
theory Sat
  imports Text
begin

text \<open>
  Sat numbers and heights (\<open>src/sat.rs\<close>, \<open>src/height.rs\<close>, \<open>src/epoch.rs\<close>, \<open>src/decimal_sat.rs\<close>,
  \<open>src/rarity.rs\<close>). The first sat of every epoch and the subsidy of every epoch are read from two
  files at run time; they are the parameter \<open>sat_data\<close>. What is assumed of the two files
  (\<open>data_ok\<close>) holds of the files in the repository; that an epoch has as many sats as its blocks
  pay does not hold of them, so it is a condition on the single sat (\<open>in_place\<close>), and the sats that
  print and parse back are exactly the ones that meet it.
\<close>

section \<open>Epochs\<close>

record sat_data =
  starting_sats :: "u64 list"
  subsidies :: "u32 \<rightharpoonup> u64"

definition epoch_subsidy :: "sat_data \<Rightarrow> u32 \<Rightarrow> u64 may_panic" where
  "epoch_subsidy D e = (case subsidies D e of Some n \<Rightarrow> Inr n | None \<Rightarrow> Inl Explicit)"

definition epoch_starting_sat :: "sat_data \<Rightarrow> u32 \<Rightarrow> u64 may_panic" where
  "epoch_starting_sat D e =
    (case slice_get (starting_sats D) e of
       Some s \<Rightarrow> Inr s
     | None \<Rightarrow> unwrap (if starting_sats D = [] then None else Some (last (starting_sats D))))"

definition epoch_starting_height :: "u32 \<Rightarrow> u32 may_panic" where
  "epoch_starting_height e =
    (if e < 145000 then Inr e
     else if e < 145001 then Inr 145000
     else if e < 145002 then Inr 200000
     else if e < 145003 then Inr 300000
     else if e < 145004 then Inr 400000
     else if e < 145005 then Inr 500000
     else if e < 145006 then Inr 600000
     else Inl Explicit)"

definition epoch_of_sat :: "sat_data \<Rightarrow> u64 \<Rightarrow> u32 may_panic" where
  "epoch_of_sat D sat =
    res_bind (sub_or_panic (length (starting_sats D)) 1) (\<lambda>n.
    case List.find (\<lambda>i. sat < starting_sats D ! (i + 1)) [0..<n] of
      Some i \<Rightarrow> unwrap (try_from u32_max i)
    | None \<Rightarrow> Inr 145005)"

definition epoch_of_height :: "u32 \<Rightarrow> u32" where
  "epoch_of_height height =
    (if height < 145000 then height
     else if height < 200000 then 145000
     else if height < 300000 then 145001
     else if height < 400000 then 145002
     else if height < 500000 then 145003
     else if height < 600000 then 145004
     else 145005)"

section \<open>Heights\<close>

definition height_subsidy :: "sat_data \<Rightarrow> u32 \<Rightarrow> u64 may_panic" where
  "height_subsidy D height = epoch_subsidy D (epoch_of_height height)"

definition height_starting_sat :: "sat_data \<Rightarrow> u32 \<Rightarrow> u64 may_panic" where
  "height_starting_sat D height =
    (let epoch = epoch_of_height height
     in res_bind (epoch_starting_sat D epoch) (\<lambda>epoch_starting_sat.
        res_bind (epoch_starting_height epoch) (\<lambda>epoch_starting_height.
        res_bind (sub_or_panic height epoch_starting_height) (\<lambda>n.
        res_bind (epoch_subsidy D epoch) (\<lambda>subsidy.
        res_bind (mul_or_panic u64_max n subsidy) (\<lambda>m.
        add_or_panic u64_max epoch_starting_sat m))))))"

section \<open>Sats\<close>

definition div_or_panic :: "nat \<Rightarrow> nat \<Rightarrow> nat may_panic" where
  [checked_defs]: "div_or_panic a b = (if b = 0 then Inl DivByZero else Inr (a div b))"

definition mod_or_panic :: "nat \<Rightarrow> nat \<Rightarrow> nat may_panic" where
  [checked_defs]: "mod_or_panic a b = (if b = 0 then Inl DivByZero else Inr (a mod b))"

definition epoch_position :: "sat_data \<Rightarrow> u64 \<Rightarrow> u64 may_panic" where
  "epoch_position D sat =
    res_bind (epoch_of_sat D sat) (\<lambda>e. res_bind (epoch_starting_sat D e) (\<lambda>s. sub_or_panic sat s))"

definition sat_height :: "sat_data \<Rightarrow> u64 \<Rightarrow> u32 may_panic" where
  "sat_height D sat =
    res_bind (epoch_of_sat D sat) (\<lambda>e.
    res_bind (epoch_starting_height e) (\<lambda>h.
    res_bind (epoch_position D sat) (\<lambda>p.
    res_bind (epoch_subsidy D e) (\<lambda>subsidy.
    res_bind (div_or_panic p subsidy) (\<lambda>q.
    res_bind (unwrap (try_from u32_max q)) (\<lambda>q.
    add_or_panic u32_max h q))))))"

definition sat_third :: "sat_data \<Rightarrow> u64 \<Rightarrow> u64 may_panic" where
  "sat_third D sat =
    res_bind (epoch_position D sat) (\<lambda>p.
    res_bind (epoch_of_sat D sat) (\<lambda>e.
    res_bind (epoch_subsidy D e) (\<lambda>subsidy.
    mod_or_panic p subsidy)))"

definition is_common :: "sat_data \<Rightarrow> u64 \<Rightarrow> bool may_panic" where
  "is_common D sat =
    res_bind (epoch_of_sat D sat) (\<lambda>e.
    res_bind (epoch_starting_sat D e) (\<lambda>s.
    res_bind (sub_or_panic sat s) (\<lambda>p.
    res_bind (epoch_subsidy D e) (\<lambda>subsidy.
    res_bind (mod_or_panic p subsidy) (\<lambda>r. Inr (r \<noteq> 0))))))"

text \<open>A sat as \<open>height.offset\<close>.\<close>

record decimal_sat =
  ds_height :: u32
  ds_offset :: u64

definition decimal_of_sat :: "sat_data \<Rightarrow> u64 \<Rightarrow> decimal_sat may_panic" where
  "decimal_of_sat D sat =
    res_bind (sat_height D sat) (\<lambda>h. res_bind (sat_third D sat) (\<lambda>t. Inr \<lparr>ds_height = h, ds_offset = t\<rparr>))"

definition decimal_sat_to_string :: "decimal_sat \<Rightarrow> rchar list" where
  "decimal_sat_to_string d = show_nat (ds_height d) @ [46] @ show_nat (ds_offset d)"

datatype sat_error = MissingPeriod | SatParseInt | InvalidBlockOffset | SatPanic rust_panic

definition sat_from_decimal :: "sat_data \<Rightarrow> rchar list \<Rightarrow> sat_error + u64" where
  "sat_from_decimal D s =
    (case split_once 46 s of
       None \<Rightarrow> Inl MissingPeriod
     | Some (height, offset) \<Rightarrow>
         res_bind (ok_or SatParseInt (parse_uint u32_max height)) (\<lambda>height.
         res_bind (ok_or SatParseInt (parse_uint u64_max offset)) (\<lambda>offset.
         res_bind (lift_panic SatPanic (height_subsidy D height)) (\<lambda>subsidy.
         if subsidy \<le> offset then Inl InvalidBlockOffset
         else
           res_bind (lift_panic SatPanic (height_starting_sat D height)) (\<lambda>s.
           lift_panic SatPanic (add_or_panic u64_max s offset))))))"

definition sat_from_str :: "sat_data \<Rightarrow> rchar list \<Rightarrow> sat_error + u64" where
  "sat_from_str D s =
    (if 46 \<in> set s then sat_from_decimal D s else ok_or SatParseInt (parse_uint u64_max s))"

section \<open>Rarity\<close>

datatype rarity = Common | Uncommon | Rare | Epic | Legendary | Mythic

fun rarity_to_u8 :: "rarity \<Rightarrow> u8" where
  "rarity_to_u8 Common = 0"
| "rarity_to_u8 Uncommon = 1"
| "rarity_to_u8 Rare = 2"
| "rarity_to_u8 Epic = 3"
| "rarity_to_u8 Legendary = 4"
| "rarity_to_u8 Mythic = 5"

definition rarity_try_from :: "u8 \<Rightarrow> u8 + rarity" where
  "rarity_try_from n =
    (if n = 0 then Inr Common else if n = 1 then Inr Uncommon else if n = 2 then Inr Rare
     else if n = 3 then Inr Epic else if n = 4 then Inr Legendary else if n = 5 then Inr Mythic
     else Inl n)"

fun rarity_to_string :: "rarity \<Rightarrow> rchar list" where
  "rarity_to_string Common = str ''common''"
| "rarity_to_string Uncommon = str ''uncommon''"
| "rarity_to_string Rare = str ''rare''"
| "rarity_to_string Epic = str ''epic''"
| "rarity_to_string Legendary = str ''legendary''"
| "rarity_to_string Mythic = str ''mythic''"

definition rarity_from_str :: "rchar list \<Rightarrow> rchar list + rarity" where
  "rarity_from_str s =
    (if s = str ''common'' then Inr Common
     else if s = str ''uncommon'' then Inr Uncommon
     else if s = str ''rare'' then Inr Rare
     else if s = str ''epic'' then Inr Epic
     else if s = str ''legendary'' then Inr Legendary
     else if s = str ''mythic'' then Inr Mythic
     else Inl s)"

definition sat_rarity :: "sat_data \<Rightarrow> u64 \<Rightarrow> rarity may_panic" where
  "sat_rarity D sat =
    (if sat = 0 then Inr Mythic
     else
       res_bind (epoch_of_sat D sat) (\<lambda>e.
       res_bind (epoch_starting_sat D e) (\<lambda>s.
       if sat = s then Inr Legendary
       else res_bind (is_common D sat) (\<lambda>c. Inr (if \<not> c then Uncommon else Common)))))"

section \<open>What the data files promise\<close>

abbreviation first_height :: "nat \<Rightarrow> nat" where
  "first_height e \<equiv> (if e < 145000 then e else if e < 145001 then 145000 else if e < 145002 then 200000
    else if e < 145003 then 300000 else if e < 145004 then 400000 else if e < 145005 then 500000 else 600000)"

definition epoch_end :: "sat_data \<Rightarrow> nat \<Rightarrow> nat" where
  "epoch_end D e = (if e < 145005 then starting_sats D ! (e + 1) else u64_max + 1)"

text \<open>
  One first sat for each of the 145,006 epochs, starting at 0 and increasing; one positive subsidy
  for each; and heights that fit a \<open>u32\<close>. All of it holds of \<open>starting_sats.json\<close> and
  \<open>subsidies.json\<close>.
\<close>

definition data_ok :: "sat_data \<Rightarrow> bool" where
  "data_ok D \<longleftrightarrow> length (starting_sats D) = 145006 \<and> starting_sats D ! 0 = 0 \<and>
    (\<forall>e<145005. starting_sats D ! e < starting_sats D ! (e + 1)) \<and>
    (\<forall>e<145006. \<exists>n. subsidies D e = Some n \<and> 0 < n \<and>
      first_height e + (epoch_end D e - starting_sats D ! e) div n \<le> u32_max)"

text \<open>
  The blocks of an epoch pay its subsidy each, and the next epoch starts where the data file says.
  A sat is in place when it is among those the blocks of its epoch pay.
\<close>

definition in_place :: "sat_data \<Rightarrow> u64 \<Rightarrow> bool" where
  "in_place D sat =
    (case epoch_of_sat D sat of
       Inl _ \<Rightarrow> False
     | Inr e \<Rightarrow> e = 145005 \<or>
         sat - starting_sats D ! e < (first_height (e + 1) - first_height e) * the (subsidies D e))"

lemma epoch_starting_height_first: "e < 145006 \<Longrightarrow> epoch_starting_height e = Inr (first_height e)"
  by (auto simp: epoch_starting_height_def)

lemma epoch_of_height_unique:
  assumes "e < 145005" and "first_height e \<le> h" and "h < first_height (e + 1)"
  shows "epoch_of_height h = e"
proof -
  consider "e < 144999" | "e = 144999" | "e = 145000" | "e = 145001" | "e = 145002" | "e = 145003" | "e = 145004"
    using assms(1) by linarith
  then show ?thesis using assms by cases (auto simp: epoch_of_height_def)
qed

lemma epoch_of_height_last: "600000 \<le> h \<Longrightarrow> epoch_of_height h = 145005"
  by (simp add: epoch_of_height_def)

lemma epoch_of_sat_bounds:
  assumes "length (starting_sats D) = 145006" and "starting_sats D ! 0 = 0"
  obtains e where "epoch_of_sat D sat = Inr e" "e < 145006" "starting_sats D ! e \<le> sat"
    "e < 145005 \<Longrightarrow> sat < starting_sats D ! (e + 1)"
proof (cases "List.find (\<lambda>i. sat < starting_sats D ! (i + 1)) [0..<145005]")
  case None
  then have "\<forall>i<145005. starting_sats D ! (i + 1) \<le> sat" by (simp add: find_None_iff) (metis not_le)
  then have "starting_sats D ! 145005 \<le> sat" by (auto dest: spec [of _ 145004])
  with None assms(1) show ?thesis by (intro that [of 145005]) (simp_all add: epoch_of_sat_def sub_or_panic_def)
next
  case (Some i)
  then obtain "i < 145005" "sat < starting_sats D ! (i + 1)" and
    before: "\<forall>j<i. \<not> sat < starting_sats D ! (j + 1)"
    by (auto simp: find_Some_iff)
  moreover have "starting_sats D ! i \<le> sat"
    using before assms(2) by (cases i) auto
  ultimately show ?thesis using Some assms(1)
    by (intro that [of i]) (simp_all add: epoch_of_sat_def sub_or_panic_def unwrap_def try_from_def u32_max_def)
qed

lemma epoch_of_height_first: "e < 145006 \<Longrightarrow> first_height e \<le> h \<Longrightarrow> e \<le> epoch_of_height h"
  by (auto simp: epoch_of_height_def split: if_splits)

lemma epoch_of_height_le: "epoch_of_height h \<le> 145005"
  by (simp add: epoch_of_height_def)

lemma epoch_of_height_start: "first_height (epoch_of_height h) \<le> h"
  by (auto simp: epoch_of_height_def)

lemma starting_sats_mono:
  assumes "data_ok D" and "e \<le> e'" and "e' < 145006"
  shows "starting_sats D ! e \<le> starting_sats D ! e'"
  using assms(2,3)
proof (induction e' rule: dec_induct)
  case (step k)
  then have "starting_sats D ! k < starting_sats D ! (k + 1)" using assms(1) by (simp add: data_ok_def)
  with step show ?case by simp
qed simp

text \<open>The epoch, the position in it, the height and the offset of a sat, as one statement.\<close>

lemma sat_place:
  assumes "data_ok D" and "sat \<le> u64_max"
  obtains e n where "epoch_of_sat D sat = Inr e" "e < 145006" "starting_sats D ! e \<le> sat" "sat < epoch_end D e"
    "epoch_starting_sat D e = Inr (starting_sats D ! e)" "subsidies D e = Some n" "epoch_subsidy D e = Inr n" "0 < n"
    "sat_third D sat = Inr ((sat - starting_sats D ! e) mod n)"
    "sat_height D sat = Inr (first_height e + (sat - starting_sats D ! e) div n)"
    "first_height e + (sat - starting_sats D ! e) div n \<le> u32_max"
proof -
  have len: "length (starting_sats D) = 145006" and zero: "starting_sats D ! 0 = 0"
    using assms by (simp_all add: data_ok_def)
  obtain e where e: "epoch_of_sat D sat = Inr e" "e < 145006" "starting_sats D ! e \<le> sat"
    "e < 145005 \<Longrightarrow> sat < starting_sats D ! (e + 1)" using epoch_of_sat_bounds [OF len zero] by blast
  obtain n where n: "subsidies D e = Some n" "0 < n"
    "first_height e + (epoch_end D e - starting_sats D ! e) div n \<le> u32_max"
    using assms(1) e(2) by (auto simp: data_ok_def)
  have "sat < epoch_end D e" using e(4) assms(2) by (simp add: epoch_end_def)
  moreover from this have "(sat - starting_sats D ! e) div n \<le> (epoch_end D e - starting_sats D ! e) div n"
    by (intro div_le_mono) simp
  then have fits: "first_height e + (sat - starting_sats D ! e) div n \<le> u32_max" using n(3) by linarith
  moreover have start: "epoch_starting_sat D e = Inr (starting_sats D ! e)"
    using len e(2) by (simp add: epoch_starting_sat_def slice_get_def)
  moreover have sub: "epoch_subsidy D e = Inr n" using n by (simp add: epoch_subsidy_def)
  moreover have pos: "epoch_position D sat = Inr (sat - starting_sats D ! e)"
    using e(1,3) start by (simp add: epoch_position_def sub_or_panic_def)
  moreover from pos have "sat_third D sat = Inr ((sat - starting_sats D ! e) mod n)"
    using e(1) sub n(2) by (simp add: sat_third_def mod_or_panic_def)
  moreover have "sat_height D sat = Inr (first_height e + (sat - starting_sats D ! e) div n)"
    using e(1,2) pos sub n(2) fits by (simp add: sat_height_def epoch_starting_height_first div_or_panic_def
        unwrap_def try_from_def add_or_panic_def del: if_weak_cong)
  ultimately show ?thesis using that e n by blast
qed

lemma in_place_epoch:
  assumes "epoch_of_sat D sat = Inr e" and "e < 145006" and "subsidies D e = Some n" and "0 < n"
  shows "in_place D sat \<longleftrightarrow> epoch_of_height (first_height e + (sat - starting_sats D ! e) div n) = e"
    (is "_ \<longleftrightarrow> epoch_of_height ?h = e")
proof (cases "e < 145005")
  case True
  have "in_place D sat \<longleftrightarrow> sat - starting_sats D ! e < (first_height (e + 1) - first_height e) * n"
    using assms True by (simp add: in_place_def)
  moreover have "?h < first_height (e + 1)" if "sat - starting_sats D ! e < (first_height (e + 1) - first_height e) * n"
    using less_mult_imp_div_less [OF that] by linarith
  moreover have "first_height (e + 1) \<le> ?h"
    if "\<not> sat - starting_sats D ! e < (first_height (e + 1) - first_height e) * n"
  proof -
    have "first_height (e + 1) - first_height e \<le> (sat - starting_sats D ! e) div n"
      using that assms(4) by (simp only: less_eq_div_iff_mult_less_eq not_less)
    then show ?thesis by linarith
  qed
  ultimately show ?thesis
    using epoch_of_height_unique [OF True, of ?h] epoch_of_height_first [of "e + 1" ?h] True by fastforce
next
  case False
  then have "e = 145005" using assms(2) by simp
  then show ?thesis using assms(1) by (simp add: in_place_def epoch_of_height_last)
qed

text \<open>The first sat of a block lies in the epoch of the block, or after it.\<close>

lemma height_starting_sat_epoch:
  assumes "data_ok D" and "height_starting_sat D h = Inr s"
  shows "starting_sats D ! epoch_of_height h \<le> s"
proof -
  have "epoch_starting_sat D (epoch_of_height h) = Inr (starting_sats D ! epoch_of_height h)"
    using assms(1) epoch_of_height_le [of h] by (simp add: epoch_starting_sat_def slice_get_def data_ok_def)
  then show ?thesis using assms(2)
    by (auto simp: height_starting_sat_def Let_def res_bind_def add_or_panic_def split: sum.splits if_splits)
qed

lemma sat_from_str_decimal:
  assumes "h \<le> u32_max" and "t \<le> u64_max"
  shows "sat_from_str D (decimal_sat_to_string \<lparr>ds_height = h, ds_offset = t\<rparr>) =
    res_bind (lift_panic SatPanic (height_subsidy D h)) (\<lambda>subsidy.
      if subsidy \<le> t then Inl InvalidBlockOffset
      else res_bind (lift_panic SatPanic (height_starting_sat D h)) (\<lambda>s. lift_panic SatPanic (add_or_panic u64_max s t)))"
proof -
  have dot: "46 \<notin> set (show_nat h)" by (rule show_nat_no_sep) simp
  show ?thesis using split_once_first [OF dot] assms
    by (simp add: sat_from_str_def sat_from_decimal_def decimal_sat_to_string_def)
qed

section \<open>Properties\<close>

text \<open>
  C32: the place of a sat. With data files as the repository's (\<open>data_ok\<close>), every sat of a \<open>u64\<close> has
  a height and an offset, computed without a panic, and its printed \<open>height.offset\<close> form is parsed
  back to the same sat exactly when the sat is among those that the blocks of its epoch pay
  (\<open>in_place\<close>); then the offset is below that block's subsidy and the block's first sat plus the
  offset is the sat. For a sat past the blocks of its epoch the printed height is that of a later
  epoch, and the text names another sat or is refused.
\<close>

theorem sat_decimal_round_trip:
  assumes "data_ok D" and "sat \<le> u64_max"
  shows "\<exists>h t. decimal_of_sat D sat = Inr \<lparr>ds_height = h, ds_offset = t\<rparr> \<and>
    (sat_from_str D (decimal_sat_to_string \<lparr>ds_height = h, ds_offset = t\<rparr>) = Inr sat \<longleftrightarrow> in_place D sat) \<and>
    (in_place D sat \<longrightarrow> t \<le> sat \<and> height_starting_sat D h = Inr (sat - t) \<and>
      (\<exists>subsidy. height_subsidy D h = Inr subsidy \<and> t < subsidy))"
proof -
  obtain e n where e: "epoch_of_sat D sat = Inr e" "e < 145006" "starting_sats D ! e \<le> sat" "sat < epoch_end D e"
    "epoch_starting_sat D e = Inr (starting_sats D ! e)" "subsidies D e = Some n" "epoch_subsidy D e = Inr n" "0 < n"
    and third: "sat_third D sat = Inr ((sat - starting_sats D ! e) mod n)"
    and height: "sat_height D sat = Inr (first_height e + (sat - starting_sats D ! e) div n)"
    and fits: "first_height e + (sat - starting_sats D ! e) div n \<le> u32_max"
    using sat_place [OF assms] by metis
  define s q t h where "s = starting_sats D ! e" and "q = (sat - s) div n" and "t = (sat - s) mod n"
    and "h = first_height e + q"
  have sum: "q * n + t = sat - s" by (simp add: q_def t_def)
  have fit: "q * n \<le> u64_max" "s + q * n \<le> u64_max" "s + q * n = sat - t" "t \<le> sat" "t \<le> u64_max"
    using sum e(3) assms(2) by (simp_all add: s_def)
  have parse: "sat_from_str D (decimal_sat_to_string \<lparr>ds_height = h, ds_offset = t\<rparr>) =
    res_bind (lift_panic SatPanic (height_subsidy D h)) (\<lambda>subsidy. if subsidy \<le> t then Inl InvalidBlockOffset
      else res_bind (lift_panic SatPanic (height_starting_sat D h)) (\<lambda>s. lift_panic SatPanic (add_or_panic u64_max s t)))"
    using fits fit(5) unfolding h_def q_def s_def by (rule sat_from_str_decimal)
  have place: "in_place D sat \<longleftrightarrow> epoch_of_height h = e"
    unfolding h_def q_def s_def by (rule in_place_epoch [OF e(1,2,6,8)])
  have good: "height_subsidy D h = Inr n \<and> height_starting_sat D h = Inr (sat - t)" if "in_place D sat"
  proof -
    have eh: "epoch_of_height h = e" using that place by simp
    have "sub_or_panic h (first_height e) = Inr q" by (simp add: sub_or_panic_def h_def)
    then show ?thesis using e(2,5,7) fit unfolding height_subsidy_def height_starting_sat_def eh Let_def
      by (simp add: epoch_starting_height_first mul_or_panic_def add_or_panic_def s_def [symmetric])
  qed
  have bad: "sat_from_str D (decimal_sat_to_string \<lparr>ds_height = h, ds_offset = t\<rparr>) \<noteq> Inr sat" if "\<not> in_place D sat"
  proof
    assume "sat_from_str D (decimal_sat_to_string \<lparr>ds_height = h, ds_offset = t\<rparr>) = Inr sat"
    then obtain first where first: "height_starting_sat D h = Inr first" "first \<le> sat"
      by (auto simp: parse res_bind_def lift_panic_def add_or_panic_def split: sum.splits if_splits)
    have "e < epoch_of_height h"
      using that place epoch_of_height_first [OF e(2), of h] by (simp add: h_def)
    then have "starting_sats D ! (e + 1) \<le> starting_sats D ! epoch_of_height h" and "e < 145005"
      using epoch_of_height_le [of h] by (auto intro: starting_sats_mono [OF assms(1)])
    then show False using height_starting_sat_epoch [OF assms(1) first(1)] first(2) e(4) by (simp add: epoch_end_def)
  qed
  have "decimal_of_sat D sat = Inr \<lparr>ds_height = h, ds_offset = t\<rparr>"
    using height third by (simp add: decimal_of_sat_def h_def q_def t_def s_def)
  moreover have "t < n" using e(8) by (simp add: t_def)
  ultimately show ?thesis using good bad parse fit assms(2) by (auto simp: lift_panic_def add_or_panic_def)
qed

text \<open>
  Sample data: a subsidy of 10,000 sats (in the last epoch as much as the shipped files pay) and, as for many epochs of the shipped files, an
  epoch that is longer than what its blocks pay: epoch 0 has one block and 10,005 sats.
\<close>

definition flat_data :: sat_data where
  "flat_data = \<lparr>starting_sats = map (\<lambda>e. if e = 0 then 0 else 10000 * first_height e + 5) [0..<145006],
    subsidies = (\<lambda>e. if e < 145005 then Some 10000 else if e = 145005 then Some 1000000000000 else None)\<rparr>"

lemma flat_starting_sats:
  "length (starting_sats flat_data) = 145006"
  "e < 145006 \<Longrightarrow> starting_sats flat_data ! e = (if e = 0 then 0 else 10000 * first_height e + 5)"
  by (simp_all add: flat_data_def del: upt_rec_numeral)

lemma flat_subsidies: "e < 145005 \<Longrightarrow> subsidies flat_data e = Some 10000"
  "subsidies flat_data 145005 = Some 1000000000000"
  by (simp_all add: flat_data_def)

lemma flat_heights:
  assumes "e < 145006"
  shows "\<exists>n. subsidies flat_data e = Some n \<and> 0 < n \<and>
    first_height e + (epoch_end flat_data e - starting_sats flat_data ! e) div n \<le> u32_max"
proof (cases "e < 145005")
  case True
  have low: "first_height k \<le> 600000" for k by auto
  have "starting_sats flat_data ! (e + 1) \<le> 6000000005"
    using True by (subst flat_starting_sats(2)) auto
  then have "epoch_end flat_data e - starting_sats flat_data ! e \<le> 6000000005" using True by (simp add: epoch_end_def)
  then have "(epoch_end flat_data e - starting_sats flat_data ! e) div 10000 \<le> 6000000005 div 10000"
    by (rule div_le_mono)
  then have "(epoch_end flat_data e - starting_sats flat_data ! e) div 10000 \<le> 600000" by simp
  then show ?thesis using low [of e] True by (intro exI [of _ 10000]) (simp add: flat_subsidies u32_max_def)
next
  case False
  then have "e = 145005" using assms by simp
  then show ?thesis by (simp add: flat_subsidies flat_starting_sats epoch_end_def width_defs)
qed

lemma flat_data_ok: "data_ok flat_data"
proof -
  have "starting_sats flat_data ! e < starting_sats flat_data ! (e + 1)" if "e < 145005" for e
    using that by (subst (1 2) flat_starting_sats(2)) auto
  then show ?thesis unfolding data_ok_def using flat_heights flat_starting_sats(1) flat_starting_sats(2) [of 0] by simp
qed

lemma flat_epochs: "epoch_of_sat flat_data 10002 = Inr 0" "epoch_of_sat flat_data 10007 = Inr 1"
proof -
  have "[0..<Suc (Suc n)] = 0 # 1 # [2..<Suc (Suc n)]" for n
    by (simp add: upt_conv_Cons numeral_2_eq_2 del: upt_Suc)
  from this [of 145003] have up: "[0..<145005] = 0 # 1 # [2..<145005]" by (simp only: Suc_nat_number_of_add Suc_numeral semiring_norm)
  show "epoch_of_sat flat_data 10002 = Inr 0" "epoch_of_sat flat_data 10007 = Inr 1"
    by (simp_all add: epoch_of_sat_def flat_starting_sats sub_or_panic_def up unwrap_def try_from_def u32_max_def
        del: upt_rec_numeral)
qed

theorem sat_decimal_round_trip_witness:
  "(\<exists>h t. decimal_of_sat flat_data 10007 = Inr \<lparr>ds_height = h, ds_offset = t\<rparr> \<and>
      sat_from_str flat_data (decimal_sat_to_string \<lparr>ds_height = h, ds_offset = t\<rparr>) = Inr 10007) \<and>
   (\<exists>h t. decimal_of_sat flat_data 10002 = Inr \<lparr>ds_height = h, ds_offset = t\<rparr> \<and>
      sat_from_str flat_data (decimal_sat_to_string \<lparr>ds_height = h, ds_offset = t\<rparr>) \<noteq> Inr 10002)"
proof -
  note ex = sat_decimal_round_trip [OF flat_data_ok]
  have "in_place flat_data 10007" "\<not> in_place flat_data 10002"
    by (simp_all add: in_place_def flat_epochs flat_starting_sats flat_subsidies)
  then show ?thesis using ex [of 10007] ex [of 10002] by (auto simp: width_defs)
qed



lemma rarity_text_round_trip: "rarity_from_str (rarity_to_string r) = Inr r"
  by (cases r) (simp_all add: rarity_from_str_def str_def)

lemma rarity_byte_round_trip: "rarity_try_from (rarity_to_u8 r) = Inr r"
  by (cases r) (simp_all add: rarity_try_from_def)

end
