(* ===== verification/Table.thy ===== *)
theory Table
  imports Prelude "HOL-Library.List_Lexorder"
begin

text \<open>
  Key-value tables. A redb table keeps its rows in key order, and ranges over it come out in that
  order: it is an association list, strictly sorted by key. A \<open>HashMap\<close> is one with distinct keys
  in an order of its own. What the ledgers of the index rely on is the same for both: what a lookup
  finds after an insertion or a removal, and how the sum of a quantity over all rows changes.
\<close>

section \<open>Model\<close>

type_synonym ('k, 'v) redb = "('k \<times> 'v) list"

fun redb_insert :: "'k::linorder \<Rightarrow> 'v \<Rightarrow> ('k, 'v) redb \<Rightarrow> ('k, 'v) redb" where
  "redb_insert k v [] = [(k, v)]"
| "redb_insert k v ((k', v') # t) =
    (if k < k' then (k, v) # (k', v') # t
     else if k = k' then (k, v) # t
     else (k', v') # redb_insert k v t)"

definition redb_remove :: "'k \<Rightarrow> ('k, 'v) redb \<Rightarrow> ('k, 'v) redb" where
  "redb_remove k t = filter (\<lambda>(k', v). k' \<noteq> k) t"

text \<open>\<open>range(from..to)\<close>: the rows from one key, included, to another, excluded.\<close>

definition redb_range :: "'k::linorder \<Rightarrow> 'k \<Rightarrow> ('k, 'v) redb \<Rightarrow> ('k, 'v) redb" where
  "redb_range lo hi t = filter (\<lambda>(k, v). lo \<le> k \<and> k < hi) t"

definition redb_ok :: "('k::linorder, 'v) redb \<Rightarrow> bool" where
  "redb_ok t \<longleftrightarrow> sorted_wrt (<) (map fst t)"

section \<open>Interface\<close>

definition weight :: "('k \<Rightarrow> 'v \<Rightarrow> nat) \<Rightarrow> ('k \<times> 'v) list \<Rightarrow> nat" where
  "weight f t = sum_list (map (\<lambda>(k, v). f k v) t)"

lemma weight_Nil [simp]: "weight f [] = 0"
  by (simp add: weight_def)

lemma weight_eq_sum:
  assumes "distinct (map fst t)"
  shows "weight f t = (\<Sum>k\<in>dom (map_of t). f k (the (map_of t k)))"
  using assms
proof (induction t)
  case Nil
  then show ?case by simp
next
  case (Cons r t)
  obtain k v where r: "r = (k, v)" by fastforce
  with Cons.prems have k: "k \<notin> dom (map_of t)" by (simp add: dom_map_of_conv_image_fst)
  have "(\<Sum>x\<in>dom (map_of t). f x (the (map_of (r # t) x))) = (\<Sum>x\<in>dom (map_of t). f x (the (map_of t x)))"
    using k r by (intro sum.cong) auto
  moreover have "dom (map_of (r # t)) = insert k (dom (map_of t))" using r by simp
  ultimately show ?case
    using Cons k r by (simp add: weight_def finite_dom_map_of del: map_of.simps) simp
qed

locale table =
  fixes ok :: "('k \<times> 'v) list \<Rightarrow> bool"
    and ins :: "'k \<Rightarrow> 'v \<Rightarrow> ('k \<times> 'v) list \<Rightarrow> ('k \<times> 'v) list"
    and del :: "'k \<Rightarrow> ('k \<times> 'v) list \<Rightarrow> ('k \<times> 'v) list"
  assumes distinct_keys: "ok t \<Longrightarrow> distinct (map fst t)"
    and ok_ins: "ok t \<Longrightarrow> ok (ins k v t)"
    and ok_del: "ok t \<Longrightarrow> ok (del k t)"
    and lookup_ins: "ok t \<Longrightarrow> map_of (ins k v t) = (map_of t)(k \<mapsto> v)"
    and lookup_del: "ok t \<Longrightarrow> map_of (del k t) = (map_of t)(k := None)"
begin

lemma weight_del:
  assumes "ok t"
  shows "weight f (del k t) + (case map_of t k of None \<Rightarrow> 0 | Some v \<Rightarrow> f k v) = weight f t"
proof -
  let ?g = "\<lambda>k. f k (the (map_of t k))"
  have "(\<Sum>x\<in>dom (map_of t) - {k}. f x (the (((map_of t)(k := None)) x))) = (\<Sum>x\<in>dom (map_of t) - {k}. ?g x)"
    by (intro sum.cong) auto
  then have d: "weight f (del k t) = sum ?g (dom (map_of t) - {k})"
    by (simp add: weight_eq_sum [OF distinct_keys [OF ok_del [OF assms]]] lookup_del [OF assms])
  have w: "weight f t = sum ?g (dom (map_of t))" using weight_eq_sum [OF distinct_keys [OF assms]] .
  show ?thesis
  proof (cases "map_of t k")
    case None
    then have "dom (map_of t) - {k} = dom (map_of t)" by auto
    with None d w show ?thesis by simp
  next
    case (Some v)
    then have "sum ?g (dom (map_of t)) = ?g k + sum ?g (dom (map_of t) - {k})"
      by (intro sum.remove) (auto simp: finite_dom_map_of)
    with Some d w show ?thesis by simp
  qed
qed

lemma weight_ins:
  assumes "ok t"
  shows "weight f (ins k v t) + (case map_of t k of None \<Rightarrow> 0 | Some v' \<Rightarrow> f k v') = weight f t + f k v"
proof -
  have i: "ok (ins k v t)" and d: "ok (del k t)" using assms by (simp_all add: ok_ins ok_del)
  have "dom (map_of (del k (ins k v t))) = dom (map_of (del k t))"
    "map_of (del k (ins k v t)) = map_of (del k t)"
    using assms i by (simp_all add: lookup_del lookup_ins)
  then have "weight f (del k (ins k v t)) = weight f (del k t)"
    by (simp only: weight_eq_sum [OF distinct_keys [OF ok_del [OF i]]] weight_eq_sum [OF distinct_keys [OF d]])
  with weight_del [OF i, of f k] weight_del [OF assms, of f k] show ?thesis
    using assms by (simp add: lookup_ins)
qed

lemma weight_row_le:
  assumes "ok t" and "map_of t k = Some v"
  shows "f k v \<le> weight f t"
  using weight_del [OF assms(1), of f k] assms(2) by simp

end

section \<open>Providers\<close>

lemma redb_keys: "fst ` set (redb_insert k v t) = insert k (fst ` set t)"
proof (induction t)
  case (Cons r t)
  then show ?case by (cases r) (simp add: insert_commute)
qed simp

lemma redb_ok_insert: "redb_ok t \<Longrightarrow> redb_ok (redb_insert k v t)"
proof (induction t)
  case Nil
  then show ?case by (simp add: redb_ok_def)
next
  case (Cons r t)
  obtain k' v' where r: "r = (k', v')" by fastforce
  from Cons have *: "redb_ok (redb_insert k v t)" "\<forall>x\<in>fst ` set t. k' < x" "redb_ok t"
    by (auto simp: redb_ok_def r)
  then show ?case
    using redb_keys [of k v t] by (auto simp: redb_ok_def r intro: less_trans)
qed

lemma redb_ok_filter: "redb_ok t \<Longrightarrow> redb_ok (filter P t)"
  by (induction t) (auto simp: redb_ok_def)

lemma map_of_redb_insert: "map_of (redb_insert k v t) = (map_of t)(k \<mapsto> v)"
  by (induction t) auto

lemma map_of_redb_remove: "map_of (redb_remove k t) = (map_of t)(k := None)"
  by (induction t) (auto simp: redb_remove_def)

interpretation redb: table redb_ok redb_insert redb_remove
proof
  fix t :: "('k::linorder \<times> 'v) list" and k :: 'k and v :: 'v
  show "redb_ok t \<Longrightarrow> distinct (map fst t)"
    by (simp add: redb_ok_def strict_sorted_iff)
  show "redb_ok t \<Longrightarrow> redb_ok (redb_insert k v t)" by (rule redb_ok_insert)
  show "redb_ok t \<Longrightarrow> redb_ok (redb_remove k t)" by (simp add: redb_remove_def redb_ok_filter)
  show "map_of (redb_insert k v t) = (map_of t)(k \<mapsto> v)" by (rule map_of_redb_insert)
  show "map_of (redb_remove k t) = (map_of t)(k := None)" by (rule map_of_redb_remove)
qed

interpretation hm: table hm_ok hm_insert AList.delete
proof
  fix t :: "('k \<times> 'v) list" and k :: 'k and v :: 'v
  show "hm_ok t \<Longrightarrow> hm_ok (AList.delete k t)"
    by (simp add: hm_ok_def distinct_delete)
  show "map_of (AList.delete k t) = (map_of t)(k := None)" by (rule delete_conv')
  show "hm_ok t \<Longrightarrow> distinct (map fst t)" by (simp add: hm_ok_def)
qed simp_all

lemma redb_range_rows:
  assumes "redb_ok t"
  shows "(k, v) \<in> set (redb_range lo hi t) \<longleftrightarrow> map_of t k = Some v \<and> lo \<le> k \<and> k < hi"
  using redb.distinct_keys [OF assms] by (auto simp: redb_range_def map_of_eq_Some_iff)

end
