(* ===== verification/Identifier.thy ===== *)
theory Identifier
  imports Entry Text
begin

text \<open>
  Inscription ids and sat points as text (\<open>src/inscription_id.rs\<close>, \<open>src/sat_point.rs\<close>). How a txid
  and an outpoint are printed and parsed is the bitcoin library's: it is the parameter \<open>txid_api\<close>,
  with its documented behaviour as the hypotheses \<open>txid_api_ok\<close> and \<open>outpoint_api_ok\<close>.
\<close>

section \<open>Hexadecimal text\<close>

definition hex_digit :: "nat \<Rightarrow> rchar" where
  "hex_digit n = (if n < 10 then 48 + n else 87 + n)"

definition hex_text :: "nat list \<Rightarrow> rchar list" where
  "hex_text bs = concat (map (\<lambda>b. [hex_digit (b div 16), hex_digit (b mod 16)]) bs)"

lemma hex_text_simps [simp]:
  "hex_text [] = []"
  "hex_text (b # bs) = hex_digit (b div 16) # hex_digit (b mod 16) # hex_text bs"
  by (simp_all add: hex_text_def)

lemma length_hex_text [simp]: "length (hex_text bs) = 2 * length bs"
  by (induction bs) simp_all

lemma hex_digit_inj: "a < 16 \<Longrightarrow> b < 16 \<Longrightarrow> hex_digit a = hex_digit b \<Longrightarrow> a = b"
  by (auto simp: hex_digit_def split: if_splits)

lemma hex_digit_range: "n < 16 \<Longrightarrow> 48 \<le> hex_digit n \<and> hex_digit n \<le> 102 \<and> hex_digit n \<noteq> 95"
  by (auto simp: hex_digit_def)

lemma hex_text_range:
  "\<forall>b\<in>set bs. b < 256 \<Longrightarrow> c \<in> set (hex_text bs) \<Longrightarrow> 48 \<le> c \<and> c \<le> 102 \<and> c \<noteq> 95"
proof (induction bs)
  case (Cons b bs)
  then have "b div 16 < 16" "b mod 16 < 16" by auto
  with Cons show ?case using hex_digit_range by auto
qed simp

lemma hex_text_inj:
  assumes "\<forall>b\<in>set as. b < 256" and "\<forall>b\<in>set bs. b < 256" and "hex_text as = hex_text bs"
  shows "as = bs"
  using assms
proof (induction as arbitrary: bs)
  case Nil
  then show ?case by (cases bs) simp_all
next
  case (Cons a as)
  then obtain b bs' where bs: "bs = b # bs'" by (cases bs) auto
  have a: "a div 16 < 16" and b: "b div 16 < 16" using Cons.prems(1,2) bs by auto
  have "hex_digit (a div 16) = hex_digit (b div 16) \<and> hex_digit (a mod 16) = hex_digit (b mod 16)"
    using Cons.prems(3) by (simp only: bs hex_text_simps list.inject)
  moreover have "a mod 16 < 16" "b mod 16 < 16" by simp_all
  ultimately have "a div 16 = b div 16" "a mod 16 = b mod 16"
    using a b hex_digit_inj by blast+
  then have "a = b" using div_mult_mod_eq [of a 16] div_mult_mod_eq [of b 16] by linarith
  moreover have "as = bs'"
    using Cons.prems bs by (intro Cons.IH) simp_all
  ultimately show ?case using bs by simp
qed

section \<open>Model\<close>

record txid_api =
  txid_to_string :: "txid \<Rightarrow> rchar list"
  txid_from_str :: "rchar list \<Rightarrow> txid option"
  outpoint_to_string :: "outpoint \<Rightarrow> rchar list"
  outpoint_from_str :: "rchar list \<Rightarrow> outpoint option"

text \<open>A txid is printed in hexadecimal, last byte first, and the parser reads that back.\<close>

definition txid_api_ok :: "txid_api \<Rightarrow> bool" where
  "txid_api_ok A \<longleftrightarrow>
    (\<forall>t. length t = 32 \<longrightarrow> txid_to_string A t = hex_text (map unat (rev t)) \<and>
       txid_from_str A (txid_to_string A t) = Some t)"

definition outpoint_api_ok :: "txid_api \<Rightarrow> bool" where
  "outpoint_api_ok A \<longleftrightarrow>
    (\<forall>p. length (op_txid p) = 32 \<and> op_vout p \<le> u32_max \<longrightarrow>
       outpoint_from_str A (outpoint_to_string A p) = Some p)"

definition inscription_id_to_string :: "txid_api \<Rightarrow> inscription_id \<Rightarrow> rchar list" where
  "inscription_id_to_string A i = txid_to_string A (ii_txid i) @ [105] @ show_nat (ii_index i)"

datatype id_parse_error =
  IdCharacter rchar | IdLength usize | IdSeparator rchar | IdTxid "rchar list" | IdIndex "rchar list" | IdPanic rust_panic

definition TXID_LEN :: usize where "TXID_LEN = 64"

definition MIN_LEN :: usize where "MIN_LEN = TXID_LEN + 2"

definition inscription_id_from_str :: "txid_api \<Rightarrow> rchar list \<Rightarrow> id_parse_error + inscription_id" where
  "inscription_id_from_str A s =
    (case List.find (\<lambda>c. 128 \<le> c) s of
       Some c \<Rightarrow> Inl (IdCharacter c)
     | None \<Rightarrow>
         if length s < MIN_LEN then Inl (IdLength (length s))
         else
           let txid = take TXID_LEN s
           in res_bind (lift_panic IdPanic (unwrap (slice_get s TXID_LEN))) (\<lambda>separator.
              if separator \<noteq> 105 then Inl (IdSeparator separator)
              else
                let vout = drop (TXID_LEN + 1) s
                in res_bind (ok_or (IdTxid txid) (txid_from_str A txid)) (\<lambda>t.
                   res_bind (ok_or (IdIndex vout) (parse_uint u32_max vout)) (\<lambda>n.
                   Inr \<lparr>ii_txid = t, ii_index = n\<rparr>))))"

record sat_point =
  sp_outpoint :: outpoint
  sp_offset :: u64

definition sat_point_to_string :: "txid_api \<Rightarrow> sat_point \<Rightarrow> rchar list" where
  "sat_point_to_string A p = outpoint_to_string A (sp_outpoint p) @ [58] @ show_nat (sp_offset p)"

definition sat_point_from_str :: "txid_api \<Rightarrow> rchar list \<Rightarrow> sat_point option" where
  "sat_point_from_str A s =
    Option.bind (rsplit_once 58 s) (\<lambda>(outpoint, offset).
    Option.bind (outpoint_from_str A outpoint) (\<lambda>p.
    Option.bind (parse_uint u64_max offset) (\<lambda>n.
    Some \<lparr>sp_outpoint = p, sp_offset = n\<rparr>)))"

section \<open>Properties\<close>

lemma unat_bytes: "\<forall>b\<in>set (map unat (bs :: byte list)). b < 256"
  by simp

lemma inscription_id_text_no_sep:
  assumes "txid_api_ok A" and "length (ii_txid i) = 32"
  shows "95 \<notin> set (inscription_id_to_string A i)"
proof -
  have "95 \<notin> set (hex_text (map unat (rev (ii_txid i))))"
    using hex_text_range [OF unat_bytes, of 95 "rev (ii_txid i)"] by blast
  then show ?thesis
    using assms show_nat_no_sep [of 95 "ii_index i"] by (simp add: txid_api_ok_def inscription_id_to_string_def)
qed

text \<open>
  Inscription ids and sat points survive their text. An inscription id with a 32-byte txid and a
  32-bit index is read back from what is printed for it, and so is a sat point with a 64-bit offset;
  a text of fewer than 66 characters, or without the \<open>i\<close> after the txid, is never an inscription id.
\<close>

theorem identifier_text_round_trip:
  assumes "txid_api_ok A" and "outpoint_api_ok A"
    and "length (ii_txid i) = 32" and "ii_index i \<le> u32_max"
    and "length (op_txid (sp_outpoint p)) = 32" and "op_vout (sp_outpoint p) \<le> u32_max"
    and "sp_offset p \<le> u64_max"
  shows "inscription_id_from_str A (inscription_id_to_string A i) = Inr i \<and>
    sat_point_from_str A (sat_point_to_string A p) = Some p \<and>
    (\<forall>s j. inscription_id_from_str A s = Inr j \<longrightarrow> 66 \<le> length s \<and> s ! 64 = 105)"
proof (intro conjI allI impI)
  let ?t = "txid_to_string A (ii_txid i)" and ?n = "show_nat (ii_index i)"
  have t: "?t = hex_text (map unat (rev (ii_txid i)))" "txid_from_str A ?t = Some (ii_txid i)"
    using assms(1,3) unfolding txid_api_ok_def by blast+
  then have len: "length ?t = 64" using assms(3) by simp
  have "\<forall>c\<in>set (?t @ [105] @ ?n). c < 128"
    using hex_text_range [OF unat_bytes, of _ "rev (ii_txid i)"] show_nat_digits [of _ "ii_index i"] t(1)
    by fastforce
  then have "List.find (\<lambda>c. 128 \<le> c) (?t @ [105] @ ?n) = None"
    unfolding find_None_iff by (auto simp: not_le)
  then show "inscription_id_from_str A (inscription_id_to_string A i) = Inr i"
    using len t(2) assms(4)
    by (simp add: inscription_id_from_str_def inscription_id_to_string_def MIN_LEN_def TXID_LEN_def
        slice_get_def nth_append unwrap_def not_less Suc_le_eq)
  show "sat_point_from_str A (sat_point_to_string A p) = Some p"
    using assms show_nat_no_sep [of 58 "sp_offset p"]
    by (simp add: sat_point_from_str_def sat_point_to_string_def rsplit_once_last outpoint_api_ok_def)
next
  fix s j
  assume "inscription_id_from_str A s = Inr j"
  then show "66 \<le> length s" "s ! 64 = 105"
    by (auto simp: inscription_id_from_str_def MIN_LEN_def TXID_LEN_def Let_def checked_defs
        split: option.splits if_splits)
qed

text \<open>Functions with the documented behaviour.\<close>

definition hex_value :: "rchar \<Rightarrow> nat" where
  "hex_value c = (if c \<le> 57 then c - 48 else c - 87)"

fun unhex :: "rchar list \<Rightarrow> byte list" where
  "unhex (a # b # cs) = of_nat (16 * hex_value a + hex_value b) # unhex cs"
| "unhex cs = []"

lemma hex_value_digit: "n < 16 \<Longrightarrow> hex_value (hex_digit n) = n"
  by (auto simp: hex_value_def hex_digit_def)

lemma unhex_text: "unhex (hex_text (map unat (bs :: byte list))) = bs"
proof (induction bs)
  case (Cons b bs)
  have "unat b div 16 < 16" by (simp add: less_mult_imp_div_less)
  with Cons show ?case by (simp add: hex_value_digit)
qed simp

definition hex_api :: txid_api where
  "hex_api = \<lparr>
    txid_to_string = (\<lambda>t. hex_text (map unat (rev t))),
    txid_from_str = (\<lambda>s. if length s = 64 then Some (rev (unhex s)) else None),
    outpoint_to_string = (\<lambda>p. hex_text (map unat (rev (op_txid p))) @ [58] @ show_nat (op_vout p)),
    outpoint_from_str = (\<lambda>s. Option.bind (rsplit_once 58 s) (\<lambda>(t, n).
      Option.bind (parse_uint u32_max n) (\<lambda>v. Some \<lparr>op_txid = rev (unhex t), op_vout = v\<rparr>)))\<rparr>"

lemma hex_api_ok: "txid_api_ok hex_api" "outpoint_api_ok hex_api"
  by (simp_all add: txid_api_ok_def outpoint_api_ok_def hex_api_def unhex_text rsplit_once_last show_nat_no_sep)

theorem identifier_text_round_trip_witness:
  "inscription_id_from_str hex_api (inscription_id_to_string hex_api \<lparr>ii_txid = zero_txid, ii_index = 7\<rparr>) =
     Inr \<lparr>ii_txid = zero_txid, ii_index = 7\<rparr> \<and>
   sat_point_from_str hex_api (sat_point_to_string hex_api
     \<lparr>sp_outpoint = \<lparr>op_txid = zero_txid, op_vout = 1\<rparr>, sp_offset = 5\<rparr>) =
     Some \<lparr>sp_outpoint = \<lparr>op_txid = zero_txid, op_vout = 1\<rparr>, sp_offset = 5\<rparr>"
  using identifier_text_round_trip [OF hex_api_ok, of "\<lparr>ii_txid = zero_txid, ii_index = 7\<rparr>"
      "\<lparr>sp_outpoint = \<lparr>op_txid = zero_txid, op_vout = 1\<rparr>, sp_offset = 5\<rparr>"]
  by (simp add: zero_txid_def width_defs)

end
