(* ===== verification/Inscription.thy ===== *)
theory Inscription
  imports Entry Text
begin

text \<open>
  Inscriptions in scriptSigs (\<open>src/inscription.rs\<close>, \<open>src/tag.rs\<close>, \<open>src/media.rs\<close>). A script is decoded
  into data pushes, by the decoder that decides which scripts are inscriptions (it misreads the
  length of PUSHDATA2 and PUSHDATA4) or by the one that follows Dogecoin Core; the pushes of a chain
  of transactions are then assembled into an inscription: protocol id, number of pieces, content
  type, then the pieces counted down to zero, then optional fields. Scripts are their bytes.
\<close>

section \<open>Fields\<close>

datatype itag =
  ParentTag | MetadataTag | MetaprotocolTag | ContentEncodingTag | DelegateTag | NoteTag | NopTag

fun itag_code :: "itag \<Rightarrow> byte" where
  "itag_code ParentTag = 3"
| "itag_code MetadataTag = 5"
| "itag_code MetaprotocolTag = 7"
| "itag_code ContentEncodingTag = 9"
| "itag_code DelegateTag = 11"
| "itag_code NoteTag = 15"
| "itag_code NopTag = 255"

definition itag_chunked :: "itag \<Rightarrow> bool" where
  "itag_chunked t \<longleftrightarrow> t = MetadataTag"

definition itag_bytes :: "itag \<Rightarrow> byte list" where
  "itag_bytes t = [itag_code t]"

type_synonym field_map = "(byte list \<times> byte list list) list"

definition itag_take :: "itag \<Rightarrow> field_map \<Rightarrow> byte list option \<times> field_map" where
  "itag_take t fs =
    (case map_of fs (itag_bytes t) of
       None \<Rightarrow> (None, fs)
     | Some values \<Rightarrow>
         if itag_chunked t then
           (if values = [] then None else Some (concat values), AList.delete (itag_bytes t) fs)
         else
           (case values of
              [] \<Rightarrow> (None, fs)
            | v # rest \<Rightarrow>
                (Some v, if rest = [] then AList.delete (itag_bytes t) fs else AList.update (itag_bytes t) rest fs)))"

section \<open>Inscriptions\<close>

definition PROTOCOL_ID :: "byte list" where
  "PROTOCOL_ID = [0x6f, 0x72, 0x64]"

record inscription =
  i_body :: "byte list option"
  i_content_type :: "byte list option"
  i_delegate :: "byte list option"

datatype parsed_inscription = ParsedNone | Partial | Complete inscription

definition inscription_id_field :: "byte list option \<Rightarrow> inscription_id option" where
  "inscription_id_field field =
    (case field of
       None \<Rightarrow> None
     | Some v \<Rightarrow>
         if length v < 32 then None
         else if length v > 32 + 4 then None
         else
           let txid = take 32 v; index = drop 32 v
           in if index \<noteq> [] \<and> length index \<noteq> 4 \<and> last index = 0 then None
              else
                let at = (\<lambda>n. case slice_get index n of Some b \<Rightarrow> b | None \<Rightarrow> 0)
                in Some \<lparr>ii_txid = txid, ii_index = from_le [at 0, at 1, at 2, at 3]\<rparr>)"

definition inscription_delegate :: "inscription \<Rightarrow> inscription_id option" where
  "inscription_delegate i = inscription_id_field (i_delegate i)"

definition content_length :: "inscription \<Rightarrow> usize option" where
  "content_length i = map_option length (i_body i)"

text \<open>The reveal script, as the instructions handed to the builder.\<close>

definition append_reveal_script :: "inscription \<Rightarrow> instruction list" where
  "append_reveal_script i =
    [Op 0, Op 0x63, PushBytes PROTOCOL_ID] @
    (case i_content_type i of None \<Rightarrow> [] | Some t \<Rightarrow> [PushBytes [1], PushBytes t]) @
    (case i_body i of None \<Rightarrow> [] | Some body \<Rightarrow> PushBytes [] # map PushBytes (chunks 520 body)) @
    [Op 0x68]"

section \<open>Push decoders\<close>

function decode_push_datas :: "byte list \<Rightarrow> byte list list option" where
  "decode_push_datas [] = Some []"
| "decode_push_datas (b # bs) =
    (let op = unat b; bytes = b # bs
     in if op = 0 then map_option ((#) []) (decode_push_datas bs)
        else if 81 \<le> op \<and> op \<le> 96 then map_option ((#) [b - 80]) (decode_push_datas bs)
        else if 1 \<le> op \<and> op \<le> 75 then
          (if length bytes < 1 + op then None
           else map_option ((#) (take op bs)) (decode_push_datas (drop op bs)))
        else if op = 76 then
          (if length bytes < 2 then None
           else let len = unat (bytes ! 1)
                in if length bytes < 2 + len then None
                   else map_option ((#) (take len (drop 1 bs))) (decode_push_datas (drop (1 + len) bs)))
        else if op = 77 then
          (if length bytes < 3 then None
           else let len = push_bit 8 (unat (bytes ! 1)) + unat (bytes ! 0)
                in if length bytes < 3 + len then None
                   else map_option ((#) (take len (drop 2 bs))) (decode_push_datas (drop (2 + len) bs)))
        else if op = 78 then
          (if length bytes < 5 then None
           else let len = push_bit 24 (unat (bytes ! 3)) + push_bit 16 (unat (bytes ! 2)) +
                          push_bit 8 (unat (bytes ! 1)) + unat (bytes ! 0)
                in if u64_max < 5 + len then None
                   else if length bytes < 5 + len then None
                   else map_option ((#) (take len (drop 4 bs))) (decode_push_datas (drop (4 + len) bs)))
        else None)"
  by pat_completeness auto
termination
  by (relation "measure length") (auto simp: Let_def)

text \<open>The header of a push in the strict decoder: its length and the length of the payload.\<close>

definition strict_header :: "byte list \<Rightarrow> (usize \<times> usize) option" where
  "strict_header bytes =
    (let op = unat (bytes ! 0);
         at = (\<lambda>n. slice_get bytes n)
     in if op = 0 then Some (1, 0)
        else if op \<le> 75 then Some (1, op)
        else if op = 76 then map_option (\<lambda>b1. (2, unat b1)) (at 1)
        else if op = 77 then
          Option.bind (at 1) (\<lambda>b1. Option.bind (at 2) (\<lambda>b2. Some (3, from_le [b1, b2])))
        else if op = 78 then
          Option.bind (at 1) (\<lambda>b1. Option.bind (at 2) (\<lambda>b2. Option.bind (at 3) (\<lambda>b3. Option.bind (at 4) (\<lambda>b4.
            Some (5, from_le [b1, b2, b3, b4])))))
        else None)"

lemma strict_header_pos: "strict_header bytes = Some (h, n) \<Longrightarrow> 0 < h"
  by (auto simp: strict_header_def Let_def split: if_splits bind_splits)

function decode_push_datas_strict :: "byte list \<Rightarrow> byte list list option" where
  "decode_push_datas_strict [] = Some []"
| "decode_push_datas_strict (b # bs) =
    (if 81 \<le> unat b \<and> unat b \<le> 96 then map_option ((#) [b - 80]) (decode_push_datas_strict bs)
     else
       (case strict_header (b # bs) of
          None \<Rightarrow> None
        | Some (header, len) \<Rightarrow>
            if u64_max < header + len then None
            else if length (b # bs) < header + len then None
            else map_option ((#) (take len (drop header (b # bs))))
              (decode_push_datas_strict (drop (header + len) (b # bs)))))"
  by pat_completeness auto
termination
  by (relation "measure length") (auto dest!: strict_header_pos)

declare decode_push_datas.simps(2) [simp del] decode_push_datas_strict.simps(2) [simp del]

section \<open>The parser\<close>

fun push_number_loop :: "byte list \<Rightarrow> u64 \<Rightarrow> nat \<Rightarrow> u64" where
  "push_number_loop [] n m = n"
| "push_number_loop (b # bs) n m = push_number_loop bs (n + push_bit m (unat b)) (m + 8)"

definition push_data_to_number :: "byte list \<Rightarrow> u64 option" where
  "push_data_to_number data =
    (if length data = 0 then Some 0
     else if length data > 8 then None
     else Some (push_number_loop data 0 0))"

text \<open>The loop over chunks: it ends with no pieces missing, or where the pushes do not continue.\<close>

fun pieces_loop :: "u64 \<Rightarrow> byte list list \<Rightarrow> byte list \<Rightarrow> u64 \<times> byte list list \<times> byte list" where
  "pieces_loop npieces (k # d # rest) body =
    (if npieces = 0 then (npieces, k # d # rest, body)
     else (case push_data_to_number k of
             None \<Rightarrow> (npieces, k # d # rest, body)
           | Some n \<Rightarrow>
               if n \<noteq> npieces - 1 then (npieces, k # d # rest, body)
               else pieces_loop (npieces - 1) rest (body @ d)))"
| "pieces_loop npieces push_datas body = (npieces, push_datas, body)"

fun collect_fields :: "byte list list \<Rightarrow> field_map \<Rightarrow> field_map" where
  "collect_fields (key # v # rest) fs =
    (if length key \<noteq> 1 then fs
     else collect_fields rest
       (AList.update key ((case map_of fs key of None \<Rightarrow> [] | Some vs \<Rightarrow> vs) @ [v]) fs))"
| "collect_fields _ fs = fs"

text \<open>The loop over transactions; the last argument is \<open>sig_scripts[1..]\<close>.\<close>

fun parse_loop :: "('s \<Rightarrow> byte list list option) \<Rightarrow> byte list \<Rightarrow> u64 \<Rightarrow> byte list list \<Rightarrow> byte list \<Rightarrow>
    's list \<Rightarrow> parsed_inscription \<times> usize" where
  "parse_loop dec content_type npieces push_datas body sig_scripts =
    (case pieces_loop npieces push_datas body of (npieces, push_datas, body) \<Rightarrow>
      if npieces = 0 then
        (Complete \<lparr>i_body = Some body, i_content_type = Some content_type,
           i_delegate = fst (itag_take DelegateTag (collect_fields push_datas []))\<rparr>, length body)
      else
        (case sig_scripts of
           [] \<Rightarrow> (Partial, length body)
         | s # rest \<Rightarrow>
             (case dec s of
                None \<Rightarrow> (ParsedNone, length body)
              | Some push_datas \<Rightarrow>
                  if length push_datas < 2 then (ParsedNone, length body)
                  else
                    (case push_data_to_number (push_datas ! 0) of
                       None \<Rightarrow> (ParsedNone, length body)
                     | Some n \<Rightarrow>
                         if n \<noteq> npieces - 1 then (ParsedNone, length body)
                         else parse_loop dec content_type npieces push_datas body rest))))"

declare parse_loop.simps [simp del]

definition parse_with :: "'s list \<Rightarrow> ('s \<Rightarrow> byte list list option) \<Rightarrow> parsed_inscription \<times> usize" where
  "parse_with sig_scripts dec =
    (case sig_scripts of
       [] \<Rightarrow> (ParsedNone, 0)
     | sig_script # rest \<Rightarrow>
         (case dec sig_script of
            None \<Rightarrow> (ParsedNone, 0)
          | Some push_datas \<Rightarrow>
              if length push_datas < 3 then (ParsedNone, 0)
              else if push_datas ! 0 \<noteq> PROTOCOL_ID then (ParsedNone, 0)
              else
                (case push_data_to_number (push_datas ! 1) of
                   None \<Rightarrow> (ParsedNone, 0)
                 | Some npieces \<Rightarrow>
                     if npieces = 0 then (ParsedNone, 0)
                     else parse_loop dec (push_datas ! 2) npieces (drop 3 push_datas) [] rest)))"

definition parse_script_sigs_compat :: "byte list list \<Rightarrow> parsed_inscription" where
  "parse_script_sigs_compat sig_scripts = fst (parse_with sig_scripts decode_push_datas)"

definition parse_script_sigs_strict :: "byte list list \<Rightarrow> parsed_inscription" where
  "parse_script_sigs_strict sig_scripts = fst (parse_with sig_scripts decode_push_datas_strict)"

text \<open>A transaction is here the list of its inputs' scriptSigs.\<close>

fun first_sig_scripts :: "byte list list list \<Rightarrow> byte list list option" where
  "first_sig_scripts [] = Some []"
| "first_sig_scripts (inputs # txs) =
    (case inputs of [] \<Rightarrow> None | s # _ \<Rightarrow> map_option ((#) s) (first_sig_scripts txs))"

definition from_transactions :: "byte list list list \<Rightarrow> parsed_inscription" where
  "from_transactions txs =
    (case first_sig_scripts txs of
       None \<Rightarrow> ParsedNone
     | Some sig_scripts \<Rightarrow> fst (parse_with sig_scripts decode_push_datas))"

definition parse_first_part :: "byte list list \<Rightarrow> parsed_inscription \<times> usize" where
  "parse_first_part inputs =
    (case inputs of [] \<Rightarrow> (ParsedNone, 0) | s # _ \<Rightarrow> parse_with [s] decode_push_datas)"

section \<open>Media types\<close>

datatype media = Audio | Iframe | Image | Model | Pdf | Text_Media | Unknown | Video

definition media_table :: "(string \<times> media \<times> string list) list" where
  "media_table =
    [(''application/json'', Text_Media, [''json'']),
     (''application/pdf'', Pdf, [''pdf'']),
     (''application/pgp-signature'', Text_Media, [''asc'']),
     (''application/yaml'', Text_Media, [''yaml'', ''yml'']),
     (''application/octet-stream'', Unknown, [''bin'']),
     (''audio/flac'', Audio, [''flac'']),
     (''audio/mpeg'', Audio, [''mp3'']),
     (''audio/wav'', Audio, [''wav'']),
     (''image/apng'', Image, [''apng'']),
     (''image/avif'', Image, []),
     (''image/gif'', Image, [''gif'']),
     (''image/jpeg'', Image, [''jpg'', ''jpeg'']),
     (''image/png'', Image, [''png'']),
     (''image/svg+xml'', Iframe, [''svg'']),
     (''image/webp'', Image, [''webp'']),
     (''model/gltf+json'', Model, [''gltf'']),
     (''model/gltf-binary'', Model, [''glb'']),
     (''model/gltf-binary'', Unknown, [''glb'']),
     (''model/stl'', Unknown, [''stl'']),
     (''text/html;charset=utf-8'', Iframe, [''html'']),
     (''text/html;charset=utf8'', Iframe, [''html'']),
     (''text/html;charset=UTF-8'', Iframe, [''html'']),
     (''text/html;charset=UTF8'', Iframe, [''html'']),
     (''text/plain;charset=utf8'', Text_Media, [''txt'']),
     (''text/plain;charset=utf-8'', Text_Media, [''txt'']),
     (''text/plain;charset=UTF-8'', Text_Media, [''txt'']),
     (''text/plain;charset=UTF8'', Text_Media, [''txt'']),
     (''text/plain'', Text_Media, [''txt'']),
     (''video/mp4'', Video, [''mp4'']),
     (''video/webm'', Video, [''webm''])]"

definition media_from_str :: "string \<Rightarrow> media option" where
  "media_from_str s = map_option (fst \<circ> snd) (List.find (\<lambda>entry. fst entry = s) media_table)"

text \<open>\<open>content_type_for_path\<close> from the lower-case extension on; the codec check of an mp4 file is input.\<close>

definition content_type_for_extension :: "string \<Rightarrow> bool \<Rightarrow> string option" where
  "content_type_for_extension extension mp4_ok =
    (if extension = ''mp4'' \<and> \<not> mp4_ok then None
     else map_option fst (List.find (\<lambda>entry. extension \<in> set (snd (snd entry))) media_table))"

section \<open>Numbers and pieces\<close>

lemma push_number_loop_le:
  "push_number_loop bs n (8 * j) = n + 2 ^ (8 * j) * from_le bs"
proof (induction bs arbitrary: n j)
  case Nil
  show ?case by simp
next
  case (Cons b bs)
  have "push_number_loop bs (n + push_bit (8 * j) (unat b)) (8 * Suc j) =
      n + push_bit (8 * j) (unat b) + 2 ^ (8 * Suc j) * from_le bs" by (rule Cons.IH)
  then show ?case by (simp add: push_bit_eq_mult power_add algebra_simps)
qed

lemma push_data_to_number_le:
  "push_data_to_number data = (if length data \<le> 8 then Some (from_le data) else None)"
  using push_number_loop_le [of data 0 0] by (auto simp: push_data_to_number_def)

lemma pieces_loop_0 [simp]: "pieces_loop 0 ps body = (0, ps, body)"
  by (cases ps rule: remdups_adj.cases) auto

lemma pieces_loop_prefix:
  "pieces_loop n ps (a @ b) = (case pieces_loop n ps b of (n', ps', x) \<Rightarrow> (n', ps', a @ x))"
proof (induction n ps b rule: pieces_loop.induct)
  case (1 npieces k d rest body)
  then show ?case by (simp split: option.splits)
qed simp_all

lemma pieces_loop_body:
  assumes "pieces_loop n ps body = (n', ps', body')"
  shows "\<exists>x. body' = body @ x"
  using pieces_loop_prefix [of n ps body "[]"] assms by (auto split: prod.splits)

lemma parse_loop_length:
  assumes "parse_loop dec ct n ps body ss = (r, len)"
  shows "length body \<le> len" and "r = Complete ins \<Longrightarrow> \<exists>b. i_body ins = Some (body @ b) \<and> length (body @ b) = len"
proof -
  have "length body \<le> len \<and> (\<forall>ins. r = Complete ins \<longrightarrow> (\<exists>b. i_body ins = Some (body @ b) \<and> length (body @ b) = len))"
    using assms
  proof (induction ss arbitrary: n ps body)
    case Nil
    obtain n' ps' body' where p: "pieces_loop n ps body = (n', ps', body')" by (metis prod.exhaust)
    obtain x where "body' = body @ x" using pieces_loop_body [OF p] by blast
    with Nil p show ?case by (auto simp: parse_loop.simps [of dec ct n] split: if_splits)
  next
    case (Cons s ss)
    obtain n' ps' body' where p: "pieces_loop n ps body = (n', ps', body')" by (metis prod.exhaust)
    obtain x where x: "body' = body @ x" using pieces_loop_body [OF p] by blast
    from Cons.prems p consider "r = ParsedNone" "len = length body'"
      | "length body' = len" "\<forall>ins. r = Complete ins \<longrightarrow> i_body ins = Some body'"
      | ps1 where "parse_loop dec ct n' ps1 body' ss = (r, len)"
      by (auto simp: parse_loop.simps [of dec ct n] split: if_splits option.splits)
    then show ?case
    proof cases
      case 3
      from Cons.IH [OF this] show ?thesis unfolding x by auto
    qed (auto simp: x)
  qed
  then show "length body \<le> len" and "r = Complete ins \<Longrightarrow> \<exists>b. i_body ins = Some (body @ b) \<and> length (body @ b) = len"
    by auto
qed

lemma parse_loop_alone:
  "snd (parse_loop dec ct n ps body []) \<le> snd (parse_loop dec ct n ps body ss)"
proof -
  obtain n' ps' body' where p: "pieces_loop n ps body = (n', ps', body')" by (metis prod.exhaust)
  have "length body' \<le> snd (parse_loop dec ct n' ps1 body' rest)" for ps1 rest
    using parse_loop_length(1) [of dec ct n' ps1 body' rest] by (metis prod.collapse)
  with p show ?thesis
    by (auto simp: parse_loop.simps [of dec ct n] split: list.splits option.splits)
qed

section \<open>Reassembly\<close>

text \<open>The pushes of the pieces \<open>ds\<close>, counted down from \<open>n\<close>, and their distribution over a chain of scripts.\<close>

fun countdown :: "(nat \<Rightarrow> byte list) \<Rightarrow> nat \<Rightarrow> byte list list \<Rightarrow> byte list list" where
  "countdown num n [] = []"
| "countdown num n (d # ds) = num (n - 1) # d # countdown num (n - 1) ds"

fun chain_pushes :: "(nat \<Rightarrow> byte list) \<Rightarrow> nat \<Rightarrow> byte list list list \<Rightarrow> byte list list \<Rightarrow> byte list list list" where
  "chain_pushes num n [] tail = []"
| "chain_pushes num n [g] tail = [countdown num n g @ tail]"
| "chain_pushes num n (g # h # gs) tail = countdown num n g # chain_pushes num (n - length g) (h # gs) tail"

lemma pieces_countdown:
  assumes "\<forall>k<n. push_data_to_number (num k) = Some k" and "length g \<le> n"
  shows "pieces_loop n (countdown num n g @ rest) body = pieces_loop (n - length g) rest (body @ concat g)"
  using assms
proof (induction g arbitrary: n body)
  case Nil
  show ?case by simp
next
  case (Cons d g)
  have "pieces_loop n (countdown num n (d # g) @ rest) body = pieces_loop (n - 1) (countdown num (n - 1) g @ rest) (body @ d)"
    using Cons.prems by simp
  also have "\<dots> = pieces_loop (n - 1 - length g) rest (body @ d @ concat g)"
    using Cons.IH [of "n - 1" "body @ d"] Cons.prems by simp
  finally show ?case using Cons.prems by simp
qed

lemma parse_chain:
  assumes "\<forall>k<n. push_data_to_number (num k) = Some k" and "n = length (concat (g # gs))"
    and "\<forall>h\<in>set gs. h \<noteq> []" and "chain_pushes num n (g # gs) tail = p # ps" and "map dec ss = map Some ps"
  shows "parse_loop dec ct n p body ss =
    (Complete \<lparr>i_body = Some (body @ concat (concat (g # gs))), i_content_type = Some ct,
       i_delegate = fst (itag_take DelegateTag (collect_fields tail []))\<rparr>, length (body @ concat (concat (g # gs))))"
  using assms
proof (induction gs arbitrary: g n p ps ss body)
  case Nil
  then have "p = countdown num n g @ tail" "n = length g" by auto
  with pieces_countdown [OF Nil.prems(1), of g tail body] show ?case
    by (simp add: parse_loop.simps [of dec ct "length g"])
next
  case (Cons h gs)
  let ?n = "n - length g"
  have p: "p = countdown num n g" and ps: "ps = chain_pushes num ?n (h # gs) tail" using Cons.prems(4) by auto
  obtain q qs where q: "ps = q # qs" unfolding ps by (cases gs) auto
  with Cons.prems(5) obtain s1 ss1 where ss: "ss = s1 # ss1" "dec s1 = Some q" "map dec ss1 = map Some qs"
    by (cases ss) auto
  have n: "?n = length (concat (h # gs))" "length g \<le> n" "0 < ?n" using Cons.prems(2,3) by auto
  have q0: "2 \<le> length q" "q ! 0 = num (?n - 1)"
    using q Cons.prems(3) unfolding ps by (cases gs; cases h; auto)+
  have "pieces_loop n p body = (?n, [], body @ concat g)"
    using pieces_countdown [OF Cons.prems(1) n(2), of "[]" body] p by simp
  then have "parse_loop dec ct n p body ss = parse_loop dec ct ?n q (body @ concat g) ss1"
    using n(3) q0 ss Cons.prems(1) by (simp add: parse_loop.simps [of dec ct n])
  also have "\<dots> = (Complete \<lparr>i_body = Some ((body @ concat g) @ concat (concat (h # gs))), i_content_type = Some ct,
       i_delegate = fst (itag_take DelegateTag (collect_fields tail []))\<rparr>,
       length ((body @ concat g) @ concat (concat (h # gs))))"
    using Cons.prems(1,3) n(1) q ps ss(3) by (intro Cons.IH) auto
  finally show ?case by simp
qed

section \<open>Pushes in a script\<close>

text \<open>The push of a slice as the bitcoin script format has it.\<close>

definition push_slice :: "byte list \<Rightarrow> byte list" where
  "push_slice d =
    (if length d \<le> 75 then of_nat (length d) # d
     else if length d \<le> 255 then 76 # of_nat (length d) # d
     else if length d \<le> 65535 then 77 # le_bytes 2 (length d) @ d
     else 78 # le_bytes 4 (length d) @ d)"

lemma le_bytes_2: "le_bytes 2 n = [of_nat (n mod 256), of_nat (n div 256 mod 256)]"
  by (simp add: numeral_2_eq_2)

lemma le_bytes_4: "le_bytes 4 n = [of_nat (n mod 256), of_nat (n div 256 mod 256), of_nat (n div 256 div 256 mod 256),
    of_nat (n div 256 div 256 div 256 mod 256)]"
proof -
  have "(4 :: nat) = Suc (Suc (Suc (Suc 0)))" by simp
  then show ?thesis by (simp only: le_bytes.simps)
qed

lemma strict_step:
  assumes "hdr \<noteq> []" and "\<not> (81 \<le> unat (hd hdr) \<and> unat (hd hdr) \<le> 96)"
    and "strict_header (hdr @ d @ rest) = Some (length hdr, length d)" and "length hdr + length d \<le> u64_max"
  shows "decode_push_datas_strict (hdr @ d @ rest) = map_option ((#) d) (decode_push_datas_strict rest)"
proof -
  obtain b bs where hdr: "hdr = b # bs" using assms(1) by (cases hdr) auto
  have "take (length d) (drop (length hdr) (hdr @ d @ rest)) = d" "drop (length hdr + length d) (hdr @ d @ rest) = rest"
    by simp_all
  then show ?thesis
    using assms(2-4) unfolding hdr append_Cons decode_push_datas_strict.simps(2) by auto
qed

lemma strict_push_slice:
  assumes "length d < 2 ^ 32"
  shows "decode_push_datas_strict (push_slice d @ rest) = map_option ((#) d) (decode_push_datas_strict rest)"
proof -
  consider "length d \<le> 75" | "75 < length d" "length d \<le> 255" | "255 < length d" "length d \<le> 65535" | "65535 < length d"
    by linarith
  then show ?thesis
  proof cases
    case 1
    then show ?thesis
      using strict_step [of "[of_nat (length d)]" d rest]
      by (simp add: push_slice_def strict_header_def Let_def u64_max_def)
  next
    case 2
    then show ?thesis
      using strict_step [of "[76, of_nat (length d)]" d rest]
      by (simp add: push_slice_def strict_header_def Let_def slice_get_def u64_max_def)
  next
    case 3
    let ?h = "77 # le_bytes 2 (length d)"
    have n: "from_le (le_bytes 2 (length d)) = length d" using 3 by (simp add: from_le_bytes)
    have "strict_header (?h @ d @ rest) = Some (length ?h, length d)"
      using n unfolding le_bytes_2 by (simp add: strict_header_def Let_def slice_get_def)
    from strict_step [OF _ _ this] 3 show ?thesis by (simp add: push_slice_def u64_max_def)
  next
    case 4
    let ?h = "78 # le_bytes 4 (length d)"
    have n: "from_le (le_bytes 4 (length d)) = length d" using 4 assms by (simp add: from_le_bytes)
    have "strict_header (?h @ d @ rest) = Some (length ?h, length d)"
      using n unfolding le_bytes_4 by (simp add: strict_header_def Let_def slice_get_def)
    from strict_step [OF _ _ this] 4 assms show ?thesis by (simp add: push_slice_def u64_max_def)
  qed
qed

lemma compat_push_slice:
  assumes "length d \<le> 255"
  shows "decode_push_datas (push_slice d @ rest) = map_option ((#) d) (decode_push_datas rest)"
  using assms by (cases "length d = 0"; cases "length d \<le> 75")
    (auto simp: push_slice_def decode_push_datas.simps Let_def Suc_le_eq)

text \<open>
  The decoders read back what the script format writes: any list of slices up to \<open>2^32\<close> bytes
  for the strict one, and for the one that decides inscriptions any list of slices of at most
  255 bytes, the lengths for which it does not use PUSHDATA2 or PUSHDATA4.
\<close>

theorem push_decoders_round_trip:
  "((\<forall>d\<in>set ds. length d < 2 ^ 32) \<longrightarrow> decode_push_datas_strict (concat (map push_slice ds)) = Some ds) \<and>
   ((\<forall>d\<in>set ds. length d \<le> 255) \<longrightarrow> decode_push_datas (concat (map push_slice ds)) = Some ds)"
  by (induction ds) (simp_all add: strict_push_slice compat_push_slice)

theorem push_decoders_round_trip_witness:
  "decode_push_datas_strict (concat (map push_slice [[1, 2], replicate 300 7])) = Some [[1, 2], replicate 300 7] \<and>
   decode_push_datas (concat (map push_slice [[1, 2], []])) = Some [[1, 2], []]"
proof -
  note ex = push_decoders_round_trip [of "[[1, 2], replicate 300 7]"] push_decoders_round_trip [of "[[1, 2], []]"]
  show ?thesis using ex by (simp del: replicate.simps)
qed

text \<open>
  The two decoders differ only on PUSHDATA2 and PUSHDATA4: on every script without the bytes
  77 and 78 they give the same result.
\<close>

theorem push_decoders_agree:
  assumes "77 \<notin> set bs" and "78 \<notin> set bs"
  shows "decode_push_datas bs = decode_push_datas_strict bs"
  using assms
proof (induction bs rule: length_induct)
  case (1 bs)
  show ?case
  proof (cases bs)
    case Nil
    then show ?thesis by simp
  next
    case (Cons b cs)
    have IH: "decode_push_datas (drop n cs) = decode_push_datas_strict (drop n cs)" for n
    proof -
      have "77 \<notin> set (drop n cs)" "78 \<notin> set (drop n cs)"
        using 1(2,3) Cons by (auto dest: in_set_dropD)
      then show ?thesis using 1(1) [rule_format, of "drop n cs"] Cons by simp
    qed
    have op: "unat b \<noteq> 77" "unat b \<noteq> 78" using 1(2,3) Cons by (auto simp: word_unat_eq_iff)
    have big: "n \<le> u64_max" if "n \<le> 300" for n using that by (simp add: u64_max_def)
    have b: "unat b < 256" by simp
    consider "unat b = 0" | "81 \<le> unat b" "unat b \<le> 96" | "1 \<le> unat b" "unat b \<le> 75"
      | "unat b = 76" "cs = []" | c ds where "unat b = 76" "cs = c # ds"
      | "76 < unat b" "\<not> (81 \<le> unat b \<and> unat b \<le> 96)"
    proof -
      have "unat b = 0 \<or> 81 \<le> unat b \<and> unat b \<le> 96 \<or> 1 \<le> unat b \<and> unat b \<le> 75 \<or> unat b = 76 \<or>
        76 < unat b \<and> \<not> (81 \<le> unat b \<and> unat b \<le> 96)" by linarith
      then show thesis using that by (cases cs) blast+
    qed
    then show ?thesis
    proof cases
      case 1
      then show ?thesis using IH [of 0] big [of 1]
        by (simp add: Cons decode_push_datas.simps decode_push_datas_strict.simps strict_header_def Let_def)
    next
      case 2
      then show ?thesis using IH [of 0]
        by (simp add: Cons decode_push_datas.simps decode_push_datas_strict.simps Let_def)
    next
      case 3
      then show ?thesis using IH [of "unat b"] big [of "1 + unat b"]
        by (simp add: Cons decode_push_datas.simps decode_push_datas_strict.simps strict_header_def Let_def)
    next
      case 4
      then show ?thesis
        by (simp add: Cons decode_push_datas.simps decode_push_datas_strict.simps strict_header_def Let_def slice_get_def)
    next
      case (5 c ds)
      have "2 + unat c \<le> 300" using unat_byte_less [of c] by linarith
      from big [OF this] 5 show ?thesis using IH [of "1 + unat c"]
        by (simp add: Cons decode_push_datas.simps decode_push_datas_strict.simps strict_header_def Let_def slice_get_def)
    next
      case 6
      then show ?thesis using op
        by (auto simp: Cons decode_push_datas.simps decode_push_datas_strict.simps strict_header_def Let_def)
    qed
  qed
qed

theorem push_decoders_agree_witness:
  "decode_push_datas [2, 5, 6, 82, 0] = decode_push_datas_strict [2, 5, 6, 82, 0]"
proof -
  note ex = push_decoders_agree [of "[2, 5, 6, 82, 0]"]
  show ?thesis using ex by simp
qed

text \<open>
  C18: a chain of scripts is reassembled. When the first script's pushes are the protocol id, the
  number of pieces, the content type and a first group of pieces, every further script carries a
  non-empty group, and the pieces are numbered down to zero, the parser returns the complete
  inscription with the concatenation of all pieces as its body and the fields that follow the last
  piece.
\<close>

theorem inscription_reassembled:
  assumes "\<forall>k\<le>n. push_data_to_number (num k) = Some k" and "0 < n" and "n = length (concat (g # gs))"
    and "\<forall>h\<in>set gs. h \<noteq> []" and "chain_pushes num n (g # gs) tail = p # ps"
    and "dec s = Some (PROTOCOL_ID # num n # ct # p)" and "map dec ss = map Some ps"
  shows "parse_with (s # ss) dec =
    (Complete \<lparr>i_body = Some (concat (concat (g # gs))), i_content_type = Some ct,
       i_delegate = fst (itag_take DelegateTag (collect_fields tail []))\<rparr>, length (concat (concat (g # gs))))"
  using assms(1,2,6) parse_chain [OF _ assms(3,4,5,7), of ct "[]"] by (simp add: parse_with_def)

text \<open>Two transactions: the pieces \<open>[1, 2]\<close> and \<open>[3]\<close>, then a delegate field.\<close>

theorem inscription_reassembled_witness:
  "parse_with [[PROTOCOL_ID, [2], [9], [1], [1, 2]], [[0], [3], [11], [8]]] Some =
    (Complete \<lparr>i_body = Some [1, 2, 3], i_content_type = Some [9], i_delegate = Some [8]\<rparr>, 3)"
proof -
  note ex = inscription_reassembled [where num = "\<lambda>k. [of_nat k]" and n = 2 and g = "[[1, 2]]" and gs = "[[[3]]]"
      and tail = "[[11], [8]]" and p = "[[1], [1, 2]]" and ps = "[[[0], [3], [11], [8]]]" and dec = Some
      and s = "[PROTOCOL_ID, [2], [9], [1], [1, 2]]" and ct = "[9]" and ss = "[[[0], [3], [11], [8]]]"]
  have "fst (itag_take DelegateTag (collect_fields [[11], [8]] [])) = Some [8]"
    by (simp add: itag_take_def itag_bytes_def itag_chunked_def)
  with ex show ?thesis by (simp add: push_data_to_number_le)
qed

text \<open>
  The first transaction of a chain bounds the body: the number of bytes the first part
  reports is never more than the length of the complete body of the whole chain.
\<close>

theorem first_part_bounds_body:
  assumes "inputs \<noteq> []" and "parse_with (hd inputs # ss) decode_push_datas = (Complete ins, n)"
  shows "snd (parse_first_part inputs) \<le> n \<and> content_length ins = Some n"
proof -
  obtain s rest where "inputs" : "inputs = s # rest" using assms(1) by (cases inputs) auto
  from assms(2) obtain pd np where
    d: "decode_push_datas s = Some pd" "3 \<le> length pd" "pd ! 0 = PROTOCOL_ID" "push_data_to_number (pd ! 1) = Some np"
      "np \<noteq> 0" and
    l: "parse_loop decode_push_datas (pd ! 2) np (drop 3 pd) [] ss = (Complete ins, n)"
    unfolding "inputs" by (auto simp: parse_with_def split: option.splits if_splits)
  have "snd (parse_loop decode_push_datas (pd ! 2) np (drop 3 pd) [] []) \<le> n"
    using parse_loop_alone [of decode_push_datas "pd ! 2" np "drop 3 pd" "[]" ss] l by simp
  moreover have "content_length ins = Some n"
    using parse_loop_length(2) [OF l refl] by (auto simp: content_length_def)
  ultimately show ?thesis using d by (simp add: parse_first_part_def "inputs" parse_with_def)
qed

theorem first_part_bounds_body_witness:
  "\<exists>ins. parse_with [[3, 0x6f, 0x72, 0x64, 81, 1, 0x74, 0, 2, 7, 8]] decode_push_datas = (Complete ins, 2) \<and>
    content_length ins = Some 2 \<and> snd (parse_first_part [[3, 0x6f, 0x72, 0x64, 81, 1, 0x74, 0, 2, 7, 8]]) \<le> 2"
proof -
  let ?s = "[3, 0x6f, 0x72, 0x64, 81, 1, 0x74, 0, 2, 7, 8] :: byte list"
  have "decode_push_datas ?s = Some [PROTOCOL_ID, [1], [0x74], [], [7, 8]]"
    by (simp add: decode_push_datas.simps PROTOCOL_ID_def Let_def)
  then have p: "parse_with [?s] decode_push_datas = (Complete \<lparr>i_body = Some [7, 8], i_content_type = Some [0x74],
      i_delegate = None\<rparr>, 2)"
    by (simp add: parse_with_def parse_loop.simps push_data_to_number_le itag_take_def)
  note ex = first_part_bounds_body [of "[?s]" "[]"]
  show ?thesis using ex p by auto
qed

text \<open>
  Delegate fields are read exactly: a field is an inscription id precisely when it is a
  32-byte txid followed by at most four bytes of little-endian index that either are four or
  do not end in zero, and then the id is that txid and that index.
\<close>

theorem inscription_id_field_iff:
  "inscription_id_field (Some v) = Some i \<longleftrightarrow>
    (\<exists>bs. v = ii_txid i @ bs \<and> length (ii_txid i) = 32 \<and> length bs \<le> 4 \<and>
      (bs = [] \<or> length bs = 4 \<or> last bs \<noteq> 0) \<and> ii_index i = from_le bs)"
proof -
  have at: "from_le [at 0, at 1, at 2, at 3] = from_le bs"
    if len: "length bs \<le> 4" and at: "at = (\<lambda>n. case slice_get bs n of Some b \<Rightarrow> b | None \<Rightarrow> 0)" for bs :: "byte list" and at
  proof -
    consider "bs = []" | a where "bs = [a]" | a b where "bs = [a, b]" | a b c where "bs = [a, b, c]"
      | a b c d where "bs = [a, b, c, d]"
      by (insert len, cases bs; cases "tl bs"; cases "tl (tl bs)"; cases "tl (tl (tl bs))"; cases "tl (tl (tl (tl bs)))"; auto)
    then show ?thesis using at by cases (simp_all add: slice_get_def numeral_3_eq_3 numeral_2_eq_2)
  qed
  show ?thesis
  proof
    assume f: "inscription_id_field (Some v) = Some i"
    let ?bs = "drop 32 v"
    from f have "32 \<le> length v" "length v \<le> 36" and bs: "?bs = [] \<or> length ?bs = 4 \<or> last ?bs \<noteq> 0"
      by (auto simp: inscription_id_field_def Let_def split: if_splits)
    moreover from f have "ii_txid i = take 32 v" "ii_index i = from_le ?bs"
      using at [of ?bs] calculation(2) by (auto simp: inscription_id_field_def Let_def split: if_splits)
    ultimately show "\<exists>bs. v = ii_txid i @ bs \<and> length (ii_txid i) = 32 \<and> length bs \<le> 4 \<and>
      (bs = [] \<or> length bs = 4 \<or> last bs \<noteq> 0) \<and> ii_index i = from_le bs"
      by (intro exI [of _ ?bs]) auto
  next
    assume "\<exists>bs. v = ii_txid i @ bs \<and> length (ii_txid i) = 32 \<and> length bs \<le> 4 \<and>
      (bs = [] \<or> length bs = 4 \<or> last bs \<noteq> 0) \<and> ii_index i = from_le bs"
    then obtain bs where bs: "v = ii_txid i @ bs" "length (ii_txid i) = 32" "length bs \<le> 4"
      "bs = [] \<or> length bs = 4 \<or> last bs \<noteq> 0" "ii_index i = from_le bs" by blast
    then show "inscription_id_field (Some v) = Some i"
      using at [OF bs(3) refl] by (auto simp: inscription_id_field_def Let_def)
  qed
qed

theorem inscription_id_field_iff_witness:
  "inscription_id_field (Some (zero_txid @ [5, 1])) = Some \<lparr>ii_txid = zero_txid, ii_index = 261\<rparr>"
proof -
  note ex = inscription_id_field_iff [of "zero_txid @ [5, 1]" "\<lparr>ii_txid = zero_txid, ii_index = 261\<rparr>"]
  show ?thesis using ex by (simp add: zero_txid_def)
qed

text \<open>Every content type chosen for a file extension is one that the media table recognises.\<close>

lemma content_type_has_media:
  assumes "content_type_for_extension e ok = Some ct"
  shows "media_from_str ct \<noteq> None"
proof -
  from assms obtain entry where "List.find (\<lambda>entry. e \<in> set (snd (snd entry))) media_table = Some entry" "ct = fst entry"
    by (auto simp: content_type_for_extension_def split: if_splits)
  then have "entry \<in> set media_table" "fst entry = ct" by (auto simp: find_Some_iff)
  then have "List.find (\<lambda>x. fst x = ct) media_table \<noteq> None" unfolding find_None_iff by blast
  then show ?thesis by (simp add: media_from_str_def)
qed

end
