(* ===== verification/Fetcher.thy ===== *)
theory Fetcher
  imports Dunestone "HOL-Library.Multiset"
begin

text \<open>
  Fetching earlier transactions from the node (\<open>src/index/fetcher.rs\<close>, and the thread of
  \<open>src/index/updater.rs\<close> that turns outpoints into values): batched JSON-RPC requests numbered by
  position, answers that come back in any order, chunks that are requested in parallel and joined in
  order. The network, hexadecimal decoding and consensus decoding are the fields of \<open>fetcher\<close>; what
  is assumed of the node is what JSON-RPC says of a batch, that there is one response for each request,
  with the id of the request. \<open>Fetcher::new\<close>, which builds the HTTP client from the address and the
  credentials, is not modelled: its outcome is an argument where the code calls it.
\<close>

section \<open>One batch\<close>

record json_rpc_error =
  je_code :: int
  je_message :: "rchar list"

record json_response =
  jr_result :: "rchar list option"
  jr_error :: "json_rpc_error option"
  jr_id :: usize

datatype fetch_error =
    NoConnection
  | NodeError json_rpc_error
  | MissingResult
  | NotHex
  | NotATransaction

record 's fetcher =
  post_batch :: "(usize \<times> txid) list \<Rightarrow> fetch_error + json_response list"
  hex_decode :: "rchar list \<Rightarrow> byte list option"
  consensus_deserialize :: "byte list \<Rightarrow> 's transaction option"

definition read_response :: "'s fetcher \<Rightarrow> json_response \<Rightarrow> fetch_error + 's transaction" where
  "read_response F res =
    res_bind (ok_or MissingResult (jr_result res)) (\<lambda>s.
    res_bind (ok_or NotHex (hex_decode F s)) (\<lambda>hex.
    ok_or NotATransaction (consensus_deserialize F hex)))"

fun collect_results :: "('e + 'a) list \<Rightarrow> 'e + 'a list" where
  "collect_results [] = Inr []"
| "collect_results (r # rs) = res_bind r (\<lambda>x. res_bind (collect_results rs) (\<lambda>xs. Inr (x # xs)))"

definition get_transactions :: "'s fetcher \<Rightarrow> txid list \<Rightarrow> fetch_error + 's transaction list" where
  "get_transactions F txids =
    (if txids = [] then Inr []
     else
       res_bind (post_batch F (enumerate 0 txids)) (\<lambda>results.
       case List.map_filter jr_error results of
         err # _ \<Rightarrow> Inl (NodeError err)
       | [] \<Rightarrow> collect_results (map (read_response F) (sort_key jr_id results))))"

section \<open>Chunks in parallel\<close>

text \<open>
  \<open>try_join_all\<close> of the requests of all chunks, and the answers flattened. When several chunks fail the
  error of the first one stands for all of them; it is only logged.
\<close>

definition fetch_chunks :: "'s fetcher \<Rightarrow> usize \<Rightarrow> txid list \<Rightarrow> fetch_error + 's transaction list" where
  "fetch_chunks F chunk_size txids =
    res_bind (collect_results (map (get_transactions F) (chunks chunk_size txids))) (\<lambda>txs. Inr (concat txs))"

section \<open>The thread that fetches values\<close>

text \<open>
  The values sent for one batch of outpoints, and whether the thread goes on: a failed request ends it,
  an output that does not exist or more answers than requests panic it.
\<close>

fun send_values :: "outpoint list \<Rightarrow> 's transaction list \<Rightarrow> u64 list \<times> bool" where
  "send_values outpoints [] = ([], True)"
| "send_values [] (tx # txs) = ([], False)"
| "send_values (p # outpoints) (tx # txs) =
    (if op_vout p < length (tx_output tx)
     then case send_values outpoints txs of (vs, alive) \<Rightarrow> (txo_amount (tx_output tx ! op_vout p) # vs, alive)
     else ([], False))"

definition fetch_values :: "'s fetcher \<Rightarrow> usize \<Rightarrow> outpoint list \<Rightarrow> u64 list \<times> bool" where
  "fetch_values F parallel_requests outpoints =
    (if parallel_requests = 0 then ([], False)
     else
       let chunk_size = length outpoints div parallel_requests + 1
       in case fetch_chunks F chunk_size (map op_txid outpoints) of
            Inl e \<Rightarrow> ([], False)
          | Inr txs \<Rightarrow> send_values outpoints txs)"

text \<open>The loop of the thread: one batch after the other, until the channel closes or the thread ends.\<close>

fun run_fetcher :: "'s fetcher \<Rightarrow> usize \<Rightarrow> outpoint list list \<Rightarrow> u64 list \<times> bool" where
  "run_fetcher F parallel_requests [] = ([], True)"
| "run_fetcher F parallel_requests (b # bs) =
    (case fetch_values F parallel_requests b of
       (vs, False) \<Rightarrow> (vs, False)
     | (vs, True) \<Rightarrow> (case run_fetcher F parallel_requests bs of (ws, alive) \<Rightarrow> (vs @ ws, alive)))"

text \<open>
  The lookahead of the TAP build: values land in a map keyed by outpoint, emptied when it has grown past
  two million entries; a failed request or a missing output leaves nothing behind.
\<close>

definition lookahead_insert :: "outpoint \<times> 's transaction \<Rightarrow> (outpoint \<times> u64) list \<Rightarrow> (outpoint \<times> u64) list" where
  "lookahead_insert pt m =
    (if op_vout (fst pt) < length (tx_output (snd pt))
     then AList.update (fst pt) (txo_amount (tx_output (snd pt) ! op_vout (fst pt))) m else m)"

definition lookahead_fetch ::
  "'s fetcher \<Rightarrow> usize \<Rightarrow> outpoint list \<Rightarrow> (outpoint \<times> u64) list \<Rightarrow> (outpoint \<times> u64) list" where
  "lookahead_fetch F nr_parallel_requests outpoints m =
    (let parallel = max (nr_parallel_requests div 4) 1;
         chunk = length outpoints div parallel + 1
     in case fetch_chunks F chunk (map op_txid outpoints) of
          Inl e \<Rightarrow> m
        | Inr txs \<Rightarrow> fold lookahead_insert (zip outpoints txs) (if 2000000 < length m then [] else m))"

section \<open>What the node promises\<close>

text \<open>
  \<open>raw t\<close> is the node's answer to \<open>getrawtransaction t\<close>. A batch that is answered at all is answered by
  one response per request, in any order, and each response carries the id of its request.
\<close>

fun response :: "usize \<Rightarrow> json_rpc_error + rchar list \<Rightarrow> json_response" where
  "response i (Inl e) = \<lparr>jr_result = None, jr_error = Some e, jr_id = i\<rparr>"
| "response i (Inr s) = \<lparr>jr_result = Some s, jr_error = None, jr_id = i\<rparr>"

definition answers_batches :: "'s fetcher \<Rightarrow> (txid \<Rightarrow> json_rpc_error + rchar list) \<Rightarrow> bool" where
  "answers_batches F raw \<longleftrightarrow> (\<forall>reqs results. distinct (map fst reqs) \<longrightarrow> post_batch F reqs = Inr results \<longrightarrow>
    mset results = mset (map (\<lambda>(i, t). response i (raw t)) reqs))"

text \<open>The transaction the node has under an id, decoded.\<close>

definition node_tx :: "'s fetcher \<Rightarrow> (txid \<Rightarrow> json_rpc_error + rchar list) \<Rightarrow> txid \<Rightarrow> 's transaction option" where
  "node_tx F raw t =
    (case raw t of
       Inl e \<Rightarrow> None
     | Inr s \<Rightarrow> Option.bind (hex_decode F s) (consensus_deserialize F))"

lemma response_id [simp]: "jr_id (response i r) = i"
  by (cases r) simp_all

lemma read_response_node_tx:
  "(\<exists>s. raw t = Inr s) \<Longrightarrow> read_response F (response i (raw t)) = Inr tx \<longleftrightarrow> node_tx F raw t = Some tx"
  by (cases "raw t") (auto simp: read_response_def node_tx_def res_simps ok_or_def bind_eq_Some_conv split: option.splits)

lemma collect_results_Inr: "collect_results rs = Inr xs \<longleftrightarrow> rs = map Inr xs"
proof (induction rs arbitrary: xs)
  case (Cons r rs)
  then show ?case by (cases r; cases xs) (auto simp: res_simps)
qed auto

text \<open>Sorting by id puts the responses in the order of the requests, whatever order they came in.\<close>

lemma sorted_responses:
  assumes "answers_batches F raw" and "post_batch F (enumerate 0 ts) = Inr results"
  shows "sort_key jr_id results = map (\<lambda>(i, t). response i (raw t)) (enumerate 0 ts)"
proof (rule sort_key_inj_key_eq)
  let ?rs = "map (\<lambda>(i, t). response i (raw t)) (enumerate 0 ts)"
  have ids: "map jr_id ?rs = [0..<length ts]"
    by (simp add: enumerate_eq_zip case_prod_beta comp_def)
  show m: "mset results = mset ?rs"
    using assms unfolding answers_batches_def by (simp add: enumerate_eq_zip)
  have "inj_on jr_id (set ?rs)" using distinct_map [of jr_id ?rs] unfolding ids by simp
  then show "inj_on jr_id (set results)" using mset_eq_setD [OF m] by simp
  show "sorted (map jr_id ?rs)" unfolding ids by simp
qed

lemma no_errors:
  "List.map_filter jr_error (map (\<lambda>(i, t). response i (raw t)) ps) = [] \<longleftrightarrow> (\<forall>(i, t)\<in>set ps. \<exists>s. raw t = Inr s)"
proof (induction ps)
  case (Cons p ps)
  then show ?case by (cases p; cases "raw (snd p)") (auto simp: map_filter_simps)
qed (simp add: map_filter_simps)

lemma map_filter_mset_Nil: "mset xs = mset ys \<Longrightarrow> List.map_filter f xs = [] \<longleftrightarrow> List.map_filter f ys = []"
  by (auto simp: map_filter_def filter_empty_conv dest!: mset_eq_setD)

lemma read_responses:
  "\<forall>t\<in>set ts. \<exists>s. raw t = Inr s \<Longrightarrow>
    map (read_response F) (map (\<lambda>(i, t). response i (raw t)) (enumerate k ts)) = map Inr txs \<longleftrightarrow>
    map (node_tx F raw) ts = map Some txs"
proof (induction ts arbitrary: k txs)
  case (Cons t ts)
  then show ?case by (cases txs) (auto simp: read_response_node_tx)
qed simp

lemma batch_in_order:
  assumes "answers_batches F raw" and "ts \<noteq> [] \<Longrightarrow> post_batch F (enumerate 0 ts) = Inr results"
  shows "get_transactions F ts = Inr txs \<longleftrightarrow> map (node_tx F raw) ts = map Some txs"
proof (cases "ts = []")
  case False
  let ?rs = "map (\<lambda>(i, t). response i (raw t)) (enumerate 0 ts)"
  note post = assms(2) [OF False]
  have sorted: "sort_key jr_id results = ?rs" by (rule sorted_responses [OF assms(1) post])
  have "List.map_filter jr_error results = [] \<longleftrightarrow> List.map_filter jr_error ?rs = []"
    by (rule map_filter_mset_Nil) (metis sorted mset_sort)
  moreover have snds: "snd ` set (enumerate 0 ts) = set ts" by (metis list.set_map map_snd_enumerate)
  have "List.map_filter jr_error ?rs = [] \<longleftrightarrow> (\<forall>t\<in>set ts. \<exists>s. raw t = Inr s)"
    unfolding no_errors unfolding snds [symmetric] by force
  ultimately have errors: "List.map_filter jr_error results = [] \<longleftrightarrow> (\<forall>t\<in>set ts. \<exists>s. raw t = Inr s)" by simp
  show ?thesis
  proof (cases "\<forall>t\<in>set ts. \<exists>s. raw t = Inr s")
    case True
    have "map (read_response F) ?rs = map Inr txs \<longleftrightarrow> map (node_tx F raw) ts = map Some txs"
      using True by (rule read_responses)
    then show ?thesis using False True post errors sorted
      by (simp add: get_transactions_def collect_results_Inr)
  next
    case F: False
    then obtain t e where t: "t \<in> set ts" "raw t = Inl e" by (metis obj_sumE)
    then have "node_tx F raw t = None" by (simp add: node_tx_def)
    then have "None \<in> set (map (node_tx F raw) ts)" using t(1) by force
    then have "map (node_tx F raw) ts \<noteq> map Some txs" by (metis ex_map_conv option.distinct(1))
    moreover have "\<exists>e es. List.map_filter jr_error results = e # es" using F errors by (cases "List.map_filter jr_error results") auto
    ultimately show ?thesis using False post by (auto simp: get_transactions_def)
  qed
qed (auto simp: get_transactions_def)

text \<open>A node that can be reached answers every batch.\<close>

definition node_reachable :: "'s fetcher \<Rightarrow> bool" where
  "node_reachable F \<longleftrightarrow> (\<forall>reqs. \<exists>results. post_batch F reqs = Inr results)"

lemma transactions_in_order:
  assumes "answers_batches F raw" and "get_transactions F ts = Inr txs"
  shows "map (node_tx F raw) ts = map Some txs"
proof -
  have "\<exists>results. post_batch F (enumerate 0 ts) = Inr results" if "ts \<noteq> []"
    using assms(2) that by (auto simp: get_transactions_def res_simps)
  then show ?thesis using batch_in_order [OF assms(1)] assms(2) by metis
qed

lemma chunk_list_in_order:
  assumes "answers_batches F raw"
  shows "collect_results (map (get_transactions F) tss) = Inr txss \<Longrightarrow> map (node_tx F raw) (concat tss) = map Some (concat txss)"
proof (induction tss arbitrary: txss)
  case (Cons ts tss)
  then obtain txs txss' where "get_transactions F ts = Inr txs" "collect_results (map (get_transactions F) tss) = Inr txss'"
    "txss = txs # txss'" by (auto simp: res_simps)
  with Cons.IH transactions_in_order [OF assms] show ?case by simp
qed simp

lemma chunks_in_order:
  assumes "answers_batches F raw" and "0 < n" and "fetch_chunks F n ts = Inr txs"
  shows "map (node_tx F raw) ts = map Some txs"
  using assms chunk_list_in_order [OF assms(1), of "chunks n ts"] concat_chunks [OF assms(2), of ts]
  by (auto simp: fetch_chunks_def res_simps)

lemma chunk_list_complete:
  assumes "answers_batches F raw" and "node_reachable F" and "\<forall>t\<in>set (concat tss). node_tx F raw t \<noteq> None"
  shows "\<exists>txss. collect_results (map (get_transactions F) tss) = Inr txss"
  using assms(3)
proof (induction tss)
  case (Cons ts tss)
  obtain results where post: "post_batch F (enumerate 0 ts) = Inr results" using assms(2) by (auto simp: node_reachable_def)
  have "map (node_tx F raw) ts = map Some (map (the \<circ> node_tx F raw) ts)" using Cons.prems by auto
  then have "\<exists>txs. get_transactions F ts = Inr txs" using batch_in_order [OF assms(1) post] by blast
  with Cons show ?case by auto
qed simp

lemma chunks_complete:
  assumes "answers_batches F raw" and "node_reachable F" and "0 < n" and "\<forall>t\<in>set ts. node_tx F raw t \<noteq> None"
  shows "\<exists>txs. fetch_chunks F n ts = Inr txs"
  using chunk_list_complete [OF assms(1,2), of "chunks n ts"] assms(4) concat_chunks [OF assms(3), of ts]
  by (auto simp: fetch_chunks_def)

text \<open>The value of an output, as the node knows it.\<close>

definition node_value :: "'s fetcher \<Rightarrow> (txid \<Rightarrow> json_rpc_error + rchar list) \<Rightarrow> outpoint \<Rightarrow> u64 option" where
  "node_value F raw p = Option.bind (node_tx F raw (op_txid p)) (\<lambda>tx.
    if op_vout p < length (tx_output tx) then Some (txo_amount (tx_output tx ! op_vout p)) else None)"

text \<open>What answering some outpoints in order means: the values of the first of them, of all when nothing failed.\<close>

definition answered :: "'s fetcher \<Rightarrow> (txid \<Rightarrow> json_rpc_error + rchar list) \<Rightarrow> outpoint list \<Rightarrow> u64 list \<times> bool \<Rightarrow> bool" where
  "answered F raw ps = (\<lambda>(vs, alive). \<exists>n. map (node_value F raw) (take n ps) = map Some vs \<and> (alive \<longrightarrow> length ps \<le> n))"

lemma answered_Nil: "answered F raw ps ([], False)"
  by (auto simp: answered_def intro: exI [of _ 0])

lemma answered_Cons:
  assumes "node_value F raw p = Some v" and "answered F raw ps (vs, alive)"
  shows "answered F raw (p # ps) (v # vs, alive)"
proof -
  obtain n where "map (node_value F raw) (take n ps) = map Some vs" "alive \<longrightarrow> length ps \<le> n"
    using assms(2) by (auto simp: answered_def)
  with assms(1) show ?thesis by (auto simp: answered_def intro: exI [of _ "Suc n"])
qed

lemma answered_append:
  assumes "answered F raw ps (vs, True)" and "answered F raw qs (ws, alive)"
  shows "answered F raw (ps @ qs) (vs @ ws, alive)"
proof -
  obtain n where "map (node_value F raw) (take n qs) = map Some ws" "alive \<longrightarrow> length qs \<le> n"
    using assms(2) by (auto simp: answered_def)
  moreover have "map (node_value F raw) ps = map Some vs" using assms(1) by (auto simp: answered_def)
  ultimately show ?thesis by (auto simp: answered_def intro: exI [of _ "length ps + n"])
qed

lemma answered_prefix: "answered F raw ps (vs, False) \<Longrightarrow> answered F raw (ps @ qs) (vs, False)"
proof -
  assume "answered F raw ps (vs, False)"
  then obtain n where "map (node_value F raw) (take n ps) = map Some vs" by (auto simp: answered_def)
  moreover have "take (min n (length ps)) (ps @ qs) = take n ps" by (simp add: min_def)
  ultimately show ?thesis unfolding answered_def by (auto intro: exI [of _ "min n (length ps)"])
qed

lemma send_values_answered:
  "map (node_tx F raw) (map op_txid ps) = map Some txs \<Longrightarrow>
    answered F raw ps (send_values ps txs) \<and> ((\<forall>p\<in>set ps. node_value F raw p \<noteq> None) \<longrightarrow> snd (send_values ps txs))"
proof (induction ps txs rule: send_values.induct)
  case (1 ps)
  then show ?case by (auto simp: answered_def)
next
  case (3 p ps tx txs)
  then have "node_tx F raw (op_txid p) = Some tx" by simp
  then have v: "node_value F raw p = (if op_vout p < length (tx_output tx) then Some (txo_amount (tx_output tx ! op_vout p)) else None)"
    by (simp add: node_value_def)
  show ?case
  proof (cases "op_vout p < length (tx_output tx)")
    case True
    obtain vs alive where s: "send_values ps txs = (vs, alive)" by fastforce
    with 3 True have "answered F raw ps (vs, alive)" "(\<forall>p\<in>set ps. node_value F raw p \<noteq> None) \<longrightarrow> alive" by simp_all
    with s True v show ?thesis using answered_Cons [of F raw p] by auto
  next
    case False
    with v show ?thesis by (simp add: answered_Nil)
  qed
qed simp

lemma fetch_values_answered:
  assumes "answers_batches F raw"
  shows "answered F raw ps (fetch_values F parallel ps)"
    and "node_reachable F \<Longrightarrow> 0 < parallel \<Longrightarrow> \<forall>p\<in>set ps. node_value F raw p \<noteq> None \<Longrightarrow> snd (fetch_values F parallel ps)"
proof -
  let ?n = "length ps div parallel + 1"
  have order: "map (node_tx F raw) (map op_txid ps) = map Some txs" if "fetch_chunks F ?n (map op_txid ps) = Inr txs" for txs
    using chunks_in_order [OF assms _ that] by simp
  show "answered F raw ps (fetch_values F parallel ps)"
    using order send_values_answered [of F raw ps]
    by (auto simp: fetch_values_def Let_def answered_Nil split: sum.splits)
  assume c: "node_reachable F" "0 < parallel" "\<forall>p\<in>set ps. node_value F raw p \<noteq> None"
  have "node_tx F raw (op_txid p) \<noteq> None" if "node_value F raw p \<noteq> None" for p
    using that by (auto simp: node_value_def bind_eq_Some_conv)
  with c(3) have "\<forall>t\<in>set (map op_txid ps). node_tx F raw t \<noteq> None" by auto
  from chunks_complete [OF assms c(1) _ this] obtain txs where "fetch_chunks F ?n (map op_txid ps) = Inr txs" by auto
  then show "snd (fetch_values F parallel ps)"
    using c order send_values_answered [of F raw ps txs] by (simp add: fetch_values_def Let_def)
qed

section \<open>Properties\<close>

text \<open>
  C29: values come back in request order. When the node answers a batch with one response per request,
  in any order, the thread that fetches values sends, for any division of the requested outpoints into
  batches and any number of parallel requests, the values of the outputs in exactly the order they
  were asked for, without a gap; it ends early only when the node cannot be reached, does not know a
  transaction, or a transaction has no such output.
\<close>

theorem values_in_request_order:
  assumes "answers_batches F raw" and "run_fetcher F parallel batches = (vs, alive)"
  shows "(\<exists>n. map (node_value F raw) (take n (concat batches)) = map Some vs \<and>
      (alive \<longrightarrow> length (concat batches) \<le> n)) \<and>
    (node_reachable F \<and> 0 < parallel \<and> (\<forall>p\<in>set (concat batches). node_value F raw p \<noteq> None) \<longrightarrow> alive)"
proof -
  have "answered F raw (concat batches) (run_fetcher F parallel batches) \<and>
    (node_reachable F \<and> 0 < parallel \<and> (\<forall>p\<in>set (concat batches). node_value F raw p \<noteq> None) \<longrightarrow>
      snd (run_fetcher F parallel batches))"
  proof (induction batches)
    case Nil
    show ?case by (auto simp: answered_def)
  next
    case (Cons b bs)
    obtain vs alive where b: "fetch_values F parallel b = (vs, alive)" by fastforce
    note first = fetch_values_answered [OF assms(1), where ps = b and parallel = parallel, unfolded b]
    show ?case
    proof (cases alive)
      case True
      obtain ws more where "run_fetcher F parallel bs = (ws, more)" by fastforce
      with True b first(1) Cons.IH show ?thesis by (auto intro: answered_append)
    next
      case False
      then have "\<not> (node_reachable F \<and> 0 < parallel \<and> (\<forall>p\<in>set b. node_value F raw p \<noteq> None))" using first(2) by (simp only: snd_conv) blast
      with False b first(1) show ?thesis by (auto intro: answered_prefix)
    qed
  qed
  then show ?thesis using assms(2) by (simp add: answered_def)
qed

text \<open>A node that answers every batch backwards; the first byte of an id is the value of the only output.\<close>

definition backwards_raw :: "txid \<Rightarrow> json_rpc_error + rchar list" where
  "backwards_raw t = Inr (map unat t)"

definition backwards_node :: "unit fetcher" where
  "backwards_node = \<lparr>post_batch = (\<lambda>reqs. Inr (rev (map (\<lambda>(i, t). response i (backwards_raw t)) reqs))),
    hex_decode = (\<lambda>s. Some (map of_nat s)),
    consensus_deserialize = (\<lambda>b. Some \<lparr>tx_input = [], tx_output = [\<lparr>txo_amount = unat (hd b), txo_script = ()\<rparr>]\<rparr>)\<rparr>"

lemma backwards_answers: "answers_batches backwards_node backwards_raw"
  by (auto simp: answers_batches_def backwards_node_def)

definition asked :: "outpoint list list" where
  "asked = [[\<lparr>op_txid = [5], op_vout = 0\<rparr>, \<lparr>op_txid = [7], op_vout = 0\<rparr>], [\<lparr>op_txid = [9], op_vout = 0\<rparr>]]"

lemma asked_run: "run_fetcher backwards_node 2 asked = ([5, 7, 9], True)"
  by code_simp

theorem values_in_request_order_witness:
  "run_fetcher backwards_node 2 asked = ([5, 7, 9], True) \<and>
    (\<exists>n. map (node_value backwards_node backwards_raw) (take n (concat asked)) = map Some [5, 7, 9] \<and>
      length (concat asked) \<le> n)"
  using values_in_request_order [OF backwards_answers asked_run] asked_run by simp

text \<open>The lookahead only ever holds true values, whatever was asked and whatever failed.\<close>

definition lookahead_true :: "'s fetcher \<Rightarrow> (txid \<Rightarrow> json_rpc_error + rchar list) \<Rightarrow> (outpoint \<times> u64) list \<Rightarrow> bool" where
  "lookahead_true F raw m \<longleftrightarrow> (\<forall>p v. map_of m p = Some v \<longrightarrow> node_value F raw p = Some v)"

lemma lookahead_insert_true:
  assumes "lookahead_true F raw m" and "node_tx F raw (op_txid p) = Some tx"
  shows "lookahead_true F raw (lookahead_insert (p, tx) m)"
  using assms by (auto simp: lookahead_true_def lookahead_insert_def node_value_def update_conv' split: if_splits)

lemma lookahead_inserts_true:
  "lookahead_true F raw m \<Longrightarrow> map (node_tx F raw) (map op_txid ps) = map Some txs \<Longrightarrow>
    lookahead_true F raw (fold lookahead_insert (zip ps txs) m)"
proof (induction ps arbitrary: txs m)
  case (Cons p ps)
  then obtain tx txs' where "txs = tx # txs'" by (cases txs) auto
  with Cons show ?case by (simp add: lookahead_insert_true)
qed simp

lemma lookahead_keeps_true:
  assumes "answers_batches F raw" and "lookahead_true F raw m"
  shows "lookahead_true F raw (lookahead_fetch F nr_parallel_requests ps m)"
proof -
  let ?n = "length ps div max (nr_parallel_requests div 4) 1 + 1"
  have "map (node_tx F raw) (map op_txid ps) = map Some txs" if "fetch_chunks F ?n (map op_txid ps) = Inr txs" for txs
    using chunks_in_order [OF assms(1) _ that] by simp
  moreover have "lookahead_true F raw (if 2000000 < length m then [] else m)"
    using assms(2) by (simp add: lookahead_true_def)
  ultimately show ?thesis using assms(2)
    by (auto simp: lookahead_fetch_def Let_def intro: lookahead_inserts_true split: sum.splits)
qed

end
