(* ===== verification/Drc20.thy ===== *)
theory Drc20
  imports Complex_Main Table Identifier Inscription Fetcher
begin

text \<open>
  The DRC-20 ledger (\<open>src/drc20\<close>, \<open>src/index/updater/drc20_updater.rs\<close>): deploy, mint,
  inscribe-transfer and transfer operations on token infos, balances and transferable logs, and the
  record of every decision, from the inscriptions of a block to the tables.

  Strings are their UTF-8 bytes, as numbers. What comes from outside the sources is a parameter:
  arbitrary-precision decimals (\<open>bigdec\<close>, the bigdecimal crate), and, in \<open>drc_env\<close>, lower-casing by
  the Unicode tables, hexadecimal and JSON text, the text of script keys and of txids. Database
  failures are not modelled, and neither is the bincode and MessagePack form of a row: a table holds
  the values that are serialized into it.
\<close>

section \<open>Numbers\<close>

type_synonym ustr = "rchar list"

record 'n bigdec =
  bd_add :: "'n \<Rightarrow> 'n \<Rightarrow> 'n"
  bd_sub :: "'n \<Rightarrow> 'n \<Rightarrow> 'n"
  bd_mul :: "'n \<Rightarrow> 'n \<Rightarrow> 'n"
  bd_one :: 'n
  bd_less :: "'n \<Rightarrow> 'n \<Rightarrow> bool"
  bd_is_integer :: "'n \<Rightarrow> bool"
  bd_to_bigint :: "'n \<Rightarrow> int option"
  bd_to_u8 :: "'n \<Rightarrow> u8 option"
  bd_no_sign :: "'n \<Rightarrow> bool"
  bd_scale :: "'n \<Rightarrow> int"
  bd_from_nat :: "nat \<Rightarrow> 'n"
  bd_from_str :: "ustr \<Rightarrow> 'n option"
  bd_to_string :: "'n \<Rightarrow> ustr"

text \<open>The documented meaning of the decimals, as exact rational numbers.\<close>

definition bigdec_exact :: "'n bigdec \<Rightarrow> ('n \<Rightarrow> rat) \<Rightarrow> bool" where
  "bigdec_exact B val \<longleftrightarrow>
    (\<forall>a b. val (bd_add B a b) = val a + val b) \<and>
    (\<forall>a b. val (bd_sub B a b) = val a - val b) \<and>
    (\<forall>a b. val (bd_mul B a b) = val a * val b) \<and>
    val (bd_one B) = 1 \<and>
    (\<forall>a b. bd_less B a b \<longleftrightarrow> val a < val b) \<and>
    (\<forall>a. bd_is_integer B a \<longleftrightarrow> val a \<in> \<int>) \<and>
    (\<forall>a i. val a = of_int i \<longrightarrow> bd_to_bigint B a = Some i) \<and>
    (\<forall>a. bd_no_sign B a \<longleftrightarrow> val a = 0) \<and>
    (\<forall>a d. bd_scale B a \<le> int d \<longrightarrow> val a * 10 ^ d \<in> \<int>) \<and>
    (\<forall>n. val (bd_from_nat B n) = of_nat n) \<and>
    (\<forall>s a. bd_from_str B s = Some a \<and> 45 \<notin> set s \<longrightarrow> 0 \<le> val a)"

datatype drc20_error =
  InvalidNum ustr | InvalidSupply ustr | DuplicateTick ustr | TickNotFound ustr
  | InvalidTickLen ustr | DecimalsTooLarge u8 | TickMinted ustr
  | MintLimitOutOfRange ustr ustr | InvalidZeroAmount | AmountOverflow ustr
  | InsufficientBalance ustr ustr | AmountExceedLimit ustr
  | TransferableNotFound inscription_id | InscribeToCoinbase | TransferableOwnerNotMatch inscription_id
  | InternalError ustr | NumOverflow ustr ustr ustr | InvalidInteger ustr

definition PROTOCOL_LITERAL :: ustr where "PROTOCOL_LITERAL = str ''drc-20''"

definition MAX_DECIMAL_WIDTH :: u8 where "MAX_DECIMAL_WIDTH = 18"

definition BIGDECIMAL_TEN :: "'n bigdec \<Rightarrow> 'n" where "BIGDECIMAL_TEN B = bd_from_nat B 10"

definition MAXIMUM_SUPPLY :: "'n bigdec \<Rightarrow> 'n" where "MAXIMUM_SUPPLY B = bd_from_nat B u64_max"

definition num_checked_add :: "'n bigdec \<Rightarrow> 'n \<Rightarrow> 'n \<Rightarrow> drc20_error + 'n" where
  "num_checked_add B a b = Inr (bd_add B a b)"

definition num_checked_sub :: "'n bigdec \<Rightarrow> 'n \<Rightarrow> 'n \<Rightarrow> drc20_error + 'n" where
  "num_checked_sub B a b =
    (if bd_less B a b then Inl (NumOverflow (str ''checked_sub'') (bd_to_string B a) (bd_to_string B b))
     else Inr (bd_sub B a b))"

definition num_checked_mul :: "'n bigdec \<Rightarrow> 'n \<Rightarrow> 'n \<Rightarrow> drc20_error + 'n" where
  "num_checked_mul B a b = Inr (bd_mul B a b)"

definition num_checked_powu :: "'n bigdec \<Rightarrow> 'n \<Rightarrow> u64 \<Rightarrow> drc20_error + 'n" where
  "num_checked_powu B a e =
    (if e = 0 then Inr (bd_one B)
     else if e = 1 then Inr a
     else Inr (((\<lambda>r. bd_mul B r a) ^^ (e - 1)) a))"

definition num_checked_to_u8 :: "'n bigdec \<Rightarrow> 'n \<Rightarrow> drc20_error + u8" where
  "num_checked_to_u8 B a =
    (if \<not> bd_is_integer B a then Inl (InvalidInteger (bd_to_string B a))
     else ok_or (NumOverflow (str ''to_u8'') (bd_to_string B a) (bd_to_string B (bd_from_nat B u8_max))) (bd_to_u8 B a))"

definition int_to_u128 :: "int \<Rightarrow> u128 option" where
  "int_to_u128 i = (if 0 \<le> i \<and> i \<le> int u128_max then Some (nat i) else None)"

definition num_checked_to_u128 :: "'n bigdec \<Rightarrow> 'n \<Rightarrow> drc20_error + u128" where
  "num_checked_to_u128 B a =
    (if \<not> bd_is_integer B a then Inl (InvalidInteger (bd_to_string B a))
     else
       res_bind (ok_or (InternalError (str ''convert '' @ bd_to_string B a @ str '' to bigint failed'')) (bd_to_bigint B a)) (\<lambda>i.
       ok_or (NumOverflow (str ''to_u128'') (bd_to_string B a) (bd_to_string B (bd_from_nat B u128_max))) (int_to_u128 i)))"

definition num_from_str :: "'n bigdec \<Rightarrow> ustr \<Rightarrow> drc20_error + 'n" where
  "num_from_str B s =
    (if (s \<noteq> [] \<and> hd s = 46) \<or> (s \<noteq> [] \<and> last s = 46) \<or> list_ex (\<lambda>c. c \<in> {101, 69, 43, 45}) s then Inl (InvalidNum s)
     else
       res_bind (ok_or (InvalidNum s) (bd_from_str B s)) (\<lambda>n.
       if int MAX_DECIMAL_WIDTH < bd_scale B n then Inl (InvalidNum s) else Inr n))"

section \<open>Operations as inscribed\<close>

record deploy =
  dp_tick :: ustr
  dp_max_supply :: ustr
  dp_mint_limit :: "ustr option"
  dp_decimals :: "ustr option"

record mint =
  mt_tick :: ustr
  mt_amount :: ustr

record transfer =
  tf_tick :: ustr
  tf_amount :: ustr

datatype operation =
  OpDeploy deploy | OpMint mint | OpInscribeTransfer transfer | OpTransfer transfer

datatype raw_operation = RawDeploy deploy | RawMint mint | RawTransfer transfer

section \<open>Script keys, ticks and table keys\<close>

datatype ('a, 'h) script_key = KeyAddress 'a | KeyScriptHash 'h

record ('s, 'a, 'h, 'j) drc_env =
  to_lowercase :: "ustr \<Rightarrow> ustr"
  hex_encode :: "nat list \<Rightarrow> ustr"
  address_from_script :: "'s \<Rightarrow> 'a option"
  script_hash :: "'s \<Rightarrow> 'h"
  address_text :: "'a \<Rightarrow> ustr"
  hash_text :: "'h \<Rightarrow> ustr"
  env_txids :: txid_api
  json_from_str :: "ustr \<Rightarrow> 'j option"
  json_get_p :: "'j \<Rightarrow> ustr option"
  json_to_operation :: "'j \<Rightarrow> raw_operation option"

definition key_from_script :: "('s, 'a, 'h, 'j) drc_env \<Rightarrow> 's \<Rightarrow> ('a, 'h) script_key" where
  "key_from_script E script =
    (case address_from_script E script of
       Some address \<Rightarrow> KeyAddress address
     | None \<Rightarrow> KeyScriptHash (script_hash E script))"

definition key_text :: "('s, 'a, 'h, 'j) drc_env \<Rightarrow> ('a, 'h) script_key \<Rightarrow> ustr" where
  "key_text E k = (case k of KeyAddress a \<Rightarrow> address_text E a | KeyScriptHash h \<Rightarrow> hash_text E h)"

definition TICK_BYTE_COUNT :: usize where "TICK_BYTE_COUNT = 4"

type_synonym tick = ustr

definition tick_from_str :: "ustr \<Rightarrow> drc20_error + tick" where
  "tick_from_str s = (if length s \<noteq> TICK_BYTE_COUNT then Inl (InvalidTickLen s) else Inr s)"

text \<open>
  The key of a lower-cased tick. The source copies the bytes into an array of sixteen, which
  panics on more than sixteen; four bytes of UTF-8 never lower-case to that many (\<open>env_ok\<close>).
\<close>

definition lower_tick_bytes :: "('s, 'a, 'h, 'j) drc_env \<Rightarrow> tick \<Rightarrow> nat list" where
  "lower_tick_bytes E t =
    (let l = to_lowercase E t in l @ replicate (TICK_BYTE_COUNT * 4 - length l) 0)"

definition lower_tick_hex :: "('s, 'a, 'h, 'j) drc_env \<Rightarrow> tick \<Rightarrow> ustr" where
  "lower_tick_hex E t = hex_encode E (lower_tick_bytes E t)"

definition min_hex :: "('s, 'a, 'h, 'j) drc_env \<Rightarrow> ustr" where
  "min_hex E = hex_encode E (replicate (TICK_BYTE_COUNT * 4) 0)"

definition max_hex :: "('s, 'a, 'h, 'j) drc_env \<Rightarrow> ustr" where
  "max_hex E = hex_encode E (replicate (TICK_BYTE_COUNT * 4) 255)"

definition script_tick_key :: "('s, 'a, 'h, 'j) drc_env \<Rightarrow> ('a, 'h) script_key \<Rightarrow> tick \<Rightarrow> ustr" where
  "script_tick_key E script t = key_text E script @ [95] @ lower_tick_hex E t"

definition script_tick_id_key ::
  "('s, 'a, 'h, 'j) drc_env \<Rightarrow> ('a, 'h) script_key \<Rightarrow> tick \<Rightarrow> inscription_id \<Rightarrow> ustr" where
  "script_tick_id_key E script t i =
    key_text E script @ [95] @ lower_tick_hex E t @ [95] @ inscription_id_to_string (env_txids E) i"

definition min_script_tick_key :: "('s, 'a, 'h, 'j) drc_env \<Rightarrow> ('a, 'h) script_key \<Rightarrow> ustr" where
  "min_script_tick_key E script = key_text E script @ [95] @ min_hex E"

definition max_script_tick_key :: "('s, 'a, 'h, 'j) drc_env \<Rightarrow> ('a, 'h) script_key \<Rightarrow> ustr" where
  "max_script_tick_key E script = key_text E script @ [95] @ max_hex E"

text \<open>
  What the ledger relies on: hexadecimal text is the usual one, the lower case of a tick is at most
  twice as long as the tick and consists of bytes, neither an address nor a hash has an underscore, and
  the keys of two scripts, on the one network that is indexed, are told apart by their text.
\<close>

definition env_ok :: "('s, 'a, 'h, 'j) drc_env \<Rightarrow> bool" where
  "env_ok E \<longleftrightarrow>
    (\<forall>bs. hex_encode E bs = hex_text bs) \<and>
    (\<forall>t. length t = 4 \<longrightarrow> length (to_lowercase E t) \<le> 8 \<and> (\<forall>b\<in>set (to_lowercase E t). b < 256)) \<and>
    (\<forall>k. 95 \<notin> set (key_text E k)) \<and>
    (\<forall>s s'. key_text E (key_from_script E s) = key_text E (key_from_script E s') \<longrightarrow>
       key_from_script E s = key_from_script E s') \<and>
    txid_api_ok (env_txids E)"

section \<open>Ledger\<close>

record balance =
  b_tick :: tick
  b_overall :: u128
  b_transferable :: u128

definition balance_new :: "tick \<Rightarrow> balance" where
  "balance_new t = \<lparr>b_tick = t, b_overall = 0, b_transferable = 0\<rparr>"

record 'k token_info =
  ti_tick :: tick
  ti_inscription_id :: inscription_id
  ti_inscription_number :: u64
  ti_supply :: u128
  ti_minted :: u128
  ti_limit_per_mint :: u128
  ti_decimal :: u8
  ti_deploy_by :: 'k
  ti_deployed_number :: u64
  ti_deployed_timestamp :: u32
  ti_latest_mint_number :: u64

record transfer_info =
  tr_tick :: tick
  tr_amt :: u128

record 'k transferable_log =
  tl_inscription_id :: inscription_id
  tl_inscription_number :: u64
  tl_amount :: u128
  tl_tick :: tick
  tl_owner :: 'k

datatype operation_type = DeployType | MintType | InscribeTransferType | TransferType

datatype verdict = Accepted | Rejected

record decision =
  dc_version :: u8
  dc_txid :: txid
  dc_inscription_id :: inscription_id
  dc_operation :: operation_type
  dc_tick :: ustr
  dc_amount :: "u128 option"
  dc_verdict :: verdict
  dc_reason :: "drc20_error option"
  dc_height :: u32
  dc_block_hash :: "byte list"
  dc_reorg_epoch :: u64
  dc_ruleset :: ustr

definition DECISION_RECORD_VERSION :: u8 where "DECISION_RECORD_VERSION = 1"

definition DRC20_RULESET :: ustr where "DRC20_RULESET = str ''drc20-v1''"

definition decision_key :: "txid \<Rightarrow> inscription_id \<Rightarrow> byte list" where
  "decision_key txid i = txid @ ii_txid i @ rev (le_bytes 4 (ii_index i))"

record 'k ledger =
  drc20_token_info :: "ustr \<rightharpoonup> 'k token_info"
  drc20_token_holder :: "(ustr \<times> ustr) set"
  drc20_token_balance :: "(ustr, balance) redb"
  drc20_inscribe_transfer :: "byte list \<rightharpoonup> transfer_info"
  drc20_transferable_log :: "(ustr, 'k transferable_log) redb"
  drc20_operation_decisions :: "byte list \<rightharpoonup> decision"

record block_context =
  bc_blockheight :: u64
  bc_blockhash :: "byte list"
  bc_blocktime :: u32
  bc_reorg_epoch :: u64

record 'k execution_message =
  em_txid :: txid
  em_inscription_id :: inscription_id
  em_inscription_number :: u64
  em_old_satpoint :: sat_point
  em_new_satpoint :: sat_point
  em_from :: 'k
  em_to :: "'k option"
  em_op :: operation

record 'k deploy_event =
  ev_deploy_vout :: u32
  ev_deployed_by :: 'k
  ev_supply :: u128
  ev_limit_per_mint :: u128
  ev_decimal :: u8
  ev_deploy_tick :: tick

record 'k mint_event =
  ev_mint_vout :: u32
  ev_mint_to :: 'k
  ev_mint_tick :: tick
  ev_mint_amount :: u128
  ev_mint_msg :: "ustr option"

record 'k inscribe_transfer_event =
  ev_inscribe_to :: 'k
  ev_inscribe_vout :: u32
  ev_inscribe_tick :: tick
  ev_inscribe_amount :: u128

record 'k transfer_event =
  ev_transfer_from :: 'k
  ev_transfer_to :: 'k
  ev_transfer_vout :: u32
  ev_transfer_tick :: tick
  ev_transfer_amount :: u128

datatype 'k event =
  DeployEvent "'k deploy_event" | MintEvent "'k mint_event"
  | InscribeTransferEvent "'k inscribe_transfer_event" | TransferEvent "'k transfer_event"

fun event_amount :: "'k event \<Rightarrow> u128 option" where
  "event_amount (DeployEvent _) = None"
| "event_amount (MintEvent e) = Some (ev_mint_amount e)"
| "event_amount (InscribeTransferEvent e) = Some (ev_inscribe_amount e)"
| "event_amount (TransferEvent e) = Some (ev_transfer_amount e)"

section \<open>Tables\<close>

text \<open>
  A fallible computation on the ledger keeps what it has written when it fails. Besides the
  protocol's errors it can panic.
\<close>

datatype proc_error = DRC20Error drc20_error | ProcPanic rust_panic

type_synonym ('k, 'r) drc = "'k ledger \<Rightarrow> (proc_error + 'r) \<times> 'k ledger"

definition drc_bind :: "('k, 'r) drc \<Rightarrow> ('r \<Rightarrow> ('k, 'q) drc) \<Rightarrow> ('k, 'q) drc" where
  "drc_bind m f = (\<lambda>L. case m L of (Inl e, L') \<Rightarrow> (Inl e, L') | (Inr r, L') \<Rightarrow> f r L')"

definition drc_try :: "drc20_error + 'r \<Rightarrow> ('k, 'r) drc" where
  "drc_try r = (\<lambda>L. (case r of Inl e \<Rightarrow> Inl (DRC20Error e) | Inr a \<Rightarrow> Inr a, L))"

definition drc_fail :: "drc20_error \<Rightarrow> ('k, 'r) drc" where
  "drc_fail e = (\<lambda>L. (Inl (DRC20Error e), L))"

definition drc_return :: "'r \<Rightarrow> ('k, 'r) drc" where
  "drc_return r = (\<lambda>L. (Inr r, L))"

definition drc_read :: "('k ledger \<Rightarrow> 'r) \<Rightarrow> ('k, 'r) drc" where
  "drc_read f = (\<lambda>L. (Inr (f L), L))"

definition drc_write :: "('k ledger \<Rightarrow> 'k ledger) \<Rightarrow> ('k, unit) drc" where
  "drc_write f = (\<lambda>L. (Inr (), f L))"

definition insert_transferable ::
  "('s, 'a, 'h, 'j) drc_env \<Rightarrow> ('a, 'h) script_key \<Rightarrow> tick \<Rightarrow> ('a, 'h) script_key transferable_log \<Rightarrow>
   ('a, 'h) script_key ledger \<Rightarrow> ('a, 'h) script_key ledger" where
  "insert_transferable E script t row L =
    L\<lparr>drc20_transferable_log :=
      redb_insert (script_tick_id_key E script t (tl_inscription_id row)) row (drc20_transferable_log L)\<rparr>"

definition remove_transferable ::
  "('s, 'a, 'h, 'j) drc_env \<Rightarrow> ('a, 'h) script_key \<Rightarrow> tick \<Rightarrow> inscription_id \<Rightarrow>
   ('a, 'h) script_key ledger \<Rightarrow> ('a, 'h) script_key ledger" where
  "remove_transferable E script t i L =
    L\<lparr>drc20_transferable_log := redb_remove (script_tick_id_key E script t i) (drc20_transferable_log L)\<rparr>"

definition get_transferable ::
  "('s, 'a, 'h, 'j) drc_env \<Rightarrow> ('a, 'h) script_key \<Rightarrow> ('a, 'h) script_key ledger \<Rightarrow>
   ('a, 'h) script_key transferable_log list" where
  "get_transferable E script L =
    map snd (redb_range (min_script_tick_key E script) (max_script_tick_key E script) (drc20_transferable_log L))"

definition get_transferable_by_id ::
  "('s, 'a, 'h, 'j) drc_env \<Rightarrow> ('a, 'h) script_key \<Rightarrow> inscription_id \<Rightarrow> ('a, 'h) script_key ledger \<Rightarrow>
   ('a, 'h) script_key transferable_log option" where
  "get_transferable_by_id E script i L = List.find (\<lambda>row. tl_inscription_id row = i) (get_transferable E script L)"

definition insert_inscribe_transfer_inscription :: "inscription_id \<Rightarrow> transfer_info \<Rightarrow> 'k ledger \<Rightarrow> 'k ledger" where
  "insert_inscribe_transfer_inscription i info L =
    L\<lparr>drc20_inscribe_transfer := (drc20_inscribe_transfer L)(inscription_id_store i \<mapsto> info)\<rparr>"

definition remove_inscribe_transfer_inscription :: "inscription_id \<Rightarrow> 'k ledger \<Rightarrow> 'k ledger" where
  "remove_inscribe_transfer_inscription i L =
    L\<lparr>drc20_inscribe_transfer := (drc20_inscribe_transfer L)(inscription_id_store i := None)\<rparr>"

definition update_token_balance ::
  "('s, 'a, 'h, 'j) drc_env \<Rightarrow> ('a, 'h) script_key \<Rightarrow> balance \<Rightarrow>
   ('a, 'h) script_key ledger \<Rightarrow> ('a, 'h) script_key ledger" where
  "update_token_balance E script b L =
    L\<lparr>drc20_token_balance := redb_insert (script_tick_key E script (b_tick b)) b (drc20_token_balance L)\<rparr>"

definition get_balance ::
  "('s, 'a, 'h, 'j) drc_env \<Rightarrow> ('a, 'h) script_key \<Rightarrow> tick \<Rightarrow> ('a, 'h) script_key ledger \<Rightarrow> balance option" where
  "get_balance E script t L = map_of (drc20_token_balance L) (script_tick_key E script t)"

definition get_token_info :: "('s, 'a, 'h, 'j) drc_env \<Rightarrow> tick \<Rightarrow> 'k ledger \<Rightarrow> 'k token_info option" where
  "get_token_info E t L = drc20_token_info L (lower_tick_hex E t)"

definition insert_token_info :: "('s, 'a, 'h, 'j) drc_env \<Rightarrow> tick \<Rightarrow> 'k token_info \<Rightarrow> 'k ledger \<Rightarrow> 'k ledger" where
  "insert_token_info E t info L = L\<lparr>drc20_token_info := (drc20_token_info L)(lower_tick_hex E t \<mapsto> info)\<rparr>"

definition update_mint_token_info :: "('s, 'a, 'h, 'j) drc_env \<Rightarrow> tick \<Rightarrow> u128 \<Rightarrow> u64 \<Rightarrow> ('k, unit) drc" where
  "update_mint_token_info E t minted_amt minted_block_number =
    (\<lambda>L. case get_token_info E t L of
       None \<Rightarrow> (Inl (ProcPanic Explicit), L)
     | Some info \<Rightarrow> (Inr (), insert_token_info E t
         (info\<lparr>ti_minted := minted_amt, ti_latest_mint_number := minted_block_number\<rparr>) L))"

definition insert_token_holder ::
  "('s, 'a, 'h, 'j) drc_env \<Rightarrow> ('a, 'h) script_key \<Rightarrow> tick \<Rightarrow> 'k ledger \<Rightarrow> 'k ledger" where
  "insert_token_holder E script t L =
    L\<lparr>drc20_token_holder := insert (lower_tick_hex E t, key_text E script) (drc20_token_holder L)\<rparr>"

definition remove_token_holder ::
  "('s, 'a, 'h, 'j) drc_env \<Rightarrow> ('a, 'h) script_key \<Rightarrow> tick \<Rightarrow> 'k ledger \<Rightarrow> 'k ledger" where
  "remove_token_holder E script t L =
    L\<lparr>drc20_token_holder := drc20_token_holder L - {(lower_tick_hex E t, key_text E script)}\<rparr>"

section \<open>Operations\<close>

definition num_of :: "'n bigdec \<Rightarrow> u128 \<Rightarrow> 'n" where
  "num_of B n = bd_from_nat B n"

definition process_deploy ::
  "'n bigdec \<Rightarrow> ('s, 'a, 'h, 'j) drc_env \<Rightarrow> block_context \<Rightarrow> ('a, 'h) script_key execution_message \<Rightarrow> deploy \<Rightarrow>
   (('a, 'h) script_key, ('a, 'h) script_key event) drc" where
  "process_deploy B E context msg d =
    drc_bind (drc_try (ok_or InscribeToCoinbase (em_to msg))) (\<lambda>to_script_key.
    drc_bind (drc_try (tick_from_str (dp_tick d))) (\<lambda>t.
    drc_bind (drc_read (get_token_info E t)) (\<lambda>stored.
    case stored of
      Some stored_tick_info \<Rightarrow> drc_fail (DuplicateTick (ti_tick stored_tick_info))
    | None \<Rightarrow>
    drc_bind (drc_try (num_from_str B (case dp_decimals d of None \<Rightarrow> show_nat MAX_DECIMAL_WIDTH | Some v \<Rightarrow> v))) (\<lambda>n.
    drc_bind (drc_try (num_checked_to_u8 B n)) (\<lambda>dec.
    if MAX_DECIMAL_WIDTH < dec then drc_fail (DecimalsTooLarge dec)
    else
    drc_bind (drc_try (num_checked_powu B (BIGDECIMAL_TEN B) dec)) (\<lambda>base.
    drc_bind (drc_try (num_from_str B (dp_max_supply d))) (\<lambda>supply.
    if bd_no_sign B supply \<or> bd_less B (MAXIMUM_SUPPLY B) supply then drc_fail (InvalidSupply (bd_to_string B supply))
    else
    drc_bind (drc_try (num_from_str B (case dp_mint_limit d of None \<Rightarrow> dp_max_supply d | Some v \<Rightarrow> v))) (\<lambda>limit.
    if bd_no_sign B limit \<or> bd_less B (MAXIMUM_SUPPLY B) limit then
      drc_fail (MintLimitOutOfRange (to_lowercase E t) (bd_to_string B limit))
    else
    drc_bind (drc_try (res_bind (num_checked_mul B supply base) (num_checked_to_u128 B))) (\<lambda>supply.
    drc_bind (drc_try (res_bind (num_checked_mul B limit base) (num_checked_to_u128 B))) (\<lambda>limit.
    let new_info = \<lparr>ti_tick = t, ti_inscription_id = em_inscription_id msg,
          ti_inscription_number = em_inscription_number msg, ti_supply = supply, ti_minted = 0,
          ti_limit_per_mint = limit, ti_decimal = dec, ti_deploy_by = to_script_key,
          ti_deployed_number = bc_blockheight context, ti_deployed_timestamp = bc_blocktime context,
          ti_latest_mint_number = bc_blockheight context\<rparr>
    in drc_bind (drc_write (insert_token_info E t new_info)) (\<lambda>_.
       drc_return (DeployEvent \<lparr>ev_deploy_vout = op_vout (sp_outpoint (em_new_satpoint msg)),
         ev_deployed_by = to_script_key, ev_supply = supply, ev_limit_per_mint = limit, ev_decimal = dec,
         ev_deploy_tick = ti_tick new_info\<rparr>))))))))))))"

text \<open>A mint, up to the cut-off of the amount at the supply, and from the balance on.\<close>

definition mint_amount ::
  "'n bigdec \<Rightarrow> ('s, 'a, 'h, 'j) drc_env \<Rightarrow> ('a, 'h) script_key execution_message \<Rightarrow> mint \<Rightarrow>
   (('a, 'h) script_key, ('a, 'h) script_key \<times> tick \<times> ('a, 'h) script_key token_info \<times> ustr option \<times> 'n) drc" where
  "mint_amount B E msg m =
    drc_bind (drc_try (ok_or InscribeToCoinbase (em_to msg))) (\<lambda>to_script_key.
    drc_bind (drc_try (tick_from_str (mt_tick m))) (\<lambda>t.
    drc_bind (drc_read (get_token_info E t)) (\<lambda>stored.
    drc_bind (drc_try (ok_or (TickNotFound t) stored)) (\<lambda>token_info.
    drc_bind (drc_try (num_checked_powu B (BIGDECIMAL_TEN B) (ti_decimal token_info))) (\<lambda>base.
    drc_bind (drc_try (num_from_str B (mt_amount m))) (\<lambda>amt.
    if int (ti_decimal token_info) < bd_scale B amt then drc_fail (AmountOverflow (bd_to_string B amt))
    else
    drc_bind (drc_try (num_checked_mul B amt base)) (\<lambda>amt.
    if bd_no_sign B amt then drc_fail InvalidZeroAmount
    else if bd_less B (num_of B (ti_limit_per_mint token_info)) amt then drc_fail (AmountExceedLimit (bd_to_string B amt))
    else
    let minted = num_of B (ti_minted token_info);
        supply = num_of B (ti_supply token_info)
    in if \<not> bd_less B minted supply then drc_fail (TickMinted (ti_tick token_info))
    else
    drc_bind (drc_try (num_checked_add B amt minted)) (\<lambda>total.
    if bd_less B supply total
    then
      drc_bind (drc_try (num_checked_sub B supply minted)) (\<lambda>new.
      drc_return (to_script_key, t, token_info,
        Some (str ''amt has been cut off to fit the supply! origin: '' @ bd_to_string B amt @
              str '', now: '' @ bd_to_string B new), new))
    else drc_return (to_script_key, t, token_info, None, amt)))))))))"

definition credit_mint ::
  "'n bigdec \<Rightarrow> ('s, 'a, 'h, 'j) drc_env \<Rightarrow> block_context \<Rightarrow> ('a, 'h) script_key execution_message \<Rightarrow>
   ('a, 'h) script_key \<times> tick \<times> ('a, 'h) script_key token_info \<times> ustr option \<times> 'n \<Rightarrow>
   (('a, 'h) script_key, ('a, 'h) script_key event) drc" where
  "credit_mint B E context msg = (\<lambda>(to_script_key, t, token_info, out_msg, amt).
    drc_bind (drc_read (get_balance E to_script_key t)) (\<lambda>stored.
    let balance = (case stored of None \<Rightarrow> balance_new t | Some v \<Rightarrow> v)
    in drc_bind (drc_try (res_bind (num_checked_add B (num_of B (b_overall balance)) amt) (num_checked_to_u128 B))) (\<lambda>overall.
    let balance = balance\<lparr>b_overall := overall\<rparr>
    in drc_bind (drc_write (update_token_balance E to_script_key balance)) (\<lambda>_.
    drc_bind (drc_write (insert_token_holder E to_script_key t)) (\<lambda>_.
    drc_bind (drc_try (res_bind (num_checked_add B (num_of B (ti_minted token_info)) amt) (num_checked_to_u128 B))) (\<lambda>minted.
    drc_bind (update_mint_token_info E t minted (bc_blockheight context)) (\<lambda>_.
    drc_bind (drc_try (num_checked_to_u128 B amt)) (\<lambda>amount.
    drc_return (MintEvent \<lparr>ev_mint_vout = op_vout (sp_outpoint (em_new_satpoint msg)), ev_mint_to = to_script_key,
      ev_mint_tick = ti_tick token_info, ev_mint_amount = amount, ev_mint_msg = out_msg\<rparr>)))))))))"

definition process_mint ::
  "'n bigdec \<Rightarrow> ('s, 'a, 'h, 'j) drc_env \<Rightarrow> block_context \<Rightarrow> ('a, 'h) script_key execution_message \<Rightarrow> mint \<Rightarrow>
   (('a, 'h) script_key, ('a, 'h) script_key event) drc" where
  "process_mint B E context msg m = drc_bind (mint_amount B E msg m) (credit_mint B E context msg)"

definition process_inscribe_transfer ::
  "'n bigdec \<Rightarrow> ('s, 'a, 'h, 'j) drc_env \<Rightarrow> ('a, 'h) script_key execution_message \<Rightarrow> transfer \<Rightarrow>
   (('a, 'h) script_key, ('a, 'h) script_key event) drc" where
  "process_inscribe_transfer B E msg tf =
    drc_bind (drc_try (ok_or InscribeToCoinbase (em_to msg))) (\<lambda>to_script_key.
    drc_bind (drc_try (tick_from_str (tf_tick tf))) (\<lambda>t.
    drc_bind (drc_read (get_token_info E t)) (\<lambda>stored.
    drc_bind (drc_try (ok_or (TickNotFound t) stored)) (\<lambda>token_info.
    drc_bind (drc_try (num_checked_powu B (BIGDECIMAL_TEN B) (ti_decimal token_info))) (\<lambda>base.
    drc_bind (drc_try (num_from_str B (tf_amount tf))) (\<lambda>amt.
    if int (ti_decimal token_info) < bd_scale B amt then drc_fail (AmountOverflow (bd_to_string B amt))
    else
    drc_bind (drc_try (num_checked_mul B amt base)) (\<lambda>amt.
    if bd_no_sign B amt \<or> bd_less B (num_of B (ti_supply token_info)) amt then
      drc_fail (AmountOverflow (bd_to_string B amt))
    else
    drc_bind (drc_read (get_balance E to_script_key t)) (\<lambda>stored.
    let balance = (case stored of None \<Rightarrow> balance_new t | Some v \<Rightarrow> v);
        overall = num_of B (b_overall balance);
        transferable = num_of B (b_transferable balance)
    in drc_bind (drc_try (num_checked_sub B overall transferable)) (\<lambda>available.
    if bd_less B available amt then drc_fail (InsufficientBalance (bd_to_string B available) (bd_to_string B amt))
    else
    drc_bind (drc_try (res_bind (num_checked_add B transferable amt) (num_checked_to_u128 B))) (\<lambda>transferable.
    let balance = balance\<lparr>b_transferable := transferable\<rparr>
    in drc_bind (drc_try (num_checked_to_u128 B amt)) (\<lambda>amt.
    drc_bind (drc_write (update_token_balance E to_script_key balance)) (\<lambda>_.
    let row = \<lparr>tl_inscription_id = em_inscription_id msg, tl_inscription_number = em_inscription_number msg,
          tl_amount = amt, tl_tick = ti_tick token_info, tl_owner = to_script_key\<rparr>
    in drc_bind (drc_write (insert_transferable E (tl_owner row) t row)) (\<lambda>_.
    drc_bind (drc_write (insert_inscribe_transfer_inscription (em_inscription_id msg)
      \<lparr>tr_tick = tl_tick row, tr_amt = amt\<rparr>)) (\<lambda>_.
    drc_return (InscribeTransferEvent \<lparr>ev_inscribe_to = to_script_key,
      ev_inscribe_vout = op_vout (sp_outpoint (em_new_satpoint msg)), ev_inscribe_tick = ti_tick token_info,
      ev_inscribe_amount = amt\<rparr>)))))))))))))))"

text \<open>A transfer, up to the sender's new balance, and from the first write on.\<close>

definition transfer_source ::
  "'n bigdec \<Rightarrow> ('s, 'a, 'h, 'j) drc_env \<Rightarrow> ('a, 'h) script_key execution_message \<Rightarrow>
   (('a, 'h) script_key, ('a, 'h) script_key transferable_log \<times> ('a, 'h) script_key token_info \<times> balance) drc" where
  "transfer_source B E msg =
    drc_bind (drc_read (get_transferable_by_id E (em_from msg) (em_inscription_id msg))) (\<lambda>found.
    drc_bind (drc_try (ok_or (TransferableNotFound (em_inscription_id msg)) found)) (\<lambda>transferable.
    let amt = num_of B (tl_amount transferable)
    in if key_text E (tl_owner transferable) \<noteq> key_text E (em_from msg) then
      drc_fail (TransferableOwnerNotMatch (em_inscription_id msg))
    else
    let t = tl_tick transferable
    in drc_bind (drc_read (get_token_info E t)) (\<lambda>stored.
    drc_bind (drc_try (ok_or (TickNotFound t) stored)) (\<lambda>token_info.
    drc_bind (drc_read (get_balance E (em_from msg) t)) (\<lambda>stored.
    let from_balance = (case stored of None \<Rightarrow> balance_new t | Some v \<Rightarrow> v)
    in drc_bind (drc_try (res_bind (num_checked_sub B (num_of B (b_overall from_balance)) amt) (num_checked_to_u128 B))) (\<lambda>from_overall.
    drc_bind (drc_try (res_bind (num_checked_sub B (num_of B (b_transferable from_balance)) amt) (num_checked_to_u128 B))) (\<lambda>from_transferable.
    drc_return (transferable, token_info,
      from_balance\<lparr>b_overall := from_overall, b_transferable := from_transferable\<rparr>))))))))"

definition transfer_move ::
  "'n bigdec \<Rightarrow> ('s, 'a, 'h, 'j) drc_env \<Rightarrow> ('a, 'h) script_key execution_message \<Rightarrow>
   ('a, 'h) script_key transferable_log \<times> ('a, 'h) script_key token_info \<times> balance \<Rightarrow>
   (('a, 'h) script_key, ('a, 'h) script_key event) drc" where
  "transfer_move B E msg = (\<lambda>(transferable, token_info, from_balance).
    let t = tl_tick transferable;
        amt = num_of B (tl_amount transferable)
    in drc_bind (drc_write (update_token_balance E (em_from msg) from_balance)) (\<lambda>_.
    let to_script_key = (case em_to msg of None \<Rightarrow> em_from msg | Some k \<Rightarrow> k)
    in drc_bind (drc_read (get_balance E to_script_key t)) (\<lambda>stored.
    let to_balance = (case stored of None \<Rightarrow> balance_new t | Some v \<Rightarrow> v)
    in drc_bind (drc_try (res_bind (num_checked_add B (num_of B (b_overall to_balance)) amt) (num_checked_to_u128 B))) (\<lambda>to_overall.
    let to_balance = to_balance\<lparr>b_overall := to_overall\<rparr>
    in drc_bind (drc_write (update_token_balance E to_script_key to_balance)) (\<lambda>_.
    drc_bind (drc_write (insert_token_holder E to_script_key t)) (\<lambda>_.
    drc_bind (drc_write (if b_overall from_balance = 0 \<and> em_from msg \<noteq> to_script_key
                         then remove_token_holder E (em_from msg) t else (\<lambda>L. L))) (\<lambda>_.
    drc_bind (drc_write (remove_transferable E (em_from msg) t (em_inscription_id msg))) (\<lambda>_.
    drc_bind (drc_write (remove_inscribe_transfer_inscription (em_inscription_id msg))) (\<lambda>_.
    drc_bind (drc_try (num_checked_to_u128 B amt)) (\<lambda>amount.
    drc_return (TransferEvent \<lparr>ev_transfer_from = em_from msg, ev_transfer_to = to_script_key,
      ev_transfer_vout = op_vout (sp_outpoint (em_new_satpoint msg)), ev_transfer_tick = ti_tick token_info,
      ev_transfer_amount = amount\<rparr>)))))))))))"

definition process_transfer ::
  "'n bigdec \<Rightarrow> ('s, 'a, 'h, 'j) drc_env \<Rightarrow> ('a, 'h) script_key execution_message \<Rightarrow>
   (('a, 'h) script_key, ('a, 'h) script_key event) drc" where
  "process_transfer B E msg = drc_bind (transfer_source B E msg) (transfer_move B E msg)"

section \<open>Messages\<close>

text \<open>Errors that end the indexing of the block, which is then not committed.\<close>

datatype index_error =
  NewSatpointNone | InscriptionNumberNotFound inscription_id | OutpointNotFound outpoint
  | HeightOutOfRange u64 | IndexPanic rust_panic

definition process_message ::
  "'n bigdec \<Rightarrow> ('s, 'a, 'h, 'j) drc_env \<Rightarrow> block_context \<Rightarrow> ('a, 'h) script_key execution_message \<Rightarrow>
   (('a, 'h) script_key, ('a, 'h) script_key event) drc" where
  "process_message B E context msg =
    (case em_op msg of
       OpDeploy d \<Rightarrow> process_deploy B E context msg d
     | OpMint m \<Rightarrow> process_mint B E context msg m
     | OpInscribeTransfer t \<Rightarrow> process_inscribe_transfer B E msg t
     | OpTransfer _ \<Rightarrow> process_transfer B E msg)"

fun op_type :: "operation \<Rightarrow> operation_type" where
  "op_type (OpDeploy _) = DeployType"
| "op_type (OpMint _) = MintType"
| "op_type (OpInscribeTransfer _) = InscribeTransferType"
| "op_type (OpTransfer _) = TransferType"

fun op_tick :: "operation \<Rightarrow> ustr" where
  "op_tick (OpDeploy d) = dp_tick d"
| "op_tick (OpMint m) = mt_tick m"
| "op_tick (OpInscribeTransfer t) = tf_tick t"
| "op_tick (OpTransfer t) = tf_tick t"

definition make_decision ::
  "block_context \<Rightarrow> 'k execution_message \<Rightarrow> u32 \<Rightarrow> verdict \<times> drc20_error option \<times> u128 option \<Rightarrow> decision" where
  "make_decision context msg height = (\<lambda>(verdict, reason, amount).
    \<lparr>dc_version = DECISION_RECORD_VERSION, dc_txid = em_txid msg, dc_inscription_id = em_inscription_id msg,
     dc_operation = op_type (em_op msg), dc_tick = op_tick (em_op msg), dc_amount = amount, dc_verdict = verdict,
     dc_reason = reason, dc_height = height, dc_block_hash = bc_blockhash context,
     dc_reorg_epoch = bc_reorg_epoch context, dc_ruleset = DRC20_RULESET\<rparr>)"

text \<open>Executing a message once its number and its keys have been read, and recording the decision.\<close>

definition execute ::
  "'n bigdec \<Rightarrow> ('s, 'a, 'h, 'j) drc_env \<Rightarrow> block_context \<Rightarrow> ('a, 'h) script_key execution_message \<Rightarrow>
   ('a, 'h) script_key ledger \<Rightarrow> index_error + ('a, 'h) script_key ledger" where
  "execute B E context msg L =
    (let (result, L) = process_message B E context msg L
     in res_bind
       (case result of
          Inr event \<Rightarrow> Inr (Accepted, None, event_amount event)
        | Inl (DRC20Error e) \<Rightarrow> Inr (Rejected, Some e, None)
        | Inl (ProcPanic p) \<Rightarrow> Inl (IndexPanic p)) (\<lambda>outcome.
     res_bind (ok_or (HeightOutOfRange (bc_blockheight context)) (try_from u32_max (bc_blockheight context))) (\<lambda>height.
     Inr (L\<lparr>drc20_operation_decisions := (drc20_operation_decisions L)
       (decision_key (em_txid msg) (em_inscription_id msg) \<mapsto> make_decision context msg height outcome)\<rparr>))))"

record drc_message =
  ms_txid :: txid
  ms_inscription_id :: inscription_id
  ms_old_satpoint :: sat_point
  ms_new_satpoint :: "sat_point option"
  ms_op :: operation
  ms_sat_in_outputs :: bool

datatype action = NewAction inscription | TransferAction

record inscription_op =
  io_txid :: txid
  io_action :: action
  io_inscription_number :: "u64 option"
  io_inscription_id :: inscription_id
  io_old_satpoint :: sat_point
  io_new_satpoint :: "sat_point option"

text \<open>Where scripts of earlier outputs come from: this block and what was prefetched, the stored transactions, the node.\<close>

record 's drc_chain =
  block_output_scripts :: "txid \<rightharpoonup> 's list"
  transaction_id_to_transaction :: "txid \<rightharpoonup> 's list"
  node_transaction :: "txid \<rightharpoonup> 's list"
  inscription_id_to_inscription_entry :: "byte list \<rightharpoonup> inscription_entry_value"

definition get_script_key_on_satpoint ::
  "('s, 'a, 'h, 'j) drc_env \<Rightarrow> 's drc_chain \<Rightarrow> sat_point \<Rightarrow> index_error + ('a, 'h) script_key" where
  "get_script_key_on_satpoint E C satpoint =
    (let txid = op_txid (sp_outpoint satpoint);
         vout = op_vout (sp_outpoint satpoint);
         missing = OutpointNotFound (sp_outpoint satpoint)
     in case block_output_scripts C txid of
          Some scripts \<Rightarrow>
            res_bind (ok_or missing (slice_get scripts vout)) (\<lambda>script. Inr (key_from_script E script))
        | None \<Rightarrow>
            res_bind (case transaction_id_to_transaction C txid of
                        Some tx \<Rightarrow> Inr tx
                      | None \<Rightarrow> ok_or missing (node_transaction C txid)) (\<lambda>tx.
            res_bind (ok_or missing (slice_get tx vout)) (\<lambda>script. Inr (key_from_script E script))))"

definition get_number_by_inscription_id :: "'s drc_chain \<Rightarrow> inscription_id \<Rightarrow> u64 option" where
  "get_number_by_inscription_id C i =
    map_option (\<lambda>v. ie_inscription_number (inscription_entry_load v))
      (inscription_id_to_inscription_entry C (ii_txid i @ rev (le_bytes 4 (ii_index i))))"

definition create_execution_message ::
  "('s, 'a, 'h, 'j) drc_env \<Rightarrow> 's drc_chain \<Rightarrow> drc_message \<Rightarrow> index_error + ('a, 'h) script_key execution_message" where
  "create_execution_message E C m =
    res_bind (ok_or (InscriptionNumberNotFound (ms_inscription_id m)) (get_number_by_inscription_id C (ms_inscription_id m))) (\<lambda>number.
    res_bind (ok_or NewSatpointNone (ms_new_satpoint m)) (\<lambda>new_satpoint.
    res_bind (get_script_key_on_satpoint E C (ms_old_satpoint m)) (\<lambda>from.
    res_bind (if ms_sat_in_outputs m
              then res_bind (get_script_key_on_satpoint E C new_satpoint) (\<lambda>k. Inr (Some k))
              else Inr None) (\<lambda>to_key.
    Inr \<lparr>em_txid = ms_txid m, em_inscription_id = ms_inscription_id m, em_inscription_number = number,
         em_old_satpoint = ms_old_satpoint m, em_new_satpoint = new_satpoint, em_from = from, em_to = to_key,
         em_op = ms_op m\<rparr>))))"

definition execute_message ::
  "'n bigdec \<Rightarrow> ('s, 'a, 'h, 'j) drc_env \<Rightarrow> 's drc_chain \<Rightarrow> block_context \<Rightarrow> drc_message \<Rightarrow>
   ('a, 'h) script_key ledger \<Rightarrow> index_error + ('a, 'h) script_key ledger" where
  "execute_message B E C context m L =
    res_bind (create_execution_message E C m) (\<lambda>exec_msg. execute B E context exec_msg L)"

section \<open>From inscriptions to messages\<close>

text \<open>\<open>str::from_utf8\<close>: the well-formed byte sequences of the Unicode standard.\<close>

abbreviation utf8_tail :: "nat \<Rightarrow> bool" where
  "utf8_tail c \<equiv> 128 \<le> c \<and> c \<le> 191"

fun utf8_valid :: "nat list \<Rightarrow> bool" where
  "utf8_valid [] = True"
| "utf8_valid (b # bs) =
    (if b < 128 then utf8_valid bs
     else if 194 \<le> b \<and> b \<le> 223 then
       (case bs of c # cs \<Rightarrow> utf8_tail c \<and> utf8_valid cs | [] \<Rightarrow> False)
     else if 224 \<le> b \<and> b \<le> 239 then
       (case bs of c # d # ds \<Rightarrow>
          utf8_tail c \<and> utf8_tail d \<and> (b = 224 \<longrightarrow> 160 \<le> c) \<and> (b = 237 \<longrightarrow> c \<le> 159) \<and> utf8_valid ds
        | _ \<Rightarrow> False)
     else if 240 \<le> b \<and> b \<le> 244 then
       (case bs of c # d # e # es \<Rightarrow>
          utf8_tail c \<and> utf8_tail d \<and> utf8_tail e \<and> (b = 240 \<longrightarrow> 144 \<le> c) \<and> (b = 244 \<longrightarrow> c \<le> 143) \<and> utf8_valid es
        | _ \<Rightarrow> False)
     else False)"

definition from_utf8 :: "byte list \<Rightarrow> ustr option" where
  "from_utf8 bs = (let s = map unat bs in if utf8_valid s then Some s else None)"

definition inscription_content_type :: "inscription \<Rightarrow> ustr option" where
  "inscription_content_type i = Option.bind (i_content_type i) from_utf8"

datatype json_error =
  InvalidContentType | UnSupportContentType | InvalidJson | NotDRC20Json | ParseOperationJsonError | BodyUtf8Error

definition deserialize_drc20 :: "('s, 'a, 'h, 'j) drc_env \<Rightarrow> ustr \<Rightarrow> json_error + raw_operation" where
  "deserialize_drc20 E s =
    res_bind (ok_or InvalidJson (json_from_str E s)) (\<lambda>v.
    if json_get_p E v \<noteq> Some PROTOCOL_LITERAL then Inl NotDRC20Json
    else ok_or ParseOperationJsonError (json_to_operation E v))"

definition starts_with :: "ustr \<Rightarrow> ustr \<Rightarrow> bool" where
  "starts_with p s \<longleftrightarrow> take (length p) s = p"

definition deserialize_drc20_operation ::
  "('s, 'a, 'h, 'j) drc_env \<Rightarrow> inscription \<Rightarrow> action \<Rightarrow> json_error + operation" where
  "deserialize_drc20_operation E i action =
    res_bind (ok_or InvalidJson (i_body i)) (\<lambda>body.
    res_bind (ok_or BodyUtf8Error (from_utf8 body)) (\<lambda>content_body.
    if length content_body < 40 then Inl NotDRC20Json
    else
    res_bind (ok_or InvalidContentType (inscription_content_type i)) (\<lambda>content_type.
    if \<not> starts_with (str ''text/plain'') content_type \<and> \<not> starts_with (str ''application/json'') content_type
    then Inl UnSupportContentType
    else
    res_bind (deserialize_drc20 E content_body) (\<lambda>raw.
    case action of
      NewAction _ \<Rightarrow>
        (case raw of
           RawDeploy d \<Rightarrow> Inr (OpDeploy d)
         | RawMint m \<Rightarrow> Inr (OpMint m)
         | RawTransfer t \<Rightarrow> Inr (OpInscribeTransfer t))
    | TransferAction \<Rightarrow>
        (case raw of RawTransfer t \<Rightarrow> Inr (OpTransfer t) | _ \<Rightarrow> Inl NotDRC20Json)))))"

definition message_resolve ::
  "('s, 'a, 'h, 'j) drc_env \<Rightarrow> (byte list \<rightharpoonup> transfer_info) \<Rightarrow> inscription list \<Rightarrow> inscription_op \<Rightarrow> drc_message option" where
  "message_resolve E transfers new_inscriptions op =
    (let sat_in_outputs = (case io_new_satpoint op of None \<Rightarrow> False | Some p \<Rightarrow> op_txid (sp_outpoint p) = io_txid op);
         drc20_operation =
           (case io_action op of
              NewAction _ \<Rightarrow>
                if sat_in_outputs then
                  (case deserialize_drc20_operation E
                     (case slice_get new_inscriptions (ii_index (io_inscription_id op)) of
                        Some i \<Rightarrow> i
                      | None \<Rightarrow> \<lparr>i_body = None, i_content_type = None, i_delegate = None\<rparr>)
                     (io_action op) of
                     Inr o' \<Rightarrow> Some o'
                   | Inl _ \<Rightarrow> None)
                else None
            | TransferAction \<Rightarrow>
                (case transfers (inscription_id_store (io_inscription_id op)) of
                   Some info \<Rightarrow>
                     if ii_txid (io_inscription_id op) = op_txid (sp_outpoint (io_old_satpoint op))
                     then Some (OpTransfer \<lparr>tf_tick = to_lowercase E (tr_tick info), tf_amount = show_nat (tr_amt info)\<rparr>)
                     else None
                 | None \<Rightarrow> None))
     in map_option (\<lambda>o'. \<lparr>ms_txid = io_txid op, ms_inscription_id = io_inscription_id op,
          ms_old_satpoint = io_old_satpoint op, ms_new_satpoint = io_new_satpoint op, ms_op = o',
          ms_sat_in_outputs = sat_in_outputs\<rparr>) drc20_operation)"

record 's drc_tx =
  dx_inputs :: "(outpoint \<times> byte list) list"
  dx_outputs :: "'s list"

text \<open>The operations at the front of the queue that spend this input, and the rest of the queue.\<close>

fun resolve_input ::
  "(inscription_op \<Rightarrow> drc_message option) \<Rightarrow> outpoint \<Rightarrow> inscription_op list \<Rightarrow> drc_message list \<times> inscription_op list" where
  "resolve_input resolve previous_output [] = ([], [])"
| "resolve_input resolve previous_output (op # ops) =
    (if sp_outpoint (io_old_satpoint op) \<noteq> previous_output then ([], op # ops)
     else
       let (messages, rest) = resolve_input resolve previous_output ops
       in (case resolve op of None \<Rightarrow> messages | Some m \<Rightarrow> m # messages, rest))"

fun resolve_inputs ::
  "(inscription_op \<Rightarrow> drc_message option) \<Rightarrow> outpoint list \<Rightarrow> inscription_op list \<Rightarrow> drc_message list" where
  "resolve_inputs resolve [] ops = []"
| "resolve_inputs resolve (p # ps) ops =
    (let (messages, rest) = resolve_input resolve p ops
     in messages @ resolve_inputs resolve ps rest)"

definition resolve_message ::
  "('s, 'a, 'h, 'j) drc_env \<Rightarrow> 'k ledger \<Rightarrow> 's drc_tx \<Rightarrow> inscription_op list \<Rightarrow> drc_message list" where
  "resolve_message E L tx ops =
    (let new_inscriptions =
           (case from_transactions [map snd (dx_inputs tx)] of Complete i \<Rightarrow> [i] | _ \<Rightarrow> [])
     in resolve_inputs (message_resolve E (drc20_inscribe_transfer L) new_inscriptions) (map fst (dx_inputs tx)) ops)"

definition null_outpoint :: outpoint where
  "null_outpoint = \<lparr>op_txid = zero_txid, op_vout = u32_max\<rparr>"

text \<open>
  Prefetching: the transactions of the satpoints that are not in the block, requested in at most 32 chunks.
  The order of the \<open>HashSet\<close> of ids is that of their first use here. \<open>fetcher\<close> is what \<open>Fetcher::new\<close> and the
  runtime's builder gave.
\<close>

definition prefetch_txids :: "'s drc_chain \<Rightarrow> (txid \<times> inscription_op list) list \<Rightarrow> txid list" where
  "prefetch_txids C operations =
    remdups (filter (\<lambda>t. t \<noteq> zero_txid \<and> block_output_scripts C t = None)
      (concat (map (\<lambda>op. op_txid (sp_outpoint (io_old_satpoint op)) #
         (case io_new_satpoint op of None \<Rightarrow> [] | Some p \<Rightarrow> [op_txid (sp_outpoint p)])) (concat (map snd operations)))))"

definition prefetch_satpoint_transactions ::
  "(fetch_error + 's fetcher) \<Rightarrow> (txid \<times> inscription_op list) list \<Rightarrow> 's drc_chain \<Rightarrow> 's drc_chain" where
  "prefetch_satpoint_transactions fetcher operations C =
    (let txids = prefetch_txids C operations
     in if txids = [] then C
        else
          let chunk_size = (length txids + 31) div 32;
              fetched = res_bind fetcher (\<lambda>F. fetch_chunks F chunk_size txids)
          in case fetched of
               Inr txs \<Rightarrow> C\<lparr>block_output_scripts :=
                 foldl (\<lambda>m (t, tx). m(t \<mapsto> map txo_script (tx_output tx))) (block_output_scripts C) (zip txids txs)\<rparr>
             | Inl error \<Rightarrow> C)"

definition block_chain :: "('s drc_tx \<times> txid) list \<Rightarrow> 's drc_chain \<Rightarrow> 's drc_chain" where
  "block_chain txdata C = C\<lparr>block_output_scripts := map_of (rev (map (\<lambda>(tx, txid). (txid, dx_outputs tx)) txdata))\<rparr>"

definition index_transaction ::
  "'n bigdec \<Rightarrow> ('s, 'a, 'h, 'j) drc_env \<Rightarrow> 's drc_chain \<Rightarrow> block_context \<Rightarrow> (txid \<times> inscription_op list) list \<Rightarrow>
   's drc_tx \<times> txid \<Rightarrow> ('a, 'h) script_key ledger \<Rightarrow> index_error + ('a, 'h) script_key ledger" where
  "index_transaction B E C context operations tx L =
    (if dx_inputs (fst tx) \<noteq> [] \<and> fst (hd (dx_inputs (fst tx))) = null_outpoint then Inr L
     else
       case map_of operations (snd tx) of
         None \<Rightarrow> Inr L
       | Some tx_operations \<Rightarrow>
           res_fold (execute_message B E C context) (resolve_message E L (fst tx) tx_operations) L)"

definition index_block ::
  "'n bigdec \<Rightarrow> ('s, 'a, 'h, 'j) drc_env \<Rightarrow> bool \<Rightarrow> (fetch_error + 's fetcher) \<Rightarrow> 's drc_chain \<Rightarrow> block_context \<Rightarrow>
   ('s drc_tx \<times> txid) list \<Rightarrow> (txid \<times> inscription_op list) list \<Rightarrow> ('a, 'h) script_key ledger \<Rightarrow>
   index_error + ('a, 'h) script_key ledger" where
  "index_block B E has_transaction_index fetcher C context txdata operations L =
    (let C = block_chain txdata C;
         C = (if \<not> has_transaction_index then prefetch_satpoint_transactions fetcher operations C else C)
     in res_fold (index_transaction B E C context operations) txdata L)"

end
