(* ===== verification/Drc20_Ledger.thy ===== *)
theory Drc20_Ledger
  imports Drc20
begin

text \<open>
  What the DRC-20 ledger keeps. The decimals of the operations are read as exact numbers, the
  string keys of the tables are shown to determine script, tick and inscription, and every operation
  keeps the ledger's invariant: the balances of a token add up to what has been minted, which never
  exceeds its supply, and the transferable part of a balance is the sum of its pending transfers.
\<close>

section \<open>Exact numbers\<close>

lemma exactD:
  assumes "bigdec_exact B val"
  shows "val (bd_add B a b) = val a + val b" "val (bd_sub B a b) = val a - val b"
    "val (bd_mul B a b) = val a * val b" "val (bd_one B) = 1" "bd_less B a b \<longleftrightarrow> val a < val b"
    "bd_is_integer B a \<longleftrightarrow> val a \<in> \<int>" "bd_no_sign B a \<longleftrightarrow> val a = 0"
    "val (bd_from_nat B n) = of_nat n" "val (num_of B n) = of_nat n"
  using assms by (simp_all add: bigdec_exact_def num_of_def)

lemma exact_bigint:
  assumes "bigdec_exact B val" and "val a = of_int i"
  shows "bd_to_bigint B a = Some i"
  using assms unfolding bigdec_exact_def by blast

lemma exact_scale:
  assumes "bigdec_exact B val" and "bd_scale B a \<le> int d"
  shows "val a * 10 ^ d \<in> \<int>"
  using assms unfolding bigdec_exact_def by blast

lemma num_to_u128_Inr:
  assumes "bigdec_exact B val"
  shows "num_checked_to_u128 B a = Inr n \<longleftrightarrow> val a = of_nat n \<and> n \<le> u128_max"
proof (cases "val a \<in> \<int>")
  case True
  then obtain i where i: "val a = of_int i" by (elim Ints_cases)
  then have "num_checked_to_u128 B a = Inr n \<longleftrightarrow> int_to_u128 i = Some n"
    using assms exact_bigint [OF assms i] True by (simp add: num_checked_to_u128_def exactD ok_or_Inr)
  also have "\<dots> \<longleftrightarrow> i = int n \<and> n \<le> u128_max" by (auto simp: int_to_u128_def)
  also have "\<dots> \<longleftrightarrow> val a = of_nat n \<and> n \<le> u128_max"
    using i by (metis of_int_eq_iff of_int_of_nat_eq)
  finally show ?thesis .
next
  case False
  then have "val a \<noteq> of_nat n" by auto
  with False assms show ?thesis by (simp add: num_checked_to_u128_def exactD)
qed

lemma num_from_str_nonneg:
  assumes "bigdec_exact B val" and "num_from_str B s = Inr n"
  shows "0 \<le> val n"
proof -
  from assms(2) have "bd_from_str B s = Some n" "45 \<notin> set s"
    by (auto simp: num_from_str_def res_simps list_ex_iff split: if_splits)
  with assms(1) show ?thesis unfolding bigdec_exact_def by blast
qed

lemma num_powu_ten:
  assumes "bigdec_exact B val"
  obtains b where "num_checked_powu B (BIGDECIMAL_TEN B) d = Inr b" "val b = 10 ^ d"
proof -
  have ten: "val (BIGDECIMAL_TEN B) = 10" using assms by (simp add: BIGDECIMAL_TEN_def exactD)
  have it: "val (((\<lambda>r. bd_mul B r (BIGDECIMAL_TEN B)) ^^ k) (BIGDECIMAL_TEN B)) = 10 ^ Suc k" for k
    by (induction k) (simp_all add: exactD [OF assms] ten)
  show thesis
  proof (cases "d = 0 \<or> d = 1")
    case True
    with that ten exactD(4) [OF assms] show ?thesis by (auto simp: num_checked_powu_def)
  next
    case False
    then have "10 ^ Suc (d - 1) = (10 ^ d :: rat)" by simp
    with that it [of "d - 1"] False show ?thesis by (simp add: num_checked_powu_def del: power_Suc)
  qed
qed

text \<open>An amount of at most as many decimals as the token is a whole number of its smallest unit.\<close>

lemma num_atomic:
  assumes "bigdec_exact B val" and "num_from_str B s = Inr n" and "bd_scale B n \<le> int d"
    and "num_checked_powu B (BIGDECIMAL_TEN B) d = Inr b"
  obtains a where "val (bd_mul B n b) = of_nat a" "val n * 10 ^ d = of_nat a"
proof -
  have "val b = 10 ^ d" using num_powu_ten [OF assms(1), of d] assms(4) by (metis sum.inject(2))
  then have v: "val (bd_mul B n b) = val n * 10 ^ d" using assms(1) by (simp add: exactD)
  obtain i where i: "val n * 10 ^ d = of_int i" using exact_scale [OF assms(1,3)] by (elim Ints_cases)
  have "0 \<le> val n * 10 ^ d" using num_from_str_nonneg [OF assms(1,2)] by simp
  then have "0 \<le> i" using i by simp
  then have "val n * 10 ^ d = of_nat (nat i)" using i by simp
  with that v show thesis by simp
qed

section \<open>Keys\<close>

lemma append_sep_inj:
  fixes c :: rchar
  assumes "c \<notin> set b" and "c \<notin> set d" and "a @ c # b = a' @ c # d"
  shows "a = a'" and "b = d"
proof -
  have "rsplit_once c (a @ c # b) = rsplit_once c (a' @ c # d)" using assms(3) by simp
  then show "a = a'" "b = d" using assms(1,2) by (simp_all add: rsplit_once_last)
qed

lemma show_nat_inj:
  assumes "show_nat a = show_nat b"
  shows "a = b"
proof -
  have "parse_digits (a + b) 0 (show_nat a) = Some a" by (rule parse_digits_show) simp
  moreover have "parse_digits (a + b) 0 (show_nat b) = Some b" by (rule parse_digits_show) simp
  ultimately have "Some a = Some b" using assms by argo
  then show ?thesis by (rule option.inject [THEN iffD1])
qed

lemma inscription_id_text_inj:
  assumes "txid_api_ok A" and "length (ii_txid i) = 32" and "length (ii_txid j) = 32"
    and "inscription_id_to_string A i = inscription_id_to_string A j"
  shows "i = j"
proof -
  have t: "txid_to_string A (ii_txid k) = hex_text (map unat (rev (ii_txid k)))" if "length (ii_txid k) = 32" for k
    using assms(1) that unfolding txid_api_ok_def by blast
  have "hex_text (map unat (rev (ii_txid i))) @ 105 # show_nat (ii_index i) =
      hex_text (map unat (rev (ii_txid j))) @ 105 # show_nat (ii_index j)"
    using assms(4) by (simp add: inscription_id_to_string_def t [OF assms(2)] t [OF assms(3)])
  then have h: "hex_text (map unat (rev (ii_txid i))) = hex_text (map unat (rev (ii_txid j)))"
    and n: "show_nat (ii_index i) = show_nat (ii_index j)"
    using assms(2,3)
      append_eq_append_conv [of "hex_text (map unat (rev (ii_txid i)))" "hex_text (map unat (rev (ii_txid j)))"
        "105 # show_nat (ii_index i)" "105 # show_nat (ii_index j)"]
    by simp_all
  from h have "unhex (hex_text (map unat (rev (ii_txid i)))) = unhex (hex_text (map unat (rev (ii_txid j))))"
    by simp
  then have "ii_txid i = ii_txid j" unfolding unhex_text by simp
  with show_nat_inj [OF n] show ?thesis by simp
qed

lemma env_okD:
  assumes "env_ok E"
  shows "hex_encode E bs = hex_text bs" "95 \<notin> set (key_text E k)" "txid_api_ok (env_txids E)"
    "length t = 4 \<Longrightarrow> length (to_lowercase E t) \<le> 8" "length t = 4 \<Longrightarrow> \<forall>b\<in>set (to_lowercase E t). b < 256"
  using assms by (simp_all add: env_ok_def)

lemma lower_tick:
  assumes "env_ok E" and "length t = 4"
  shows "length (lower_tick_bytes E t) = 16" "\<forall>b\<in>set (lower_tick_bytes E t). b < 256"
    "last (lower_tick_bytes E t) = 0" "length (lower_tick_hex E t) = 32"
    "lower_tick_hex E t = hex_text (lower_tick_bytes E t)"
proof -
  let ?l = "to_lowercase E t"
  have l: "length ?l \<le> 8" and b: "\<forall>x\<in>set ?l. x < 256" using env_okD(4,5) [OF assms] by simp_all
  show len: "length (lower_tick_bytes E t) = 16" using l by (simp add: lower_tick_bytes_def TICK_BYTE_COUNT_def Let_def)
  show "\<forall>b\<in>set (lower_tick_bytes E t). b < 256" using b by (auto simp: lower_tick_bytes_def Let_def)
  have "16 - length ?l \<noteq> 0" using l by simp
  then show "last (lower_tick_bytes E t) = 0"
    by (simp add: lower_tick_bytes_def TICK_BYTE_COUNT_def Let_def last_append)
  show h: "lower_tick_hex E t = hex_text (lower_tick_bytes E t)"
    using env_okD(1) [OF assms(1)] by (simp add: lower_tick_hex_def)
  show "length (lower_tick_hex E t) = 32" using len h by simp
qed

lemma script_tick_key_inj:
  assumes "env_ok E" and "length t = 4" and "length u = 4"
    and "script_tick_key E s t = script_tick_key E s' u"
  shows "key_text E s = key_text E s'" and "lower_tick_hex E t = lower_tick_hex E u"
  using assms lower_tick(4) [OF assms(1,2)] lower_tick(4) [OF assms(1,3)]
  by (simp_all add: script_tick_key_def append_eq_append_conv)

lemma script_tick_id_key_inj:
  assumes "env_ok E" and "length t = 4" and "length u = 4"
    and "length (ii_txid i) = 32" and "length (ii_txid j) = 32"
    and "script_tick_id_key E s t i = script_tick_id_key E s' u j"
  shows "script_tick_key E s t = script_tick_key E s' u" and "i = j"
proof -
  let ?x = "inscription_id_to_string (env_txids E)"
  have n: "95 \<notin> set (?x i)" "95 \<notin> set (?x j)"
    using assms(4,5) env_okD(3) [OF assms(1)] by (simp_all add: inscription_id_text_no_sep)
  have e: "script_tick_key E s t @ 95 # ?x i = script_tick_key E s' u @ 95 # ?x j"
    using assms(6) by (simp add: script_tick_id_key_def script_tick_key_def)
  show "script_tick_key E s t = script_tick_key E s' u" using append_sep_inj(1) [OF n e] .
  show "i = j"
    using append_sep_inj(2) [OF n e] inscription_id_text_inj [OF env_okD(3) [OF assms(1)] assms(4,5)] by simp
qed

lemma script_tick_id_key_cong:
  assumes "script_tick_key E s t = script_tick_key E s' u"
  shows "script_tick_id_key E s t i = script_tick_id_key E s' u i"
proof -
  have "script_tick_id_key E k v i = script_tick_key E k v @ 95 # inscription_id_to_string (env_txids E) i" for k v
    by (simp add: script_tick_id_key_def script_tick_key_def)
  with assms show ?thesis by simp
qed

section \<open>Ranges\<close>

lemma range_prefix:
  fixes k :: "rchar list"
  shows "p @ x \<le> k \<Longrightarrow> k < p @ y \<Longrightarrow> \<exists>z. k = p @ z"
proof (induction p arbitrary: k)
  case Nil
  then show ?case by simp
next
  case (Cons c p)
  from Cons.prems obtain c' k' where k: "k = c' # k'" by (cases k) auto
  with Cons.prems have "c' = c" "p @ x \<le> k'" "k' < p @ y" by auto
  with Cons.IH k show ?case by auto
qed

lemma replicate_le:
  fixes cs :: "rchar list"
  shows "\<forall>c\<in>set cs. m \<le> c \<Longrightarrow> replicate (length cs) m \<le> cs @ ds"
proof (induction cs)
  case Nil
  then show ?case by simp
next
  case (Cons c cs)
  then show ?case by (cases "m = c") auto
qed

lemma less_replicate:
  fixes cs :: "rchar list"
  shows "\<forall>c\<in>set cs. c \<le> m \<Longrightarrow> cs \<noteq> replicate (length cs) m \<Longrightarrow> cs @ ds < replicate (length cs) m"
  by (induction cs) (auto simp: le_less)

lemma append_less_iff:
  fixes p x y :: "rchar list"
  shows "p @ x < p @ y \<longleftrightarrow> x < y" "p @ x \<le> p @ y \<longleftrightarrow> x \<le> y"
  by (induction p) auto

lemma hex_text_replicate:
  "hex_text (replicate n 0) = replicate (2 * n) 48" "hex_text (replicate n 255) = replicate (2 * n) 102"
  by (induction n) (simp_all add: hex_digit_def)

lemma tick_hex_bounds:
  assumes "env_ok E" and "length t = 4"
  shows "min_hex E \<le> lower_tick_hex E t @ ds" "lower_tick_hex E t @ ds < max_hex E"
proof -
  note lt = lower_tick [OF assms]
  have r: "48 \<le> c \<and> c \<le> 102" if "c \<in> set (lower_tick_hex E t)" for c
    using hex_text_range [OF lt(2)] that lt(5) by simp
  have m: "min_hex E = replicate (length (lower_tick_hex E t)) 48" "max_hex E = replicate (length (lower_tick_hex E t)) 102"
    using lt(4) env_okD(1) [OF assms(1)]
    by (simp_all add: min_hex_def max_hex_def TICK_BYTE_COUNT_def hex_text_replicate)
  have "lower_tick_bytes E t \<noteq> replicate 16 255" using lt(3) by auto
  then have "hex_text (lower_tick_bytes E t) \<noteq> hex_text (replicate 16 255)"
    using hex_text_inj [of "lower_tick_bytes E t" "replicate 16 255"] lt(2) by auto
  then have n: "lower_tick_hex E t \<noteq> replicate (length (lower_tick_hex E t)) 102"
    using lt(4,5) hex_text_replicate(2) [of 16] by simp
  show "min_hex E \<le> lower_tick_hex E t @ ds" unfolding m by (rule replicate_le) (simp add: r)
  show "lower_tick_hex E t @ ds < max_hex E" unfolding m by (rule less_replicate [OF _ n]) (simp add: r)
qed

lemma script_range:
  assumes "env_ok E" and "length t = 4"
  shows "min_script_tick_key E s \<le> script_tick_id_key E s' t i \<and> script_tick_id_key E s' t i < max_script_tick_key E s
    \<longleftrightarrow> key_text E s' = key_text E s"
proof
  let ?p = "key_text E s @ [95]" and ?k = "script_tick_id_key E s' t i"
  let ?tl = "lower_tick_hex E t @ 95 # inscription_id_to_string (env_txids E) i"
  assume "min_script_tick_key E s \<le> ?k \<and> ?k < max_script_tick_key E s"
  then have "?p @ min_hex E \<le> ?k" "?k < ?p @ max_hex E"
    by (simp_all add: min_script_tick_key_def max_script_tick_key_def)
  then obtain z where "?k = ?p @ z" using range_prefix by blast
  then have "key_text E s' @ 95 # ?tl = key_text E s @ 95 # z" by (simp add: script_tick_id_key_def)
  then have "split_once 95 (key_text E s' @ 95 # ?tl) = split_once 95 (key_text E s @ 95 # z)" by simp
  then show "key_text E s' = key_text E s"
    using env_okD(2) [OF assms(1)] by (simp add: split_once_first)
next
  assume e: "key_text E s' = key_text E s"
  have "script_tick_id_key E s' t i =
      (key_text E s @ [95]) @ lower_tick_hex E t @ 95 # inscription_id_to_string (env_txids E) i"
    using e by (simp add: script_tick_id_key_def)
  moreover have "min_script_tick_key E s = (key_text E s @ [95]) @ min_hex E"
    "max_script_tick_key E s = (key_text E s @ [95]) @ max_hex E"
    by (simp_all add: min_script_tick_key_def max_script_tick_key_def)
  ultimately show "min_script_tick_key E s \<le> script_tick_id_key E s' t i \<and> script_tick_id_key E s' t i < max_script_tick_key E s"
    using tick_hex_bounds [OF assms] by (simp only: append_less_iff)
qed

section \<open>Invariant\<close>

text \<open>What is pending under a balance key, and what the holders of a token own together.\<close>

definition pending_total :: "('s, 'a, 'h, 'j) drc_env \<Rightarrow> ustr \<Rightarrow> (ustr, ('a, 'h) script_key transferable_log) redb \<Rightarrow> nat" where
  "pending_total E k t = weight (\<lambda>_ r. if script_tick_key E (tl_owner r) (tl_tick r) = k then tl_amount r else 0) t"

definition overall_total :: "('s, 'a, 'h, 'j) drc_env \<Rightarrow> ustr \<Rightarrow> (ustr, balance) redb \<Rightarrow> nat" where
  "overall_total E h t = weight (\<lambda>_ b. if lower_tick_hex E (b_tick b) = h then b_overall b else 0) t"

definition infos_ok :: "('s, 'a, 'h, 'j) drc_env \<Rightarrow> (ustr \<rightharpoonup> 'k token_info) \<Rightarrow> bool" where
  "infos_ok E infos \<longleftrightarrow> (\<forall>h i. infos h = Some i \<longrightarrow>
    length (ti_tick i) = 4 \<and> h = lower_tick_hex E (ti_tick i) \<and>
    ti_minted i \<le> ti_supply i \<and> ti_supply i \<le> u128_max)"

definition balances_ok :: "('s, 'a, 'h, 'j) drc_env \<Rightarrow> (ustr, balance) redb \<Rightarrow> bool" where
  "balances_ok E t \<longleftrightarrow> redb_ok t \<and> (\<forall>k b. map_of t k = Some b \<longrightarrow>
    length (b_tick b) = 4 \<and> (\<exists>s. k = script_tick_key E s (b_tick b)) \<and> b_transferable b \<le> b_overall b)"

definition logs_ok :: "('s, 'a, 'h, 'j) drc_env \<Rightarrow> (ustr \<rightharpoonup> ('a, 'h) script_key token_info) \<Rightarrow>
    (ustr, ('a, 'h) script_key transferable_log) redb \<Rightarrow> bool" where
  "logs_ok E infos t \<longleftrightarrow> redb_ok t \<and>
    (\<forall>k r. map_of t k = Some r \<longrightarrow>
      k = script_tick_id_key E (tl_owner r) (tl_tick r) (tl_inscription_id r) \<and> length (tl_tick r) = 4 \<and>
      length (ii_txid (tl_inscription_id r)) = 32 \<and> 0 < tl_amount r \<and> infos (lower_tick_hex E (tl_tick r)) \<noteq> None) \<and>
    (\<forall>k k' r r'. map_of t k = Some r \<and> map_of t k' = Some r' \<and> tl_inscription_id r = tl_inscription_id r' \<longrightarrow> k = k')"

definition stored_balance :: "('s, 'a, 'h, 'j) drc_env \<Rightarrow> ('a, 'h) script_key \<Rightarrow> tick \<Rightarrow> (ustr, balance) redb \<Rightarrow> balance" where
  "stored_balance E s t bal = (case map_of bal (script_tick_key E s t) of None \<Rightarrow> balance_new t | Some v \<Rightarrow> v)"

definition holders_ok :: "('s, 'a, 'h, 'j) drc_env \<Rightarrow> (ustr \<times> ustr) set \<Rightarrow> (ustr, balance) redb \<Rightarrow> bool" where
  "holders_ok E holders bal \<longleftrightarrow> (\<forall>s t. length t = 4 \<longrightarrow>
    ((lower_tick_hex E t, key_text E s) \<in> holders \<longleftrightarrow> 0 < b_overall (stored_balance E s t bal)))"

definition ledger_ok :: "('s, 'a, 'h, 'j) drc_env \<Rightarrow> ('a, 'h) script_key ledger \<Rightarrow> bool" where
  "ledger_ok E L \<longleftrightarrow>
    infos_ok E (drc20_token_info L) \<and> balances_ok E (drc20_token_balance L) \<and>
    logs_ok E (drc20_token_info L) (drc20_transferable_log L) \<and>
    holders_ok E (drc20_token_holder L) (drc20_token_balance L) \<and>
    (\<forall>h. overall_total E h (drc20_token_balance L) =
       (case drc20_token_info L h of None \<Rightarrow> 0 | Some i \<Rightarrow> ti_minted i)) \<and>
    (\<forall>k. pending_total E k (drc20_transferable_log L) =
       (case map_of (drc20_token_balance L) k of None \<Rightarrow> 0 | Some b \<Rightarrow> b_transferable b))"

lemma ledger_okD:
  assumes "ledger_ok E L"
  shows "infos_ok E (drc20_token_info L)" "balances_ok E (drc20_token_balance L)"
    "logs_ok E (drc20_token_info L) (drc20_transferable_log L)"
    "overall_total E h (drc20_token_balance L) = (case drc20_token_info L h of None \<Rightarrow> 0 | Some i \<Rightarrow> ti_minted i)"
    "pending_total E k (drc20_transferable_log L) = (case map_of (drc20_token_balance L) k of None \<Rightarrow> 0 | Some b \<Rightarrow> b_transferable b)"
    "holders_ok E (drc20_token_holder L) (drc20_token_balance L)"
  using assms unfolding ledger_ok_def by blast+

lemma logs_okD:
  assumes "logs_ok E infos t" and "map_of t k = Some r"
  shows "k = script_tick_id_key E (tl_owner r) (tl_tick r) (tl_inscription_id r)" "length (tl_tick r) = 4"
    "length (ii_txid (tl_inscription_id r)) = 32" "\<exists>i. infos (lower_tick_hex E (tl_tick r)) = Some i" "0 < tl_amount r"
  using assms unfolding logs_ok_def by blast+

lemma infos_okD:
  assumes "infos_ok E infos" and "infos h = Some i"
  shows "length (ti_tick i) = 4" "h = lower_tick_hex E (ti_tick i)" "ti_minted i \<le> ti_supply i" "ti_supply i \<le> u128_max"
  using assms unfolding infos_ok_def by blast+

lemma balances_okD:
  assumes "balances_ok E t" and "map_of t k = Some b"
  shows "length (b_tick b) = 4" "\<exists>s. k = script_tick_key E s (b_tick b)" "b_transferable b \<le> b_overall b"
  using assms unfolding balances_ok_def by blast+

lemma get_transferable_rows:
  assumes "env_ok E" and "logs_ok E infos (drc20_transferable_log L)"
  shows "r \<in> set (get_transferable E s L) \<longleftrightarrow>
    (\<exists>k. map_of (drc20_transferable_log L) k = Some r \<and> key_text E (tl_owner r) = key_text E s)"
proof -
  let ?t = "drc20_transferable_log L"
  have ok: "redb_ok ?t" using assms(2) unfolding logs_ok_def by blast
  have "r \<in> set (get_transferable E s L) \<longleftrightarrow> (\<exists>k. (k, r) \<in> set (redb_range (min_script_tick_key E s) (max_script_tick_key E s) ?t))"
    by (force simp: get_transferable_def)
  also have "\<dots> \<longleftrightarrow> (\<exists>k. map_of ?t k = Some r \<and> min_script_tick_key E s \<le> k \<and> k < max_script_tick_key E s)"
    by (simp add: redb_range_rows [OF ok])
  also have "\<dots> \<longleftrightarrow> (\<exists>k. map_of ?t k = Some r \<and> key_text E (tl_owner r) = key_text E s)"
    using logs_okD [OF assms(2), of _ r] script_range [OF assms(1), of "tl_tick r" s "tl_owner r" "tl_inscription_id r"]
    by metis
  finally show ?thesis .
qed

section \<open>Changing a balance\<close>

lemma stored_balance_props:
  assumes "env_ok E" and "balances_ok E bal" and "length t = 4"
  shows "length (b_tick (stored_balance E s t bal)) = 4"
    "lower_tick_hex E (b_tick (stored_balance E s t bal)) = lower_tick_hex E t"
    "script_tick_key E s (b_tick (stored_balance E s t bal)) = script_tick_key E s t"
    "b_transferable (stored_balance E s t bal) \<le> b_overall (stored_balance E s t bal)"
    "b_overall (stored_balance E s t bal) \<le> overall_total E (lower_tick_hex E t) bal"
proof -
  let ?b = "stored_balance E s t bal" and ?k = "script_tick_key E s t"
  have "length (b_tick ?b) = 4 \<and> lower_tick_hex E (b_tick ?b) = lower_tick_hex E t \<and> b_transferable ?b \<le> b_overall ?b \<and>
    b_overall ?b \<le> overall_total E (lower_tick_hex E t) bal"
  proof (cases "map_of bal ?k")
    case None
    then show ?thesis using assms(3) by (simp add: stored_balance_def balance_new_def)
  next
    case (Some b)
    note bd = balances_okD [OF assms(2) Some]
    then obtain s' where "?k = script_tick_key E s' (b_tick b)" by blast
    then have l: "lower_tick_hex E (b_tick b) = lower_tick_hex E t"
      using script_tick_key_inj(2) [OF assms(1,3) bd(1)] by metis
    have "redb_ok bal" using assms(2) unfolding balances_ok_def by blast
    from redb.weight_row_le [OF this Some, of "\<lambda>_ b. if lower_tick_hex E (b_tick b) = lower_tick_hex E t then b_overall b else 0"]
    have "b_overall b \<le> overall_total E (lower_tick_hex E t) bal" using l by (simp add: overall_total_def)
    with Some bd l show ?thesis by (simp add: stored_balance_def)
  qed
  then show "length (b_tick ?b) = 4" "lower_tick_hex E (b_tick ?b) = lower_tick_hex E t"
    "b_transferable ?b \<le> b_overall ?b" "b_overall ?b \<le> overall_total E (lower_tick_hex E t) bal" by blast+
  then show "script_tick_key E s (b_tick ?b) = ?k" by (simp add: script_tick_key_def)
qed

lemma stored_balance_insert:
  "stored_balance E s' u (redb_insert (script_tick_key E s t) b bal) =
    (if script_tick_key E s' u = script_tick_key E s t then b else stored_balance E s' u bal)"
  by (simp add: stored_balance_def map_of_redb_insert)

lemma script_tick_key_eq_iff:
  assumes "env_ok E" and "length t = 4" and "length u = 4"
  shows "script_tick_key E s t = script_tick_key E s' u \<longleftrightarrow>
    key_text E s = key_text E s' \<and> lower_tick_hex E t = lower_tick_hex E u"
proof
  assume e: "script_tick_key E s t = script_tick_key E s' u"
  show "key_text E s = key_text E s' \<and> lower_tick_hex E t = lower_tick_hex E u"
    using script_tick_key_inj [OF assms e] by blast
qed (simp add: script_tick_key_def)

lemma holders_ok_credit:
  assumes "env_ok E" and "holders_ok E holders bal" and "length t = 4" and "0 < b_overall b"
  shows "holders_ok E (insert (lower_tick_hex E t, key_text E s) holders) (redb_insert (script_tick_key E s t) b bal)"
  unfolding holders_ok_def
proof (intro allI impI)
  fix s' u
  assume u: "length (u :: tick) = 4"
  show "((lower_tick_hex E u, key_text E s') \<in> insert (lower_tick_hex E t, key_text E s) holders) \<longleftrightarrow>
      0 < b_overall (stored_balance E s' u (redb_insert (script_tick_key E s t) b bal))"
    using assms(2,4) u script_tick_key_eq_iff [OF assms(1) u assms(3), of s' s]
    by (auto simp: holders_ok_def stored_balance_insert)
qed

lemma holders_ok_keep:
  assumes "holders_ok E holders bal" and "b_overall b = b_overall (stored_balance E s t bal)"
  shows "holders_ok E holders (redb_insert (script_tick_key E s t) b bal)"
proof -
  have "b_overall (stored_balance E s' u (redb_insert (script_tick_key E s t) b bal)) = b_overall (stored_balance E s' u bal)" for s' u
    using assms(2) by (auto simp: stored_balance_insert stored_balance_def [of E s'] stored_balance_def [of E s] balance_new_def
        split: option.splits)
  with assms(1) show ?thesis by (simp add: holders_ok_def)
qed

lemma overall_total_insert:
  assumes "env_ok E" and "balances_ok E bal" and "length t = 4"
    and "b_tick b' = b_tick (stored_balance E s t bal)"
  shows "overall_total E h (redb_insert (script_tick_key E s t) b' bal) +
      (if h = lower_tick_hex E t then b_overall (stored_balance E s t bal) else 0) =
    overall_total E h bal + (if h = lower_tick_hex E t then b_overall b' else 0)"
proof -
  let ?f = "\<lambda>_ b. if lower_tick_hex E (b_tick b) = h then b_overall b else 0"
  have ok: "redb_ok bal" using assms(2) unfolding balances_ok_def by blast
  have l: "lower_tick_hex E (b_tick b') = lower_tick_hex E t"
    using stored_balance_props(2) [OF assms(1-3)] assms(4) by simp
  have "(case map_of bal (script_tick_key E s t) of None \<Rightarrow> 0 | Some v \<Rightarrow> ?f k v) =
      (if h = lower_tick_hex E t then b_overall (stored_balance E s t bal) else 0)" for k :: ustr
    using stored_balance_props(2) [OF assms(1-3), of s]
    by (auto simp: stored_balance_def balance_new_def split: option.splits)
  with redb.weight_ins [OF ok, of ?f "script_tick_key E s t" b'] l
  show ?thesis by (auto simp: overall_total_def)
qed

lemma balances_ok_insert:
  assumes "env_ok E" and "balances_ok E bal" and "length t = 4"
    and "b_tick b' = b_tick (stored_balance E s t bal)" and "b_transferable b' \<le> b_overall b'"
  shows "balances_ok E (redb_insert (script_tick_key E s t) b' bal)"
proof -
  have "redb_ok bal" using assms(2) unfolding balances_ok_def by blast
  moreover have "length (b_tick b') = 4" "script_tick_key E s t = script_tick_key E s (b_tick b')"
    using stored_balance_props(1,3) [OF assms(1-3), of s] assms(4) by simp_all
  ultimately show ?thesis
    unfolding balances_ok_def using assms(5) balances_okD [OF assms(2)]
    by (simp add: redb_ok_insert map_of_redb_insert) metis
qed

section \<open>Each operation keeps the ledger\<close>

lemma ledger_ok_deploy:
  assumes "ledger_ok E L" and "length t = 4" and "get_token_info E t L = None"
    and "ti_tick i = t" and "ti_minted i = 0" and "ti_supply i \<le> u128_max"
  shows "ledger_ok E (insert_token_info E t i L)"
proof -
  let ?h = "lower_tick_hex E t"
  have n: "drc20_token_info L ?h = None" using assms(3) by (simp add: get_token_info_def)
  have "infos_ok E ((drc20_token_info L)(?h \<mapsto> i))"
    using ledger_okD(1) [OF assms(1)] assms(2,4-6) by (auto simp: infos_ok_def)
  moreover have "logs_ok E ((drc20_token_info L)(?h \<mapsto> i)) (drc20_transferable_log L)"
    using ledger_okD(3) [OF assms(1)] by (simp add: logs_ok_def)
  moreover have "overall_total E h (drc20_token_balance L) = 0" if "h = ?h" for h
    using ledger_okD(4) [OF assms(1), of h] n that by simp
  ultimately show ?thesis
    using assms(1,5) by (simp add: ledger_ok_def insert_token_info_def)
qed

lemma ledger_ok_mint:
  assumes "env_ok E" and "ledger_ok E L" and "length t = 4" and "get_token_info E t L = Some i"
    and "0 < n" and "ti_minted i + n \<le> ti_supply i" and "b = stored_balance E s t (drc20_token_balance L)"
  shows "ledger_ok E (insert_token_info E t (i\<lparr>ti_minted := ti_minted i + n, ti_latest_mint_number := height\<rparr>)
    (insert_token_holder E s t (update_token_balance E s (b\<lparr>b_overall := b_overall b + n\<rparr>) L)))"
proof -
  let ?h = "lower_tick_hex E t" and ?k = "script_tick_key E s t" and ?bal = "drc20_token_balance L"
  let ?i = "i\<lparr>ti_minted := ti_minted i + n, ti_latest_mint_number := height\<rparr>" and ?b = "b\<lparr>b_overall := b_overall b + n\<rparr>"
  note bok = ledger_okD(2) [OF assms(2)]
  note sb = stored_balance_props [OF assms(1) bok assms(3), of s, folded assms(7)]
  have i: "drc20_token_info L ?h = Some i" using assms(4) by (simp add: get_token_info_def)
  have "infos_ok E ((drc20_token_info L)(?h \<mapsto> ?i))"
    using ledger_okD(1) [OF assms(2)] infos_okD [OF ledger_okD(1) [OF assms(2)] i] assms(6) by (auto simp: infos_ok_def)
  moreover have "logs_ok E ((drc20_token_info L)(?h \<mapsto> ?i)) (drc20_transferable_log L)"
    using ledger_okD(3) [OF assms(2)] by (simp add: logs_ok_def)
  moreover have "balances_ok E (redb_insert ?k ?b ?bal)"
    using balances_ok_insert [OF assms(1) bok assms(3), of ?b s] sb(4) assms(7) by simp
  moreover have "overall_total E h (redb_insert ?k ?b ?bal) =
      (case ((drc20_token_info L)(?h \<mapsto> ?i)) h of None \<Rightarrow> 0 | Some i \<Rightarrow> ti_minted i)" for h
    using overall_total_insert [OF assms(1) bok assms(3), of ?b s h] ledger_okD(4) [OF assms(2), of h] i assms(7)
    by (auto split: if_splits)
  moreover have "pending_total E k (drc20_transferable_log L) =
      (case map_of (redb_insert ?k ?b ?bal) k of None \<Rightarrow> 0 | Some b \<Rightarrow> b_transferable b)" for k
    using ledger_okD(5) [OF assms(2), of k] assms(7)
    by (auto simp: map_of_redb_insert stored_balance_def balance_new_def split: option.splits)
  moreover have "holders_ok E (insert (?h, key_text E s) (drc20_token_holder L)) (redb_insert ?k ?b ?bal)"
    using holders_ok_credit [OF assms(1) ledger_okD(6) [OF assms(2)] assms(3), of ?b s] assms(5) by simp
  ultimately show ?thesis
    using sb(3) by (simp add: ledger_ok_def insert_token_info_def insert_token_holder_def update_token_balance_def)
qed

lemma pending_insert:
  assumes "redb_ok t" and "map_of t k = None"
  shows "pending_total E x (redb_insert k r t) =
    pending_total E x t + (if script_tick_key E (tl_owner r) (tl_tick r) = x then tl_amount r else 0)"
  using redb.weight_ins [OF assms(1), of "\<lambda>_ r. if script_tick_key E (tl_owner r) (tl_tick r) = x then tl_amount r else 0" k r] assms(2)
  by (simp add: pending_total_def)

lemma pending_remove:
  assumes "redb_ok t" and "map_of t k = Some r"
  shows "pending_total E x (redb_remove k t) +
    (if script_tick_key E (tl_owner r) (tl_tick r) = x then tl_amount r else 0) = pending_total E x t"
  using redb.weight_del [OF assms(1), of "\<lambda>_ r. if script_tick_key E (tl_owner r) (tl_tick r) = x then tl_amount r else 0" k] assms(2)
  by (simp add: pending_total_def)

lemma ledger_ok_inscribe:
  assumes "env_ok E" and "ledger_ok E L" and "length t = 4" and "get_token_info E t L = Some i"
    and "b = stored_balance E s t (drc20_token_balance L)" and "b_transferable b + n \<le> b_overall b"
    and "tl_owner row = s" and "tl_tick row = ti_tick i" and "tl_amount row = n"
    and "length (ii_txid (tl_inscription_id row)) = 32" and "0 < n"
    and "\<forall>k r. map_of (drc20_transferable_log L) k = Some r \<longrightarrow> tl_inscription_id r \<noteq> tl_inscription_id row"
  shows "ledger_ok E (insert_inscribe_transfer_inscription x info (insert_transferable E s t row
    (update_token_balance E s (b\<lparr>b_transferable := b_transferable b + n\<rparr>) L)))"
proof -
  let ?h = "lower_tick_hex E t" and ?k = "script_tick_key E s t" and ?bal = "drc20_token_balance L"
  let ?b = "b\<lparr>b_transferable := b_transferable b + n\<rparr>" and ?log = "drc20_transferable_log L"
  let ?key = "script_tick_id_key E s t (tl_inscription_id row)"
  note bok = ledger_okD(2) [OF assms(2)] and lok = ledger_okD(3) [OF assms(2)]
  note sb = stored_balance_props [OF assms(1) bok assms(3), of s, folded assms(5)]
  have rok: "redb_ok ?log" using lok unfolding logs_ok_def by blast
  have i: "drc20_token_info L ?h = Some i" using assms(4) by (simp add: get_token_info_def)
  note it = infos_okD [OF ledger_okD(1) [OF assms(2)] i]
  have same: "script_tick_key E (tl_owner row) (tl_tick row) = ?k" using it(2) assms(7,8) by (simp add: script_tick_key_def)
  have key: "?key = script_tick_id_key E (tl_owner row) (tl_tick row) (tl_inscription_id row)"
    using script_tick_id_key_cong [OF same] by simp
  have fresh: "map_of ?log ?key = None"
  proof (rule ccontr)
    assume "map_of ?log ?key \<noteq> None"
    then obtain r where r: "map_of ?log ?key = Some r" by blast
    note rd = logs_okD [OF lok r]
    have "tl_inscription_id row = tl_inscription_id r"
      using script_tick_id_key_inj(2) [OF assms(1,3) rd(2) assms(10) rd(3)] rd(1) by blast
    with assms(12) r show False by metis
  qed
  have "logs_ok E (drc20_token_info L) (redb_insert ?key row ?log)"
    unfolding logs_ok_def map_of_redb_insert
  proof (intro conjI allI impI)
    show "redb_ok (redb_insert ?key row ?log)" using rok by (rule redb_ok_insert)
  next
    fix k r
    assume r: "((map_of ?log)(?key \<mapsto> row)) k = Some r"
    then show "k = script_tick_id_key E (tl_owner r) (tl_tick r) (tl_inscription_id r)" "length (tl_tick r) = 4" "0 < tl_amount r"
      "length (ii_txid (tl_inscription_id r)) = 32" "drc20_token_info L (lower_tick_hex E (tl_tick r)) \<noteq> None"
      using logs_okD [OF lok, of k r] key it i assms(8-11) by (auto split: if_splits)
  next
    fix k k' r r'
    assume "((map_of ?log)(?key \<mapsto> row)) k = Some r \<and> ((map_of ?log)(?key \<mapsto> row)) k' = Some r' \<and>
      tl_inscription_id r = tl_inscription_id r'"
    then show "k = k'"
      using lok assms(12) unfolding logs_ok_def by (auto split: if_splits)
  qed
  moreover have "balances_ok E (redb_insert ?k ?b ?bal)"
    using balances_ok_insert [OF assms(1) bok assms(3), of ?b s] assms(5,6) by simp
  moreover have "overall_total E h (redb_insert ?k ?b ?bal) = overall_total E h ?bal" for h
    using overall_total_insert [OF assms(1) bok assms(3), of ?b s h, folded assms(5)] by (simp split: if_splits)
  moreover have "holders_ok E (drc20_token_holder L) (redb_insert ?k ?b ?bal)"
    using holders_ok_keep [OF ledger_okD(6) [OF assms(2)], of ?b s t] assms(5) by simp
  moreover have "pending_total E k (redb_insert ?key row ?log) =
      (case map_of (redb_insert ?k ?b ?bal) k of None \<Rightarrow> 0 | Some b \<Rightarrow> b_transferable b)" for k
    using ledger_okD(5) [OF assms(2), of k] assms(5,9) same pending_insert [OF rok fresh, of E k row]
    by (auto simp: map_of_redb_insert stored_balance_def balance_new_def split: option.splits)
  ultimately show ?thesis
    using sb(3) ledger_okD [OF assms(2)]
    by (simp add: ledger_ok_def insert_inscribe_transfer_inscription_def insert_transferable_def update_token_balance_def)
qed

lemma find_pending:
  assumes "env_ok E" and "ledger_ok E L" and "get_transferable_by_id E s i L = Some r"
  shows "key_text E (tl_owner r) = key_text E s" and "tl_inscription_id r = i" and "length (tl_tick r) = 4"
    and "map_of (drc20_transferable_log L) (script_tick_id_key E s (tl_tick r) i) = Some r"
    and "script_tick_key E (tl_owner r) (tl_tick r) = script_tick_key E s (tl_tick r)"
    and "\<exists>j. get_token_info E (tl_tick r) L = Some j" and "0 < tl_amount r"
proof -
  note lok = ledger_okD(3) [OF assms(2)]
  from assms(3) have f: "r \<in> set (get_transferable E s L)" "tl_inscription_id r = i"
    by (auto simp: get_transferable_by_id_def find_Some_iff)
  then obtain k where k: "map_of (drc20_transferable_log L) k = Some r" and t: "key_text E (tl_owner r) = key_text E s"
    using get_transferable_rows [OF assms(1) lok] by blast
  note rd = logs_okD [OF lok k]
  show "key_text E (tl_owner r) = key_text E s" "tl_inscription_id r = i" "length (tl_tick r) = 4"
    using t f(2) rd(2) by simp_all
  show "map_of (drc20_transferable_log L) (script_tick_id_key E s (tl_tick r) i) = Some r"
    using k rd(1) t f(2) by (simp add: script_tick_id_key_def)
  show "script_tick_key E (tl_owner r) (tl_tick r) = script_tick_key E s (tl_tick r)"
    using t by (simp add: script_tick_key_def)
  show "\<exists>j. get_token_info E (tl_tick r) L = Some j" using rd(4) by (simp add: get_token_info_def)
  show "0 < tl_amount r" using rd(5) .
qed

lemma logs_ok_remove:
  assumes "logs_ok E infos t"
  shows "logs_ok E infos (redb_remove k t)"
  using assms redb.ok_del [of t k] unfolding logs_ok_def map_of_redb_remove
  by (auto split: if_splits)

text \<open>The balances after a transfer: the sender's row first, then the receiver's, which may be the same row.\<close>

lemma ledger_ok_transfer:
  fixes L :: "('a, 'h) script_key ledger"
  assumes "env_ok E" and "ledger_ok E L" and "get_transferable_by_id E s i L = Some r"
    and "bf = stored_balance E s (tl_tick r) (drc20_token_balance L)"
    and "bf' = bf\<lparr>b_overall := b_overall bf - tl_amount r, b_transferable := b_transferable bf - tl_amount r\<rparr>"
    and "bal1 = redb_insert (script_tick_key E s (tl_tick r)) bf' (drc20_token_balance L)"
    and "bt = stored_balance E d (tl_tick r) bal1"
    and "bal2 = redb_insert (script_tick_key E d (tl_tick r)) (bt\<lparr>b_overall := b_overall bt + tl_amount r\<rparr>) bal1"
    and "holders = insert (lower_tick_hex E (tl_tick r), key_text E d) (drc20_token_holder L) -
      (if b_overall bf' = 0 \<and> s \<noteq> d then {(lower_tick_hex E (tl_tick r), key_text E s)} else {})"
    and "s \<noteq> d \<longrightarrow> key_text E s \<noteq> key_text E d"
    and "L' = L\<lparr>drc20_token_balance := bal2, drc20_token_holder := holders,
      drc20_transferable_log := redb_remove (script_tick_id_key E s (tl_tick r) i) (drc20_transferable_log L),
      drc20_inscribe_transfer := it\<rparr>"
  shows "tl_amount r \<le> b_transferable bf" and "b_overall bt + tl_amount r \<le> u128_max" and "ledger_ok E L'"
proof -
  let ?t = "tl_tick r" and ?a = "tl_amount r" and ?log = "drc20_transferable_log L"
  let ?h = "lower_tick_hex E ?t" and ?ks = "script_tick_key E s ?t" and ?kd = "script_tick_key E d ?t"
  note bok = ledger_okD(2) [OF assms(2)] and lok = ledger_okD(3) [OF assms(2)]
  note fp = find_pending [OF assms(1-3)]
  have rok: "redb_ok ?log" using lok unfolding logs_ok_def by blast
  note pr = pending_remove [OF rok fp(4), of E]
  have tr: "b_transferable bf = pending_total E ?ks ?log"
    using ledger_okD(5) [OF assms(2), of ?ks] assms(4) by (simp add: stored_balance_def balance_new_def split: option.splits)
  show le: "?a \<le> b_transferable bf" using pr [of ?ks] fp(5) tr by simp
  note sf = stored_balance_props [OF assms(1) bok fp(3), of s, folded assms(4)]
  have b1: "balances_ok E bal1"
    unfolding assms(6) using balances_ok_insert [OF assms(1) bok fp(3), of bf' s] assms(4,5) sf(4) by simp
  note st = stored_balance_props [OF assms(1) b1 fp(3), of d, folded assms(7)]
  have o1: "overall_total E x bal1 + (if x = ?h then ?a else 0) = overall_total E x (drc20_token_balance L)" for x
    using overall_total_insert [OF assms(1) bok fp(3), of bf' s x, folded assms(4,6)] assms(5) le sf(4)
    by (simp split: if_splits)
  have o2: "overall_total E x bal2 = overall_total E x bal1 + (if x = ?h then ?a else 0)" for x
    using overall_total_insert [OF assms(1) b1 fp(3), of "bt\<lparr>b_overall := b_overall bt + ?a\<rparr>" d x, folded assms(7,8)]
    by (simp split: if_splits)
  obtain j where j: "drc20_token_info L ?h = Some j" using fp(6) by (auto simp: get_token_info_def)
  note ij = infos_okD [OF ledger_okD(1) [OF assms(2)] j]
  show "b_overall bt + ?a \<le> u128_max"
    using st(5) o1 [of ?h] ledger_okD(4) [OF assms(2), of ?h] j ij(3,4) by simp
  have b2: "balances_ok E bal2"
    unfolding assms(8) using balances_ok_insert [OF assms(1) b1 fp(3), of "bt\<lparr>b_overall := b_overall bt + ?a\<rparr>" d] st(4) assms(7) by simp
  have p: "pending_total E k (redb_remove (script_tick_id_key E s ?t i) ?log) =
      (case map_of bal2 k of None \<Rightarrow> 0 | Some b \<Rightarrow> b_transferable b)" for k
  proof -
    have "(case map_of bal2 k of None \<Rightarrow> 0 | Some b \<Rightarrow> b_transferable b) =
        (case map_of bal1 k of None \<Rightarrow> 0 | Some b \<Rightarrow> b_transferable b)"
      using assms(7,8) by (auto simp: map_of_redb_insert stored_balance_def balance_new_def split: option.splits)
    also have "\<dots> + (if k = ?ks then ?a else 0) =
        (case map_of (drc20_token_balance L) k of None \<Rightarrow> 0 | Some b \<Rightarrow> b_transferable b)"
      using assms(4-6) le by (auto simp: map_of_redb_insert stored_balance_def balance_new_def split: option.splits)
    finally show ?thesis using pr [of k] fp(5) ledger_okD(5) [OF assms(2), of k] by (auto split: if_splits)
  qed
  have "(?h, key_text E s) \<in> drc20_token_holder L \<longleftrightarrow> 0 < b_overall bf"
    using ledger_okD(6) [OF assms(2)] fp(3) unfolding holders_ok_def assms(4) by blast
  then have hs: "(?h, key_text E s) \<in> drc20_token_holder L" using fp(7) le sf(4) by simp
  have ob: "0 < b_overall (stored_balance E s' u (drc20_token_balance L)) \<longleftrightarrow>
      (lower_tick_hex E u, key_text E s') \<in> drc20_token_holder L" if "length u = 4" for s' u
    using ledger_okD(6) [OF assms(2)] that unfolding holders_ok_def by blast
  have "holders_ok E holders bal2"
    unfolding holders_ok_def
  proof (intro allI impI)
    fix s' u
    assume u: "length (u :: tick) = 4"
    note k = script_tick_key_eq_iff [OF assms(1) u fp(3), of s']
    have "b_overall (stored_balance E s' u bal2) =
        (if script_tick_key E s' u = ?kd then b_overall bt + ?a
         else if script_tick_key E s' u = ?ks then b_overall bf' else b_overall (stored_balance E s' u (drc20_token_balance L)))"
      by (simp add: assms(6,8) stored_balance_insert)
    then show "((lower_tick_hex E u, key_text E s') \<in> holders) \<longleftrightarrow> 0 < b_overall (stored_balance E s' u bal2)"
      using ob [OF u, of s'] k [of s] k [of d] fp(7) assms(10) hs unfolding assms(9)
      by (auto split: if_splits)
  qed
  with b2 p logs_ok_remove [OF lok] ledger_okD [OF assms(2)] o1 o2
  show "ledger_ok E L'" unfolding ledger_ok_def assms(11) by simp
qed

end
