(* ===== verification/Drc20_Safety.thy ===== *)
theory Drc20_Safety
  imports Drc20_Ledger
begin

text \<open>
  What the DRC-20 operations do: each is either refused, and then the ledger is as it was, or it
  has exactly its documented effect; from there, that executing any sequence of messages keeps the
  ledger's invariant, and that a pending transfer can always be carried out.
\<close>

section \<open>Running a computation on the ledger\<close>

named_theorems drc_simps \<open>running the steps of an operation\<close>

lemma drc_bind_steps [drc_simps]:
  "drc_bind (drc_try r) f L = (case r of Inl e \<Rightarrow> (Inl (DRC20Error e), L) | Inr a \<Rightarrow> f a L)"
  "drc_bind (drc_read g) f' L = f' (g L) L"
  "drc_bind (drc_write w) f'' L = f'' () (w L)"
  "drc_bind (drc_return a) f L = f a L"
  by (simp_all add: drc_bind_def drc_try_def drc_read_def drc_write_def drc_return_def split: sum.splits)

lemma drc_bind_update_mint [drc_simps]:
  "drc_bind (update_mint_token_info E t minted height) f L =
    (case get_token_info E t L of
       None \<Rightarrow> (Inl (ProcPanic Explicit), L)
     | Some i \<Rightarrow> f () (insert_token_info E t (i\<lparr>ti_minted := minted, ti_latest_mint_number := height\<rparr>) L))"
  by (simp add: drc_bind_def update_mint_token_info_def split: option.splits)

lemma get_token_info_other [drc_simps]:
  "get_token_info E t (insert_token_holder E s u L) = get_token_info E t L"
  "get_token_info E t (update_token_balance E s b L) = get_token_info E t L"
  by (simp_all add: get_token_info_def insert_token_holder_def update_token_balance_def)

lemma drc_ends [drc_simps]:
  "drc_fail e L = (Inl (DRC20Error e), L)"
  "drc_return a L = (Inr a, L)"
  by (simp_all add: drc_fail_def drc_return_def)

lemma num_steps [drc_simps]:
  "num_checked_mul B a b = Inr (bd_mul B a b)"
  "num_checked_add B a b = Inr (bd_add B a b)"
  by (simp_all add: num_checked_mul_def num_checked_add_def)

lemma num_sub_Inr: "num_checked_sub B a b = Inr c \<longleftrightarrow> \<not> bd_less B a b \<and> c = bd_sub B a b"
  by (auto simp: num_checked_sub_def)

lemma tick_from_str_Inr [drc_simps]: "tick_from_str s = Inr t \<longleftrightarrow> t = s \<and> length s = 4"
  by (auto simp: tick_from_str_def TICK_BYTE_COUNT_def)

text \<open>A refusal, and what has to hold at each step for the computation not to end in one.\<close>

definition refused :: "proc_error + 'r \<Rightarrow> 'k ledger \<Rightarrow> 'k ledger \<Rightarrow> bool" where
  "refused x L' L \<longleftrightarrow> (\<exists>e. x = Inl (DRC20Error e)) \<and> L' = L"

lemma next_step:
  assumes "\<not> refused x L' L"
  shows "drc_bind (drc_try r) f L = (x, L') \<longleftrightarrow> (\<exists>a. r = Inr a \<and> f a L = (x, L'))"
    "drc_bind (drc_read g) f' L = (x, L') \<longleftrightarrow> f' (g L) L = (x, L')"
    "(if c then drc_fail e else m) L = (x, L') \<longleftrightarrow> \<not> c \<and> m L = (x, L')"
    "(case v of None \<Rightarrow> m | Some y \<Rightarrow> drc_fail (e' y)) L = (x, L') \<longleftrightarrow> v = None \<and> m L = (x, L')"
    "ok_or e'' w = Inr z \<longleftrightarrow> w = Some z"
    "tick_from_str s = Inr t \<longleftrightarrow> t = s \<and> length s = 4"
  using assms by (auto simp: drc_simps refused_def ok_or_Inr split: sum.splits if_splits option.splits)

section \<open>Deploying\<close>

lemma process_deploy_outcome:
  assumes "bigdec_exact B val" and "process_deploy B E context msg d L = (x, L')" and nr: "\<not> refused x L' L"
  obtains ev i sup limit where "x = Inr (DeployEvent ev)" "length (dp_tick d) = 4" "em_to msg = Some (ti_deploy_by i)"
    "get_token_info E (dp_tick d) L = None" "L' = insert_token_info E (dp_tick d) i L"
    "ti_tick i = dp_tick d" "ti_minted i = 0" "ti_decimal i \<le> 18"
    "num_from_str B (dp_max_supply d) = Inr sup"
    "num_from_str B (case dp_mint_limit d of None \<Rightarrow> dp_max_supply d | Some v \<Rightarrow> v) = Inr limit"
    "of_nat (ti_supply i) = val sup * 10 ^ ti_decimal i" "0 < ti_supply i" "ti_supply i \<le> u128_max"
    "of_nat (ti_limit_per_mint i) = val limit * 10 ^ ti_decimal i" "0 < ti_limit_per_mint i"
proof -
  note X = assms(1)
  from assms(2) obtain to dec base sup limit sup' limit' where
    h: "em_to msg = Some to" "length (dp_tick d) = 4" "get_token_info E (dp_tick d) L = None" "dec \<le> 18"
      "num_checked_powu B (BIGDECIMAL_TEN B) dec = Inr base"
      "num_from_str B (dp_max_supply d) = Inr sup" "val sup \<noteq> 0"
      "num_from_str B (case dp_mint_limit d of None \<Rightarrow> dp_max_supply d | Some v \<Rightarrow> v) = Inr limit" "val limit \<noteq> 0"
      "num_checked_to_u128 B (bd_mul B sup base) = Inr sup'" "num_checked_to_u128 B (bd_mul B limit base) = Inr limit'"
    and r: "L' = insert_token_info E (dp_tick d) \<lparr>ti_tick = dp_tick d, ti_inscription_id = em_inscription_id msg,
          ti_inscription_number = em_inscription_number msg, ti_supply = sup', ti_minted = 0,
          ti_limit_per_mint = limit', ti_decimal = dec, ti_deploy_by = to,
          ti_deployed_number = bc_blockheight context, ti_deployed_timestamp = bc_blocktime context,
          ti_latest_mint_number = bc_blockheight context\<rparr> L"
    and ev: "\<exists>ev. x = Inr (DeployEvent ev)"
    unfolding process_deploy_def next_step [OF nr]
    by (auto simp: next_step [OF nr] drc_simps Let_def MAX_DECIMAL_WIDTH_def exactD [OF X] not_less)
  have pow: "val base = 10 ^ dec" using num_powu_ten [OF X, of dec] h(5) by (metis sum.inject(2))
  have s: "of_nat sup' = val sup * 10 ^ dec" "sup' \<le> u128_max" "of_nat limit' = val limit * 10 ^ dec"
    using h(10,11) pow by (simp_all add: num_to_u128_Inr [OF X] exactD [OF X])
  have "0 < sup'" "0 < limit'" using s h(7,9) by (auto intro: gr0I)
  moreover define i where "i = \<lparr>ti_tick = dp_tick d, ti_inscription_id = em_inscription_id msg,
          ti_inscription_number = em_inscription_number msg, ti_supply = sup', ti_minted = 0,
          ti_limit_per_mint = limit', ti_decimal = dec, ti_deploy_by = to,
          ti_deployed_number = bc_blockheight context, ti_deployed_timestamp = bc_blocktime context,
          ti_latest_mint_number = bc_blockheight context\<rparr>"
  moreover obtain ev where "x = Inr (DeployEvent ev)" using ev by blast
  ultimately show thesis using h s r by (intro that [of ev i sup limit]) simp_all
qed

section \<open>Minting\<close>

lemma drc_bind_accepted:
  assumes "drc_bind m f L = (x, L')" and "\<not> refused x L' L"
  obtains y L1 where "m L = (y, L1)" "\<not> refused y L1 L" "\<forall>r. y = Inr r \<longrightarrow> f r L1 = (x, L')"
  using assms by (cases "m L") (auto simp: drc_bind_def refused_def split: sum.splits)

lemma mint_amount_outcome:
  assumes "bigdec_exact B val" and "mint_amount B E msg m L = (y, L1)" and nr: "\<not> refused y L1 L"
  obtains to_key i a n out_msg amt num where "y = Inr (to_key, mt_tick m, i, out_msg, num)" "L1 = L"
    "em_to msg = Some to_key" "length (mt_tick m) = 4" "get_token_info E (mt_tick m) L = Some i"
    "num_from_str B (mt_amount m) = Inr amt" "of_nat a = val amt * 10 ^ ti_decimal i" "0 < a" "a \<le> ti_limit_per_mint i"
    "ti_minted i < ti_supply i" "val num = of_nat n" "n = min a (ti_supply i - ti_minted i)"
proof -
  note X = assms(1)
  from assms(2) obtain to_key i base amt r where
    h: "em_to msg = Some to_key" "length (mt_tick m) = 4" "get_token_info E (mt_tick m) L = Some i"
      "num_checked_powu B (BIGDECIMAL_TEN B) (ti_decimal i) = Inr base" "num_from_str B (mt_amount m) = Inr amt"
      "bd_scale B amt \<le> int (ti_decimal i)" "val (bd_mul B amt base) \<noteq> 0"
      "val (bd_mul B amt base) \<le> of_nat (ti_limit_per_mint i)" "ti_minted i < ti_supply i"
    and r: "(if bd_less B (num_of B (ti_supply i)) (bd_add B (bd_mul B amt base) (num_of B (ti_minted i)))
      then drc_bind (drc_try (num_checked_sub B (num_of B (ti_supply i)) (num_of B (ti_minted i)))) (\<lambda>new.
        drc_return (to_key, mt_tick m, i,
          Some (str ''amt has been cut off to fit the supply! origin: '' @ bd_to_string B (bd_mul B amt base) @
              str '', now: '' @ bd_to_string B new), new))
      else drc_return (to_key, mt_tick m, i, None, bd_mul B amt base)) L = (y, L1)"
    unfolding mint_amount_def next_step [OF nr]
    by (auto simp: next_step [OF nr] num_steps Let_def exactD [OF X] not_less)
  obtain a where a: "val (bd_mul B amt base) = of_nat a" "val amt * 10 ^ ti_decimal i = of_nat a"
    using num_atomic [OF X h(5,6,4)] by blast
  have a': "0 < a" "a \<le> ti_limit_per_mint i" using h(7,8) a(1) by (auto intro: gr0I)
  show thesis
  proof (cases "ti_supply i < a + ti_minted i")
    case True
    then have "rat_of_nat (ti_supply i) < rat_of_nat a + rat_of_nat (ti_minted i)"
      by (metis of_nat_add of_nat_less_iff)
    with r h(9) a(1) obtain out_msg where "y = Inr (to_key, mt_tick m, i, out_msg, bd_sub B (num_of B (ti_supply i)) (num_of B (ti_minted i)))" "L1 = L"
      by (auto simp: exactD [OF X] drc_simps num_checked_sub_def)
    moreover have "val (bd_sub B (num_of B (ti_supply i)) (num_of B (ti_minted i))) = of_nat (ti_supply i - ti_minted i)"
      using h(9) by (simp add: exactD [OF X] of_nat_diff)
    moreover have "ti_supply i - ti_minted i = min a (ti_supply i - ti_minted i)" using True by simp
    ultimately show ?thesis by (rule that [OF _ _ h(1-3,5) a(2) [symmetric] a' h(9)])
  next
    case False
    then have "\<not> rat_of_nat (ti_supply i) < rat_of_nat a + rat_of_nat (ti_minted i)"
      by (metis of_nat_add of_nat_less_iff)
    with r h(9) a(1) have "y = Inr (to_key, mt_tick m, i, None, bd_mul B amt base)" "L1 = L"
      by (auto simp: exactD [OF X] drc_simps)
    moreover have "a = min a (ti_supply i - ti_minted i)" using False by simp
    ultimately show ?thesis by (intro that [OF _ _ h(1-3,5) a(2) [symmetric] a' h(9) a(1)])
  qed
qed

lemma process_mint_outcome:
  assumes "bigdec_exact B val" and "env_ok E" and "ledger_ok E L"
    and "process_mint B E context msg m L = (x, L')" and nr: "\<not> refused x L' L"
  obtains to_key i a n b ev amt where "x = Inr ev" "event_amount ev = Some n"
    "em_to msg = Some to_key" "length (mt_tick m) = 4" "get_token_info E (mt_tick m) L = Some i"
    "num_from_str B (mt_amount m) = Inr amt" "of_nat a = val amt * 10 ^ ti_decimal i" "0 < a" "a \<le> ti_limit_per_mint i"
    "n = min a (ti_supply i - ti_minted i)" "0 < n" "ti_minted i + n \<le> ti_supply i"
    "b = stored_balance E to_key (mt_tick m) (drc20_token_balance L)"
    "L' = insert_token_info E (mt_tick m) (i\<lparr>ti_minted := ti_minted i + n, ti_latest_mint_number := bc_blockheight context\<rparr>)
      (insert_token_holder E to_key (mt_tick m) (update_token_balance E to_key (b\<lparr>b_overall := b_overall b + n\<rparr>) L))"
proof -
  note X = assms(1)
  from assms(4) obtain y L1 where y: "mint_amount B E msg m L = (y, L1)" "\<not> refused y L1 L"
    and c: "\<forall>r. y = Inr r \<longrightarrow> credit_mint B E context msg r L1 = (x, L')"
    unfolding process_mint_def by (rule drc_bind_accepted [OF _ nr])
  obtain to_key i a n out_msg amt num where h: "y = Inr (to_key, mt_tick m, i, out_msg, num)" "L1 = L"
    "em_to msg = Some to_key" "length (mt_tick m) = 4" "get_token_info E (mt_tick m) L = Some i"
    "num_from_str B (mt_amount m) = Inr amt" "of_nat a = val amt * 10 ^ ti_decimal i" "0 < a" "a \<le> ti_limit_per_mint i"
    "ti_minted i < ti_supply i" "val num = of_nat n" "n = min a (ti_supply i - ti_minted i)"
    using mint_amount_outcome [OF X y] by metis
  define b where "b = stored_balance E to_key (mt_tick m) (drc20_token_balance L)"
  have gb: "(case get_balance E to_key (mt_tick m) L of None \<Rightarrow> balance_new (mt_tick m) | Some v \<Rightarrow> v) = b"
    by (simp add: b_def get_balance_def stored_balance_def)
  have i: "drc20_token_info L (lower_tick_hex E (mt_tick m)) = Some i" using h(5) by (simp add: get_token_info_def)
  note ij = infos_okD [OF ledger_okD(1) [OF assms(3)] i]
  have n: "0 < n" "ti_minted i + n \<le> ti_supply i" using h(8,10,12) by auto
  have "b_overall b \<le> ti_minted i"
    using stored_balance_props(5) [OF assms(2) ledger_okD(2) [OF assms(3)] h(4), of to_key, folded b_def]
      ledger_okD(4) [OF assms(3), of "lower_tick_hex E (mt_tick m)"] i by simp
  then have conv: "num_checked_to_u128 B (bd_add B (num_of B (b_overall b)) num) = Inr (b_overall b + n)"
    "num_checked_to_u128 B (bd_add B (num_of B (ti_minted i)) num) = Inr (ti_minted i + n)"
    "num_checked_to_u128 B num = Inr n"
    using ij(4) n(2) h(11) by (simp_all add: num_to_u128_Inr [OF X] exactD [OF X])
  have "credit_mint B E context msg (to_key, mt_tick m, i, out_msg, num) L = (x, L')" using c h(1,2) by simp
  then have x: "x = Inr (MintEvent \<lparr>ev_mint_vout = op_vout (sp_outpoint (em_new_satpoint msg)), ev_mint_to = to_key,
      ev_mint_tick = ti_tick i, ev_mint_amount = n, ev_mint_msg = out_msg\<rparr>)"
    and "L' = insert_token_info E (mt_tick m) (i\<lparr>ti_minted := ti_minted i + n, ti_latest_mint_number := bc_blockheight context\<rparr>)
      (insert_token_holder E to_key (mt_tick m) (update_token_balance E to_key (b\<lparr>b_overall := b_overall b + n\<rparr>) L))"
    using h(5) by (simp_all add: credit_mint_def drc_simps gb conv)
  then show thesis
    by (intro that [OF x _ h(3-9,12) n b_def]) simp_all
qed

section \<open>Inscribing a transfer\<close>

lemma process_inscribe_outcome:
  assumes "bigdec_exact B val" and "env_ok E" and "ledger_ok E L"
    and "process_inscribe_transfer B E msg tf L = (x, L')" and nr: "\<not> refused x L' L"
  obtains to_key i n b ev amt row where "x = Inr ev" "event_amount ev = Some n"
    "em_to msg = Some to_key" "length (tf_tick tf) = 4" "get_token_info E (tf_tick tf) L = Some i"
    "num_from_str B (tf_amount tf) = Inr amt" "of_nat n = val amt * 10 ^ ti_decimal i" "0 < n"
    "b = stored_balance E to_key (tf_tick tf) (drc20_token_balance L)" "b_transferable b + n \<le> b_overall b"
    "row = \<lparr>tl_inscription_id = em_inscription_id msg, tl_inscription_number = em_inscription_number msg,
          tl_amount = n, tl_tick = ti_tick i, tl_owner = to_key\<rparr>"
    "L' = insert_inscribe_transfer_inscription (em_inscription_id msg) \<lparr>tr_tick = ti_tick i, tr_amt = n\<rparr>
      (insert_transferable E to_key (tf_tick tf) row (update_token_balance E to_key (b\<lparr>b_transferable := b_transferable b + n\<rparr>) L))"
proof -
  note X = assms(1)
  let ?b = "\<lambda>k. stored_balance E k (tf_tick tf) (drc20_token_balance L)"
  have gb: "(case get_balance E k (tf_tick tf) L of None \<Rightarrow> balance_new (tf_tick tf) | Some v \<Rightarrow> v) = ?b k" for k
    by (simp add: get_balance_def stored_balance_def)
  from assms(4) obtain to_key i base amt tr n where
    h: "em_to msg = Some to_key" "length (tf_tick tf) = 4" "get_token_info E (tf_tick tf) L = Some i"
      "num_checked_powu B (BIGDECIMAL_TEN B) (ti_decimal i) = Inr base" "num_from_str B (tf_amount tf) = Inr amt"
      "bd_scale B amt \<le> int (ti_decimal i)" "val (bd_mul B amt base) \<noteq> 0"
      "b_transferable (?b to_key) \<le> b_overall (?b to_key)"
      "val (bd_mul B amt base) \<le> of_nat (b_overall (?b to_key)) - of_nat (b_transferable (?b to_key))"
      "num_checked_to_u128 B (bd_add B (num_of B (b_transferable (?b to_key))) (bd_mul B amt base)) = Inr tr"
      "num_checked_to_u128 B (bd_mul B amt base) = Inr n"
    and r: "L' = insert_inscribe_transfer_inscription (em_inscription_id msg) \<lparr>tr_tick = ti_tick i, tr_amt = n\<rparr>
      (insert_transferable E to_key (tf_tick tf) \<lparr>tl_inscription_id = em_inscription_id msg, tl_inscription_number = em_inscription_number msg,
          tl_amount = n, tl_tick = ti_tick i, tl_owner = to_key\<rparr>
        (update_token_balance E to_key ((?b to_key)\<lparr>b_transferable := tr\<rparr>) L))"
    and x: "x = Inr (InscribeTransferEvent \<lparr>ev_inscribe_to = to_key,
      ev_inscribe_vout = op_vout (sp_outpoint (em_new_satpoint msg)), ev_inscribe_tick = ti_tick i,
      ev_inscribe_amount = n\<rparr>)"
    unfolding process_inscribe_transfer_def next_step [OF nr]
    by (auto simp: next_step [OF nr] num_steps drc_bind_steps(2-4) drc_ends Let_def exactD [OF X] not_less gb num_sub_Inr)
  obtain a where a: "val (bd_mul B amt base) = of_nat a" "val amt * 10 ^ ti_decimal i = of_nat a"
    using num_atomic [OF X h(5,6,4)] by blast
  have na: "n = a" using h(11) a(1) by (simp add: num_to_u128_Inr [OF X])
  have tr: "tr = b_transferable (?b to_key) + n"
    using h(10) a(1) na by (simp add: num_to_u128_Inr [OF X] exactD [OF X])
  have "rat_of_nat a \<le> of_nat (b_overall (?b to_key) - b_transferable (?b to_key))"
    using h(8,9) a(1) by (simp add: of_nat_diff)
  then have "b_transferable (?b to_key) + n \<le> b_overall (?b to_key)" using na h(8) by simp
  moreover have "0 < n" using h(7) a(1) na by (auto intro: gr0I)
  ultimately show thesis
    using r tr a(2) na by (intro that [OF x _ h(1-3,5) _ _ refl _ refl]) simp_all
qed

section \<open>Transferring\<close>

definition receiver :: "'k execution_message \<Rightarrow> 'k" where
  "receiver msg = (case em_to msg of None \<Rightarrow> em_from msg | Some k \<Rightarrow> k)"

text \<open>The keys of a message come from scripts, and its inscription has a whole txid.\<close>

definition msg_ok :: "('s, 'a, 'h, 'j) drc_env \<Rightarrow> ('a, 'h) script_key execution_message \<Rightarrow> bool" where
  "msg_ok E msg \<longleftrightarrow> em_from msg \<in> range (key_from_script E) \<and>
    (\<forall>k. em_to msg = Some k \<longrightarrow> k \<in> range (key_from_script E)) \<and> length (ii_txid (em_inscription_id msg)) = 32"

lemma msg_keys:
  assumes "env_ok E" and "msg_ok E msg"
  shows "em_from msg \<noteq> receiver msg \<longrightarrow> key_text E (em_from msg) \<noteq> key_text E (receiver msg)"
proof -
  obtain s where s: "em_from msg = key_from_script E s" using assms(2) by (auto simp: msg_ok_def)
  obtain s' where s': "receiver msg = key_from_script E s'"
    using assms(2) s by (cases "em_to msg") (auto simp: msg_ok_def receiver_def)
  show ?thesis using assms(1) unfolding s s' env_ok_def by blast
qed

lemma transfer_source_outcome:
  assumes "bigdec_exact B val" and "env_ok E" and "ledger_ok E L"
    and "get_transferable_by_id E (em_from msg) (em_inscription_id msg) L = Some r"
    and "b = stored_balance E (em_from msg) (tl_tick r) (drc20_token_balance L)"
  obtains i where "get_token_info E (tl_tick r) L = Some i"
    "transfer_source B E msg L =
      (Inr (r, i, b\<lparr>b_overall := b_overall b - tl_amount r, b_transferable := b_transferable b - tl_amount r\<rparr>), L)"
proof -
  note X = assms(1) and fp = find_pending [OF assms(2-4)]
  note lt = ledger_ok_transfer(1) [OF assms(2-5) refl refl refl refl refl _ refl, of "em_from msg"]
  have le: "tl_amount r \<le> b_transferable b" using lt by simp
  have bo: "b_transferable b \<le> b_overall b"
    using stored_balance_props(4) [OF assms(2) ledger_okD(2) [OF assms(3)] fp(3), of "em_from msg"] assms(5) by simp
  have gb: "(case get_balance E (em_from msg) (tl_tick r) L of None \<Rightarrow> balance_new (tl_tick r) | Some v \<Rightarrow> v) = b"
    by (simp add: assms(5) get_balance_def stored_balance_def)
  obtain i where i: "get_token_info E (tl_tick r) L = Some i" using fp(6) by blast
  have u: "b_overall b \<le> u128_max"
    using stored_balance_props(5) [OF assms(2) ledger_okD(2) [OF assms(3)] fp(3), of "em_from msg", folded assms(5)]
      ledger_okD(4) [OF assms(3), of "lower_tick_hex E (tl_tick r)"]
      infos_okD(3,4) [OF ledger_okD(1) [OF assms(3)], of "lower_tick_hex E (tl_tick r)" i] i
    by (simp add: get_token_info_def)
  have c: "num_checked_sub B (num_of B (b_overall b)) (num_of B (tl_amount r)) = Inr (bd_sub B (num_of B (b_overall b)) (num_of B (tl_amount r)))"
    "num_checked_sub B (num_of B (b_transferable b)) (num_of B (tl_amount r)) = Inr (bd_sub B (num_of B (b_transferable b)) (num_of B (tl_amount r)))"
    "num_checked_to_u128 B (bd_sub B (num_of B (b_overall b)) (num_of B (tl_amount r))) = Inr (b_overall b - tl_amount r)"
    "num_checked_to_u128 B (bd_sub B (num_of B (b_transferable b)) (num_of B (tl_amount r))) = Inr (b_transferable b - tl_amount r)"
    using le bo u by (simp_all add: num_sub_Inr num_to_u128_Inr [OF X] exactD [OF X] of_nat_diff)
  show thesis
    by (rule that [OF i]) (simp add: transfer_source_def drc_simps Let_def assms(4) i fp(1) gb c)
qed

lemma process_transfer_outcome:
  assumes "bigdec_exact B val" and "env_ok E" and "ledger_ok E L" and "msg_ok E msg"
    and "get_transferable_by_id E (em_from msg) (em_inscription_id msg) L = Some r"
  obtains ev L' where "process_transfer B E msg L = (Inr ev, L')" "event_amount ev = Some (tl_amount r)"
    "ledger_ok E L'"
    "drc20_token_info L' = drc20_token_info L" "drc20_operation_decisions L' = drc20_operation_decisions L"
    "drc20_token_balance L' = (let t = tl_tick r; b = stored_balance E (em_from msg) t (drc20_token_balance L);
       bal = redb_insert (script_tick_key E (em_from msg) t)
         (b\<lparr>b_overall := b_overall b - tl_amount r, b_transferable := b_transferable b - tl_amount r\<rparr>) (drc20_token_balance L);
       c = stored_balance E (receiver msg) t bal
     in redb_insert (script_tick_key E (receiver msg) t) (c\<lparr>b_overall := b_overall c + tl_amount r\<rparr>) bal)"
    "drc20_transferable_log L' =
       redb_remove (script_tick_id_key E (em_from msg) (tl_tick r) (em_inscription_id msg)) (drc20_transferable_log L)"
proof -
  note X = assms(1) and fp = find_pending [OF assms(2,3,5)]
  let ?s = "em_from msg" and ?d = "receiver msg" and ?t = "tl_tick r" and ?a = "tl_amount r" and ?i = "em_inscription_id msg"
  define b where "b = stored_balance E ?s ?t (drc20_token_balance L)"
  define b' where "b' = b\<lparr>b_overall := b_overall b - ?a, b_transferable := b_transferable b - ?a\<rparr>"
  define bal1 where "bal1 = redb_insert (script_tick_key E ?s ?t) b' (drc20_token_balance L)"
  define c where "c = stored_balance E ?d ?t bal1"
  define bal2 where "bal2 = redb_insert (script_tick_key E ?d ?t) (c\<lparr>b_overall := b_overall c + ?a\<rparr>) bal1"
  define H where "H = insert (lower_tick_hex E ?t, key_text E ?d) (drc20_token_holder L) -
      (if b_overall b' = 0 \<and> ?s \<noteq> ?d then {(lower_tick_hex E ?t, key_text E ?s)} else {})"
  define L' where "L' = L\<lparr>drc20_token_balance := bal2, drc20_token_holder := H,
      drc20_transferable_log := redb_remove (script_tick_id_key E ?s ?t ?i) (drc20_transferable_log L),
      drc20_inscribe_transfer := (drc20_inscribe_transfer L)(inscription_id_store ?i := None)\<rparr>"
  note lt = ledger_ok_transfer [OF assms(2,3,5) b_def b'_def bal1_def c_def bal2_def H_def msg_keys [OF assms(2,4)] L'_def]
  obtain i where src: "transfer_source B E msg L = (Inr (r, i, b'), L)"
    using transfer_source_outcome [OF assms(1-3,5) b_def] unfolding b'_def by blast
  have bok: "balances_ok E (drc20_token_balance L)" using ledger_okD(2) [OF assms(3)] .
  have t1: "b_tick b' = b_tick b" by (simp add: b'_def)
  have "balances_ok E bal1"
    using balances_ok_insert [OF assms(2) bok fp(3), of b' ?s] stored_balance_props(4) [OF assms(2) bok fp(3), of ?s]
    unfolding bal1_def b'_def b_def by simp
  then have t2: "script_tick_key E ?d (b_tick c) = script_tick_key E ?d ?t"
    using stored_balance_props(3) [OF assms(2) _ fp(3), of bal1 ?d] unfolding c_def by blast
  have t1': "script_tick_key E ?s (b_tick b') = script_tick_key E ?s ?t"
    using stored_balance_props(3) [OF assms(2) bok fp(3), of ?s] t1 by (simp add: b_def)
  have gc: "(case map_of bal1 (script_tick_key E ?d ?t) of None \<Rightarrow> balance_new ?t | Some v \<Rightarrow> v) = c"
    by (simp add: c_def stored_balance_def)
  have conv: "num_checked_to_u128 B (bd_add B (num_of B (b_overall c)) (num_of B ?a)) = Inr (b_overall c + ?a)"
    "num_checked_to_u128 B (num_of B ?a) = Inr ?a"
    using lt(2) by (simp_all add: num_to_u128_Inr [OF X] exactD [OF X])
  have "process_transfer B E msg L = transfer_move B E msg (r, i, b') L"
    using src by (simp add: process_transfer_def drc_bind_def)
  also have "\<dots> = (Inr (TransferEvent \<lparr>ev_transfer_from = ?s, ev_transfer_to = ?d,
      ev_transfer_vout = op_vout (sp_outpoint (em_new_satpoint msg)), ev_transfer_tick = ti_tick i,
      ev_transfer_amount = ?a\<rparr>), L')"
    by (simp add: transfer_move_def drc_simps Let_def receiver_def [symmetric] get_balance_def update_token_balance_def t1' t2
        bal1_def [symmetric] bal2_def [symmetric] gc conv L'_def H_def insert_token_holder_def remove_token_holder_def
        remove_transferable_def remove_inscribe_transfer_inscription_def)
  finally show thesis
    by (rule that) (use lt(3) in \<open>simp_all add: L'_def bal2_def bal1_def c_def b'_def b_def Let_def\<close>)
qed

lemma transfer_not_found:
  assumes "get_transferable_by_id E (em_from msg) (em_inscription_id msg) L = None"
  shows "process_transfer B E msg L = (Inl (DRC20Error (TransferableNotFound (em_inscription_id msg))), L)"
  using assms by (simp add: process_transfer_def transfer_source_def drc_simps) (simp add: drc_bind_def drc_try_def drc_read_def)

section \<open>Executing messages\<close>

text \<open>An inscription makes at most one transferable balance: its id is not pending yet when it is inscribed.\<close>

definition fresh_for :: "'k execution_message \<Rightarrow> 'k ledger \<Rightarrow> bool" where
  "fresh_for msg L \<longleftrightarrow> (\<forall>t. em_op msg = OpInscribeTransfer t \<longrightarrow>
    (\<forall>k r. map_of (drc20_transferable_log L) k = Some r \<longrightarrow> tl_inscription_id r \<noteq> em_inscription_id msg))"

definition inscribing :: "operation \<Rightarrow> bool" where
  "inscribing op \<longleftrightarrow> (\<exists>t. op = OpInscribeTransfer t)"

definition pending_ids :: "'k ledger \<Rightarrow> inscription_id set" where
  "pending_ids L = {tl_inscription_id r | k r. map_of (drc20_transferable_log L) k = Some r}"

lemma pending_ids_iff: "i \<in> pending_ids L \<longleftrightarrow> (\<exists>k r. map_of (drc20_transferable_log L) k = Some r \<and> tl_inscription_id r = i)"
  unfolding pending_ids_def by (simp add: conj_commute eq_commute [of i])

lemma fresh_for_iff: "fresh_for msg L \<longleftrightarrow> (inscribing (em_op msg) \<longrightarrow> em_inscription_id msg \<notin> pending_ids L)"
  unfolding fresh_for_def inscribing_def pending_ids_iff by metis

lemma pending_ids_updates [simp]:
  "pending_ids (insert_token_info E t i L) = pending_ids L"
  "pending_ids (insert_token_holder E s t L) = pending_ids L"
  "pending_ids (update_token_balance E s b L) = pending_ids L"
  "pending_ids (insert_inscribe_transfer_inscription x info L) = pending_ids L"
  by (simp_all add: pending_ids_def insert_token_info_def insert_token_holder_def update_token_balance_def
      insert_inscribe_transfer_inscription_def)

lemma pending_ids_decisions [simp]: "pending_ids (L\<lparr>drc20_operation_decisions := ds\<rparr>) = pending_ids L"
  by (simp add: pending_ids_def)

lemma pending_ids_insert: "pending_ids (insert_transferable E s t row L) \<subseteq> insert (tl_inscription_id row) (pending_ids L)"
  by (auto simp: pending_ids_def insert_transferable_def map_of_redb_insert split: if_splits)

text \<open>What is pending after a message was pending before it, except for what the message inscribes.\<close>

abbreviation pends :: "'k execution_message \<Rightarrow> 'k ledger \<Rightarrow> 'k ledger \<Rightarrow> bool" where
  "pends msg L L' \<equiv> pending_ids L' \<subseteq> pending_ids L \<union> (if inscribing (em_op msg) then {em_inscription_id msg} else {})"

lemma process_message_outcome:
  assumes "bigdec_exact B val" and "env_ok E" and "msg_ok E msg" and "fresh_for msg L" and "ledger_ok E L"
    and "process_message B E context msg L = (x, L')"
  shows "refused x L' L \<or> (\<exists>ev. x = Inr ev) \<and> ledger_ok E L' \<and> pends msg L L'"
proof (cases "refused x L' L")
  case nr: False
  have "(\<exists>ev. x = Inr ev) \<and> ledger_ok E L' \<and> pends msg L L'"
  proof (cases "em_op msg")
    case (OpDeploy d)
    then have "process_deploy B E context msg d L = (x, L')" using assms(6) by (simp add: process_message_def)
    from process_deploy_outcome [OF assms(1) this nr] obtain ev i where
      "x = Inr (DeployEvent ev)" "length (dp_tick d) = 4" "get_token_info E (dp_tick d) L = None"
      "L' = insert_token_info E (dp_tick d) i L" "ti_tick i = dp_tick d" "ti_minted i = 0" "ti_supply i \<le> u128_max"
      by metis
    then show ?thesis using ledger_ok_deploy [OF assms(5)] by simp
  next
    case (OpMint m)
    then have "process_mint B E context msg m L = (x, L')" using assms(6) by (simp add: process_message_def)
    from process_mint_outcome [OF assms(1,2,5) this nr] obtain to_key i n b ev where
      "x = Inr ev" "length (mt_tick m) = 4" "get_token_info E (mt_tick m) L = Some i"
      "0 < n" "ti_minted i + n \<le> ti_supply i" "b = stored_balance E to_key (mt_tick m) (drc20_token_balance L)"
      "L' = insert_token_info E (mt_tick m) (i\<lparr>ti_minted := ti_minted i + n, ti_latest_mint_number := bc_blockheight context\<rparr>)
        (insert_token_holder E to_key (mt_tick m) (update_token_balance E to_key (b\<lparr>b_overall := b_overall b + n\<rparr>) L))"
      by metis
    then show ?thesis using ledger_ok_mint [OF assms(2,5)] by simp
  next
    case (OpInscribeTransfer tf)
    then have "process_inscribe_transfer B E msg tf L = (x, L')" using assms(6) by (simp add: process_message_def)
    then obtain to_key i n b ev row where r: "x = Inr ev" "length (tf_tick tf) = 4" "get_token_info E (tf_tick tf) L = Some i"
      "0 < n" "b = stored_balance E to_key (tf_tick tf) (drc20_token_balance L)" "b_transferable b + n \<le> b_overall b"
      "row = \<lparr>tl_inscription_id = em_inscription_id msg, tl_inscription_number = em_inscription_number msg,
          tl_amount = n, tl_tick = ti_tick i, tl_owner = to_key\<rparr>"
      "L' = insert_inscribe_transfer_inscription (em_inscription_id msg) \<lparr>tr_tick = ti_tick i, tr_amt = n\<rparr>
        (insert_transferable E to_key (tf_tick tf) row (update_token_balance E to_key (b\<lparr>b_transferable := b_transferable b + n\<rparr>) L))"
      using process_inscribe_outcome [OF assms(1,2,5) _ nr] by metis
    moreover have "length (ii_txid (em_inscription_id msg)) = 32" using assms(3) by (simp add: msg_ok_def)
    moreover have "\<forall>k r. map_of (drc20_transferable_log L) k = Some r \<longrightarrow> tl_inscription_id r \<noteq> em_inscription_id msg"
      using assms(4) OpInscribeTransfer by (simp add: fresh_for_def)
    ultimately have "ledger_ok E L'"
      using ledger_ok_inscribe [OF assms(2,5) r(2,3,5,6), of row] by simp
    moreover have "pends msg L L'"
      using pending_ids_insert [of E to_key "tf_tick tf" row] OpInscribeTransfer
      unfolding r(8) by (fastforce simp: inscribing_def r(7))
    ultimately show ?thesis using r(1) by simp
  next
    case (OpTransfer t)
    then have p: "process_transfer B E msg L = (x, L')" using assms(6) by (simp add: process_message_def)
    show ?thesis
    proof (cases "get_transferable_by_id E (em_from msg) (em_inscription_id msg) L")
      case None
      with p nr transfer_not_found [OF None, of B] show ?thesis by (auto simp: refused_def)
    next
      case (Some r)
      obtain ev where "x = Inr ev" "ledger_ok E L'"
        "drc20_transferable_log L' = redb_remove (script_tick_id_key E (em_from msg) (tl_tick r) (em_inscription_id msg)) (drc20_transferable_log L)"
        using p process_transfer_outcome [OF assms(1,2,5,3) Some] by (metis prod.inject)
      then show ?thesis by (auto simp: pending_ids_def map_of_redb_remove split: if_splits)
    qed
  qed
  then show ?thesis ..
qed simp

lemma ledger_ok_decisions [simp]: "ledger_ok E (L\<lparr>drc20_operation_decisions := ds\<rparr>) = ledger_ok E L"
  by (simp add: ledger_ok_def)

definition decision_of :: "'k execution_message \<Rightarrow> 'k ledger \<Rightarrow> decision option" where
  "decision_of msg L = drc20_operation_decisions L (decision_key (em_txid msg) (em_inscription_id msg))"

text \<open>How the outcome of an operation shows in the decision that is recorded for it.\<close>

definition decided :: "proc_error + 'k event \<Rightarrow> 'k ledger \<Rightarrow> 'k ledger \<Rightarrow> decision \<Rightarrow> bool" where
  "decided x L1 L d \<longleftrightarrow>
    (\<exists>e. x = Inl (DRC20Error e) \<and> L1 = L \<and> dc_verdict d = Rejected \<and> dc_amount d = None \<and> dc_reason d = Some e) \<or>
    (\<exists>ev. x = Inr ev \<and> dc_verdict d = Accepted \<and> dc_amount d = event_amount ev \<and> dc_reason d = None)"

lemma execute_outcome:
  assumes "bigdec_exact B val" and "env_ok E" and "msg_ok E msg" and "fresh_for msg L" and "ledger_ok E L"
    and "bc_blockheight context \<le> u32_max"
  obtains x L1 L' d ds where "process_message B E context msg L = (x, L1)" "execute B E context msg L = Inr L'"
    "decision_of msg L' = Some d" "ledger_ok E L'" "L' = L1\<lparr>drc20_operation_decisions := ds\<rparr>" "decided x L1 L d"
    "pends msg L L'"
proof -
  obtain x L1 where p: "process_message B E context msg L = (x, L1)" by fastforce
  have h: "try_from u32_max (bc_blockheight context) = Some (bc_blockheight context)" using assms(6) by simp
  let ?k = "decision_key (em_txid msg) (em_inscription_id msg)"
  from process_message_outcome [OF assms(1-5) p] show thesis
  proof
    assume "refused x L1 L"
    then obtain e where e: "x = Inl (DRC20Error e)" "L1 = L" by (auto simp: refused_def)
    let ?d = "make_decision context msg (bc_blockheight context) (Rejected, Some e, None)"
    have "execute B E context msg L = Inr (L1\<lparr>drc20_operation_decisions := (drc20_operation_decisions L1)(?k \<mapsto> ?d)\<rparr>)"
      by (simp add: execute_def p e h)
    moreover have "decided x L1 L ?d" by (simp add: decided_def e make_decision_def)
    ultimately show thesis
      using assms(5) e by (intro that [OF p, of "L1\<lparr>drc20_operation_decisions := (drc20_operation_decisions L1)(?k \<mapsto> ?d)\<rparr>" ?d "(drc20_operation_decisions L1)(?k \<mapsto> ?d)"]) (simp_all add: decision_of_def)
  next
    assume a: "(\<exists>ev. x = Inr ev) \<and> ledger_ok E L1 \<and> pends msg L L1"
    then obtain ev where ev: "x = Inr ev" by blast
    let ?d = "make_decision context msg (bc_blockheight context) (Accepted, None, event_amount ev)"
    have "execute B E context msg L = Inr (L1\<lparr>drc20_operation_decisions := (drc20_operation_decisions L1)(?k \<mapsto> ?d)\<rparr>)"
      by (simp add: execute_def p ev h)
    moreover have "decided x L1 L ?d" by (simp add: decided_def ev make_decision_def)
    ultimately show thesis
      using a by (intro that [OF p, of "L1\<lparr>drc20_operation_decisions := (drc20_operation_decisions L1)(?k \<mapsto> ?d)\<rparr>" ?d "(drc20_operation_decisions L1)(?k \<mapsto> ?d)"]) (simp_all add: decision_of_def)
  qed
qed

end
