(* ===== verification/Drc20_Properties.thy ===== *)
theory Drc20_Properties
  imports Drc20_Safety
begin

text \<open>
  The properties of the DRC-20 ledger: what deploying, minting and transferring do, that no message
  stops the indexing or breaks the ledger, that a refusal changes nothing, that a pending transfer can
  always be carried out, and that looking transfers up by range is exact. The witnesses use integers
  for the decimals and numbers for scripts and addresses.
\<close>

section \<open>An instance of the parameters\<close>

definition int_dec :: "int bigdec" where
  "int_dec = \<lparr>bd_add = (+), bd_sub = (-), bd_mul = (*), bd_one = 1, bd_less = (<), bd_is_integer = (\<lambda>_. True),
    bd_to_bigint = Some, bd_to_u8 = (\<lambda>i. if 0 \<le> i \<and> i \<le> 255 then Some (nat i) else None),
    bd_no_sign = (\<lambda>i. i = 0), bd_scale = (\<lambda>_. 0), bd_from_nat = int,
    bd_from_str = (\<lambda>s. map_option int (parse_uint u128_max s)), bd_to_string = (\<lambda>i. show_nat (nat i))\<rparr>"

lemma int_dec_exact: "bigdec_exact int_dec of_int"
  by (auto simp: bigdec_exact_def int_dec_def)

definition nat_env :: "(nat, nat, nat, unit) drc_env" where
  "nat_env = \<lparr>to_lowercase = map (\<lambda>c. if 65 \<le> c \<and> c \<le> 90 then c + 32 else c mod 256), hex_encode = hex_text,
    address_from_script = Some, script_hash = (\<lambda>s. s), address_text = show_nat, hash_text = show_nat,
    env_txids = hex_api, json_from_str = (\<lambda>_. None), json_get_p = (\<lambda>_. None), json_to_operation = (\<lambda>_. None)\<rparr>"

lemma nat_env_ok: "env_ok nat_env"
  using show_nat_no_sep [of 95]
  by (auto simp: env_ok_def nat_env_def key_text_def key_from_script_def hex_api_ok show_nat_inj split: script_key.splits)

definition empty_ledger :: "'k ledger" where
  "empty_ledger = \<lparr>drc20_token_info = Map.empty, drc20_token_holder = {}, drc20_token_balance = [],
    drc20_inscribe_transfer = Map.empty, drc20_transferable_log = [], drc20_operation_decisions = Map.empty\<rparr>"

lemma ledger_ok_empty: "ledger_ok E empty_ledger"
  by (simp add: ledger_ok_def empty_ledger_def infos_ok_def balances_ok_def logs_ok_def holders_ok_def redb_ok_def
      overall_total_def pending_total_def stored_balance_def balance_new_def)

text \<open>A message that sends inscription \<open>i\<close> from script 1 to script 2, and a block to put it in.\<close>

definition example_id :: inscription_id where
  "example_id = \<lparr>ii_txid = zero_txid, ii_index = 0\<rparr>"

definition example_msg :: "operation \<Rightarrow> (nat, nat) script_key execution_message" where
  "example_msg op = \<lparr>em_txid = zero_txid, em_inscription_id = example_id, em_inscription_number = 0,
    em_old_satpoint = \<lparr>sp_outpoint = null_outpoint, sp_offset = 0\<rparr>,
    em_new_satpoint = \<lparr>sp_outpoint = null_outpoint, sp_offset = 0\<rparr>,
    em_from = KeyAddress 1, em_to = Some (KeyAddress 2), em_op = op\<rparr>"

definition example_context :: block_context where
  "example_context = \<lparr>bc_blockheight = 7, bc_blockhash = [], bc_blocktime = 0, bc_reorg_epoch = 0\<rparr>"

lemma example_ok:
  "msg_ok nat_env (example_msg op)" "bc_blockheight example_context \<le> u32_max"
  "fresh_for (example_msg op) empty_ledger"
  by (auto simp: msg_ok_def example_msg_def nat_env_def key_from_script_def example_id_def zero_txid_def
      example_context_def u32_max_def fresh_for_def empty_ledger_def)

section \<open>No message breaks the ledger\<close>

text \<open>
  C9: executing a message always succeeds and keeps the ledger: whatever the operation, no panic and no
  error leaves \<open>execute_message\<close> once the message's keys are known, and afterwards the balances of
  every token still add up to what was minted of it, which is at most its supply; the transferable part
  of every balance is the sum of its pending transfers and at most the balance; and the holders of a
  token are exactly the scripts with a balance.
\<close>

theorem execute_keeps_ledger:
  assumes "bigdec_exact B val" and "env_ok E" and "msg_ok E msg" and "fresh_for msg L" and "ledger_ok E L"
    and "bc_blockheight context \<le> u32_max"
  shows "\<exists>L'. execute B E context msg L = Inr L' \<and> ledger_ok E L'"
  using execute_outcome [OF assms] by metis

theorem execute_keeps_ledger_witness:
  "\<exists>L'. execute int_dec nat_env example_context (example_msg (OpMint \<lparr>mt_tick = str ''doge'', mt_amount = str ''5''\<rparr>))
    empty_ledger = Inr L' \<and> ledger_ok nat_env L'"
  by (rule execute_keeps_ledger [OF int_dec_exact nat_env_ok example_ok(1,3) ledger_ok_empty example_ok(2)])

text \<open>
  C21: a refused operation changes nothing: when the decision recorded for a message is a rejection, the
  ledger differs from the one before only in the record of decisions, the decision has no amount and
  carries the error; an accepted operation's decision has no reason.
\<close>

theorem rejected_changes_nothing:
  assumes "bigdec_exact B val" and "env_ok E" and "msg_ok E msg" and "fresh_for msg L" and "ledger_ok E L"
    and "execute B E context msg L = Inr L'" and "bc_blockheight context \<le> u32_max"
  shows "\<exists>d. decision_of msg L' = Some d \<and> (dc_reason d = None \<longleftrightarrow> dc_verdict d = Accepted) \<and>
    (dc_verdict d = Rejected \<longrightarrow> dc_amount d = None \<and> L' = L\<lparr>drc20_operation_decisions := drc20_operation_decisions L'\<rparr>)"
proof -
  obtain x L1 L2 d ds where o: "execute B E context msg L = Inr L2" "decision_of msg L2 = Some d"
      "L2 = L1\<lparr>drc20_operation_decisions := ds\<rparr>" "decided x L1 L d"
    using execute_outcome [OF assms(1-5,7)] by metis
  with assms(6) show ?thesis by (auto simp: decided_def)
qed

theorem rejected_changes_nothing_witness:
  "\<exists>L' d. execute int_dec nat_env example_context (example_msg (OpMint \<lparr>mt_tick = str ''doge'', mt_amount = str ''5''\<rparr>))
    empty_ledger = Inr L' \<and>
    decision_of (example_msg (OpMint \<lparr>mt_tick = str ''doge'', mt_amount = str ''5''\<rparr>)) L' = Some d \<and>
    dc_reason d = Some (TickNotFound (str ''doge'')) \<and>
    L' = empty_ledger\<lparr>drc20_operation_decisions := drc20_operation_decisions L'\<rparr>"
proof -
  let ?m = "\<lparr>mt_tick = str ''doge'', mt_amount = str ''5''\<rparr>"
  let ?msg = "example_msg (OpMint ?m)"
  have "process_mint int_dec nat_env example_context ?msg ?m empty_ledger = (Inl (DRC20Error (TickNotFound (str ''doge''))), empty_ledger)"
    by (simp add: process_mint_def mint_amount_def drc_simps example_msg_def str_def get_token_info_def empty_ledger_def
        tick_from_str_def TICK_BYTE_COUNT_def drc_bind_def drc_try_def drc_read_def)
  then obtain L' where L': "execute int_dec nat_env example_context ?msg empty_ledger = Inr L'"
    "decision_of ?msg L' = Some (make_decision example_context ?msg 7 (Rejected, Some (TickNotFound (str ''doge'')), None))"
    by (simp add: execute_def process_message_def example_msg_def example_context_def u32_max_def decision_of_def try_from_def)
  from rejected_changes_nothing [OF int_dec_exact nat_env_ok example_ok(1,3) ledger_ok_empty L'(1) example_ok(2)] L'(2)
  have "L' = empty_ledger\<lparr>drc20_operation_decisions := drc20_operation_decisions L'\<rparr>" by (simp add: make_decision_def)
  with L' show ?thesis by (intro exI conjI) (assumption | simp add: make_decision_def)+
qed

section \<open>What the operations do\<close>

text \<open>
  C27: deploying: an accepted deploy names a four-byte tick that no token had, and creates a token with
  nothing minted, at most 18 decimals, and the supply and mint limit of the inscription scaled by
  the decimals without any rounding, both positive and the supply within 128 bits.
\<close>

theorem deploy_exact:
  assumes "bigdec_exact B val" and "process_deploy B E context msg d L = (Inr ev, L')"
  shows "\<exists>i n limit. length (dp_tick d) = 4 \<and> get_token_info E (dp_tick d) L = None \<and>
    L' = insert_token_info E (dp_tick d) i L \<and> ti_tick i = dp_tick d \<and> ti_minted i = 0 \<and> ti_decimal i \<le> 18 \<and>
    num_from_str B (dp_max_supply d) = Inr n \<and>
    num_from_str B (case dp_mint_limit d of None \<Rightarrow> dp_max_supply d | Some v \<Rightarrow> v) = Inr limit \<and>
    of_nat (ti_supply i) = val n * 10 ^ ti_decimal i \<and> 0 < ti_supply i \<and> ti_supply i \<le> u128_max \<and>
    of_nat (ti_limit_per_mint i) = val limit * 10 ^ ti_decimal i \<and> 0 < ti_limit_per_mint i"
proof -
  have "\<not> refused (Inr ev) L' L" by (simp add: refused_def)
  from process_deploy_outcome [OF assms this] show ?thesis by metis
qed

lemma parse_digits_small:
  "parse_uint u128_max (str ''21'') = Some 21" "parse_uint u128_max (str ''5'') = Some 5" "parse_uint u128_max (str ''2'') = Some 2"
  by (simp_all add: str_def parse_uint_def checked_defs u128_max_def)

definition example_deploy :: deploy where
  "example_deploy = \<lparr>dp_tick = str ''doge'', dp_max_supply = str ''21'', dp_mint_limit = Some (str ''5''), dp_decimals = Some (str ''2'')\<rparr>"

definition example_info :: "(nat, nat) script_key token_info" where
  "example_info = \<lparr>ti_tick = str ''doge'', ti_inscription_id = example_id, ti_inscription_number = 0, ti_supply = 2100,
    ti_minted = 0, ti_limit_per_mint = 500, ti_decimal = 2, ti_deploy_by = KeyAddress 2, ti_deployed_number = 7,
    ti_deployed_timestamp = 0, ti_latest_mint_number = 7\<rparr>"

lemma int_num_from_str:
  "num_from_str int_dec (str ''21'') = Inr 21" "num_from_str int_dec (str ''5'') = Inr 5" "num_from_str int_dec (str ''2'') = Inr 2"
  by (simp_all add: num_from_str_def int_dec_def parse_digits_small MAX_DECIMAL_WIDTH_def) (simp_all add: str_def)

lemma int_dec_ops [simp]:
  "bd_mul int_dec a b = a * b" "bd_add int_dec a b = a + b" "bd_sub int_dec a b = a - b" "bd_less int_dec a b \<longleftrightarrow> a < b"
  "bd_no_sign int_dec a \<longleftrightarrow> a = 0" "bd_scale int_dec a = 0" "num_of int_dec n = int n" "BIGDECIMAL_TEN int_dec = 10"
  "MAXIMUM_SUPPLY int_dec = int u64_max"
  by (simp_all add: int_dec_def num_of_def BIGDECIMAL_TEN_def MAXIMUM_SUPPLY_def)

lemma int_dec_conv:
  "num_checked_to_u8 int_dec 2 = Inr 2" "num_checked_powu int_dec 10 2 = Inr 100"
  "num_checked_to_u128 int_dec (int n) = (if n \<le> u128_max then Inr n else num_checked_to_u128 int_dec (int n))"
  by (simp_all add: num_checked_to_u8_def num_checked_powu_def num_checked_to_u128_def int_to_u128_def int_dec_def)

lemma int_dec_2100: "num_checked_to_u128 int_dec 2100 = Inr 2100" "num_checked_to_u128 int_dec 500 = Inr 500"
  by (simp_all add: num_checked_to_u128_def int_to_u128_def int_dec_def u128_max_def)

lemma example_tick: "tick_from_str (str ''doge'') = Inr (str ''doge'')" "length (str ''doge'') = 4"
  by (simp_all add: tick_from_str_def TICK_BYTE_COUNT_def str_def)

lemma get_token_info_empty [simp]: "get_token_info E t empty_ledger = None"
  by (simp add: get_token_info_def empty_ledger_def)

lemma example_deploys:
  "process_deploy int_dec nat_env example_context (example_msg (OpDeploy example_deploy)) example_deploy empty_ledger =
    (Inr (DeployEvent \<lparr>ev_deploy_vout = u32_max, ev_deployed_by = KeyAddress 2, ev_supply = 2100, ev_limit_per_mint = 500,
       ev_decimal = 2, ev_deploy_tick = str ''doge''\<rparr>), insert_token_info nat_env (str ''doge'') example_info empty_ledger)"
  by (simp add: process_deploy_def drc_simps example_deploy_def example_msg_def example_info_def example_context_def
      int_num_from_str int_dec_conv int_dec_2100 Let_def MAX_DECIMAL_WIDTH_def u64_max_def null_outpoint_def example_tick)

theorem deploy_exact_witness:
  "\<exists>i n. insert_token_info nat_env (str ''doge'') example_info empty_ledger =
      insert_token_info nat_env (str ''doge'') i (empty_ledger :: (nat, nat) script_key ledger) \<and>
    num_from_str int_dec (str ''21'') = Inr n \<and> rat_of_nat (ti_supply i) = of_int n * 10 ^ ti_decimal i"
  using deploy_exact [OF int_dec_exact example_deploys] by (simp add: example_deploy_def) metis

text \<open>
  C22: minting: an accepted mint credits the receiver with the inscribed amount, scaled by the decimals
  without rounding and at most the limit per mint, cut off at what is left of the supply; exactly that
  amount is added to what has been minted, recorded as the amount of the event, and never zero.
\<close>

theorem mint_exact:
  assumes "bigdec_exact B val" and "env_ok E" and "ledger_ok E L"
    and "process_mint B E context msg m L = (Inr ev, L')"
  shows "\<exists>to_key i amt a n j. em_to msg = Some to_key \<and> get_token_info E (mt_tick m) L = Some i \<and>
    num_from_str B (mt_amount m) = Inr amt \<and> of_nat a = val amt * 10 ^ ti_decimal i \<and> a \<le> ti_limit_per_mint i \<and>
    n = min a (ti_supply i - ti_minted i) \<and> 0 < n \<and> event_amount ev = Some n \<and>
    get_token_info E (mt_tick m) L' = Some j \<and> ti_minted j = ti_minted i + n \<and> ti_supply j = ti_supply i \<and>
    b_overall (stored_balance E to_key (mt_tick m) (drc20_token_balance L')) =
      b_overall (stored_balance E to_key (mt_tick m) (drc20_token_balance L)) + n"
proof -
  have nr: "\<not> refused (Inr ev) L' L" by (simp add: refused_def)
  obtain to_key i a n b amt where o: "event_amount ev = Some n"
    "em_to msg = Some to_key" "length (mt_tick m) = 4" "get_token_info E (mt_tick m) L = Some i"
    "num_from_str B (mt_amount m) = Inr amt" "of_nat a = val amt * 10 ^ ti_decimal i" "a \<le> ti_limit_per_mint i"
    "n = min a (ti_supply i - ti_minted i)" "0 < n"
    "b = stored_balance E to_key (mt_tick m) (drc20_token_balance L)"
    "L' = insert_token_info E (mt_tick m) (i\<lparr>ti_minted := ti_minted i + n, ti_latest_mint_number := bc_blockheight context\<rparr>)
      (insert_token_holder E to_key (mt_tick m) (update_token_balance E to_key (b\<lparr>b_overall := b_overall b + n\<rparr>) L))"
    using process_mint_outcome [OF assms nr] by (metis sum.inject(2))
  have "script_tick_key E to_key (b_tick b) = script_tick_key E to_key (mt_tick m)"
    using stored_balance_props(3) [OF assms(2) ledger_okD(2) [OF assms(3)] o(3)] o(10) by simp
  then have bal: "drc20_token_balance L' =
      redb_insert (script_tick_key E to_key (mt_tick m)) (b\<lparr>b_overall := b_overall b + n\<rparr>) (drc20_token_balance L)"
    using o(11) by (simp add: insert_token_info_def insert_token_holder_def update_token_balance_def)
  have "get_token_info E (mt_tick m) L' = Some (i\<lparr>ti_minted := ti_minted i + n, ti_latest_mint_number := bc_blockheight context\<rparr>)"
    using o(11) by (simp add: get_token_info_def insert_token_info_def)
  moreover have "b_overall (stored_balance E to_key (mt_tick m) (drc20_token_balance L')) =
      b_overall (stored_balance E to_key (mt_tick m) (drc20_token_balance L)) + n"
    unfolding bal stored_balance_insert using o(10) by simp
  ultimately show ?thesis using o by (intro exI conjI) (assumption | simp)+
qed

definition deployed_ledger :: "(nat, nat) script_key ledger" where
  "deployed_ledger = insert_token_info nat_env (str ''doge'') example_info empty_ledger"

lemma deployed_ledger_ok: "ledger_ok nat_env deployed_ledger"
  unfolding deployed_ledger_def
  by (rule ledger_ok_deploy [OF ledger_ok_empty example_tick(2)]) (simp_all add: example_info_def u128_max_def)

definition example_mint :: mint where
  "example_mint = \<lparr>mt_tick = str ''doge'', mt_amount = str ''5''\<rparr>"

lemma get_token_info_deployed: "get_token_info nat_env (str ''doge'') deployed_ledger = Some example_info"
  by (simp add: deployed_ledger_def get_token_info_def insert_token_info_def)

lemma drc_bind_Inr: "m L = (Inr a, L1) \<Longrightarrow> drc_bind m f L = f a L1"
  by (simp add: drc_bind_def)

lemma example_mints:
  "\<exists>ev L'. process_mint int_dec nat_env example_context (example_msg (OpMint example_mint)) example_mint deployed_ledger = (Inr ev, L')"
proof -
  have m: "mint_amount int_dec nat_env (example_msg (OpMint example_mint)) example_mint deployed_ledger =
      (Inr (KeyAddress 2, str ''doge'', example_info, None, 500), deployed_ledger)"
    by (simp add: mint_amount_def drc_simps example_mint_def example_msg_def int_num_from_str int_dec_conv
        get_token_info_deployed Let_def example_tick example_info_def)
  have "get_balance nat_env (KeyAddress 2) (str ''doge'') deployed_ledger = None"
    by (simp add: get_balance_def deployed_ledger_def empty_ledger_def insert_token_info_def)
  then show ?thesis
    unfolding process_mint_def drc_bind_Inr [where m = "mint_amount _ _ _ _", OF m]
    by (simp add: credit_mint_def drc_simps get_token_info_deployed example_info_def balance_new_def int_dec_2100)
qed

theorem mint_exact_witness:
  "\<exists>ev L' amt (n :: nat). process_mint int_dec nat_env example_context (example_msg (OpMint example_mint)) example_mint deployed_ledger = (Inr ev, L') \<and>
    num_from_str int_dec (str ''5'') = Inr amt \<and> of_nat n = rat_of_int amt * 10 ^ 2 \<and> event_amount ev = Some n"
proof -
  obtain ev L' where p: "process_mint int_dec nat_env example_context (example_msg (OpMint example_mint)) example_mint deployed_ledger = (Inr ev, L')"
    using example_mints by blast
  from mint_exact [OF int_dec_exact nat_env_ok deployed_ledger_ok p] obtain a n where
    "rat_of_nat a = of_int 5 * 10 ^ 2" "n = min a 2100" "event_amount ev = Some n"
    by (auto simp: example_mint_def get_token_info_deployed int_num_from_str) (simp add: example_info_def)
  moreover from this have "rat_of_nat a = rat_of_nat 500" by simp
  then have "a = 500" by (simp only: of_nat_eq_iff)
  ultimately show ?thesis using p int_num_from_str(2) by auto
qed

section \<open>Pending transfers\<close>

text \<open>
  C28: looking up the pending transfers of a script by the range of its keys is exact: the rows between
  the smallest and the largest tick key of the script are the pending transfers whose owner has the
  script's text, none of another script and none missing.
\<close>

theorem range_lookup_exact:
  assumes "env_ok E" and "ledger_ok E L"
  shows "set (get_transferable E s L) =
    {r. \<exists>k. map_of (drc20_transferable_log L) k = Some r \<and> key_text E (tl_owner r) = key_text E s}"
  using get_transferable_rows [OF assms(1) ledger_okD(3) [OF assms(2)]] by blast

lemma find_pending_iff:
  assumes "env_ok E" and "ledger_ok E L"
  shows "get_transferable_by_id E s i L = Some r \<longleftrightarrow>
    (\<exists>k. map_of (drc20_transferable_log L) k = Some r \<and> key_text E (tl_owner r) = key_text E s \<and> tl_inscription_id r = i)"
proof
  assume f: "get_transferable_by_id E s i L = Some r"
  from find_pending(1,2,4) [OF assms f]
  show "\<exists>k. map_of (drc20_transferable_log L) k = Some r \<and> key_text E (tl_owner r) = key_text E s \<and> tl_inscription_id r = i"
    by blast
next
  note lok = ledger_okD(3) [OF assms(2)]
  assume "\<exists>k. map_of (drc20_transferable_log L) k = Some r \<and> key_text E (tl_owner r) = key_text E s \<and> tl_inscription_id r = i"
  then obtain k where k: "map_of (drc20_transferable_log L) k = Some r" "key_text E (tl_owner r) = key_text E s" "tl_inscription_id r = i"
    by blast
  then have "r \<in> set (get_transferable E s L)" using get_transferable_rows [OF assms(1) lok] by blast
  then obtain r' where f: "get_transferable_by_id E s i L = Some r'"
    using k(3) by (cases "get_transferable_by_id E s i L") (auto simp: get_transferable_by_id_def find_None_iff)
  note fp = find_pending(2,4) [OF assms f]
  have "k = script_tick_id_key E s (tl_tick r') i"
    using lok k(1,3) fp unfolding logs_ok_def by metis
  then show "get_transferable_by_id E s i L = Some r" using k(1) fp(2) f by simp
qed

text \<open>
  C11: a pending transfer can always be carried out, once: sending the inscription of a pending transfer
  from its owner is accepted with the pending amount, moves exactly that amount from the sender's to the
  receiver's balance of the token (to the sender itself when the inscription goes to fees), leaves all
  other balances as they were, and the transfer is no longer pending afterwards.
\<close>

theorem pending_transfer_succeeds:
  assumes "bigdec_exact B val" and "env_ok E" and "msg_ok E msg" and "ledger_ok E L" and "em_op msg = OpTransfer tf"
    and "bc_blockheight context \<le> u32_max"
    and "get_transferable_by_id E (em_from msg) (em_inscription_id msg) L = Some r"
  shows "\<exists>L' d. execute B E context msg L = Inr L' \<and> decision_of msg L' = Some d \<and>
    dc_verdict d = Accepted \<and> dc_amount d = Some (tl_amount r) \<and>
    (\<forall>s. get_transferable_by_id E s (em_inscription_id msg) L' = None) \<and>
    (\<forall>s u. b_overall (stored_balance E s u (drc20_token_balance L')) +
        (if script_tick_key E s u = script_tick_key E (em_from msg) (tl_tick r) then tl_amount r else 0) =
      b_overall (stored_balance E s u (drc20_token_balance L)) +
        (if script_tick_key E s u = script_tick_key E (receiver msg) (tl_tick r) then tl_amount r else 0))"
proof -
  have fresh: "fresh_for msg L" using assms(5) by (simp add: fresh_for_def)
  obtain x L1 L' d ds where e: "process_message B E context msg L = (x, L1)" "execute B E context msg L = Inr L'"
    "decision_of msg L' = Some d" "ledger_ok E L'" "L' = L1\<lparr>drc20_operation_decisions := ds\<rparr>" "decided x L1 L d"
    using execute_outcome [OF assms(1-3) fresh assms(4,6)] by metis
  let ?s = "em_from msg" and ?t = "tl_tick r" and ?i = "em_inscription_id msg" and ?bal = "drc20_token_balance L"
  define b where "b = stored_balance E ?s ?t ?bal"
  define bal1 where "bal1 = redb_insert (script_tick_key E ?s ?t)
    (b\<lparr>b_overall := b_overall b - tl_amount r, b_transferable := b_transferable b - tl_amount r\<rparr>) ?bal"
  define c where "c = stored_balance E (receiver msg) ?t bal1"
  obtain ev where p: "x = Inr ev" "event_amount ev = Some (tl_amount r)"
    "drc20_token_balance L1 = redb_insert (script_tick_key E (receiver msg) ?t) (c\<lparr>b_overall := b_overall c + tl_amount r\<rparr>) bal1"
    "drc20_transferable_log L1 = redb_remove (script_tick_id_key E ?s ?t ?i) (drc20_transferable_log L)"
    using process_transfer_outcome [OF assms(1,2,4,3,7)] e(1) assms(5)
    by (auto simp: process_message_def Let_def b_def bal1_def c_def)
  note fp = find_pending [OF assms(2,4,7)]
  have gone: "get_transferable_by_id E s ?i L' = None" for s
  proof (cases "get_transferable_by_id E s ?i L'")
    case (Some q)
    then obtain k where "map_of (drc20_transferable_log L') k = Some q" "tl_inscription_id q = ?i"
      using find_pending_iff [OF assms(2) e(4)] by blast
    then have "map_of (drc20_transferable_log L) k = Some q" "k \<noteq> script_tick_id_key E ?s ?t ?i" "tl_inscription_id q = ?i"
      using e(5) p(4) by (auto simp: map_of_redb_remove split: if_splits)
    with fp(2,4) ledger_okD(3) [OF assms(4)] show ?thesis unfolding logs_ok_def by metis
  qed simp
  have le: "tl_amount r \<le> b_overall b"
    using ledger_ok_transfer(1) [OF assms(2,4,7) b_def refl refl refl refl refl _ refl, of ?s]
      stored_balance_props(4) [OF assms(2) ledger_okD(2) [OF assms(4)] fp(3), of ?s] unfolding b_def by simp
  have same: "b_overall (stored_balance E s u t) = b_overall (stored_balance E s' u' t)"
    if "script_tick_key E s u = script_tick_key E s' u'" for s s' u u' t
    using that by (simp add: stored_balance_def balance_new_def split: option.splits)
  have "b_overall (stored_balance E s u (drc20_token_balance L')) + (if script_tick_key E s u = script_tick_key E ?s ?t then tl_amount r else 0) =
      b_overall (stored_balance E s u ?bal) + (if script_tick_key E s u = script_tick_key E (receiver msg) ?t then tl_amount r else 0)" for s u
    using le same [of s u ?s ?t ?bal] same [of s u "receiver msg" ?t ?bal]
      same [of "receiver msg" ?t ?s ?t ?bal]
    by (simp add: e(5) p(3) stored_balance_insert) (simp add: c_def bal1_def stored_balance_insert b_def)
  with e(2,3,6) p(1,2) gone show ?thesis by (auto simp: decided_def)
qed

text \<open>A ledger in which script 2 holds 500 of the example token, 200 of them in a pending transfer.\<close>

definition example_balance :: "nat \<Rightarrow> nat \<Rightarrow> balance" where
  "example_balance n p = \<lparr>b_tick = str ''doge'', b_overall = n, b_transferable = p\<rparr>"

definition minted_ledger :: "(nat, nat) script_key ledger" where
  "minted_ledger = insert_token_info nat_env (str ''doge'') (example_info\<lparr>ti_minted := 500\<rparr>)
    (insert_token_holder nat_env (KeyAddress 2) (str ''doge'')
      (update_token_balance nat_env (KeyAddress 2) (example_balance 500 0) deployed_ledger))"

definition example_row :: "(nat, nat) script_key transferable_log" where
  "example_row = \<lparr>tl_inscription_id = example_id, tl_inscription_number = 0, tl_amount = 200, tl_tick = str ''doge'',
    tl_owner = KeyAddress 2\<rparr>"

definition pending_ledger :: "(nat, nat) script_key ledger" where
  "pending_ledger = insert_inscribe_transfer_inscription example_id \<lparr>tr_tick = str ''doge'', tr_amt = 200\<rparr>
    (insert_transferable nat_env (KeyAddress 2) (str ''doge'') example_row
      (update_token_balance nat_env (KeyAddress 2) (example_balance 500 200) minted_ledger))"

lemma minted_ledger_ok: "ledger_ok nat_env minted_ledger"
proof -
  have b: "stored_balance nat_env (KeyAddress 2) (str ''doge'') (drc20_token_balance deployed_ledger) = example_balance 0 0"
    by (simp add: stored_balance_def deployed_ledger_def insert_token_info_def empty_ledger_def balance_new_def example_balance_def)
  have "ti_minted example_info + 500 \<le> ti_supply example_info" by (simp add: example_info_def)
  from ledger_ok_mint [OF nat_env_ok deployed_ledger_ok example_tick(2) get_token_info_deployed _ this b [symmetric], of 7]
  show ?thesis by (simp add: minted_ledger_def example_balance_def example_info_def)
qed

lemma pending_ledger_ok: "ledger_ok nat_env pending_ledger"
proof -
  have b: "stored_balance nat_env (KeyAddress 2) (str ''doge'') (drc20_token_balance minted_ledger) = example_balance 500 0"
    by (simp add: minted_ledger_def insert_token_info_def insert_token_holder_def update_token_balance_def stored_balance_def
        map_of_redb_insert example_balance_def)
  have i: "get_token_info nat_env (str ''doge'') minted_ledger = Some (example_info\<lparr>ti_minted := 500\<rparr>)"
    by (simp add: minted_ledger_def get_token_info_def insert_token_info_def)
  have l: "drc20_transferable_log minted_ledger = []"
    by (simp add: minted_ledger_def deployed_ledger_def insert_token_info_def insert_token_holder_def update_token_balance_def empty_ledger_def)
  have "b_transferable (example_balance 500 0) + 200 \<le> b_overall (example_balance 500 0)" by (simp add: example_balance_def)
  from ledger_ok_inscribe [OF nat_env_ok minted_ledger_ok example_tick(2) i b [symmetric] this, of example_row example_id
      "\<lparr>tr_tick = str ''doge'', tr_amt = 200\<rparr>"]
  show ?thesis using l
    by (simp add: pending_ledger_def example_row_def example_info_def example_id_def zero_txid_def example_balance_def)
qed

lemma pending_row:
  "map_of (drc20_transferable_log pending_ledger) (script_tick_id_key nat_env (KeyAddress 2) (str ''doge'') example_id) = Some example_row"
  by (simp add: pending_ledger_def insert_inscribe_transfer_inscription_def insert_transferable_def map_of_redb_insert example_row_def)

theorem range_lookup_exact_witness:
  "example_row \<in> set (get_transferable nat_env (KeyAddress 2) pending_ledger)"
  unfolding range_lookup_exact [OF nat_env_ok pending_ledger_ok]
  using pending_row by (auto simp: example_row_def)

definition sending_msg :: "(nat, nat) script_key execution_message" where
  "sending_msg = (example_msg (OpTransfer \<lparr>tf_tick = str ''doge'', tf_amount = str ''200''\<rparr>))
    \<lparr>em_from := KeyAddress 2, em_to := Some (KeyAddress 3)\<rparr>"

theorem pending_transfer_succeeds_witness:
  "\<exists>L' d. execute int_dec nat_env example_context sending_msg pending_ledger = Inr L' \<and>
    decision_of sending_msg L' = Some d \<and> dc_verdict d = Accepted \<and> dc_amount d = Some 200"
proof -
  have m: "msg_ok nat_env sending_msg"
    by (auto simp: msg_ok_def sending_msg_def example_msg_def nat_env_def key_from_script_def example_id_def zero_txid_def)
  have "get_transferable_by_id nat_env (em_from sending_msg) (em_inscription_id sending_msg) pending_ledger = Some example_row"
    unfolding find_pending_iff [OF nat_env_ok pending_ledger_ok]
    using pending_row by (auto simp: sending_msg_def example_msg_def example_row_def)
  from pending_transfer_succeeds [OF int_dec_exact nat_env_ok m pending_ledger_ok _ example_ok(2) this]
  show ?thesis by (simp add: sending_msg_def example_msg_def example_row_def) blast
qed

end
