(* ===== verification/Drc20_Block.thy ===== *)
theory Drc20_Block
  imports Drc20_Properties "HOL-Library.Sublist"
begin

text \<open>
  DRC-20 messages of a whole block: which messages the inscription operations of a transaction give,
  that indexing a block keeps the ledger, that prefetching scripts in parallel chunks changes nothing but speed, and that
  the key of a decision determines the transaction and the inscription it is about.
\<close>

section \<open>Messages of a transaction\<close>

definition is_new :: "inscription_op \<Rightarrow> bool" where
  "is_new op \<longleftrightarrow> (case io_action op of NewAction _ \<Rightarrow> True | TransferAction \<Rightarrow> False)"

lemma message_resolve_Some:
  assumes "message_resolve E transfers new op = Some m"
  shows "ms_inscription_id m = io_inscription_id op" and "inscribing (ms_op m) \<Longrightarrow> is_new op"
  using assms
  by (auto simp: message_resolve_def Let_def inscribing_def is_new_def split: action.splits option.splits if_splits)

lemma resolve_input_subseq:
  assumes "resolve_input f p ops = (ms, rest)"
  shows "\<exists>used. ops = used @ rest \<and> ms = List.map_filter f used"
  using assms
proof (induction ops arbitrary: ms)
  case Nil
  then show ?case by (simp add: map_filter_simps)
next
  case (Cons op ops)
  show ?case
  proof (cases "sp_outpoint (io_old_satpoint op) = p")
    case True
    with Cons.prems obtain ms' where r: "resolve_input f p ops = (ms', rest)" "ms = (case f op of None \<Rightarrow> ms' | Some m \<Rightarrow> m # ms')"
      by (auto split: prod.splits)
    moreover obtain used where "ops = used @ rest" "ms' = List.map_filter f used" using Cons.IH [OF r(1)] by blast
    ultimately show ?thesis by (intro exI [of _ "op # used"]) (simp add: map_filter_simps split: option.splits)
  next
    case False
    with Cons.prems show ?thesis by (intro exI [of _ "[]"]) (simp add: map_filter_simps)
  qed
qed

lemma resolve_inputs_prefix: "\<exists>used rest. ops = used @ rest \<and> resolve_inputs f ps ops = List.map_filter f used"
proof (induction ps arbitrary: ops)
  case Nil
  show ?case by (intro exI [of _ "[]"] exI [of _ ops]) (simp add: map_filter_simps)
next
  case (Cons p ps)
  obtain ms rest where r: "resolve_input f p ops = (ms, rest)" by fastforce
  obtain used where u: "ops = used @ rest" "ms = List.map_filter f used" using resolve_input_subseq [OF r] by blast
  obtain used' rest' where u': "rest = used' @ rest'" "resolve_inputs f ps rest = List.map_filter f used'" using Cons.IH by blast
  show ?case
    using r u u' by (intro exI [of _ "used @ used'"] exI [of _ rest']) (simp add: map_filter_def)
qed

abbreviation inscribed_ids :: "drc_message list \<Rightarrow> inscription_id list" where
  "inscribed_ids ms \<equiv> map ms_inscription_id (filter (\<lambda>m. inscribing (ms_op m)) ms)"

abbreviation new_ids :: "inscription_op list \<Rightarrow> inscription_id list" where
  "new_ids ops \<equiv> map io_inscription_id (filter is_new ops)"

lemma inscribed_subseq:
  "subseq (inscribed_ids (List.map_filter (message_resolve E transfers new) ops)) (new_ids ops)"
proof (induction ops)
  case Nil
  show ?case by (simp add: map_filter_simps)
next
  case (Cons op ops)
  show ?case
  proof (cases "message_resolve E transfers new op")
    case None
    with Cons show ?thesis by (auto simp: map_filter_simps)
  next
    case (Some m)
    note r = message_resolve_Some [OF Some]
    show ?thesis
      using Cons Some r by (cases "inscribing (ms_op m)") (auto simp: map_filter_simps)
  qed
qed

lemma resolve_message_ids:
  "subseq (inscribed_ids (resolve_message E L tx ops)) (new_ids ops)"
  "set (map ms_inscription_id (resolve_message E L tx ops)) \<subseteq> set (map io_inscription_id ops)"
proof -
  obtain f new where f: "f = message_resolve E (drc20_inscribe_transfer L) new"
    and m: "resolve_message E L tx ops = resolve_inputs f (map fst (dx_inputs tx)) ops"
    by (auto simp: resolve_message_def Let_def)
  obtain used rest where u: "ops = used @ rest" "resolve_inputs f (map fst (dx_inputs tx)) ops = List.map_filter f used"
    using resolve_inputs_prefix by blast
  have "subseq (inscribed_ids (List.map_filter f used)) (new_ids used)" unfolding f by (rule inscribed_subseq)
  then show "subseq (inscribed_ids (resolve_message E L tx ops)) (new_ids ops)"
    unfolding m u(2) unfolding u(1) by (simp add: subseq_rev_drop_many list_emb_append2)
  show "set (map ms_inscription_id (resolve_message E L tx ops)) \<subseteq> set (map io_inscription_id ops)"
    unfolding m u(2) unfolding u(1) f
    by (auto simp: map_filter_def message_resolve_Some(1) split: option.splits)
qed

lemma subseq_distinct: "subseq xs ys \<Longrightarrow> distinct ys \<Longrightarrow> distinct xs"
  by (auto simp: subseq_conv_nths distinct_nthsI)

section \<open>Indexing a block\<close>

lemma script_key_range: "get_script_key_on_satpoint E C p = Inr k \<Longrightarrow> k \<in> range (key_from_script E)"
  by (auto simp: get_script_key_on_satpoint_def Let_def res_simps split: option.splits)

lemma execution_message_ok:
  assumes "create_execution_message E C m = Inr msg" and "length (ii_txid (ms_inscription_id m)) = 32"
  shows "msg_ok E msg" "em_op msg = ms_op m" "em_inscription_id msg = ms_inscription_id m"
  using assms script_key_range [of E C]
  by (auto simp: create_execution_message_def msg_ok_def res_simps split: if_splits)

lemma create_no_panic: "create_execution_message E C m = Inl e \<Longrightarrow> e \<noteq> IndexPanic p"
  by (auto simp: create_execution_message_def get_script_key_on_satpoint_def res_bind_def ok_or_def Let_def
      split: sum.splits option.splits if_splits)

text \<open>What a list of messages leaves: a sound ledger, or an error that is not a panic.\<close>

lemma execute_messages:
  assumes X: "bigdec_exact B val" and E: "env_ok E" and h: "bc_blockheight context \<le> u32_max"
  shows "\<lbrakk>ledger_ok E L; distinct (inscribed_ids ms); set (inscribed_ids ms) \<inter> pending_ids L = {};
    \<forall>m\<in>set ms. length (ii_txid (ms_inscription_id m)) = 32\<rbrakk> \<Longrightarrow>
    (\<exists>L'. res_fold (execute_message B E C context) ms L = Inr L' \<and> ledger_ok E L' \<and>
      pending_ids L' \<subseteq> pending_ids L \<union> set (inscribed_ids ms)) \<or>
    (\<exists>e. res_fold (execute_message B E C context) ms L = Inl e \<and> (\<forall>p. e \<noteq> IndexPanic p))"
proof (induction ms arbitrary: L)
  case Nil
  then show ?case by simp
next
  case (Cons m ms)
  show ?case
  proof (cases "create_execution_message E C m")
    case (Inl e)
    then show ?thesis using create_no_panic [OF Inl] by (auto simp: execute_message_def)
  next
    case (Inr msg)
    note mo = execution_message_ok [OF Inr]
    have "fresh_for msg L" using Cons.prems(3) mo Cons.prems(4) by (auto simp: fresh_for_iff)
    then obtain L1 where e: "execute B E context msg L = Inr L1" "ledger_ok E L1" "pends msg L L1"
      using execute_outcome [OF X E _ _ Cons.prems(1) h, of msg] mo(1) Cons.prems(4) by (metis list.set_intros(1))
    have p: "pending_ids L1 \<subseteq> pending_ids L \<union> (if inscribing (ms_op m) then {ms_inscription_id m} else {})"
      using e(3) mo(2,3) Cons.prems(4) by (auto split: if_splits)
    have "execute_message B E C context m L = Inr L1" by (simp add: execute_message_def Inr e(1))
    then have first: "res_fold (execute_message B E C context) (m # ms) L = res_fold (execute_message B E C context) ms L1" by simp
    define I where "I = set (inscribed_ids ms)"
    have "I \<inter> pending_ids L = {}" "inscribing (ms_op m) \<longrightarrow> ms_inscription_id m \<notin> I"
      using Cons.prems(2,3) by (auto simp: I_def split: if_splits)
    then have "I \<inter> pending_ids L1 = {}" using p by (auto split: if_splits)
    then have "set (inscribed_ids ms) \<inter> pending_ids L1 = {}" "distinct (inscribed_ids ms)"
      using Cons.prems(2) by (simp_all only: I_def) (simp split: if_splits)
    from Cons.IH [OF e(2) this(2,1)] Cons.prems(4) consider
      L' where "res_fold (execute_message B E C context) ms L1 = Inr L'" "ledger_ok E L'" "pending_ids L' \<subseteq> pending_ids L1 \<union> I"
      | e' where "res_fold (execute_message B E C context) ms L1 = Inl e'" "\<forall>p. e' \<noteq> IndexPanic p"
      unfolding I_def by auto
    then show ?thesis
    proof cases
      case 1
      have "set (inscribed_ids (m # ms)) = (if inscribing (ms_op m) then {ms_inscription_id m} else {}) \<union> I"
        by (simp add: I_def)
      then have "pending_ids L' \<subseteq> pending_ids L \<union> set (inscribed_ids (m # ms))" using 1(3) p by blast
      with 1 first show ?thesis by auto
    next
      case 2
      with first show ?thesis by simp
    qed
  qed
qed

definition block_new_ids :: "(txid \<times> inscription_op list) list \<Rightarrow> ('s drc_tx \<times> txid) list \<Rightarrow> inscription_id list" where
  "block_new_ids operations txdata =
    concat (map (\<lambda>tx. case map_of operations (snd tx) of None \<Rightarrow> [] | Some ops \<Rightarrow> new_ids ops) txdata)"

lemma index_transactions:
  assumes X: "bigdec_exact B val" and E: "env_ok E" and h: "bc_blockheight context \<le> u32_max"
    and ids: "\<forall>t ops. map_of operations t = Some ops \<longrightarrow> (\<forall>op\<in>set ops. length (ii_txid (io_inscription_id op)) = 32)"
  shows "\<lbrakk>ledger_ok E L; distinct (block_new_ids operations txs); set (block_new_ids operations txs) \<inter> pending_ids L = {}\<rbrakk> \<Longrightarrow>
    (\<exists>L'. res_fold (index_transaction B E C context operations) txs L = Inr L' \<and> ledger_ok E L') \<or>
    (\<exists>e. res_fold (index_transaction B E C context operations) txs L = Inl e \<and> (\<forall>p. e \<noteq> IndexPanic p))"
proof (induction txs arbitrary: L)
  case Nil
  then show ?case by simp
next
  case (Cons tx txs)
  let ?rest = "block_new_ids operations txs"
  have "block_new_ids operations (tx # txs) = (case map_of operations (snd tx) of None \<Rightarrow> [] | Some ops \<Rightarrow> new_ids ops) @ ?rest"
    by (simp add: block_new_ids_def)
  then have rest: "distinct ?rest" "set ?rest \<inter> pending_ids L = {}"
    using Cons.prems(2,3) by auto
  show ?case
  proof (cases "map_of operations (snd tx) = None \<or> dx_inputs (fst tx) \<noteq> [] \<and> fst (hd (dx_inputs (fst tx))) = null_outpoint")
    case True
    then have "index_transaction B E C context operations tx L = Inr L" by (auto simp: index_transaction_def)
    with Cons.IH [OF Cons.prems(1) rest] show ?thesis by simp
  next
    case False
    then obtain ops where ops: "map_of operations (snd tx) = Some ops" by auto
    define ms where "ms = resolve_message E L (fst tx) ops"
    have it: "index_transaction B E C context operations tx L = res_fold (execute_message B E C context) ms L"
      using False ops by (auto simp: index_transaction_def ms_def)
    have new: "block_new_ids operations (tx # txs) = new_ids ops @ ?rest" by (simp add: block_new_ids_def ops)
    have sub: "subseq (inscribed_ids ms) (new_ids ops)" and sb: "set (map ms_inscription_id ms) \<subseteq> set (map io_inscription_id ops)"
      unfolding ms_def by (rule resolve_message_ids)+
    define I N where "I = set (inscribed_ids ms)" and "N = set (new_ids ops)"
    have IN: "I \<subseteq> N" using list_emb_set [OF sub] by (auto simp: I_def N_def)
    have N: "N \<inter> pending_ids L = {}" "N \<inter> set ?rest = {}" "distinct (new_ids ops)"
      using Cons.prems(2,3) unfolding new N_def by auto
    have "distinct (inscribed_ids ms)" using subseq_distinct [OF sub N(3)] .
    moreover have "set (inscribed_ids ms) \<inter> pending_ids L = {}" using IN N(1) unfolding I_def by blast
    moreover have "\<forall>m\<in>set ms. length (ii_txid (ms_inscription_id m)) = 32"
    proof
      fix m
      assume "m \<in> set ms"
      then obtain op where "op \<in> set ops" "ms_inscription_id m = io_inscription_id op" using sb by auto
      with ids ops show "length (ii_txid (ms_inscription_id m)) = 32" by simp
    qed
    ultimately consider L1 where "res_fold (execute_message B E C context) ms L = Inr L1" "ledger_ok E L1"
        "pending_ids L1 \<subseteq> pending_ids L \<union> I"
      | e where "res_fold (execute_message B E C context) ms L = Inl e" "\<forall>p. e \<noteq> IndexPanic p"
      using execute_messages [OF X E h Cons.prems(1), of ms C] unfolding I_def by blast
    then show ?thesis
    proof cases
      case 1
      have "set ?rest \<inter> pending_ids L1 = {}" using 1(3) IN N(2) rest(2) by blast
      from Cons.IH [OF 1(2) rest(1) this] show ?thesis by (simp add: it 1(1))
    next
      case 2
      then show ?thesis by (simp add: it)
    qed
  qed
qed

text \<open>
  C10: indexing the DRC-20 operations of a block never panics and keeps the ledger sound: when the new
  inscriptions of the block have ids of their own, none of them pending already, indexing either fails
  because an inscription number, a satpoint or a previous output cannot be found (and the block is then
  not committed), or ends in a ledger in which the invariant of every token, balance, holder and
  pending transfer holds again.
\<close>

theorem index_block_keeps_ledger:
  assumes "bigdec_exact B val" and "env_ok E" and "bc_blockheight context \<le> u32_max" and "ledger_ok E L"
    and "\<forall>t ops. map_of operations t = Some ops \<longrightarrow> (\<forall>op\<in>set ops. length (ii_txid (io_inscription_id op)) = 32)"
    and "distinct (block_new_ids operations txdata)" and "set (block_new_ids operations txdata) \<inter> pending_ids L = {}"
  shows "(\<exists>L'. index_block B E has_index fetcher C context txdata operations L = Inr L' \<and> ledger_ok E L') \<or>
    (\<exists>e. index_block B E has_index fetcher C context txdata operations L = Inl e \<and> (\<forall>p. e \<noteq> IndexPanic p))"
  unfolding index_block_def Let_def by (rule index_transactions [OF assms(1-3,5,4,6,7)])

text \<open>A block with one transaction that sends the pending inscription from script 2 to script 3.\<close>

definition sending_txid :: txid where "sending_txid = replicate 32 1"

definition sending_op :: inscription_op where
  "sending_op = \<lparr>io_txid = sending_txid, io_action = TransferAction, io_inscription_number = None, io_inscription_id = example_id,
    io_old_satpoint = \<lparr>sp_outpoint = \<lparr>op_txid = zero_txid, op_vout = 0\<rparr>, sp_offset = 0\<rparr>,
    io_new_satpoint = Some \<lparr>sp_outpoint = \<lparr>op_txid = sending_txid, op_vout = 0\<rparr>, sp_offset = 0\<rparr>\<rparr>"

definition sending_tx :: "nat drc_tx" where
  "sending_tx = \<lparr>dx_inputs = [(\<lparr>op_txid = zero_txid, op_vout = 0\<rparr>, [])], dx_outputs = [3]\<rparr>"

definition sending_chain :: "nat drc_chain" where
  "sending_chain = \<lparr>block_output_scripts = Map.empty, transaction_id_to_transaction = Map.empty,
    node_transaction = (\<lambda>t. if t = zero_txid then Some [2] else None),
    inscription_id_to_inscription_entry = (\<lambda>k. Some (0, 0, 5, None, 0, 0))\<rparr>"

lemma sending_operations_ok:
  "\<forall>t ops. map_of [(sending_txid, [sending_op])] t = Some ops \<longrightarrow> (\<forall>op\<in>set ops. length (ii_txid (io_inscription_id op)) = 32)"
  "block_new_ids [(sending_txid, [sending_op])] [(sending_tx, sending_txid)] = []"
  by (auto simp: sending_op_def example_id_def zero_txid_def block_new_ids_def is_new_def)

theorem index_block_keeps_ledger_witness:
  "(\<exists>L'. index_block int_dec nat_env True (Inl NoConnection) sending_chain example_context [(sending_tx, sending_txid)]
      [(sending_txid, [sending_op])] pending_ledger = Inr L' \<and> ledger_ok nat_env L') \<or>
   (\<exists>e. index_block int_dec nat_env True (Inl NoConnection) sending_chain example_context [(sending_tx, sending_txid)]
      [(sending_txid, [sending_op])] pending_ledger = Inl e \<and> (\<forall>p. e \<noteq> IndexPanic p))"
  by (rule index_block_keeps_ledger [OF int_dec_exact nat_env_ok example_ok(2) pending_ledger_ok sending_operations_ok(1)])
    (simp_all add: sending_operations_ok(2))

section \<open>Prefetching\<close>

text \<open>The node's transactions as single requests read them, and as the batches of the fetcher read them.\<close>

definition same_node :: "'s fetcher \<Rightarrow> (txid \<Rightarrow> json_rpc_error + rchar list) \<Rightarrow> 's drc_chain \<Rightarrow> bool" where
  "same_node F raw C \<longleftrightarrow>
    (\<forall>t. node_transaction C t = map_option (\<lambda>tx. map txo_script (tx_output tx)) (node_tx F raw t))"

lemma foldl_upd_other:
  "t \<notin> fst ` set ps \<Longrightarrow> foldl (\<lambda>m (t, v). m(t \<mapsto> f v)) m ps t = m t"
  by (induction ps arbitrary: m) auto

lemma foldl_upd_in:
  "t \<in> fst ` set ps \<Longrightarrow> \<exists>v. (t, v) \<in> set ps \<and> foldl (\<lambda>m (t, v). m(t \<mapsto> f v)) m ps t = Some (f v)"
proof (induction ps arbitrary: m)
  case (Cons p ps)
  obtain t' v where p: "p = (t', v)" by fastforce
  show ?case
  proof (cases "t \<in> fst ` set ps")
    case True
    with Cons.IH [OF True, of "m(t' \<mapsto> f v)"] p show ?thesis by auto
  next
    case False
    with Cons.prems p have "t = t'" by auto
    with p foldl_upd_other [OF False, of f "m(t' \<mapsto> f v)"] show ?thesis
      by (intro exI [of _ v]) (simp del: fun_upd_apply add: fun_upd_same)
  qed
qed simp

lemma zip_map_eq: "map f xs = map g ys \<Longrightarrow> (x, y) \<in> set (zip xs ys) \<Longrightarrow> f x = g y"
proof (induction xs arbitrary: ys)
  case (Cons a xs)
  then show ?case by (cases ys) auto
qed simp

text \<open>A prefetched script list is the node's, and nothing the block itself provides is overwritten.\<close>

lemma prefetch_scripts:
  assumes "answers_batches F raw" and "same_node F raw C"
  obtains "block_output_scripts (prefetch_satpoint_transactions (Inr F) operations C) t = block_output_scripts C t"
  | outs where "block_output_scripts (prefetch_satpoint_transactions (Inr F) operations C) t = Some outs"
      "block_output_scripts C t = None" "node_transaction C t = Some outs"
proof (cases "prefetch_txids C operations = []")
  case True
  then show thesis by (intro that(1)) (simp add: prefetch_satpoint_transactions_def Let_def)
next
  case False
  let ?ts = "prefetch_txids C operations"
  let ?n = "(length ?ts + 31) div 32"
  show thesis
  proof (cases "fetch_chunks F ?n ?ts")
    case (Inl e)
    with False show thesis by (intro that(1)) (simp add: prefetch_satpoint_transactions_def Let_def)
  next
    case (Inr txs)
    have n: "0 < ?n" using False by (cases ?ts) simp_all
    have P: "block_output_scripts (prefetch_satpoint_transactions (Inr F) operations C) =
      foldl (\<lambda>m (t, tx). m(t \<mapsto> map txo_script (tx_output tx))) (block_output_scripts C) (zip ?ts txs)"
      using False Inr by (simp add: prefetch_satpoint_transactions_def Let_def)
    show thesis
    proof (cases "t \<in> fst ` set (zip ?ts txs)")
      case True
      from foldl_upd_in [OF True, of "\<lambda>tx. map txo_script (tx_output tx)" "block_output_scripts C"] obtain tx
        where tx: "(t, tx) \<in> set (zip ?ts txs)" "foldl (\<lambda>m (t, tx). m(t \<mapsto> map txo_script (tx_output tx)))
          (block_output_scripts C) (zip ?ts txs) t = Some (map txo_script (tx_output tx))" by blast
      have "node_tx F raw t = Some tx" by (rule zip_map_eq [OF chunks_in_order [OF assms(1) n Inr] tx(1)])
      moreover have "t \<in> set ?ts" using tx(1) by (rule set_zip_leftD)
      then have "block_output_scripts C t = None" by (auto simp: prefetch_txids_def)
      ultimately show thesis using tx(2) assms(2) by (intro that(2)) (simp_all add: P same_node_def)
    next
      case False
      then show thesis by (intro that(1)) (simp add: P foldl_upd_other)
    qed
  qed
qed

lemma prefetch_keeps [simp]:
  "transaction_id_to_transaction (prefetch_satpoint_transactions fetcher operations C) = transaction_id_to_transaction C"
  "node_transaction (prefetch_satpoint_transactions fetcher operations C) = node_transaction C"
  "inscription_id_to_inscription_entry (prefetch_satpoint_transactions fetcher operations C) = inscription_id_to_inscription_entry C"
  by (simp_all add: prefetch_satpoint_transactions_def Let_def split: sum.splits)

lemma prefetch_script_key:
  assumes "answers_batches F raw" and "same_node F raw C" and "transaction_id_to_transaction C = Map.empty"
  shows "get_script_key_on_satpoint E (prefetch_satpoint_transactions (Inr F) operations C) p = get_script_key_on_satpoint E C p"
proof -
  let ?t = "op_txid (sp_outpoint p)" and ?P = "prefetch_satpoint_transactions (Inr F) operations C"
  consider "block_output_scripts ?P ?t = block_output_scripts C ?t"
    | outs where "block_output_scripts ?P ?t = Some outs" "block_output_scripts C ?t = None" "node_transaction C ?t = Some outs"
    by (rule prefetch_scripts [OF assms(1,2), of operations ?t]) auto
  then show ?thesis by cases (simp_all add: get_script_key_on_satpoint_def Let_def assms(3) split: option.splits)
qed

text \<open>
  C30: prefetching scripts only costs or saves time. Without a transaction index (the only case in which
  the code prefetches, and then the table of stored transactions is empty), and with a node that answers
  a batch by one response per request in any order and knows the same transactions in a batch as in a
  single request, indexing a block gives the same result with the prefetch, cut into chunks and joined
  again, as with one that failed.
\<close>

theorem prefetch_only_speed:
  assumes "answers_batches F raw" and "same_node F raw C" and "transaction_id_to_transaction C = Map.empty"
  shows "index_block B E False (Inr F) C context txdata operations L =
    index_block B E False (Inl e) C context txdata operations L"
proof -
  let ?C = "block_chain txdata C" and ?P = "prefetch_satpoint_transactions (Inr F) operations (block_chain txdata C)"
  have n: "same_node F raw ?C" "transaction_id_to_transaction ?C = Map.empty"
    using assms(2,3) by (simp_all add: block_chain_def same_node_def)
  have k: "get_script_key_on_satpoint E ?P p = get_script_key_on_satpoint E ?C p" for p
    by (rule prefetch_script_key [OF assms(1) n])
  have "create_execution_message E ?P = create_execution_message E ?C"
    by (intro ext) (simp only: create_execution_message_def k get_number_by_inscription_id_def prefetch_keeps)
  then have "execute_message B E ?P context = execute_message B E ?C context"
    by (intro ext) (simp only: execute_message_def)
  then have "index_transaction B E ?P context operations = index_transaction B E ?C context operations"
    by (intro ext) (simp only: index_transaction_def)
  moreover have "prefetch_satpoint_transactions (Inl e) operations ?C = ?C"
    by (simp add: prefetch_satpoint_transactions_def Let_def)
  ultimately show ?thesis by (simp add: index_block_def)
qed

text \<open>
  A node that answers backwards and knows one transaction, with script 2 as its only output, and a block
  that spends it: its script is prefetched.
\<close>

definition earlier_txid :: txid where "earlier_txid = replicate 32 9"

definition earlier_op :: inscription_op where
  "earlier_op = sending_op\<lparr>io_old_satpoint := \<lparr>sp_outpoint = \<lparr>op_txid = earlier_txid, op_vout = 0\<rparr>, sp_offset = 0\<rparr>\<rparr>"

definition earlier_tx :: "nat drc_tx" where
  "earlier_tx = \<lparr>dx_inputs = [(\<lparr>op_txid = earlier_txid, op_vout = 0\<rparr>, [])], dx_outputs = [3]\<rparr>"

definition earlier_chain :: "nat drc_chain" where
  "earlier_chain = sending_chain\<lparr>node_transaction := (\<lambda>t. if t = earlier_txid then Some [2] else None)\<rparr>"

definition one_tx_raw :: "txid \<Rightarrow> json_rpc_error + rchar list" where
  "one_tx_raw t = (if t = earlier_txid then Inr [] else Inl \<lparr>je_code = -5, je_message = []\<rparr>)"

definition one_tx_node :: "nat fetcher" where
  "one_tx_node = \<lparr>post_batch = (\<lambda>reqs. Inr (rev (map (\<lambda>(i, t). response i (one_tx_raw t)) reqs))),
    hex_decode = (\<lambda>s. Some []),
    consensus_deserialize = (\<lambda>b. Some \<lparr>tx_input = [], tx_output = [\<lparr>txo_amount = 0, txo_script = 2\<rparr>]\<rparr>)\<rparr>"

lemma one_tx_node_ok: "answers_batches one_tx_node one_tx_raw" "same_node one_tx_node one_tx_raw earlier_chain"
  by (auto simp: answers_batches_def same_node_def node_tx_def one_tx_node_def one_tx_raw_def earlier_chain_def)

lemma earlier_prefetched:
  "block_output_scripts (prefetch_satpoint_transactions (Inr one_tx_node) [(sending_txid, [earlier_op])]
    (block_chain [(earlier_tx, sending_txid)] earlier_chain)) earlier_txid = Some [2]"
  by code_simp

theorem prefetch_only_speed_witness:
  "index_block int_dec nat_env False (Inr one_tx_node)
      earlier_chain example_context [(earlier_tx, sending_txid)] [(sending_txid, [earlier_op])] pending_ledger =
   index_block int_dec nat_env False (Inl NoConnection)
      earlier_chain example_context [(earlier_tx, sending_txid)] [(sending_txid, [earlier_op])] pending_ledger"
  by (rule prefetch_only_speed [OF one_tx_node_ok]) (simp add: earlier_chain_def sending_chain_def)

section \<open>Decisions\<close>

text \<open>
  A decision is addressed by its transaction and its inscription alone: the keys of two decisions
  about 32-byte txids and 32-bit inscription indexes are equal only when both agree, and a key has 68 bytes.
\<close>

theorem decision_key_unique:
  assumes "length t = 32" and "length t' = 32" and "length (ii_txid i) = 32" and "length (ii_txid i') = 32"
    and "ii_index i \<le> u32_max" and "ii_index i' \<le> u32_max"
  shows "length (decision_key t i) = 68 \<and> (decision_key t i = decision_key t' i' \<longleftrightarrow> t = t' \<and> i = i')"
proof -
  have "inscription_id_load (inscription_id_store j) = j" if "length (ii_txid j) = 32" "ii_index j \<le> u32_max" for j
    using that from_le_bytes [of 4 "ii_index j"]
    by (simp add: inscription_id_load_def inscription_id_store_def u32_max_def)
  then have "inscription_id_store i = inscription_id_store i' \<longleftrightarrow> i = i'" using assms(3-6) by metis
  then show ?thesis using assms(1-4) by (auto simp: decision_key_def inscription_id_store_def [symmetric])
    (simp_all add: inscription_id_store_def)
qed

theorem decision_key_unique_witness:
  "decision_key zero_txid example_id \<noteq> decision_key sending_txid example_id"
  using decision_key_unique [of zero_txid sending_txid example_id example_id]
  by (simp add: zero_txid_def sending_txid_def example_id_def u32_max_def)

end
