(* ===== verification/Fee_Rate.thy ===== *)
theory Fee_Rate
  imports Prelude Complex_Main "HOL-Library.Log_Nat"
begin

text \<open>
  Fee rates (\<open>src/fee_rate.rs\<close>): a rate is an \<open>f64\<close>, and the fee of a transaction is the rate times
  its size, rounded to a whole number of sats. Finite doubles are rational numbers here, and a
  product is rounded to 53 significant bits, ties to even. Exponents are not bounded: a product
  too large for a double is infinite in Rust and saturates at \<open>u64::MAX\<close> in the conversion, as the
  exact value does, and one below the normal doubles rounds to no sats either way.
\<close>

section \<open>Doubles\<close>

datatype f64 = Finite bool rat | Infinite bool | NaN bool

text \<open>The first component is the sign bit, which \<open>is_sign_negative\<close> reads (also of zero and NaN).\<close>

fun is_sign_negative :: "f64 \<Rightarrow> bool" where
  "is_sign_negative (Finite s x) = s"
| "is_sign_negative (Infinite s) = s"
| "is_sign_negative (NaN s) = s"

definition round_half_even :: "rat \<Rightarrow> int" where
  "round_half_even x =
    (let n = \<lfloor>x\<rfloor>; d = x - of_int n in
     if d < 1 / 2 then n else if 1 / 2 < d then n + 1 else if even n then n else n + 1)"

text \<open>The exponent of a positive number: \<open>2 ^ e \<le> x < 2 ^ (e + 1)\<close>.\<close>

definition binary_exponent :: "rat \<Rightarrow> int" where
  "binary_exponent x =
    (let (a, b) = quotient_of x;
         e = int (floorlog 2 (nat a)) - int (floorlog 2 (nat b))
     in if 2 powi e \<le> x then e else e - 1)"

definition f64_of_exact :: "rat \<Rightarrow> rat" where
  "f64_of_exact x =
    (if x = 0 then 0
     else let ulp = 2 powi (binary_exponent x - 52) in of_int (round_half_even (x / ulp)) * ulp)"

definition f64_mult :: "rat \<Rightarrow> rat \<Rightarrow> rat" where
  "f64_mult x y = f64_of_exact (x * y)"

text \<open>\<open>f64::round\<close> of a number that is not negative (half away from zero), and \<open>as u64\<close>.\<close>

definition f64_round :: "rat \<Rightarrow> int" where
  "f64_round x = \<lfloor>x + 1 / 2\<rfloor>"

definition f64_as_u64 :: "int \<Rightarrow> u64" where
  "f64_as_u64 n = (if n < 0 then 0 else min u64_max (nat n))"

section \<open>Fee rates\<close>

datatype fee_rate = FeeRate rat

datatype fee_rate_error = InvalidFeeRate f64

fun fee_rate_try_from :: "f64 \<Rightarrow> fee_rate_error + fee_rate" where
  "fee_rate_try_from (Finite s x) = (if s then Inl (InvalidFeeRate (Finite s x)) else Inr (FeeRate x))"
| "fee_rate_try_from (Infinite s) = Inl (InvalidFeeRate (Infinite s))"
| "fee_rate_try_from (NaN s) = Inl (InvalidFeeRate (NaN s))"

fun fee :: "fee_rate \<Rightarrow> usize \<Rightarrow> u64" where
  "fee (FeeRate r) vsize = f64_as_u64 (f64_round (f64_mult r (f64_of_exact (of_nat vsize))))"

section \<open>Whole numbers of sats per byte\<close>

lemma floorlog_bounds:
  assumes "0 < n"
  shows "2 ^ (floorlog 2 n - 1) \<le> n" and "n < 2 ^ floorlog 2 n" and "0 < floorlog 2 n"
proof -
  show *: "0 < floorlog 2 n" using assms by (simp add: floorlog_eq_zero_iff neq0_conv [symmetric] del: neq0_conv)
  show "2 ^ (floorlog 2 n - 1) \<le> n" "n < 2 ^ floorlog 2 n"
    using floorlog_bounds [of n 2] assms by auto
qed

lemma binary_exponent_nat:
  assumes "0 < n"
  shows "binary_exponent (of_nat n) = int (floorlog 2 n) - 1"
proof -
  define k where "k = floorlog 2 n"
  have k: "2 ^ (k - 1) \<le> n" "n < 2 ^ k" "0 < k"
    using floorlog_bounds [OF assms] by (simp_all add: k_def)
  have q: "quotient_of (of_nat n) = (int n, 1)"
    using quotient_of_int [of "int n"] by simp
  have one: "floorlog 2 1 = 1" by (simp add: floorlog_def)
  from k(3) obtain j where j: "k = Suc j" using gr0_conv_Suc by auto
  have e: "(2::rat) powi (int k - 1) = 2 ^ j" using j by (simp add: power_int_def)
  have "(2::rat) ^ j \<le> of_nat n"
    using k(1) j by (metis diff_Suc_1 of_nat_le_iff of_nat_numeral of_nat_power)
  then show ?thesis
    using q one e by (simp add: binary_exponent_def k_def)
qed

lemma f64_of_exact_nat:
  assumes "n < 2 ^ 53"
  shows "f64_of_exact (of_nat n) = of_nat n"
proof (cases "n = 0")
  case True
  then show ?thesis by (simp add: f64_of_exact_def)
next
  case False
  then have n: "0 < n" by simp
  define k where "k = floorlog 2 n"
  have "(2::nat) ^ (k - 1) < 2 ^ 53" using floorlog_bounds(1) [OF n] assms by (simp add: k_def)
  then have "k - 1 < 53" by (rule power_less_imp_less_exp [rotated]) simp
  then have "k \<le> 53" using floorlog_bounds(3) [OF n] by (simp add: k_def)
  then obtain j where j: "53 = k + j" using le_Suc_ex by blast
  have ulp: "(2::rat) powi (binary_exponent (of_nat n) - 52) = 1 / 2 ^ j"
  proof -
    have "binary_exponent (of_nat n) - 52 = - int j"
      using j by (simp add: binary_exponent_nat [OF n] k_def [symmetric])
    then show ?thesis by (simp only: power_int_minus power_int_of_nat) (simp add: inverse_eq_divide)
  qed
  have "round_half_even (of_nat n * 2 ^ j) = int (n * 2 ^ j)"
  proof -
    have "(of_nat n * 2 ^ j :: rat) = of_int (int (n * 2 ^ j))" by simp
    then show ?thesis by (simp only: round_half_even_def Let_def floor_of_int) simp
  qed
  then show ?thesis using n by (simp add: f64_of_exact_def ulp)
qed

text \<open>With a whole number of sats per byte the fee is exact.\<close>

lemma fee_whole:
  assumes "r * v < 2 ^ 53" and "v < 2 ^ 53"
  shows "fee (FeeRate (of_nat r)) v = r * v"
proof -
  have m: "f64_mult (of_nat r) (of_nat v) = of_nat (r * v)"
    using f64_of_exact_nat [OF assms(1)] by (simp add: f64_mult_def)
  have "\<lfloor>of_nat n + (1 / 2 :: rat)\<rfloor> = int n" for n :: nat
    by (rule floor_unique) simp_all
  then have f: "f64_round (of_nat (r * v)) = int (r * v)" by (simp only: f64_round_def)
  have "r * v \<le> u64_max" using assms(1) by (simp add: width_defs)
  then show ?thesis
    by (simp add: f64_of_exact_nat [OF assms(2)] m f f64_as_u64_def del: of_nat_mult)
qed

end
