(* ===== verification/Transaction_Builder.thy ===== *)
theory Transaction_Builder
  imports Identifier Fee_Rate
begin

text \<open>
  The wallet's transaction builder (\<open>src/subcommand/wallet/transaction_builder.rs\<close>): it sends one sat
  of the wallet to a recipient, so that the sat is the first of the recipient's output, pays the fee,
  returns the excess as change and spends no other inscription and no dune on the way. Addresses are
  a type of their own; their scripts, the dust limit of a script and the virtual size of a
  transaction are the bitcoin library's and come as the record \<open>wallet_api\<close>.

  \<open>BTreeMap\<close>s and \<open>BTreeSet\<close>s are lists in key order; amounts are \<open>u64\<close>, and the operators of
  \<open>Amount\<close> panic on overflow. Every \<open>assert!\<close> and \<open>expect\<close> of the code is a branch of the model
  that ends in \<open>Panicked\<close>.
\<close>

section \<open>Transactions\<close>

type_synonym script = "byte list"

record txin =
  ti_previous_output :: outpoint
  ti_script_sig :: script
  ti_sequence :: u32
  ti_witness :: "byte list list"

record wallet_tx =
  wt_version :: nat
  wt_lock_time :: u32
  wt_input :: "txin list"
  wt_output :: "script txout list"

record 'a wallet_api =
  script_pubkey :: "'a \<Rightarrow> script"
  dust_value :: "script \<Rightarrow> u64"
  vsize :: "wallet_tx \<Rightarrow> usize"

definition ENABLE_RBF_NO_LOCKTIME :: u32 where "ENABLE_RBF_NO_LOCKTIME = 0xFFFFFFFD"

section \<open>The builder\<close>

datatype 'a builder_error =
    DuplicateAddress 'a
  | Dust u64 u64
  | NotEnoughCardinalUtxos
  | NotInWallet sat_point
  | OutOfRange sat_point u64
  | UtxoContainsAdditionalInscription sat_point sat_point inscription_id
  | ValueOverflow
  | Panicked rust_panic

datatype target = Value u64 | Postage

record 'a transaction_builder =
  tb_amounts :: "(outpoint \<times> u64) list"
  tb_change_addresses :: "'a list"
  tb_fee_rate :: fee_rate
  tb_inputs :: "outpoint list"
  tb_inscriptions :: "(sat_point \<times> inscription_id) list"
  tb_outgoing :: sat_point
  tb_outputs :: "('a \<times> u64) list"
  tb_recipient :: 'a
  tb_dunic_utxos :: "outpoint list"
  tb_unused_change_addresses :: "'a list"
  tb_utxos :: "outpoint list"
  tb_target :: target

definition ADDITIONAL_INPUT_VBYTES :: usize where "ADDITIONAL_INPUT_VBYTES = 58"
definition ADDITIONAL_OUTPUT_VBYTES :: usize where "ADDITIONAL_OUTPUT_VBYTES = 43"
definition MAX_POSTAGE :: u64 where "MAX_POSTAGE = 2 * 10000"
definition SCHNORR_SIGNATURE_SIZE :: usize where "SCHNORR_SIGNATURE_SIZE = 64"
definition TARGET_POSTAGE :: u64 where "TARGET_POSTAGE = 10000"

text \<open>Panicking operators, in the error type of the builder.\<close>

abbreviation or_panic :: "'b may_panic \<Rightarrow> 'a builder_error + 'b" where
  "or_panic \<equiv> lift_panic Panicked"

definition assert_that :: "bool \<Rightarrow> 'a builder_error + unit" where
  "assert_that P = (if P then Inr () else Inl (Panicked AssertFailed))"

definition amount_add :: "u64 \<Rightarrow> u64 \<Rightarrow> 'a builder_error + u64" where
  "amount_add a b = or_panic (add_or_panic u64_max a b)"

definition amount_sub :: "u64 \<Rightarrow> u64 \<Rightarrow> 'a builder_error + u64" where
  "amount_sub a b = or_panic (sub_or_panic a b)"

definition amount_sum :: "u64 list \<Rightarrow> 'a builder_error + u64" where
  "amount_sum = (\<lambda>xs. res_fold (\<lambda>x s. amount_add s x) xs 0)"

text \<open>\<open>self.amounts[outpoint]\<close>, \<open>outputs.last_mut().expect(..)\<close> and \<open>unused_change_addresses.pop()\<close>.\<close>

definition amount_of :: "(outpoint \<times> u64) list \<Rightarrow> outpoint \<Rightarrow> 'a builder_error + u64" where
  "amount_of amounts outpoint = or_panic (unwrap (map_of amounts outpoint))"

definition last_or_panic :: "'b list \<Rightarrow> 'a builder_error + 'b" where
  "last_or_panic xs = (if xs = [] then Inl (Panicked UnwrapNone) else Inr (last xs))"

definition set_last :: "('a \<times> u64) list \<Rightarrow> u64 \<Rightarrow> ('a \<times> u64) list" where
  "set_last outputs v = butlast outputs @ [(fst (last outputs), v)]"

text \<open>\<open>new\<close>.\<close>

definition builder_new :: "sat_point \<Rightarrow> (sat_point \<times> inscription_id) list \<Rightarrow> (outpoint \<times> u64) list \<Rightarrow>
    outpoint list \<Rightarrow> 'a \<Rightarrow> 'a \<times> 'a \<Rightarrow> fee_rate \<Rightarrow> target \<Rightarrow> 'a builder_error + 'a transaction_builder" where
  "builder_new outgoing inscriptions amounts dunic_utxos recipient change rate target =
    (if recipient = fst change \<or> recipient = snd change then Inl (DuplicateAddress recipient)
     else if fst change = snd change then Inl (DuplicateAddress (fst change))
     else Inr \<lparr>tb_amounts = amounts, tb_change_addresses = [fst change, snd change], tb_fee_rate = rate,
       tb_inputs = [], tb_inscriptions = inscriptions, tb_outgoing = outgoing, tb_outputs = [],
       tb_recipient = recipient, tb_dunic_utxos = dunic_utxos,
       tb_unused_change_addresses = [fst change, snd change], tb_utxos = map fst amounts,
       tb_target = target\<rparr>)"

text \<open>\<open>calculate_sat_offset\<close>: where the outgoing sat is among the sats of the inputs.\<close>

fun sat_offset_loop :: "(outpoint \<times> u64) list \<Rightarrow> sat_point \<Rightarrow> outpoint list \<Rightarrow> u64 \<Rightarrow>
    'a builder_error + u64" where
  "sat_offset_loop amounts outgoing [] sat_offset = Inl (Panicked Explicit)"
| "sat_offset_loop amounts outgoing (outpoint # rest) sat_offset =
    (if outpoint = sp_outpoint outgoing then amount_add sat_offset (sp_offset outgoing)
     else res_bind (amount_of amounts outpoint) (\<lambda>v.
          res_bind (amount_add sat_offset v) (sat_offset_loop amounts outgoing rest)))"

definition calculate_sat_offset :: "'a transaction_builder \<Rightarrow> 'a builder_error + u64" where
  "calculate_sat_offset b = sat_offset_loop (tb_amounts b) (tb_outgoing b) (tb_inputs b) 0"

text \<open>\<open>select_cardinal_utxo\<close>: the first unspent output that is large enough and carries nothing.\<close>

fun find_cardinal :: "(outpoint \<times> u64) list \<Rightarrow> outpoint set \<Rightarrow> outpoint set \<Rightarrow> u64 \<Rightarrow> outpoint list \<Rightarrow>
    'a builder_error + (outpoint \<times> u64) option" where
  "find_cardinal amounts inscribed dunic minimum_value [] = Inr None"
| "find_cardinal amounts inscribed dunic minimum_value (utxo # rest) =
    (if utxo \<in> inscribed \<or> utxo \<in> dunic then find_cardinal amounts inscribed dunic minimum_value rest
     else res_bind (amount_of amounts utxo) (\<lambda>v.
       if minimum_value \<le> v then Inr (Some (utxo, v))
       else find_cardinal amounts inscribed dunic minimum_value rest))"

definition select_cardinal_utxo :: "u64 \<Rightarrow> 'a transaction_builder \<Rightarrow>
    'a builder_error + (outpoint \<times> u64) \<times> 'a transaction_builder" where
  "select_cardinal_utxo minimum_value b =
    res_bind (find_cardinal (tb_amounts b) (set (map (sp_outpoint \<circ> fst) (tb_inscriptions b)))
        (set (tb_dunic_utxos b)) minimum_value (tb_utxos b)) (\<lambda>found.
    res_bind (ok_or NotEnoughCardinalUtxos found) (\<lambda>(utxo, v).
    Inr ((utxo, v), b\<lparr>tb_utxos := remove1 utxo (tb_utxos b)\<rparr>)))"

text \<open>\<open>select_outgoing\<close>.\<close>

fun check_inscriptions :: "sat_point \<Rightarrow> (sat_point \<times> inscription_id) list \<Rightarrow> 'a builder_error + unit" where
  "check_inscriptions outgoing [] = Inr ()"
| "check_inscriptions outgoing ((inscribed_satpoint, inscription_id) # rest) =
    (if sp_outpoint outgoing = sp_outpoint inscribed_satpoint \<and>
        sp_offset outgoing \<noteq> sp_offset inscribed_satpoint
     then Inl (UtxoContainsAdditionalInscription outgoing inscribed_satpoint inscription_id)
     else check_inscriptions outgoing rest)"

definition select_outgoing :: "'a transaction_builder \<Rightarrow> 'a builder_error + 'a transaction_builder" where
  "select_outgoing b =
    res_bind (check_inscriptions (tb_outgoing b) (tb_inscriptions b)) (\<lambda>_.
    res_bind (ok_or (NotInWallet (tb_outgoing b)) (map_of (tb_amounts b) (sp_outpoint (tb_outgoing b)))) (\<lambda>amount.
    if amount \<le> sp_offset (tb_outgoing b)
    then res_bind (amount_sub amount 1) (\<lambda>m. Inl (OutOfRange (tb_outgoing b) m))
    else Inr (b\<lparr>tb_utxos := remove1 (sp_outpoint (tb_outgoing b)) (tb_utxos b),
                tb_inputs := tb_inputs b @ [sp_outpoint (tb_outgoing b)],
                tb_outputs := tb_outputs b @ [(tb_recipient b, amount)]\<rparr>)))"

text \<open>\<open>align_outgoing\<close>.\<close>

definition align_outgoing :: "'a transaction_builder \<Rightarrow> 'a builder_error + 'a transaction_builder" where
  "align_outgoing b =
    res_bind (assert_that (length (tb_outputs b) = 1)) (\<lambda>_.
    res_bind (assert_that (fst (tb_outputs b ! 0) = tb_recipient b)) (\<lambda>_.
    res_bind (calculate_sat_offset b) (\<lambda>sat_offset.
    if sat_offset = 0 then Inr b
    else
      res_bind (last_or_panic (tb_unused_change_addresses b)) (\<lambda>change.
      let outputs = (change, sat_offset) # tb_outputs b in
      res_bind (amount_sub (snd (last outputs)) sat_offset) (\<lambda>v.
      Inr (b\<lparr>tb_unused_change_addresses := butlast (tb_unused_change_addresses b),
             tb_outputs := set_last outputs v\<rparr>))))))"

text \<open>\<open>pad_alignment_output\<close>.\<close>

definition pad_alignment_output :: "'a wallet_api \<Rightarrow> 'a transaction_builder \<Rightarrow>
    'a builder_error + 'a transaction_builder" where
  "pad_alignment_output A b =
    res_bind (or_panic (index_or_panic (tb_outputs b) 0)) (\<lambda>first.
    if fst first = tb_recipient b then Inr b
    else
      let dust_limit = dust_value A (script_pubkey A (tb_recipient b)) in
      if dust_limit \<le> snd first then Inr b
      else
        res_bind (amount_sub dust_limit (snd first)) (\<lambda>needed.
        res_bind (select_cardinal_utxo needed b) (\<lambda>((utxo, size'), b).
        res_bind (amount_add (snd first) size') (\<lambda>v.
        Inr (b\<lparr>tb_inputs := utxo # tb_inputs b, tb_outputs := (tb_outputs b)[0 := (fst first, v)]\<rparr>)))))"

text \<open>\<open>estimate_vbytes_with\<close>, \<open>estimate_vbytes\<close> and \<open>estimate_fee\<close>.\<close>

definition outpoint_null :: outpoint where
  "outpoint_null = \<lparr>op_txid = replicate 32 0, op_vout = u32_max\<rparr>"

definition signature_witness :: "byte list list" where
  "signature_witness = [replicate SCHNORR_SIGNATURE_SIZE 0]"

definition estimate_vbytes_with :: "'a wallet_api \<Rightarrow> usize \<Rightarrow> 'a list \<Rightarrow> usize" where
  "estimate_vbytes_with A inputs outputs =
    vsize A \<lparr>wt_version = 1, wt_lock_time = 0,
      wt_input = replicate inputs \<lparr>ti_previous_output = outpoint_null, ti_script_sig = [],
        ti_sequence = ENABLE_RBF_NO_LOCKTIME, ti_witness = signature_witness\<rparr>,
      wt_output = map (\<lambda>address. \<lparr>txo_amount = 0, txo_script = script_pubkey A address\<rparr>) outputs\<rparr>"

definition estimate_vbytes :: "'a wallet_api \<Rightarrow> 'a transaction_builder \<Rightarrow> usize" where
  "estimate_vbytes A b = estimate_vbytes_with A (length (tb_inputs b)) (map fst (tb_outputs b))"

definition estimate_fee :: "'a wallet_api \<Rightarrow> 'a transaction_builder \<Rightarrow> u64" where
  "estimate_fee A b = fee (tb_fee_rate b) (estimate_vbytes A b)"

text \<open>\<open>add_value\<close>.\<close>

definition add_value :: "'a wallet_api \<Rightarrow> 'a transaction_builder \<Rightarrow> 'a builder_error + 'a transaction_builder" where
  "add_value A b =
    (let estimated_fee = estimate_fee A b in
     res_bind (last_or_panic (tb_outputs b)) (\<lambda>lst.
     let min_value = (case tb_target b of Postage \<Rightarrow> dust_value A (script_pubkey A (fst lst)) | Value v \<Rightarrow> v) in
     res_bind (ok_or ValueOverflow (checked_add u64_max min_value estimated_fee)) (\<lambda>total.
     case checked_sub total (snd lst) of
       None \<Rightarrow> Inr b
     | Some deficit \<Rightarrow>
         if 0 < deficit then
           res_bind (ok_or ValueOverflow
             (checked_add u64_max deficit (fee (tb_fee_rate b) ADDITIONAL_INPUT_VBYTES))) (\<lambda>needed.
           res_bind (select_cardinal_utxo needed b) (\<lambda>((utxo, v), b).
           res_bind (amount_add (snd lst) v) (\<lambda>s.
           Inr (b\<lparr>tb_inputs := tb_inputs b @ [utxo], tb_outputs := set_last (tb_outputs b) s\<rparr>))))
         else Inr b)))"

text \<open>\<open>strip_value\<close>.\<close>

definition strip_value :: "'a wallet_api \<Rightarrow> 'a transaction_builder \<Rightarrow> 'a builder_error + 'a transaction_builder" where
  "strip_value A b =
    res_bind (calculate_sat_offset b) (\<lambda>sat_offset.
    res_bind (amount_sum (map snd (tb_outputs b))) (\<lambda>total_output_amount.
    res_bind (or_panic (unwrap (find (\<lambda>(address, _). address = tb_recipient b) (tb_outputs b)))) (\<lambda>_.
    res_bind (amount_sub total_output_amount sat_offset) (\<lambda>v.
    case checked_sub v (fee (tb_fee_rate b) (estimate_vbytes A b)) of
      None \<Rightarrow> Inr b
    | Some excess \<Rightarrow>
        (let (mx, target) = (case tb_target b of Postage \<Rightarrow> (MAX_POSTAGE, TARGET_POSTAGE) | Value v \<Rightarrow> (v, v)) in
         if \<not> mx < excess then Inr b
         else
           res_bind (or_panic (unwrap (checked_sub v target))) (\<lambda>rest.
           res_bind (last_or_panic (tb_unused_change_addresses b)) (\<lambda>change.
           res_bind (amount_add (dust_value A (script_pubkey A change))
             (fee (tb_fee_rate b) (estimate_vbytes A b + ADDITIONAL_OUTPUT_VBYTES))) (\<lambda>needed.
           if needed < rest then
             Inr (b\<lparr>tb_outputs := set_last (tb_outputs b) target @ [(change, rest)],
                    tb_unused_change_addresses := butlast (tb_unused_change_addresses b)\<rparr>)
           else Inr b))))))))"

text \<open>\<open>deduct_fee\<close>.\<close>

definition deduct_fee :: "'a wallet_api \<Rightarrow> 'a transaction_builder \<Rightarrow> 'a builder_error + 'a transaction_builder" where
  "deduct_fee A b =
    res_bind (calculate_sat_offset b) (\<lambda>sat_offset.
    let fee' = estimate_fee A b in
    res_bind (amount_sum (map snd (tb_outputs b))) (\<lambda>total_output_amount.
    res_bind (last_or_panic (tb_outputs b)) (\<lambda>lst.
    res_bind (or_panic (unwrap (checked_sub total_output_amount fee'))) (\<lambda>rest.
    res_bind (assert_that (sat_offset < rest)) (\<lambda>_.
    res_bind (assert_that (fee' \<le> snd lst)) (\<lambda>_.
    res_bind (amount_sub (snd lst) fee') (\<lambda>v.
    Inr (b\<lparr>tb_outputs := set_last (tb_outputs b) v\<rparr>))))))))"

text \<open>
  \<open>build\<close> and its assertions, one definition for each loop of the function. The position of the
  outgoing sat among the sats of the inputs, \<^const>\<open>None\<close> when no input spends it.
\<close>

fun input_position :: "(outpoint \<times> u64) list \<Rightarrow> sat_point \<Rightarrow> txin list \<Rightarrow> u64 \<Rightarrow>
    'a builder_error + u64 option" where
  "input_position amounts outgoing [] sat_offset = Inr None"
| "input_position amounts outgoing (tx_in # rest) sat_offset =
    (if ti_previous_output tx_in = sp_outpoint outgoing
     then res_bind (amount_add sat_offset (sp_offset outgoing)) (\<lambda>s. Inr (Some s))
     else res_bind (amount_of amounts (ti_previous_output tx_in)) (\<lambda>v.
          res_bind (amount_add sat_offset v) (input_position amounts outgoing rest)))"

text \<open>The output that holds the outgoing sat is the recipient's; \<^const>\<open>False\<close> when none holds it.\<close>

fun output_position :: "script \<Rightarrow> u64 \<Rightarrow> script txout list \<Rightarrow> u64 \<Rightarrow> 'a builder_error + bool" where
  "output_position recipient sat_offset [] output_end = Inr False"
| "output_position recipient sat_offset (tx_out # rest) output_end =
    res_bind (amount_add output_end (txo_amount tx_out)) (\<lambda>output_end.
    if sat_offset < output_end
    then res_bind (assert_that (txo_script tx_out = recipient)) (\<lambda>_. Inr True)
    else output_position recipient sat_offset rest output_end)"

text \<open>The value of every output, and that the outgoing sat is the first of the recipient's.\<close>

definition check_recipient_value :: "'a wallet_api \<Rightarrow> 'a transaction_builder \<Rightarrow> u64 \<Rightarrow> 'a builder_error + unit" where
  "check_recipient_value A b amount =
    (let slop = fee (tb_fee_rate b) ADDITIONAL_OUTPUT_VBYTES in
     case tb_target b of
       Postage \<Rightarrow> res_bind (amount_add MAX_POSTAGE slop) (\<lambda>m. assert_that (amount \<le> m))
     | Value v \<Rightarrow>
         res_bind (or_panic (unwrap (checked_sub amount v))) (\<lambda>excess.
         res_bind (amount_add (foldr max (map (dust_value A \<circ> script_pubkey A) (tb_change_addresses b)) 0) slop)
           (\<lambda>m. assert_that (excess \<le> m))))"

fun check_outputs :: "'a wallet_api \<Rightarrow> 'a transaction_builder \<Rightarrow> u64 \<Rightarrow> script txout list \<Rightarrow> u64 \<Rightarrow>
    'a builder_error + unit" where
  "check_outputs A b sat_offset [] offset = Inr ()"
| "check_outputs A b sat_offset (out # rest) offset =
    res_bind
      (if txo_script out = script_pubkey A (tb_recipient b)
       then res_bind (check_recipient_value A b (txo_amount out)) (\<lambda>_. assert_that (offset = sat_offset))
       else assert_that (\<exists>change\<in>set (tb_change_addresses b). script_pubkey A change = txo_script out)) (\<lambda>_.
    res_bind (amount_add offset (txo_amount out)) (check_outputs A b sat_offset rest))"

definition actual_fee :: "(outpoint \<times> u64) list \<Rightarrow> wallet_tx \<Rightarrow> 'a builder_error + u64" where
  "actual_fee amounts tx =
    res_bind (res_fold (\<lambda>tx_in total. res_bind (amount_of amounts (ti_previous_output tx_in)) (amount_add total))
      (wt_input tx) 0)
    (res_fold (\<lambda>out total. amount_sub total (txo_amount out)) (wt_output tx))"

definition sign_inputs :: "wallet_tx \<Rightarrow> wallet_tx" where
  "sign_inputs tx = tx\<lparr>wt_input := map (\<lambda>i. i\<lparr>ti_witness := [replicate 64 0]\<rparr>) (wt_input tx)\<rparr>"

definition unsigned_tx :: "'a wallet_api \<Rightarrow> 'a transaction_builder \<Rightarrow> wallet_tx" where
  "unsigned_tx A b =
    \<lparr>wt_version = 1, wt_lock_time = 0,
     wt_input = map (\<lambda>outpoint. \<lparr>ti_previous_output = outpoint, ti_script_sig = [],
       ti_sequence = ENABLE_RBF_NO_LOCKTIME, ti_witness = []\<rparr>) (tb_inputs b),
     wt_output = map (\<lambda>(address, amount). \<lparr>txo_amount = amount, txo_script = script_pubkey A address\<rparr>)
       (tb_outputs b)\<rparr>"

definition count_where :: "('b \<Rightarrow> bool) \<Rightarrow> 'b list \<Rightarrow> nat" where
  "count_where P xs = length (filter P xs)"

definition build :: "'a wallet_api \<Rightarrow> 'a transaction_builder \<Rightarrow> 'a builder_error + wallet_tx" where
  "build A b =
    (let recipient = script_pubkey A (tb_recipient b);
         tx = unsigned_tx A b;
         outgoing = tb_outgoing b
     in
     res_bind (assert_that (count_where (\<lambda>(outpoint, amount). outpoint = sp_outpoint outgoing \<and>
       sp_offset outgoing < amount) (tb_amounts b) = 1)) (\<lambda>_.
     res_bind (assert_that (count_where (\<lambda>i. ti_previous_output i = sp_outpoint outgoing) (wt_input tx) = 1)) (\<lambda>_.
     res_bind (input_position (tb_amounts b) outgoing (wt_input tx) 0) (\<lambda>found.
     res_bind (assert_that (found \<noteq> None)) (\<lambda>_.
     let sat_offset = the found in
     res_bind (output_position recipient sat_offset (wt_output tx) 0) (\<lambda>found.
     res_bind (assert_that found) (\<lambda>_.
     res_bind (assert_that (count_where (\<lambda>out. txo_script out = recipient) (wt_output tx) = 1)) (\<lambda>_.
     res_bind (assert_that (\<forall>change\<in>set (tb_change_addresses b).
       count_where (\<lambda>out. txo_script out = script_pubkey A change) (wt_output tx) \<le> 1)) (\<lambda>_.
     res_bind (check_outputs A b sat_offset (wt_output tx) 0) (\<lambda>_.
     res_bind (actual_fee (tb_amounts b) tx) (\<lambda>paid.
     res_bind (assert_that (paid = fee (tb_fee_rate b) (vsize A (sign_inputs tx)))) (\<lambda>_.
     res_bind (assert_that (\<forall>out\<in>set (wt_output tx). dust_value A (txo_script out) \<le> txo_amount out)) (\<lambda>_.
     Inr tx)))))))))))))"

text \<open>The public interface.\<close>

definition build_transaction :: "'a wallet_api \<Rightarrow> 'a transaction_builder \<Rightarrow> 'a builder_error + wallet_tx" where
  "build_transaction A b =
    res_bind (select_outgoing b) (\<lambda>b.
    res_bind (align_outgoing b) (\<lambda>b.
    res_bind (pad_alignment_output A b) (\<lambda>b.
    res_bind (add_value A b) (\<lambda>b.
    res_bind (strip_value A b) (\<lambda>b.
    res_bind (deduct_fee A b) (build A))))))"

definition build_transaction_with_postage :: "'a wallet_api \<Rightarrow> sat_point \<Rightarrow> (sat_point \<times> inscription_id) list \<Rightarrow>
    (outpoint \<times> u64) list \<Rightarrow> outpoint list \<Rightarrow> 'a \<Rightarrow> 'a \<times> 'a \<Rightarrow> fee_rate \<Rightarrow> 'a builder_error + wallet_tx" where
  "build_transaction_with_postage A outgoing inscriptions amounts dunic_utxos recipient change rate =
    res_bind (builder_new outgoing inscriptions amounts dunic_utxos recipient change rate Postage)
      (build_transaction A)"

definition build_transaction_with_value :: "'a wallet_api \<Rightarrow> sat_point \<Rightarrow> (sat_point \<times> inscription_id) list \<Rightarrow>
    (outpoint \<times> u64) list \<Rightarrow> outpoint list \<Rightarrow> 'a \<Rightarrow> 'a \<times> 'a \<Rightarrow> fee_rate \<Rightarrow> u64 \<Rightarrow> 'a builder_error + wallet_tx" where
  "build_transaction_with_value A outgoing inscriptions amounts dunic_utxos recipient change rate output_value =
    (let dust = dust_value A (script_pubkey A recipient) in
     if output_value < dust then Inl (Dust output_value dust)
     else
       res_bind (builder_new outgoing inscriptions amounts dunic_utxos recipient change rate (Value output_value))
         (build_transaction A))"

end
