(* ===== verification/Builder_Safety.thy ===== *)
theory Builder_Safety
  imports Transaction_Builder
begin

text \<open>
  What the transaction builder promises. The assertions in \<open>build\<close> state the builder's invariants at
  run time; here they are shown never to fire, under what the wallet and the bitcoin library
  guarantee, and every error is explained by the request or the wallet. The proof follows the
  pipeline: each step takes a builder of one stage to one of the next, or stops with an explained
  error.
\<close>

section \<open>Outcomes\<close>

definition sound :: "('e \<Rightarrow> bool) \<Rightarrow> ('b \<Rightarrow> bool) \<Rightarrow> 'e + 'b \<Rightarrow> bool" where
  "sound E P r = (case r of Inl e \<Rightarrow> E e | Inr a \<Rightarrow> P a)"

lemma sound_simps [simp]: "sound E P (Inl e) = E e" "sound E P (Inr a) = P a"
  by (simp_all add: sound_def)

lemma sound_bind:
  assumes "sound E P r" and "\<And>a. P a \<Longrightarrow> sound E Q (f a)"
  shows "sound E Q (res_bind r f)"
  using assms by (cases r) simp_all

lemma sound_mono: "sound E P r \<Longrightarrow> (\<And>a. P a \<Longrightarrow> Q a) \<Longrightarrow> sound E Q r"
  by (cases r) simp_all

lemma amount_simps [simp]:
  "a + b \<le> u64_max \<Longrightarrow> amount_add a b = Inr (a + b)"
  "b \<le> a \<Longrightarrow> amount_sub a b = Inr (a - b)"
  "assert_that True = Inr ()"
  "xs \<noteq> [] \<Longrightarrow> last_or_panic xs = Inr (last xs)"
  by (simp_all add: amount_add_def amount_sub_def assert_that_def last_or_panic_def checked_defs)

lemma amount_of_Some [simp]: "map_of amounts p = Some v \<Longrightarrow> amount_of amounts p = Inr v"
  by (simp add: amount_of_def checked_defs)

lemma amount_sum_exact:
  "sum_list xs + acc \<le> u64_max \<Longrightarrow> res_fold (\<lambda>x s. amount_add s x) xs acc = Inr (acc + sum_list xs)"
  by (induction xs arbitrary: acc) (simp_all add: add.commute add.left_commute add.assoc)

section \<open>The wallet\<close>

definition val :: "(outpoint \<times> u64) list \<Rightarrow> outpoint \<Rightarrow> u64" where
  "val amounts p = the (map_of amounts p)"

definition paid :: "(outpoint \<times> u64) list \<Rightarrow> outpoint list \<Rightarrow> nat" where
  "paid amounts ps = sum_list (map (val amounts) ps)"

lemma paid_simps [simp]:
  "paid amounts [] = 0" "paid amounts (p # ps) = val amounts p + paid amounts ps"
  "paid amounts (ps @ qs) = paid amounts ps + paid amounts qs"
  by (simp_all add: paid_def)

definition in_wallet :: "(outpoint \<times> u64) list \<Rightarrow> outpoint list \<Rightarrow> bool" where
  "in_wallet amounts ps \<longleftrightarrow> set ps \<subseteq> fst ` set amounts"

lemma map_of_val: "p \<in> fst ` set amounts \<Longrightarrow> map_of amounts p = Some (val amounts p)"
  by (cases "map_of amounts p") (auto simp: val_def map_of_eq_None_iff)

lemma paid_le_total:
  assumes "distinct (map fst amounts)" and "distinct ps" and "in_wallet amounts ps"
  shows "paid amounts ps \<le> sum_list (map snd amounts)"
proof -
  have "paid amounts ps = (\<Sum>p\<in>set ps. val amounts p)"
    using assms(2) by (simp add: paid_def sum_list_distinct_conv_sum_set)
  also have "\<dots> \<le> (\<Sum>p\<in>set (map fst amounts). val amounts p)"
    using assms(3) by (intro sum_mono2) (auto simp: in_wallet_def)
  also have "\<dots> = sum_list (map (val amounts) (map fst amounts))"
    using assms(1) by (simp only: sum_list_distinct_conv_sum_set)
  also have "map (val amounts) (map fst amounts) = map snd amounts"
    using assms(1) by (auto simp: val_def)
  finally show ?thesis .
qed

text \<open>Unspent outputs that carry neither an inscription nor dunes.\<close>

definition cardinal :: "'a transaction_builder \<Rightarrow> outpoint \<Rightarrow> bool" where
  "cardinal b p \<longleftrightarrow> p \<in> fst ` set (tb_amounts b) \<and> p \<notin> (sp_outpoint \<circ> fst) ` set (tb_inscriptions b) \<and>
    p \<notin> set (tb_dunic_utxos b)"

lemma find_cardinal_cases:
  assumes "in_wallet amounts us"
  shows "sound (\<lambda>_. False)
    (\<lambda>found. case found of
        None \<Rightarrow> \<forall>u\<in>set us. u \<in> I \<or> u \<in> D \<or> val amounts u < m
      | Some (u, v) \<Rightarrow> u \<in> set us \<and> u \<notin> I \<and> u \<notin> D \<and> v = val amounts u \<and> m \<le> v)
    (find_cardinal amounts I D m us)"
  using assms
proof (induction us)
  case Nil
  then show ?case by simp
next
  case (Cons u us)
  then have u: "map_of amounts u = Some (val amounts u)" and us: "in_wallet amounts us"
    by (auto simp: in_wallet_def intro: map_of_val)
  show ?case
  proof (cases "u \<in> I \<or> u \<in> D \<or> val amounts u < m")
    case True
    then show ?thesis
      using u by (auto intro!: sound_mono [OF Cons.IH [OF us]] split: option.splits)
  next
    case False
    then show ?thesis using u by simp
  qed
qed

section \<open>Stages\<close>

text \<open>
  The hypotheses. \<open>sizes_ok\<close> is what the virtual size of a transaction promises: it depends only on
  the lengths of the scripts and witnesses, an input with a signature adds at most 58 and an output
  to one of the addresses at most 43 virtual bytes, and a transaction with up to three inputs and
  outputs stays below 1000.
\<close>

definition tx_shape :: "wallet_tx \<Rightarrow> (nat \<times> nat list) list \<times> nat list" where
  "tx_shape tx = (map (\<lambda>i. (length (ti_script_sig i), map length (ti_witness i))) (wt_input tx),
    map (length \<circ> txo_script) (wt_output tx))"

definition sizes_ok :: "'a wallet_api \<Rightarrow> 'a list \<Rightarrow> bool" where
  "sizes_ok A addresses \<longleftrightarrow>
    (\<forall>t t'. tx_shape t = tx_shape t' \<longrightarrow> vsize A t = vsize A t') \<and>
    (\<forall>n os. 0 < n \<and> n \<le> 3 \<and> set os \<subseteq> set addresses \<and> length os \<le> 3 \<longrightarrow>
      estimate_vbytes_with A n os \<le> 1000 \<and>
      estimate_vbytes_with A (Suc n) os \<le> estimate_vbytes_with A n os + 58 \<and>
      (\<forall>a\<in>set addresses. estimate_vbytes_with A n (os @ [a]) \<le> estimate_vbytes_with A n os + 43))"

text \<open>
  The addresses have scripts of their own, and change is no more expensive to hold than the
  recipient's output; amounts are far from the end of \<open>u64\<close>, and the fee rate is a whole number.
\<close>

definition addresses_ok :: "'a wallet_api \<Rightarrow> 'a \<Rightarrow> 'a list \<Rightarrow> bool" where
  "addresses_ok A recipient change \<longleftrightarrow>
    inj_on (script_pubkey A) (insert recipient (set change)) \<and>
    (let limit = dust_value A (script_pubkey A recipient) in
     0 < limit \<and> limit \<le> 10000 \<and> (\<forall>c\<in>set change. dust_value A (script_pubkey A c) \<le> limit))"

definition wallet_ok :: "(outpoint \<times> u64) list \<Rightarrow> outpoint \<Rightarrow> bool" where
  "wallet_ok amounts outgoing \<longleftrightarrow>
    distinct (map fst amounts) \<and> sum_list (map snd amounts) < 2 ^ 62 \<and> map_of amounts outgoing \<noteq> Some 0"


text \<open>The part of a builder that no step changes.\<close>

definition same_request :: "'a transaction_builder \<Rightarrow> 'a transaction_builder \<Rightarrow> bool" where
  "same_request q b \<longleftrightarrow> tb_amounts b = tb_amounts q \<and> tb_change_addresses b = tb_change_addresses q \<and>
    tb_fee_rate b = tb_fee_rate q \<and> tb_inscriptions b = tb_inscriptions q \<and> tb_outgoing b = tb_outgoing q \<and>
    tb_recipient b = tb_recipient q \<and> tb_dunic_utxos b = tb_dunic_utxos q \<and> tb_target b = tb_target q"

definition request_ok :: "'a wallet_api \<Rightarrow> nat \<Rightarrow> 'a transaction_builder \<Rightarrow> bool" where
  "request_ok A r q \<longleftrightarrow> tb_fee_rate q = FeeRate (of_nat r) \<and> r < 2 ^ 40 \<and>
    (\<exists>c c'. tb_change_addresses q = [c, c'] \<and> distinct [tb_recipient q, c, c']) \<and>
    addresses_ok A (tb_recipient q) (tb_change_addresses q) \<and>
    sizes_ok A (tb_recipient q # tb_change_addresses q) \<and>
    wallet_ok (tb_amounts q) (sp_outpoint (tb_outgoing q)) \<and>
    (case tb_target q of Postage \<Rightarrow> True | Value v \<Rightarrow> dust_value A (script_pubkey A (tb_recipient q)) \<le> v)"

text \<open>
  Errors the request or the wallet accounts for. \<open>enough\<close> is more than any single step of coin
  selection asks for, so two unspent cardinal outputs of that size are sufficient.
\<close>

definition enough :: "'a wallet_api \<Rightarrow> nat \<Rightarrow> 'a transaction_builder \<Rightarrow> nat" where
  "enough A r q = dust_value A (script_pubkey A (tb_recipient q)) +
    (case tb_target q of Postage \<Rightarrow> 0 | Value v \<Rightarrow> v) + r * 1058"

definition funded :: "'a wallet_api \<Rightarrow> nat \<Rightarrow> 'a transaction_builder \<Rightarrow> bool" where
  "funded A r q \<longleftrightarrow> (\<exists>p p'. p \<noteq> p' \<and> (\<forall>u\<in>{p, p'}. cardinal q u \<and> u \<noteq> sp_outpoint (tb_outgoing q) \<and>
    enough A r q \<le> val (tb_amounts q) u))"

fun explained :: "'a wallet_api \<Rightarrow> nat \<Rightarrow> 'a transaction_builder \<Rightarrow> 'a builder_error \<Rightarrow> bool" where
  "explained A r q NotEnoughCardinalUtxos \<longleftrightarrow> \<not> funded A r q"
| "explained A r q (NotInWallet p) \<longleftrightarrow> p = tb_outgoing q \<and> sp_outpoint p \<notin> fst ` set (tb_amounts q)"
| "explained A r q (OutOfRange p m) \<longleftrightarrow>
    p = tb_outgoing q \<and> map_of (tb_amounts q) (sp_outpoint p) = Some (m + 1) \<and> m < sp_offset p"
| "explained A r q (UtxoContainsAdditionalInscription p s i) \<longleftrightarrow>
    p = tb_outgoing q \<and> (s, i) \<in> set (tb_inscriptions q) \<and>
    sp_outpoint s = sp_outpoint p \<and> sp_offset s \<noteq> sp_offset p"
| "explained A r q ValueOverflow \<longleftrightarrow> (\<exists>v. tb_target q = Value v \<and> u64_max < v + r * 1058)"
| "explained A r q (DuplicateAddress a) \<longleftrightarrow> False"
| "explained A r q (Dust a d) \<longleftrightarrow> False"
| "explained A r q (Panicked p) \<longleftrightarrow> False"

text \<open>
  A builder in the middle of the pipeline: inputs \<open>P\<close>, the outgoing output, \<open>Q\<close>; outputs \<open>pre\<close> and then
  the recipient's with value \<open>v\<close>, the outgoing sat being the first of it.
\<close>

definition aligned :: "'a transaction_builder \<Rightarrow> 'a transaction_builder \<Rightarrow> outpoint list \<Rightarrow> ('a \<times> u64) list \<Rightarrow> bool" where
  "aligned q b P pre \<longleftrightarrow> (\<exists>c c'. tb_change_addresses q = [c, c'] \<and>
    (pre = [] \<and> P = [] \<and> sp_offset (tb_outgoing q) = 0 \<and> tb_unused_change_addresses b = [c, c'] \<or>
     pre = [(c', paid (tb_amounts q) P + sp_offset (tb_outgoing q))] \<and> tb_unused_change_addresses b = [c]))"

definition staged :: "'a transaction_builder \<Rightarrow> 'a transaction_builder \<Rightarrow> outpoint list \<Rightarrow> outpoint list \<Rightarrow>
    ('a \<times> u64) list \<Rightarrow> u64 \<Rightarrow> bool" where
  "staged q b P Q pre v \<longleftrightarrow> same_request q b \<and>
    tb_inputs b = P @ sp_outpoint (tb_outgoing q) # Q \<and>
    tb_outputs b = pre @ [(tb_recipient q, v)] \<and>
    distinct (tb_inputs b @ tb_utxos b) \<and> set (tb_inputs b @ tb_utxos b) = fst ` set (tb_amounts q) \<and>
    (\<forall>p\<in>set P \<union> set Q. cardinal q p) \<and> length P \<le> 1 \<and> length Q \<le> 1 \<and>
    aligned q b P pre \<and>
    sp_offset (tb_outgoing q) < val (tb_amounts q) (sp_outpoint (tb_outgoing q)) \<and>
    sum_list (map snd pre) + v = paid (tb_amounts q) (tb_inputs b)"

lemma request_fee:
  assumes "request_ok A r q" and "n \<le> 2000"
  shows "fee (tb_fee_rate q) n = r * n" and "r * n < 2 ^ 52"
proof -
  have r: "r < 2 ^ 40" using assms(1) by (simp add: request_ok_def)
  have "r * n \<le> r * 2000" using assms(2) by simp
  also have "\<dots> < 2 ^ 52" using r by simp
  finally show *: "r * n < 2 ^ 52" .
  then have "r * n < 2 ^ 53" "n < 2 ^ 53" using assms(2) by simp_all
  then show "fee (tb_fee_rate q) n = r * n"
    using assms(1) fee_whole by (simp add: request_ok_def)
qed

lemma staged_paid_bound:
  assumes "request_ok A r q" and "staged q b P Q pre v"
  shows "paid (tb_amounts q) (tb_inputs b) < 2 ^ 62" "sum_list (map snd pre) + v < 2 ^ 62"
proof -
  have "in_wallet (tb_amounts q) (tb_inputs b)" "distinct (tb_inputs b)"
    using assms(2) by (auto simp: staged_def in_wallet_def)
  moreover have w: "distinct (map fst (tb_amounts q))" "sum_list (map snd (tb_amounts q)) < 2 ^ 62"
    using assms(1) by (simp_all add: request_ok_def wallet_ok_def)
  ultimately show *: "paid (tb_amounts q) (tb_inputs b) < 2 ^ 62"
    using paid_le_total by (meson order_le_less_trans)
  then show "sum_list (map snd pre) + v < 2 ^ 62" using assms(2) by (simp add: staged_def)
qed

lemma staged_sum: "staged q b P Q pre v \<Longrightarrow> sum_list (map snd pre) + v = paid (tb_amounts q) (tb_inputs b)"
  unfolding staged_def by blast

lemma sat_offset_loop_exact:
  assumes "in_wallet amounts P" and "sp_outpoint outgoing \<notin> set P"
    and "acc + paid amounts P + sp_offset outgoing \<le> u64_max"
  shows "sat_offset_loop amounts outgoing (P @ sp_outpoint outgoing # Q) acc =
    Inr (acc + paid amounts P + sp_offset outgoing)"
  using assms
proof (induction P arbitrary: acc)
  case Nil
  then show ?case by simp
next
  case (Cons p P)
  then have "map_of amounts p = Some (val amounts p)" by (auto simp: in_wallet_def intro: map_of_val)
  with Cons show ?case by (auto simp: in_wallet_def add.assoc)
qed

lemma staged_sat_offset:
  assumes "request_ok A r q" and "staged q b P Q pre v"
  shows "calculate_sat_offset b = Inr (paid (tb_amounts q) P + sp_offset (tb_outgoing q))"
    and "paid (tb_amounts q) P + sp_offset (tb_outgoing q) = sum_list (map snd pre)"
proof -
  show *: "paid (tb_amounts q) P + sp_offset (tb_outgoing q) = sum_list (map snd pre)"
    using assms(2) by (auto simp: staged_def aligned_def)
  have "in_wallet (tb_amounts q) P" "sp_outpoint (tb_outgoing q) \<notin> set P"
    using assms(2) by (auto simp: staged_def in_wallet_def)
  moreover have "0 + paid (tb_amounts q) P + sp_offset (tb_outgoing q) \<le> u64_max"
    using * staged_paid_bound(2) [OF assms] by (simp add: width_defs)
  ultimately show "calculate_sat_offset b = Inr (paid (tb_amounts q) P + sp_offset (tb_outgoing q))"
    using assms(2) sat_offset_loop_exact [of "tb_amounts q" P "tb_outgoing q" 0 Q]
    by (simp add: calculate_sat_offset_def staged_def same_request_def)
qed

section \<open>The steps\<close>

definition fresh :: "'a transaction_builder \<Rightarrow> bool" where
  "fresh q \<longleftrightarrow> tb_inputs q = [] \<and> tb_outputs q = [] \<and> tb_utxos q = map fst (tb_amounts q) \<and>
    tb_unused_change_addresses q = tb_change_addresses q"

lemma check_inscriptions_sound:
  "sound (\<lambda>e. \<exists>s i. e = UtxoContainsAdditionalInscription p s i \<and> (s, i) \<in> set inscriptions \<and>
      sp_outpoint s = sp_outpoint p \<and> sp_offset s \<noteq> sp_offset p) (\<lambda>_. True) (check_inscriptions p inscriptions)"
  by (induction p inscriptions rule: check_inscriptions.induct) (auto simp: sound_def split: sum.splits)

lemma sound_weaken: "sound E P r \<Longrightarrow> (\<And>e. E e \<Longrightarrow> E' e) \<Longrightarrow> sound E' P r"
  by (cases r) simp_all

text \<open>\<open>select_outgoing\<close>: the first input and output, or an explained error.\<close>

lemma select_outgoing_sound:
  assumes ok: "request_ok A r q" and new: "fresh q"
  defines "p \<equiv> sp_outpoint (tb_outgoing q)"
  shows "sound (explained A r q)
    (\<lambda>b. b = q\<lparr>tb_utxos := remove1 p (map fst (tb_amounts q)), tb_inputs := [p],
               tb_outputs := [(tb_recipient q, val (tb_amounts q) p)]\<rparr> \<and>
         p \<in> fst ` set (tb_amounts q) \<and> sp_offset (tb_outgoing q) < val (tb_amounts q) p)
    (select_outgoing q)"
  unfolding select_outgoing_def
proof (rule sound_bind [where P = "\<lambda>_. True"])
  show "sound (explained A r q) (\<lambda>_. True) (check_inscriptions (tb_outgoing q) (tb_inscriptions q))"
    by (rule sound_weaken [OF check_inscriptions_sound]) auto
next
  have w: "map_of (tb_amounts q) p \<noteq> Some 0" using ok by (simp add: request_ok_def wallet_ok_def p_def)
  show "sound (explained A r q)
    (\<lambda>b. b = q\<lparr>tb_utxos := remove1 p (map fst (tb_amounts q)), tb_inputs := [p],
               tb_outputs := [(tb_recipient q, val (tb_amounts q) p)]\<rparr> \<and>
         p \<in> fst ` set (tb_amounts q) \<and> sp_offset (tb_outgoing q) < val (tb_amounts q) p)
    (res_bind (ok_or (NotInWallet (tb_outgoing q)) (map_of (tb_amounts q) (sp_outpoint (tb_outgoing q)))) (\<lambda>amount.
    if amount \<le> sp_offset (tb_outgoing q)
    then res_bind (amount_sub amount 1) (\<lambda>m. Inl (OutOfRange (tb_outgoing q) m))
    else Inr (q\<lparr>tb_utxos := remove1 (sp_outpoint (tb_outgoing q)) (tb_utxos q),
                tb_inputs := tb_inputs q @ [sp_outpoint (tb_outgoing q)],
                tb_outputs := tb_outputs q @ [(tb_recipient q, amount)]\<rparr>)))"
  proof (cases "map_of (tb_amounts q) p")
    case None
    then have "p \<notin> fst ` set (tb_amounts q)" by (simp add: map_of_eq_None_iff)
    with None show ?thesis by (simp add: p_def)
  next
    case (Some a)
    with w have a: "0 < a" by simp
    have "p \<in> fst ` set (tb_amounts q)" using map_of_SomeD [OF Some] by force
    with Some a new show ?thesis by (auto simp: p_def [symmetric] fresh_def val_def)
  qed
qed

lemma align_outgoing_sound:
  assumes ok: "request_ok A r q" and new: "fresh q"
  defines "p \<equiv> sp_outpoint (tb_outgoing q)"
  assumes b: "b = q\<lparr>tb_utxos := remove1 p (map fst (tb_amounts q)), tb_inputs := [p],
               tb_outputs := [(tb_recipient q, val (tb_amounts q) p)]\<rparr>"
    and p: "p \<in> fst ` set (tb_amounts q)" and off: "sp_offset (tb_outgoing q) < val (tb_amounts q) p"
  shows "sound (explained A r q) (\<lambda>b. \<exists>pre v. staged q b [] [] pre v) (align_outgoing b)"
proof -
  have w: "distinct (map fst (tb_amounts q))" and total: "sum_list (map snd (tb_amounts q)) < 2 ^ 62"
    using ok by (simp_all add: request_ok_def wallet_ok_def)
  obtain c c' where c: "tb_change_addresses q = [c, c']" using ok by (auto simp: request_ok_def)
  have "paid (tb_amounts q) [p] < 2 ^ 62"
    using paid_le_total [OF w, of "[p]"] p total by (simp add: in_wallet_def)
  with off have "sp_offset (tb_outgoing q) \<le> u64_max" by (simp add: width_defs)
  then have so: "calculate_sat_offset b = Inr (sp_offset (tb_outgoing q))"
    by (simp add: calculate_sat_offset_def b p_def)
  have d: "distinct (p # remove1 p (map fst (tb_amounts q)))"
      "set (p # remove1 p (map fst (tb_amounts q))) = fst ` set (tb_amounts q)"
    using w p by (auto simp: distinct_remove1)
  show ?thesis
  proof (cases "sp_offset (tb_outgoing q) = 0")
    case True
    then have "align_outgoing b = Inr b" using so by (simp add: align_outgoing_def b)
    moreover have "staged q b [] [] [] (val (tb_amounts q) p)"
      using True d off new c
      by (auto simp: staged_def b same_request_def p_def aligned_def fresh_def)
    ultimately show ?thesis by auto
  next
    case False
    define v where "v = val (tb_amounts q) p - sp_offset (tb_outgoing q)"
    define b' where "b' = b\<lparr>tb_unused_change_addresses := [c],
      tb_outputs := [(c', sp_offset (tb_outgoing q)), (tb_recipient q, v)]\<rparr>"
    have "align_outgoing b = Inr b'"
      using False so off new c
      by (simp add: align_outgoing_def b b'_def v_def fresh_def set_last_def)
    moreover have "staged q b' [] [] [(c', sp_offset (tb_outgoing q))] v"
      using d off c by (auto simp: staged_def b b'_def v_def same_request_def p_def aligned_def)
    ultimately show ?thesis by auto
  qed
qed

text \<open>Coin selection takes an unspent cardinal output, and only fails when the wallet has too few.\<close>

lemma select_cardinal_sound:
  assumes st: "staged q b P Q pre v" and "length P + length Q \<le> 1" and m: "m \<le> enough A r q"
  shows "sound (explained A r q)
    (\<lambda>((u, s), b'). b' = b\<lparr>tb_utxos := remove1 u (tb_utxos b)\<rparr> \<and> u \<in> set (tb_utxos b) \<and> cardinal q u \<and>
       s = val (tb_amounts q) u \<and> m \<le> s)
    (select_cardinal_utxo m b)"
proof -
  let ?I = "set (map (sp_outpoint \<circ> fst) (tb_inscriptions q))" and ?D = "set (tb_dunic_utxos q)"
  have req: "same_request q b" and sub: "set (tb_utxos b) \<subseteq> fst ` set (tb_amounts q)"
    using st by (auto simp: staged_def)
  have inside: "in_wallet (tb_amounts q) (tb_utxos b)" using sub by (simp add: in_wallet_def)
  have short: "\<not> funded A r q"
    if none: "\<forall>u\<in>set (tb_utxos b). u \<in> ?I \<or> u \<in> ?D \<or> val (tb_amounts q) u < m"
  proof
    assume "funded A r q"
    then obtain p p' where pp: "p \<noteq> p'"
      and all: "\<And>u. u \<in> {p, p'} \<Longrightarrow> cardinal q u \<and> u \<noteq> sp_outpoint (tb_outgoing q) \<and> enough A r q \<le> val (tb_amounts q) u"
      unfolding funded_def by blast
    have "u \<in> set P \<union> set Q" if u: "u \<in> {p, p'}" for u
    proof -
      from all [OF u] have "u \<notin> ?I" "u \<notin> ?D" "m \<le> val (tb_amounts q) u" and w: "u \<in> fst ` set (tb_amounts q)"
        using m by (auto simp: cardinal_def)
      with none have "u \<notin> set (tb_utxos b)" by (meson not_le)
      with w st all [OF u] show ?thesis by (auto simp: staged_def)
    qed
    then have "{p, p'} \<subseteq> set (P @ Q)" by auto
    then have "card {p, p'} \<le> length (P @ Q)" by (meson card_length card_mono finite_set order_trans)
    with pp assms(2) show False by simp
  qed
  have "sound (explained A r q)
      (\<lambda>found. case found of
          None \<Rightarrow> \<forall>u\<in>set (tb_utxos b). u \<in> ?I \<or> u \<in> ?D \<or> val (tb_amounts q) u < m
        | Some (u, s) \<Rightarrow> u \<in> set (tb_utxos b) \<and> u \<notin> ?I \<and> u \<notin> ?D \<and> s = val (tb_amounts q) u \<and> m \<le> s)
      (find_cardinal (tb_amounts q) ?I ?D m (tb_utxos b))"
    by (rule sound_weaken [OF find_cardinal_cases [OF inside]]) simp
  then show ?thesis
    unfolding select_cardinal_utxo_def using req
    apply (simp only: same_request_def)
    apply (erule sound_bind)
    using short sub by (auto simp: cardinal_def split: option.splits)
qed

text \<open>An output taken by coin selection goes to the front of the inputs, or to the back.\<close>

lemma staged_front:
  assumes "staged q b [] [] [(c, s)] v" and "u \<in> set (tb_utxos b)" and "cardinal q u"
  shows "staged q (b\<lparr>tb_utxos := remove1 u (tb_utxos b), tb_inputs := u # tb_inputs b,
      tb_outputs := [(c, s + val (tb_amounts q) u), (tb_recipient q, v)]\<rparr>)
    [u] [] [(c, s + val (tb_amounts q) u)] v"
proof -
  obtain W where W: "fst ` set (tb_amounts q) = W" by blast
  from assms show ?thesis
    unfolding staged_def W by (auto simp: W same_request_def aligned_def distinct_remove1)
qed

lemma staged_back:
  assumes "staged q b P [] pre v" and "u \<in> set (tb_utxos b)" and "cardinal q u"
  shows "staged q (b\<lparr>tb_utxos := remove1 u (tb_utxos b), tb_inputs := tb_inputs b @ [u],
      tb_outputs := pre @ [(tb_recipient q, v + val (tb_amounts q) u)]\<rparr>)
    P [u] pre (v + val (tb_amounts q) u)"
proof -
  obtain W where W: "fst ` set (tb_amounts q) = W" by blast
  from assms show ?thesis
    unfolding staged_def W by (auto simp: W same_request_def aligned_def distinct_remove1)
qed

definition padded :: "'a wallet_api \<Rightarrow> 'a transaction_builder \<Rightarrow> ('a \<times> u64) list \<Rightarrow> bool" where
  "padded A q pre \<longleftrightarrow> (\<forall>s\<in>snd ` set pre. dust_value A (script_pubkey A (tb_recipient q)) \<le> s)"

lemma pad_alignment_output_sound:
  assumes ok: "request_ok A r q" and st: "staged q b [] [] pre v"
  shows "sound (explained A r q) (\<lambda>b. \<exists>P pre. staged q b P [] pre v \<and> padded A q pre) (pad_alignment_output A b)"
proof -
  let ?d = "dust_value A (script_pubkey A (tb_recipient q))"
  have req: "same_request q b" and outs: "tb_outputs b = pre @ [(tb_recipient q, v)]"
    using st by (auto simp: staged_def)
  show ?thesis
  proof (cases pre)
    case Nil
    then have "pad_alignment_output A b = Inr b"
      using outs req by (simp add: pad_alignment_output_def checked_defs same_request_def)
    moreover have "padded A q pre" using Nil by (simp add: padded_def)
    ultimately show ?thesis using st by auto
  next
    case (Cons x xs)
    then obtain c c' s where c: "tb_change_addresses q = [c, c']" and pre: "pre = [(c', s)]"
      using st by (auto simp: staged_def aligned_def)
    have neq: "c' \<noteq> tb_recipient q" using ok c by (auto simp: request_ok_def)
    show ?thesis
    proof (cases "?d \<le> s")
      case True
      then have "pad_alignment_output A b = Inr b"
        using outs pre req neq by (simp add: pad_alignment_output_def checked_defs same_request_def)
      moreover have "padded A q pre" using pre True by (simp add: padded_def)
      ultimately show ?thesis using st by auto
    next
      case False
      have pad: "pad_alignment_output A b =
          res_bind (select_cardinal_utxo (?d - s) b) (\<lambda>((utxo, size'), b).
          res_bind (amount_add s size') (\<lambda>v.
          Inr (b\<lparr>tb_inputs := utxo # tb_inputs b, tb_outputs := (tb_outputs b)[0 := (c', v)]\<rparr>)))"
        using False outs pre req neq by (simp add: pad_alignment_output_def checked_defs same_request_def)
      have m: "?d - s \<le> enough A r q" by (simp add: enough_def)
      have "sound (explained A r q) (\<lambda>b. \<exists>P pre. staged q b P [] pre v \<and> padded A q pre)
          (res_bind (amount_add s w) (\<lambda>v. Inr (b'\<lparr>tb_inputs := u # tb_inputs b', tb_outputs := (tb_outputs b')[0 := (c', v)]\<rparr>)))"
        if "b' = b\<lparr>tb_utxos := remove1 u (tb_utxos b)\<rparr>" and u: "u \<in> set (tb_utxos b)" "cardinal q u"
          and w: "w = val (tb_amounts q) u" "?d - s \<le> w" for u w b'
      proof -
        let ?b = "b\<lparr>tb_utxos := remove1 u (tb_utxos b), tb_inputs := u # tb_inputs b,
          tb_outputs := [(c', s + w), (tb_recipient q, v)]\<rparr>"
        have "staged q ?b [u] [] [(c', s + w)] v" using staged_front [OF st [unfolded pre] u] w(1) by simp
        moreover from this have "s + w \<le> u64_max" using staged_paid_bound(2) [OF ok] by (fastforce simp: width_defs)
        moreover have "padded A q [(c', s + w)]" using w(2) by (simp add: padded_def)
        ultimately show ?thesis using that(1) outs pre by (auto intro!: exI [of _ "[u]"])
      qed
      then show ?thesis
        unfolding pad by (intro sound_bind [OF select_cardinal_sound [OF st _ m]]) auto
    qed
  qed
qed

text \<open>The estimated size at each stage.\<close>

lemma sizes_okD:
  assumes "sizes_ok A addresses" and "0 < n" and "n \<le> 3" and "set os \<subseteq> set addresses" and "length os \<le> 3"
  shows "estimate_vbytes_with A n os \<le> 1000"
    and "estimate_vbytes_with A (Suc n) os \<le> estimate_vbytes_with A n os + 58"
    and "a \<in> set addresses \<Longrightarrow> estimate_vbytes_with A n (os @ [a]) \<le> estimate_vbytes_with A n os + 43"
  using assms unfolding sizes_ok_def by blast+

lemma staged_sizes:
  assumes ok: "request_ok A r q" and st: "staged q b P Q pre v"
  shows "estimate_vbytes A b \<le> 1000" and "estimate_fee A b = r * estimate_vbytes A b"
    and "length (tb_inputs b) \<le> 3" and "0 < length (tb_inputs b)" and "length (tb_outputs b) \<le> 2"
    and "set (map fst (tb_outputs b)) \<subseteq> set (tb_recipient q # tb_change_addresses q)"
proof -
  have rate: "tb_fee_rate b = tb_fee_rate q" using st by (simp add: staged_def same_request_def)
  show n: "length (tb_inputs b) \<le> 3" "0 < length (tb_inputs b)"
    using st by (auto simp: staged_def)
  show l: "length (tb_outputs b) \<le> 2"
    and o: "set (map fst (tb_outputs b)) \<subseteq> set (tb_recipient q # tb_change_addresses q)"
    using st by (auto simp: staged_def aligned_def)
  show e: "estimate_vbytes A b \<le> 1000"
    using sizes_okD(1) [OF _ n(2,1) o] ok l by (simp add: request_ok_def estimate_vbytes_def)
  show "estimate_fee A b = r * estimate_vbytes A b"
    using request_fee(1) [OF ok, of "estimate_vbytes A b"] e rate by (simp add: estimate_fee_def)
qed

definition min_value :: "'a wallet_api \<Rightarrow> 'a transaction_builder \<Rightarrow> nat" where
  "min_value A q = (case tb_target q of Postage \<Rightarrow> dust_value A (script_pubkey A (tb_recipient q)) | Value v \<Rightarrow> v)"

lemma min_value_bounds:
  assumes "request_ok A r q"
  shows "min_value A q + r * 1058 \<le> enough A r q" and "dust_value A (script_pubkey A (tb_recipient q)) \<le> min_value A q"
    and "tb_target q = Postage \<Longrightarrow> min_value A q \<le> 10000" and "0 < min_value A q"
  using assms by (auto simp: min_value_def enough_def request_ok_def addresses_ok_def Let_def split: target.splits)

lemma value_overflow_explained:
  assumes "request_ok A r q" and "u64_max < min_value A q + r * n" and "n \<le> 1058"
  shows "explained A r q ValueOverflow"
proof -
  have le: "r * n \<le> r * 1058" using assms(3) by simp
  show ?thesis
  proof (cases "tb_target q")
    case (Value v)
    then have "u64_max < v + r * n" using assms(2) by (simp add: min_value_def)
    with le have "u64_max < v + r * 1058" by linarith
    with Value show ?thesis by simp
  next
    case Postage
    have "min_value A q \<le> 10000" "r * n < 2 ^ 52"
      using min_value_bounds(3) [OF assms(1) Postage] request_fee(2) [OF assms(1)] assms(3) by simp_all
    then have "min_value A q + r * n < 2 ^ 64 - 1" by simp
    with assms(2) show ?thesis by (simp add: width_defs)
  qed
qed

lemma add_value_sound:
  assumes ok: "request_ok A r q" and st: "staged q b P [] pre v"
  shows "sound (explained A r q)
    (\<lambda>b. \<exists>Q v. staged q b P Q pre v \<and> min_value A q + estimate_fee A b \<le> v) (add_value A b)"
proof -
  define est where "est = estimate_vbytes A b"
  have est: "est \<le> 1000" "estimate_fee A b = r * est" using staged_sizes [OF ok st] by (simp_all add: est_def)
  have req: "same_request q b" and outs: "tb_outputs b = pre @ [(tb_recipient q, v)]"
    using st by (auto simp: staged_def)
  have f58: "fee (tb_fee_rate b) ADDITIONAL_INPUT_VBYTES = r * 58"
    using request_fee(1) [OF ok, of 58] req by (simp add: same_request_def ADDITIONAL_INPUT_VBYTES_def)
  have mv: "(case tb_target b of Postage \<Rightarrow> dust_value A (script_pubkey A (fst (tb_recipient q, v))) | Value x \<Rightarrow> x) = min_value A q"
    using req by (simp add: same_request_def min_value_def split: target.split)
  note add = add_value_def Let_def est(2) outs mv f58 checked_defs
  show ?thesis
  proof (cases "min_value A q + r * est \<le> u64_max")
    case False
    then have "add_value A b = Inl ValueOverflow" by (simp add: add)
    with value_overflow_explained [OF ok, of est] est(1) False show ?thesis by simp
  next
    case fits: True
    show ?thesis
    proof (cases "min_value A q + r * est \<le> v")
      case True
      then have "add_value A b = Inr b" using fits by (simp add: add)
      with st True est show ?thesis by auto
    next
      case short: False
      define deficit where "deficit = min_value A q + r * est - v"
      have d: "deficit + r * 58 \<le> min_value A q + r * (est + 58)" "0 < deficit"
        using short by (simp_all add: deficit_def algebra_simps)
      show ?thesis
      proof (cases "deficit + r * 58 \<le> u64_max")
        case False
        then have "add_value A b = Inl ValueOverflow" using fits short d(2) by (simp add: add deficit_def)
        with value_overflow_explained [OF ok, of "est + 58"] est(1) False d(1) show ?thesis by simp
      next
        case True
        have eq: "add_value A b =
            res_bind (select_cardinal_utxo (deficit + r * 58) b) (\<lambda>((utxo, w), b).
            res_bind (amount_add v w) (\<lambda>s.
            Inr (b\<lparr>tb_inputs := tb_inputs b @ [utxo], tb_outputs := set_last (tb_outputs b) s\<rparr>)))"
          using True fits short d(2) by (simp add: add deficit_def)
        have "r * (est + 58) \<le> r * 1058" using est(1) by (intro mult_le_mono2) simp
        then have m: "deficit + r * 58 \<le> enough A r q"
          using d(1) min_value_bounds(1) [OF ok] by linarith
        have "sound (explained A r q) (\<lambda>b. \<exists>Q v. staged q b P Q pre v \<and> min_value A q + estimate_fee A b \<le> v)
            (res_bind (amount_add v w) (\<lambda>s. Inr (b'\<lparr>tb_inputs := tb_inputs b' @ [u], tb_outputs := set_last (tb_outputs b') s\<rparr>)))"
          if "b' = b\<lparr>tb_utxos := remove1 u (tb_utxos b)\<rparr>" and u: "u \<in> set (tb_utxos b)" "cardinal q u"
            and w: "w = val (tb_amounts q) u" "deficit + r * 58 \<le> w" for u w b'
        proof -
          define b2 where "b2 = b\<lparr>tb_utxos := remove1 u (tb_utxos b), tb_inputs := tb_inputs b @ [u],
            tb_outputs := pre @ [(tb_recipient q, v + w)]\<rparr>"
          have st2: "staged q b2 P [u] pre (v + w)" using staged_back [OF st u] w(1) by (simp add: b2_def)
          then have bound: "v + w \<le> u64_max" using staged_paid_bound(2) [OF ok] by (fastforce simp: width_defs)
          have "estimate_vbytes A b2 \<le> est + 58"
            using ok staged_sizes(3-6) [OF ok st] st outs
            by (simp add: estimate_vbytes_def b2_def est_def request_ok_def sizes_ok_def staged_def)
          then have "estimate_fee A b2 \<le> r * est + r * 58"
            using staged_sizes(2) [OF ok st2] by (metis add_mult_distrib2 mult_le_mono2)
          then have "min_value A q + estimate_fee A b2 \<le> v + w" using w(2) short by (simp add: deficit_def)
          with st2 bound that(1) outs show ?thesis
            by (auto simp: b2_def set_last_def intro!: exI [of _ "[u]"])
        qed
        then show ?thesis
          unfolding eq using st by (intro sound_bind [OF select_cardinal_sound [OF st _ m]]) (auto simp: staged_def)
      qed
    qed
  qed
qed

text \<open>The value the recipient may get, and the change addresses' largest dust limit.\<close>

definition change_dust :: "'a wallet_api \<Rightarrow> 'a transaction_builder \<Rightarrow> nat" where
  "change_dust A q = foldr max (map (dust_value A \<circ> script_pubkey A) (tb_change_addresses q)) 0"

definition value_ok :: "'a wallet_api \<Rightarrow> nat \<Rightarrow> 'a transaction_builder \<Rightarrow> nat \<Rightarrow> bool" where
  "value_ok A r q v \<longleftrightarrow>
    (case tb_target q of
       Postage \<Rightarrow> v \<le> MAX_POSTAGE + r * 43
     | Value x \<Rightarrow> x \<le> v \<and> v \<le> x + change_dust A q + r * 43)"

lemma foldr_max_ge: "x \<in> set xs \<Longrightarrow> x \<le> foldr max xs (0::nat)"
  by (induction xs) auto

lemma foldr_max_le: "\<forall>x\<in>set xs. x \<le> m \<Longrightarrow> foldr max xs (0::nat) \<le> m"
  by (induction xs) auto

lemma change_dust_bounds:
  assumes "request_ok A r q"
  shows "c \<in> set (tb_change_addresses q) \<Longrightarrow> dust_value A (script_pubkey A c) \<le> change_dust A q"
    and "change_dust A q \<le> dust_value A (script_pubkey A (tb_recipient q))" and "change_dust A q \<le> 10000"
proof -
  show "c \<in> set (tb_change_addresses q) \<Longrightarrow> dust_value A (script_pubkey A c) \<le> change_dust A q"
    unfolding change_dust_def by (intro foldr_max_ge) auto
  show *: "change_dust A q \<le> dust_value A (script_pubkey A (tb_recipient q))"
    unfolding change_dust_def
    using assms by (intro foldr_max_le) (auto simp: request_ok_def addresses_ok_def Let_def)
  then show "change_dust A q \<le> 10000"
    using assms by (auto simp: request_ok_def addresses_ok_def Let_def)
qed

text \<open>A builder whose excess has been split off into a second change output.\<close>

definition target_value :: "'a transaction_builder \<Rightarrow> nat" where
  "target_value q = (case tb_target q of Postage \<Rightarrow> TARGET_POSTAGE | Value v \<Rightarrow> v)"

definition max_value :: "'a transaction_builder \<Rightarrow> nat" where
  "max_value q = (case tb_target q of Postage \<Rightarrow> MAX_POSTAGE | Value v \<Rightarrow> v)"

definition stripped :: "'a wallet_api \<Rightarrow> nat \<Rightarrow> 'a transaction_builder \<Rightarrow> 'a transaction_builder \<Rightarrow> outpoint list \<Rightarrow>
    outpoint list \<Rightarrow> ('a \<times> u64) list \<Rightarrow> u64 \<Rightarrow> 'a \<Rightarrow> bool" where
  "stripped A r q b P Q pre v c \<longleftrightarrow> (\<exists>b0. staged q b0 P Q pre v \<and>
    b = b0\<lparr>tb_outputs := pre @ [(tb_recipient q, target_value q), (c, v - target_value q)],
           tb_unused_change_addresses := butlast (tb_unused_change_addresses b0)\<rparr> \<and>
    c \<in> set (tb_change_addresses q) \<and> c \<notin> fst ` set pre \<and>
    dust_value A (script_pubkey A c) + r * (estimate_vbytes A b0 + 43) < v - target_value q)"

lemma target_value_bounds:
  assumes "request_ok A r q"
  shows "target_value q \<le> max_value q" and "dust_value A (script_pubkey A (tb_recipient q)) \<le> target_value q"
    and "x \<le> max_value q \<Longrightarrow> min_value A q \<le> x \<Longrightarrow> value_ok A r q x"
    and "x \<le> target_value q + change_dust A q + r * 43 \<Longrightarrow> min_value A q \<le> x \<Longrightarrow> value_ok A r q x"
    and "value_ok A r q (target_value q)"
  using assms change_dust_bounds(3) [OF assms]
  by (auto simp: target_value_def max_value_def value_ok_def min_value_def request_ok_def addresses_ok_def Let_def
      MAX_POSTAGE_def TARGET_POSTAGE_def split: target.splits)

lemma strip_value_sound:
  assumes ok: "request_ok A r q" and st: "staged q b P Q pre v" and v: "min_value A q + estimate_fee A b \<le> v"
  shows "sound (explained A r q)
    (\<lambda>b. staged q b P Q pre v \<and> min_value A q + estimate_fee A b \<le> v \<and> value_ok A r q (v - estimate_fee A b) \<or>
         (\<exists>c. stripped A r q b P Q pre v c)) (strip_value A b)"
proof -
  define est where "est = estimate_vbytes A b"
  have est: "est \<le> 1000" "estimate_fee A b = r * est" using staged_sizes [OF ok st] by (simp_all add: est_def)
  have req: "same_request q b" and outs: "tb_outputs b = pre @ [(tb_recipient q, v)]"
    using st by (auto simp: staged_def)
  have bound: "sum_list (map snd pre) + v < 2 ^ 62" using staged_paid_bound(2) [OF ok st] .
  then have total: "amount_sum (map snd (tb_outputs b)) = Inr (sum_list (map snd pre) + v)"
    using amount_sum_exact [of "map snd (tb_outputs b)" 0] by (simp add: amount_sum_def outs width_defs)
  have found: "\<exists>y. find (\<lambda>(address, _). address = tb_recipient b) (tb_outputs b) = Some y"
    using req by (cases "find (\<lambda>(address, _). address = tb_recipient b) (tb_outputs b)")
      (auto simp: outs same_request_def find_None_iff)
  have off: "calculate_sat_offset b = Inr (sum_list (map snd pre))"
    using staged_sat_offset [OF ok st] by simp
  have f: "fee (tb_fee_rate b) est = r * est" "fee (tb_fee_rate b) (est + ADDITIONAL_OUTPUT_VBYTES) = r * (est + 43)"
    using request_fee(1) [OF ok] req est(1) by (simp_all add: same_request_def ADDITIONAL_OUTPUT_VBYTES_def)
  have tgt: "(case tb_target b of Postage \<Rightarrow> (MAX_POSTAGE, TARGET_POSTAGE) | Value v \<Rightarrow> (v, v)) = (max_value q, target_value q)"
    using req by (auto simp: same_request_def max_value_def target_value_def split: target.split)
  obtain c cs where unused: "tb_unused_change_addresses b = cs @ [c]" "c \<in> set (tb_change_addresses q)" "c \<notin> fst ` set pre"
    using st ok by (auto simp: staged_def aligned_def request_ok_def)
  have last_out: "set_last (tb_outputs b) t = pre @ [(tb_recipient q, t)]" for t by (simp add: set_last_def outs)
  have le: "r * est \<le> v" using v est(2) by simp
  note strip = strip_value_def off total f tgt est_def [symmetric] checked_defs
  show ?thesis
  proof (cases "max_value q < v - r * est")
    case False
    then have "strip_value A b = Inr b" using found le by (auto simp: strip)
    moreover have "value_ok A r q (v - r * est)"
      using False v est(2) by (intro target_value_bounds(3) [OF ok]) auto
    ultimately show ?thesis using st v est(2) by simp
  next
    case True
    then have tv: "target_value q \<le> v" using target_value_bounds(1) [OF ok] by linarith
    have "r * (est + 43) < 2 ^ 52" using request_fee(2) [OF ok, of "est + 43"] est(1) by simp
    moreover have "dust_value A (script_pubkey A c) \<le> 10000"
      using change_dust_bounds(1,3) [OF ok] unused(2) by (meson le_trans)
    ultimately have fits: "dust_value A (script_pubkey A c) + r * (est + 43) \<le> u64_max" by (simp add: width_defs)
    show ?thesis
    proof (cases "dust_value A (script_pubkey A c) + r * (est + 43) < v - target_value q")
      case enough: True
      define b' where "b' = b\<lparr>tb_outputs := pre @ [(tb_recipient q, target_value q), (c, v - target_value q)],
        tb_unused_change_addresses := cs\<rparr>"
      have "strip_value A b = Inr b'"
        using True tv le found fits enough unused(1) by (auto simp: strip b'_def last_out)
      moreover have "stripped A r q b' P Q pre v c"
        unfolding stripped_def using st unused enough by (auto simp: b'_def est_def)
      ultimately show ?thesis by auto
    next
      case False
      then have "strip_value A b = Inr b"
        using True tv le found fits unused(1) by (auto simp: strip)
      moreover have "value_ok A r q (v - r * est)"
      proof (rule target_value_bounds(4) [OF ok])
        have "v - target_value q \<le> change_dust A q + r * est + r * 43"
          using False change_dust_bounds(1) [OF ok unused(2)] by (simp add: add_mult_distrib2)
        then show "v - r * est \<le> target_value q + change_dust A q + r * 43" using tv by linarith
        show "min_value A q \<le> v - r * est" using v est(2) by simp
      qed
      ultimately show ?thesis using st v est(2) by simp
    qed
  qed
qed

text \<open>The finished builder: what \<open>build\<close> asserts, and that nothing but cardinal outputs are spent besides.\<close>

definition completed :: "'a wallet_api \<Rightarrow> nat \<Rightarrow> 'a transaction_builder \<Rightarrow> 'a transaction_builder \<Rightarrow> outpoint list \<Rightarrow>
    outpoint list \<Rightarrow> ('a \<times> u64) list \<Rightarrow> u64 \<Rightarrow> ('a \<times> u64) list \<Rightarrow> bool" where
  "completed A r q b P Q pre v post \<longleftrightarrow> same_request q b \<and>
    tb_inputs b = P @ sp_outpoint (tb_outgoing q) # Q \<and> tb_outputs b = pre @ (tb_recipient q, v) # post \<and>
    distinct (tb_inputs b) \<and> in_wallet (tb_amounts q) (tb_inputs b) \<and> (\<forall>p\<in>set P \<union> set Q. cardinal q p) \<and>
    sp_offset (tb_outgoing q) < val (tb_amounts q) (sp_outpoint (tb_outgoing q)) \<and>
    sum_list (map snd pre) = paid (tb_amounts q) P + sp_offset (tb_outgoing q) \<and> 0 < v \<and>
    distinct (map fst (tb_outputs b)) \<and> set (map fst (pre @ post)) \<subseteq> set (tb_change_addresses q) \<and>
    (\<forall>(a, x)\<in>set (tb_outputs b). dust_value A (script_pubkey A a) \<le> x) \<and> value_ok A r q v \<and>
    sum_list (map snd (tb_outputs b)) + r * estimate_vbytes A b = paid (tb_amounts q) (tb_inputs b) \<and>
    estimate_vbytes A b \<le> 1000"

lemma deduct_fee_exact:
  assumes "tb_outputs b = os @ [(a, x)]" and "calculate_sat_offset b = Inr off"
    and "sum_list (map snd os) + x \<le> u64_max" and "estimate_fee A b \<le> x"
    and "off < sum_list (map snd os) + x - estimate_fee A b"
  shows "deduct_fee A b = Inr (b\<lparr>tb_outputs := os @ [(a, x - estimate_fee A b)]\<rparr>)"
proof -
  have "amount_sum (map snd os @ [x]) = Inr (sum_list (map snd os) + x)"
    using amount_sum_exact [of "map snd os @ [x]" 0] assms(3) by (simp add: amount_sum_def)
  note total = this
  show ?thesis
    using assms by (simp add: deduct_fee_def Let_def checked_defs set_last_def total)
qed

lemma estimate_vbytes_outputs:
  "map fst os = map fst (tb_outputs b) \<Longrightarrow> estimate_vbytes A (b\<lparr>tb_outputs := os\<rparr>) = estimate_vbytes A b"
  by (simp add: estimate_vbytes_def)

lemma padded_dust:
  assumes ok: "request_ok A r q" and st: "staged q b P Q pre v" and pad: "padded A q pre"
  shows "\<forall>(a, x)\<in>set pre. dust_value A (script_pubkey A a) \<le> x"
proof clarify
  fix a x assume ax: "(a, x) \<in> set pre"
  have "a \<in> set (tb_change_addresses q)" using st ax unfolding staged_def aligned_def by auto
  then have "dust_value A (script_pubkey A a) \<le> dust_value A (script_pubkey A (tb_recipient q))"
    using change_dust_bounds(1,2) [OF ok] by (meson le_trans)
  also have "\<dots> \<le> x" using pad ax by (force simp: padded_def)
  finally show "dust_value A (script_pubkey A a) \<le> x" .
qed

lemma deduct_unstripped:
  assumes ok: "request_ok A r q" and st: "staged q b P Q pre v" and pad: "padded A q pre"
    and v: "min_value A q + estimate_fee A b \<le> v" "value_ok A r q (v - estimate_fee A b)"
  shows "\<exists>b'. deduct_fee A b = Inr b' \<and> completed A r q b' P Q pre (v - estimate_fee A b) []"
proof -
  let ?x = "v - estimate_fee A b" and ?b = "b\<lparr>tb_outputs := pre @ [(tb_recipient q, v - estimate_fee A b)]\<rparr>"
  have outs: "tb_outputs b = pre @ [(tb_recipient q, v)]" using st by (auto simp: staged_def)
  have bound: "sum_list (map snd pre) + v \<le> u64_max" using staged_paid_bound(2) [OF ok st] by (simp add: width_defs)
  have off: "calculate_sat_offset b = Inr (sum_list (map snd pre))" using staged_sat_offset [OF ok st] by simp
  have x: "min_value A q \<le> ?x" "0 < ?x" using v(1) min_value_bounds(4) [OF ok] by linarith+
  have req: "same_request q (b\<lparr>tb_outputs := os\<rparr>) = same_request q b" for os by (simp add: same_request_def)
  have "deduct_fee A b = Inr ?b"
    using deduct_fee_exact [OF outs off bound] v(1) x by simp
  moreover have "completed A r q ?b P Q pre ?x []"
  proof -
    have sz: "estimate_vbytes A ?b = estimate_vbytes A b" by (rule estimate_vbytes_outputs) (simp add: outs)
    have d: "\<forall>(a, x)\<in>set pre. dust_value A (script_pubkey A a) \<le> x"
      using ok st pad by (rule padded_dust)
    obtain y where y: "v - estimate_fee A b = y" by blast
    have "dust_value A (script_pubkey A (tb_recipient q)) \<le> y" "0 < y"
      using min_value_bounds(2) [OF ok] x y by linarith+
    moreover have "distinct (map fst pre @ [tb_recipient q])" "set (map fst pre) \<subseteq> set (tb_change_addresses q)"
      using st ok by (auto simp: staged_def aligned_def request_ok_def)
    moreover have "sum_list (map snd pre) + y + r * estimate_vbytes A b = paid (tb_amounts q) (tb_inputs b)"
      using staged_sum [OF st] v(1) staged_sizes(2) [OF ok st] y by linarith
    ultimately show ?thesis
      using st d v(2) staged_sizes(1) [OF ok st] staged_sat_offset(2) [OF ok st]
      unfolding completed_def sz [unfolded y] y by (simp add: req staged_def in_wallet_def) auto
  qed
  ultimately show ?thesis by blast
qed

lemma deduct_stripped:
  assumes ok: "request_ok A r q" and st: "stripped A r q b P Q pre v c" and pad: "padded A q pre"
  shows "\<exists>b' x. deduct_fee A b = Inr b' \<and> completed A r q b' P Q pre (target_value q) [(c, x)]"
proof -
  let ?t = "target_value q"
  obtain b0 where st0: "staged q b0 P Q pre v"
    and b: "b = b0\<lparr>tb_outputs := pre @ [(tb_recipient q, ?t), (c, v - ?t)],
      tb_unused_change_addresses := butlast (tb_unused_change_addresses b0)\<rparr>"
    and c: "c \<in> set (tb_change_addresses q)" "c \<notin> fst ` set pre"
    and rest: "dust_value A (script_pubkey A c) + r * (estimate_vbytes A b0 + 43) < v - ?t"
    using st by (auto simp: stripped_def)
  have sizes: "sizes_ok A (tb_recipient q # tb_change_addresses q)" using ok by (simp add: request_ok_def)
  have outs0: "tb_outputs b0 = pre @ [(tb_recipient q, v)]" using st0 by (auto simp: staged_def)
  have o: "map fst (tb_outputs b) = map fst (tb_outputs b0) @ [c]" by (simp add: b outs0)
  have n: "0 < length (tb_inputs b0)" "length (tb_inputs b0) \<le> 3" using staged_sizes(4,3) [OF ok st0] .
  have sub: "set (map fst (tb_outputs b0)) \<subseteq> set (tb_recipient q # tb_change_addresses q)" and l: "length (tb_outputs b0) \<le> 2"
    using staged_sizes(6,5) [OF ok st0] .
  have est: "estimate_vbytes A b \<le> estimate_vbytes A b0 + 43" "estimate_vbytes A b \<le> 1000"
  proof -
    have i: "tb_inputs b = tb_inputs b0" by (simp add: b)
    show "estimate_vbytes A b \<le> estimate_vbytes A b0 + 43"
      unfolding estimate_vbytes_def o i using sizes_okD(3) [OF sizes n sub, of c] c(1) l by simp
    show "estimate_vbytes A b \<le> 1000"
      unfolding estimate_vbytes_def i o using sub c(1) l by (intro sizes_okD(1) [OF sizes n]) auto
  qed
  have rate: "tb_fee_rate b = tb_fee_rate q" using st0 by (simp add: b staged_def same_request_def)
  have fee: "estimate_fee A b = r * estimate_vbytes A b"
    using request_fee(1) [OF ok, of "estimate_vbytes A b"] est(2) rate by (simp add: estimate_fee_def)
  have "r * estimate_vbytes A b \<le> r * (estimate_vbytes A b0 + 43)" using est(1) by (rule mult_le_mono2)
  with rest fee have x: "dust_value A (script_pubkey A c) + estimate_fee A b < v - ?t" by linarith
  have t: "dust_value A (script_pubkey A (tb_recipient q)) \<le> ?t" "0 < ?t"
    using target_value_bounds(2) [OF ok] ok by (auto simp: request_ok_def addresses_ok_def Let_def)
  have bound: "sum_list (map snd (pre @ [(tb_recipient q, ?t)])) + (v - ?t) \<le> u64_max"
    using staged_paid_bound(2) [OF ok st0] x by (simp add: width_defs)
  have off: "calculate_sat_offset b = Inr (sum_list (map snd pre))"
    using staged_sat_offset [OF ok st0] by (simp add: calculate_sat_offset_def b)
  have b0: "tb_inputs b = tb_inputs b0" "\<And>os. same_request q (b\<lparr>tb_outputs := os\<rparr>) = same_request q b0"
    by (simp_all add: b same_request_def)
  let ?x = "v - ?t - estimate_fee A b"
  let ?b = "b\<lparr>tb_outputs := (pre @ [(tb_recipient q, ?t)]) @ [(c, ?x)]\<rparr>"
  have "deduct_fee A b = Inr ?b"
    using deduct_fee_exact [OF _ off bound, where a = c] x t by (simp add: b)
  moreover have "completed A r q ?b P Q pre ?t [(c, ?x)]"
  proof -
    have sz: "estimate_vbytes A ?b = estimate_vbytes A b" by (rule estimate_vbytes_outputs) (simp add: b)
    have d: "\<forall>(a, x)\<in>set pre. dust_value A (script_pubkey A a) \<le> x"
      using ok st0 pad by (rule padded_dust)
    obtain y where y: "v - ?t - estimate_fee A b = y" by blast
    have "distinct (map fst pre @ [tb_recipient q, c])" "set (map fst pre) \<subseteq> set (tb_change_addresses q)"
      using st0 ok c by (auto simp: staged_def aligned_def request_ok_def)
    moreover have "sum_list (map snd pre) + (?t + y) + r * estimate_vbytes A b = paid (tb_amounts q) (tb_inputs b0)"
      "dust_value A (script_pubkey A c) \<le> y"
      using staged_sum [OF st0] x fee y by linarith+
    ultimately show ?thesis
      using st0 d t c est(2) target_value_bounds(5) [OF ok] staged_sat_offset(2) [OF ok st0]
      unfolding completed_def sz [unfolded y] y by (simp add: b0 staged_def in_wallet_def) auto
  qed
  ultimately show ?thesis by blast
qed

section \<open>The assertions\<close>

lemma count_where_distinct:
  assumes "distinct (map f xs)"
  shows "count_where (\<lambda>x. f x = k) xs = (if k \<in> f ` set xs then 1 else 0)"
  using assms
proof (induction xs)
  case Nil
  then show ?case by (simp add: count_where_def)
next
  case (Cons x xs)
  then show ?case by (cases "f x = k") (auto simp: count_where_def)
qed

lemma count_where_key:
  assumes "distinct (map fst xs)" and "map_of xs k = Some v" and "P v"
  shows "count_where (\<lambda>(k', v). k' = k \<and> P v) xs = 1"
  using assms
proof (induction xs)
  case Nil
  then show ?case by simp
next
  case (Cons x xs)
  have "count_where (\<lambda>(k', v). k' = k \<and> P v) xs = 0" if "k \<notin> fst ` set xs"
    using that by (force simp: count_where_def filter_empty_conv)
  with Cons show ?case by (cases x) (auto simp: count_where_def split: if_splits)
qed

lemma input_position_exact:
  assumes "in_wallet amounts (map ti_previous_output is)" and "sp_outpoint outgoing \<notin> set (map ti_previous_output is)"
    and "ti_previous_output i = sp_outpoint outgoing"
    and "acc + paid amounts (map ti_previous_output is) + sp_offset outgoing \<le> u64_max"
  shows "input_position amounts outgoing (is @ i # rest) acc =
    Inr (Some (acc + paid amounts (map ti_previous_output is) + sp_offset outgoing))"
  using assms
proof (induction "is" arbitrary: acc)
  case Nil
  then show ?case by simp
next
  case (Cons j "is")
  then have "map_of amounts (ti_previous_output j) = Some (val amounts (ti_previous_output j))"
    by (auto simp: in_wallet_def intro: map_of_val)
  with Cons show ?case by (auto simp: in_wallet_def add.assoc)
qed

lemma output_position_exact:
  assumes "off = acc + sum_list (map txo_amount os)" and "0 < txo_amount out" and "txo_script out = recipient"
    and "off + txo_amount out \<le> u64_max"
  shows "output_position recipient off (os @ out # rest) acc = Inr True"
  using assms by (induction os arbitrary: acc) (simp_all add: add.assoc)

lemma check_outputs_change:
  assumes "\<forall>out\<in>set os. txo_script out \<noteq> script_pubkey A (tb_recipient b) \<and>
      (\<exists>change\<in>set (tb_change_addresses b). script_pubkey A change = txo_script out)"
    and "acc + sum_list (map txo_amount os) \<le> u64_max"
  shows "check_outputs A b off (os @ rest) acc = check_outputs A b off rest (acc + sum_list (map txo_amount os))"
  using assms by (induction os arbitrary: acc) (auto simp: add.assoc)

lemma check_recipient_value_exact:
  assumes ok: "request_ok A r q" and "same_request q b" and v: "value_ok A r q v"
  shows "check_recipient_value A b v = Inr ()"
proof -
  have f: "fee (tb_fee_rate q) ADDITIONAL_OUTPUT_VBYTES = r * 43" and b: "r * 43 < 2 ^ 52"
    using request_fee [OF ok, of 43] by (simp_all add: ADDITIONAL_OUTPUT_VBYTES_def)
  have "MAX_POSTAGE + r * 43 \<le> u64_max" "change_dust A q + r * 43 \<le> u64_max"
    using b change_dust_bounds(3) [OF ok] by (simp_all add: width_defs MAX_POSTAGE_def)
  with v assms(2) show ?thesis
    by (auto simp: check_recipient_value_def Let_def f value_ok_def same_request_def change_dust_def [symmetric]
        checked_defs assert_that_def split: target.splits)
qed

lemma actual_fee_exact:
  assumes "in_wallet amounts (map ti_previous_output (wt_input tx))"
    and "paid amounts (map ti_previous_output (wt_input tx)) \<le> u64_max"
    and "sum_list (map txo_amount (wt_output tx)) + f = paid amounts (map ti_previous_output (wt_input tx))"
  shows "actual_fee amounts tx = Inr f"
proof -
  have i: "in_wallet amounts (map ti_previous_output is) \<Longrightarrow> acc + paid amounts (map ti_previous_output is) \<le> u64_max \<Longrightarrow>
      res_fold (\<lambda>tx_in total. res_bind (amount_of amounts (ti_previous_output tx_in)) (amount_add total)) is acc =
        Inr (acc + paid amounts (map ti_previous_output is))" for acc "is"
    by (induction "is" arbitrary: acc) (auto simp: in_wallet_def map_of_val add.assoc)
  have o: "sum_list (map txo_amount os) + f = t \<Longrightarrow>
      res_fold (\<lambda>out total. amount_sub total (txo_amount out)) os t = Inr f" for t os
    by (induction os arbitrary: t) auto
  show ?thesis using assms(1,2) by (simp add: actual_fee_def i o [OF assms(3)])
qed

lemma signed_vsize:
  assumes "sizes_ok A addresses"
  shows "vsize A (sign_inputs (unsigned_tx A b)) = estimate_vbytes A b"
proof -
  have "tx_shape (sign_inputs (unsigned_tx A b)) = tx_shape t" if
    "t = \<lparr>wt_version = 1, wt_lock_time = 0,
      wt_input = replicate (length (tb_inputs b)) \<lparr>ti_previous_output = outpoint_null, ti_script_sig = [],
        ti_sequence = ENABLE_RBF_NO_LOCKTIME, ti_witness = signature_witness\<rparr>,
      wt_output = map (\<lambda>address. \<lparr>txo_amount = 0, txo_script = script_pubkey A address\<rparr>) (map fst (tb_outputs b))\<rparr>" for t
    using that
    by (auto simp: tx_shape_def sign_inputs_def unsigned_tx_def signature_witness_def SCHNORR_SIGNATURE_SIZE_def
        comp_def map_replicate_const [symmetric] simp del: replicate_Suc)
  then show ?thesis using assms unfolding sizes_ok_def estimate_vbytes_def estimate_vbytes_with_def by blast
qed

lemma completed_scripts:
  assumes ok: "request_ok A r q" and cp: "completed A r q b P Q pre v post"
  shows "distinct (map txo_script (wt_output (unsigned_tx A b)))"
    and "\<forall>(a, x)\<in>set (pre @ post). script_pubkey A a \<noteq> script_pubkey A (tb_recipient q) \<and> a \<in> set (tb_change_addresses q)"
proof -
  have inj: "inj_on (script_pubkey A) (insert (tb_recipient q) (set (tb_change_addresses q)))"
    using ok by (simp add: request_ok_def addresses_ok_def)
  have outs: "tb_outputs b = pre @ (tb_recipient q, v) # post" and d: "distinct (map fst (tb_outputs b))"
    and change: "set (map fst (pre @ post)) \<subseteq> set (tb_change_addresses q)"
    using cp unfolding completed_def by blast+
  have sub: "set (map fst (tb_outputs b)) \<subseteq> insert (tb_recipient q) (set (tb_change_addresses q))"
    using change by (auto simp: outs)
  have "map txo_script (wt_output (unsigned_tx A b)) = map (script_pubkey A) (map fst (tb_outputs b))"
    by (simp add: unsigned_tx_def split_beta comp_def)
  then show "distinct (map txo_script (wt_output (unsigned_tx A b)))"
    using d inj_on_subset [OF inj sub] by (simp only: distinct_map [of "script_pubkey A"])
  have "tb_recipient q \<notin> set (tb_change_addresses q)" using ok by (auto simp: request_ok_def)
  moreover have "\<forall>(a, x)\<in>set (pre @ post). a \<in> set (tb_change_addresses q)"
    using change by force
  ultimately show "\<forall>(a, x)\<in>set (pre @ post). script_pubkey A a \<noteq> script_pubkey A (tb_recipient q) \<and> a \<in> set (tb_change_addresses q)"
    unfolding split_beta inj_on_eq_iff [OF inj] using inj_on_eq_iff [OF inj] by (metis insertCI)
qed

lemma build_sound:
  assumes ok: "request_ok A r q" and cp: "completed A r q b P Q pre v post"
  shows "build A b = Inr (unsigned_tx A b)"
proof -
  let ?R = "tb_recipient q" and ?p = "sp_outpoint (tb_outgoing q)" and ?tx = "unsigned_tx A b"
  let ?sat = "paid (tb_amounts q) P + sp_offset (tb_outgoing q)"
  let ?txin = "\<lambda>outpoint. \<lparr>ti_previous_output = outpoint, ti_script_sig = [],
       ti_sequence = ENABLE_RBF_NO_LOCKTIME, ti_witness = []\<rparr>"
  let ?txout = "\<lambda>(address, amount). \<lparr>txo_amount = amount, txo_script = script_pubkey A address\<rparr>"
  have req: "same_request q b" and ins: "tb_inputs b = P @ ?p # Q" and outs: "tb_outputs b = pre @ (?R, v) # post"
    and di: "distinct (tb_inputs b)" and inw: "in_wallet (tb_amounts q) (tb_inputs b)"
    and sat: "sum_list (map snd pre) = ?sat" and v: "0 < v" "value_ok A r q v"
    and off: "sp_offset (tb_outgoing q) < val (tb_amounts q) ?p"
    and dust: "\<forall>(a, x)\<in>set (tb_outputs b). dust_value A (script_pubkey A a) \<le> x"
    and total: "sum_list (map snd (tb_outputs b)) + r * estimate_vbytes A b = paid (tb_amounts q) (tb_inputs b)"
    and est: "estimate_vbytes A b \<le> 1000"
    using cp unfolding completed_def by blast+
  have w: "distinct (map fst (tb_amounts q))" "sum_list (map snd (tb_amounts q)) < 2 ^ 62"
    using ok by (simp_all add: request_ok_def wallet_ok_def)
  have bound: "paid (tb_amounts q) (tb_inputs b) \<le> u64_max"
    using paid_le_total [OF w(1) di inw] w(2) by (simp add: width_defs)
  have prev: "map ti_previous_output (map ?txin xs) = xs" for xs by (simp add: comp_def)
  have input: "wt_input ?tx = map ?txin P @ ?txin ?p # map ?txin Q" by (simp add: unsigned_tx_def ins)
  have outputs: "wt_output ?tx = map ?txout pre @ \<lparr>txo_amount = v, txo_script = script_pubkey A ?R\<rparr> # map ?txout post"
    by (simp add: unsigned_tx_def outs)
  have amounts: "map txo_amount (map ?txout xs) = map snd xs" for xs by (induction xs) auto
  have sum: "sum_list (map txo_amount (wt_output ?tx)) = sum_list (map snd (tb_outputs b))"
    using amounts by (simp add: outputs outs del: map_map)
  have P: "in_wallet (tb_amounts q) P" "?p \<notin> set P" using ins di inw by (auto simp: in_wallet_def)
  have psum: "?sat + v \<le> u64_max" "?sat + v + sum_list (map snd post) \<le> u64_max"
    using bound total sat by (simp_all add: outs)
  have 1: "count_where (\<lambda>(outpoint, amount). outpoint = ?p \<and> sp_offset (tb_outgoing q) < amount) (tb_amounts q) = 1"
    using count_where_key [OF w(1) map_of_val [of ?p]] off inw ins by (simp add: in_wallet_def)
  have 2: "count_where (\<lambda>i. ti_previous_output i = ?p) (wt_input ?tx) = 1"
    using count_where_distinct [of ti_previous_output "wt_input ?tx" ?p] di
    by (simp add: input prev ins del: map_map)
  have 3: "input_position (tb_amounts q) (tb_outgoing q) (wt_input ?tx) 0 = Inr (Some ?sat)"
    using input_position_exact [of "tb_amounts q" "map ?txin P" "tb_outgoing q" "?txin ?p" 0] P psum(1)
    by (simp add: input comp_def)
  have 4: "output_position (script_pubkey A ?R) ?sat (wt_output ?tx) 0 = Inr True"
    using sat v(1) psum(1) amounts [of pre] by (simp add: outputs output_position_exact del: map_map)
  note scripts = completed_scripts [OF ok cp]
  have 5: "count_where (\<lambda>out. txo_script out = script_pubkey A ?R) (wt_output ?tx) = 1"
    using count_where_distinct [OF scripts(1)] by (simp add: outputs)
  have 6: "count_where (\<lambda>out. txo_script out = k) (wt_output ?tx) \<le> 1" for k
    using count_where_distinct [OF scripts(1)] by simp
  have 7: "check_outputs A b ?sat (wt_output ?tx) 0 = Inr ()"
  proof -
    have c: "\<forall>out\<in>set (map ?txout xs). txo_script out \<noteq> script_pubkey A (tb_recipient b) \<and>
        (\<exists>change\<in>set (tb_change_addresses b). script_pubkey A change = txo_script out)"
      if "set xs \<subseteq> set (pre @ post)" for xs
      using scripts(2) that req by (fastforce simp: same_request_def)
    have "check_outputs A b ?sat (map ?txout post @ []) (?sat + v) = Inr ()"
      using check_outputs_change [OF c, of post "?sat + v"] psum(2) amounts [of post]
      by (simp del: map_map append_Nil2)
    then show ?thesis
      using check_outputs_change [OF c, of pre 0] check_recipient_value_exact [OF ok req v(2)] psum amounts [of pre] sat req
      by (simp add: outputs same_request_def del: map_map)
  qed
  have 8: "actual_fee (tb_amounts q) ?tx = Inr (r * estimate_vbytes A b)"
    using actual_fee_exact [of "tb_amounts q" ?tx] inw bound total sum by (simp add: unsigned_tx_def comp_def)
  have 9: "fee (tb_fee_rate q) (vsize A (sign_inputs ?tx)) = r * estimate_vbytes A b"
  proof -
    have "sizes_ok A (tb_recipient q # tb_change_addresses q)" using ok by (simp add: request_ok_def)
    from signed_vsize [OF this] show ?thesis using request_fee(1) [OF ok] est by simp
  qed
  have 10: "\<forall>out\<in>set (wt_output ?tx). dust_value A (txo_script out) \<le> txo_amount out"
    using dust by (auto simp: unsigned_tx_def)
  have f: "tb_amounts b = tb_amounts q" "tb_outgoing b = tb_outgoing q" "tb_recipient b = ?R" "tb_fee_rate b = tb_fee_rate q"
    using req by (simp_all add: same_request_def)
  show ?thesis
    unfolding build_def Let_def f 1 2 3 5 8 9
    using 6 7 10 by (simp add: 4 assert_that_def)
qed

section \<open>The promise\<close>

text \<open>
  A transaction that sends the outgoing sat: its inputs are the outgoing output and, around it,
  cardinal outputs of the wallet, none twice; its outputs are the recipient's and, around it, change;
  the outgoing sat is the first sat of the recipient's output; the inputs pay for the outputs and a
  fee of \<open>r\<close> sats for every virtual byte of the signed transaction; no output is dust; and the
  recipient gets the value that was asked for.
\<close>

definition sends_sat :: "'a wallet_api \<Rightarrow> nat \<Rightarrow> 'a transaction_builder \<Rightarrow> wallet_tx \<Rightarrow> bool" where
  "sends_sat A r q tx \<longleftrightarrow> (\<exists>P Q pre v post.
    map ti_previous_output (wt_input tx) = P @ sp_outpoint (tb_outgoing q) # Q \<and>
    distinct (P @ sp_outpoint (tb_outgoing q) # Q) \<and> (\<forall>p\<in>set (P @ Q). cardinal q p) \<and>
    wt_output tx = pre @ \<lparr>txo_amount = v, txo_script = script_pubkey A (tb_recipient q)\<rparr> # post \<and>
    (\<forall>out\<in>set (pre @ post). txo_script out \<in> script_pubkey A ` set (tb_change_addresses q)) \<and>
    sum_list (map txo_amount pre) = paid (tb_amounts q) P + sp_offset (tb_outgoing q) \<and> 0 < v \<and>
    sum_list (map txo_amount (wt_output tx)) + r * vsize A (sign_inputs tx) =
      paid (tb_amounts q) (map ti_previous_output (wt_input tx)) \<and>
    (\<forall>out\<in>set (wt_output tx). dust_value A (txo_script out) \<le> txo_amount out) \<and> value_ok A r q v)"

lemma completed_sends_sat:
  assumes ok: "request_ok A r q" and cp: "completed A r q b P Q pre v post"
  shows "sends_sat A r q (unsigned_tx A b)"
proof -
  let ?txout = "\<lambda>(address, amount). \<lparr>txo_amount = amount, txo_script = script_pubkey A address\<rparr>"
  have amounts: "map txo_amount (map ?txout xs) = map snd xs" for xs by (induction xs) auto
  have sizes: "sizes_ok A (tb_recipient q # tb_change_addresses q)" using ok by (simp add: request_ok_def)
  have prev: "map ti_previous_output (wt_input (unsigned_tx A b)) = tb_inputs b"
    by (simp add: unsigned_tx_def comp_def)
  have outputs: "wt_output (unsigned_tx A b) = map ?txout (tb_outputs b)" by (simp add: unsigned_tx_def)
  have outs: "tb_outputs b = pre @ (tb_recipient q, v) # post" and ins: "tb_inputs b = P @ sp_outpoint (tb_outgoing q) # Q"
    and di: "distinct (tb_inputs b)" and card: "\<forall>p\<in>set P \<union> set Q. cardinal q p"
    and sat: "sum_list (map snd pre) = paid (tb_amounts q) P + sp_offset (tb_outgoing q)" and v: "0 < v" "value_ok A r q v"
    and dust: "\<forall>(a, x)\<in>set (tb_outputs b). dust_value A (script_pubkey A a) \<le> x"
    and total: "sum_list (map snd (tb_outputs b)) + r * estimate_vbytes A b = paid (tb_amounts q) (tb_inputs b)"
    using cp unfolding completed_def by blast+
  have dust': "\<forall>out\<in>set (map ?txout (tb_outputs b)). dust_value A (txo_script out) \<le> txo_amount out"
    using dust by auto
  have split: "map ?txout (tb_outputs b) =
      map ?txout pre @ \<lparr>txo_amount = v, txo_script = script_pubkey A (tb_recipient q)\<rparr> # map ?txout post"
    by (simp add: outs)
  have "\<forall>out\<in>set (map ?txout pre @ map ?txout post). txo_script out \<in> script_pubkey A ` set (tb_change_addresses q)"
  proof
    fix out assume "out \<in> set (map ?txout pre @ map ?txout post)"
    then obtain a x where "(a, x) \<in> set (pre @ post)" "out = \<lparr>txo_amount = x, txo_script = script_pubkey A a\<rparr>"
      by auto
    moreover from this(1) have "a \<in> set (tb_change_addresses q)" using completed_scripts(2) [OF ok cp] by blast
    ultimately show "txo_script out \<in> script_pubkey A ` set (tb_change_addresses q)" by simp
  qed
  note change = this
  show ?thesis
    unfolding sends_sat_def prev outputs signed_vsize [OF sizes] amounts
    using change di [unfolded ins] card sat v dust' total split ins amounts [of pre]
    by (intro exI [of _ P] exI [of _ Q] exI [of _ "map ?txout pre"] exI [of _ v] exI [of _ "map ?txout post"] conjI)
      (simp_all only: set_append amounts)
qed

lemma pipeline_sound:
  assumes ok: "request_ok A r q" and new: "fresh q"
  shows "sound (explained A r q) (sends_sat A r q) (build_transaction A q)"
  unfolding build_transaction_def
proof (rule sound_bind [OF select_outgoing_sound [OF ok new]], elim conjE)
  fix b
  assume b: "b = q\<lparr>tb_utxos := remove1 (sp_outpoint (tb_outgoing q)) (map fst (tb_amounts q)),
      tb_inputs := [sp_outpoint (tb_outgoing q)],
      tb_outputs := [(tb_recipient q, val (tb_amounts q) (sp_outpoint (tb_outgoing q)))]\<rparr>"
    and p: "sp_outpoint (tb_outgoing q) \<in> fst ` set (tb_amounts q)"
      "sp_offset (tb_outgoing q) < val (tb_amounts q) (sp_outpoint (tb_outgoing q))"
  have finish: "sound (explained A r q) (sends_sat A r q) (res_bind (deduct_fee A b) (build A))"
    if "staged q b P Q pre v \<and> min_value A q + estimate_fee A b \<le> v \<and> value_ok A r q (v - estimate_fee A b) \<or>
         (\<exists>c. stripped A r q b P Q pre v c)" and "padded A q pre" for b P Q pre v
  proof -
    from that obtain b' x post where "deduct_fee A b = Inr b'" "completed A r q b' P Q pre x post"
      using deduct_unstripped [OF ok] deduct_stripped [OF ok] by metis
    then show ?thesis using build_sound [OF ok] completed_sends_sat [OF ok] by simp
  qed
  have strip: "sound (explained A r q) (sends_sat A r q)
      (res_bind (add_value A b) (\<lambda>b. res_bind (strip_value A b) (\<lambda>b. res_bind (deduct_fee A b) (build A))))"
    if "staged q b P [] pre v" "padded A q pre" for b P pre v
    using that by (intro sound_bind [OF add_value_sound [OF ok that(1)]])
      (auto intro!: sound_bind [OF strip_value_sound [OF ok]] finish)
  show "sound (explained A r q) (sends_sat A r q)
     (res_bind (align_outgoing b) (\<lambda>b. res_bind (pad_alignment_output A b) (\<lambda>b. res_bind (add_value A b) (\<lambda>b.
        res_bind (strip_value A b) (\<lambda>b. res_bind (deduct_fee A b) (build A))))))"
    by (rule sound_bind [OF align_outgoing_sound [OF ok new b p]])
      (auto intro!: sound_bind [OF pad_alignment_output_sound [OF ok]] strip)
qed

end
