(* ===== verification/Builder_Properties.thy ===== *)
theory Builder_Properties
  imports Builder_Safety
begin

text \<open>
  Properties of the transaction builder: it never panics and keeps its promise when the fee rate is
  a whole number; it succeeds when the wallet is funded; and whatever the fee rate, a transaction it
  returns spends nothing but the outgoing output and cardinal ones.
\<close>

section \<open>Careful spending\<close>

text \<open>What every step keeps, without any hypothesis on fees, sizes or dust.\<close>

definition careful :: "'a transaction_builder \<Rightarrow> 'a transaction_builder \<Rightarrow> bool" where
  "careful q b \<longleftrightarrow> same_request q b \<and> distinct (tb_inputs b @ tb_utxos b) \<and>
    in_wallet (tb_amounts q) (tb_inputs b @ tb_utxos b) \<and>
    (\<forall>p\<in>set (tb_inputs b). p = sp_outpoint (tb_outgoing q) \<or> cardinal q p)"

lemma careful_congI:
  assumes "careful q b" and "same_request b b'" and "tb_inputs b' = tb_inputs b" and "tb_utxos b' = tb_utxos b"
  shows "careful q b'"
  using assms by (simp add: careful_def same_request_def)

lemma careful_spend:
  assumes "careful q b" and "same_request b b'" and "u \<in> set (tb_utxos b)" and "cardinal q u"
    and "tb_utxos b' = remove1 u (tb_utxos b)"
    and "tb_inputs b' = u # tb_inputs b \<or> tb_inputs b' = tb_inputs b @ [u]"
  shows "careful q b'"
  using assms by (auto simp: careful_def same_request_def in_wallet_def distinct_remove1)

lemma select_cardinal_careful:
  fixes q b b' :: "'a transaction_builder"
  assumes "select_cardinal_utxo m b = Inr ((u, v), b')" and "careful q b"
  shows "b' = b\<lparr>tb_utxos := remove1 u (tb_utxos b)\<rparr>" and "u \<in> set (tb_utxos b)" and "cardinal q u"
proof -
  let ?I = "set (map (sp_outpoint \<circ> fst) (tb_inscriptions q))" and ?D = "set (tb_dunic_utxos q)"
  have req: "tb_amounts b = tb_amounts q" "tb_inscriptions b = tb_inscriptions q" "tb_dunic_utxos b = tb_dunic_utxos q"
    and inw: "in_wallet (tb_amounts q) (tb_utxos b)"
    using assms(2) by (auto simp: careful_def same_request_def in_wallet_def)
  from assms(1) have found: "(find_cardinal (tb_amounts q) ?I ?D m (tb_utxos b) :: 'a builder_error + _) = Inr (Some (u, v))"
    and b': "b' = b\<lparr>tb_utxos := remove1 u (tb_utxos b)\<rparr>"
    by (auto simp: select_cardinal_utxo_def req res_simps simp del: set_map)
  show "b' = b\<lparr>tb_utxos := remove1 u (tb_utxos b)\<rparr>" by fact
  have "u \<in> set (tb_utxos b) \<and> u \<notin> ?I \<and> u \<notin> ?D"
    using find_cardinal_cases [where 'a = 'a, OF inw, of ?I ?D m] unfolding found by simp
  then show "u \<in> set (tb_utxos b)" "cardinal q u" using inw by (auto simp: cardinal_def in_wallet_def)
qed

lemma same_request_refl [simp]: "same_request b b"
  by (simp add: same_request_def)

lemma select_outgoing_careful:
  assumes "select_outgoing q = Inr b" and "fresh q" and "distinct (map fst (tb_amounts q))"
  shows "careful q b"
proof -
  let ?p = "sp_outpoint (tb_outgoing q)"
  obtain a where "map_of (tb_amounts q) ?p = Some a"
    and b: "b = q\<lparr>tb_utxos := remove1 ?p (tb_utxos q), tb_inputs := tb_inputs q @ [?p],
      tb_outputs := tb_outputs q @ [(tb_recipient q, a)]\<rparr>"
    using assms(1) by (auto simp: select_outgoing_def res_simps split: if_splits)
  moreover from this(1) have "?p \<in> fst ` set (tb_amounts q)" by (force dest: map_of_SomeD)
  ultimately show ?thesis
    using assms(2,3) by (auto simp: careful_def fresh_def same_request_def in_wallet_def distinct_remove1 dest: notin_set_remove1)
qed

lemma align_outgoing_careful:
  assumes "align_outgoing b = Inr b'" and "careful q b"
  shows "careful q b'"
  using assms(2) by (rule careful_congI)
    (use assms(1) in \<open>auto simp: align_outgoing_def res_simps Let_def same_request_def split: if_splits\<close>)

lemma pad_alignment_output_careful:
  assumes "pad_alignment_output A b = Inr b'" and "careful q b"
  shows "careful q b'"
proof (cases "b' = b")
  case False
  with assms(1) obtain m u v b1 os where sel: "select_cardinal_utxo m b = Inr ((u, v), b1)"
    and b': "b' = b1\<lparr>tb_inputs := u # tb_inputs b1, tb_outputs := os\<rparr>"
    by (auto simp: pad_alignment_output_def res_simps Let_def split: if_splits)
  note sc = select_cardinal_careful [OF sel assms(2)]
  show ?thesis
    by (rule careful_spend [OF assms(2) _ sc(2,3)]) (simp_all add: b' sc(1) same_request_def)
qed (simp add: assms)

lemma add_value_careful:
  assumes "add_value A b = Inr b'" and "careful q b"
  shows "careful q b'"
proof (cases "b' = b")
  case False
  with assms(1) obtain m u v b1 os where sel: "select_cardinal_utxo m b = Inr ((u, v), b1)"
    and b': "b' = b1\<lparr>tb_inputs := tb_inputs b1 @ [u], tb_outputs := os\<rparr>"
    by (auto simp: add_value_def res_simps Let_def split: if_splits option.splits)
  note sc = select_cardinal_careful [OF sel assms(2)]
  show ?thesis
    by (rule careful_spend [OF assms(2) _ sc(2,3)]) (simp_all add: b' sc(1) same_request_def)
qed (simp add: assms)

lemma strip_value_careful:
  assumes "strip_value A b = Inr b'" and "careful q b"
  shows "careful q b'"
proof -
  have "same_request b b' \<and> tb_inputs b' = tb_inputs b \<and> tb_utxos b' = tb_utxos b"
    using assms(1)
    by (cases "tb_target b") (auto simp: strip_value_def res_simps Let_def same_request_def split: if_splits option.splits)
  then show ?thesis using careful_congI [OF assms(2)] by blast
qed

lemma deduct_fee_careful:
  assumes "deduct_fee A b = Inr b'" and "careful q b"
  shows "careful q b'"
  using assms(2) by (rule careful_congI)
    (use assms(1) in \<open>auto simp: deduct_fee_def res_simps Let_def same_request_def split: if_splits option.splits prod.splits\<close>)

lemma build_transaction_careful:
  assumes "build_transaction A q = Inr tx" and "fresh q" and "distinct (map fst (tb_amounts q))"
  obtains b where "careful q b" and "build A b = Inr tx"
  using assms select_outgoing_careful [OF _ assms(2,3)] align_outgoing_careful pad_alignment_output_careful
    add_value_careful strip_value_careful deduct_fee_careful
  unfolding build_transaction_def res_bind_eq_Inr by metis

section \<open>What the assertions establish\<close>

lemma assert_that_Inr [res_simps]: "assert_that P = Inr u \<longleftrightarrow> P"
  by (simp add: assert_that_def)

lemma amount_Inr [res_simps]:
  "amount_add a b = Inr c \<longleftrightarrow> c = a + b \<and> a + b \<le> u64_max"
  "amount_sub a b = Inr c \<longleftrightarrow> c = a - b \<and> b \<le> a"
  "amount_of amounts p = Inr c \<longleftrightarrow> map_of amounts p = Some c"
  by (auto simp: amount_add_def amount_sub_def amount_of_def res_simps)

lemma input_position_Some:
  assumes "(input_position amounts outgoing is acc :: 'a builder_error + u64 option) = Inr (Some s)"
  shows "\<exists>P Q. map ti_previous_output is = P @ sp_outpoint outgoing # Q \<and> s = acc + paid amounts P + sp_offset outgoing"
  using assms
proof (induction "is" arbitrary: acc)
  case Nil
  then show ?case by simp
next
  case (Cons i "is")
  show ?case
  proof (cases "ti_previous_output i = sp_outpoint outgoing")
    case True
    with Cons.prems show ?thesis
      by (intro exI [of _ "[]"] exI [of _ "map ti_previous_output is"]) (auto simp: res_simps)
  next
    case False
    with Cons.prems obtain v where v: "map_of amounts (ti_previous_output i) = Some v"
      and rest: "(input_position amounts outgoing is (acc + v) :: 'a builder_error + u64 option) = Inr (Some s)"
      by (auto simp: res_simps)
    from Cons.IH [OF rest] obtain P Q where
      "map ti_previous_output is = P @ sp_outpoint outgoing # Q" "s = acc + v + paid amounts P + sp_offset outgoing"
      by blast
    then show ?thesis using v by (intro exI [of _ "ti_previous_output i # P"] exI [of _ Q]) (simp add: val_def)
  qed
qed

lemma check_outputs_recipient:
  assumes "check_outputs A b s (pre @ out # post) acc = Inr ()" and "txo_script out = script_pubkey A (tb_recipient b)"
  shows "s = acc + sum_list (map txo_amount pre)"
  using assms
proof (induction pre arbitrary: acc)
  case Nil
  then show ?case by (auto simp: res_simps)
next
  case (Cons x pre)
  then have "check_outputs A b s (pre @ out # post) (acc + txo_amount x) = Inr ()" by (auto simp: res_simps)
  from Cons.IH [OF this Cons.prems(2)] show ?case by simp
qed

lemma actual_fee_Inr:
  assumes "(actual_fee amounts tx :: 'a builder_error + u64) = Inr f"
  shows "sum_list (map txo_amount (wt_output tx)) + f = paid amounts (map ti_previous_output (wt_input tx))"
proof -
  let ?step = "\<lambda>tx_in total. res_bind (amount_of amounts (ti_previous_output tx_in) :: 'a builder_error + u64) (amount_add total)"
  have i: "res_fold ?step is acc = Inr t \<Longrightarrow>
      t = acc + paid amounts (map ti_previous_output is)" for acc t "is"
  proof (induction "is" arbitrary: acc)
    case (Cons i "is")
    then obtain v where "map_of amounts (ti_previous_output i) = Some v"
      and rest: "res_fold ?step is (acc + v) = Inr t"
      by (auto simp: res_simps)
    with Cons.IH [OF rest] show ?case by (simp add: val_def)
  qed simp
  have o: "res_fold (\<lambda>out total. amount_sub total (txo_amount out) :: 'a builder_error + u64) os t = Inr f \<Longrightarrow>
      sum_list (map txo_amount os) + f = t" for t os
  proof (induction os arbitrary: t)
    case (Cons out os)
    then have le: "txo_amount out \<le> t"
      and rest: "res_fold (\<lambda>out total. amount_sub total (txo_amount out) :: 'a builder_error + u64) os (t - txo_amount out) = Inr f"
      by (auto simp: res_simps)
    from Cons.IH [OF rest] le show ?case by simp
  qed simp
  from assms show ?thesis by (auto simp: actual_fee_def res_simps dest!: i o)
qed

lemma build_asserts:
  fixes b :: "'a transaction_builder"
  assumes "build A b = Inr tx"
  obtains s where "tx = unsigned_tx A b"
    and "input_position (tb_amounts b) (tb_outgoing b) (wt_input tx) 0 = (Inr (Some s) :: 'a builder_error + _)"
    and "count_where (\<lambda>out. txo_script out = script_pubkey A (tb_recipient b)) (wt_output tx) = 1"
    and "check_outputs A b s (wt_output tx) 0 = Inr ()"
    and "actual_fee (tb_amounts b) tx = (Inr (fee (tb_fee_rate b) (vsize A (sign_inputs tx))) :: 'a builder_error + _)"
    and "\<forall>out\<in>set (wt_output tx). dust_value A (txo_script out) \<le> txo_amount out"
  using assms by (auto simp: build_def Let_def res_simps)

section \<open>Properties\<close>

lemma builder_new_Inr:
  assumes "builder_new outgoing inscriptions amounts dunic recipient change rate target = Inr q"
  shows "fresh q" "tb_amounts q = amounts" "tb_outgoing q = outgoing" "tb_recipient q = recipient"
    "tb_change_addresses q = [fst change, snd change]" "tb_fee_rate q = rate" "tb_target q = target"
    "tb_inscriptions q = inscriptions" "tb_dunic_utxos q = dunic"
    "distinct [recipient, fst change, snd change]"
  using assms by (auto simp: builder_new_def fresh_def split: if_splits)

lemma builder_new_request:
  assumes "builder_new outgoing inscriptions amounts dunic recipient change (FeeRate (of_nat r)) target = Inr q"
    and "r < 2 ^ 40" and "addresses_ok A recipient [fst change, snd change]"
    and "sizes_ok A [recipient, fst change, snd change]" and "wallet_ok amounts (sp_outpoint outgoing)"
    and "case target of Postage \<Rightarrow> True | Value v \<Rightarrow> dust_value A (script_pubkey A recipient) \<le> v"
  shows "request_ok A r q"
  using assms(2-) builder_new_Inr [OF assms(1)] by (simp add: request_ok_def split: target.splits)

text \<open>
  C12: with a whole number \<open>r\<close> of sats per byte, the builder never panics, so none of its assertions
  fires: it returns a transaction that sends the outgoing sat to the recipient, as the first sat of the
  recipient's output and with the value asked for, spends besides only cardinal outputs of the wallet,
  pays exactly the fee of the signed transaction and has no dust; or it returns an error that the
  request or the wallet accounts for.
\<close>

theorem transaction_builder_sound:
  assumes "builder_new outgoing inscriptions amounts dunic recipient change (FeeRate (of_nat r)) target = Inr q"
    and "r < 2 ^ 40" and "addresses_ok A recipient [fst change, snd change]"
    and "sizes_ok A [recipient, fst change, snd change]" and "wallet_ok amounts (sp_outpoint outgoing)"
    and "case target of Postage \<Rightarrow> True | Value v \<Rightarrow> dust_value A (script_pubkey A recipient) \<le> v"
  shows "case build_transaction A q of
      Inr tx \<Rightarrow> sends_sat A r q tx
    | Inl e \<Rightarrow> explained A r q e"
  using pipeline_sound [OF builder_new_request [OF assms] builder_new_Inr(1) [OF assms(1)]]
  by (simp add: sound_def)

lemma funded_succeeds:
  assumes ok: "request_ok A r q" and new: "fresh q" and "funded A r q"
    and "map_of (tb_amounts q) (sp_outpoint (tb_outgoing q)) = Some a" and "sp_offset (tb_outgoing q) < a"
    and "\<forall>s i. (s, i) \<in> set (tb_inscriptions q) \<longrightarrow> sp_outpoint s = sp_outpoint (tb_outgoing q) \<longrightarrow> s = tb_outgoing q"
    and "\<forall>v. tb_target q = Value v \<longrightarrow> v + r * 1058 \<le> u64_max"
  obtains tx where "build_transaction A q = Inr tx" and "sends_sat A r q tx"
proof -
  have "\<not> explained A r q e" for e
  proof
    assume e: "explained A r q e"
    show False
    proof (cases e)
      case (NotInWallet p)
      with e have "map_of (tb_amounts q) (sp_outpoint (tb_outgoing q)) = None" by (auto simp: map_of_eq_None_iff)
      with assms(4) show False by simp
    next
      case ValueOverflow
      with e assms(7) show False by (auto simp: not_le [symmetric])
    qed (use e assms in auto)
  qed
  then show ?thesis using pipeline_sound [OF ok new] that by (cases "build_transaction A q") auto
qed

text \<open>
  C14: a request to send a value succeeds when the outgoing sat exists, its output carries no other
  inscription, and the wallet has two further cardinal outputs that can each pay for the value,
  the dust limit and a fee for 1058 bytes.
\<close>

theorem funded_send_succeeds:
  assumes "builder_new outgoing inscriptions amounts dunic recipient change (FeeRate (of_nat r)) (Value v) = Inr q"
    and "r < 2 ^ 40" and "addresses_ok A recipient [fst change, snd change]"
    and "sizes_ok A [recipient, fst change, snd change]" and "wallet_ok amounts (sp_outpoint outgoing)"
    and "dust_value A (script_pubkey A recipient) \<le> v" and "v + r * 1058 \<le> u64_max"
    and "map_of amounts (sp_outpoint outgoing) = Some a" and "sp_offset outgoing < a"
    and "\<forall>s i. (s, i) \<in> set inscriptions \<longrightarrow> sp_outpoint s = sp_outpoint outgoing \<longrightarrow> s = outgoing"
    and "funded A r q"
  shows "\<exists>tx. build_transaction_with_value A outgoing inscriptions amounts dunic recipient change
      (FeeRate (of_nat r)) v = Inr tx \<and> sends_sat A r q tx"
proof -
  have "request_ok A r q" by (rule builder_new_request [OF assms(1-5)]) (simp add: assms(6))
  moreover note new = builder_new_Inr [OF assms(1)]
  ultimately obtain tx where "build_transaction A q = Inr tx" "sends_sat A r q tx"
    using funded_succeeds [of A r q a] assms(7-11) by (auto simp: new)
  with assms(1,6) show ?thesis by (simp add: build_transaction_with_value_def)
qed

text \<open>
  C13: whatever the fee rate, the dust limits and the sizes, a transaction the builder returns spends
  the outgoing output and besides only cardinal outputs of the wallet, none twice; the outgoing sat is
  the first sat of the recipient's output; what the inputs hold and the outputs do not is exactly the
  fee for the signed transaction; and no output is dust.
\<close>

theorem spends_only_cardinals:
  assumes "builder_new outgoing inscriptions amounts dunic recipient change rate target = Inr q"
    and "distinct (map fst amounts)" and "build_transaction A q = Inr tx"
  shows "\<exists>P Q pre out post.
    map ti_previous_output (wt_input tx) = P @ sp_outpoint outgoing # Q \<and>
    distinct (P @ sp_outpoint outgoing # Q) \<and> (\<forall>p\<in>set (P @ Q). cardinal q p) \<and>
    wt_output tx = pre @ out # post \<and> txo_script out = script_pubkey A recipient \<and>
    sum_list (map txo_amount pre) = paid amounts P + sp_offset outgoing \<and>
    sum_list (map txo_amount (wt_output tx)) + fee rate (vsize A (sign_inputs tx)) =
      paid amounts (map ti_previous_output (wt_input tx)) \<and>
    (\<forall>out\<in>set (wt_output tx). dust_value A (txo_script out) \<le> txo_amount out)"
proof -
  note new = builder_new_Inr [OF assms(1)]
  obtain b where b: "careful q b" and build: "build A b = Inr tx"
    using build_transaction_careful [OF assms(3) new(1)] assms(2) new(2) by metis
  have req: "tb_amounts b = amounts" "tb_outgoing b = outgoing" "tb_recipient b = recipient" "tb_fee_rate b = rate"
    using b new by (simp_all add: careful_def same_request_def)
  from build_asserts [OF build] obtain s where tx: "tx = unsigned_tx A b"
    and pos: "input_position amounts outgoing (wt_input tx) 0 = (Inr (Some s) :: 'a builder_error + _)"
    and one: "count_where (\<lambda>out. txo_script out = script_pubkey A recipient) (wt_output tx) = 1"
    and outs: "check_outputs A b s (wt_output tx) 0 = Inr ()"
    and fee: "actual_fee amounts tx = (Inr (fee rate (vsize A (sign_inputs tx))) :: 'a builder_error + _)"
    and dust: "\<forall>out\<in>set (wt_output tx). dust_value A (txo_script out) \<le> txo_amount out"
    unfolding req .
  obtain P Q where ins: "map ti_previous_output (wt_input tx) = P @ sp_outpoint outgoing # Q"
    and s: "s = paid amounts P + sp_offset outgoing"
    using input_position_Some [OF pos] by auto
  have inputs: "tb_inputs b = P @ sp_outpoint outgoing # Q" using ins by (simp add: tx unsigned_tx_def comp_def)
  have "filter (\<lambda>out. txo_script out = script_pubkey A recipient) (wt_output tx) \<noteq> []"
    using one by (auto simp: count_where_def)
  then obtain out where out: "out \<in> set (wt_output tx)" "txo_script out = script_pubkey A recipient"
    by (auto simp: filter_empty_conv)
  then obtain pre post where split: "wt_output tx = pre @ out # post" by (meson split_list)
  have "s = sum_list (map txo_amount pre)"
    using check_outputs_recipient [of A b s pre out post 0] outs out(2) by (simp add: split req)
  moreover have d: "distinct (P @ sp_outpoint outgoing # Q)" using b inputs by (auto simp: careful_def)
  moreover have "\<forall>p\<in>set (P @ Q). cardinal q p"
  proof
    fix p assume p: "p \<in> set (P @ Q)"
    with d have "p \<noteq> sp_outpoint outgoing" by auto
    with b p inputs new(3) show "cardinal q p" by (auto simp: careful_def)
  qed
  ultimately show ?thesis
    using ins split out(2) s actual_fee_Inr [OF fee] dust by (intro exI) auto
qed

section \<open>Witnesses\<close>

text \<open>
  A wallet to try the properties on: addresses are numbers with 25-byte scripts, and the virtual size
  is a quarter of the weight of BIP 141.
\<close>

definition bip141_vsize :: "wallet_tx \<Rightarrow> usize" where
  "bip141_vsize tx =
    (4 * (10 + sum_list (map (\<lambda>i. 41 + length (ti_script_sig i)) (wt_input tx)) +
          sum_list (map (\<lambda>out. 9 + length (txo_script out)) (wt_output tx))) +
     2 + sum_list (map (\<lambda>i. 1 + sum_list (map (\<lambda>w. 1 + length w) (ti_witness i))) (wt_input tx)) + 3) div 4"

definition sample_api :: "nat wallet_api" where
  "sample_api = \<lparr>script_pubkey = (\<lambda>a. replicate 25 (of_nat a)), dust_value = (\<lambda>_. 546), vsize = bip141_vsize\<rparr>"

lemma bip141_shape:
  "bip141_vsize tx = (let (ins, outs) = tx_shape tx in
    (4 * (10 + sum_list (map (\<lambda>(s, w). 41 + s) ins) + sum_list (map ((+) 9) outs)) +
     2 + sum_list (map (\<lambda>(s, w). 1 + sum_list (map ((+) 1) w)) ins) + 3) div 4)"
  by (simp add: bip141_vsize_def tx_shape_def comp_def)

lemma sample_estimate:
  "estimate_vbytes_with sample_api n os = (230 * n + 136 * length os + 45) div 4"
  by (simp add: estimate_vbytes_with_def sample_api_def bip141_vsize_def signature_witness_def
      SCHNORR_SIGNATURE_SIZE_def sum_list_replicate comp_def sum_list_triv algebra_simps)

lemma sample_sizes_ok: "sizes_ok sample_api addresses"
proof -
  have "vsize sample_api = bip141_vsize" by (simp add: sample_api_def)
  then show ?thesis by (auto simp: sizes_ok_def sample_estimate bip141_shape)
qed

definition sample_outpoint :: "nat \<Rightarrow> outpoint" where
  "sample_outpoint n = \<lparr>op_txid = replicate 32 0, op_vout = n\<rparr>"

definition sample_amounts :: "(outpoint \<times> u64) list" where
  "sample_amounts = [(sample_outpoint 1, 5000), (sample_outpoint 2, 100000), (sample_outpoint 3, 200000)]"

definition sample_outgoing :: sat_point where
  "sample_outgoing = \<lparr>sp_outpoint = sample_outpoint 1, sp_offset = 300\<rparr>"

definition sample_builder :: "target \<Rightarrow> nat transaction_builder" where
  "sample_builder target =
    \<lparr>tb_amounts = sample_amounts, tb_change_addresses = [1, 2], tb_fee_rate = FeeRate (of_nat 3), tb_inputs = [],
     tb_inscriptions = [], tb_outgoing = sample_outgoing, tb_outputs = [], tb_recipient = 0, tb_dunic_utxos = [],
     tb_unused_change_addresses = [1, 2], tb_utxos = [sample_outpoint 1, sample_outpoint 2, sample_outpoint 3],
     tb_target = target\<rparr>"

lemma sample_new:
  "builder_new sample_outgoing [] sample_amounts [] 0 (1, 2) (FeeRate (of_nat 3)) target = Inr (sample_builder target)"
  by (simp add: builder_new_def sample_builder_def sample_amounts_def)

lemma sample_addresses_ok: "addresses_ok sample_api 0 [1, 2]"
  by (simp add: addresses_ok_def sample_api_def)

lemma sample_wallet_ok: "wallet_ok sample_amounts (sp_outpoint sample_outgoing)"
  by (simp add: wallet_ok_def sample_amounts_def sample_outgoing_def sample_outpoint_def)

lemma sample_funded: "funded sample_api 3 (sample_builder (Value 20000))"
  unfolding funded_def
  by (rule exI [of _ "sample_outpoint 2"], rule exI [of _ "sample_outpoint 3"])
    (simp add: cardinal_def enough_def val_def sample_builder_def sample_amounts_def sample_outgoing_def
      sample_outpoint_def sample_api_def)

theorem transaction_builder_sound_witness:
  "case build_transaction sample_api (sample_builder Postage) of
      Inr tx \<Rightarrow> sends_sat sample_api 3 (sample_builder Postage) tx
    | Inl e \<Rightarrow> explained sample_api 3 (sample_builder Postage) e"
  using transaction_builder_sound [OF sample_new, where A = sample_api] sample_addresses_ok sample_sizes_ok sample_wallet_ok
  by simp

theorem funded_send_succeeds_witness:
  "\<exists>tx. build_transaction_with_value sample_api sample_outgoing [] sample_amounts [] 0 (1, 2)
      (FeeRate (of_nat 3)) 20000 = Inr tx \<and> sends_sat sample_api 3 (sample_builder (Value 20000)) tx"
  by (rule funded_send_succeeds [OF sample_new, where a = 5000])
    (use sample_addresses_ok sample_sizes_ok sample_wallet_ok sample_funded in
      \<open>simp_all add: sample_api_def width_defs sample_amounts_def sample_outgoing_def\<close>)

theorem spends_only_cardinals_witness:
  "\<exists>tx P Q. build_transaction sample_api (sample_builder (Value 20000)) = Inr tx \<and>
    map ti_previous_output (wt_input tx) = P @ sample_outpoint 1 # Q \<and>
    (\<forall>p\<in>set (P @ Q). cardinal (sample_builder (Value 20000)) p)"
proof -
  have ok: "request_ok sample_api 3 (sample_builder (Value 20000))"
    using sample_addresses_ok sample_sizes_ok sample_wallet_ok
    by (intro builder_new_request [OF sample_new]) (simp_all add: sample_api_def)
  obtain tx where tx: "build_transaction sample_api (sample_builder (Value 20000)) = Inr tx"
  proof (rule funded_succeeds [OF ok builder_new_Inr(1) [OF sample_new] sample_funded])
    show "map_of (tb_amounts (sample_builder (Value 20000))) (sp_outpoint (tb_outgoing (sample_builder (Value 20000)))) = Some 5000"
      by (simp add: sample_builder_def sample_amounts_def sample_outgoing_def)
  qed (auto simp: sample_builder_def sample_outgoing_def width_defs)
  moreover have "distinct (map fst sample_amounts)" using sample_wallet_ok by (simp add: wallet_ok_def)
  ultimately show ?thesis
    using spends_only_cardinals [OF sample_new _ tx] unfolding sample_outgoing_def by auto
qed

end
