(* ===== verification/Inscription_Updater.thy ===== *)
theory Inscription_Updater
  imports Drc20 Sat
begin

text \<open>
  Where inscriptions are (\<open>src/index/updater/inscription_updater.rs\<close>, with the journal rows of
  \<open>src/index/dogemap_feed.rs\<close>), as built without the feature \<open>tap\<close>. A transaction's inscriptions are
  collected from its inputs, with their offset among the sats of all inputs; a new one may be revealed
  by the script of the first input, alone or as the end of a chain of partial reveals. They are then
  laid out over the outputs by offset. What falls into the fee floats (\<open>flotsam\<close>) until the coinbase
  transaction, which is indexed last.

  Tables are association lists with distinct keys. The rows of one output come out of the table
  \<open>satpoint_to_id\<close> in the order of their stored keys; the updater sorts them by offset, and no two
  rows of one output have the same offset, so the order of the list does not matter. How transactions
  are serialized and what address a script has is the bitcoin library's: the record \<open>chain_api\<close>.
\<close>

section \<open>Transactions\<close>

record chain_tx =
  ct_input :: "(outpoint \<times> byte list) list"
  ct_output :: "(u64 \<times> byte list) list"

record chain_api =
  consensus_encode :: "chain_tx \<Rightarrow> byte list"
  consensus_decode :: "byte list \<Rightarrow> chain_tx option"
  script_address :: "byte list \<Rightarrow> rchar list option"

section \<open>The journal\<close>

datatype journal_kind = Creation | Transfer

datatype journal_destination = Assigned sat_point u64 "byte list" | Lost sat_point

record journal_record =
  jr_kind :: journal_kind
  jr_inscription_id :: inscription_id
  jr_inscription_number :: u64
  jr_from :: sat_point
  jr_to :: journal_destination
  jr_txid :: txid
  jr_tx_index :: u32

definition UNKNOWN_NUMBER :: u64 where "UNKNOWN_NUMBER = u64_max"

definition PREFILTER_MAX_BODY_BYTES :: usize where "PREFILTER_MAX_BODY_BYTES = 64"

definition dogemap_suffix :: "byte list" where
  "dogemap_suffix = [0x2e, 0x64, 0x6f, 0x67, 0x65, 0x6d, 0x61, 0x70]"

definition ascii_lower :: "byte \<Rightarrow> byte" where
  "ascii_lower b = (if 65 \<le> unat b \<and> unat b \<le> 90 then b + 32 else b)"

definition windows :: "nat \<Rightarrow> 'a list \<Rightarrow> 'a list list" where
  "windows n xs = map (\<lambda>i. take n (drop i xs)) [0..<Suc (length xs) - n]"

definition candidate_prefilter :: "byte list \<Rightarrow> bool" where
  "candidate_prefilter body \<longleftrightarrow> 1 \<le> length body \<and> length body \<le> PREFILTER_MAX_BODY_BYTES \<and>
    (\<exists>window\<in>set (windows (length dogemap_suffix) body). map ascii_lower window = map ascii_lower dogemap_suffix)"

section \<open>State\<close>

datatype origin = New u64 inscription | Old sat_point

record flotsam =
  fl_txid :: txid
  fl_tx_index :: u32
  fl_inscription_id :: inscription_id
  fl_offset :: u64
  fl_old_satpoint :: sat_point
  fl_origin :: origin

record inscription_updater =
  iu_flotsam :: "flotsam list"
  iu_operations :: "(txid, inscription_op list) hashmap"
  iu_height :: u32
  iu_id_to_satpoint :: "(inscription_id, sat_point) hashmap"
  iu_id_to_txids :: "(byte list, byte list) hashmap"
  iu_txid_to_tx :: "(txid, byte list) hashmap"
  iu_partial_txid_to_txids :: "(txid, byte list) hashmap"
  iu_value_receiver :: "u64 list"
  iu_index_transactions :: bool
  iu_transaction_id_to_transaction :: "(txid, byte list) hashmap"
  iu_id_to_entry :: "(inscription_id, inscription_entry_value) hashmap"
  iu_lost_sats :: u64
  iu_next_number :: u64
  iu_number_to_id :: "(u64, inscription_id) hashmap"
  iu_outpoint_to_value :: "(outpoint, u64) hashmap"
  iu_outpoint_to_address :: "(outpoint, rchar list) hashmap"
  iu_address_to_outpoint :: "(rchar list \<times> outpoint) list"
  iu_reward :: u64
  iu_sat_to_inscription_id :: "(u64, inscription_id) hashmap"
  iu_satpoint_to_id :: "(sat_point, inscription_id) hashmap"
  iu_timestamp :: u32
  iu_value_cache :: "(outpoint, u64 \<times> rchar list) hashmap"
  iu_current_txid :: txid
  iu_current_tx_index :: u32
  iu_journal :: "journal_record list"

datatype updater_error =
    UpdaterPanic rust_panic
  | FailedToGetTransaction txid
  | DecodeError
  | MissingOutput outpoint
  | IndexTooLarge
  | InsufficientInputs
  | OutpointNotInIndex outpoint

abbreviation iu_panic :: "'a may_panic \<Rightarrow> updater_error + 'a" where
  "iu_panic \<equiv> lift_panic UpdaterPanic"

abbreviation u64_add :: "u64 \<Rightarrow> u64 \<Rightarrow> updater_error + u64" where
  "u64_add a b \<equiv> iu_panic (add_or_panic u64_max a b)"

abbreviation u64_sub :: "u64 \<Rightarrow> u64 \<Rightarrow> updater_error + u64" where
  "u64_sub a b \<equiv> iu_panic (sub_or_panic a b)"

section \<open>Moving an inscription\<close>

definition journal_to :: "chain_tx \<Rightarrow> sat_point \<Rightarrow> updater_error + journal_destination" where
  "journal_to tx satpoint =
    (if sp_outpoint satpoint = null_outpoint then Inr (Lost satpoint)
     else case slice_get (ct_output tx) (op_vout (sp_outpoint satpoint)) of
       None \<Rightarrow> Inl (MissingOutput (sp_outpoint satpoint))
     | Some (v, script) \<Rightarrow> Inr (Assigned satpoint v script))"

text \<open>\<open>JournalRecorder::creation\<close> and \<open>JournalRecorder::transfer\<close>.\<close>

definition journal_creation :: "inscription \<Rightarrow> inscription_id \<Rightarrow> u64 \<Rightarrow> sat_point \<Rightarrow> journal_destination \<Rightarrow>
    txid \<Rightarrow> u32 \<Rightarrow> journal_record list \<Rightarrow> journal_record list" where
  "journal_creation insc i number from to txid tx_index records =
    (if candidate_prefilter (case i_body insc of None \<Rightarrow> [] | Some body \<Rightarrow> body)
     then records @ [\<lparr>jr_kind = Creation, jr_inscription_id = i, jr_inscription_number = number, jr_from = from,
       jr_to = to, jr_txid = txid, jr_tx_index = tx_index\<rparr>]
     else records)"

definition journal_transfer :: "inscription_id \<Rightarrow> u64 option \<Rightarrow> sat_point \<Rightarrow> journal_destination \<Rightarrow>
    txid \<Rightarrow> u32 \<Rightarrow> journal_record list \<Rightarrow> journal_record list" where
  "journal_transfer i number from to txid tx_index records =
    records @ [\<lparr>jr_kind = Transfer, jr_inscription_id = i,
      jr_inscription_number = (case number of None \<Rightarrow> UNKNOWN_NUMBER | Some n \<Rightarrow> n), jr_from = from,
      jr_to = to, jr_txid = txid, jr_tx_index = tx_index\<rparr>]"

text \<open>The number of the sat at an offset of the input ranges, if the ranges reach that far.\<close>

fun sat_at_offset :: "(u64 \<times> u64) list \<Rightarrow> u64 \<Rightarrow> u64 \<Rightarrow> updater_error + u64 option" where
  "sat_at_offset [] target offset = Inr None"
| "sat_at_offset ((start, end') # rest) target offset =
    res_bind (u64_sub end' start) (\<lambda>size'.
    res_bind (u64_add offset size') (\<lambda>next.
    if target < next then
      res_bind (u64_add start target) (\<lambda>n. res_bind (u64_sub n offset) (\<lambda>n. Inr (Some n)))
    else sat_at_offset rest target next))"

definition entry_number :: "inscription_updater \<Rightarrow> inscription_id \<Rightarrow> u64 option" where
  "entry_number U i =
    map_option (\<lambda>v. ie_inscription_number (inscription_entry_load v)) (map_of (iu_id_to_entry U) i)"

text \<open>The first half of \<open>update_inscription_location\<close>: forget the old place, or number the new inscription.\<close>

definition register_origin :: "(u64 \<times> u64) list option \<Rightarrow> flotsam \<Rightarrow> inscription_updater \<Rightarrow>
    updater_error + inscription_updater" where
  "register_origin input_sat_ranges f U =
    (let i = fl_inscription_id f in
     case fl_origin f of
       Old old_satpoint \<Rightarrow> Inr (U\<lparr>iu_satpoint_to_id := AList.delete old_satpoint (iu_satpoint_to_id U)\<rparr>)
     | New fee insc \<Rightarrow>
         let U = U\<lparr>iu_number_to_id := hm_insert (iu_next_number U) i (iu_number_to_id U)\<rparr> in
         res_bind (case input_sat_ranges of None \<Rightarrow> Inr None | Some ranges \<Rightarrow> sat_at_offset ranges (fl_offset f) 0) (\<lambda>sat.
         let U = (case sat of None \<Rightarrow> U
                  | Some n \<Rightarrow> U\<lparr>iu_sat_to_inscription_id := hm_insert n i (iu_sat_to_inscription_id U)\<rparr>);
             entry = \<lparr>ie_fee = fee, ie_height = iu_height U, ie_inscription_number = iu_next_number U, ie_sat = sat,
               ie_sequence_number = 0, ie_timestamp = iu_timestamp U\<rparr>
         in res_bind (u64_add (iu_next_number U) 1) (\<lambda>next.
            Inr (U\<lparr>iu_id_to_entry := hm_insert i (inscription_entry_store entry) (iu_id_to_entry U),
                   iu_next_number := next\<rparr>))))"

definition location_op :: "flotsam \<Rightarrow> sat_point \<Rightarrow> inscription_updater \<Rightarrow> inscription_op" where
  "location_op f new_satpoint U =
    \<lparr>io_txid = fl_txid f,
     io_action = (case fl_origin f of Old _ \<Rightarrow> TransferAction | New _ insc \<Rightarrow> NewAction insc),
     io_inscription_number = entry_number U (fl_inscription_id f), io_inscription_id = fl_inscription_id f,
     io_old_satpoint = fl_old_satpoint f, io_new_satpoint = Some new_satpoint\<rparr>"

definition push_op :: "txid \<Rightarrow> inscription_op \<Rightarrow> (txid, inscription_op list) hashmap \<Rightarrow> (txid, inscription_op list) hashmap" where
  "push_op txid op ops = hm_insert txid ((case map_of ops txid of None \<Rightarrow> [] | Some xs \<Rightarrow> xs) @ [op]) ops"

definition update_inscription_location :: "(u64 \<times> u64) list option \<Rightarrow> flotsam \<Rightarrow> sat_point \<Rightarrow> chain_tx \<Rightarrow>
    inscription_updater \<Rightarrow> updater_error + inscription_updater" where
  "update_inscription_location input_sat_ranges f new_satpoint tx U =
    res_bind (register_origin input_sat_ranges f U) (\<lambda>U.
    let U = U\<lparr>iu_operations := push_op (fl_txid f) (location_op f new_satpoint U) (iu_operations U)\<rparr> in
    res_bind (journal_to tx new_satpoint) (\<lambda>to.
    res_bind
      (case fl_origin f of
         Old _ \<Rightarrow> Inr (journal_transfer (fl_inscription_id f) (entry_number U (fl_inscription_id f)) (fl_old_satpoint f)
           to (iu_current_txid U) (iu_current_tx_index U) (iu_journal U))
       | New _ insc \<Rightarrow>
           res_bind (u64_sub (iu_next_number U) 1) (\<lambda>number.
           Inr (journal_creation insc (fl_inscription_id f) number (fl_old_satpoint f) to (fl_txid f) (fl_tx_index f)
             (iu_journal U)))) (\<lambda>journal.
    Inr (U\<lparr>iu_journal := journal,
           iu_satpoint_to_id := hm_insert new_satpoint (fl_inscription_id f) (iu_satpoint_to_id U),
           iu_id_to_satpoint := hm_insert (fl_inscription_id f) new_satpoint (iu_id_to_satpoint U)\<rparr>))))"

section \<open>Indexing a transaction\<close>

text \<open>
  The value of a spent output: from the cache, from the table, or from the thread that fetches values
  the index does not have, in the order they were asked for (an empty list is a closed channel).
\<close>

definition remove_address :: "rchar list \<Rightarrow> outpoint \<Rightarrow> inscription_updater \<Rightarrow> inscription_updater" where
  "remove_address address outpoint U =
    U\<lparr>iu_address_to_outpoint := removeAll (address, outpoint) (iu_address_to_outpoint U)\<rparr>"

definition forget_address :: "chain_api \<Rightarrow> outpoint \<Rightarrow> inscription_updater \<Rightarrow> updater_error + inscription_updater" where
  "forget_address A outpoint U =
    (case map_of (iu_outpoint_to_address U) outpoint of
       Some address \<Rightarrow>
         Inr (remove_address address outpoint
           (U\<lparr>iu_outpoint_to_address := AList.delete outpoint (iu_outpoint_to_address U)\<rparr>))
     | None \<Rightarrow>
         (case map_of (iu_transaction_id_to_transaction U) (op_txid outpoint) of
            None \<Rightarrow> Inr U
          | Some bytes \<Rightarrow>
              res_bind (ok_or DecodeError (consensus_decode A bytes)) (\<lambda>tx.
              res_bind (iu_panic (index_or_panic (ct_output tx) (op_vout outpoint))) (\<lambda>out.
              case script_address A (snd out) of
                None \<Rightarrow> Inr U
              | Some address \<Rightarrow> Inr (remove_address address outpoint U)))))"

definition take_value :: "chain_api \<Rightarrow> outpoint \<Rightarrow> inscription_updater \<Rightarrow> updater_error + u64 \<times> inscription_updater" where
  "take_value A outpoint U =
    (case map_of (iu_value_cache U) outpoint of
       Some (v, _) \<Rightarrow> Inr (v, U\<lparr>iu_value_cache := AList.delete outpoint (iu_value_cache U)\<rparr>)
     | None \<Rightarrow>
         (case map_of (iu_outpoint_to_value U) outpoint of
            Some v \<Rightarrow>
              res_bind (forget_address A outpoint (U\<lparr>iu_outpoint_to_value := AList.delete outpoint (iu_outpoint_to_value U)\<rparr>))
                (\<lambda>U. Inr (v, U))
          | None \<Rightarrow>
              (case iu_value_receiver U of
                 [] \<Rightarrow> Inl (FailedToGetTransaction (op_txid outpoint))
               | v # rest \<Rightarrow> Inr (v, U\<lparr>iu_value_receiver := rest\<rparr>))))"

definition inscriptions_on_output :: "(sat_point, inscription_id) hashmap \<Rightarrow> outpoint \<Rightarrow> (sat_point \<times> inscription_id) list" where
  "inscriptions_on_output satpoint_to_id outpoint = filter (\<lambda>(p, i). sp_outpoint p = outpoint) satpoint_to_id"

text \<open>The loop over the inputs: floating inscriptions and the value that has gone in.\<close>

fun spent_inscriptions :: "txid \<Rightarrow> u32 \<Rightarrow> u64 \<Rightarrow> (sat_point \<times> inscription_id) list \<Rightarrow> updater_error + flotsam list" where
  "spent_inscriptions txid tx_index input_value [] = Inr []"
| "spent_inscriptions txid tx_index input_value ((p, i) # rows) =
    res_bind (u64_add input_value (sp_offset p)) (\<lambda>offset.
    res_bind (spent_inscriptions txid tx_index input_value rows) (\<lambda>fs.
    Inr (\<lparr>fl_txid = txid, fl_tx_index = tx_index, fl_inscription_id = i, fl_offset = offset,
          fl_old_satpoint = p, fl_origin = Old p\<rparr> # fs)))"

fun scan_inputs :: "chain_api \<Rightarrow> sat_data \<Rightarrow> txid \<Rightarrow> u32 \<Rightarrow> (outpoint \<times> byte list) list \<Rightarrow> u64 \<Rightarrow> flotsam list \<Rightarrow>
    inscription_updater \<Rightarrow> updater_error + (u64 \<times> flotsam list) \<times> inscription_updater" where
  "scan_inputs A D txid tx_index [] input_value inscriptions U = Inr ((input_value, inscriptions), U)"
| "scan_inputs A D txid tx_index ((outpoint, _) # rest) input_value inscriptions U =
    (if outpoint = null_outpoint
     then res_bind (iu_panic (height_subsidy D (iu_height U))) (\<lambda>subsidy.
          res_bind (u64_add input_value subsidy) (\<lambda>input_value.
          scan_inputs A D txid tx_index rest input_value inscriptions U))
     else res_bind (spent_inscriptions txid tx_index input_value
              (inscriptions_on_output (iu_satpoint_to_id U) outpoint)) (\<lambda>fs.
          res_bind (take_value A outpoint U) (\<lambda>(v, U).
          res_bind (u64_add input_value v) (\<lambda>input_value.
          scan_inputs A D txid tx_index rest input_value (inscriptions @ fs) U))))"

text \<open>The transactions of a chain of partial reveals, whose txids are stored one after the other.\<close>

fun load_chain :: "chain_api \<Rightarrow> (txid, byte list) hashmap \<Rightarrow> txid list \<Rightarrow> updater_error + chain_tx list" where
  "load_chain A txid_to_tx [] = Inr []"
| "load_chain A txid_to_tx (txid # txids) =
    res_bind (iu_panic (unwrap (map_of txid_to_tx txid))) (\<lambda>bytes.
    res_bind (ok_or DecodeError (consensus_decode A bytes)) (\<lambda>tx.
    res_bind (load_chain A txid_to_tx txids) (\<lambda>txs. Inr (tx # txs))))"

definition output_sum :: "(u64 \<times> byte list) list \<Rightarrow> updater_error + u64" where
  "output_sum outs = res_fold (\<lambda>(v, _) total. u64_add total v) outs 0"

text \<open>
  What a transaction reveals when no inscription is at offset zero of its inputs: nothing, a further
  part of a chain, or a complete inscription, which floats at offset zero.
\<close>

definition reveal_complete :: "chain_tx \<Rightarrow> txid \<Rightarrow> u32 \<Rightarrow> u64 \<Rightarrow> outpoint \<Rightarrow> byte list \<Rightarrow> inscription \<Rightarrow> chain_api \<Rightarrow>
    inscription_updater \<Rightarrow> updater_error + flotsam list \<times> inscription_updater" where
  "reveal_complete tx txid tx_index input_value previous txids_vec insc A U =
    (let txids = txids_vec @ txid;
         U = U\<lparr>iu_partial_txid_to_txids := AList.delete (op_txid previous) (iu_partial_txid_to_txids U),
               iu_txid_to_tx := hm_insert txid (consensus_encode A tx) (iu_txid_to_tx U),
               iu_id_to_txids := hm_insert (take 32 txids @ replicate 4 0) txids (iu_id_to_txids U)\<rparr>
     in res_bind (output_sum (ct_output tx)) (\<lambda>total.
        res_bind (u64_sub input_value total) (\<lambda>fee.
        Inr ([\<lparr>fl_txid = txid, fl_tx_index = tx_index,
               fl_inscription_id = \<lparr>ii_txid = take 32 txids, ii_index = 0\<rparr>, fl_offset = 0,
               fl_old_satpoint = \<lparr>sp_outpoint = previous, sp_offset = 0\<rparr>, fl_origin = New fee insc\<rparr>], U))))"

definition reveal :: "chain_api \<Rightarrow> chain_tx \<Rightarrow> txid \<Rightarrow> u32 \<Rightarrow> u64 \<Rightarrow> inscription_updater \<Rightarrow>
    updater_error + flotsam list \<times> inscription_updater" where
  "reveal A tx txid tx_index input_value U =
    res_bind (iu_panic (index_or_panic (ct_input tx) 0)) (\<lambda>first.
    let previous = fst first;
        stored = map_of (iu_partial_txid_to_txids U) (op_txid previous);
        txids_vec = (case stored of None \<Rightarrow> [] | Some txids \<Rightarrow> txids)
    in
    res_bind (load_chain A (iu_txid_to_tx U) (chunks_exact 32 txids_vec)) (\<lambda>txs.
    case from_transactions (map (map snd \<circ> ct_input) (txs @ [tx])) of
      ParsedNone \<Rightarrow> Inr ([], U)
    | Partial \<Rightarrow>
        Inr ([], U\<lparr>iu_partial_txid_to_txids := hm_insert txid (txids_vec @ txid)
                    (AList.delete (op_txid previous) (iu_partial_txid_to_txids U)),
                  iu_txid_to_tx := hm_insert txid (consensus_encode A tx) (iu_txid_to_tx U)\<rparr>)
    | Complete insc \<Rightarrow> reveal_complete tx txid tx_index input_value previous txids_vec insc A U))"

text \<open>Laying the inscriptions out: those before the end of an output move there.\<close>

fun place_on_output :: "(u64 \<times> u64) list option \<Rightarrow> chain_tx \<Rightarrow> outpoint \<Rightarrow> u64 \<Rightarrow> u64 \<Rightarrow> flotsam list \<Rightarrow>
    inscription_updater \<Rightarrow> updater_error + flotsam list \<times> inscription_updater" where
  "place_on_output ranges tx outpoint output_value end' [] U = Inr ([], U)"
| "place_on_output ranges tx outpoint output_value end' (f # fs) U =
    (if end' \<le> fl_offset f then Inr (f # fs, U)
     else res_bind (u64_sub (fl_offset f) output_value) (\<lambda>offset.
          res_bind (update_inscription_location ranges f \<lparr>sp_outpoint = outpoint, sp_offset = offset\<rparr> tx U)
            (place_on_output ranges tx outpoint output_value end' fs)))"

definition cached_address :: "chain_api \<Rightarrow> byte list \<Rightarrow> rchar list" where
  "cached_address A script =
    (case script_address A script of
       None \<Rightarrow> replicate 34 0
     | Some a \<Rightarrow> if length a = 34 then a else replicate 34 0)"

fun place_on_outputs :: "chain_api \<Rightarrow> (u64 \<times> u64) list option \<Rightarrow> chain_tx \<Rightarrow> txid \<Rightarrow> (u64 \<times> byte list) list \<Rightarrow> nat \<Rightarrow> u64 \<Rightarrow>
    flotsam list \<Rightarrow> inscription_updater \<Rightarrow> updater_error + (u64 \<times> flotsam list) \<times> inscription_updater" where
  "place_on_outputs A ranges tx txid [] vout output_value fs U = Inr ((output_value, fs), U)"
| "place_on_outputs A ranges tx txid ((v, script) # outs) vout output_value fs U =
    res_bind (u64_add output_value v) (\<lambda>end'.
    res_bind (iu_panic (unwrap (try_from u32_max vout))) (\<lambda>vout32.
    res_bind (place_on_output ranges tx \<lparr>op_txid = txid, op_vout = vout32\<rparr> output_value end' fs U) (\<lambda>(fs, U).
    let U = U\<lparr>iu_value_cache := hm_insert \<lparr>op_txid = txid, op_vout = vout32\<rparr> (v, cached_address A script) (iu_value_cache U)\<rparr>
    in place_on_outputs A ranges tx txid outs (Suc vout) end' fs U)))"

text \<open>What is left in the coinbase transaction is lost; in any other it floats on in the fee.\<close>

fun lose :: "(u64 \<times> u64) list option \<Rightarrow> chain_tx \<Rightarrow> u64 \<Rightarrow> flotsam list \<Rightarrow> inscription_updater \<Rightarrow>
    updater_error + inscription_updater" where
  "lose ranges tx output_value [] U = Inr U"
| "lose ranges tx output_value (f # fs) U =
    res_bind (u64_add (iu_lost_sats U) (fl_offset f)) (\<lambda>s.
    res_bind (u64_sub s output_value) (\<lambda>offset.
    res_bind (update_inscription_location ranges f \<lparr>sp_outpoint = null_outpoint, sp_offset = offset\<rparr> tx U)
      (lose ranges tx output_value fs)))"

fun refloat :: "u64 \<Rightarrow> u64 \<Rightarrow> flotsam list \<Rightarrow> updater_error + flotsam list" where
  "refloat reward output_value [] = Inr []"
| "refloat reward output_value (f # fs) =
    res_bind (u64_add reward (fl_offset f)) (\<lambda>s.
    res_bind (u64_sub s output_value) (\<lambda>offset.
    res_bind (refloat reward output_value fs) (\<lambda>fs. Inr (f\<lparr>fl_offset := offset\<rparr> # fs))))"

definition is_coinbase :: "chain_tx \<Rightarrow> bool" where
  "is_coinbase tx \<longleftrightarrow> (case ct_input tx of [] \<Rightarrow> False | (outpoint, _) # _ \<Rightarrow> outpoint = null_outpoint)"

definition index_transaction_inscriptions :: "chain_api \<Rightarrow> sat_data \<Rightarrow> chain_tx \<Rightarrow> txid \<Rightarrow> u32 \<Rightarrow>
    (u64 \<times> u64) list option \<Rightarrow> inscription_updater \<Rightarrow> updater_error + u64 \<times> inscription_updater" where
  "index_transaction_inscriptions A D tx txid tx_index input_sat_ranges U =
    (let U = U\<lparr>iu_current_txid := txid, iu_current_tx_index := tx_index\<rparr>;
         U = (if iu_index_transactions U
              then U\<lparr>iu_transaction_id_to_transaction :=
                hm_insert txid (consensus_encode A tx) (iu_transaction_id_to_transaction U)\<rparr>
              else U)
     in
     res_bind (scan_inputs A D txid tx_index (ct_input tx) 0 [] U) (\<lambda>((input_value, inscriptions), U).
     res_bind (if \<forall>f\<in>set inscriptions. fl_offset f \<noteq> 0 then reveal A tx txid tx_index input_value U else Inr ([], U)) (\<lambda>(new, U).
     let inscriptions = inscriptions @ new;
         inscriptions = (if is_coinbase tx then inscriptions @ iu_flotsam U else inscriptions);
         U = (if is_coinbase tx then U\<lparr>iu_flotsam := []\<rparr> else U)
     in
     res_bind (place_on_outputs A input_sat_ranges tx txid (ct_output tx) 0 0 (sort_key fl_offset inscriptions) U)
       (\<lambda>((output_value, rest), U).
     if is_coinbase tx then
       res_bind (lose input_sat_ranges tx output_value rest U) (\<lambda>U.
       res_bind (u64_sub (iu_reward U) output_value) (\<lambda>lost. Inr (lost, U)))
     else
       res_bind (refloat (iu_reward U) output_value rest) (\<lambda>fs.
       res_bind (u64_sub input_value output_value) (\<lambda>fee.
       res_bind (u64_add (iu_reward U) fee) (\<lambda>reward.
       Inr (0, U\<lparr>iu_flotsam := iu_flotsam U @ fs, iu_reward := reward\<rparr>))))))))"

section \<open>Indexing a block\<close>

text \<open>
  \<open>InscriptionUpdater::new\<close>: the tables are those of the previous state \<open>U\<close>; what belongs to one block
  starts afresh. The next number is one more than the last row of \<open>number_to_id\<close>.
\<close>

definition next_number_of :: "(u64, inscription_id) hashmap \<Rightarrow> updater_error + u64" where
  "next_number_of t = (if t = [] then Inr 0 else u64_add (foldr max (map fst t) 0) 1)"

definition inscription_updater_new :: "sat_data \<Rightarrow> u32 \<Rightarrow> u64 \<Rightarrow> u32 \<Rightarrow> u64 list \<Rightarrow> inscription_updater \<Rightarrow>
    updater_error + inscription_updater" where
  "inscription_updater_new D height lost_sats timestamp receiver U =
    res_bind (next_number_of (iu_number_to_id U)) (\<lambda>next_number.
    res_bind (iu_panic (height_subsidy D height)) (\<lambda>subsidy.
    Inr (U\<lparr>iu_flotsam := [], iu_operations := [], iu_height := height, iu_value_receiver := receiver,
           iu_lost_sats := lost_sats, iu_next_number := next_number, iu_reward := subsidy, iu_timestamp := timestamp,
           iu_current_txid := zero_txid, iu_current_tx_index := 0, iu_journal := []\<rparr>)))"

text \<open>The outpoints whose values the block's indexing asks the fetcher for, in order.\<close>

definition missing_inputs :: "(chain_tx \<times> txid) list \<Rightarrow> inscription_updater \<Rightarrow> outpoint list" where
  "missing_inputs txdata U =
    filter (\<lambda>prev_output. prev_output \<noteq> null_outpoint \<and> op_txid prev_output \<notin> snd ` set txdata \<and>
        map_of (iu_value_cache U) prev_output = None \<and> map_of (iu_outpoint_to_value U) prev_output = None)
      (concat (map (\<lambda>(tx, _). map fst (ct_input tx)) txdata))"

text \<open>The transactions in the order they are indexed, the coinbase transaction last.\<close>

definition indexing_order :: "'t list \<Rightarrow> (nat \<times> 't) list" where
  "indexing_order txdata = (let numbered = enumerate 0 txdata in drop 1 numbered @ take 1 numbered)"

definition index_inscriptions_of_block :: "chain_api \<Rightarrow> sat_data \<Rightarrow> (chain_tx \<times> txid) list \<Rightarrow> u64 \<Rightarrow>
    inscription_updater \<Rightarrow> updater_error + u64 \<times> inscription_updater" where
  "index_inscriptions_of_block A D txdata lost_sats U =
    res_fold (\<lambda>(tx_index, tx, txid) (lost_sats, U).
      res_bind (ok_or IndexTooLarge (try_from u32_max tx_index)) (\<lambda>tx_index.
      res_bind (index_transaction_inscriptions A D tx txid tx_index None U) (\<lambda>(lost, U).
      res_bind (u64_add lost_sats lost) (\<lambda>lost_sats. Inr (lost_sats, U)))))
    (indexing_order txdata) (lost_sats, U)"

end
