(* ===== verification/Sat_Index.thy ===== *)
theory Sat_Index
  imports Inscription_Updater
begin

text \<open>
  The sat index (\<open>index_sats\<close> of \<open>src/index/updater.rs\<close>): every output has the list of the ranges of sats
  it holds, eleven bytes a range, in a cache or, once committed, in a table. The ranges of the inputs of a
  transaction are handed to its outputs in order; what is left is the fee and goes, after the newly mined
  sats, to the coinbase transaction, and what the coinbase leaves is lost at the null outpoint. When
  inscriptions are indexed as well, each transaction's inscriptions are indexed with its ranges.
\<close>

section \<open>State\<close>

record sat_index =
  si_range_cache :: "(outpoint, byte list) hashmap"
  si_outpoint_to_sat_ranges :: "(outpoint, byte list) hashmap"
  si_sat_to_satpoint :: "(u64, sat_point) hashmap"
  si_sat_ranges_since_flush :: u64
  si_outputs_cached :: u64
  si_outputs_inserted_since_flush :: u64
  si_sat_ranges_written :: u64
  si_outputs_in_block :: u64

section \<open>Reading the ranges of the inputs\<close>

fun load_ranges :: "byte list list \<Rightarrow> updater_error + (u64 \<times> u64) list" where
  "load_ranges [] = Inr []"
| "load_ranges (chunk # rest) =
    res_bind (iu_panic (sat_range_load chunk)) (\<lambda>range.
    res_bind (load_ranges rest) (\<lambda>ranges. Inr (range # ranges)))"

definition take_ranges :: "outpoint \<Rightarrow> sat_index \<Rightarrow> updater_error + byte list \<times> sat_index" where
  "take_ranges key S =
    (case map_of (si_range_cache S) key of
       Some sat_ranges \<Rightarrow>
         res_bind (u64_add (si_outputs_cached S) 1) (\<lambda>n.
         Inr (sat_ranges, S\<lparr>si_range_cache := AList.delete key (si_range_cache S), si_outputs_cached := n\<rparr>))
     | None \<Rightarrow>
         (case map_of (si_outpoint_to_sat_ranges S) key of
            None \<Rightarrow> Inl (OutpointNotInIndex key)
          | Some sat_ranges \<Rightarrow>
              Inr (sat_ranges, S\<lparr>si_outpoint_to_sat_ranges := AList.delete key (si_outpoint_to_sat_ranges S)\<rparr>)))"

fun gather_ranges :: "outpoint list \<Rightarrow> sat_index \<Rightarrow> updater_error + (u64 \<times> u64) list \<times> sat_index" where
  "gather_ranges [] S = Inr ([], S)"
| "gather_ranges (key # keys) S =
    res_bind (take_ranges key S) (\<lambda>(sat_ranges, S).
    res_bind (load_ranges (chunks_exact 11 sat_ranges)) (\<lambda>ranges.
    res_bind (gather_ranges keys S) (\<lambda>(rest, S). Inr (ranges @ rest, S))))"

section \<open>Filling the outputs\<close>

definition note_uncommon :: "sat_data \<Rightarrow> u64 \<Rightarrow> sat_point \<Rightarrow> sat_index \<Rightarrow> updater_error + sat_index" where
  "note_uncommon D start satpoint S =
    res_bind (iu_panic (is_common D start)) (\<lambda>common.
    Inr (if common then S else S\<lparr>si_sat_to_satpoint := hm_insert start satpoint (si_sat_to_satpoint S)\<rparr>))"

text \<open>
  The loop over the ranges of one output. A range longer than what remains is split, its rest is put back
  and nothing remains.
\<close>

fun fill_output :: "sat_data \<Rightarrow> outpoint \<Rightarrow> u64 \<Rightarrow> u64 \<Rightarrow> (u64 \<times> u64) list \<Rightarrow> byte list \<Rightarrow> sat_index \<Rightarrow>
    updater_error + ((u64 \<times> u64) list \<times> byte list) \<times> sat_index" where
  "fill_output D outpoint output_value remaining [] sats S =
    (if remaining = 0 then Inr (([], sats), S) else Inl InsufficientInputs)"
| "fill_output D outpoint output_value remaining ((start, end') # rest) sats S =
    (if remaining = 0 then Inr (((start, end') # rest, sats), S)
     else
       res_bind (u64_sub output_value remaining) (\<lambda>offset.
       res_bind (note_uncommon D start \<lparr>sp_outpoint = outpoint, sp_offset = offset\<rparr> S) (\<lambda>S.
       res_bind (u64_sub end' start) (\<lambda>count.
       if count > remaining then
         res_bind (u64_add (si_sat_ranges_since_flush S) 1) (\<lambda>n.
         res_bind (u64_add start remaining) (\<lambda>middle.
         res_bind (iu_panic (sat_range_store (start, middle))) (\<lambda>bytes.
         res_bind (u64_add (si_sat_ranges_written S) 1) (\<lambda>written.
         Inr (((middle, end') # rest, sats @ bytes),
           S\<lparr>si_sat_ranges_since_flush := n, si_sat_ranges_written := written\<rparr>)))))
       else
         res_bind (iu_panic (sat_range_store (start, end'))) (\<lambda>bytes.
         res_bind (u64_add (si_sat_ranges_written S) 1) (\<lambda>written.
         fill_output D outpoint output_value (remaining - count) rest (sats @ bytes)
           (S\<lparr>si_sat_ranges_written := written\<rparr>)))))))"

fun fill_outputs :: "sat_data \<Rightarrow> txid \<Rightarrow> (u64 \<times> byte list) list \<Rightarrow> nat \<Rightarrow> (u64 \<times> u64) list \<Rightarrow> sat_index \<Rightarrow>
    updater_error + (u64 \<times> u64) list \<times> sat_index" where
  "fill_outputs D txid [] vout ranges S = Inr (ranges, S)"
| "fill_outputs D txid ((v, _) # outs) vout ranges S =
    res_bind (iu_panic (unwrap (try_from u32_max vout))) (\<lambda>vout32.
    res_bind (fill_output D \<lparr>op_txid = txid, op_vout = vout32\<rparr> v v ranges [] S) (\<lambda>((ranges, sats), S).
    res_bind (u64_add (si_outputs_in_block S) 1) (\<lambda>traversed.
    res_bind (u64_add (si_outputs_inserted_since_flush S) 1) (\<lambda>inserted.
    fill_outputs D txid outs (Suc vout) ranges
      (S\<lparr>si_range_cache := hm_insert \<lparr>op_txid = txid, op_vout = vout32\<rparr> sats (si_range_cache S),
         si_outputs_in_block := traversed, si_outputs_inserted_since_flush := inserted\<rparr>)))))"

definition index_transaction_sats :: "chain_api \<Rightarrow> sat_data \<Rightarrow> bool \<Rightarrow> chain_tx \<Rightarrow> txid \<Rightarrow> u32 \<Rightarrow> (u64 \<times> u64) list \<Rightarrow>
    sat_index \<times> inscription_updater \<Rightarrow> updater_error + (u64 \<times> u64) list \<times> sat_index \<times> inscription_updater" where
  "index_transaction_sats A D index_inscriptions tx txid tx_index input_sat_ranges = (\<lambda>(S, U).
    res_bind
      (if index_inscriptions
       then res_bind (index_transaction_inscriptions A D tx txid tx_index (Some input_sat_ranges) U) (\<lambda>(_, U). Inr U)
       else Inr U) (\<lambda>U.
    res_bind (fill_outputs D txid (ct_output tx) 0 input_sat_ranges S) (\<lambda>(ranges, S).
    Inr (ranges, S, U))))"

section \<open>Indexing a block\<close>

definition mined_range :: "sat_data \<Rightarrow> u32 \<Rightarrow> sat_index \<Rightarrow> updater_error + (u64 \<times> u64) list \<times> sat_index" where
  "mined_range D height S =
    res_bind (iu_panic (height_subsidy D height)) (\<lambda>subsidy.
    if subsidy > 0 then
      res_bind (iu_panic (height_starting_sat D height)) (\<lambda>start.
      res_bind (u64_add start subsidy) (\<lambda>end'.
      res_bind (u64_add (si_sat_ranges_since_flush S) 1) (\<lambda>n.
      Inr ([(start, end')], S\<lparr>si_sat_ranges_since_flush := n\<rparr>))))
    else Inr ([], S))"

definition index_spend_sats :: "chain_api \<Rightarrow> sat_data \<Rightarrow> bool \<Rightarrow> nat \<times> chain_tx \<times> txid \<Rightarrow>
    (u64 \<times> u64) list \<times> sat_index \<times> inscription_updater \<Rightarrow>
    updater_error + (u64 \<times> u64) list \<times> sat_index \<times> inscription_updater" where
  "index_spend_sats A D index_inscriptions = (\<lambda>(tx_offset, tx, txid) (coinbase_inputs, S, U).
    res_bind (gather_ranges (map fst (ct_input tx)) S) (\<lambda>(input_sat_ranges, S).
    res_bind (ok_or IndexTooLarge (try_from u32_max tx_offset)) (\<lambda>tx_offset.
    res_bind (index_transaction_sats A D index_inscriptions tx txid tx_offset input_sat_ranges (S, U)) (\<lambda>(ranges, S, U).
    Inr (coinbase_inputs @ ranges, S, U)))))"

text \<open>The ranges the coinbase transaction leaves.\<close>

fun lose_ranges :: "sat_data \<Rightarrow> (u64 \<times> u64) list \<Rightarrow> u64 \<Rightarrow> byte list \<Rightarrow> sat_index \<Rightarrow>
    updater_error + (u64 \<times> byte list) \<times> sat_index" where
  "lose_ranges D [] lost_sats lost_sat_ranges S = Inr ((lost_sats, lost_sat_ranges), S)"
| "lose_ranges D ((start, end') # rest) lost_sats lost_sat_ranges S =
    res_bind (note_uncommon D start \<lparr>sp_outpoint = null_outpoint, sp_offset = lost_sats\<rparr> S) (\<lambda>S.
    res_bind (iu_panic (sat_range_store (start, end'))) (\<lambda>bytes.
    res_bind (u64_sub end' start) (\<lambda>count.
    res_bind (u64_add lost_sats count) (\<lambda>lost_sats.
    lose_ranges D rest lost_sats (lost_sat_ranges @ bytes) S))))"

definition record_lost :: "sat_data \<Rightarrow> (u64 \<times> u64) list \<Rightarrow> u64 \<Rightarrow> sat_index \<Rightarrow> updater_error + u64 \<times> sat_index" where
  "record_lost D coinbase_inputs lost_sats S =
    (if coinbase_inputs = [] then Inr (lost_sats, S)
     else
       let lost_sat_ranges =
             (case map_of (si_outpoint_to_sat_ranges S) null_outpoint of None \<Rightarrow> [] | Some ranges \<Rightarrow> ranges);
           S = S\<lparr>si_outpoint_to_sat_ranges := AList.delete null_outpoint (si_outpoint_to_sat_ranges S)\<rparr>
       in res_bind (lose_ranges D coinbase_inputs lost_sats lost_sat_ranges S) (\<lambda>((lost_sats, lost_sat_ranges), S).
          Inr (lost_sats,
            S\<lparr>si_outpoint_to_sat_ranges := hm_insert null_outpoint lost_sat_ranges (si_outpoint_to_sat_ranges S)\<rparr>)))"

definition index_sats_of_block :: "chain_api \<Rightarrow> sat_data \<Rightarrow> u32 \<Rightarrow> bool \<Rightarrow> (chain_tx \<times> txid) list \<Rightarrow> u64 \<Rightarrow>
    sat_index \<times> inscription_updater \<Rightarrow> updater_error + u64 \<times> sat_index \<times> inscription_updater" where
  "index_sats_of_block A D height index_inscriptions txdata lost_sats = (\<lambda>(S, U).
    res_bind (mined_range D height S) (\<lambda>(coinbase_inputs, S).
    res_bind (res_fold (index_spend_sats A D index_inscriptions) (drop 1 (enumerate 0 txdata)) (coinbase_inputs, S, U))
      (\<lambda>(coinbase_inputs, S, U).
    res_bind
      (case txdata of
         [] \<Rightarrow> Inr (coinbase_inputs, S, U)
       | (tx, txid) # _ \<Rightarrow> index_transaction_sats A D index_inscriptions tx txid 0 coinbase_inputs (S, U))
      (\<lambda>(coinbase_inputs, S, U).
    res_bind (record_lost D coinbase_inputs lost_sats S) (\<lambda>(lost_sats, S).
    Inr (lost_sats, S, U))))))"

text \<open>Committing moves the cache into the table.\<close>

definition flush_ranges :: "sat_index \<Rightarrow> sat_index" where
  "flush_ranges S = S\<lparr>si_outpoint_to_sat_ranges :=
      fold (\<lambda>(outpoint, sat_range). hm_insert outpoint sat_range) (si_range_cache S) (si_outpoint_to_sat_ranges S),
    si_range_cache := [], si_outputs_inserted_since_flush := 0\<rparr>"

definition flush_values :: "inscription_updater \<Rightarrow> inscription_updater" where
  "flush_values U =
    (let U' = fold (\<lambda>(outpoint, v, address) U.
        let U = U\<lparr>iu_outpoint_to_value := hm_insert outpoint v (iu_outpoint_to_value U)\<rparr>
        in if address \<noteq> replicate 34 0
           then U\<lparr>iu_outpoint_to_address := hm_insert outpoint address (iu_outpoint_to_address U),
                  iu_address_to_outpoint := List.insert (address, outpoint) (iu_address_to_outpoint U)\<rparr>
           else U) (iu_value_cache U) U
     in U'\<lparr>iu_value_cache := []\<rparr>)"

end
