(* ===== verification/Sat_Flow.thy ===== *)
theory Sat_Flow
  imports Sat_Index
begin

text \<open>
  How the sat index hands the ranges of a transaction's inputs to its outputs: first in, first out, each
  output as many sats as it is worth, and its row the bytes of its pieces one after the other. Nothing is
  assumed of the size of a range; what becomes of a range too long for its eleven bytes is in
  \<open>Sat_Properties\<close>.
\<close>

section \<open>Ranges as lists of sats\<close>

definition flat :: "(nat \<times> nat) list \<Rightarrow> nat list" where
  "flat rs = concat (map (\<lambda>(a, b). [a..<b]) rs)"

lemma flat_simps [simp]: "flat [] = []" "flat ((a, b) # rs) = [a..<b] @ flat rs" "flat (rs @ qs) = flat rs @ flat qs"
  by (simp_all add: flat_def)

definition proper :: "(nat \<times> nat) list \<Rightarrow> bool" where
  "proper rs \<longleftrightarrow> list_all (\<lambda>(a, b). a \<le> b \<and> b \<le> u64_max) rs"

lemma proper_simps [simp]: "proper []" "proper ((a, b) # rs) \<longleftrightarrow> a \<le> b \<and> b \<le> u64_max \<and> proper rs"
  by (simp_all add: proper_def)

text \<open>The row that holds these ranges.\<close>

definition packed :: "nat \<times> nat \<Rightarrow> byte list" where
  "packed r = (case sat_range_store r of Inl _ \<Rightarrow> [] | Inr bytes \<Rightarrow> bytes)"

definition packed_row :: "(nat \<times> nat) list \<Rightarrow> byte list" where
  "packed_row rs = concat (map packed rs)"

lemma packed_row_simps [simp]: "packed_row [] = []" "packed_row (r # rs) = packed r @ packed_row rs"
  by (simp_all add: packed_row_def)

lemma store_packed: "a \<le> b \<Longrightarrow> sat_range_store (a, b) = Inr (packed (a, b))"
  by (simp add: packed_def sat_range_store_def sub_or_panic_def Let_def)

lemma length_packed: "a \<le> b \<Longrightarrow> length (packed (a, b)) = 11"
  by (simp add: packed_def sat_range_store_def sub_or_panic_def Let_def)

section \<open>Filling one output\<close>

text \<open>With the data files of the repository, looking a sat up never panics.\<close>

lemma note_uncommon_total:
  assumes "data_ok D" and "sat \<le> u64_max"
  obtains T where "note_uncommon D sat p S = Inr (S\<lparr>si_sat_to_satpoint := T\<rparr>)"
proof -
  obtain e n where "epoch_of_sat D sat = Inr e" "epoch_starting_sat D e = Inr (starting_sats D ! e)"
    "starting_sats D ! e \<le> sat" "epoch_subsidy D e = Inr n" "0 < n"
    using sat_place [OF assms] .
  then have c: "is_common D sat = Inr ((sat - starting_sats D ! e) mod n \<noteq> 0)"
    by (simp add: is_common_def sub_or_panic_def mod_or_panic_def)
  show thesis
  proof (cases "(sat - starting_sats D ! e) mod n \<noteq> 0")
    case True
    then have "note_uncommon D sat p S = Inr (S\<lparr>si_sat_to_satpoint := si_sat_to_satpoint S\<rparr>)" using c by (simp add: note_uncommon_def)
    then show thesis by (rule that)
  next
    case False
    then show thesis using c by (intro that) (simp add: note_uncommon_def)
  qed
qed

text \<open>The part of the state that filling one output leaves alone, and what it does to the two counters.\<close>

definition filled :: "sat_index \<Rightarrow> nat \<Rightarrow> nat \<Rightarrow> sat_index \<Rightarrow> bool" where
  "filled S n n' S' \<longleftrightarrow> si_range_cache S' = si_range_cache S \<and> si_outpoint_to_sat_ranges S' = si_outpoint_to_sat_ranges S \<and>
    si_outputs_cached S' = si_outputs_cached S \<and> si_outputs_in_block S' = si_outputs_in_block S \<and>
    si_outputs_inserted_since_flush S' = si_outputs_inserted_since_flush S \<and>
    si_sat_ranges_written S' + n' \<le> si_sat_ranges_written S + n + 1 \<and>
    si_sat_ranges_since_flush S' \<le> si_sat_ranges_since_flush S + 1"

lemma fill_output_exact:
  assumes "data_ok D" and "proper ranges" and "remaining \<le> v"
    and "si_sat_ranges_written S + length ranges + 1 \<le> u64_max" and "si_sat_ranges_since_flush S + 1 \<le> u64_max"
  shows "if remaining \<le> length (flat ranges)
    then \<exists>rs ranges' S'. fill_output D q v remaining ranges sats S = Inr ((ranges', sats @ packed_row rs), S') \<and>
      flat ranges = flat rs @ flat ranges' \<and> length (flat rs) = remaining \<and> proper ranges' \<and>
      filled S (length ranges) (length ranges') S'
    else fill_output D q v remaining ranges sats S = Inl InsufficientInputs"
  using assms(2-)
proof (induction ranges arbitrary: remaining sats S)
  case Nil
  then show ?case by (auto simp: filled_def intro: exI [of _ "[]"])
next
  case (Cons r rest)
  obtain a b where r: "r = (a, b)" by fastforce
  have ab: "a \<le> b" "b \<le> u64_max" "a \<le> u64_max" and rest: "proper rest" using Cons.prems(1) by (simp_all add: r)
  let ?p = "\<lparr>sp_outpoint = q, sp_offset = v - remaining\<rparr>"
  obtain T where T: "note_uncommon D a ?p S = Inr (S\<lparr>si_sat_to_satpoint := T\<rparr>)"
    using note_uncommon_total [OF assms(1) ab(3)] .
  consider (empty) "remaining = 0" | (cut) "0 < remaining" "remaining < b - a" | (whole) "0 < remaining" "b - a \<le> remaining"
    by linarith
  then show ?case
  proof cases
    case empty
    then show ?thesis using Cons.prems(1)
      by (auto simp: r filled_def intro!: exI [of _ "[]"])
  next
    case cut
    have "[a..<b] = [a..<a + remaining] @ [a + remaining..<b]"
      using upt_add_eq_append [of a "a + remaining" "b - (a + remaining)"] cut by simp
    moreover have "fill_output D q v remaining (r # rest) sats S = Inr (((a + remaining, b) # rest, sats @ packed (a, a + remaining)),
        S\<lparr>si_sat_to_satpoint := T, si_sat_ranges_since_flush := si_sat_ranges_since_flush S + 1,
          si_sat_ranges_written := si_sat_ranges_written S + 1\<rparr>)"
      using cut Cons.prems T ab store_packed [of a "a + remaining"] by (simp add: r checked_defs)
    ultimately show ?thesis using cut ab rest
      by (auto simp: r filled_def intro!: exI [of _ "[(a, a + remaining)]"])
  next
    case whole
    let ?S = "S\<lparr>si_sat_to_satpoint := T, si_sat_ranges_written := si_sat_ranges_written S + 1\<rparr>"
    have step: "fill_output D q v remaining (r # rest) sats S =
        fill_output D q v (remaining - (b - a)) rest (sats @ packed (a, b)) ?S"
      using whole Cons.prems T ab store_packed [of a b] by (simp add: r checked_defs)
    have IH: "if remaining - (b - a) \<le> length (flat rest)
      then \<exists>rs ranges' S'. fill_output D q v (remaining - (b - a)) rest (sats @ packed (a, b)) ?S =
          Inr ((ranges', (sats @ packed (a, b)) @ packed_row rs), S') \<and>
        flat rest = flat rs @ flat ranges' \<and> length (flat rs) = remaining - (b - a) \<and> proper ranges' \<and>
        filled ?S (length rest) (length ranges') S'
      else fill_output D q v (remaining - (b - a)) rest (sats @ packed (a, b)) ?S = Inl InsufficientInputs"
      by (rule Cons.IH) (use rest Cons.prems in simp_all)
    have len: "length (flat (r # rest)) = (b - a) + length (flat rest)" by (simp add: r)
    show ?thesis
    proof (cases "remaining \<le> length (flat (r # rest))")
      case True
      then have "remaining - (b - a) \<le> length (flat rest)" using len by linarith
      with IH obtain rs ranges' S' where
          run: "fill_output D q v (remaining - (b - a)) rest (sats @ packed (a, b)) ?S = Inr ((ranges', sats @ packed_row ((a, b) # rs)), S')"
        and rs: "flat rest = flat rs @ flat ranges'" "length (flat rs) = remaining - (b - a)" "proper ranges'"
        and f: "filled ?S (length rest) (length ranges') S'" by auto
      have "flat (r # rest) = flat ((a, b) # rs) @ flat ranges'" "length (flat ((a, b) # rs)) = remaining"
        using rs whole by (simp_all add: r)
      moreover have "filled S (length (r # rest)) (length ranges') S'" using f by (simp add: filled_def)
      ultimately show ?thesis using True run rs(3) unfolding step by (simp only: if_True) blast
    next
      case False
      then have "\<not> remaining - (b - a) \<le> length (flat rest)" using len by linarith
      with IH False show ?thesis unfolding step by (simp only: if_False)
    qed
  qed
qed

section \<open>Filling the outputs of a transaction\<close>

definition room :: "sat_index \<Rightarrow> nat \<Rightarrow> nat \<Rightarrow> bool" where
  "room S n m \<longleftrightarrow> si_sat_ranges_written S + n + m \<le> u64_max \<and> si_sat_ranges_since_flush S + m \<le> u64_max \<and>
    si_outputs_in_block S + m \<le> u64_max \<and> si_outputs_inserted_since_flush S + m \<le> u64_max"

text \<open>The rows of the outputs from position \<open>k\<close> on that got these pieces.\<close>

definition dealt_rows :: "txid \<Rightarrow> nat \<Rightarrow> (nat \<times> nat) list list \<Rightarrow> outpoint \<Rightarrow> byte list option" where
  "dealt_rows txid k pieces q =
    (if op_txid q = txid \<and> k \<le> op_vout q \<and> op_vout q < k + length pieces then Some (packed_row (pieces ! (op_vout q - k)))
     else None)"

lemma dealt_rows_Cons:
  "m(\<lparr>op_txid = txid, op_vout = k\<rparr> \<mapsto> packed_row rs) ++ dealt_rows txid (Suc k) pieces = m ++ dealt_rows txid k (rs # pieces)"
proof
  fix q :: outpoint
  consider "q = \<lparr>op_txid = txid, op_vout = k\<rparr>" | "q \<noteq> \<lparr>op_txid = txid, op_vout = k\<rparr>" "op_txid q \<noteq> txid \<or> op_vout q \<le> k"
    | n where "op_txid q = txid" "op_vout q = Suc (k + n)"
    by (cases "op_txid q = txid \<and> k < op_vout q") (auto simp: not_less dest: less_imp_Suc_add)
  then show "(m(\<lparr>op_txid = txid, op_vout = k\<rparr> \<mapsto> packed_row rs) ++ dealt_rows txid (Suc k) pieces) q =
      (m ++ dealt_rows txid k (rs # pieces)) q"
  proof cases
    case 2
    then have "op_txid q \<noteq> txid \<or> op_vout q < k" by (cases q) (auto simp: le_less)
    then show ?thesis using 2(1) by (auto simp: dealt_rows_def map_add_def)
  next
    case 3
    then have "q \<noteq> \<lparr>op_txid = txid, op_vout = k\<rparr>" by (cases q) auto
    then show ?thesis using 3 by (auto simp: dealt_rows_def map_add_def)
  qed (auto simp: dealt_rows_def map_add_def)
qed

lemma dealt_rows_Nil [simp]: "m ++ dealt_rows txid k [] = m"
  by (auto simp: dealt_rows_def map_add_def fun_eq_iff)

lemma fill_outputs_exact:
  assumes "data_ok D" and "proper ranges" and "k + length outs \<le> Suc u32_max" and "room S (length ranges) (length outs)"
  shows "if sum_list (map fst outs) \<le> length (flat ranges)
    then \<exists>pieces left S'. fill_outputs D txid outs k ranges S = Inr (left, S') \<and>
      flat ranges = flat (concat pieces) @ flat left \<and> map (\<lambda>rs. length (flat rs)) pieces = map fst outs \<and>
      map_of (si_range_cache S') = map_of (si_range_cache S) ++ dealt_rows txid k pieces \<and>
      si_outpoint_to_sat_ranges S' = si_outpoint_to_sat_ranges S
    else fill_outputs D txid outs k ranges S = Inl InsufficientInputs"
  using assms(2-)
proof (induction outs arbitrary: k ranges S)
  case Nil
  then show ?case by (auto intro!: exI [of _ "[]"])
next
  case (Cons out outs)
  obtain v script where out: "out = (v, script)" by fastforce
  let ?q = "\<lparr>op_txid = txid, op_vout = k\<rparr>"
  have k: "unwrap (try_from u32_max k) = Inr k" using Cons.prems(2) by (simp add: try_from_def unwrap_def)
  have room: "si_sat_ranges_written S + length ranges + 1 \<le> u64_max" "si_sat_ranges_since_flush S + 1 \<le> u64_max"
    using Cons.prems(3) by (simp_all add: room_def)
  note one = fill_output_exact [OF assms(1) Cons.prems(1) order.refl room, of v ?q "[]"]
  show ?case
  proof (cases "v \<le> length (flat ranges)")
    case False
    then have "fill_output D ?q v v ranges [] S = Inl InsufficientInputs" using one by simp
    then have "fill_outputs D txid (out # outs) k ranges S = Inl InsufficientInputs" using k by (simp add: out)
    moreover have "\<not> sum_list (map fst (out # outs)) \<le> length (flat ranges)" using False by (simp add: out)
    ultimately show ?thesis by (simp only: if_False)
  next
    case True
    with one obtain rs ranges1 S1 where f: "fill_output D ?q v v ranges [] S = Inr ((ranges1, packed_row rs), S1)"
      and rs: "flat ranges = flat rs @ flat ranges1" "length (flat rs) = v" "proper ranges1"
      and S1: "filled S (length ranges) (length ranges1) S1" by auto
    let ?S2 = "S1\<lparr>si_range_cache := hm_insert ?q (packed_row rs) (si_range_cache S1),
      si_outputs_in_block := si_outputs_in_block S1 + 1, si_outputs_inserted_since_flush := si_outputs_inserted_since_flush S1 + 1\<rparr>"
    have step: "fill_outputs D txid (out # outs) k ranges S = fill_outputs D txid outs (Suc k) ranges1 ?S2"
      using f k Cons.prems(3) S1 by (simp add: out room_def filled_def checked_defs)
    have "room ?S2 (length ranges1) (length outs)" using Cons.prems(3) S1 by (simp add: room_def filled_def)
    then have IH: "if sum_list (map fst outs) \<le> length (flat ranges1)
      then \<exists>pieces left S'. fill_outputs D txid outs (Suc k) ranges1 ?S2 = Inr (left, S') \<and>
        flat ranges1 = flat (concat pieces) @ flat left \<and> map (\<lambda>rs. length (flat rs)) pieces = map fst outs \<and>
        map_of (si_range_cache S') = map_of (si_range_cache ?S2) ++ dealt_rows txid (Suc k) pieces \<and>
        si_outpoint_to_sat_ranges S' = si_outpoint_to_sat_ranges ?S2
      else fill_outputs D txid outs (Suc k) ranges1 ?S2 = Inl InsufficientInputs"
      by (intro Cons.IH rs) (use Cons.prems(2) in simp_all)
    have len: "length (flat ranges) = v + length (flat ranges1)" using rs by simp
    show ?thesis
    proof (cases "sum_list (map fst outs) \<le> length (flat ranges1)")
      case True
      with IH obtain pieces left S' where run: "fill_outputs D txid outs (Suc k) ranges1 ?S2 = Inr (left, S')"
        and p: "flat ranges1 = flat (concat pieces) @ flat left" "map (\<lambda>rs. length (flat rs)) pieces = map fst outs"
        and c: "map_of (si_range_cache S') = map_of (si_range_cache ?S2) ++ dealt_rows txid (Suc k) pieces"
        and t: "si_outpoint_to_sat_ranges S' = si_outpoint_to_sat_ranges ?S2" by auto
      have "map_of (si_range_cache S') = map_of (si_range_cache S) ++ dealt_rows txid k (rs # pieces)"
        using S1 unfolding c by (simp add: filled_def dealt_rows_Cons [symmetric])
      moreover have "si_outpoint_to_sat_ranges S' = si_outpoint_to_sat_ranges S" using S1 t by (simp add: filled_def)
      moreover have "flat ranges = flat (concat (rs # pieces)) @ flat left"
        "map (\<lambda>rs. length (flat rs)) (rs # pieces) = map fst (out # outs)" using rs p by (simp_all add: out)
      moreover have "sum_list (map fst (out # outs)) \<le> length (flat ranges)" using True len by (simp add: out)
      ultimately show ?thesis using run unfolding step by (simp only: if_True) blast
    next
      case False
      then have "\<not> sum_list (map fst (out # outs)) \<le> length (flat ranges)" using len by (simp add: out)
      then show ?thesis using False IH unfolding step by (simp only: if_False)
    qed
  qed
qed

section \<open>The ranges of the inputs\<close>

text \<open>What is read from the rows of spent outputs is always proper, so filling never panics on it.\<close>

lemma load_proper: "sat_range_load chunk = Inr (a, b) \<Longrightarrow> a \<le> b \<and> b \<le> u64_max"
  by (auto simp: sat_range_load_def Let_def res_simps checked_defs split: if_splits)

lemma load_ranges_proper: "load_ranges cs = Inr ranges \<Longrightarrow> proper ranges"
proof (induction cs arbitrary: ranges)
  case (Cons chunk cs)
  then obtain r rs where "sat_range_load chunk = Inr r" "load_ranges cs = Inr rs" "ranges = r # rs"
    by (auto simp: res_simps)
  with Cons.IH load_proper [of chunk "fst r" "snd r"] show ?case by (cases r) simp
qed simp

lemma gather_ranges_proper: "gather_ranges keys S = Inr (ranges, S') \<Longrightarrow> proper ranges"
proof (induction keys arbitrary: S ranges)
  case (Cons key keys)
  then obtain S1 bytes rs rest where "load_ranges (chunks_exact 11 bytes) = Inr rs" "gather_ranges keys S1 = Inr (rest, S')"
    "ranges = rs @ rest" by (auto simp: res_simps)
  with Cons.IH load_ranges_proper show ?case by (auto simp: proper_def)
qed simp

lemma mined_range_proper: "mined_range D height S = Inr (ranges, S') \<Longrightarrow> proper ranges"
  by (auto simp: mined_range_def res_simps checked_defs split: if_splits)

end
