(* ===== verification/Inscription_Location.thy ===== *)
theory Inscription_Location
  imports Inscription_Updater
begin

text \<open>
  Inscriptions keep their place. The two location tables, from inscription to place and from place to
  inscription, stay inverse to each other, whatever moves; an inscription keeps its offset among the
  sats of a transaction; and what floats in fees lands by the end of the block.
\<close>

section \<open>One move\<close>

abbreviation loc :: "inscription_updater \<Rightarrow> inscription_id \<Rightarrow> sat_point option" where
  "loc U \<equiv> map_of (iu_id_to_satpoint U)"

abbreviation who :: "inscription_updater \<Rightarrow> sat_point \<Rightarrow> inscription_id option" where
  "who U \<equiv> map_of (iu_satpoint_to_id U)"

fun old_place :: "origin \<Rightarrow> sat_point option" where
  "old_place (New _ _) = None"
| "old_place (Old p) = Some p"

definition vacate :: "flotsam \<Rightarrow> (sat_point \<Rightarrow> inscription_id option) \<Rightarrow> sat_point \<Rightarrow> inscription_id option" where
  "vacate f a = (case old_place (fl_origin f) of None \<Rightarrow> a | Some p \<Rightarrow> a(p := None))"

text \<open>What a move leaves alone.\<close>

definition bystanders :: "inscription_updater \<Rightarrow> flotsam list \<times> u32 \<times> (txid, byte list) hashmap \<times> (txid, byte list) hashmap \<times>
    u64 list \<times> u64 \<times> u64 \<times> (outpoint, u64) hashmap" where
  "bystanders U = (iu_flotsam U, iu_height U, iu_txid_to_tx U, iu_partial_txid_to_txids U, iu_value_receiver U,
    iu_lost_sats U, iu_reward U, iu_outpoint_to_value U)"

lemma register_origin_Inr:
  assumes "register_origin ranges f U = Inr U'"
  shows "iu_id_to_satpoint U' = iu_id_to_satpoint U"
    and "iu_satpoint_to_id U' = (case old_place (fl_origin f) of None \<Rightarrow> iu_satpoint_to_id U
      | Some p \<Rightarrow> AList.delete p (iu_satpoint_to_id U))"
    and "bystanders U' = bystanders U" and "iu_value_cache U' = iu_value_cache U"
  using assms
  by (auto simp: register_origin_def Let_def bystanders_def res_simps split: origin.splits option.splits)

lemma update_location_Inr:
  assumes "update_inscription_location ranges f p tx U = Inr U'"
  shows "loc U' = (loc U)(fl_inscription_id f \<mapsto> p)"
    and "who U' = (vacate f (who U))(p \<mapsto> fl_inscription_id f)"
    and "bystanders U' = bystanders U" and "iu_value_cache U' = iu_value_cache U"
    and "hm_ok (iu_id_to_satpoint U) \<Longrightarrow> hm_ok (iu_id_to_satpoint U')"
    and "hm_ok (iu_satpoint_to_id U) \<Longrightarrow> hm_ok (iu_satpoint_to_id U')"
proof -
  from assms obtain U1 ops j where reg: "register_origin ranges f U = Inr U1"
    and U': "U' = U1\<lparr>iu_operations := ops, iu_journal := j,
      iu_satpoint_to_id := hm_insert p (fl_inscription_id f) (iu_satpoint_to_id U1),
      iu_id_to_satpoint := hm_insert (fl_inscription_id f) p (iu_id_to_satpoint U1)\<rparr>"
    by (auto simp: update_inscription_location_def Let_def res_bind_eq_Inr)
  note r = register_origin_Inr [OF reg]
  show "loc U' = (loc U)(fl_inscription_id f \<mapsto> p)" using r(1) by (simp add: U')
  show "who U' = (vacate f (who U))(p \<mapsto> fl_inscription_id f)"
    using r(2) by (auto simp: U' vacate_def delete_conv' split: option.splits)
  show "bystanders U' = bystanders U" "iu_value_cache U' = iu_value_cache U"
    using r(3,4) by (simp_all add: U' bystanders_def)
  show "hm_ok (iu_id_to_satpoint U) \<Longrightarrow> hm_ok (iu_id_to_satpoint U')" using r(1) by (simp add: U')
  show "hm_ok (iu_satpoint_to_id U) \<Longrightarrow> hm_ok (iu_satpoint_to_id U')"
    using r(2) by (auto simp: U' hm_ok_def distinct_delete intro!: hm_ok_insert [unfolded hm_ok_def] split: option.splits)
qed

section \<open>A sequence of moves\<close>

definition consistent :: "inscription_updater \<Rightarrow> bool" where
  "consistent U \<longleftrightarrow> hm_ok (iu_id_to_satpoint U) \<and> hm_ok (iu_satpoint_to_id U) \<and>
    (\<forall>i p. loc U i = Some p \<longleftrightarrow> who U p = Some i)"

text \<open>Moves that can be carried out one after the other: to free places, of inscriptions that are where they should be.\<close>

definition movable :: "inscription_updater \<Rightarrow> flotsam \<Rightarrow> bool" where
  "movable U f \<longleftrightarrow> (case fl_origin f of
      Old q \<Rightarrow> who U q = Some (fl_inscription_id f)
    | New _ _ \<Rightarrow> loc U (fl_inscription_id f) = None)"

definition ready :: "inscription_updater \<Rightarrow> (flotsam \<times> sat_point) list \<Rightarrow> bool" where
  "ready U ms \<longleftrightarrow> distinct (map snd ms) \<and> distinct (map (fl_inscription_id \<circ> fst) ms) \<and>
    (\<forall>(f, p)\<in>set ms. who U p = None \<and> movable U f)"

definition run_moves :: "(u64 \<times> u64) list option \<Rightarrow> chain_tx \<Rightarrow> (flotsam \<times> sat_point) list \<Rightarrow> inscription_updater \<Rightarrow>
    updater_error + inscription_updater" where
  "run_moves ranges tx ms U = res_fold (\<lambda>(f, p). update_inscription_location ranges f p tx) ms U"

lemma run_moves_simps [simp]:
  "run_moves ranges tx [] U = Inr U"
  "run_moves ranges tx ((f, p) # ms) U =
    res_bind (update_inscription_location ranges f p tx U) (run_moves ranges tx ms)"
  by (auto simp: run_moves_def res_bind_def split: sum.split)

lemma run_moves_append:
  "run_moves ranges tx (ms @ ns) U = res_bind (run_moves ranges tx ms U) (run_moves ranges tx ns)"
  by (simp add: run_moves_def [abs_def] res_fold_append)

lemma consistent_step:
  assumes con: "consistent U" and up: "update_inscription_location ranges f p tx U = Inr U'"
    and free: "who U p = None" and mov: "movable U f"
  shows "consistent U'"
proof -
  let ?i = "fl_inscription_id f"
  note eff = update_location_Inr [OF up]
  have iff: "loc U i = Some q \<longleftrightarrow> who U q = Some i" for i q using con by (simp add: consistent_def)
  have "loc U' i = Some q \<longleftrightarrow> who U' q = Some i" for i q
  proof (cases "fl_origin f")
    case (Old old)
    then have old: "who U old = Some ?i" using mov by (simp add: movable_def)
    then have only: "who U q \<noteq> Some ?i" if "q \<noteq> old" for q using that iff by (metis option.inject)
    with Old old free iff show ?thesis by (auto simp: eff(1,2) vacate_def)
  next
    case (New a b)
    then have "loc U ?i = None" using mov by (simp add: movable_def)
    with New free iff show ?thesis by (auto simp: eff(1,2) vacate_def) (metis not_Some_eq option.inject)+
  qed
  with con eff(5,6) show ?thesis by (simp add: consistent_def)
qed

lemma ready_step:
  assumes con: "consistent U" and up: "update_inscription_location ranges f p tx U = Inr U'"
    and rdy: "ready U ((f, p) # ms)"
  shows "ready U' ms"
  unfolding ready_def
proof (intro conjI ballI)
  note eff = update_location_Inr [OF up]
  show "distinct (map snd ms)" "distinct (map (fl_inscription_id \<circ> fst) ms)" using rdy by (simp_all add: ready_def)
  fix m assume m: "m \<in> set ms"
  obtain g q where gq: "m = (g, q)" by fastforce
  have q: "who U q = None" "movable U g" "q \<noteq> p" "fl_inscription_id g \<noteq> fl_inscription_id f"
    and f: "movable U f" "who U p = None"
    using rdy m gq by (force simp: ready_def)+
  have "who U' q = None" using q by (auto simp: eff(2) vacate_def split: option.splits)
  moreover have "movable U' g"
  proof (cases "fl_origin g")
    case (Old old)
    then have old: "who U old = Some (fl_inscription_id g)" using q(2) by (simp add: movable_def)
    with f(2) have "old \<noteq> p" by auto
    moreover have "old_place (fl_origin f) \<noteq> Some old"
      using f(1) old q(4) by (cases "fl_origin f") (auto simp: movable_def)
    ultimately show ?thesis using old Old by (auto simp: movable_def eff(2) vacate_def split: option.splits)
  next
    case (New a b)
    then show ?thesis using q(2,4) by (simp add: movable_def eff(1))
  qed
  ultimately show "case m of (f, p) \<Rightarrow> who U' p = None \<and> movable U' f" by (simp add: gq)
qed

definition destinations_of :: "(flotsam \<times> sat_point) list \<Rightarrow> inscription_id \<Rightarrow> sat_point option" where
  "destinations_of ms = map_of (map (\<lambda>(f, p). (fl_inscription_id f, p)) ms)"

lemma run_moves_spec:
  assumes "consistent U" and "ready U ms" and "run_moves ranges tx ms U = Inr U'"
  shows "consistent U'" and "bystanders U' = bystanders U" and "loc U' = loc U ++ destinations_of ms"
proof -
  have "consistent U' \<and> bystanders U' = bystanders U \<and> loc U' = loc U ++ destinations_of ms"
    using assms
  proof (induction ms arbitrary: U)
    case Nil
    then show ?case by (simp add: destinations_of_def)
  next
    case (Cons m ms)
    obtain f p where m: "m = (f, p)" by fastforce
    from Cons.prems(3) m obtain U1 where up: "update_inscription_location ranges f p tx U = Inr U1"
      and rest: "run_moves ranges tx ms U1 = Inr U'" by (auto simp: res_bind_eq_Inr)
    have con: "consistent U1"
      by (rule consistent_step [OF Cons.prems(1) up]) (use Cons.prems(2) m in \<open>simp_all add: ready_def\<close>)
    have rdy: "ready U1 ms" using ready_step [OF Cons.prems(1) up] Cons.prems(2) m by simp
    from Cons.IH [OF con rdy rest] have IH: "consistent U'" "bystanders U' = bystanders U1"
      "loc U' = loc U1 ++ destinations_of ms" by simp_all
    have "destinations_of ms (fl_inscription_id f) = None"
      using Cons.prems(2) m by (auto simp: ready_def destinations_of_def map_of_eq_None_iff image_iff)
    then have "loc U1 ++ destinations_of ms = loc U ++ destinations_of (m # ms)"
      by (auto simp: update_location_Inr(1) [OF up] destinations_of_def m map_add_def fun_eq_iff split: option.splits)
    with IH update_location_Inr(3) [OF up] show ?case by simp
  qed
  then show "consistent U'" "bystanders U' = bystanders U" "loc U' = loc U ++ destinations_of ms" by simp_all
qed

section \<open>First in, first out\<close>

text \<open>
  The specification of where an offset goes: to the output that covers it, at the offset that is left.
\<close>

fun spot :: "txid \<Rightarrow> nat list \<Rightarrow> nat \<Rightarrow> nat \<Rightarrow> sat_point option" where
  "spot txid [] vout n = None"
| "spot txid (v # vs) vout n =
    (if n < v then Some \<lparr>sp_outpoint = \<lparr>op_txid = txid, op_vout = vout\<rparr>, sp_offset = n\<rparr>
     else spot txid vs (Suc vout) (n - v))"

lemma spot_outpoint:
  "spot txid vs vout n = Some p \<Longrightarrow> op_txid (sp_outpoint p) = txid \<and>
    (\<exists>k < length vs. op_vout (sp_outpoint p) = vout + k \<and> sp_offset p < vs ! k)"
proof (induction vs arbitrary: vout n)
  case (Cons v vs)
  show ?case
  proof (cases "n < v")
    case True
    then show ?thesis using Cons.prems by (intro conjI exI [of _ 0]) auto
  next
    case False
    then have "spot txid vs (Suc vout) (n - v) = Some p" using Cons.prems by simp
    from Cons.IH [OF this] obtain k where "op_txid (sp_outpoint p) = txid" "k < length vs"
      "op_vout (sp_outpoint p) = Suc vout + k" "sp_offset p < vs ! k" by blast
    then show ?thesis by (intro conjI exI [of _ "Suc k"]) auto
  qed
qed simp

lemma spot_inj: "spot txid vs vout n = Some p \<Longrightarrow> spot txid vs vout m = Some p \<Longrightarrow> n = m"
proof (induction vs arbitrary: vout n m)
  case (Cons v vs)
  have far: "op_vout (sp_outpoint p) \<noteq> vout" if "spot txid vs (Suc vout) k = Some p" for k
    using spot_outpoint [OF that] by auto
  show ?case
  proof (cases "n < v \<or> m < v")
    case True
    then show ?thesis using Cons.prems far by (auto split: if_splits)
  next
    case False
    then have "n - v = m - v" using Cons.prems Cons.IH [of "Suc vout" "n - v" "m - v"] by simp
    with False show ?thesis by linarith
  qed
qed simp

lemma spot_None: "spot txid vs vout n = None \<longleftrightarrow> sum_list vs \<le> n"
  by (induction txid vs vout n rule: spot.induct) auto

fun layout :: "txid \<Rightarrow> nat list \<Rightarrow> nat \<Rightarrow> nat \<Rightarrow> flotsam list \<Rightarrow> (flotsam \<times> sat_point) list" where
  "layout txid [] vout ov fs = []"
| "layout txid (v # vs) vout ov fs =
    map (\<lambda>f. (f, \<lparr>sp_outpoint = \<lparr>op_txid = txid, op_vout = vout\<rparr>, sp_offset = fl_offset f - ov\<rparr>))
      (takeWhile (\<lambda>f. fl_offset f < ov + v) fs) @
    layout txid vs (Suc vout) (ov + v) (dropWhile (\<lambda>f. fl_offset f < ov + v) fs)"

lemma takeWhile_sorted_filter:
  "sorted (map g xs) \<Longrightarrow> takeWhile (\<lambda>x. g x < n) xs = filter (\<lambda>x. g x < n) xs \<and>
    dropWhile (\<lambda>x. g x < n) xs = filter (\<lambda>x. n \<le> g x) xs" for g :: "'a \<Rightarrow> nat"
proof (induction xs)
  case (Cons x xs)
  show ?case
  proof (cases "g x < n")
    case False
    then have "\<forall>y\<in>set xs. n \<le> g y" using Cons.prems by auto
    then have "filter (\<lambda>x. g x < n) xs = []" "filter (\<lambda>x. n \<le> g x) xs = xs"
      by (auto simp: filter_empty_conv filter_id_conv not_less)
    with False show ?thesis by simp
  qed (use Cons in auto)
qed simp

lemma set_layout:
  assumes "sorted (map fl_offset fs)" and "\<forall>f\<in>set fs. ov \<le> fl_offset f"
  shows "(f, p) \<in> set (layout txid vs vout ov fs) \<longleftrightarrow> f \<in> set fs \<and> spot txid vs vout (fl_offset f - ov) = Some p"
  using assms
proof (induction txid vs vout ov fs rule: layout.induct)
  case (2 txid v vs vout ov fs)
  note tw = takeWhile_sorted_filter [OF 2(2), of "ov + v"]
  have s: "sorted (map fl_offset (filter (\<lambda>f. ov + v \<le> fl_offset f) fs))"
    using 2(2) by (rule sorted_filter)
  define rest where "rest = filter (\<lambda>f. ov + v \<le> fl_offset f) fs"
  have "(f, p) \<in> set (layout txid vs (Suc vout) (ov + v) rest) \<longleftrightarrow>
      f \<in> set rest \<and> spot txid vs (Suc vout) (fl_offset f - (ov + v)) = Some p"
    by (rule 2(1) [unfolded tw [THEN conjunct2], folded rest_def]) (use s in \<open>simp_all add: rest_def\<close>)
  then have IH: "(f, p) \<in> set (layout txid vs (Suc vout) (ov + v) rest) \<longleftrightarrow>
      f \<in> set fs \<and> ov + v \<le> fl_offset f \<and> spot txid vs (Suc vout) (fl_offset f - ov - v) = Some p"
    by (simp add: rest_def)
  have eq: "layout txid (v # vs) vout ov fs =
      map (\<lambda>f. (f, \<lparr>sp_outpoint = \<lparr>op_txid = txid, op_vout = vout\<rparr>, sp_offset = fl_offset f - ov\<rparr>))
        (filter (\<lambda>f. fl_offset f < ov + v) fs) @ layout txid vs (Suc vout) (ov + v) rest"
    by (simp add: tw rest_def)
  have here: "(f, p) \<in> set (map (\<lambda>f. (f, \<lparr>sp_outpoint = \<lparr>op_txid = txid, op_vout = vout\<rparr>, sp_offset = fl_offset f - ov\<rparr>))
        (filter (\<lambda>f. fl_offset f < ov + v) fs)) \<longleftrightarrow>
      f \<in> set fs \<and> fl_offset f < ov + v \<and> p = \<lparr>sp_outpoint = \<lparr>op_txid = txid, op_vout = vout\<rparr>, sp_offset = fl_offset f - ov\<rparr>"
    by auto
  have lt: "f \<in> set fs \<Longrightarrow> fl_offset f - ov < v \<longleftrightarrow> fl_offset f < ov + v" using 2(3) by auto
  show ?case unfolding eq set_append Un_iff IH here using lt by (auto simp: not_less)
qed simp

lemma set_fst_layout: "fst ` set (layout txid vs vout ov fs) \<subseteq> set fs"
proof (induction txid vs vout ov fs rule: layout.induct)
  case (2 txid v vs vout ov fs)
  then show ?case by (auto simp: image_Un image_image dest!: set_dropWhileD set_takeWhileD dest: subsetD)
qed simp

lemma distinct_layout: "distinct (map h fs) \<Longrightarrow> distinct (map (\<lambda>m. h (fst m)) (layout txid vs vout ov fs))"
proof (induction txid vs vout ov fs rule: layout.induct)
  case (2 txid v vs vout ov fs)
  let ?here = "takeWhile (\<lambda>f. fl_offset f < ov + v) fs" and ?rest = "dropWhile (\<lambda>f. fl_offset f < ov + v) fs"
  have d: "distinct (map h ?here @ map h ?rest)" using 2(2) by (simp add: map_append [symmetric] del: map_append)
  then have "distinct (map (\<lambda>m. h (fst m)) (layout txid vs (Suc vout) (ov + v) ?rest))" using 2(1) by simp
  moreover have "set (map (\<lambda>m. h (fst m)) (layout txid vs (Suc vout) (ov + v) ?rest)) \<subseteq> set (map h ?rest)"
    using set_fst_layout [of txid vs "Suc vout" "ov + v" ?rest] by (force simp: image_subset_iff)
  ultimately show ?case using d by (simp add: comp_def) blast
qed simp

lemma destinations_of_append:
  assumes "distinct (map (fl_inscription_id \<circ> fst) (ms @ ns))"
  shows "destinations_of (ms @ ns) = destinations_of ms ++ destinations_of ns"
proof -
  have "dom (destinations_of ms) \<inter> dom (destinations_of ns) = {}"
    using assms by (auto simp: destinations_of_def dom_map_of_conv_image_fst image_image split_beta)
  then show ?thesis by (metis destinations_of_def map_add_comm map_append map_of_append)
qed

lemma ready_append:
  assumes "consistent U" and "ready U (ms @ ns)" and "run_moves ranges tx ms U = Inr U'"
  shows "ready U ms" and "ready U' ns"
proof -
  show "ready U ms" using assms(2) by (auto simp: ready_def)
  show "ready U' ns"
    using assms
  proof (induction ms arbitrary: U)
    case (Cons m ms)
    obtain f p where m: "m = (f, p)" by fastforce
    from Cons.prems(3) m obtain U1 where up: "update_inscription_location ranges f p tx U = Inr U1"
      and rest: "run_moves ranges tx ms U1 = Inr U'" by (auto simp: res_bind_eq_Inr)
    have "consistent U1"
      by (rule consistent_step [OF Cons.prems(1) up]) (use Cons.prems(2) m in \<open>simp_all add: ready_def\<close>)
    moreover have "ready U1 (ms @ ns)" using ready_step [OF Cons.prems(1) up] Cons.prems(2) m by simp
    ultimately show ?case using Cons.IH rest by blast
  qed simp
qed

lemma same_tables:
  assumes "iu_id_to_satpoint U' = iu_id_to_satpoint U" and "iu_satpoint_to_id U' = iu_satpoint_to_id U"
  shows "consistent U' = consistent U" and "ready U' ms = ready U ms"
  unfolding consistent_def ready_def movable_def assms by simp_all

lemma place_on_output_Inr:
  assumes "place_on_output ranges tx q ov end' fs U = Inr (rest, U')"
  shows "rest = dropWhile (\<lambda>f. fl_offset f < end') fs"
    and "run_moves ranges tx (map (\<lambda>f. (f, \<lparr>sp_outpoint = q, sp_offset = fl_offset f - ov\<rparr>))
      (takeWhile (\<lambda>f. fl_offset f < end') fs)) U = Inr U'"
proof -
  have "rest = dropWhile (\<lambda>f. fl_offset f < end') fs \<and>
    run_moves ranges tx (map (\<lambda>f. (f, \<lparr>sp_outpoint = q, sp_offset = fl_offset f - ov\<rparr>))
      (takeWhile (\<lambda>f. fl_offset f < end') fs)) U = Inr U'"
    using assms by (induction fs arbitrary: U) (auto simp: res_simps not_le split: if_splits)
  then show "rest = dropWhile (\<lambda>f. fl_offset f < end') fs"
    and "run_moves ranges tx (map (\<lambda>f. (f, \<lparr>sp_outpoint = q, sp_offset = fl_offset f - ov\<rparr>))
      (takeWhile (\<lambda>f. fl_offset f < end') fs)) U = Inr U'" by auto
qed

fun leftover :: "nat list \<Rightarrow> nat \<Rightarrow> flotsam list \<Rightarrow> flotsam list" where
  "leftover [] ov fs = fs"
| "leftover (v # vs) ov fs = leftover vs (ov + v) (dropWhile (\<lambda>f. fl_offset f < ov + v) fs)"

lemma leftover_filter:
  assumes "sorted (map fl_offset fs)" and "\<forall>f\<in>set fs. ov \<le> fl_offset f"
  shows "leftover vs ov fs = filter (\<lambda>f. ov + sum_list vs \<le> fl_offset f) fs"
  using assms
proof (induction vs ov fs rule: leftover.induct)
  case (1 ov fs)
  then show ?case by (simp add: filter_id_conv)
next
  case (2 v vs ov fs)
  note tw = takeWhile_sorted_filter [OF 2(2), of "ov + v"]
  define rest where "rest = filter (\<lambda>f. ov + v \<le> fl_offset f) fs"
  have "leftover vs (ov + v) rest = filter (\<lambda>f. ov + v + sum_list vs \<le> fl_offset f) rest"
    by (rule 2(1) [unfolded tw [THEN conjunct2], folded rest_def])
      (use sorted_filter [OF 2(2)] in \<open>simp_all add: rest_def\<close>)
  also have "\<dots> = filter (\<lambda>f. ov + sum_list (v # vs) \<le> fl_offset f) fs"
    by (auto simp: rest_def intro!: filter_cong)
  finally show ?case using tw by (simp add: rest_def)
qed

lemma place_on_outputs_spec:
  assumes "place_on_outputs A ranges tx txid outs vout ov fs U = Inr ((ov', rest), U')"
    and "consistent U" and "ready U (layout txid (map fst outs) vout ov fs)"
  shows "consistent U' \<and> bystanders U' = bystanders U \<and> ov' = ov + sum_list (map fst outs) \<and>
    rest = leftover (map fst outs) ov fs \<and> loc U' = loc U ++ destinations_of (layout txid (map fst outs) vout ov fs)"
  using assms
proof (induction outs arbitrary: vout ov fs U)
  case Nil
  then show ?case by (simp add: destinations_of_def)
next
  case (Cons out outs)
  obtain v script where out: "out = (v, script)" by fastforce
  let ?here = "map (\<lambda>f. (f, \<lparr>sp_outpoint = \<lparr>op_txid = txid, op_vout = vout\<rparr>, sp_offset = fl_offset f - ov\<rparr>))
      (takeWhile (\<lambda>f. fl_offset f < ov + v) fs)"
  let ?fs = "dropWhile (\<lambda>f. fl_offset f < ov + v) fs"
  let ?ms = "layout txid (map fst outs) (Suc vout) (ov + v) ?fs"
  from Cons.prems(1) out obtain fs1 U1 where
    here: "place_on_output ranges tx \<lparr>op_txid = txid, op_vout = vout\<rparr> ov (ov + v) fs U = Inr (fs1, U1)"
    and rest: "place_on_outputs A ranges tx txid outs (Suc vout) (ov + v) fs1
      (U1\<lparr>iu_value_cache := hm_insert \<lparr>op_txid = txid, op_vout = vout\<rparr> (v, cached_address A script) (iu_value_cache U1)\<rparr>)
        = Inr ((ov', rest), U')"
    by (auto simp: res_simps Let_def)
  have fs1: "fs1 = ?fs" using place_on_output_Inr(1) [OF here] .
  note run = place_on_output_Inr(2) [OF here]
  have rdy: "ready U (?here @ ?ms)" using Cons.prems(3) out by simp
  note ap = ready_append [OF Cons.prems(2) rdy run]
  note spec = run_moves_spec [OF Cons.prems(2) ap(1) run]
  let ?U2 = "U1\<lparr>iu_value_cache := hm_insert \<lparr>op_txid = txid, op_vout = vout\<rparr> (v, cached_address A script) (iu_value_cache U1)\<rparr>"
  have t: "consistent ?U2" "ready ?U2 ?ms" "bystanders ?U2 = bystanders U1"
    using spec(1) ap(2) same_tables [of ?U2 U1] by (simp_all add: bystanders_def)
  from Cons.IH [OF rest [unfolded fs1] t(1,2)] have IH: "consistent U'" "bystanders U' = bystanders ?U2"
    "ov' = ov + v + sum_list (map fst outs)" "rest = leftover (map fst outs) (ov + v) ?fs"
    "loc U' = loc U1 ++ destinations_of ?ms" by simp_all
  have "destinations_of (?here @ ?ms) = destinations_of ?here ++ destinations_of ?ms"
    using rdy by (intro destinations_of_append) (simp add: ready_def)
  then have "loc U' = loc U ++ destinations_of (?here @ ?ms)" using IH(5) spec(3) by (simp only: map_add_assoc)
  then show ?case using IH(1-4) t(3) spec(2) by (simp only: out list.map fst_conv layout.simps leftover.simps sum_list.Cons add.assoc)
qed

end
