(* ===== verification/Inscription_Invariant.thy ===== *)
theory Inscription_Invariant
  imports Inscription_Location
begin

text \<open>
  The invariant of the inscription tables while a block is indexed, and that every transaction keeps
  it. \<open>V\<close> is the value of every output of the chain; what the invariant asks of a transaction is what
  consensus guarantees: it spends distinct outputs that have not been spent, and has a txid of its own.
\<close>

section \<open>Reading the inputs\<close>

definition scanned :: "inscription_updater \<Rightarrow> inscription_updater \<Rightarrow> bool" where
  "scanned U U' \<longleftrightarrow> iu_id_to_satpoint U' = iu_id_to_satpoint U \<and> iu_satpoint_to_id U' = iu_satpoint_to_id U \<and>
    iu_flotsam U' = iu_flotsam U \<and> iu_height U' = iu_height U \<and> iu_txid_to_tx U' = iu_txid_to_tx U \<and>
    iu_partial_txid_to_txids U' = iu_partial_txid_to_txids U \<and> iu_lost_sats U' = iu_lost_sats U \<and>
    iu_reward U' = iu_reward U \<and> iu_number_to_id U' = iu_number_to_id U \<and> iu_next_number U' = iu_next_number U \<and>
    iu_id_to_entry U' = iu_id_to_entry U"

lemma scanned_refl [simp]: "scanned U U"
  by (simp add: scanned_def)

lemma scanned_trans [trans]: "scanned U U' \<Longrightarrow> scanned U' U'' \<Longrightarrow> scanned U U''"
  by (simp add: scanned_def)

lemma take_value_scanned: "take_value A q U = Inr (v, U') \<Longrightarrow> scanned U U'"
  by (auto simp: take_value_def forget_address_def remove_address_def scanned_def res_simps
      split: option.splits list.splits)

text \<open>The values that are read are those of the spent outputs.\<close>

fun reads :: "chain_api \<Rightarrow> (outpoint \<Rightarrow> nat) \<Rightarrow> outpoint list \<Rightarrow> inscription_updater \<Rightarrow> bool" where
  "reads A V [] U \<longleftrightarrow> True"
| "reads A V (q # qs) U \<longleftrightarrow> (case take_value A q U of Inl _ \<Rightarrow> False | Inr (v, U') \<Rightarrow> v = V q \<and> reads A V qs U')"

fun carried :: "txid \<Rightarrow> u32 \<Rightarrow> (outpoint \<Rightarrow> nat) \<Rightarrow> (sat_point, inscription_id) hashmap \<Rightarrow> outpoint list \<Rightarrow> nat \<Rightarrow> flotsam list" where
  "carried txid k V t [] base = []"
| "carried txid k V t (q # qs) base =
    map (\<lambda>(p, i). \<lparr>fl_txid = txid, fl_tx_index = k, fl_inscription_id = i, fl_offset = base + sp_offset p,
      fl_old_satpoint = p, fl_origin = Old p\<rparr>) (inscriptions_on_output t q) @ carried txid k V t qs (base + V q)"

lemma spent_inscriptions_Inr:
  "spent_inscriptions txid k base rows = Inr fs \<Longrightarrow> fs =
    map (\<lambda>(p, i). \<lparr>fl_txid = txid, fl_tx_index = k, fl_inscription_id = i, fl_offset = base + sp_offset p,
      fl_old_satpoint = p, fl_origin = Old p\<rparr>) rows"
  by (induction rows arbitrary: fs) (auto simp: res_simps)

lemma scan_inputs_Inr:
  assumes "scan_inputs A D txid k ins base fs U = Inr ((base', fs'), U')"
    and "null_outpoint \<notin> fst ` set ins" and "reads A V (map fst ins) U"
  shows "base' = base + sum_list (map V (map fst ins)) \<and>
    fs' = fs @ carried txid k V (iu_satpoint_to_id U) (map fst ins) base \<and> scanned U U'"
  using assms
proof (induction ins arbitrary: base fs U)
  case (Cons x ins)
  obtain q script where x: "x = (q, script)" by fastforce
  with Cons.prems(2) have q: "q \<noteq> null_outpoint" by auto
  from Cons.prems(1) x q obtain gs v U1 where
      gs: "spent_inscriptions txid k base (inscriptions_on_output (iu_satpoint_to_id U) q) = Inr gs"
    and tv: "take_value A q U = Inr (v, U1)"
    and rest: "scan_inputs A D txid k ins (base + v) (fs @ gs) U1 = Inr ((base', fs'), U')"
    by (auto simp: res_simps)
  have v: "v = V q" "reads A V (map fst ins) U1" using Cons.prems(3) tv x by simp_all
  note sc = take_value_scanned [OF tv]
  have "base' = base + v + sum_list (map V (map fst ins)) \<and>
      fs' = (fs @ gs) @ carried txid k V (iu_satpoint_to_id U1) (map fst ins) (base + v) \<and> scanned U1 U'"
    using Cons.IH [OF rest] Cons.prems(2) v(2) by auto
  then show ?case
    using sc v(1) spent_inscriptions_Inr [OF gs] scanned_trans [OF sc] x
    by (auto simp: scanned_def)
qed simp

lemma carriedD:
  assumes "f \<in> set (carried txid k V t qs base)"
  obtains p where "fl_origin f = Old p" and "(p, fl_inscription_id f) \<in> set t" and "sp_outpoint p \<in> set qs"
    and "base \<le> fl_offset f" and "fl_old_satpoint f = p"
  using assms
proof (induction txid k V t qs base rule: carried.induct)
  case (2 txid k V t q qs base)
  from 2(3) show ?case
  proof (simp only: carried.simps set_append Un_iff, elim disjE)
    assume "f \<in> set (map (\<lambda>(p, i). \<lparr>fl_txid = txid, fl_tx_index = k, fl_inscription_id = i, fl_offset = base + sp_offset p,
      fl_old_satpoint = p, fl_origin = Old p\<rparr>) (inscriptions_on_output t q))"
    then show thesis by (intro 2(2)) (auto simp: inscriptions_on_output_def)
  next
    assume *: "f \<in> set (carried txid k V t qs (base + V q))"
    show thesis by (rule 2(1) [OF _ *]) (rule 2(2), auto)
  qed
qed simp

lemma carried_complete:
  assumes "(p, i) \<in> set t" and "sp_outpoint p \<in> set qs"
  shows "\<exists>f\<in>set (carried txid k V t qs base). fl_inscription_id f = i \<and> fl_origin f = Old p"
  using assms(2)
proof (induction qs arbitrary: base)
  case (Cons q qs)
  show ?case
  proof (cases "sp_outpoint p = q")
    case True
    then have "(p, i) \<in> set (inscriptions_on_output t q)" using assms(1) by (simp add: inscriptions_on_output_def)
    then show ?thesis by force
  next
    case False
    with Cons show ?thesis by auto
  qed
qed simp

text \<open>Offsets of what is carried in are distinct and below the value that goes in.\<close>

lemma carried_offsets:
  assumes "\<forall>(p, i)\<in>set t. sp_outpoint p \<in> set qs \<longrightarrow> sp_offset p < V (sp_outpoint p)" and "distinct (map fst t)"
  shows "(\<forall>f\<in>set (carried txid k V t qs base). fl_offset f < base + sum_list (map V qs)) \<and>
    distinct (map fl_offset (carried txid k V t qs base))"
  using assms(1)
proof (induction qs arbitrary: base)
  case (Cons q qs)
  let ?rows = "inscriptions_on_output t q"
  let ?fs = "map (\<lambda>(p, i). \<lparr>fl_txid = txid, fl_tx_index = k, fl_inscription_id = i, fl_offset = base + sp_offset p,
      fl_old_satpoint = p, fl_origin = Old p\<rparr>) ?rows"
  have IH: "\<forall>f\<in>set (carried txid k V t qs (base + V q)). fl_offset f < base + V q + sum_list (map V qs)"
    "distinct (map fl_offset (carried txid k V t qs (base + V q)))"
    using Cons by auto
  have low: "\<forall>f\<in>set ?fs. fl_offset f < base + V q"
    using Cons.prems by (force simp: inscriptions_on_output_def)
  have "distinct (map (\<lambda>(p, i). base + sp_offset p) ?rows)"
  proof -
    have "distinct (map fst ?rows)" using assms(2) by (simp add: inscriptions_on_output_def distinct_map_filter)
    moreover have "inj_on (\<lambda>p. base + sp_offset p) (fst ` set ?rows)"
      by (auto simp: inj_on_def inscriptions_on_output_def)
    ultimately have "distinct (map (\<lambda>p. base + sp_offset p) (map fst ?rows))" by (simp only: distinct_map set_map)
    then show ?thesis by (simp add: comp_def case_prod_unfold)
  qed
  then have d: "distinct (map fl_offset ?fs)" by (simp add: comp_def case_prod_unfold)
  have high: "\<forall>f\<in>set (carried txid k V t qs (base + V q)). base + V q \<le> fl_offset f"
    using carriedD by blast
  show ?case
    using IH low d high by (fastforce simp: add.assoc)
qed simp

section \<open>Chains of reveals\<close>

definition head_id :: "byte list \<Rightarrow> inscription_id" where
  "head_id c = \<lparr>ii_txid = take 32 c, ii_index = 0\<rparr>"

text \<open>Ids that are in use, and those the stored chains will give their inscriptions.\<close>

definition taken :: "inscription_updater \<Rightarrow> inscription_id set" where
  "taken U = dom (loc U) \<union> fl_inscription_id ` set (iu_flotsam U)"

definition chains_ok :: "inscription_updater \<Rightarrow> bool" where
  "chains_ok U \<longleftrightarrow> hm_ok (iu_partial_txid_to_txids U) \<and>
    (\<forall>k c. map_of (iu_partial_txid_to_txids U) k = Some c \<longrightarrow> 32 \<le> length c \<and> head_id c \<notin> taken U) \<and>
    (\<forall>k k' c c'. map_of (iu_partial_txid_to_txids U) k = Some c \<longrightarrow> map_of (iu_partial_txid_to_txids U) k' = Some c' \<longrightarrow>
      head_id c = head_id c' \<longrightarrow> k = k')"

text \<open>A txid that has not occurred.\<close>

definition fresh_txid :: "txid \<Rightarrow> inscription_updater \<Rightarrow> bool" where
  "fresh_txid txid U \<longleftrightarrow> length txid = 32 \<and> txid \<noteq> zero_txid \<and>
    (\<forall>p\<in>dom (who U). op_txid (sp_outpoint p) \<noteq> txid) \<and> (\<forall>i\<in>taken U. ii_txid i \<noteq> txid) \<and>
    (\<forall>k c. map_of (iu_partial_txid_to_txids U) k = Some c \<longrightarrow> k \<noteq> txid \<and> take 32 c \<noteq> txid)"

lemma head_id_append: "32 \<le> length c \<Longrightarrow> head_id (c @ d) = head_id c"
  by (simp add: head_id_def)

lemma head_id_txid: "length txid = 32 \<Longrightarrow> head_id txid = \<lparr>ii_txid = txid, ii_index = 0\<rparr>"
  by (simp add: head_id_def)

text \<open>What a reveal does: at most one new inscription, with an id of its own, at offset zero.\<close>

definition revealed :: "txid \<Rightarrow> flotsam list \<Rightarrow> inscription_updater \<Rightarrow> inscription_updater \<Rightarrow> bool" where
  "revealed txid new U U' \<longleftrightarrow>
    iu_id_to_satpoint U' = iu_id_to_satpoint U \<and> iu_satpoint_to_id U' = iu_satpoint_to_id U \<and>
    iu_flotsam U' = iu_flotsam U \<and> iu_lost_sats U' = iu_lost_sats U \<and> iu_reward U' = iu_reward U \<and>
    iu_height U' = iu_height U \<and>
    iu_number_to_id U' = iu_number_to_id U \<and> iu_next_number U' = iu_next_number U \<and> iu_id_to_entry U' = iu_id_to_entry U \<and>
    chains_ok U' \<and>
    (new = [] \<or> (\<exists>f a b. new = [f] \<and> fl_origin f = New a b \<and> fl_offset f = 0 \<and> fl_inscription_id f \<notin> taken U \<and>
      (\<forall>k c. map_of (iu_partial_txid_to_txids U') k = Some c \<longrightarrow> head_id c \<noteq> fl_inscription_id f))) \<and>
    (\<forall>t. fresh_txid t U \<longrightarrow> t \<noteq> txid \<longrightarrow> fresh_txid t U' \<and> (\<forall>f\<in>set new. ii_txid (fl_inscription_id f) \<noteq> t))"

lemma map_of_delete [simp]: "map_of (AList.delete k t) k' = (if k' = k then None else map_of t k')"
  by (simp add: delete_conv')

lemma hm_ok_delete [simp]: "hm_ok t \<Longrightarrow> hm_ok (AList.delete k t)"
  by (simp add: hm_ok_def distinct_delete)

lemma taken_tables:
  assumes "iu_id_to_satpoint U' = iu_id_to_satpoint U" and "iu_flotsam U' = iu_flotsam U"
  shows "taken U' = taken U"
  by (simp add: taken_def assms)

lemma chains_ok_extend:
  assumes ok: "chains_ok U" and new: "fresh_txid txid U" and U': "taken U' = taken U"
    and t: "iu_partial_txid_to_txids U' = hm_insert txid (c @ txid) (AList.delete k (iu_partial_txid_to_txids U))"
    and c: "map_of (iu_partial_txid_to_txids U) k = Some c \<or> map_of (iu_partial_txid_to_txids U) k = None \<and> c = []"
  shows "chains_ok U'"
proof -
  let ?t = "iu_partial_txid_to_txids U"
  have len: "length txid = 32" using new by (simp add: fresh_txid_def)
  have head: "head_id (c @ txid) \<notin> taken U \<and> (\<forall>k' c'. k' \<noteq> k \<longrightarrow> map_of ?t k' = Some c' \<longrightarrow> head_id c' \<noteq> head_id (c @ txid))"
  proof (cases "map_of ?t k")
    case None
    with c have "head_id (c @ txid) = \<lparr>ii_txid = txid, ii_index = 0\<rparr>" using head_id_txid [OF len] by simp
    then show ?thesis using new by (fastforce simp: fresh_txid_def head_id_def)
  next
    case (Some c0)
    with c have c0: "c0 = c" by simp
    then have "32 \<le> length c" "head_id c \<notin> taken U" using ok Some by (auto simp: chains_ok_def)
    moreover have "head_id c' \<noteq> head_id c" if "k' \<noteq> k" "map_of ?t k' = Some c'" for k' c'
      using ok Some that c0 unfolding chains_ok_def by metis
    ultimately show ?thesis by (simp add: head_id_append)
  qed
  have "hm_ok (iu_partial_txid_to_txids U')" using ok by (simp add: t chains_ok_def)
  moreover have "32 \<le> length c' \<and> head_id c' \<notin> taken U'" if "map_of (iu_partial_txid_to_txids U') k' = Some c'" for k' c'
    using that ok head len by (auto simp: t U' chains_ok_def split: if_splits)
  moreover have "k1 = k2" if "map_of (iu_partial_txid_to_txids U') k1 = Some c1"
    "map_of (iu_partial_txid_to_txids U') k2 = Some c2" "head_id c1 = head_id c2" for k1 k2 c1 c2
    using that ok head unfolding chains_ok_def by (auto simp: t split: if_splits)
  ultimately show ?thesis unfolding chains_ok_def by blast
qed

lemma chains_ok_delete:
  assumes "chains_ok U" and "taken U' = taken U" and "iu_partial_txid_to_txids U' = AList.delete k (iu_partial_txid_to_txids U)"
  shows "chains_ok U'"
  using assms unfolding chains_ok_def by (simp add: split: if_splits)

lemma reveal_revealed:
  assumes "reveal A tx txid n input_value U = Inr (new, U')" and ok: "chains_ok U" and txid: "fresh_txid txid U"
  shows "revealed txid new U U'"
proof -
  let ?t = "iu_partial_txid_to_txids U"
  from assms(1) obtain first where first: "index_or_panic (ct_input tx) 0 = Inr first"
    by (auto simp: reveal_def res_bind_eq_Inr lift_panic_Inr)
  define k where "k = op_txid (fst first)"
  define c where "c = (case map_of ?t k of None \<Rightarrow> [] | Some c \<Rightarrow> c)"
  have c: "map_of ?t k = Some c \<or> map_of ?t k = None \<and> c = []" by (auto simp: c_def split: option.splits)
  have len: "length txid = 32" using txid by (simp add: fresh_txid_def)
  have own: "head_id (c @ txid) \<notin> taken U \<and> (\<forall>k' c'. k' \<noteq> k \<longrightarrow> map_of ?t k' = Some c' \<longrightarrow> head_id c' \<noteq> head_id (c @ txid))"
  proof (cases "map_of ?t k")
    case None
    then have "head_id (c @ txid) = \<lparr>ii_txid = txid, ii_index = 0\<rparr>" using head_id_txid [OF len] by (simp add: c_def)
    then show ?thesis using txid by (fastforce simp: fresh_txid_def head_id_def)
  next
    case (Some c0)
    then have "c0 = c" by (simp add: c_def)
    then have "32 \<le> length c" "head_id c \<notin> taken U" using ok Some by (auto simp: chains_ok_def)
    moreover have "head_id c' \<noteq> head_id c" if "k' \<noteq> k" "map_of ?t k' = Some c'" for k' c'
      using ok Some that \<open>c0 = c\<close> unfolding chains_ok_def by metis
    ultimately show ?thesis by (simp add: head_id_append)
  qed
  have tail: "take 32 (c @ txid) \<noteq> t" if "fresh_txid t U" "t \<noteq> txid" for t
  proof (cases "map_of ?t k")
    case (Some c0)
    with c that(1) ok have "32 \<le> length c" "take 32 c \<noteq> t" unfolding fresh_txid_def chains_ok_def by auto
    then show ?thesis by simp
  qed (use c that(2) len in simp)
  from assms(1) first obtain txs where run: "(case from_transactions (map (map snd \<circ> ct_input) (txs @ [tx])) of
      ParsedNone \<Rightarrow> Inr ([], U)
    | Partial \<Rightarrow> Inr ([], U\<lparr>iu_partial_txid_to_txids := hm_insert txid (c @ txid) (AList.delete k ?t),
        iu_txid_to_tx := hm_insert txid (consensus_encode A tx) (iu_txid_to_tx U)\<rparr>)
    | Complete insc \<Rightarrow> reveal_complete tx txid n input_value (fst first) c insc A U) = Inr (new, U')"
    unfolding reveal_def c_def k_def Let_def res_bind_eq_Inr lift_panic_Inr by auto
  show ?thesis
  proof (cases "from_transactions (map (map snd \<circ> ct_input) (txs @ [tx]))")
    case ParsedNone
    with run ok show ?thesis by (simp add: revealed_def)
  next
    case Partial
    with run have U': "U' = U\<lparr>iu_partial_txid_to_txids := hm_insert txid (c @ txid) (AList.delete k ?t),
        iu_txid_to_tx := hm_insert txid (consensus_encode A tx) (iu_txid_to_tx U)\<rparr>" and new: "new = []" by simp_all
    have "chains_ok U'" by (rule chains_ok_extend [OF ok txid _ _ c]) (simp_all add: U' taken_def)
    moreover have "fresh_txid t U'" if "fresh_txid t U" "t \<noteq> txid" for t
      using that tail [OF that] unfolding fresh_txid_def by (auto simp: U' taken_def split: if_splits)
    ultimately show ?thesis by (simp add: revealed_def U' new)
  next
    case (Complete insc)
    with run have "reveal_complete tx txid n input_value (fst first) c insc A U = Inr (new, U')" by simp
    then obtain fee where "new = [\<lparr>fl_txid = txid, fl_tx_index = n, fl_inscription_id = head_id (c @ txid), fl_offset = 0,
        fl_old_satpoint = \<lparr>sp_outpoint = fst first, sp_offset = 0\<rparr>, fl_origin = New fee insc\<rparr>]"
      and U': "U' = U\<lparr>iu_partial_txid_to_txids := AList.delete k ?t,
               iu_txid_to_tx := hm_insert txid (consensus_encode A tx) (iu_txid_to_tx U),
               iu_id_to_txids := hm_insert (take 32 (c @ txid) @ replicate 4 0) (c @ txid) (iu_id_to_txids U)\<rparr>"
      by (auto simp: reveal_complete_def Let_def res_bind_eq_Inr k_def head_id_def)
    moreover have "chains_ok U'" by (rule chains_ok_delete [OF ok, where k = k]) (simp_all add: U' taken_def)
    moreover have "fresh_txid t U'" if "fresh_txid t U" for t
      using that unfolding fresh_txid_def by (auto simp: U' taken_def split: if_splits)
    ultimately show ?thesis using own tail by (auto simp: revealed_def head_id_def)
  qed
qed

section \<open>Numbers\<close>

text \<open>Inscriptions are numbered without gaps, and every one that has a place has an entry with its number.\<close>

definition numbered :: "inscription_updater \<Rightarrow> bool" where
  "numbered U \<longleftrightarrow> (\<forall>n. map_of (iu_number_to_id U) n \<noteq> None \<longleftrightarrow> n < iu_next_number U) \<and>
    (\<forall>n i. map_of (iu_number_to_id U) n = Some i \<longrightarrow> entry_number U i = Some n) \<and>
    dom (map_of (iu_id_to_entry U)) = dom (loc U)"

lemma numbered_step:
  assumes con: "consistent U" and num: "numbered U" and mov: "movable U f"
    and up: "update_inscription_location ranges f p tx U = Inr U'"
  shows "numbered U'"
proof -
  let ?i = "fl_inscription_id f"
  from up obtain U1 ops j where reg: "register_origin ranges f U = Inr U1"
    and U': "U' = U1\<lparr>iu_operations := ops, iu_journal := j,
      iu_satpoint_to_id := hm_insert p ?i (iu_satpoint_to_id U1),
      iu_id_to_satpoint := hm_insert ?i p (iu_id_to_satpoint U1)\<rparr>"
    by (auto simp: update_inscription_location_def Let_def res_bind_eq_Inr)
  note loc1 = register_origin_Inr(1) [OF reg]
  show ?thesis
  proof (cases "fl_origin f")
    case (Old q)
    then have "who U q = Some ?i" using mov by (simp add: movable_def)
    then have "?i \<in> dom (loc U)" using con by (auto simp: consistent_def)
    then have "dom (loc U') = dom (loc U)" by (simp add: U' loc1 insert_absorb)
    moreover have "iu_number_to_id U' = iu_number_to_id U" "iu_next_number U' = iu_next_number U"
      "iu_id_to_entry U' = iu_id_to_entry U"
      using reg Old by (auto simp: U' register_origin_def)
    ultimately show ?thesis using num unfolding numbered_def entry_number_def by simp
  next
    case (New fee insc)
    then have free: "loc U ?i = None" using mov by (simp add: movable_def)
    with num have no_entry: "map_of (iu_id_to_entry U) ?i = None" unfolding numbered_def by (metis domIff)
    then have "entry_number U ?i = None" by (simp add: entry_number_def)
    then have other: "map_of (iu_number_to_id U) n \<noteq> Some ?i" for n
      using num unfolding numbered_def by (metis option.distinct(1))
    from reg New obtain sat where
      n: "iu_number_to_id U1 = hm_insert (iu_next_number U) ?i (iu_number_to_id U)" "iu_next_number U1 = iu_next_number U + 1"
      and e: "iu_id_to_entry U1 = hm_insert ?i (inscription_entry_store \<lparr>ie_fee = fee, ie_height = iu_height U,
        ie_inscription_number = iu_next_number U, ie_sat = sat, ie_sequence_number = 0, ie_timestamp = iu_timestamp U\<rparr>)
          (iu_id_to_entry U)"
      by (auto simp: register_origin_def Let_def res_simps split: option.splits)
    have "entry_number U' ?i = Some (iu_next_number U)"
      by (simp add: U' entry_number_def e inscription_entry_load_def inscription_entry_store_def)
    moreover have "entry_number U' i = entry_number U i" if "i \<noteq> ?i" for i
      using that by (simp add: U' entry_number_def e)
    moreover have "dom (map_of (iu_id_to_entry U')) = dom (loc U')"
      using num loc1 by (simp add: U' e numbered_def)
    moreover have "map_of (iu_number_to_id U') = (map_of (iu_number_to_id U))(iu_next_number U \<mapsto> ?i)"
      "iu_next_number U' = iu_next_number U + 1" by (simp_all add: U' n)
    ultimately show ?thesis
      using num other unfolding numbered_def by (auto simp: less_Suc_eq) metis
  qed
qed

lemma numbered_moves:
  assumes "consistent U" and "numbered U" and "ready U ms" and "run_moves ranges tx ms U = Inr U'"
  shows "numbered U'"
  using assms
proof (induction ms arbitrary: U)
  case (Cons m ms)
  obtain f p where m: "m = (f, p)" by fastforce
  from Cons.prems(4) m obtain U1 where up: "update_inscription_location ranges f p tx U = Inr U1"
    and rest: "run_moves ranges tx ms U1 = Inr U'" by (auto simp: res_bind_eq_Inr)
  have mov: "who U p = None" "movable U f" using Cons.prems(3) m by (auto simp: ready_def)
  have "consistent U1" by (rule consistent_step [OF Cons.prems(1) up mov])
  moreover have "ready U1 ms" using ready_step [OF Cons.prems(1) up] Cons.prems(3) m by simp
  moreover have "numbered U1" by (rule numbered_step [OF Cons.prems(1,2) mov(2) up])
  ultimately show ?case using Cons.IH rest by blast
qed simp

lemma numbered_same:
  assumes "iu_number_to_id U' = iu_number_to_id U" "iu_next_number U' = iu_next_number U"
    "iu_id_to_entry U' = iu_id_to_entry U" "iu_id_to_satpoint U' = iu_id_to_satpoint U"
  shows "numbered U' = numbered U"
  unfolding numbered_def entry_number_def assms ..

lemma place_on_outputs_numbered:
  assumes "place_on_outputs A ranges tx txid outs vout ov fs U = Inr ((ov', rest), U')"
    and "consistent U" and "ready U (layout txid (map fst outs) vout ov fs)" and "numbered U"
  shows "numbered U'"
  using assms
proof (induction outs arbitrary: vout ov fs U)
  case (Cons out outs)
  obtain v script where out: "out = (v, script)" by fastforce
  let ?here = "map (\<lambda>f. (f, \<lparr>sp_outpoint = \<lparr>op_txid = txid, op_vout = vout\<rparr>, sp_offset = fl_offset f - ov\<rparr>))
      (takeWhile (\<lambda>f. fl_offset f < ov + v) fs)"
  let ?fs = "dropWhile (\<lambda>f. fl_offset f < ov + v) fs"
  let ?ms = "layout txid (map fst outs) (Suc vout) (ov + v) ?fs"
  from Cons.prems(1) out obtain fs1 U1 where
    here: "place_on_output ranges tx \<lparr>op_txid = txid, op_vout = vout\<rparr> ov (ov + v) fs U = Inr (fs1, U1)"
    and rest: "place_on_outputs A ranges tx txid outs (Suc vout) (ov + v) fs1
      (U1\<lparr>iu_value_cache := hm_insert \<lparr>op_txid = txid, op_vout = vout\<rparr> (v, cached_address A script) (iu_value_cache U1)\<rparr>)
        = Inr ((ov', rest), U')"
    by (auto simp: res_simps Let_def)
  note fs1 = place_on_output_Inr(1) [OF here] and run = place_on_output_Inr(2) [OF here]
  have rdy: "ready U (?here @ ?ms)" using Cons.prems(3) out by simp
  note ap = ready_append [OF Cons.prems(2) rdy run]
  let ?U2 = "U1\<lparr>iu_value_cache := hm_insert \<lparr>op_txid = txid, op_vout = vout\<rparr> (v, cached_address A script) (iu_value_cache U1)\<rparr>"
  have "consistent ?U2" "ready ?U2 ?ms"
    using run_moves_spec(1) [OF Cons.prems(2) ap(1) run] ap(2) same_tables [of ?U2 U1] by simp_all
  moreover have "numbered ?U2"
    using numbered_moves [OF Cons.prems(2,4) ap(1) run] numbered_same [of ?U2 U1] by simp
  ultimately show ?case using Cons.IH [OF rest [unfolded fs1]] by blast
qed simp

end
