(* ===== verification/Inscription_Block.thy ===== *)
theory Inscription_Block
  imports Inscription_Invariant
begin

text \<open>
  Every transaction of a block keeps the invariant of the inscription tables and moves inscriptions
  first in, first out; when the coinbase transaction has been indexed nothing floats any more.
\<close>

section \<open>The invariant\<close>

definition block_inv :: "(outpoint \<Rightarrow> nat) \<Rightarrow> nat \<Rightarrow> outpoint set \<Rightarrow> inscription_updater \<Rightarrow> bool" where
  "block_inv V subsidy spent U \<longleftrightarrow> consistent U \<and> numbered U \<and> chains_ok U \<and> null_outpoint \<notin> spent \<and>
    (\<forall>p i. who U p = Some i \<longrightarrow>
      sp_offset p < (if sp_outpoint p = null_outpoint then iu_lost_sats U else V (sp_outpoint p))) \<and>
    distinct (map fl_offset (iu_flotsam U)) \<and> distinct (map fl_inscription_id (iu_flotsam U)) \<and> subsidy \<le> iu_reward U \<and>
    (\<forall>f\<in>set (iu_flotsam U). subsidy \<le> fl_offset f \<and> fl_offset f < iu_reward U \<and> movable U f \<and>
      (\<forall>p. fl_origin f = Old p \<longrightarrow> sp_outpoint p \<in> spent)) \<and>
    (\<forall>p i. who U p = Some i \<longrightarrow> sp_outpoint p \<in> spent \<longrightarrow> i \<in> fl_inscription_id ` set (iu_flotsam U))"

text \<open>What consensus guarantees of a transaction other than the coinbase.\<close>

definition entered :: "chain_api \<Rightarrow> chain_tx \<Rightarrow> txid \<Rightarrow> u32 \<Rightarrow> inscription_updater \<Rightarrow> inscription_updater" where
  "entered A tx txid k U =
    (let U = U\<lparr>iu_current_txid := txid, iu_current_tx_index := k\<rparr> in
     if iu_index_transactions U
     then U\<lparr>iu_transaction_id_to_transaction := hm_insert txid (consensus_encode A tx) (iu_transaction_id_to_transaction U)\<rparr>
     else U)"

definition outputs_valued :: "(outpoint \<Rightarrow> nat) \<Rightarrow> chain_tx \<Rightarrow> txid \<Rightarrow> bool" where
  "outputs_valued V tx txid \<longleftrightarrow>
    (\<forall>k < length (ct_output tx). V \<lparr>op_txid = txid, op_vout = k\<rparr> = fst (ct_output tx ! k))"

definition spends :: "chain_tx \<Rightarrow> outpoint list" where
  "spends tx = map fst (ct_input tx)"

definition valid_spend :: "chain_api \<Rightarrow> (outpoint \<Rightarrow> nat) \<Rightarrow> outpoint set \<Rightarrow> chain_tx \<Rightarrow> txid \<Rightarrow> u32 \<Rightarrow> inscription_updater \<Rightarrow> bool" where
  "valid_spend A V spent tx txid k U \<longleftrightarrow> fresh_txid txid U \<and> outputs_valued V tx txid \<and>
    null_outpoint \<notin> set (spends tx) \<and> distinct (spends tx) \<and> set (spends tx) \<inter> spent = {} \<and>
    (\<forall>q\<in>spent \<union> set (spends tx). op_txid q \<noteq> txid) \<and>
    0 < sum_list (map V (spends tx)) \<and> reads A V (spends tx) (entered A tx txid k U)"

text \<open>The position of a sat of an input among the sats of all inputs.\<close>

definition input_offset :: "(outpoint \<Rightarrow> nat) \<Rightarrow> outpoint list \<Rightarrow> sat_point \<Rightarrow> nat" where
  "input_offset V qs p = sum_list (map V (takeWhile (\<lambda>q. q \<noteq> sp_outpoint p) qs)) + sp_offset p"

lemma carried_input_offset:
  assumes "f \<in> set (carried txid k V t qs base)" and "fl_origin f = Old p" and "distinct qs"
  shows "fl_offset f = base + input_offset V qs p"
  using assms
proof (induction txid k V t qs base rule: carried.induct)
  case (2 txid k V t q qs base)
  show ?case
  proof (cases "f \<in> set (carried txid k V t qs (base + V q))")
    case True
    then obtain p' where "fl_origin f = Old p'" "sp_outpoint p' \<in> set qs" by (rule carriedD)
    with 2(3,4) have "sp_outpoint p \<noteq> q" by auto
    with 2 True show ?thesis by (simp add: input_offset_def)
  next
    case False
    with 2(2,3) show ?thesis by (auto simp: input_offset_def inscriptions_on_output_def)
  qed
qed simp

lemma layout_ready:
  assumes "sorted (map fl_offset fs)" and "distinct (map fl_offset fs)" and "distinct (map fl_inscription_id fs)"
    and "\<forall>f\<in>set fs. movable U f" and "\<forall>p\<in>dom (who U). op_txid (sp_outpoint p) \<noteq> txid"
  shows "ready U (layout txid vs 0 0 fs)"
proof -
  have mem: "(f, p) \<in> set (layout txid vs 0 0 fs) \<longleftrightarrow> f \<in> set fs \<and> spot txid vs 0 (fl_offset f) = Some p" for f p
    using set_layout [OF assms(1), of 0 f p] by simp
  have "distinct (map (\<lambda>m. fl_offset (fst m)) (layout txid vs 0 0 fs))" by (rule distinct_layout [OF assms(2)])
  then have d: "distinct (layout txid vs 0 0 fs)" "inj_on (\<lambda>m. fl_offset (fst m)) (set (layout txid vs 0 0 fs))"
    by (simp_all add: distinct_map)
  have "inj_on snd (set (layout txid vs 0 0 fs))"
  proof (rule inj_onI, clarsimp)
    fix f g p assume "(f, p) \<in> set (layout txid vs 0 0 fs)" "(g, p) \<in> set (layout txid vs 0 0 fs)"
    moreover from this have "fl_offset f = fl_offset g" unfolding mem using spot_inj by blast
    ultimately show "f = g" using inj_onD [OF d(2), of "(f, p)" "(g, p)"] by simp
  qed
  then have "distinct (map snd (layout txid vs 0 0 fs))" using d(1) by (simp add: distinct_map)
  moreover have "distinct (map (fl_inscription_id \<circ> fst) (layout txid vs 0 0 fs))"
    using distinct_layout [OF assms(3)] by (simp add: comp_def)
  moreover have "who U p = None \<and> movable U f" if "(f, p) \<in> set (layout txid vs 0 0 fs)" for f p
    using that spot_outpoint [of txid vs 0 "fl_offset f" p] assms(4,5) unfolding mem by (metis domIff)
  ultimately show ?thesis unfolding ready_def by auto
qed

lemma destinations_layout:
  assumes "sorted (map fl_offset fs)" and "distinct (map fl_inscription_id fs)"
  shows "destinations_of (layout txid vs 0 0 fs) i = Some p \<longleftrightarrow>
    (\<exists>f\<in>set fs. fl_inscription_id f = i \<and> spot txid vs 0 (fl_offset f) = Some p)"
proof -
  let ?ms = "layout txid vs 0 0 fs"
  have "map fst (map (\<lambda>(f, p). (fl_inscription_id f, p)) ?ms) = map (\<lambda>m. fl_inscription_id (fst m)) ?ms"
    by (simp add: case_prod_unfold)
  then have "distinct (map fst (map (\<lambda>(f, p). (fl_inscription_id f, p)) ?ms))"
    using distinct_layout [OF assms(2)] by (simp only:)
  then have "destinations_of ?ms i = Some p \<longleftrightarrow> (i, p) \<in> set (map (\<lambda>(f, p). (fl_inscription_id f, p)) ?ms)"
    unfolding destinations_of_def by (rule map_of_eq_Some_iff)
  also have "\<dots> \<longleftrightarrow> (\<exists>f. (f, p) \<in> set ?ms \<and> fl_inscription_id f = i)" by force
  also have "\<dots> \<longleftrightarrow> (\<exists>f\<in>set fs. fl_inscription_id f = i \<and> spot txid vs 0 (fl_offset f) = Some p)"
    using set_layout [OF assms(1), of 0 _ p] by auto
  finally show ?thesis .
qed

section \<open>After the inputs\<close>

text \<open>
  The state in which the outputs are laid out: \<open>L\<close> is what the inputs carry and what was revealed, in
  the tables of \<open>U\<close>, up to the chains of partial reveals.
\<close>

definition collected :: "txid \<Rightarrow> u32 \<Rightarrow> (outpoint \<Rightarrow> nat) \<Rightarrow> outpoint list \<Rightarrow> flotsam list \<Rightarrow> inscription_updater \<Rightarrow> flotsam list \<Rightarrow> bool" where
  "collected txid k V qs L U new \<longleftrightarrow> L = carried txid k V (iu_satpoint_to_id U) qs 0 @ new \<and>
    (new = [] \<or> (\<exists>f a b. new = [f] \<and> fl_origin f = New a b \<and> fl_offset f = 0 \<and> fl_inscription_id f \<notin> taken U)) \<and>
    (new \<noteq> [] \<longrightarrow> (\<forall>f\<in>set (carried txid k V (iu_satpoint_to_id U) qs 0). fl_offset f \<noteq> 0))"

lemma collected_facts:
  assumes col: "collected txid k V qs L U new" and con: "consistent U"
    and val: "\<forall>p i. who U p = Some i \<longrightarrow> sp_outpoint p \<in> set qs \<longrightarrow> sp_offset p < V (sp_outpoint p)"
    and pos: "0 < sum_list (map V qs)" and dist: "distinct qs"
  shows "distinct (map fl_offset L)" and "distinct (map fl_inscription_id L)" and "\<forall>f\<in>set L. movable U f"
    and "\<forall>f\<in>set L. fl_offset f < sum_list (map V qs)"
proof -
  let ?t = "iu_satpoint_to_id U"
  let ?c = "carried txid k V ?t qs 0"
  have ok: "distinct (map fst ?t)" using con by (simp add: consistent_def hm_ok_def)
  have row: "(p, i) \<in> set ?t \<longleftrightarrow> who U p = Some i" for p i using ok by (simp add: map_of_eq_Some_iff)
  have L: "L = ?c @ new" using col by (simp add: collected_def)
  have car: "\<forall>f\<in>set ?c. fl_offset f < sum_list (map V qs)" "distinct (map fl_offset ?c)"
    using carried_offsets [of ?t qs V, OF _ ok, of txid k 0] val row by auto
  have old: "\<exists>p. fl_origin f = Old p \<and> who U p = Some (fl_inscription_id f)" if "f \<in> set ?c" for f
    using that row by (auto elim!: carriedD)
  show "distinct (map fl_offset L)" using car(2) col by (auto simp: L collected_def)
  show "\<forall>f\<in>set L. fl_offset f < sum_list (map V qs)" using car(1) pos col by (auto simp: L collected_def)
  show "\<forall>f\<in>set L. movable U f"
    using old col by (fastforce simp: L collected_def movable_def taken_def)
  have "inj_on fl_inscription_id (set ?c)"
  proof (rule inj_onI)
    fix f g assume fg: "f \<in> set ?c" "g \<in> set ?c" "fl_inscription_id f = fl_inscription_id g"
    obtain p p' where p: "fl_origin f = Old p" "who U p = Some (fl_inscription_id f)"
      and p': "fl_origin g = Old p'" "who U p' = Some (fl_inscription_id g)" using old fg(1,2) by blast
    with fg(3) con have "p = p'" unfolding consistent_def by (metis option.inject)
    moreover have "fl_offset f = fl_offset g \<Longrightarrow> f = g"
      using car(2) fg(1,2) by (auto simp: distinct_map dest: inj_onD)
    ultimately show "f = g"
      using carried_input_offset [OF fg(1) p(1) dist] carried_input_offset [OF fg(2) p'(1) dist] by simp
  qed
  then have "distinct (map fl_inscription_id ?c)" using car(2) by (simp add: distinct_map)
  moreover have "fl_inscription_id f \<in> dom (loc U)" if "f \<in> set ?c" for f
    using old [OF that] con by (auto simp: consistent_def)
  ultimately show "distinct (map fl_inscription_id L)"
    using col by (auto simp: L collected_def taken_def) (metis domIff)
qed

section \<open>After the outputs\<close>

lemma placed:
  assumes run: "place_on_outputs A ranges tx txid outs 0 0 (sort_key fl_offset L) U = Inr ((ov, rest), U')"
    and con: "consistent U" and num: "numbered U" and off: "distinct (map fl_offset L)"
    and ids: "distinct (map fl_inscription_id L)" and mov: "\<forall>f\<in>set L. movable U f"
    and new: "\<forall>p\<in>dom (who U). op_txid (sp_outpoint p) \<noteq> txid"
  shows "consistent U'" and "numbered U'" and "bystanders U' = bystanders U" and "ov = sum_list (map fst outs)"
    and "rest = filter (\<lambda>f. ov \<le> fl_offset f) (sort_key fl_offset L)"
    and "\<And>f. f \<in> set L \<Longrightarrow> loc U' (fl_inscription_id f) =
      (case spot txid (map fst outs) 0 (fl_offset f) of None \<Rightarrow> loc U (fl_inscription_id f) | Some p \<Rightarrow> Some p)"
    and "\<And>i. i \<notin> fl_inscription_id ` set L \<Longrightarrow> loc U' i = loc U i"
proof -
  let ?fs = "sort_key fl_offset L" and ?vs = "map fst outs"
  have s: "sorted (map fl_offset ?fs)" by simp
  have d: "distinct (map fl_offset ?fs)" "distinct (map fl_inscription_id ?fs)" using off ids by (auto simp: distinct_map)
  have rdy: "ready U (layout txid ?vs 0 0 ?fs)" by (rule layout_ready [OF s d _ new]) (simp add: mov)
  note spec = place_on_outputs_spec [OF run con rdy]
  show "consistent U'" "bystanders U' = bystanders U" and ov: "ov = sum_list ?vs" using spec by simp_all
  show "numbered U'" by (rule place_on_outputs_numbered [OF run con rdy num])
  show "rest = filter (\<lambda>f. ov \<le> fl_offset f) ?fs" using spec leftover_filter [OF s, of 0 ?vs] ov by simp
  have dest: "destinations_of (layout txid ?vs 0 0 ?fs) i = Some p \<longleftrightarrow>
      (\<exists>f\<in>set L. fl_inscription_id f = i \<and> spot txid ?vs 0 (fl_offset f) = Some p)" for i p
    using destinations_layout [OF s d(2), of txid ?vs i p] by simp
  have loc: "loc U' = loc U ++ destinations_of (layout txid ?vs 0 0 ?fs)" using spec by simp
  show "loc U' (fl_inscription_id f) =
      (case spot txid ?vs 0 (fl_offset f) of None \<Rightarrow> loc U (fl_inscription_id f) | Some p \<Rightarrow> Some p)" if f: "f \<in> set L" for f
  proof -
    have "destinations_of (layout txid ?vs 0 0 ?fs) (fl_inscription_id f) = spot txid ?vs 0 (fl_offset f)"
    proof (rule option.expand)
      have only: "g = f" if "g \<in> set L" "fl_inscription_id g = fl_inscription_id f" for g
        using that f ids by (auto simp: distinct_map dest: inj_onD)
      then show "(destinations_of (layout txid ?vs 0 0 ?fs) (fl_inscription_id f) = None) =
          (spot txid ?vs 0 (fl_offset f) = None)" using dest f by (metis not_Some_eq)
      show "the (destinations_of (layout txid ?vs 0 0 ?fs) (fl_inscription_id f)) = the (spot txid ?vs 0 (fl_offset f))"
        if "destinations_of (layout txid ?vs 0 0 ?fs) (fl_inscription_id f) \<noteq> None"
        using that dest only by (metis option.exhaust_sel)
    qed
    then show ?thesis by (simp add: loc map_add_def)
  qed
  show "loc U' i = loc U i" if "i \<notin> fl_inscription_id ` set L" for i
  proof -
    have "destinations_of (layout txid ?vs 0 0 ?fs) i = None" using that dest by (metis imageI not_Some_eq)
    then show ?thesis by (simp add: loc map_add_def)
  qed
qed

section \<open>A transaction that is not a coinbase\<close>

lemma refloat_Inr:
  "refloat reward ov rest = Inr fs \<Longrightarrow> fs = map (\<lambda>f. f\<lparr>fl_offset := reward + fl_offset f - ov\<rparr>) rest"
  by (induction rest arbitrary: fs) (auto simp: res_simps)

lemma entered_scanned: "scanned U (entered A tx txid k U)"
  by (simp add: entered_def scanned_def Let_def)

lemma scanned_facts:
  assumes "scanned U U'"
  shows "fresh_txid txid U' = fresh_txid txid U" and "chains_ok U' = chains_ok U" and "revealed txid new U' U2 = revealed txid new U U2"
  using assms by (simp_all add: scanned_def fresh_txid_def chains_ok_def revealed_def taken_def)

text \<open>The stages of indexing a transaction, coinbase or not.\<close>

lemma transaction_stages:
  assumes "index_transaction_inscriptions A D tx txid k ranges U = Inr (r, U')"
  obtains iv ins U1 new U2 ov rest U3 where
    "scan_inputs A D txid k (ct_input tx) 0 [] (entered A tx txid k U) = Inr ((iv, ins), U1)"
    and "(if \<forall>f\<in>set ins. fl_offset f \<noteq> 0 then reveal A tx txid k iv U1 else Inr ([], U1)) = Inr (new, U2)"
    and "place_on_outputs A ranges tx txid (ct_output tx) 0 0
      (sort_key fl_offset (if is_coinbase tx then (ins @ new) @ iu_flotsam U2 else ins @ new))
      (if is_coinbase tx then U2\<lparr>iu_flotsam := []\<rparr> else U2) = Inr ((ov, rest), U3)"
    and "is_coinbase tx \<longrightarrow> lose ranges tx ov rest U3 = Inr U' \<and> ov \<le> iu_reward U' \<and> r = iu_reward U' - ov"
    and "\<not> is_coinbase tx \<longrightarrow> r = 0 \<and> ov \<le> iv \<and>
      U' = U3\<lparr>iu_flotsam := iu_flotsam U3 @ map (\<lambda>f. f\<lparr>fl_offset := iu_reward U3 + fl_offset f - ov\<rparr>) rest,
        iu_reward := iu_reward U3 + (iv - ov)\<rparr>"
proof -
  have "index_transaction_inscriptions A D tx txid k ranges U =
    res_bind (scan_inputs A D txid k (ct_input tx) 0 [] (entered A tx txid k U)) (\<lambda>((iv, ins), U1).
    res_bind (if \<forall>f\<in>set ins. fl_offset f \<noteq> 0 then reveal A tx txid k iv U1 else Inr ([], U1)) (\<lambda>(new, U2).
    res_bind (place_on_outputs A ranges tx txid (ct_output tx) 0 0
      (sort_key fl_offset (if is_coinbase tx then (ins @ new) @ iu_flotsam U2 else ins @ new))
      (if is_coinbase tx then U2\<lparr>iu_flotsam := []\<rparr> else U2)) (\<lambda>((ov, rest), U3).
    if is_coinbase tx then res_bind (lose ranges tx ov rest U3) (\<lambda>U.
      res_bind (u64_sub (iu_reward U) ov) (\<lambda>lost. Inr (lost, U)))
    else res_bind (refloat (iu_reward U3) ov rest) (\<lambda>fs.
    res_bind (u64_sub iv ov) (\<lambda>fee. res_bind (u64_add (iu_reward U3) fee) (\<lambda>reward.
    Inr (0, U3\<lparr>iu_flotsam := iu_flotsam U3 @ fs, iu_reward := reward\<rparr>)))))))"
    by (simp add: index_transaction_inscriptions_def entered_def Let_def)
  note run = assms [unfolded this]
  from run obtain iv ins U1 where sc: "scan_inputs A D txid k (ct_input tx) 0 [] (entered A tx txid k U) = Inr ((iv, ins), U1)"
    and run: "res_bind (if \<forall>f\<in>set ins. fl_offset f \<noteq> 0 then reveal A tx txid k iv U1 else Inr ([], U1)) (\<lambda>(new, U2).
    res_bind (place_on_outputs A ranges tx txid (ct_output tx) 0 0
      (sort_key fl_offset (if is_coinbase tx then (ins @ new) @ iu_flotsam U2 else ins @ new))
      (if is_coinbase tx then U2\<lparr>iu_flotsam := []\<rparr> else U2)) (\<lambda>((ov, rest), U3).
    if is_coinbase tx then res_bind (lose ranges tx ov rest U3) (\<lambda>U.
      res_bind (u64_sub (iu_reward U) ov) (\<lambda>lost. Inr (lost, U)))
    else res_bind (refloat (iu_reward U3) ov rest) (\<lambda>fs.
    res_bind (u64_sub iv ov) (\<lambda>fee. res_bind (u64_add (iu_reward U3) fee) (\<lambda>reward.
    Inr (0, U3\<lparr>iu_flotsam := iu_flotsam U3 @ fs, iu_reward := reward\<rparr>)))))) = Inr (r, U')"
    by (rule res_bind_tripleE)
  from run obtain new U2 ov rest U3 where
      rv: "(if \<forall>f\<in>set ins. fl_offset f \<noteq> 0 then reveal A tx txid k iv U1 else Inr ([], U1)) = Inr (new, U2)"
    and pl: "place_on_outputs A ranges tx txid (ct_output tx) 0 0
      (sort_key fl_offset (if is_coinbase tx then (ins @ new) @ iu_flotsam U2 else ins @ new))
      (if is_coinbase tx then U2\<lparr>iu_flotsam := []\<rparr> else U2) = Inr ((ov, rest), U3)"
    and run: "(if is_coinbase tx then res_bind (lose ranges tx ov rest U3) (\<lambda>U.
      res_bind (u64_sub (iu_reward U) ov) (\<lambda>lost. Inr (lost, U)))
    else res_bind (refloat (iu_reward U3) ov rest) (\<lambda>fs.
    res_bind (u64_sub iv ov) (\<lambda>fee. res_bind (u64_add (iu_reward U3) fee) (\<lambda>reward.
    Inr (0, U3\<lparr>iu_flotsam := iu_flotsam U3 @ fs, iu_reward := reward\<rparr>))))) = Inr (r, U')"
    by (elim res_bind_pairE res_bind_tripleE)
  show thesis
  proof (rule that [OF sc rv pl]; rule impI)
    assume "is_coinbase tx"
    with run show "lose ranges tx ov rest U3 = Inr U' \<and> ov \<le> iu_reward U' \<and> r = iu_reward U' - ov"
      by (simp only: if_True) (elim res_bind_InrE, simp add: lift_panic_Inr sub_or_panic_Inr)
  next
    assume "\<not> is_coinbase tx"
    with run have "res_bind (refloat (iu_reward U3) ov rest) (\<lambda>fs.
      res_bind (u64_sub iv ov) (\<lambda>fee. res_bind (u64_add (iu_reward U3) fee) (\<lambda>reward.
      Inr (0, U3\<lparr>iu_flotsam := iu_flotsam U3 @ fs, iu_reward := reward\<rparr>)))) = Inr (r, U')" by (simp only: if_False)
    then show "r = 0 \<and> ov \<le> iv \<and>
      U' = U3\<lparr>iu_flotsam := iu_flotsam U3 @ map (\<lambda>f. f\<lparr>fl_offset := iu_reward U3 + fl_offset f - ov\<rparr>) rest,
        iu_reward := iu_reward U3 + (iv - ov)\<rparr>"
      by (elim res_bind_InrE) (auto simp: lift_panic_Inr sub_or_panic_Inr add_or_panic_Inr dest!: refloat_Inr)
  qed
qed

lemma spend_run:
  assumes run: "index_transaction_inscriptions A D tx txid k ranges U = Inr (r, U')"
    and inv: "block_inv V subsidy spent U" and val: "valid_spend A V spent tx txid k U"
  obtains new U2 U3 ov rest where "revealed txid new U U2"
    and "new \<noteq> [] \<longrightarrow> (\<forall>f\<in>set (carried txid k V (iu_satpoint_to_id U) (spends tx) 0). fl_offset f \<noteq> 0)"
    and "place_on_outputs A ranges tx txid (ct_output tx) 0 0
      (sort_key fl_offset (carried txid k V (iu_satpoint_to_id U) (spends tx) 0 @ new)) U2 = Inr ((ov, rest), U3)"
    and "ov \<le> sum_list (map V (spends tx))" and "r = 0"
    and "U' = U3\<lparr>iu_flotsam := iu_flotsam U3 @ map (\<lambda>f. f\<lparr>fl_offset := iu_reward U3 + fl_offset f - ov\<rparr>) rest,
      iu_reward := iu_reward U3 + (sum_list (map V (spends tx)) - ov)\<rparr>"
proof -
  let ?c = "carried txid k V (iu_satpoint_to_id U) (spends tx) 0"
  have null: "null_outpoint \<notin> fst ` set (ct_input tx)" and reads: "reads A V (map fst (ct_input tx)) (entered A tx txid k U)"
    using val by (simp_all add: valid_spend_def spends_def)
  have cb: "\<not> is_coinbase tx" using null by (auto simp: is_coinbase_def split: list.splits)
  from run obtain iv ins U1 new U2 ov rest U3 where
      sc: "scan_inputs A D txid k (ct_input tx) 0 [] (entered A tx txid k U) = Inr ((iv, ins), U1)"
    and rv: "(if \<forall>f\<in>set ins. fl_offset f \<noteq> 0 then reveal A tx txid k iv U1 else Inr ([], U1)) = Inr (new, U2)"
    and pl: "place_on_outputs A ranges tx txid (ct_output tx) 0 0
      (sort_key fl_offset (if is_coinbase tx then (ins @ new) @ iu_flotsam U2 else ins @ new))
      (if is_coinbase tx then U2\<lparr>iu_flotsam := []\<rparr> else U2) = Inr ((ov, rest), U3)"
    and "is_coinbase tx \<longrightarrow> lose ranges tx ov rest U3 = Inr U' \<and> ov \<le> iu_reward U' \<and> r = iu_reward U' - ov"
    and fin: "\<not> is_coinbase tx \<longrightarrow> r = 0 \<and> ov \<le> iv \<and>
      U' = U3\<lparr>iu_flotsam := iu_flotsam U3 @ map (\<lambda>f. f\<lparr>fl_offset := iu_reward U3 + fl_offset f - ov\<rparr>) rest,
        iu_reward := iu_reward U3 + (iv - ov)\<rparr>" by (rule transaction_stages)
  have e: "iu_satpoint_to_id (entered A tx txid k U) = iu_satpoint_to_id U"
    using entered_scanned [of U A tx txid k] by (simp only: scanned_def)
  from scan_inputs_Inr [OF sc null reads] have
      iv: "iv = sum_list (map V (spends tx))" and ins: "ins = ?c" and "scanned (entered A tx txid k U) U1"
    by (simp_all only: spends_def e add_0 append_Nil)
  then have s1: "scanned U U1" using scanned_trans [OF entered_scanned] by blast
  have "chains_ok U1" "fresh_txid txid U1"
    using inv val scanned_facts(1,2) [OF s1] by (simp_all add: block_inv_def valid_spend_def)
  then have "revealed txid new U1 U2"
    using rv reveal_revealed [of A tx txid k iv U1 new U2] by (auto simp: revealed_def split: if_splits)
  then have "revealed txid new U U2" using scanned_facts(3) [OF s1] by simp
  moreover have "new \<noteq> [] \<longrightarrow> (\<forall>f\<in>set ?c. fl_offset f \<noteq> 0)" using rv ins by (auto split: if_splits)
  ultimately show thesis
    using that pl [unfolded if_not_P [OF cb]] fin [rule_format, OF cb] unfolding iv ins by blast
qed

definition spend_effect :: "(outpoint \<Rightarrow> nat) \<Rightarrow> chain_tx \<Rightarrow> txid \<Rightarrow> u32 \<Rightarrow> flotsam list \<Rightarrow> inscription_updater \<Rightarrow> inscription_updater \<Rightarrow> bool" where
  "spend_effect V tx txid k new U U' \<longleftrightarrow>
    (let L = carried txid k V (iu_satpoint_to_id U) (spends tx) 0 @ new; vs = map fst (ct_output tx) in
     (new = [] \<or> (\<exists>f a b. new = [f] \<and> fl_origin f = New a b \<and> fl_inscription_id f \<notin> taken U)) \<and>
     distinct (map fl_offset L) \<and> distinct (map fl_inscription_id L) \<and> (\<forall>f\<in>set L. movable U f) \<and>
     (\<forall>f\<in>set L. fl_offset f < sum_list (map V (spends tx))) \<and> sum_list vs \<le> sum_list (map V (spends tx)) \<and>
     consistent U' \<and> numbered U' \<and> iu_lost_sats U' = iu_lost_sats U \<and>
     iu_reward U' = iu_reward U + (sum_list (map V (spends tx)) - sum_list vs) \<and>
     iu_flotsam U' = iu_flotsam U @ map (\<lambda>f. f\<lparr>fl_offset := iu_reward U + fl_offset f - sum_list vs\<rparr>)
       (filter (\<lambda>f. sum_list vs \<le> fl_offset f) (sort_key fl_offset L)) \<and>
     chains_ok U' \<and> (\<forall>t. fresh_txid t U \<longrightarrow> t \<noteq> txid \<longrightarrow> fresh_txid t U') \<and>
     (\<forall>f\<in>set L. loc U' (fl_inscription_id f) =
       (case spot txid vs 0 (fl_offset f) of None \<Rightarrow> loc U (fl_inscription_id f) | Some p \<Rightarrow> Some p)) \<and>
     (\<forall>i. i \<notin> fl_inscription_id ` set L \<longrightarrow> loc U' i = loc U i))"

lemma taken_grows:
  assumes "\<forall>i. i \<notin> W \<longrightarrow> loc U' i = loc U i" and "fl_inscription_id ` set (iu_flotsam U') \<subseteq> taken U \<union> W"
  shows "taken U' \<subseteq> taken U \<union> W"
proof -
  have "dom (loc U') \<subseteq> dom (loc U) \<union> W" using assms(1) by (force simp: domIff)
  with assms(2) show ?thesis by (auto simp: taken_def)
qed

lemma spend_spec:
  assumes run: "index_transaction_inscriptions A D tx txid k ranges U = Inr (r, U')"
    and inv: "block_inv V subsidy spent U" and val: "valid_spend A V spent tx txid k U"
  shows "r = 0 \<and> (\<exists>new. spend_effect V tx txid k new U U')"
proof -
  let ?c = "carried txid k V (iu_satpoint_to_id U) (spends tx) 0" and ?vs = "map fst (ct_output tx)"
  from run inv val obtain new U2 U3 ov rest where rv: "revealed txid new U U2"
    and gap: "new \<noteq> [] \<longrightarrow> (\<forall>f\<in>set ?c. fl_offset f \<noteq> 0)"
    and pl: "place_on_outputs A ranges tx txid (ct_output tx) 0 0 (sort_key fl_offset (?c @ new)) U2 = Inr ((ov, rest), U3)"
    and le: "ov \<le> sum_list (map V (spends tx))" and r: "r = 0"
    and U': "U' = U3\<lparr>iu_flotsam := iu_flotsam U3 @ map (\<lambda>f. f\<lparr>fl_offset := iu_reward U3 + fl_offset f - ov\<rparr>) rest,
      iu_reward := iu_reward U3 + (sum_list (map V (spends tx)) - ov)\<rparr>" by (rule spend_run)
  have same: "iu_id_to_satpoint U2 = iu_id_to_satpoint U" "iu_satpoint_to_id U2 = iu_satpoint_to_id U"
    "iu_flotsam U2 = iu_flotsam U" "iu_lost_sats U2 = iu_lost_sats U" "iu_reward U2 = iu_reward U"
    "chains_ok U2" and num: "numbered U2"
    using rv inv numbered_same [of U2 U] by (simp_all add: revealed_def block_inv_def)
  have new: "new = [] \<or> (\<exists>f a b. new = [f] \<and> fl_origin f = New a b \<and> fl_offset f = 0 \<and> fl_inscription_id f \<notin> taken U)"
    using rv unfolding revealed_def by blast
  have con: "consistent U" "consistent U2" using inv same_tables(1) [of U2 U] same by (simp_all add: block_inv_def)
  have col: "collected txid k V (spends tx) (?c @ new) U new" using new gap unfolding collected_def by blast
  have vals: "\<forall>p i. who U p = Some i \<longrightarrow> sp_outpoint p \<in> set (spends tx) \<longrightarrow> sp_offset p < V (sp_outpoint p)"
    using inv val unfolding block_inv_def valid_spend_def by metis
  note facts = collected_facts [OF col con(1) vals]
  have v: "0 < sum_list (map V (spends tx))" "distinct (spends tx)" "fresh_txid txid U" using val by (simp_all add: valid_spend_def)
  have mov2: "\<forall>f\<in>set (?c @ new). movable U2 f"
    using facts(3) [OF v(1,2)] unfolding movable_def same(1,2) .
  have new2: "\<forall>p\<in>dom (who U2). op_txid (sp_outpoint p) \<noteq> txid" using v(3) same(2) by (simp add: fresh_txid_def)
  note out = placed [OF pl con(2) num facts(1,2) [OF v(1,2)] mov2 new2]
  have by3: "iu_flotsam U3 = iu_flotsam U" "iu_lost_sats U3 = iu_lost_sats U" "iu_reward U3 = iu_reward U"
    "iu_partial_txid_to_txids U3 = iu_partial_txid_to_txids U2" using out(3) same by (simp_all add: bystanders_def)
  have U3: "consistent U'" "numbered U'" using out(1,2) same_tables(1) [of U' U3] numbered_same [of U' U3] by (simp_all add: U')
  have loc: "loc U' = loc U3" by (simp add: U')
  have "fl_inscription_id ` set (iu_flotsam U') \<subseteq> taken U \<union> fl_inscription_id ` set (?c @ new)"
    by (auto simp: U' by3 out(5) taken_def image_image)
  then have "taken U' \<subseteq> taken U \<union> fl_inscription_id ` set (?c @ new)"
    by (intro taken_grows) (use out(7) same(1) loc in auto)
  moreover have "fl_inscription_id ` set ?c \<subseteq> taken U"
    using con(1) map_of_is_SomeI by (fastforce simp: taken_def consistent_def hm_ok_def elim!: carriedD)
  ultimately have tk: "taken U' \<subseteq> taken U2 \<union> fl_inscription_id ` set new"
    using taken_tables [OF same(1,3)] by auto
  have part: "iu_partial_txid_to_txids U' = iu_partial_txid_to_txids U2" by (simp add: U' by3)
  have ch: "chains_ok U'"
    using same(6) tk rv unfolding chains_ok_def part revealed_def by fastforce
  have fl: "iu_flotsam U' = iu_flotsam U @ map (\<lambda>f. f\<lparr>fl_offset := iu_reward U + fl_offset f - sum_list ?vs\<rparr>)
       (filter (\<lambda>f. sum_list ?vs \<le> fl_offset f) (sort_key fl_offset (?c @ new)))"
    by (simp add: U' by3 out(4,5) del: sort_key_simps)
  have rw: "iu_lost_sats U' = iu_lost_sats U" "iu_reward U' = iu_reward U + (sum_list (map V (spends tx)) - sum_list ?vs)"
    by (simp_all add: U' by3 out(4))
  have l1: "\<forall>f\<in>set (?c @ new). loc U' (fl_inscription_id f) =
       (case spot txid ?vs 0 (fl_offset f) of None \<Rightarrow> loc U (fl_inscription_id f) | Some p \<Rightarrow> Some p)"
    and l2: "\<forall>i. i \<notin> fl_inscription_id ` set (?c @ new) \<longrightarrow> loc U' i = loc U i"
    unfolding loc using out(6,7) unfolding same(1) by blast+
  have spread: "(\<exists>n. spot txid ?vs 0 n = Some p) \<or> who U p = Some i" if "who U' p = Some i" for p i
  proof -
    have "loc U' i = Some p" using U3(1) that by (simp add: consistent_def)
    then have "(\<exists>n. spot txid ?vs 0 n = Some p) \<or> loc U i = Some p"
      using l1 l2 by (cases "i \<in> fl_inscription_id ` set (?c @ new)") (force split: option.splits)+
    then show ?thesis using con(1) by (simp add: consistent_def)
  qed
  have fr: "\<forall>t. fresh_txid t U \<longrightarrow> t \<noteq> txid \<longrightarrow> fresh_txid t U'"
  proof (intro allI impI)
    fix t assume t: "fresh_txid t U" "t \<noteq> txid"
    then have t2: "fresh_txid t U2" "\<forall>f\<in>set new. ii_txid (fl_inscription_id f) \<noteq> t"
      using rv unfolding revealed_def by blast+
    have "op_txid (sp_outpoint p) \<noteq> t" if "who U' p = Some i" for p i
      using spread [OF that] t spot_outpoint [of txid ?vs 0 _ p] unfolding fresh_txid_def by (metis domI)
    then show "fresh_txid t U'" using t2 tk part unfolding fresh_txid_def by (auto simp: subset_iff)
  qed
  have n: "new = [] \<or> (\<exists>f a b. new = [f] \<and> fl_origin f = New a b \<and> fl_inscription_id f \<notin> taken U)" using new by blast
  show ?thesis
    unfolding spend_effect_def Let_def
    by (intro conjI exI [of _ new] r n facts [OF v(1,2)] le [unfolded out(4)] U3 rw fl ch fr l1 l2)
qed

text \<open>Nothing that already floats is also on an input.\<close>

lemma floating_apart:
  assumes inv: "block_inv V subsidy spent U" and dis: "set (spends tx) \<inter> spent = {}"
    and eff: "spend_effect V tx txid k new U U'" and g: "g \<in> set (iu_flotsam U)"
    and f: "f \<in> set (carried txid k V (iu_satpoint_to_id U) (spends tx) 0 @ new)"
  shows "fl_inscription_id g \<noteq> fl_inscription_id f"
proof (cases "f \<in> set new")
  case True
  then have "fl_inscription_id f \<notin> taken U" using eff by (auto simp: spend_effect_def Let_def)
  then show ?thesis using g unfolding taken_def by (metis Un_iff imageI)
next
  case False
  with f have c: "f \<in> set (carried txid k V (iu_satpoint_to_id U) (spends tx) 0)" by simp
  then obtain p where p: "fl_origin f = Old p" "sp_outpoint p \<in> set (spends tx)" by (rule carriedD)
  have "movable U f" using eff f unfolding spend_effect_def Let_def by blast
  with p have w: "who U p = Some (fl_inscription_id f)" by (simp add: movable_def)
  have con: "consistent U" and mg: "movable U g" and sg: "\<forall>q. fl_origin g = Old q \<longrightarrow> sp_outpoint q \<in> spent"
    using inv g by (simp_all add: block_inv_def)
  show ?thesis
  proof
    assume eq: "fl_inscription_id g = fl_inscription_id f"
    from w con have l: "loc U (fl_inscription_id f) = Some p" by (simp add: consistent_def)
    then obtain q where q: "fl_origin g = Old q" "who U q = Some (fl_inscription_id f)"
      using mg eq by (auto simp: movable_def split: origin.splits)
    then have "q = p" using con l unfolding consistent_def by (metis option.inject)
    then show False using sg q(1) p(2) dis by auto
  qed
qed

lemma spend_keeps_flotsam:
  assumes inv: "block_inv V subsidy spent U" and dis: "set (spends tx) \<inter> spent = {}"
    and eff: "spend_effect V tx txid k new U U'"
  shows "distinct (map fl_offset (iu_flotsam U'))" and "distinct (map fl_inscription_id (iu_flotsam U'))"
    and "f \<in> set (iu_flotsam U') \<Longrightarrow> subsidy \<le> fl_offset f \<and> fl_offset f < iu_reward U' \<and> movable U' f \<and>
      (\<forall>p. fl_origin f = Old p \<longrightarrow> sp_outpoint p \<in> spent \<union> set (spends tx))"
proof -
  let ?c = "carried txid k V (iu_satpoint_to_id U) (spends tx) 0"
  define ov where "ov = sum_list (map fst (ct_output tx))"
  define iv where "iv = sum_list (map V (spends tx))"
  define L where "L = ?c @ new"
  define R where "R = filter (\<lambda>f. ov \<le> fl_offset f) (sort_key fl_offset L)"
  note apart = floating_apart [OF inv dis eff, folded L_def]
  have d: "distinct (map fl_offset L)" "distinct (map fl_inscription_id L)" and low: "\<forall>f\<in>set L. fl_offset f < iv"
    and mov: "\<forall>f\<in>set L. movable U f" and le: "ov \<le> iv" and rw: "iu_reward U' = iu_reward U + (iv - ov)"
    and fl: "iu_flotsam U' = iu_flotsam U @ map (\<lambda>f. f\<lparr>fl_offset := iu_reward U + fl_offset f - ov\<rparr>) R"
    and l1: "\<forall>f\<in>set L. loc U' (fl_inscription_id f) = (case spot txid (map fst (ct_output tx)) 0 (fl_offset f) of
      None \<Rightarrow> loc U (fl_inscription_id f) | Some p \<Rightarrow> Some p)"
    and l2: "\<forall>i. i \<notin> fl_inscription_id ` set L \<longrightarrow> loc U' i = loc U i" and con': "consistent U'"
    using eff unfolding spend_effect_def Let_def L_def R_def ov_def iv_def by blast+
  have i: "distinct (map fl_offset (iu_flotsam U))" "distinct (map fl_inscription_id (iu_flotsam U))" and con: "consistent U"
    and old: "\<forall>f\<in>set (iu_flotsam U). subsidy \<le> fl_offset f \<and> fl_offset f < iu_reward U \<and> movable U f \<and>
      (\<forall>p. fl_origin f = Old p \<longrightarrow> sp_outpoint p \<in> spent)" and sub: "subsidy \<le> iu_reward U"
    using inv unfolding block_inv_def by blast+
  have R: "set R \<subseteq> set L" "\<forall>f\<in>set R. ov \<le> fl_offset f" by (auto simp: R_def)
  have "distinct (map fl_offset R)" "distinct (map fl_inscription_id R)"
    unfolding R_def using d by (auto simp: distinct_map inj_on_def)
  then have dR: "distinct R" "inj_on fl_offset (set R)" "inj_on fl_inscription_id (set R)" by (simp_all add: distinct_map)
  have "inj_on (\<lambda>f. iu_reward U + fl_offset f - ov) (set R)"
    using R(2) dR(2) by (auto simp: inj_on_def) (metis add_diff_cancel_left' le_add_diff_inverse2 diff_add_assoc)
  then have "distinct (map (\<lambda>f. iu_reward U + fl_offset f - ov) R)" using dR(1) by (simp add: distinct_map)
  moreover have "fl_offset g \<noteq> iu_reward U + fl_offset f - ov" if "g \<in> set (iu_flotsam U)" "f \<in> set R" for f g
    using old R(2) that by fastforce
  ultimately show "distinct (map fl_offset (iu_flotsam U'))" using i(1) by (auto simp: fl comp_def)
  show "distinct (map fl_inscription_id (iu_flotsam U'))"
    using i(2) dR(1,3) R(1) apart by (auto simp: fl comp_def distinct_map subset_iff)
  have keep: "movable U' f" if "movable U f" "loc U' (fl_inscription_id f) = loc U (fl_inscription_id f)" for f
    using that con con' unfolding movable_def consistent_def by (cases "fl_origin f") (simp_all, metis)
  assume "f \<in> set (iu_flotsam U')"
  then consider (old) "f \<in> set (iu_flotsam U)" | (new) g where "g \<in> set R" "f = g\<lparr>fl_offset := iu_reward U + fl_offset g - ov\<rparr>"
    by (auto simp: fl)
  then show "subsidy \<le> fl_offset f \<and> fl_offset f < iu_reward U' \<and> movable U' f \<and>
      (\<forall>p. fl_origin f = Old p \<longrightarrow> sp_outpoint p \<in> spent \<union> set (spends tx))"
  proof cases
    case old
    then have "loc U' (fl_inscription_id f) = loc U (fl_inscription_id f)" using l2 apart by blast
    with old keep \<open>\<forall>f\<in>set (iu_flotsam U). _ f\<close> show ?thesis by (auto simp: rw)
  next
    case new
    then have g: "g \<in> set L" "ov \<le> fl_offset g" "fl_offset g < iv" "movable U g" using R low mov by auto
    then have "spot txid (map fst (ct_output tx)) 0 (fl_offset g) = None" by (simp add: spot_None ov_def)
    with l1 g(1) have "loc U' (fl_inscription_id g) = loc U (fl_inscription_id g)" by simp
    with keep g(4) have "movable U' g" by blast
    then have "movable U' f" using new(2) by (cases "fl_origin g") (simp_all add: movable_def)
    moreover have "sp_outpoint p \<in> set (spends tx)" if "fl_origin g = Old p" for p
      using g(1) that eff unfolding L_def by (auto simp: spend_effect_def Let_def elim!: carriedD)
    ultimately show ?thesis using new(2) g(2,3) sub le by (auto simp: rw)
  qed
qed

lemma new_place_value:
  assumes "spot txid (map fst (ct_output tx)) 0 n = Some p" and "outputs_valued V tx txid" and "txid \<noteq> zero_txid"
  shows "sp_outpoint p \<noteq> null_outpoint" and "sp_offset p < V (sp_outpoint p)" and "op_txid (sp_outpoint p) = txid"
proof -
  from spot_outpoint [OF assms(1)] obtain j where t: "op_txid (sp_outpoint p) = txid"
    and j: "j < length (ct_output tx)" "op_vout (sp_outpoint p) = j" "sp_offset p < map fst (ct_output tx) ! j" by auto
  then have "sp_outpoint p = \<lparr>op_txid = txid, op_vout = j\<rparr>" by simp
  with assms(2,3) j show "sp_outpoint p \<noteq> null_outpoint" "sp_offset p < V (sp_outpoint p)" "op_txid (sp_outpoint p) = txid"
    by (simp_all add: outputs_valued_def null_outpoint_def)
qed

lemma spend_keeps_inv:
  assumes inv: "block_inv V subsidy spent U" and val: "valid_spend A V spent tx txid k U"
    and eff: "spend_effect V tx txid k new U U'"
  shows "block_inv V subsidy (spent \<union> set (spends tx)) U'"
proof -
  let ?c = "carried txid k V (iu_satpoint_to_id U) (spends tx) 0" and ?vs = "map fst (ct_output tx)"
  have v: "set (spends tx) \<inter> spent = {}" "outputs_valued V tx txid" "txid \<noteq> zero_txid" "null_outpoint \<notin> set (spends tx)"
    and far: "\<forall>q\<in>spent \<union> set (spends tx). op_txid q \<noteq> txid"
    using val by (auto simp: valid_spend_def fresh_txid_def)
  have con: "consistent U'" and e: "numbered U'" "chains_ok U'" "iu_lost_sats U' = iu_lost_sats U"
    and rw: "iu_reward U' = iu_reward U + (sum_list (map V (spends tx)) - sum_list ?vs)"
    and l1: "\<forall>f\<in>set (?c @ new). loc U' (fl_inscription_id f) =
       (case spot txid ?vs 0 (fl_offset f) of None \<Rightarrow> loc U (fl_inscription_id f) | Some p \<Rightarrow> Some p)"
    and l2: "\<forall>i. i \<notin> fl_inscription_id ` set (?c @ new) \<longrightarrow> loc U' i = loc U i"
    and fl: "iu_flotsam U' = iu_flotsam U @ map (\<lambda>f. f\<lparr>fl_offset := iu_reward U + fl_offset f - sum_list ?vs\<rparr>)
       (filter (\<lambda>f. sum_list ?vs \<le> fl_offset f) (sort_key fl_offset (?c @ new)))"
    using eff unfolding spend_effect_def Let_def by blast+
  have con: "consistent U" "consistent U'" using inv con by (simp_all add: block_inv_def)
  have place: "(\<exists>n. spot txid ?vs 0 n = Some p) \<or>
      who U p = Some i \<and> (sp_outpoint p \<in> set (spends tx) \<longrightarrow> i \<in> fl_inscription_id ` set (iu_flotsam U'))"
    if w: "who U' p = Some i" for p i
  proof -
    have l: "loc U' i = Some p" using w con(2) by (simp add: consistent_def)
    show ?thesis
    proof (cases "i \<in> fl_inscription_id ` set (?c @ new)")
      case True
      then obtain f where f: "f \<in> set (?c @ new)" "i = fl_inscription_id f" by blast
      show ?thesis
      proof (cases "spot txid ?vs 0 (fl_offset f)")
        case None
        then have "loc U i = Some p" using l l1 f by simp
        moreover have "f\<lparr>fl_offset := iu_reward U + fl_offset f - sum_list ?vs\<rparr> \<in> set (iu_flotsam U')"
          using None f by (auto simp: fl spot_None)
        then have "i \<in> fl_inscription_id ` set (iu_flotsam U')" by (rule rev_image_eqI) (simp add: f)
        ultimately show ?thesis using con(1) by (simp add: consistent_def)
      next
        case (Some q)
        with l l1 f show ?thesis by auto
      qed
    next
      case False
      then have w: "who U p = Some i" using l l2 con(1) by (simp add: consistent_def)
      have "sp_outpoint p \<notin> set (spends tx)"
      proof
        assume "sp_outpoint p \<in> set (spends tx)"
        with carried_complete [of p i "iu_satpoint_to_id U" "spends tx" txid k V 0] map_of_SomeD [OF w]
        obtain f where "f \<in> set ?c" "fl_inscription_id f = i" by blast
        with False show False by auto
      qed
      with w show ?thesis by simp
    qed
  qed
  have "sp_offset p < (if sp_outpoint p = null_outpoint then iu_lost_sats U' else V (sp_outpoint p))"
    if "who U' p = Some i" for p i
    using place [OF that] inv new_place_value(1,2) [OF _ v(2,3)] e(3) unfolding block_inv_def by metis
  moreover have "i \<in> fl_inscription_id ` set (iu_flotsam U')"
    if "who U' p = Some i" "sp_outpoint p \<in> spent \<union> set (spends tx)" for p i
  proof -
    have "who U p = Some i" "sp_outpoint p \<in> set (spends tx) \<longrightarrow> i \<in> fl_inscription_id ` set (iu_flotsam U')"
      using place [OF that(1)] new_place_value(3) [OF _ v(2,3)] far that(2) by blast+
    moreover have "who U p = Some i \<Longrightarrow> sp_outpoint p \<in> spent \<Longrightarrow> i \<in> fl_inscription_id ` set (iu_flotsam U)"
      using inv unfolding block_inv_def by blast
    ultimately show ?thesis using that(2) by (auto simp: fl)
  qed
  moreover have "null_outpoint \<notin> spent" "subsidy \<le> iu_reward U'" using inv rw by (simp_all add: block_inv_def)
  ultimately show ?thesis
    using con(2) e(1,2) v(4) spend_keeps_flotsam [OF inv v(1) eff] unfolding block_inv_def by blast
qed

end
