(* ===== verification/Inscription_Coinbase.thy ===== *)
theory Inscription_Coinbase
  imports Inscription_Block
begin

text \<open>
  The coinbase transaction, which is indexed last: everything that floats lands on one of its outputs
  or, where the miner claims less than the subsidy and the fees, among the lost sats.
\<close>

section \<open>Lost inscriptions\<close>

definition lost_place :: "nat \<Rightarrow> nat \<Rightarrow> flotsam \<Rightarrow> sat_point" where
  "lost_place lost_sats ov f = \<lparr>sp_outpoint = null_outpoint, sp_offset = lost_sats + fl_offset f - ov\<rparr>"

lemma lose_run_moves:
  "lose ranges tx ov rest U = Inr U' \<Longrightarrow>
    run_moves ranges tx (map (\<lambda>f. (f, lost_place (iu_lost_sats U) ov f)) rest) U = Inr U'"
proof (induction rest arbitrary: U)
  case (Cons f rest)
  then obtain U1 where up: "update_inscription_location ranges f (lost_place (iu_lost_sats U) ov f) tx U = Inr U1"
    and rest: "lose ranges tx ov rest U1 = Inr U'" by (auto simp: res_simps lost_place_def)
  have "iu_lost_sats U1 = iu_lost_sats U" using update_location_Inr(3) [OF up] by (simp add: bystanders_def)
  with Cons.IH [OF rest] up show ?case by simp
qed simp

lemma still_movable:
  assumes "consistent U" and "consistent U'" and "movable U f"
    and "loc U' (fl_inscription_id f) = loc U (fl_inscription_id f)"
  shows "movable U' f"
  using assms unfolding movable_def consistent_def by (cases "fl_origin f") (simp_all, metis)

lemma lost_ready:
  assumes "\<forall>p i. who U p = Some i \<longrightarrow> sp_outpoint p = null_outpoint \<longrightarrow> sp_offset p < lost_sats"
    and "\<forall>f\<in>set rest. ov \<le> fl_offset f \<and> movable U f"
    and "distinct (map fl_offset rest)" and "distinct (map fl_inscription_id rest)"
  shows "ready U (map (\<lambda>f. (f, lost_place lost_sats ov f)) rest)"
proof -
  have "who U (lost_place lost_sats ov f) = None" if "f \<in> set rest" for f
  proof (rule ccontr)
    assume "who U (lost_place lost_sats ov f) \<noteq> None"
    then have "sp_offset (lost_place lost_sats ov f) < lost_sats" using assms(1) by (auto simp: lost_place_def)
    then show False using assms(2) that by (fastforce simp: lost_place_def)
  qed
  moreover have "inj_on (lost_place lost_sats ov) (set rest)"
  proof (rule inj_onI)
    fix f g assume fg: "f \<in> set rest" "g \<in> set rest" "lost_place lost_sats ov f = lost_place lost_sats ov g"
    have "ov \<le> fl_offset f" "ov \<le> fl_offset g" using assms(2) fg(1,2) by auto
    then have "fl_offset f = fl_offset g" using fg(3) by (simp add: lost_place_def)
    then show "f = g" using fg(1,2) assms(3) by (auto simp: distinct_map dest: inj_onD)
  qed
  then have "distinct (map (lost_place lost_sats ov) rest)" using assms(3) by (simp add: distinct_map)
  ultimately show ?thesis using assms(2,4) by (auto simp: ready_def comp_def)
qed

lemma destinations_of_map:
  assumes "distinct (map fl_inscription_id rest)"
  shows "f \<in> set rest \<Longrightarrow> destinations_of (map (\<lambda>f. (f, d f)) rest) (fl_inscription_id f) = Some (d f)"
    and "i \<notin> fl_inscription_id ` set rest \<Longrightarrow> destinations_of (map (\<lambda>f. (f, d f)) rest) i = None"
proof -
  have eq: "destinations_of (map (\<lambda>f. (f, d f)) rest) = map_of (map (\<lambda>f. (fl_inscription_id f, d f)) rest)"
    by (simp add: destinations_of_def comp_def)
  have "distinct (map fst (map (\<lambda>f. (fl_inscription_id f, d f)) rest))" using assms by (simp add: comp_def)
  then show "f \<in> set rest \<Longrightarrow> destinations_of (map (\<lambda>f. (f, d f)) rest) (fl_inscription_id f) = Some (d f)"
    unfolding eq by (rule map_of_is_SomeI) simp
  show "i \<notin> fl_inscription_id ` set rest \<Longrightarrow> destinations_of (map (\<lambda>f. (f, d f)) rest) i = None"
    unfolding eq by (auto simp: map_of_eq_None_iff)
qed

section \<open>The end of a block\<close>

definition tables_ok :: "(outpoint \<Rightarrow> nat) \<Rightarrow> nat \<Rightarrow> inscription_updater \<Rightarrow> bool" where
  "tables_ok V lost_sats U \<longleftrightarrow> consistent U \<and> numbered U \<and> chains_ok U \<and> iu_flotsam U = [] \<and>
    (\<forall>p i. who U p = Some i \<longrightarrow> sp_offset p < (if sp_outpoint p = null_outpoint then lost_sats else V (sp_outpoint p)))"

text \<open>Where a floating inscription ends up.\<close>

definition landing :: "txid \<Rightarrow> nat list \<Rightarrow> nat \<Rightarrow> flotsam \<Rightarrow> sat_point" where
  "landing txid vs lost_sats f =
    (case spot txid vs 0 (fl_offset f) of None \<Rightarrow> lost_place lost_sats (sum_list vs) f | Some p \<Rightarrow> p)"

lemma coinbase_run:
  assumes run: "index_transaction_inscriptions A D tx txid k ranges U = Inr (r, U')"
    and inv: "block_inv V subsidy spent U" and cb: "ct_input tx = [(null_outpoint, script)]"
    and new_txid: "fresh_txid txid U"
  obtains new U2 U3 ov rest where "revealed txid new U U2"
    and "place_on_outputs A ranges tx txid (ct_output tx) 0 0 (sort_key fl_offset (new @ iu_flotsam U))
      (U2\<lparr>iu_flotsam := []\<rparr>) = Inr ((ov, rest), U3)"
    and "lose ranges tx ov rest U3 = Inr U'" and "ov \<le> iu_reward U'" and "r = iu_reward U' - ov"
proof -
  have c: "is_coinbase tx" by (simp add: is_coinbase_def cb)
  from run obtain iv ins U1 new U2 ov rest U3 where
      sc: "scan_inputs A D txid k (ct_input tx) 0 [] (entered A tx txid k U) = Inr ((iv, ins), U1)"
    and rv: "(if \<forall>f\<in>set ins. fl_offset f \<noteq> 0 then reveal A tx txid k iv U1 else Inr ([], U1)) = Inr (new, U2)"
    and pl: "place_on_outputs A ranges tx txid (ct_output tx) 0 0
      (sort_key fl_offset (if is_coinbase tx then (ins @ new) @ iu_flotsam U2 else ins @ new))
      (if is_coinbase tx then U2\<lparr>iu_flotsam := []\<rparr> else U2) = Inr ((ov, rest), U3)"
    and fin: "is_coinbase tx \<longrightarrow> lose ranges tx ov rest U3 = Inr U' \<and> ov \<le> iu_reward U' \<and> r = iu_reward U' - ov"
    and "\<not> is_coinbase tx \<longrightarrow> r = 0 \<and> ov \<le> iv \<and>
      U' = U3\<lparr>iu_flotsam := iu_flotsam U3 @ map (\<lambda>f. f\<lparr>fl_offset := iu_reward U3 + fl_offset f - ov\<rparr>) rest,
        iu_reward := iu_reward U3 + (iv - ov)\<rparr>" by (rule transaction_stages)
  from sc have ins: "ins = []" and s1: "scanned U U1" using entered_scanned by (auto simp: cb res_simps)
  have "chains_ok U1" "fresh_txid txid U1"
    using inv new_txid scanned_facts(1,2) [OF s1] by (simp_all add: block_inv_def)
  then have "revealed txid new U1 U2" using rv reveal_revealed [of A tx txid k iv U1 new U2] by (simp add: ins)
  then have rv2: "revealed txid new U U2" using scanned_facts(3) [OF s1] by simp
  moreover have "iu_flotsam U2 = iu_flotsam U" using rv2 by (simp add: revealed_def)
  ultimately show thesis using that pl [unfolded if_P [OF c] ins append_Nil] fin [rule_format, OF c] by metis
qed

text \<open>What the coinbase transaction lays out.\<close>

lemma floating_facts:
  assumes inv: "block_inv V subsidy spent U" and pos: "0 < subsidy" and rv: "revealed txid new U U2"
  shows "distinct (map fl_offset (new @ iu_flotsam U))" and "distinct (map fl_inscription_id (new @ iu_flotsam U))"
    and "\<forall>f\<in>set (new @ iu_flotsam U). movable U f"
    and "\<forall>f\<in>set (new @ iu_flotsam U). fl_offset f < iu_reward U"
proof -
  have i: "distinct (map fl_offset (iu_flotsam U))" "distinct (map fl_inscription_id (iu_flotsam U))"
    "\<forall>f\<in>set (iu_flotsam U). subsidy \<le> fl_offset f \<and> fl_offset f < iu_reward U \<and> movable U f" "subsidy \<le> iu_reward U"
    using inv unfolding block_inv_def by blast+
  have n: "new = [] \<or> (\<exists>f a b. new = [f] \<and> fl_origin f = New a b \<and> fl_offset f = 0 \<and> fl_inscription_id f \<notin> taken U)"
    using rv unfolding revealed_def by blast
  show "distinct (map fl_offset (new @ iu_flotsam U))" using n i(1,3) pos by auto
  show "distinct (map fl_inscription_id (new @ iu_flotsam U))"
    using n i(2) unfolding taken_def by (auto simp del: Un_iff simp: Un_iff [of "fl_inscription_id _"])
  show "\<forall>f\<in>set (new @ iu_flotsam U). movable U f" using n i(3) by (auto simp: taken_def movable_def)
  show "\<forall>f\<in>set (new @ iu_flotsam U). fl_offset f < iu_reward U" using n i(3,4) pos by auto
qed

text \<open>Where everything is after the coinbase transaction.\<close>

definition coinbase_effect :: "chain_tx \<Rightarrow> txid \<Rightarrow> flotsam list \<Rightarrow> inscription_updater \<Rightarrow> u64 \<Rightarrow> inscription_updater \<Rightarrow> bool" where
  "coinbase_effect tx txid new U r U' \<longleftrightarrow>
    (let L = new @ iu_flotsam U; vs = map fst (ct_output tx) in
     (new = [] \<or> (\<exists>f a b. new = [f] \<and> fl_origin f = New a b \<and> fl_inscription_id f \<notin> taken U)) \<and>
     (\<forall>f\<in>set L. fl_offset f < iu_reward U) \<and> sum_list vs \<le> iu_reward U \<and> r = iu_reward U - sum_list vs \<and>
     consistent U' \<and> numbered U' \<and> chains_ok U' \<and> iu_flotsam U' = [] \<and>
     (\<forall>f\<in>set L. loc U' (fl_inscription_id f) = Some (landing txid vs (iu_lost_sats U) f)) \<and>
     (\<forall>i. i \<notin> fl_inscription_id ` set L \<longrightarrow> loc U' i = loc U i))"

lemma coinbase_spec:
  assumes run: "index_transaction_inscriptions A D tx txid k ranges U = Inr (r, U')"
    and inv: "block_inv V subsidy spent U" and cb: "ct_input tx = [(null_outpoint, script)]"
    and new_txid: "fresh_txid txid U" and pos: "0 < subsidy"
  shows "\<exists>new. coinbase_effect tx txid new U r U'"
proof -
  let ?vs = "map fst (ct_output tx)"
  from run inv cb new_txid obtain new U2 U3 ov rest where rv: "revealed txid new U U2"
    and pl: "place_on_outputs A ranges tx txid (ct_output tx) 0 0 (sort_key fl_offset (new @ iu_flotsam U))
      (U2\<lparr>iu_flotsam := []\<rparr>) = Inr ((ov, rest), U3)"
    and ls: "lose ranges tx ov rest U3 = Inr U'" and le: "ov \<le> iu_reward U'" and r: "r = iu_reward U' - ov"
    by (rule coinbase_run)
  define L where "L = new @ iu_flotsam U"
  define U0 where "U0 = U2\<lparr>iu_flotsam := []\<rparr>"
  note facts = floating_facts [OF inv pos rv, folded L_def]
  have n: "new = [] \<or> (\<exists>f a b. new = [f] \<and> fl_origin f = New a b \<and> fl_inscription_id f \<notin> taken U)"
    using rv unfolding revealed_def by blast
  have same: "iu_id_to_satpoint U0 = iu_id_to_satpoint U" "iu_satpoint_to_id U0 = iu_satpoint_to_id U"
    "iu_lost_sats U0 = iu_lost_sats U" "iu_reward U0 = iu_reward U" "iu_flotsam U0 = []"
    and num: "numbered U0" and con: "consistent U" "consistent U0"
    using rv inv numbered_same [of U0 U] same_tables(1) [of U0 U] by (simp_all add: U0_def revealed_def block_inv_def)
  have mov: "\<forall>f\<in>set L. movable U0 f" using facts(3) unfolding movable_def same(1,2) .
  have new0: "\<forall>p\<in>dom (who U0). op_txid (sp_outpoint p) \<noteq> txid" using new_txid same(2) by (simp add: fresh_txid_def)
  note out = placed [OF pl [folded L_def U0_def] con(2) num facts(1,2) mov new0]
  have by3: "iu_flotsam U3 = []" "iu_lost_sats U3 = iu_lost_sats U" "iu_reward U3 = iu_reward U"
    "iu_partial_txid_to_txids U3 = iu_partial_txid_to_txids U2" using out(3) same by (simp_all add: bystanders_def U0_def)
  have rest: "set rest \<subseteq> set L" "\<forall>f\<in>set rest. ov \<le> fl_offset f" "distinct (map fl_offset rest)" "distinct (map fl_inscription_id rest)"
    unfolding out(5) using facts(1,2) by (auto simp: distinct_map inj_on_def)
  have off: "sp_offset p < iu_lost_sats U" if "who U3 p = Some i" "sp_outpoint p = null_outpoint" for p i
  proof -
    have l: "loc U3 i = Some p" using that(1) out(1) by (simp add: consistent_def)
    have "spot txid ?vs 0 m \<noteq> Some p" for m
      using spot_outpoint [of txid ?vs 0 m p] that(2) new_txid by (auto simp: fresh_txid_def null_outpoint_def)
    then have "loc U0 i = Some p"
      using l out(6,7) by (cases "i \<in> fl_inscription_id ` set L") (force split: option.splits)+
    then have "who U p = Some i" using con(1) same(1) by (simp add: consistent_def)
    then show ?thesis using inv that(2) unfolding block_inv_def by metis
  qed
  have "movable U3 f" if "f \<in> set rest" for f
  proof (rule still_movable [OF con(2) out(1)])
    show "movable U0 f" using mov rest(1) that by blast
    have "spot txid ?vs 0 (fl_offset f) = None" using rest(2) that by (simp add: spot_None out(4))
    then show "loc U3 (fl_inscription_id f) = loc U0 (fl_inscription_id f)" using out(6) rest(1) that by auto
  qed
  then have rdy: "ready U3 (map (\<lambda>f. (f, lost_place (iu_lost_sats U) ov f)) rest)"
    by (intro lost_ready) (use rest off in auto)
  note moves = lose_run_moves [OF ls, unfolded by3(2)]
  note fin = run_moves_spec [OF out(1) rdy moves]
  have by': "iu_flotsam U' = []" "iu_reward U' = iu_reward U" "iu_partial_txid_to_txids U' = iu_partial_txid_to_txids U2"
    using fin(2) by3 by (simp_all add: bystanders_def)
  have l1: "loc U' (fl_inscription_id f) = Some (landing txid ?vs (iu_lost_sats U) f)" if f: "f \<in> set L" for f
  proof (cases "spot txid ?vs 0 (fl_offset f)")
    case None
    then have "f \<in> set rest" using f by (simp add: out(5) spot_None out(4))
    then show ?thesis
      using destinations_of_map(1) [OF rest(4), of f] None by (simp add: fin(3) map_add_def landing_def out(4))
  next
    case (Some p)
    have "\<not> ov \<le> fl_offset f" using Some by (metis out(4) option.distinct(1) spot_None)
    then have "fl_inscription_id f \<notin> fl_inscription_id ` set rest"
      using f facts(2) rest(1,2) by (auto simp: distinct_map subset_iff dest: inj_onD)
    then show ?thesis
      using destinations_of_map(2) [OF rest(4)] out(6) [OF f] Some by (simp add: fin(3) map_add_def landing_def)
  qed
  have l2: "loc U' i = loc U i" if "i \<notin> fl_inscription_id ` set L" for i
  proof -
    have "i \<notin> fl_inscription_id ` set rest" using that rest(1) by auto
    then show ?thesis using destinations_of_map(2) [OF rest(4)] out(7) [OF that] same(1) by (simp add: fin(3) map_add_def)
  qed
  have "taken U' \<subseteq> taken U \<union> fl_inscription_id ` set L" by (rule taken_grows) (use l2 by' in auto)
  moreover have "taken U2 = taken U" using rv taken_tables [of U2 U] by (simp add: revealed_def)
  moreover have "fl_inscription_id ` set (iu_flotsam U) \<subseteq> taken U" by (auto simp: taken_def)
  ultimately have "taken U' \<subseteq> taken U2 \<union> fl_inscription_id ` set new" unfolding L_def set_append image_Un by blast
  then have "chains_ok U'" using rv unfolding chains_ok_def by'(3) revealed_def by fastforce
  moreover have "numbered U'" by (rule numbered_moves [OF out(1,2) rdy moves])
  ultimately show ?thesis
    unfolding coinbase_effect_def Let_def L_def [symmetric]
    using n facts(4) le r by' fin(1) l1 l2 out(4) by (intro exI [of _ new]) (simp add: L_def)
qed

lemma coinbase_settles:
  assumes eff: "coinbase_effect tx txid new U r U'" and inv: "block_inv V subsidy spent U"
    and val: "outputs_valued V tx txid" and far: "\<forall>q\<in>spent. op_txid q \<noteq> txid" and new_txid: "txid \<noteq> zero_txid"
  shows "tables_ok V (iu_lost_sats U + r) U'" and "who U' p = Some i \<Longrightarrow> sp_outpoint p \<notin> spent"
proof -
  let ?L = "new @ iu_flotsam U" and ?vs = "map fst (ct_output tx)"
  have e: "\<forall>f\<in>set ?L. fl_offset f < iu_reward U" "sum_list ?vs \<le> iu_reward U" "r = iu_reward U - sum_list ?vs"
    "consistent U'" "numbered U'" "chains_ok U'" "iu_flotsam U' = []"
    and l1: "\<forall>f\<in>set ?L. loc U' (fl_inscription_id f) = Some (landing txid ?vs (iu_lost_sats U) f)"
    and l2: "\<forall>i. i \<notin> fl_inscription_id ` set ?L \<longrightarrow> loc U' i = loc U i"
    using eff unfolding coinbase_effect_def Let_def by blast+
  have i: "consistent U" "null_outpoint \<notin> spent"
    "\<forall>p i. who U p = Some i \<longrightarrow> sp_offset p < (if sp_outpoint p = null_outpoint then iu_lost_sats U else V (sp_outpoint p))"
    "\<forall>p i. who U p = Some i \<longrightarrow> sp_outpoint p \<in> spent \<longrightarrow> i \<in> fl_inscription_id ` set (iu_flotsam U)"
    using inv unfolding block_inv_def by blast+
  have land: "sp_offset p < (if sp_outpoint p = null_outpoint then iu_lost_sats U + r else V (sp_outpoint p)) \<and>
      sp_outpoint p \<notin> spent" if f: "f \<in> set ?L" and p: "landing txid ?vs (iu_lost_sats U) f = p" for f p
  proof (cases "spot txid ?vs 0 (fl_offset f)")
    case None
    then have "sum_list ?vs \<le> fl_offset f" by (simp add: spot_None)
    moreover have "fl_offset f < iu_reward U" using e(1) f by blast
    moreover have "p = lost_place (iu_lost_sats U) (sum_list ?vs) f" using None p by (simp add: landing_def)
    ultimately show ?thesis using i(2) by (simp add: lost_place_def e(3))
  next
    case (Some q)
    then have "q = p" using p by (simp add: landing_def)
    then show ?thesis using new_place_value [OF Some val new_txid] far by auto
  qed
  have one: "sp_offset p < (if sp_outpoint p = null_outpoint then iu_lost_sats U + r else V (sp_outpoint p)) \<and>
      sp_outpoint p \<notin> spent" if w: "who U' p = Some i" for p i
  proof (cases "i \<in> fl_inscription_id ` set ?L")
    case True
    then obtain f where f: "f \<in> set ?L" "i = fl_inscription_id f" by blast
    have "loc U' i = Some p" using w e(4) by (simp add: consistent_def)
    then have "landing txid ?vs (iu_lost_sats U) f = p" using l1 f by simp
    with land f(1) show ?thesis by blast
  next
    case False
    then have "loc U' i = loc U i" using l2 by blast
    then have "who U p = Some i" using w e(4) i(1) unfolding consistent_def by metis
    moreover from this have "sp_outpoint p \<notin> spent" using i(4) False by auto
    moreover have "sp_offset p < (if sp_outpoint p = null_outpoint then iu_lost_sats U else V (sp_outpoint p))"
      using calculation(1) i(3) by blast
    ultimately show ?thesis by (auto split: if_splits)
  qed
  show "tables_ok V (iu_lost_sats U + r) U'" using one e(4-7) unfolding tables_ok_def by blast
  show "who U' p = Some i \<Longrightarrow> sp_outpoint p \<notin> spent" using one by blast
qed

end
