(* ===== verification/Inscription_Values.thy ===== *)
theory Inscription_Values
  imports Inscription_Coinbase
begin

text \<open>
  The values of spent outputs. Outputs of the block itself are read from the cache, older ones from
  the table, and the rest from the fetcher, which was asked for them before the block was indexed: its
  answers meet the inputs they belong to, because the inputs are read in the order they were asked for.
\<close>

section \<open>The sources of values\<close>

definition outpoints_of :: "chain_tx \<Rightarrow> txid \<Rightarrow> outpoint set" where
  "outpoints_of tx txid = (\<lambda>k. \<lparr>op_txid = txid, op_vout = k\<rparr>) ` {..<length (ct_output tx)}"

definition unknown :: "txid set \<Rightarrow> inscription_updater \<Rightarrow> outpoint \<Rightarrow> bool" where
  "unknown ids U q \<longleftrightarrow> q \<noteq> null_outpoint \<and> op_txid q \<notin> ids \<and>
    map_of (iu_value_cache U) q = None \<and> map_of (iu_outpoint_to_value U) q = None"

definition values_ok :: "(outpoint \<Rightarrow> nat) \<Rightarrow> txid set \<Rightarrow> outpoint set \<Rightarrow> outpoint list \<Rightarrow> inscription_updater \<Rightarrow> bool" where
  "values_ok V ids made todo U \<longleftrightarrow>
    (\<forall>q v a. map_of (iu_value_cache U) q = Some (v, a) \<longrightarrow> v = V q) \<and>
    (\<forall>q v. map_of (iu_outpoint_to_value U) q = Some v \<longrightarrow> v = V q) \<and>
    (\<forall>q\<in>made \<inter> set todo. map_of (iu_value_cache U) q \<noteq> None) \<and>
    iu_value_receiver U = map V (filter (unknown ids U) todo)"

text \<open>The tables of values are all that matters.\<close>

definition value_tables :: "inscription_updater \<Rightarrow> (outpoint, u64 \<times> rchar list) hashmap \<times> (outpoint, u64) hashmap \<times> u64 list" where
  "value_tables U = (iu_value_cache U, iu_outpoint_to_value U, iu_value_receiver U)"

lemma values_ok_cong: "value_tables U' = value_tables U \<Longrightarrow> values_ok V ids made todo U' = values_ok V ids made todo U"
  by (simp add: values_ok_def value_tables_def unknown_def [abs_def])

lemma forget_address_tables:
  "forget_address A q U = Inr U' \<Longrightarrow> value_tables U' = value_tables U"
  by (auto simp: forget_address_def remove_address_def value_tables_def res_simps split: option.splits)

lemma unknown_later:
  assumes "q \<notin> set todo"
    and "map_of (iu_value_cache U') = (map_of (iu_value_cache U))(q := x)"
    and "map_of (iu_outpoint_to_value U') = (map_of (iu_outpoint_to_value U))(q := y)"
  shows "filter (unknown ids U') todo = filter (unknown ids U) todo"
  using assms by (intro filter_cong) (auto simp: unknown_def)

lemma take_value_ok:
  assumes ok: "values_ok V ids made (q # todo) U" and take: "take_value A q U = Inr (v, U')"
    and q: "q \<noteq> null_outpoint" "op_txid q \<in> ids \<Longrightarrow> q \<in> made" "q \<notin> set todo"
  shows "v = V q" and "values_ok V ids made todo U'"
proof -
  let ?cache = "map_of (iu_value_cache U)" and ?known = "map_of (iu_outpoint_to_value U)"
  have o: "\<forall>q v a. ?cache q = Some (v, a) \<longrightarrow> v = V q" "\<forall>q v. ?known q = Some v \<longrightarrow> v = V q"
    "\<forall>q\<in>made \<inter> set (q # todo). ?cache q \<noteq> None" "iu_value_receiver U = map V (filter (unknown ids U) (q # todo))"
    using ok unfolding values_ok_def by blast+
  have goal: "values_ok V ids made todo U'" if "iu_value_receiver U' = map V (filter (unknown ids U) todo)"
    "map_of (iu_value_cache U') = ?cache(q := x)" "map_of (iu_outpoint_to_value U') = ?known(q := y)"
    "x = None \<or> x = ?cache q" "y = None \<or> y = ?known q" for x y
    unfolding values_ok_def unknown_later [OF q(3) that(2,3)] using o(1-3) that q(3) by auto
  show "v = V q"
  proof (cases "?cache q")
    case (Some va)
    then show ?thesis using take o(1) by (cases va) (auto simp: take_value_def)
  next
    case None
    then have "?known q = None \<Longrightarrow> unknown ids U q" using q(1,2) o(3) by (auto simp: unknown_def)
    with None take o(2,4) show ?thesis
      by (auto simp: take_value_def res_simps split: option.splits list.splits)
  qed
  show "values_ok V ids made todo U'"
  proof (cases "?cache q")
    case (Some va)
    have "U' = U\<lparr>iu_value_cache := AList.delete q (iu_value_cache U)\<rparr>"
      using take Some by (auto simp: take_value_def split: prod.splits)
    moreover have "\<not> unknown ids U q" using Some by (simp add: unknown_def)
    ultimately show ?thesis using o(4) by (intro goal [of None "?known q"]) (auto simp: delete_conv')
  next
    case None
    show ?thesis
    proof (cases "?known q")
      case (Some w)
      have "value_tables U' = value_tables (U\<lparr>iu_outpoint_to_value := AList.delete q (iu_outpoint_to_value U)\<rparr>)"
        using take None Some by (auto simp: take_value_def res_simps dest: forget_address_tables)
      moreover have "\<not> unknown ids U q" using Some by (simp add: unknown_def)
      ultimately show ?thesis
        using o(4) None by (intro goal [of None None]) (auto simp: value_tables_def delete_conv')
    next
      case unk: None
      have "unknown ids U q" using None unk q(1,2) o(3) by (auto simp: unknown_def)
      with take None unk have "U' = U\<lparr>iu_value_receiver := map V (filter (unknown ids U) todo)\<rparr>"
        using o(4) by (auto simp: take_value_def)
      then show ?thesis using None unk by (intro goal [of None None]) auto
    qed
  qed
qed

lemma scan_reads:
  assumes "scan_inputs A D txid k ins base fs U = Inr (x, U')" and "values_ok V ids made (map fst ins @ todo) U"
    and "null_outpoint \<notin> fst ` set ins" and "\<forall>q\<in>fst ` set ins. op_txid q \<in> ids \<longrightarrow> q \<in> made"
    and "distinct (map fst ins @ todo)"
  shows "reads A V (map fst ins) U \<and> values_ok V ids made todo U'"
  using assms
proof (induction ins arbitrary: base fs U)
  case (Cons y ins)
  obtain q script where y: "y = (q, script)" by fastforce
  with Cons.prems(3) have q: "q \<noteq> null_outpoint" by auto
  from Cons.prems(1) y q obtain gs v U1 where tv: "take_value A q U = Inr (v, U1)"
    and rest: "scan_inputs A D txid k ins (base + v) (fs @ gs) U1 = Inr (x, U')" by (auto simp: res_simps)
  have "v = V q" "values_ok V ids made (map fst ins @ todo) U1"
    using take_value_ok [of V ids made q "map fst ins @ todo" U A v U1] Cons.prems(2,4,5) y q tv by auto
  moreover from this Cons.IH [OF rest] Cons.prems(3-5) have "reads A V (map fst ins) U1 \<and> values_ok V ids made todo U'" by simp
  ultimately show ?case using tv y by simp
qed simp

section \<open>Outputs enter the cache\<close>

lemma update_location_tables: "update_inscription_location ranges f p tx U = Inr U' \<Longrightarrow> value_tables U' = value_tables U"
  using update_location_Inr(3,4) by (fastforce simp: bystanders_def value_tables_def)

lemma run_moves_tables: "run_moves ranges tx ms U = Inr U' \<Longrightarrow> value_tables U' = value_tables U"
proof (induction ms arbitrary: U)
  case (Cons m ms)
  obtain f p where "m = (f, p)" by fastforce
  with Cons show ?case by (auto simp: res_simps dest!: update_location_tables)
qed simp

lemma place_on_outputs_values:
  assumes "place_on_outputs A ranges tx txid outs vout ov fs U = Inr (x, U')" and "values_ok V ids made todo U"
    and "txid \<in> ids" and "\<forall>k < length outs. V \<lparr>op_txid = txid, op_vout = vout + k\<rparr> = fst (outs ! k)"
  shows "values_ok V ids (made \<union> (\<lambda>k. \<lparr>op_txid = txid, op_vout = vout + k\<rparr>) ` {..<length outs}) todo U'"
  using assms
proof (induction outs arbitrary: vout ov fs U made)
  case (Cons out outs)
  obtain v script where out: "out = (v, script)" by fastforce
  let ?q = "\<lparr>op_txid = txid, op_vout = vout\<rparr>"
  from Cons.prems(1) out obtain fs1 U1 where
    here: "place_on_output ranges tx ?q ov (ov + v) fs U = Inr (fs1, U1)"
    and rest: "place_on_outputs A ranges tx txid outs (Suc vout) (ov + v) fs1
      (U1\<lparr>iu_value_cache := hm_insert ?q (v, cached_address A script) (iu_value_cache U1)\<rparr>) = Inr (x, U')"
    by (auto simp: res_simps Let_def)
  let ?U2 = "U1\<lparr>iu_value_cache := hm_insert ?q (v, cached_address A script) (iu_value_cache U1)\<rparr>"
  have "values_ok V ids made todo U1"
    using values_ok_cong [OF run_moves_tables [OF place_on_output_Inr(2) [OF here]]] Cons.prems(2) by simp
  moreover have "unknown ids ?U2 = unknown ids U1" using Cons.prems(3) by (auto simp: unknown_def fun_eq_iff)
  moreover have "V ?q = v" using Cons.prems(4) out by fastforce
  ultimately have 2: "values_ok V ids (insert ?q made) todo ?U2" unfolding values_ok_def by auto
  have 3: "\<forall>k < length outs. V \<lparr>op_txid = txid, op_vout = Suc vout + k\<rparr> = fst (outs ! k)"
    using Cons.prems(4) by fastforce
  have "insert ?q made \<union> (\<lambda>k. \<lparr>op_txid = txid, op_vout = Suc vout + k\<rparr>) ` {..<length outs} =
      made \<union> (\<lambda>k. \<lparr>op_txid = txid, op_vout = vout + k\<rparr>) ` {..<length (out # outs)}"
    by (simp add: lessThan_Suc_eq_insert_0 image_image)
  then show ?case using Cons.IH [OF rest 2 Cons.prems(3) 3] by simp
qed simp

lemma reveal_complete_tables:
  "reveal_complete tx txid k iv q c insc A U = Inr (new, U') \<Longrightarrow> value_tables U' = value_tables U"
  by (auto simp: reveal_complete_def Let_def value_tables_def res_simps)

lemma reveal_tables:
  assumes "reveal A tx txid k iv U = Inr (new, U')"
  shows "value_tables U' = value_tables U"
proof -
  from assms obtain first where first: "index_or_panic (ct_input tx) 0 = Inr first"
    by (auto simp: reveal_def res_bind_eq_Inr lift_panic_Inr)
  define q where "q = fst first"
  define c where "c = (case map_of (iu_partial_txid_to_txids U) (op_txid q) of None \<Rightarrow> [] | Some txids \<Rightarrow> txids)"
  from assms first obtain txs where "(case from_transactions (map (map snd \<circ> ct_input) (txs @ [tx])) of
      ParsedNone \<Rightarrow> Inr ([], U)
    | Partial \<Rightarrow> Inr ([], U\<lparr>iu_partial_txid_to_txids := hm_insert txid (c @ txid) (AList.delete (op_txid q) (iu_partial_txid_to_txids U)),
        iu_txid_to_tx := hm_insert txid (consensus_encode A tx) (iu_txid_to_tx U)\<rparr>)
    | Complete insc \<Rightarrow> reveal_complete tx txid k iv q c insc A U) = Inr (new, U')"
    unfolding reveal_def c_def q_def Let_def res_bind_eq_Inr lift_panic_Inr by auto
  then show ?thesis
    by (cases "from_transactions (map (map snd \<circ> ct_input) (txs @ [tx]))")
      (auto simp: value_tables_def dest!: reveal_complete_tables)
qed

lemma entered_tables: "value_tables (entered A tx txid k U) = value_tables U"
  by (simp add: entered_def value_tables_def Let_def)

text \<open>A transaction reads the values of what it spends and makes its own outputs known.\<close>

lemma transaction_values:
  assumes run: "index_transaction_inscriptions A D tx txid k ranges U = Inr (r, U')"
    and ok: "values_ok V ids made (spends tx @ todo) U" and null: "null_outpoint \<notin> set (spends tx)"
    and src: "\<forall>q\<in>set (spends tx). op_txid q \<in> ids \<longrightarrow> q \<in> made" and dist: "distinct (spends tx @ todo)"
    and ids: "txid \<in> ids" and val: "outputs_valued V tx txid"
  shows "reads A V (spends tx) (entered A tx txid k U)" and "values_ok V ids (made \<union> outpoints_of tx txid) todo U'"
proof -
  have cb: "\<not> is_coinbase tx" using null by (auto simp: is_coinbase_def spends_def split: list.splits)
  from run obtain iv ins U1 new U2 ov rest U3 where
      sc: "scan_inputs A D txid k (ct_input tx) 0 [] (entered A tx txid k U) = Inr ((iv, ins), U1)"
    and rv: "(if \<forall>f\<in>set ins. fl_offset f \<noteq> 0 then reveal A tx txid k iv U1 else Inr ([], U1)) = Inr (new, U2)"
    and pl: "place_on_outputs A ranges tx txid (ct_output tx) 0 0
      (sort_key fl_offset (if is_coinbase tx then (ins @ new) @ iu_flotsam U2 else ins @ new))
      (if is_coinbase tx then U2\<lparr>iu_flotsam := []\<rparr> else U2) = Inr ((ov, rest), U3)"
    and "is_coinbase tx \<longrightarrow> lose ranges tx ov rest U3 = Inr U' \<and> ov \<le> iu_reward U' \<and> r = iu_reward U' - ov"
    and fin: "\<not> is_coinbase tx \<longrightarrow> r = 0 \<and> ov \<le> iv \<and>
      U' = U3\<lparr>iu_flotsam := iu_flotsam U3 @ map (\<lambda>f. f\<lparr>fl_offset := iu_reward U3 + fl_offset f - ov\<rparr>) rest,
        iu_reward := iu_reward U3 + (iv - ov)\<rparr>" by (rule transaction_stages)
  have "values_ok V ids made (map fst (ct_input tx) @ todo) (entered A tx txid k U)"
    using ok values_ok_cong [OF entered_tables] by (simp add: spends_def)
  from scan_reads [OF sc this] null src dist have
      rd: "reads A V (spends tx) (entered A tx txid k U)" and v1: "values_ok V ids made todo U1" by (auto simp: spends_def)
  show "reads A V (spends tx) (entered A tx txid k U)" by (rule rd)
  have "value_tables U2 = value_tables U1" using rv reveal_tables by (auto split: if_splits)
  then have v2: "values_ok V ids made todo U2" using v1 values_ok_cong by blast
  have "values_ok V ids (made \<union> (\<lambda>k. \<lparr>op_txid = txid, op_vout = 0 + k\<rparr>) ` {..<length (ct_output tx)}) todo U3"
    by (rule place_on_outputs_values [OF pl [unfolded if_not_P [OF cb]] v2 ids])
      (use val in \<open>simp add: outputs_valued_def\<close>)
  moreover have "value_tables U' = value_tables U3" using fin cb by (simp add: value_tables_def)
  ultimately show "values_ok V ids (made \<union> outpoints_of tx txid) todo U'"
    using values_ok_cong [of U' U3] by (simp add: outpoints_of_def)
qed

end
