(* ===== verification/Inscription_Tracking.thy ===== *)
theory Inscription_Tracking
  imports Inscription_Values
begin

text \<open>
  The specification of a block: where a sat goes, computed from the transactions and the values of the
  outputs they spend, with no tables. The updater refines it: every inscription goes where its sat goes.
\<close>

section \<open>Following a sat\<close>

datatype place = Placed sat_point | Floating nat

text \<open>Through one transaction, when \<open>reward\<close> sats of subsidy and fees have been collected.\<close>

fun follow :: "(outpoint \<Rightarrow> nat) \<Rightarrow> chain_tx \<Rightarrow> txid \<Rightarrow> nat \<Rightarrow> place \<Rightarrow> place" where
  "follow V tx txid reward (Floating n) = Floating n"
| "follow V tx txid reward (Placed p) =
    (if sp_outpoint p \<in> set (spends tx)
     then (case spot txid (map fst (ct_output tx)) 0 (input_offset V (spends tx) p) of
         Some q \<Rightarrow> Placed q
       | None \<Rightarrow> Floating (reward + input_offset V (spends tx) p - sum_list (map fst (ct_output tx))))
     else Placed p)"

definition fee_of :: "(outpoint \<Rightarrow> nat) \<Rightarrow> chain_tx \<Rightarrow> nat" where
  "fee_of V tx = sum_list (map V (spends tx)) - sum_list (map fst (ct_output tx))"

fun follow_all :: "(outpoint \<Rightarrow> nat) \<Rightarrow> (chain_tx \<times> txid) list \<Rightarrow> nat \<Rightarrow> place \<Rightarrow> place" where
  "follow_all V [] reward w = w"
| "follow_all V ((tx, txid) # txs) reward w = follow_all V txs (reward + fee_of V tx) (follow V tx txid reward w)"

text \<open>Through a block, the coinbase transaction last.\<close>

fun track_block :: "(outpoint \<Rightarrow> nat) \<Rightarrow> (chain_tx \<times> txid) list \<Rightarrow> nat \<Rightarrow> nat \<Rightarrow> sat_point \<Rightarrow> sat_point" where
  "track_block V [] subsidy lost_sats p = p"
| "track_block V ((cb, cbid) # txs) subsidy lost_sats p =
    (case follow_all V txs subsidy (Placed p) of
       Placed q \<Rightarrow> q
     | Floating n \<Rightarrow>
         (case spot cbid (map fst (ct_output cb)) 0 n of
            Some q \<Rightarrow> q
          | None \<Rightarrow> \<lparr>sp_outpoint = null_outpoint, sp_offset = lost_sats + n - sum_list (map fst (ct_output cb))\<rparr>))"

section \<open>One transaction\<close>

definition stands :: "inscription_updater \<Rightarrow> inscription_id \<Rightarrow> place \<Rightarrow> bool" where
  "stands U i w \<longleftrightarrow> (case w of
      Placed p \<Rightarrow> loc U i = Some p \<and> i \<notin> fl_inscription_id ` set (iu_flotsam U)
    | Floating n \<Rightarrow> \<exists>f\<in>set (iu_flotsam U). fl_inscription_id f = i \<and> fl_offset f = n)"

lemma spend_follow:
  assumes inv: "block_inv V subsidy spent U" and val: "valid_spend A V spent tx txid k U"
    and eff: "spend_effect V tx txid k new U U'" and st: "stands U i w"
  shows "stands U' i (follow V tx txid (iu_reward U) w)"
proof -
  define vs where "vs = map fst (ct_output tx)"
  define c where "c = carried txid k V (iu_satpoint_to_id U) (spends tx) 0"
  have new: "new = [] \<or> (\<exists>f a b. new = [f] \<and> fl_origin f = New a b \<and> fl_inscription_id f \<notin> taken U)"
    and ids: "distinct (map fl_inscription_id (c @ new))" and mov: "\<forall>f\<in>set (c @ new). movable U f"
    and fl: "iu_flotsam U' = iu_flotsam U @ map (\<lambda>f. f\<lparr>fl_offset := iu_reward U + fl_offset f - sum_list vs\<rparr>)
       (filter (\<lambda>f. sum_list vs \<le> fl_offset f) (sort_key fl_offset (c @ new)))"
    and l1: "\<forall>f\<in>set (c @ new). loc U' (fl_inscription_id f) =
       (case spot txid vs 0 (fl_offset f) of None \<Rightarrow> loc U (fl_inscription_id f) | Some p \<Rightarrow> Some p)"
    and l2: "\<forall>i. i \<notin> fl_inscription_id ` set (c @ new) \<longrightarrow> loc U' i = loc U i"
    using eff unfolding spend_effect_def Let_def vs_def c_def by blast+
  have con: "consistent U" and v: "distinct (spends tx)" using inv val by (simp_all add: block_inv_def valid_spend_def)
  have late: "fl_inscription_id ` set (iu_flotsam U') = fl_inscription_id ` set (iu_flotsam U) \<union>
      fl_inscription_id ` {f \<in> set (c @ new). sum_list vs \<le> fl_offset f}"
    unfolding fl set_append set_map set_filter set_sort image_Un image_image by simp
  show ?thesis
  proof (cases w)
    case (Floating n)
    then show ?thesis using st by (auto simp: stands_def fl)
  next
    case (Placed p)
    then have here: "loc U i = Some p" "i \<notin> fl_inscription_id ` set (iu_flotsam U)" using st by (simp_all add: stands_def)
    show ?thesis
    proof (cases "sp_outpoint p \<in> set (spends tx)")
      case True
      have "(p, i) \<in> set (iu_satpoint_to_id U)" using here(1) con by (simp add: consistent_def map_of_SomeD)
      from carried_complete [OF this True] obtain f where f: "f \<in> set c" "fl_inscription_id f = i" "fl_origin f = Old p"
        unfolding c_def by blast
      have off: "fl_offset f = input_offset V (spends tx) p"
        using carried_input_offset [OF f(1) [unfolded c_def] f(3) v] by simp
      show ?thesis
      proof (cases "spot txid vs 0 (fl_offset f)")
        case None
        then have "f\<lparr>fl_offset := iu_reward U + fl_offset f - sum_list vs\<rparr> \<in> set (iu_flotsam U')"
          using f(1) by (auto simp: fl spot_None)
        then have "stands U' i (Floating (iu_reward U + fl_offset f - sum_list vs))"
          using f(2) unfolding stands_def place.case by (rule_tac bexI) simp_all
        then show ?thesis using None True Placed by (simp add: off vs_def)
      next
        case (Some q)
        have "g = f" if "g \<in> set (c @ new)" "fl_inscription_id g = i" for g
          using that f(1,2) ids by (auto simp: distinct_map dest: inj_onD)
        moreover have "\<not> sum_list vs \<le> fl_offset f" using Some by (metis option.distinct(1) spot_None)
        ultimately have "i \<notin> fl_inscription_id ` set (iu_flotsam U')" using here(2) unfolding late by blast
        moreover have "loc U' i = Some q" using l1 f(1,2) Some by auto
        ultimately show ?thesis using Some True Placed by (simp add: stands_def off vs_def)
      qed
    next
      case False
      have "i \<notin> fl_inscription_id ` set (c @ new)"
      proof
        assume "i \<in> fl_inscription_id ` set (c @ new)"
        then obtain f where f: "f \<in> set (c @ new)" "fl_inscription_id f = i" by blast
        have "f \<notin> set new" using new here(1) f(2) by (auto simp: taken_def)
        with f(1) have "f \<in> set c" by simp
        then obtain p' where p': "fl_origin f = Old p'" "sp_outpoint p' \<in> set (spends tx)"
          unfolding c_def by (rule carriedD)
        have "movable U f" using mov f(1) by blast
        with p'(1) f(2) have "who U p' = Some i" by (simp add: movable_def)
        with here(1) con have "p' = p" unfolding consistent_def by (metis option.inject)
        with p'(2) False show False by simp
      qed
      moreover from this have "i \<notin> fl_inscription_id ` set (iu_flotsam U')" using here(2) unfolding late by blast
      moreover have "loc U' i = loc U i" using calculation(1) l2 by blast
      ultimately show ?thesis using here Placed False by (simp add: stands_def)
    qed
  qed
qed

lemma coinbase_follow:
  assumes eff: "coinbase_effect tx txid new U r U'" and st: "stands U i w"
  shows "loc U' i = Some (case w of Placed q \<Rightarrow> q
     | Floating n \<Rightarrow> (case spot txid (map fst (ct_output tx)) 0 n of Some q \<Rightarrow> q
       | None \<Rightarrow> \<lparr>sp_outpoint = null_outpoint, sp_offset = iu_lost_sats U + n - sum_list (map fst (ct_output tx))\<rparr>))"
proof (cases w)
  case (Floating n)
  then obtain f where "f \<in> set (iu_flotsam U)" "fl_inscription_id f = i" "fl_offset f = n" using st by (auto simp: stands_def)
  moreover from this have "loc U' i = Some (landing txid (map fst (ct_output tx)) (iu_lost_sats U) f)"
    using eff by (auto simp: coinbase_effect_def Let_def)
  ultimately show ?thesis by (simp add: Floating landing_def lost_place_def split: option.split)
next
  case (Placed p)
  then have p: "loc U i = Some p" "i \<notin> fl_inscription_id ` set (iu_flotsam U)" using st by (simp_all add: stands_def)
  have "i \<notin> fl_inscription_id ` set new" using eff p(1) by (auto simp: coinbase_effect_def Let_def taken_def)
  then have "i \<notin> fl_inscription_id ` set (new @ iu_flotsam U)" using p(2) by auto
  then show ?thesis using eff p(1) Placed by (simp add: coinbase_effect_def Let_def)
qed

section \<open>The block\<close>

definition block_spends :: "(chain_tx \<times> txid) list \<Rightarrow> outpoint list" where
  "block_spends txs = concat (map (spends \<circ> fst) txs)"

text \<open>
  What consensus guarantees of the transactions after the coinbase: \<open>made\<close> are the outputs of this block
  so far, and an output of this block is spent only after it is made.
\<close>

fun in_order :: "(outpoint \<Rightarrow> nat) \<Rightarrow> txid set \<Rightarrow> outpoint set \<Rightarrow> (chain_tx \<times> txid) list \<Rightarrow> bool" where
  "in_order V ids made [] \<longleftrightarrow> True"
| "in_order V ids made ((tx, txid) # txs) \<longleftrightarrow> outputs_valued V tx txid \<and> 0 < sum_list (map V (spends tx)) \<and>
    (\<forall>q\<in>set (spends tx). op_txid q \<in> ids \<longrightarrow> q \<in> made) \<and> in_order V ids (made \<union> outpoints_of tx txid) txs"

fun valid_block :: "(outpoint \<Rightarrow> nat) \<Rightarrow> (chain_tx \<times> txid) list \<Rightarrow> inscription_updater \<Rightarrow> bool" where
  "valid_block V [] U \<longleftrightarrow> False"
| "valid_block V ((cb, cbid) # txs) U \<longleftrightarrow> map fst (ct_input cb) = [null_outpoint] \<and> outputs_valued V cb cbid \<and>
    distinct (cbid # map snd txs) \<and> (\<forall>t\<in>set (cbid # map snd txs). fresh_txid t U) \<and>
    distinct (block_spends txs) \<and> null_outpoint \<notin> set (block_spends txs) \<and>
    in_order V (set (cbid # map snd txs)) {} txs"

text \<open>
  The transactions indexed one after the other, with whatever ranges of sats; both ways of indexing a
  block come down to it.
\<close>

fun indexed_all :: "chain_api \<Rightarrow> sat_data \<Rightarrow> (nat \<times> chain_tx \<times> txid) list \<Rightarrow> inscription_updater \<Rightarrow> inscription_updater \<Rightarrow> bool" where
  "indexed_all A D [] U U' \<longleftrightarrow> U' = U"
| "indexed_all A D ((n, tx, txid) # txs) U U' \<longleftrightarrow>
    (\<exists>ranges r U1. index_transaction_inscriptions A D tx txid n ranges U = Inr (r, U1) \<and> indexed_all A D txs U1 U')"

lemma block_spends_simps [simp]:
  "block_spends [] = []" "block_spends ((tx, txid) # txs) = spends tx @ block_spends txs"
  by (simp_all add: block_spends_def)

text \<open>The state between two transactions of a block: \<open>later\<close> are the txids still to come.\<close>

definition mid_block :: "(outpoint \<Rightarrow> nat) \<Rightarrow> nat \<Rightarrow> txid set \<Rightarrow> outpoint set \<Rightarrow> outpoint set \<Rightarrow> outpoint list \<Rightarrow> txid set \<Rightarrow>
    inscription_updater \<Rightarrow> bool" where
  "mid_block V subsidy ids made spent todo later U \<longleftrightarrow> block_inv V subsidy spent U \<and> values_ok V ids made todo U \<and>
    distinct todo \<and> null_outpoint \<notin> set todo \<and> set todo \<inter> spent = {} \<and> later \<subseteq> ids \<and>
    (\<forall>t\<in>later. fresh_txid t U) \<and> (\<forall>q\<in>spent. op_txid q \<in> ids \<longrightarrow> q \<in> made) \<and> (\<forall>q\<in>made. op_txid q \<notin> later)"

lemma mid_block_step:
  assumes run: "index_transaction_inscriptions A D tx txid k ranges U = Inr (r, U')"
    and mid: "mid_block V subsidy ids made spent (spends tx @ todo) (insert txid later) U" and last: "txid \<notin> later"
    and val: "outputs_valued V tx txid" "0 < sum_list (map V (spends tx))" "\<forall>q\<in>set (spends tx). op_txid q \<in> ids \<longrightarrow> q \<in> made"
  shows "valid_spend A V spent tx txid k U"
    and "mid_block V subsidy ids (made \<union> outpoints_of tx txid) (spent \<union> set (spends tx)) todo later U'"
proof -
  have m: "block_inv V subsidy spent U" "values_ok V ids made (spends tx @ todo) U" "distinct (spends tx @ todo)"
    "null_outpoint \<notin> set (spends tx @ todo)" "set (spends tx @ todo) \<inter> spent = {}" "insert txid later \<subseteq> ids"
    "\<forall>t\<in>insert txid later. fresh_txid t U" "\<forall>q\<in>spent. op_txid q \<in> ids \<longrightarrow> q \<in> made" "\<forall>q\<in>made. op_txid q \<notin> insert txid later"
    using mid unfolding mid_block_def by blast+
  have "null_outpoint \<notin> set (spends tx)" "txid \<in> ids" using m(4,6) by auto
  note vals = transaction_values [OF run m(2) this(1) val(3) m(3) this(2) val(1)]
  have "op_txid q \<noteq> txid" if "q \<in> spent \<union> set (spends tx)" for q using that m(6,8,9) val(3) by blast
  then show vs: "valid_spend A V spent tx txid k U"
    using m(3-5,7) val vals(1) unfolding valid_spend_def by auto
  obtain new where eff: "spend_effect V tx txid k new U U'" using spend_spec [OF run m(1) vs] by blast
  have "\<forall>t\<in>later. fresh_txid t U'" using eff m(7) last unfolding spend_effect_def Let_def by blast
  moreover have "\<forall>q\<in>made \<union> outpoints_of tx txid. op_txid q \<notin> later" using m(9) last by (auto simp: outpoints_of_def)
  ultimately show "mid_block V subsidy ids (made \<union> outpoints_of tx txid) (spent \<union> set (spends tx)) todo later U'"
    using spend_keeps_inv [OF m(1) vs eff] vals(2) m(3-6,8) val(3) unfolding mid_block_def by auto
qed

lemma mid_block_run:
  assumes "indexed_all A D (enumerate n txs) U U'"
    and "mid_block V subsidy ids made spent (block_spends txs) (later \<union> set (map snd txs)) U"
    and "in_order V ids made txs" and "distinct (map snd txs)" and "later \<inter> set (map snd txs) = {}"
  shows "iu_lost_sats U' = iu_lost_sats U \<and> iu_reward U' = iu_reward U + sum_list (map (fee_of V \<circ> fst) txs) \<and>
    (\<exists>made. mid_block V subsidy ids made (spent \<union> set (block_spends txs)) [] later U') \<and>
    (\<forall>i w. stands U i w \<longrightarrow> stands U' i (follow_all V txs (iu_reward U) w))"
  using assms
proof (induction txs arbitrary: n made spent U)
  case Nil
  then show ?case by auto
next
  case (Cons x txs)
  obtain tx txid where x: "x = (tx, txid)" by fastforce
  from Cons.prems(1) x obtain ranges r U1 where run: "index_transaction_inscriptions A D tx txid n ranges U = Inr (r, U1)"
    and rest: "indexed_all A D (enumerate (Suc n) txs) U1 U'" by auto
  let ?later = "later \<union> set (map snd txs)"
  have mid: "mid_block V subsidy ids made spent (spends tx @ block_spends txs) (insert txid ?later) U"
    using Cons.prems(2) x by simp
  have v: "txid \<notin> ?later" "outputs_valued V tx txid" "0 < sum_list (map V (spends tx))"
    "\<forall>q\<in>set (spends tx). op_txid q \<in> ids \<longrightarrow> q \<in> made" using Cons.prems(3-5) x by auto
  note vs = mid_block_step(1) [OF run mid v]
  note mid1 = mid_block_step(2) [OF run mid v]
  have inv: "block_inv V subsidy spent U" using mid by (simp add: mid_block_def)
  obtain new where eff: "spend_effect V tx txid n new U U1" using spend_spec [OF run inv vs] by blast
  have e: "iu_lost_sats U1 = iu_lost_sats U" "iu_reward U1 = iu_reward U + fee_of V tx"
    using eff by (simp_all add: spend_effect_def Let_def fee_of_def)
  have IH: "iu_lost_sats U' = iu_lost_sats U1 \<and> iu_reward U' = iu_reward U1 + sum_list (map (fee_of V \<circ> fst) txs) \<and>
    (\<exists>made. mid_block V subsidy ids made ((spent \<union> set (spends tx)) \<union> set (block_spends txs)) [] later U') \<and>
    (\<forall>i w. stands U1 i w \<longrightarrow> stands U' i (follow_all V txs (iu_reward U1) w))"
    by (rule Cons.IH [OF rest mid1]) (use Cons.prems(3-5) x in auto)
  moreover have "stands U1 i (follow V tx txid (iu_reward U) w)" if "stands U i w" for i w
    by (rule spend_follow [OF inv vs eff that])
  ultimately show ?case using e x by (auto simp: Un_assoc comp_def)
qed

section \<open>From block to block\<close>

lemma next_number_of_numbered:
  assumes "numbered U" and "next_number_of (iu_number_to_id U) = Inr n"
  shows "n = iu_next_number U"
proof -
  let ?t = "iu_number_to_id U"
  have dom: "m \<in> fst ` set ?t \<longleftrightarrow> m < iu_next_number U" for m
    using assms(1) unfolding numbered_def by (metis map_of_eq_None_iff)
  have mx: "foldr max xs 0 = (if xs = [] then 0 else Max (set xs))" for xs :: "nat list"
    by (induction xs) (auto simp: max_def)
  show ?thesis
  proof (cases "?t = []")
    case True
    then show ?thesis using assms(2) dom [of 0] by (simp add: next_number_of_def)
  next
    case False
    then obtain m where "m \<in> fst ` set ?t" by (cases ?t) auto
    then have "iu_next_number U \<noteq> 0" using dom by auto
    then have "Max {..<iu_next_number U} = iu_next_number U - 1" by (intro Max_eqI) auto
    moreover have "fst ` set ?t = {..<iu_next_number U}" using dom by auto
    ultimately show ?thesis
      using assms(2) False \<open>iu_next_number U \<noteq> 0\<close> by (auto simp: next_number_of_def mx lift_panic_Inr add_or_panic_Inr)
  qed
qed

definition known_values :: "(outpoint \<Rightarrow> nat) \<Rightarrow> inscription_updater \<Rightarrow> bool" where
  "known_values V U \<longleftrightarrow> (\<forall>q v a. map_of (iu_value_cache U) q = Some (v, a) \<longrightarrow> v = V q) \<and>
    (\<forall>q v. map_of (iu_outpoint_to_value U) q = Some v \<longrightarrow> v = V q)"

lemma updater_new_mid_block:
  assumes new: "inscription_updater_new D height lost_sats timestamp (map V (missing_inputs ((cb, cbid) # txs) U0)) U0 = Inr U"
    and ok: "tables_ok V lost_sats U0" and vals: "known_values V U0" and valid: "valid_block V ((cb, cbid) # txs) U0"
    and sub: "height_subsidy D height = Inr subsidy"
  shows "mid_block V subsidy (set (cbid # map snd txs)) {} {} (block_spends txs) (insert cbid (set (map snd txs))) U"
    and "iu_lost_sats U = lost_sats" and "iu_reward U = subsidy" and "iu_id_to_satpoint U = iu_id_to_satpoint U0"
    and "iu_flotsam U = []"
proof -
  from new sub obtain n where n: "next_number_of (iu_number_to_id U0) = Inr n"
    and U: "U = U0\<lparr>iu_flotsam := [], iu_operations := [], iu_height := height,
      iu_value_receiver := map V (missing_inputs ((cb, cbid) # txs) U0),
      iu_lost_sats := lost_sats, iu_next_number := n, iu_reward := subsidy, iu_timestamp := timestamp,
      iu_current_txid := zero_txid, iu_current_tx_index := 0, iu_journal := []\<rparr>"
    by (auto simp: inscription_updater_new_def res_bind_eq_Inr)
  have t: "consistent U0" "numbered U0" "chains_ok U0" "iu_flotsam U0 = []"
    "\<forall>p i. who U0 p = Some i \<longrightarrow> sp_offset p < (if sp_outpoint p = null_outpoint then lost_sats else V (sp_outpoint p))"
    using ok unfolding tables_ok_def by blast+
  have num: "n = iu_next_number U0" by (rule next_number_of_numbered [OF t(2) n])
  have c: "consistent U" "numbered U" "chains_ok U" "taken U = taken U0"
    using t(1-4) same_tables(1) [of U U0] numbered_same [of U U0] num by (simp_all add: U taken_def chains_ok_def)
  have v: "map fst (ct_input cb) = [null_outpoint]" "distinct (block_spends txs)" "null_outpoint \<notin> set (block_spends txs)"
    "\<forall>t\<in>set (cbid # map snd txs). fresh_txid t U0" using valid unfolding valid_block.simps by blast+
  have "who U = who U0" "iu_lost_sats U = lost_sats" by (simp_all add: U)
  then have b: "\<forall>p i. who U p = Some i \<longrightarrow> sp_offset p < (if sp_outpoint p = null_outpoint then iu_lost_sats U else V (sp_outpoint p))"
    using t(5) by (simp only:)
  have inv: "block_inv V subsidy {} U" unfolding block_inv_def by (intro conjI c(1-3) b) (simp_all add: U)
  have fresh: "\<forall>t\<in>insert cbid (set (map snd txs)). fresh_txid t U" using v(4) c(4) by (auto simp: fresh_txid_def U)
  have "missing_inputs ((cb, cbid) # txs) U0 = filter (unknown (set (cbid # map snd txs)) U) (block_spends txs)"
    using v(1) by (simp add: missing_inputs_def unknown_def [abs_def] U block_spends_def spends_def comp_def case_prod_unfold)
  then have "values_ok V (set (cbid # map snd txs)) {} (block_spends txs) U"
    using vals unfolding values_ok_def known_values_def by (simp add: U)
  with inv v(2,3) fresh show "mid_block V subsidy (set (cbid # map snd txs)) {} {} (block_spends txs) (insert cbid (set (map snd txs))) U"
    unfolding mid_block_def by auto
  show "iu_lost_sats U = lost_sats" "iu_reward U = subsidy" "iu_id_to_satpoint U = iu_id_to_satpoint U0" "iu_flotsam U = []"
    by (simp_all add: U)
qed

text \<open>The whole block: all transactions but the first, then the coinbase transaction.\<close>

lemma block_indexed:
  assumes new: "inscription_updater_new D height lost_sats timestamp (map V (missing_inputs ((cb, cbid) # txs) U0)) U0 = Inr U"
    and spends: "indexed_all A D (enumerate (Suc 0) txs) U U1"
    and last: "index_transaction_inscriptions A D cb cbid 0 ranges U1 = Inr (r, U')"
    and ok: "tables_ok V lost_sats U0" and vals: "known_values V U0" and valid: "valid_block V ((cb, cbid) # txs) U0"
    and sub: "height_subsidy D height = Inr subsidy" "0 < subsidy"
  shows "tables_ok V (lost_sats + r) U'" and "who U' p = Some i \<Longrightarrow> sp_outpoint p \<notin> set (block_spends txs)"
    and "loc U0 i = Some p \<Longrightarrow> loc U' i = Some (track_block V ((cb, cbid) # txs) subsidy lost_sats p)"
    and "r = subsidy + sum_list (map (fee_of V \<circ> fst) txs) - sum_list (map fst (ct_output cb))"
    and "sum_list (map fst (ct_output cb)) \<le> subsidy + sum_list (map (fee_of V \<circ> fst) txs)"
proof -
  note start = updater_new_mid_block [OF new ok vals valid sub(1)]
  have v: "map fst (ct_input cb) = [null_outpoint]" "outputs_valued V cb cbid" "distinct (cbid # map snd txs)"
    "in_order V (set (cbid # map snd txs)) {} txs" using valid unfolding valid_block.simps by blast+
  have mid: "iu_lost_sats U1 = iu_lost_sats U" "iu_reward U1 = iu_reward U + sum_list (map (fee_of V \<circ> fst) txs)"
    "\<exists>made. mid_block V subsidy (set (cbid # map snd txs)) made ({} \<union> set (block_spends txs)) [] {cbid} U1"
    "\<forall>i w. stands U i w \<longrightarrow> stands U1 i (follow_all V txs (iu_reward U) w)"
    using mid_block_run [OF spends, of V subsidy "set (cbid # map snd txs)" "{}" "{}" "{cbid}"] start(1) v(3,4) by auto
  then have inv: "block_inv V subsidy (set (block_spends txs)) U1" and fresh: "fresh_txid cbid U1"
    and far: "\<forall>q\<in>set (block_spends txs). op_txid q \<noteq> cbid" unfolding mid_block_def by auto
  obtain script where cb: "ct_input cb = [(null_outpoint, script)]" using v(1) by auto
  obtain new where eff: "coinbase_effect cb cbid new U1 r U'" using coinbase_spec [OF last inv cb fresh sub(2)] by blast
  have nz: "cbid \<noteq> zero_txid" using fresh by (simp add: fresh_txid_def)
  show "tables_ok V (lost_sats + r) U'" using coinbase_settles(1) [OF eff inv v(2) far nz] mid(1) start(2) by simp
  show "who U' p = Some i \<Longrightarrow> sp_outpoint p \<notin> set (block_spends txs)"
    using coinbase_settles(2) [OF eff inv v(2) far nz] by simp
  show "r = subsidy + sum_list (map (fee_of V \<circ> fst) txs) - sum_list (map fst (ct_output cb))"
    "sum_list (map fst (ct_output cb)) \<le> subsidy + sum_list (map (fee_of V \<circ> fst) txs)"
    using eff mid(2) start(3) by (simp_all add: coinbase_effect_def Let_def)
  assume "loc U0 i = Some p"
  then have "stands U i (Placed p)" using start(4,5) by (simp add: stands_def)
  then have "stands U1 i (follow_all V txs subsidy (Placed p))" using mid(4) start(3) by metis
  from coinbase_follow [OF eff this] show "loc U' i = Some (track_block V ((cb, cbid) # txs) subsidy lost_sats p)"
    unfolding mid(1) start(2) track_block.simps .
qed

end
