(* ===== verification/Inscription_Properties.thy ===== *)
theory Inscription_Properties
  imports Inscription_Tracking
begin

text \<open>
  The properties of indexing the inscriptions of a block, from the state the previous block left to the
  state the next one starts from. \<open>V\<close> gives the value of every output of the chain; the fetcher answers
  with these values, in the order it is asked.
\<close>

section \<open>Without the sat index\<close>

abbreviation index_step :: "chain_api \<Rightarrow> sat_data \<Rightarrow> nat \<times> chain_tx \<times> txid \<Rightarrow> u64 \<times> inscription_updater \<Rightarrow>
    updater_error + u64 \<times> inscription_updater" where
  "index_step A D \<equiv> \<lambda>(tx_index, tx, txid) (lost_sats, U).
      res_bind (ok_or IndexTooLarge (try_from u32_max tx_index)) (\<lambda>tx_index.
      res_bind (index_transaction_inscriptions A D tx txid tx_index None U) (\<lambda>(lost, U).
      res_bind (u64_add lost_sats lost) (\<lambda>lost_sats. Inr (lost_sats, U))))"

lemma index_step_Inr:
  assumes "index_step A D (n, tx, txid) (lost_sats, U) = Inr (lost', U')"
  obtains r where "index_transaction_inscriptions A D tx txid n None U = Inr (r, U')" and "lost' = lost_sats + r"
  using assms by (auto simp: res_simps try_from_def split: if_splits)

lemma index_steps_indexed_all:
  assumes "res_fold (index_step A D) txs (lost_sats, U) = Inr (lost', U')" and "\<forall>(n, tx, txid)\<in>set txs. \<not> is_coinbase tx"
  shows "indexed_all A D txs U U' \<and> lost' = lost_sats"
  using assms
proof (induction txs arbitrary: lost_sats U)
  case (Cons x txs)
  obtain n tx txid where x: "x = (n, tx, txid)" by (metis prod_cases3)
  from Cons.prems(1) obtain s where s: "index_step A D (n, tx, txid) (lost_sats, U) = Inr s"
    and rest: "res_fold (index_step A D) txs s = Inr (lost', U')" unfolding x res_fold.simps by (rule res_bind_InrE)
  obtain lost1 U1 where s1: "s = (lost1, U1)" by fastforce
  from s [unfolded s1] obtain r where run: "index_transaction_inscriptions A D tx txid n None U = Inr (r, U1)"
    and lost1: "lost1 = lost_sats + r" by (rule index_step_Inr)
  have "\<not> is_coinbase tx" using Cons.prems(2) x by auto
  with run have "r = 0" by (elim transaction_stages) simp
  with Cons.IH [OF rest [unfolded s1]] Cons.prems(2) run lost1 show ?case by (auto simp: x)
qed simp

lemma plain_block_indexed:
  assumes new: "inscription_updater_new D height lost_sats timestamp (map V (missing_inputs txdata U0)) U0 = Inr U"
    and run: "index_inscriptions_of_block A D txdata lost_sats U = Inr (lost', U')"
    and ok: "tables_ok V lost_sats U0" and vals: "known_values V U0" and valid: "valid_block V txdata U0"
    and sub: "height_subsidy D height = Inr subsidy" "0 < subsidy"
  shows "tables_ok V lost' U'" and "who U' p = Some i \<Longrightarrow> sp_outpoint p \<notin> set (block_spends (tl txdata))"
    and "loc U0 i = Some p \<Longrightarrow> loc U' i = Some (track_block V txdata subsidy lost_sats p)"
proof -
  from valid obtain cb cbid txs where txdata: "txdata = (cb, cbid) # txs"
    by (cases txdata) (auto simp: split_paired_all)
  have "indexing_order txdata = enumerate (Suc 0) txs @ [(0, cb, cbid)]" by (simp add: txdata indexing_order_def)
  with run have "res_bind (res_fold (index_step A D) (enumerate (Suc 0) txs) (lost_sats, U))
      (res_fold (index_step A D) [(0, cb, cbid)]) = Inr (lost', U')"
    unfolding index_inscriptions_of_block_def by (simp only: res_fold_append)
  then obtain s where s: "res_fold (index_step A D) (enumerate (Suc 0) txs) (lost_sats, U) = Inr s"
    and cbs: "index_step A D (0, cb, cbid) s = Inr (lost', U')" by (elim res_bind_InrE) (simp add: res_bind_def split: sum.splits)
  obtain lost1 U1 where s1: "s = (lost1, U1)" by fastforce
  from cbs [unfolded s1] obtain r where last: "index_transaction_inscriptions A D cb cbid 0 None U1 = Inr (r, U')"
    and lost': "lost' = lost1 + r" by (rule index_step_Inr)
  have "null_outpoint \<notin> set (block_spends txs)" using valid unfolding txdata valid_block.simps by blast
  then have "\<not> is_coinbase tx" if "(tx, txid) \<in> set txs" for tx txid
    using that by (fastforce simp: is_coinbase_def block_spends_def spends_def split: list.splits)
  then have "\<forall>(n, tx, txid)\<in>set (enumerate (Suc 0) txs). \<not> is_coinbase tx"
    by (auto simp: enumerate_eq_zip dest: set_zip_rightD)
  from index_steps_indexed_all [OF s [unfolded s1] this] have all: "indexed_all A D (enumerate (Suc 0) txs) U U1" "lost1 = lost_sats"
    by simp_all
  note block = block_indexed [OF new [unfolded txdata] all(1) last ok vals valid [unfolded txdata] sub]
  show "tables_ok V lost' U'" using block(1) lost' all(2) by simp
  show "who U' p = Some i \<Longrightarrow> sp_outpoint p \<notin> set (block_spends (tl txdata))" using block(2) txdata by simp
  show "loc U0 i = Some p \<Longrightarrow> loc U' i = Some (track_block V txdata subsidy lost_sats p)" using block(3) txdata by simp
qed

section \<open>Properties\<close>

text \<open>
  C3: Indexing a block keeps the inscription tables in order: the table of places and the table of
  inscriptions are inverse to each other, inscriptions are numbered without gaps and each has an entry
  with its number, every inscription is at an offset within its output (or within the lost sats), chains
  of partial reveals have ids of their own, and nothing floats any more.
\<close>

theorem inscription_tables_invariant:
  assumes "inscription_updater_new D height lost_sats timestamp (map V (missing_inputs txdata U0)) U0 = Inr U"
    and "index_inscriptions_of_block A D txdata lost_sats U = Inr (lost', U')"
    and "tables_ok V lost_sats U0" and "known_values V U0" and "valid_block V txdata U0"
    and "height_subsidy D height = Inr subsidy" and "0 < subsidy"
  shows "tables_ok V lost' U'"
  by (rule plain_block_indexed(1) [OF assms])

text \<open>
  C1: Every inscription goes where its sat goes. The place the updater gives an inscription after a block
  is the one computed by following its sat through the block, first in, first out: within each
  transaction by its offset among the inputs, through the fees to the coinbase transaction, and to the
  lost sats where the miner claims less than the reward.
\<close>

theorem inscriptions_follow_sats:
  assumes "inscription_updater_new D height lost_sats timestamp (map V (missing_inputs txdata U0)) U0 = Inr U"
    and "index_inscriptions_of_block A D txdata lost_sats U = Inr (lost', U')"
    and "tables_ok V lost_sats U0" and "known_values V U0" and "valid_block V txdata U0"
    and "height_subsidy D height = Inr subsidy" and "0 < subsidy"
    and "map_of (iu_id_to_satpoint U0) i = Some p"
  shows "map_of (iu_id_to_satpoint U') i = Some (track_block V txdata subsidy lost_sats p)"
  by (rule plain_block_indexed(3) [OF assms])

text \<open>
  C31: After a block no inscription is recorded on an output the block has spent.
\<close>

theorem spent_outputs_hold_nothing:
  assumes "inscription_updater_new D height lost_sats timestamp (map V (missing_inputs txdata U0)) U0 = Inr U"
    and "index_inscriptions_of_block A D txdata lost_sats U = Inr (lost', U')"
    and "tables_ok V lost_sats U0" and "known_values V U0" and "valid_block V txdata U0"
    and "height_subsidy D height = Inr subsidy" and "0 < subsidy"
    and "q \<in> set (block_spends (tl txdata))"
  shows "inscriptions_on_output (iu_satpoint_to_id U') q = []"
proof -
  have ok: "hm_ok (iu_satpoint_to_id U')" using plain_block_indexed(1) [OF assms(1-7)] by (simp add: tables_ok_def consistent_def)
  have "sp_outpoint p \<noteq> q" if "(p, i) \<in> set (iu_satpoint_to_id U')" for p i
  proof -
    have "who U' p = Some i" using that ok by (simp add: hm_ok_def)
    from plain_block_indexed(2) [OF assms(1-7) this] show ?thesis using assms(8) by auto
  qed
  then show ?thesis by (auto simp: inscriptions_on_output_def filter_empty_conv)
qed

section \<open>A block\<close>

text \<open>
  An inscription on the sixth sat of an output of ten is spent by a transaction that keeps three; it
  falls into the fee, and from there onto the output of the coinbase transaction.
\<close>

definition tid :: "nat \<Rightarrow> txid" where "tid n = replicate 32 (word_of_nat n)"

definition old_output :: outpoint where "old_output = \<lparr>op_txid = tid 1, op_vout = 0\<rparr>"

definition moved_id :: inscription_id where "moved_id = \<lparr>ii_txid = tid 1, ii_index = 0\<rparr>"

definition moved_point :: sat_point where "moved_point = \<lparr>sp_outpoint = old_output, sp_offset = 5\<rparr>"

definition moved_tx :: chain_tx where "moved_tx = \<lparr>ct_input = [(old_output, [])], ct_output = [(3, [])]\<rparr>"

definition moved_cb :: chain_tx where "moved_cb = \<lparr>ct_input = [(null_outpoint, [])], ct_output = [(10007, [])]\<rparr>"

definition moved_api :: chain_api where
  "moved_api = \<lparr>consensus_encode = (\<lambda>_. []), consensus_decode = (\<lambda>_. None), script_address = (\<lambda>_. None)\<rparr>"

definition moved_state :: inscription_updater where
  "moved_state = \<lparr>iu_flotsam = [], iu_operations = [], iu_height = 0, iu_id_to_satpoint = [(moved_id, moved_point)],
    iu_id_to_txids = [], iu_txid_to_tx = [], iu_partial_txid_to_txids = [], iu_value_receiver = [], iu_index_transactions = False,
    iu_transaction_id_to_transaction = [], iu_id_to_entry = [(moved_id, (0, 0, 0, None, 0, 0))], iu_lost_sats = 0,
    iu_next_number = 1, iu_number_to_id = [(0, moved_id)], iu_outpoint_to_value = [(old_output, 10)], iu_outpoint_to_address = [],
    iu_address_to_outpoint = [], iu_reward = 0, iu_sat_to_inscription_id = [], iu_satpoint_to_id = [(moved_point, moved_id)],
    iu_timestamp = 0, iu_value_cache = [], iu_current_txid = zero_txid, iu_current_tx_index = 0, iu_journal = []\<rparr>"

definition moved_block :: "(chain_tx \<times> txid) list" where "moved_block = [(moved_cb, tid 2), (moved_tx, tid 3)]"

definition moved_values :: "outpoint \<Rightarrow> nat" where
  "moved_values q = (if q = old_output then 10 else if op_txid q = tid 2 then 10007 else 3)"

definition moved_start :: inscription_updater where
  "moved_start = moved_state\<lparr>iu_height := 7, iu_reward := 10000\<rparr>"

definition moved_floating :: inscription_updater where
  "moved_floating = moved_start\<lparr>iu_flotsam := [\<lparr>fl_txid = tid 3, fl_tx_index = 1, fl_inscription_id = moved_id,
      fl_offset = 10002, fl_old_satpoint = moved_point, fl_origin = Old moved_point\<rparr>],
    iu_outpoint_to_value := [], iu_reward := 10007,
    iu_value_cache := [(\<lparr>op_txid = tid 3, op_vout = 0\<rparr>, 3, replicate 34 0)],
    iu_current_txid := tid 3, iu_current_tx_index := 1\<rparr>"

lemma tid_eq: "n < 256 \<Longrightarrow> m < 256 \<Longrightarrow> tid n = tid m \<longleftrightarrow> n = m"
  by (auto simp: tid_def of_nat_inverse dest!: arg_cong [where f = unat])

lemma tid_zero: "0 < n \<Longrightarrow> n < 256 \<Longrightarrow> tid n \<noteq> zero_txid"
  using tid_eq [of n 0] by (simp add: tid_def zero_txid_def)

lemma tid_not_null: "0 < n \<Longrightarrow> n < 256 \<Longrightarrow> \<lparr>op_txid = tid n, op_vout = m\<rparr> \<noteq> null_outpoint"
  using tid_zero by (auto simp: null_outpoint_def)

lemma tid_length: "length (tid n) = 32"
  by (simp add: tid_def)

lemmas moved_defs = old_output_def moved_id_def moved_point_def moved_tx_def moved_cb_def moved_api_def
  moved_state_def moved_block_def moved_values_def moved_start_def moved_floating_def

lemmas indexing_defs = index_transaction_inscriptions_def take_value_def inscriptions_on_output_def forget_address_def
  is_coinbase_def reveal_def hm_insert_def cached_address_def update_inscription_location_def register_origin_def
  journal_to_def journal_transfer_def

lemma no_reveal: "from_transactions [[[]]] = ParsedNone"
  by (simp add: from_transactions_def parse_with_def)

lemma flat_subsidy: "height_subsidy flat_data 7 = Inr 10000"
  by (simp add: height_subsidy_def epoch_subsidy_def epoch_of_height_def flat_data_def)

lemma moved_missing: "missing_inputs moved_block moved_state = []"
  by (simp add: missing_inputs_def moved_defs)

lemma moved_new: "inscription_updater_new flat_data 7 0 0 (map V (missing_inputs moved_block moved_state)) moved_state =
    Inr moved_start"
  unfolding moved_missing
  by (simp add: inscription_updater_new_def next_number_of_def moved_defs flat_subsidy width_defs checked_defs)

lemma moved_spend:
  "index_transaction_inscriptions moved_api flat_data moved_tx (tid 3) 1 None moved_start = Inr (0, moved_floating)"
  by (simp add: moved_defs indexing_defs width_defs checked_defs tid_not_null tid_eq no_reveal chunks_exact.simps [of 32 "[]"])

lemma moved_last:
  "\<exists>U. index_transaction_inscriptions moved_api flat_data moved_cb (tid 2) 0 None moved_floating = Inr (0, U)"
  by (simp add: moved_defs indexing_defs width_defs checked_defs tid_not_null tid_eq no_reveal chunks_exact.simps [of 32 "[]"]
      flat_subsidy null_outpoint_def)

lemma moved_run: "\<exists>U. index_inscriptions_of_block moved_api flat_data moved_block 0 moved_start = Inr (0, U)"
  using moved_last
  by (auto simp: index_inscriptions_of_block_def indexing_order_def moved_block_def moved_spend [simplified] checked_defs width_defs ok_or_def)

lemma moved_tables: "tables_ok moved_values 0 moved_state"
  by (auto simp: tables_ok_def consistent_def numbered_def chains_ok_def hm_ok_def moved_defs entry_number_def
      inscription_entry_load_def tid_not_null split: if_splits)

lemma moved_known: "known_values moved_values moved_state"
  by (simp add: known_values_def moved_defs)

lemma moved_valid: "valid_block moved_values moved_block moved_state"
  by (auto simp: valid_block.simps moved_block_def moved_defs spends_def outputs_valued_def outpoints_of_def fresh_txid_def
      taken_def tid_eq tid_zero tid_zero [THEN not_sym] tid_not_null tid_length null_outpoint_def split: if_splits)

lemmas moved_hyps = moved_tables moved_known moved_valid flat_subsidy

theorem inscription_tables_invariant_witness:
  "\<exists>U. index_inscriptions_of_block moved_api flat_data moved_block 0 moved_start = Inr (0, U) \<and> tables_ok moved_values 0 U"
proof -
  obtain U where run: "index_inscriptions_of_block moved_api flat_data moved_block 0 moved_start = Inr (0, U)"
    using moved_run by blast
  from inscription_tables_invariant [OF moved_new run moved_hyps] run show ?thesis by simp
qed

theorem inscriptions_follow_sats_witness:
  "\<exists>U. index_inscriptions_of_block moved_api flat_data moved_block 0 moved_start = Inr (0, U) \<and>
    map_of (iu_id_to_satpoint U) moved_id = Some \<lparr>sp_outpoint = \<lparr>op_txid = tid 2, op_vout = 0\<rparr>, sp_offset = 10002\<rparr>"
proof -
  obtain U where run: "index_inscriptions_of_block moved_api flat_data moved_block 0 moved_start = Inr (0, U)"
    using moved_run by blast
  have at: "map_of (iu_id_to_satpoint moved_state) moved_id = Some moved_point" by (simp add: moved_defs)
  have "track_block moved_values moved_block 10000 0 moved_point =
      \<lparr>sp_outpoint = \<lparr>op_txid = tid 2, op_vout = 0\<rparr>, sp_offset = 10002\<rparr>"
    by (simp add: moved_defs spends_def input_offset_def fee_of_def)
  with inscriptions_follow_sats [OF moved_new run moved_hyps _ at] run show ?thesis by simp
qed

theorem spent_outputs_hold_nothing_witness:
  "\<exists>U. index_inscriptions_of_block moved_api flat_data moved_block 0 moved_start = Inr (0, U) \<and>
    inscriptions_on_output (iu_satpoint_to_id U) old_output = []"
proof -
  obtain U where run: "index_inscriptions_of_block moved_api flat_data moved_block 0 moved_start = Inr (0, U)"
    using moved_run by blast
  have "old_output \<in> set (block_spends (tl moved_block))" by (simp add: moved_block_def moved_tx_def spends_def)
  with spent_outputs_hold_nothing [OF moved_new run moved_hyps] run show ?thesis by simp
qed

end
