(* ===== verification/Sat_Properties.thy ===== *)
theory Sat_Properties
  imports Sat_Flow Inscription_Properties
begin

text \<open>
  The properties of the sat index: a transaction deals the sats of its inputs to its outputs in order or
  is refused for want of sats, and an output whose one range is longer than the eleven bytes of a range
  can hold is refused when it is spent.
\<close>

section \<open>Properties\<close>

text \<open>
  C4: The sats of a transaction are dealt first in, first out. Whatever ranges a transaction is given, of
  any length, the index either cuts them into one piece per output, the pieces and what is left being
  the given sats in their order and each piece exactly as many sats as its output is worth, writes the bytes
  of each piece as the row of its output and changes no other row; or, exactly when the outputs are
  worth more than there are sats, stops with the error for insufficient inputs. It never panics, with
  data files as the repository's and counters below their limits.
\<close>

theorem ranges_dealt_in_order:
  assumes "data_ok D" and "proper ranges" and "length (ct_output tx) \<le> Suc u32_max"
    and "room S (length ranges) (length (ct_output tx))"
    and "if ii then \<exists>r. index_transaction_inscriptions A D tx txid n (Some ranges) U = Inr (r, U') else U' = U"
  shows "if sum_list (map fst (ct_output tx)) \<le> length (flat ranges)
    then \<exists>pieces left S'. index_transaction_sats A D ii tx txid n ranges (S, U) = Inr (left, S', U') \<and>
      flat ranges = flat (concat pieces) @ flat left \<and> map (\<lambda>rs. length (flat rs)) pieces = map fst (ct_output tx) \<and>
      map_of (si_range_cache S') = map_of (si_range_cache S) ++ dealt_rows txid 0 pieces \<and>
      si_outpoint_to_sat_ranges S' = si_outpoint_to_sat_ranges S
    else index_transaction_sats A D ii tx txid n ranges (S, U) = Inl InsufficientInputs"
proof -
  have "index_transaction_sats A D ii tx txid n ranges (S, U) =
      res_bind (fill_outputs D txid (ct_output tx) 0 ranges S) (\<lambda>(ranges, S). Inr (ranges, S, U'))"
    using assms(5) by (cases ii) (auto simp: index_transaction_sats_def)
  moreover have "0 + length (ct_output tx) \<le> Suc u32_max" using assms(3) by simp
  ultimately show ?thesis using fill_outputs_exact [OF assms(1,2) _ assms(4), of 0 txid]
    by (cases "sum_list (map fst (ct_output tx)) \<le> length (flat ranges)") fastforce+
qed

section \<open>Ranges too long for their row\<close>

text \<open>
  A range of \<open>2^37\<close> sats or more, and almost every block mines one (the subsidy of 144755 of the 145006
  epochs of the repository's file is as large), is stored with its length cut to 37 bits. An output that
  holds just that range is then short of sats: a transaction that spends it for its worth is refused, and
  with it the block.
\<close>

lemma long_range_loads_short:
  assumes "a < 2 ^ 51" and "a \<le> b"
  shows "load_ranges (chunks_exact 11 (packed (a, b))) = Inr [(a, a + (b - a) mod 2 ^ 37)]"
proof -
  have "a OR push_bit 51 (b - a) = a + (b - a) * 2 ^ 51" using assms(1) by (rule or_push_bit_add)
  then have "(a OR push_bit 51 (b - a)) div 2 ^ 51 = b - a" using assms(1) by simp
  then have "sat_range_load (packed (a, b)) = Inr (a, a + (b - a) mod 2 ^ 37)"
    using sat_range_load_store [OF assms(2)] assms by (simp add: store_packed)
  then show ?thesis using length_packed [OF assms(2)] by (simp add: chunks_exact.simps [of 11])
qed

lemma long_range_unspendable:
  assumes "data_ok D" and "a < 2 ^ 51" and "a \<le> b"
    and ins: "map fst (ct_input tx) = [q]" "map_of (si_range_cache S) q = None"
      "map_of (si_outpoint_to_sat_ranges S) q = Some (packed (a, b))"
    and short: "(b - a) mod 2 ^ 37 < sum_list (map fst (ct_output tx))"
    and "length (ct_output tx) \<le> Suc u32_max" and "room S 1 (length (ct_output tx))" and "n \<le> u32_max"
  shows "index_spend_sats A D False (n, tx, txid) (coinbase_inputs, S, U) = Inl InsufficientInputs"
proof -
  let ?S = "S\<lparr>si_outpoint_to_sat_ranges := AList.delete q (si_outpoint_to_sat_ranges S)\<rparr>"
  let ?ranges = "[(a, a + (b - a) mod 2 ^ 37)]"
  have g: "gather_ranges (map fst (ct_input tx)) S = Inr (?ranges, ?S)"
    using ins long_range_loads_short [OF assms(2,3)] by (simp add: take_ranges_def)
  moreover have "room ?S (length ?ranges) (length (ct_output tx))" using assms(9) by (simp add: room_def)
  moreover have "\<not> sum_list (map fst (ct_output tx)) \<le> length (flat ?ranges)" using short by simp
  ultimately have "fill_outputs D txid (ct_output tx) 0 ?ranges ?S = Inl InsufficientInputs"
    using fill_outputs_exact [OF assms(1) gather_ranges_proper [OF g], of 0 "ct_output tx" ?S txid] assms(8) by simp
  then show ?thesis
    using g assms(10) by (simp add: index_spend_sats_def index_transaction_sats_def ok_or_def try_from_def)
qed

section \<open>Two transactions\<close>

definition dealt_index :: sat_index where
  "dealt_index = \<lparr>si_range_cache = [], si_outpoint_to_sat_ranges = [], si_sat_to_satpoint = [],
    si_sat_ranges_since_flush = 0, si_outputs_cached = 1, si_outputs_inserted_since_flush = 0, si_sat_ranges_written = 0,
    si_outputs_in_block = 0\<rparr>"

lemma moved_spend_sats:
  "index_transaction_inscriptions moved_api flat_data moved_tx (tid 3) 1 (Some [(0, 10)]) moved_start = Inr (0, moved_floating)"
  by (simp add: moved_defs indexing_defs width_defs checked_defs tid_not_null tid_eq no_reveal chunks_exact.simps [of 32 "[]"])

lemma dealt_room: "room dealt_index (length rs) (length (ct_output moved_tx))" if "length rs < 9" for rs :: "(nat \<times> nat) list"
  using that by (simp add: room_def dealt_index_def moved_tx_def u64_max_def)

theorem ranges_dealt_in_order_witness:
  "(\<exists>rs left S'. index_transaction_sats moved_api flat_data True moved_tx (tid 3) 1 [(0, 10)] (dealt_index, moved_start) =
      Inr (left, S', moved_floating) \<and> flat rs = [0, 1, 2] \<and> flat left = [3..<10] \<and>
      map_of (si_range_cache S') \<lparr>op_txid = tid 3, op_vout = 0\<rparr> = Some (packed_row rs)) \<and>
   index_transaction_sats moved_api flat_data False moved_tx (tid 3) 1 [(0, 2)] (dealt_index, moved_start) = Inl InsufficientInputs"
proof
  note deal = ranges_dealt_in_order [OF flat_data_ok _ _ dealt_room, where A = moved_api and txid = "tid 3" and n = 1 and U = moved_start]
  have ten: "[0..<10] = [0, 1, 2] @ [3..<(10::nat)]" by (simp add: upt_rec)
  have "if sum_list (map fst (ct_output moved_tx)) \<le> length (flat [(0, 10)])
    then \<exists>pieces left S'. index_transaction_sats moved_api flat_data True moved_tx (tid 3) 1 [(0, 10)] (dealt_index, moved_start) =
        Inr (left, S', moved_floating) \<and>
      flat [(0, 10)] = flat (concat pieces) @ flat left \<and> map (\<lambda>rs. length (flat rs)) pieces = map fst (ct_output moved_tx) \<and>
      map_of (si_range_cache S') = map_of (si_range_cache dealt_index) ++ dealt_rows (tid 3) 0 pieces \<and>
      si_outpoint_to_sat_ranges S' = si_outpoint_to_sat_ranges dealt_index
    else index_transaction_sats moved_api flat_data True moved_tx (tid 3) 1 [(0, 10)] (dealt_index, moved_start) = Inl InsufficientInputs"
    by (rule deal) (use moved_spend_sats in \<open>auto simp: u64_max_def, simp add: moved_tx_def\<close>)
  then obtain rs left S' where run: "index_transaction_sats moved_api flat_data True moved_tx (tid 3) 1 [(0, 10)] (dealt_index, moved_start) =
      Inr (left, S', moved_floating)" and f: "[0..<10] = flat rs @ flat left" "length (flat rs) = 3"
    and c: "map_of (si_range_cache S') = map_of (si_range_cache dealt_index) ++ dealt_rows (tid 3) 0 [rs]"
    by (auto simp: moved_tx_def map_eq_Cons_conv simp del: upt_rec_numeral)
  have "flat rs = take 3 [0..<10]" "flat left = drop 3 [0..<10]" using f by simp_all
  then have "flat rs = [0, 1, 2]" "flat left = [3..<10]" unfolding ten by simp_all
  moreover have "map_of (si_range_cache S') \<lparr>op_txid = tid 3, op_vout = 0\<rparr> = Some (packed_row rs)"
    unfolding c by (simp add: dealt_rows_def map_add_def)
  ultimately show "\<exists>rs left S'. index_transaction_sats moved_api flat_data True moved_tx (tid 3) 1 [(0, 10)] (dealt_index, moved_start) =
      Inr (left, S', moved_floating) \<and> flat rs = [0, 1, 2] \<and> flat left = [3..<10] \<and>
      map_of (si_range_cache S') \<lparr>op_txid = tid 3, op_vout = 0\<rparr> = Some (packed_row rs)" using run by blast
  show "index_transaction_sats moved_api flat_data False moved_tx (tid 3) 1 [(0, 2)] (dealt_index, moved_start) = Inl InsufficientInputs"
    using deal [of "[(0, 2)]" False moved_start] by (simp add: moved_tx_def u64_max_def)
qed

end
