(* ===== verification/Bytes.thy ===== *)
theory Bytes
  imports Prelude
begin

text \<open>
  Fixed layouts of bytes: big-endian integers, and reading consecutive fields of given widths. The
  journal of the index and the cursors of its feed are laid out this way.
\<close>

section \<open>Big-endian integers\<close>

definition be_bytes :: "nat \<Rightarrow> nat \<Rightarrow> byte list" where
  "be_bytes k n = rev (le_bytes k n)"

definition from_be :: "byte list \<Rightarrow> nat" where
  "from_be bs = from_le (rev bs)"

lemma length_be_bytes [simp]: "length (be_bytes k n) = k"
  by (simp add: be_bytes_def)

lemma from_be_bytes: "from_be (be_bytes k n) = n mod 256 ^ k"
  by (simp add: be_bytes_def from_be_def from_le_bytes)

lemma be_bytes_from_be: "length bs = k \<Longrightarrow> be_bytes k (from_be bs) = bs"
  using le_bytes_from_le [of "rev bs"] by (simp add: be_bytes_def from_be_def)

lemma from_le_less: "from_le bs < 256 ^ length bs"
proof (induction bs)
  case Nil
  then show ?case by simp
next
  case (Cons b bs)
  have "unat b < 256" by simp
  with Cons have "unat b + 256 * from_le bs < 256 + 256 * (256 ^ length bs - 1)"
    by (intro add_less_le_mono mult_le_mono2) auto
  then show ?case by (simp add: algebra_simps)
qed

lemma from_be_less: "from_be bs < 256 ^ length bs"
  using from_le_less [of "rev bs"] by (simp add: from_be_def)

lemma from_be_u32 [simp]: "n \<le> u32_max \<Longrightarrow> from_be (be_bytes 4 n) = n"
  and from_be_u64 [simp]: "n \<le> u64_max \<Longrightarrow> from_be (be_bytes 8 n) = n"
  by (simp_all add: from_be_bytes width_defs)

lemma from_be_bound:
  "length bs = 4 \<Longrightarrow> from_be bs \<le> u32_max"
  "length bs = 8 \<Longrightarrow> from_be bs \<le> u64_max"
  using from_be_less [of bs] by (simp_all add: width_defs)

section \<open>Consecutive fields\<close>

text \<open>
  \<open>let mut take = |n| { let slice = &bytes[at..at + n]; at += n; slice }\<close>, called with one width
  after the other.
\<close>

fun take_fields :: "nat list \<Rightarrow> 'a list \<Rightarrow> 'a list list" where
  "take_fields [] bs = []"
| "take_fields (n # ns) bs = take n bs # take_fields ns (drop n bs)"

lemma length_take_fields [simp]: "length (take_fields ns bs) = length ns"
  by (induction ns arbitrary: bs) simp_all

lemma take_fields_concat: "map length fs = ns \<Longrightarrow> take_fields ns (concat fs @ rest) = fs"
  by (induction fs arbitrary: ns) auto

lemma concat_take_fields: "concat (take_fields ns bs) @ drop (sum_list ns) bs = bs"
proof (induction ns arbitrary: bs)
  case Nil
  then show ?case by simp
next
  case (Cons n ns)
  from Cons [of "drop n bs"] show ?case by (simp add: add.commute)
qed

lemma take_fields_widths:
  "sum_list ns \<le> length bs \<Longrightarrow> map length (take_fields ns bs) = ns"
  by (induction ns arbitrary: bs) auto

lemma fields_cover:
  assumes "length bs = sum_list ns"
  shows "concat (take_fields ns bs) = bs"
  using concat_take_fields [of ns bs] assms by simp

end
