(* ===== verification/Dogemap_Journal.thy ===== *)
theory Dogemap_Journal
  imports Inscription_Updater Bytes "HOL-Library.Product_Lexorder"
begin

text \<open>
  The journal of the Dogemap feed (\<open>src/index/dogemap_feed.rs\<close>): the rows a block leaves behind, one
  for each inscription it created or moved, how a row is laid out in bytes, and the range of heights
  the journal covers. How an outpoint and an offset are written in Bitcoin's consensus encoding is
  the bitcoin library's: the record \<open>wire_api\<close>, with what is documented of it as the locale
  \<open>consensus_wire\<close>. The database id comes from a random number generator and is an argument.
\<close>

section \<open>Stored satpoints\<close>

record wire_api =
  encode_outpoint :: "outpoint \<Rightarrow> byte list"
  decode_outpoint :: "byte list \<Rightarrow> (outpoint \<times> byte list) option"
  encode_u64 :: "u64 \<Rightarrow> byte list"
  decode_u64 :: "byte list \<Rightarrow> (u64 \<times> byte list) option"

text \<open>Writing into an array of a given size: what is left of it stays zero, and more does not fit.\<close>

definition write_array :: "nat \<Rightarrow> byte list \<Rightarrow> byte list may_panic" where
  "write_array n bs = (if length bs \<le> n then Inr (bs @ replicate (n - length bs) 0) else Inl UnwrapNone)"

definition sat_point_encode :: "wire_api \<Rightarrow> sat_point \<Rightarrow> byte list" where
  "sat_point_encode W p = encode_outpoint W (sp_outpoint p) @ encode_u64 W (sp_offset p)"

definition sat_point_decode :: "wire_api \<Rightarrow> byte list \<Rightarrow> (sat_point \<times> byte list) option" where
  "sat_point_decode W bs =
    (case decode_outpoint W bs of
       None \<Rightarrow> None
     | Some (o', rest) \<Rightarrow>
         (case decode_u64 W rest of
            None \<Rightarrow> None
          | Some (n, rest') \<Rightarrow> Some (\<lparr>sp_outpoint = o', sp_offset = n\<rparr>, rest')))"

definition sat_point_store :: "wire_api \<Rightarrow> sat_point \<Rightarrow> byte list may_panic" where
  "sat_point_store W p = write_array 44 (sat_point_encode W p)"

definition sat_point_load :: "wire_api \<Rightarrow> byte list \<Rightarrow> sat_point may_panic" where
  "sat_point_load W bs = unwrap (map_option fst (sat_point_decode W bs))"

section \<open>Journal rows\<close>

definition JOURNAL_RECORD_VERSION :: byte where "JOURNAL_RECORD_VERSION = 1"

definition JOURNAL_FIXED_BYTES :: usize where
  "JOURNAL_FIXED_BYTES = 1 + 1 + 1 + 36 + 8 + 44 + 44 + 32 + 4 + 8 + 4"

definition journal_encode :: "wire_api \<Rightarrow> journal_record \<Rightarrow> byte list may_panic" where
  "journal_encode W r =
    (let (status, satpoint, val, script) =
       (case jr_to r of Assigned p v s \<Rightarrow> (0, p, v, s) | Lost p \<Rightarrow> (1, p, 0, []))
     in res_bind (sat_point_store W (jr_from r)) (\<lambda>from.
        res_bind (sat_point_store W satpoint) (\<lambda>to.
        res_bind (if length script \<le> u32_max then Inr (length script) else Inl Explicit) (\<lambda>script_len.
        Inr ([JOURNAL_RECORD_VERSION, (case jr_kind r of Creation \<Rightarrow> 0 | Transfer \<Rightarrow> 1), status]
          @ inscription_id_store (jr_inscription_id r)
          @ be_bytes 8 (jr_inscription_number r)
          @ from @ to
          @ jr_txid r
          @ be_bytes 4 (jr_tx_index r)
          @ be_bytes 8 val
          @ be_bytes 4 script_len
          @ script)))))"

definition journal_decode :: "wire_api \<Rightarrow> byte list \<Rightarrow> journal_record option may_panic" where
  "journal_decode W bs =
    (if length bs < JOURNAL_FIXED_BYTES \<or> bs ! 0 \<noteq> JOURNAL_RECORD_VERSION then Inr None
     else case take_fields [36, 8, 44, 44, 32, 4, 8, 4] (drop 3 bs) of
       [i, number, from, to, txid, tx_index, val, script_len] \<Rightarrow>
         res_bind (sat_point_load W from) (\<lambda>from.
         res_bind (sat_point_load W to) (\<lambda>satpoint.
         if length bs \<noteq> JOURNAL_FIXED_BYTES + from_be script_len then Inr None
         else
           let script = drop JOURNAL_FIXED_BYTES bs;
               kind = (if bs ! 1 = 0 then Some Creation else if bs ! 1 = 1 then Some Transfer else None);
               to = (if bs ! 2 = 0 then Some (Assigned satpoint (from_be val) script)
                     else if bs ! 2 = 1 \<and> from_be val = 0 \<and> script = [] then Some (Lost satpoint)
                     else None)
           in Inr (case (kind, to) of
               (Some kind, Some to) \<Rightarrow> Some \<lparr>jr_kind = kind, jr_inscription_id = inscription_id_load i,
                 jr_inscription_number = from_be number, jr_from = from, jr_to = to, jr_txid = txid,
                 jr_tx_index = from_be tx_index\<rparr>
             | _ \<Rightarrow> None)))
     | _ \<Rightarrow> Inl OutOfBounds)"

section \<open>The journal range\<close>

type_synonym meta_table = "(rchar list, byte list) redb"
type_synonym journal_table = "(u32 \<times> u32, byte list) redb"

definition META_DATABASE_ID :: "rchar list" where "META_DATABASE_ID = str ''databaseId''"
definition META_CREATION_COVERAGE :: "rchar list" where "META_CREATION_COVERAGE = str ''creationCoverageFromHeight''"
definition META_JOURNAL_START :: "rchar list" where "META_JOURNAL_START = str ''journalStartHeight''"
definition META_JOURNAL_LAST :: "rchar list" where "META_JOURNAL_LAST = str ''journalLastHeight''"

datatype feed_error = MalformedMeta "rchar list" | SequenceTooLarge | FeedPanic rust_panic

record feed_meta =
  fm_database_id :: "byte list option"
  fm_creation_coverage_from :: "u32 option"
  fm_journal_start :: "u32 option"
  fm_journal_last :: "u32 option"

definition meta_height :: "meta_table \<Rightarrow> rchar list \<Rightarrow> feed_error + u32 option" where
  "meta_height t key =
    (case map_of t key of
       None \<Rightarrow> Inr None
     | Some v \<Rightarrow> if length v = 4 then Inr (Some (from_be v)) else Inl (MalformedMeta key))"

definition read_meta_table :: "meta_table \<Rightarrow> feed_error + feed_meta" where
  "read_meta_table t =
    res_bind (case map_of t META_DATABASE_ID of
        None \<Rightarrow> Inr None
      | Some v \<Rightarrow> if length v = 16 then Inr (Some v) else Inl (MalformedMeta META_DATABASE_ID)) (\<lambda>database_id.
    res_bind (meta_height t META_CREATION_COVERAGE) (\<lambda>coverage.
    res_bind (meta_height t META_JOURNAL_START) (\<lambda>start.
    res_bind (meta_height t META_JOURNAL_LAST) (\<lambda>last'.
    Inr \<lparr>fm_database_id = database_id, fm_creation_coverage_from = coverage, fm_journal_start = start,
      fm_journal_last = last'\<rparr>))))"

text \<open>The generation id and the coverage start are written once; whether anything was written.\<close>

definition ensure_meta :: "byte list \<Rightarrow> u32 \<Rightarrow> meta_table \<Rightarrow> bool \<times> meta_table" where
  "ensure_meta fresh creation_coverage_from t =
    (let (w1, t1) = (if map_of t META_DATABASE_ID = None then (True, redb_insert META_DATABASE_ID fresh t)
           else (False, t));
         (w2, t2) = (if map_of t1 META_CREATION_COVERAGE = None
           then (True, redb_insert META_CREATION_COVERAGE (be_bytes 4 creation_coverage_from) t1) else (w1, t1))
     in (w2, t2))"

text \<open>The rows of one block, by their place in it.\<close>

definition journal_rows :: "u32 \<Rightarrow> journal_table \<Rightarrow> journal_table" where
  "journal_rows height t = filter (\<lambda>(k, v). (height, 0) \<le> k \<and> k \<le> (height, u32_max)) t"

definition insert_record :: "wire_api \<Rightarrow> u32 \<Rightarrow> nat \<times> journal_record \<Rightarrow> journal_table \<Rightarrow> feed_error + journal_table" where
  "insert_record W height = (\<lambda>(seq, record) t.
    res_bind (ok_or SequenceTooLarge (try_from u32_max seq)) (\<lambda>seq.
    res_bind (lift_panic FeedPanic (journal_encode W record)) (\<lambda>bytes.
    Inr (redb_insert (height, seq) bytes t))))"

definition record_block :: "wire_api \<Rightarrow> byte list \<Rightarrow> u32 \<Rightarrow> u32 \<Rightarrow> journal_record list \<Rightarrow>
    meta_table \<times> journal_table \<Rightarrow> feed_error + meta_table \<times> journal_table" where
  "record_block W fresh creation_coverage_from height records = (\<lambda>(meta, journal).
    let meta = snd (ensure_meta fresh creation_coverage_from meta)
    in res_bind (meta_height meta META_JOURNAL_START) (\<lambda>start.
       res_bind (meta_height meta META_JOURNAL_LAST) (\<lambda>last'.
       let contiguous = start \<noteq> None \<and> Option.bind last' (\<lambda>l. checked_add u32_max l 1) = Some height;
           meta = (if contiguous then meta else redb_insert META_JOURNAL_START (be_bytes 4 height) meta);
           meta = redb_insert META_JOURNAL_LAST (be_bytes 4 height) meta;
           stale = map fst (journal_rows height journal);
           journal = fold redb_remove stale journal
       in res_bind (res_fold (insert_record W height) (enumerate 0 records) journal) (\<lambda>journal.
          Inr (meta, journal)))))"

text \<open>What survives a rollback of the database.\<close>

record preserved_meta =
  pm_database_id :: "byte list option"
  pm_creation_coverage_from :: "u32 option"

definition preserve_meta :: "meta_table \<Rightarrow> feed_error + preserved_meta" where
  "preserve_meta t =
    res_bind (read_meta_table t) (\<lambda>m.
    Inr \<lparr>pm_database_id = fm_database_id m, pm_creation_coverage_from = fm_creation_coverage_from m\<rparr>)"

definition reinstate_meta :: "preserved_meta \<Rightarrow> meta_table \<Rightarrow> meta_table" where
  "reinstate_meta p t =
    (let t1 = (case pm_database_id p of Some i \<Rightarrow> redb_insert META_DATABASE_ID i t | None \<Rightarrow> t)
     in case pm_creation_coverage_from p of
          Some h \<Rightarrow> redb_insert META_CREATION_COVERAGE (be_bytes 4 h) t1
        | None \<Rightarrow> t1)"

text \<open>The rows of a block read back, as the feed gathers a block; \<^const>\<open>None\<close> for a malformed row.\<close>

fun decode_rows :: "wire_api \<Rightarrow> byte list list \<Rightarrow> journal_record list option may_panic" where
  "decode_rows W [] = Inr (Some [])"
| "decode_rows W (v # vs) =
    res_bind (journal_decode W v) (\<lambda>r. case r of
      None \<Rightarrow> Inr None
    | Some r \<Rightarrow> res_bind (decode_rows W vs) (\<lambda>rs. Inr (map_option ((#) r) rs)))"

definition read_journal :: "wire_api \<Rightarrow> u32 \<Rightarrow> journal_table \<Rightarrow> journal_record list option may_panic" where
  "read_journal W height t = decode_rows W (map snd (journal_rows height t))"

section \<open>The interface to the consensus encoding\<close>

definition outpoint_ok :: "outpoint \<Rightarrow> bool" where
  "outpoint_ok p \<longleftrightarrow> length (op_txid p) = 32 \<and> op_vout p \<le> u32_max"

definition sat_point_ok :: "sat_point \<Rightarrow> bool" where
  "sat_point_ok p \<longleftrightarrow> outpoint_ok (sp_outpoint p) \<and> sp_offset p \<le> u64_max"

locale consensus_wire =
  fixes W :: wire_api
  assumes length_outpoint: "outpoint_ok p \<Longrightarrow> length (encode_outpoint W p) = 36"
    and length_u64: "n \<le> u64_max \<Longrightarrow> length (encode_u64 W n) = 8"
    and outpoint_back: "outpoint_ok p \<Longrightarrow> decode_outpoint W (encode_outpoint W p @ rest) = Some (p, rest)"
    and u64_back: "n \<le> u64_max \<Longrightarrow> decode_u64 W (encode_u64 W n @ rest) = Some (n, rest)"
    and outpoint_total: "36 \<le> length bs \<Longrightarrow> \<exists>p rest. outpoint_ok p \<and> bs = encode_outpoint W p @ rest"
    and u64_total: "8 \<le> length bs \<Longrightarrow> \<exists>n rest. n \<le> u64_max \<and> bs = encode_u64 W n @ rest"
begin

lemma sat_point_back:
  "sat_point_ok p \<Longrightarrow> sat_point_decode W (sat_point_encode W p @ rest) = Some (p, rest)"
  by (simp add: sat_point_ok_def sat_point_decode_def sat_point_encode_def outpoint_back u64_back)

lemma length_sat_point: "sat_point_ok p \<Longrightarrow> length (sat_point_encode W p) = 44"
  by (simp add: sat_point_ok_def sat_point_encode_def length_outpoint length_u64)

lemma sat_point_store_ok: "sat_point_ok p \<Longrightarrow> sat_point_store W p = Inr (sat_point_encode W p)"
  by (simp add: sat_point_store_def write_array_def length_sat_point)

lemma sat_point_load_encode: "sat_point_ok p \<Longrightarrow> sat_point_load W (sat_point_encode W p) = Inr p"
  using sat_point_back [of p "[]"] by (simp add: sat_point_load_def unwrap_def)

lemma sat_point_total:
  assumes "length bs = 44"
  obtains p where "sat_point_ok p" "bs = sat_point_encode W p"
proof -
  from outpoint_total [of bs] assms obtain q rest
    where q: "outpoint_ok q" "bs = encode_outpoint W q @ rest" by auto
  with assms have "length rest = 8" using length_outpoint [of q] by simp
  with u64_total [of rest] obtain n r where n: "n \<le> u64_max" "rest = encode_u64 W n @ r" by auto
  with \<open>length rest = 8\<close> have "r = []" using length_u64 [of n] by simp
  with q n show thesis
    using that [of "\<lparr>sp_outpoint = q, sp_offset = n\<rparr>"] by (simp add: sat_point_ok_def sat_point_encode_def)
qed

end

text \<open>The encoding of the bitcoin library: the txid and the index, and integers, little-endian.\<close>

definition bitcoin_wire :: wire_api where
  "bitcoin_wire = \<lparr>encode_outpoint = (\<lambda>p. op_txid p @ le_bytes 4 (op_vout p)),
     decode_outpoint = (\<lambda>bs. if length bs < 36 then None
       else Some (\<lparr>op_txid = take 32 bs, op_vout = from_le (take 4 (drop 32 bs))\<rparr>, drop 36 bs)),
     encode_u64 = le_bytes 8,
     decode_u64 = (\<lambda>bs. if length bs < 8 then None else Some (from_le (take 8 bs), drop 8 bs))\<rparr>"

lemma le_bytes_whole:
  assumes "k \<le> length bs"
  shows "le_bytes k (from_le (take k bs)) = take k bs" "from_le (take k bs) < 256 ^ k"
  using le_bytes_from_le [of "take k bs"] from_le_less [of "take k bs"] assms by (simp_all add: min_absorb2)

interpretation bw: consensus_wire bitcoin_wire
proof
  fix bs :: "byte list"
  show "\<exists>p rest. outpoint_ok p \<and> bs = encode_outpoint bitcoin_wire p @ rest" if "36 \<le> length bs"
  proof -
    let ?v = "from_le (take 4 (drop 32 bs))"
    have four: "4 \<le> length (drop 32 bs)" using that by simp
    have "le_bytes 4 ?v = take 4 (drop 32 bs)" "?v \<le> u32_max"
      using le_bytes_whole [OF four] by (simp_all add: u32_max_def)
    moreover have "bs = take 32 bs @ take 4 (drop 32 bs) @ drop 36 bs"
      using append_take_drop_id [of 4 "drop 32 bs"] append_take_drop_id [of 32 bs] by simp
    ultimately show ?thesis
      using that by (intro exI [of _ "\<lparr>op_txid = take 32 bs, op_vout = ?v\<rparr>"] exI [of _ "drop 36 bs"])
        (simp add: outpoint_ok_def bitcoin_wire_def min_def)
  qed
  show "\<exists>n rest. n \<le> u64_max \<and> bs = encode_u64 bitcoin_wire n @ rest" if "8 \<le> length bs"
    using le_bytes_whole [of 8 bs] that
    by (intro exI [of _ "from_le (take 8 bs)"] exI [of _ "drop 8 bs"]) (simp add: bitcoin_wire_def u64_max_def)
qed (simp_all add: bitcoin_wire_def outpoint_ok_def from_le_bytes width_defs)

section \<open>A row is read back as it was written\<close>

definition journal_record_ok :: "journal_record \<Rightarrow> bool" where
  "journal_record_ok r \<longleftrightarrow>
    length (ii_txid (jr_inscription_id r)) = 32 \<and> ii_index (jr_inscription_id r) \<le> u32_max \<and>
    jr_inscription_number r \<le> u64_max \<and> sat_point_ok (jr_from r) \<and>
    length (jr_txid r) = 32 \<and> jr_tx_index r \<le> u32_max \<and>
    (case jr_to r of
       Assigned p v script \<Rightarrow> sat_point_ok p \<and> v \<le> u64_max \<and> length script \<le> u32_max
     | Lost p \<Rightarrow> sat_point_ok p)"

definition journal_kind_byte :: "journal_kind \<Rightarrow> byte" where
  "journal_kind_byte k = (case k of Creation \<Rightarrow> 0 | Transfer \<Rightarrow> 1)"

definition destination_fields :: "journal_destination \<Rightarrow> byte \<times> sat_point \<times> u64 \<times> byte list" where
  "destination_fields d = (case d of Assigned p v s \<Rightarrow> (0, p, v, s) | Lost p \<Rightarrow> (1, p, 0, []))"

lemma inscription_id_back:
  "length (ii_txid i) = 32 \<Longrightarrow> ii_index i \<le> u32_max \<Longrightarrow> inscription_id_load (inscription_id_store i) = i"
  "length (ii_txid i) = 32 \<Longrightarrow> length (inscription_id_store i) = 36"
  by (simp_all add: inscription_id_load_def inscription_id_store_def from_le_bytes u32_max_def)

lemma inscription_id_total:
  assumes "length bs = 36"
  shows "length (ii_txid (inscription_id_load bs)) = 32" "ii_index (inscription_id_load bs) \<le> u32_max"
    "inscription_id_store (inscription_id_load bs) = bs"
  using assms from_be_bound(1) [of "drop 32 bs"] be_bytes_from_be [of "drop 32 bs" 4]
  by (simp_all add: inscription_id_load_def inscription_id_store_def from_be_def be_bytes_def)

text \<open>The three leading bytes, the eight fields and the script of a row.\<close>

definition journal_layout :: "byte \<Rightarrow> byte \<Rightarrow> byte list list \<Rightarrow> byte list \<Rightarrow> byte list" where
  "journal_layout k s fs script = [JOURNAL_RECORD_VERSION, k, s] @ concat fs @ script"

abbreviation field_widths :: "nat list" where
  "field_widths \<equiv> [36, 8, 44, 44, 32, 4, 8, 4]"

lemma journal_fixed [simp]: "JOURNAL_FIXED_BYTES = 183"
  by (simp add: JOURNAL_FIXED_BYTES_def)

lemma length_layout:
  "map length fs = field_widths \<Longrightarrow> length (journal_layout k s fs script) = 183 + length script"
  by (simp add: journal_layout_def length_concat)

lemma layout_exists:
  assumes "183 \<le> length bs" and "bs ! 0 = JOURNAL_RECORD_VERSION"
  obtains fs where "map length fs = field_widths"
    "bs = journal_layout (bs ! 1) (bs ! 2) fs (drop 183 bs)"
proof -
  let ?fs = "take_fields field_widths (drop 3 bs)"
  have "bs = take 3 bs @ drop 3 bs" by simp
  moreover have "take 3 bs = [bs ! 0, bs ! 1, bs ! 2]"
  proof -
    have "Suc (Suc (Suc 0)) \<le> length bs" using assms(1) by simp
    then obtain x y z r where "bs = x # y # z # r" by (auto simp: Suc_le_length_iff)
    then show ?thesis by (simp add: numeral_3_eq_3)
  qed
  moreover have "drop 3 bs = concat ?fs @ drop 183 bs"
    using concat_take_fields [of field_widths "drop 3 bs"] by simp
  ultimately have "bs = journal_layout (bs ! 1) (bs ! 2) ?fs (drop 183 bs)"
    unfolding journal_layout_def assms(2) [symmetric] by (metis append_Cons append_Nil)
  moreover have "map length ?fs = field_widths"
    using take_fields_widths [of field_widths "drop 3 bs"] assms(1) by simp
  ultimately show thesis by (rule that [rotated])
qed

lemma journal_decode_layout:
  assumes "map length [i, n, f, p, t, x, v, l] = field_widths"
    and "bs = journal_layout k s [i, n, f, p, t, x, v, l] script"
  shows "journal_decode W bs =
    res_bind (sat_point_load W f) (\<lambda>from. res_bind (sat_point_load W p) (\<lambda>satpoint.
      if length script \<noteq> from_be l then Inr None
      else Inr (case (if k = 0 then Some Creation else if k = 1 then Some Transfer else None,
                 if s = 0 then Some (Assigned satpoint (from_be v) script)
                 else if s = 1 \<and> from_be v = 0 \<and> script = [] then Some (Lost satpoint) else None) of
          (Some kind, Some to) \<Rightarrow> Some \<lparr>jr_kind = kind, jr_inscription_id = inscription_id_load i,
            jr_inscription_number = from_be n, jr_from = from, jr_to = to, jr_txid = t, jr_tx_index = from_be x\<rparr>
        | _ \<Rightarrow> None)))"
proof -
  have "drop 3 bs = concat [i, n, f, p, t, x, v, l] @ script"
    unfolding assms(2) journal_layout_def numeral_3_eq_3 by (simp del: concat.simps)
  then have fields: "take_fields field_widths (drop 3 bs) = [i, n, f, p, t, x, v, l]"
    by (simp only: take_fields_concat [OF assms(1)])
  have head: "bs ! 0 = JOURNAL_RECORD_VERSION" "bs ! 1 = k" "bs ! 2 = s"
    by (simp_all add: assms(2) journal_layout_def)
  have whole: "length bs = 183 + length script"
    using length_layout [OF assms(1), of k s script] by (simp only: assms(2))
  have rest: "drop 183 bs = script"
    using assms(1) by (simp add: assms(2) journal_layout_def)
  show ?thesis
    by (simp only: journal_decode_def Let_def journal_fixed fields head whole rest list.case) simp
qed

definition record_bytes :: "wire_api \<Rightarrow> journal_record \<Rightarrow> byte list" where
  "record_bytes W r = (case destination_fields (jr_to r) of (status, p, v, script) \<Rightarrow>
     journal_layout (journal_kind_byte (jr_kind r)) status
       [inscription_id_store (jr_inscription_id r), be_bytes 8 (jr_inscription_number r),
        sat_point_encode W (jr_from r), sat_point_encode W p, jr_txid r, be_bytes 4 (jr_tx_index r),
        be_bytes 8 v, be_bytes 4 (length script)] script)"

lemma destination_ok:
  "(case d of Assigned p v script \<Rightarrow> sat_point_ok p \<and> v \<le> u64_max \<and> length script \<le> u32_max
     | Lost p \<Rightarrow> sat_point_ok p) \<longleftrightarrow>
   (case destination_fields d of (status, p, v, script) \<Rightarrow>
     sat_point_ok p \<and> v \<le> u64_max \<and> length script \<le> u32_max)"
  by (cases d) (auto simp: destination_fields_def)

context consensus_wire
begin

lemma journal_encode_ok:
  assumes "journal_record_ok r"
  shows "journal_encode W r = Inr (record_bytes W r)"
proof -
  obtain status p v script where d: "destination_fields (jr_to r) = (status, p, v, script)"
    by (metis prod_cases4)
  then have "sat_point_ok p" "length script \<le> u32_max" "sat_point_ok (jr_from r)"
    using assms by (simp_all add: journal_record_ok_def destination_ok)
  then show ?thesis
    using d unfolding journal_encode_def record_bytes_def destination_fields_def [symmetric]
    by (simp add: sat_point_store_ok journal_layout_def journal_kind_byte_def)
qed

lemma journal_decode_encode:
  assumes "journal_record_ok r"
  shows "journal_decode W (record_bytes W r) = Inr (Some r)"
proof -
  obtain status p v script where d: "destination_fields (jr_to r) = (status, p, v, script)"
    by (metis prod_cases4)
  then have ok: "sat_point_ok p" "v \<le> u64_max" "length script \<le> u32_max" "sat_point_ok (jr_from r)"
      "length (ii_txid (jr_inscription_id r)) = 32" "ii_index (jr_inscription_id r) \<le> u32_max"
      "jr_inscription_number r \<le> u64_max" "length (jr_txid r) = 32" "jr_tx_index r \<le> u32_max"
    using assms by (simp_all add: journal_record_ok_def destination_ok)
  from d have rb: "record_bytes W r = journal_layout (journal_kind_byte (jr_kind r)) status
       [inscription_id_store (jr_inscription_id r), be_bytes 8 (jr_inscription_number r),
        sat_point_encode W (jr_from r), sat_point_encode W p, jr_txid r, be_bytes 4 (jr_tx_index r),
        be_bytes 8 v, be_bytes 4 (length script)] script"
    by (simp add: record_bytes_def)
  show ?thesis
    by (subst journal_decode_layout [OF _ rb])
      (use ok d in \<open>auto simp: inscription_id_back length_sat_point sat_point_load_encode journal_kind_byte_def
         destination_fields_def split: journal_kind.splits journal_destination.splits\<close>)
qed

lemma journal_decode_total:
  obtains "journal_decode W bs = Inr None"
  | r where "journal_record_ok r" "journal_decode W bs = Inr (Some r)" "bs = record_bytes W r"
proof (cases "length bs < 183 \<or> bs ! 0 \<noteq> JOURNAL_RECORD_VERSION")
  case True
  then show thesis by (intro that(1)) (simp add: journal_decode_def)
next
  case False
  then obtain fs where fs: "map length fs = field_widths"
    and bs: "bs = journal_layout (bs ! 1) (bs ! 2) fs (drop 183 bs)"
    using layout_exists [of bs] by auto
  then obtain i n f p t x v l where fs8: "fs = [i, n, f, p, t, x, v, l]"
    by (auto simp: map_eq_Cons_conv)
  with fs have len: "length i = 36" "length n = 8" "length f = 44" "length p = 44" "length t = 32"
    "length x = 4" "length v = 8" "length l = 4" by simp_all
  obtain src where src: "sat_point_ok src" "f = sat_point_encode W src" using sat_point_total len(3) .
  obtain dst where dst: "sat_point_ok dst" "p = sat_point_encode W dst" using sat_point_total len(4) .
  note dec = journal_decode_layout [OF fs [unfolded fs8] bs [unfolded fs8], of W]
  show thesis
  proof (cases "journal_decode W bs = Inr None")
    case True
    then show thesis by (rule that(1))
  next
    case nonzero: False
    let ?script = "drop 183 bs"
    from nonzero dec src dst have script: "length ?script = from_be l" and kind: "bs ! 1 = 0 \<or> bs ! 1 = 1"
      and status: "bs ! 2 = 0 \<or> bs ! 2 = 1 \<and> from_be v = 0 \<and> ?script = []"
      by (auto simp: sat_point_load_encode split: if_splits)
    let ?r = "\<lparr>jr_kind = if bs ! 1 = 0 then Creation else Transfer, jr_inscription_id = inscription_id_load i,
      jr_inscription_number = from_be n, jr_from = src,
      jr_to = if bs ! 2 = 0 then Assigned dst (from_be v) ?script else Lost dst, jr_txid = t, jr_tx_index = from_be x\<rparr>"
    have "journal_decode W bs = Inr (Some ?r)"
      using dec src dst script kind status by (auto simp: sat_point_load_encode)
    moreover have "journal_record_ok ?r"
      using len src dst script from_be_bound by (simp add: journal_record_ok_def inscription_id_total)
    moreover have "record_bytes W ?r = journal_layout (bs ! 1) (bs ! 2) [i, n, f, p, t, x, v, l] ?script"
    proof -
      have "destination_fields (jr_to ?r) = (bs ! 2, dst, from_be v, ?script)"
        using status by (auto simp: destination_fields_def)
      moreover have "journal_kind_byte (jr_kind ?r) = bs ! 1" using kind by (auto simp: journal_kind_byte_def)
      moreover have "be_bytes 4 (length ?script) = l" unfolding script using len by (simp add: be_bytes_from_be)
      ultimately show ?thesis
        using len src dst unfolding record_bytes_def by (simp add: inscription_id_total be_bytes_from_be)
    qed
    ultimately have "journal_decode W bs = Inr (Some ?r) \<and> journal_record_ok ?r \<and> bs = record_bytes W ?r"
      using bs fs8 by metis
    then show thesis using that(2) by blast
  qed
qed

end

text \<open>
  C39: the layout of a journal row is exact. Whatever the bytes, reading them does not stop the
  program; and bytes are read as a row exactly when they are what a row whose fields are in range is
  written as, so no two byte strings stand for one row and nothing else is accepted.
\<close>

theorem journal_row_exact:
  assumes "consensus_wire W"
  shows "(\<exists>x. journal_decode W bs = Inr x) \<and>
    (journal_decode W bs = Inr (Some r) \<longleftrightarrow> journal_record_ok r \<and> journal_encode W r = Inr bs)"
proof -
  note wire = consensus_wire.journal_encode_ok [OF assms] consensus_wire.journal_decode_encode [OF assms]
  show ?thesis
    by (rule consensus_wire.journal_decode_total [OF assms, of bs])
      (metis wire option.distinct(1) option.inject sum.inject(2))+
qed

definition sample_row :: journal_record where
  "sample_row = \<lparr>jr_kind = Transfer, jr_inscription_id = \<lparr>ii_txid = zero_txid, ii_index = 0\<rparr>,
    jr_inscription_number = 7, jr_from = \<lparr>sp_outpoint = null_outpoint, sp_offset = 5\<rparr>,
    jr_to = Assigned \<lparr>sp_outpoint = \<lparr>op_txid = zero_txid, op_vout = 1\<rparr>, sp_offset = 3\<rparr> 100 [0x51],
    jr_txid = zero_txid, jr_tx_index = 2\<rparr>"

lemma sample_row_ok: "journal_record_ok sample_row"
  by (simp add: sample_row_def journal_record_ok_def sat_point_ok_def outpoint_ok_def zero_txid_def
      null_outpoint_def width_defs)

theorem journal_row_exact_witness:
  "journal_decode bitcoin_wire (record_bytes bitcoin_wire sample_row) = Inr (Some sample_row)"
  using journal_row_exact [OF bw.consensus_wire_axioms, of "record_bytes bitcoin_wire sample_row" sample_row]
    bw.journal_encode_ok [OF sample_row_ok] sample_row_ok by simp

section \<open>What the journal covers\<close>

lemma filter_redb_insert:
  assumes "redb_ok t"
  shows "filter (\<lambda>(k, v). Q k) (redb_insert k v t) =
    (if Q k then redb_insert k v (filter (\<lambda>(k, v). Q k) t) else filter (\<lambda>(k, v). Q k) t)"
  using assms
proof (induction t)
  case Nil
  then show ?case by simp
next
  case (Cons r t)
  obtain k' v' where r: "r = (k', v')" by fastforce
  from Cons.prems have ok: "redb_ok t" and above: "\<forall>x\<in>set t. k' < fst x" by (auto simp: redb_ok_def r)
  have front: "redb_insert k v (filter (\<lambda>(k, v). Q k) t) = (k, v) # filter (\<lambda>(k, v). Q k) t" if "k < k'"
  proof (cases "filter (\<lambda>(k, v). Q k) t")
    case (Cons x xs)
    then have "x \<in> set t" using filter_is_subset [of "\<lambda>(k, v). Q k" t] by (metis list.set_intros(1) subsetD)
    with above that have "k < fst x" by (blast intro: less_trans)
    with Cons show ?thesis by (cases x) simp
  qed simp
  show ?case using Cons.IH [OF ok] front by (auto simp: r)
qed

lemma redb_insert_last: "\<forall>x\<in>fst ` set t. x < k \<Longrightarrow> redb_insert k v t = t @ [(k, v)]"
  by (induction t) auto

lemma journal_rows_def': "journal_rows h t = filter (\<lambda>(k, v). fst k = h \<and> snd k \<le> u32_max) t"
  unfolding journal_rows_def by (rule filter_cong) (auto simp: less_eq_prod_def)

lemma fold_redb_remove: "fold redb_remove ks t = filter (\<lambda>(k, v). k \<notin> set ks) t"
proof (induction ks arbitrary: t)
  case (Cons k ks)
  then show ?case by (auto simp: redb_remove_def intro: filter_cong)
qed simp

text \<open>Clearing a height leaves no row there, and the rows of other heights as they were.\<close>

lemma clear_height:
  assumes "redb_ok t"
  shows "redb_ok (fold redb_remove (map fst (journal_rows h t)) t)"
    and "journal_rows h' (fold redb_remove (map fst (journal_rows h t)) t) = (if h' = h then [] else journal_rows h' t)"
proof -
  show "redb_ok (fold redb_remove (map fst (journal_rows h t)) t)"
    by (simp add: fold_redb_remove redb_ok_filter [OF assms])
  show "journal_rows h' (fold redb_remove (map fst (journal_rows h t)) t) = (if h' = h then [] else journal_rows h' t)"
    by (auto simp: fold_redb_remove journal_rows_def' filter_empty_conv intro!: filter_cong) force+
qed

definition row_of :: "wire_api \<Rightarrow> u32 \<Rightarrow> nat \<times> journal_record \<Rightarrow> (u32 \<times> u32) \<times> byte list" where
  "row_of W h = (\<lambda>(i, r). ((h, i), record_bytes W r))"

context consensus_wire
begin

lemma insert_records:
  assumes "redb_ok t" and "\<forall>k\<in>fst ` set (journal_rows h t). k < (h, n)"
    and "n + length rs \<le> Suc u32_max" and "list_all journal_record_ok rs"
  obtains t' where "res_fold (insert_record W h) (enumerate n rs) t = Inr t'" "redb_ok t'"
    "journal_rows h t' = journal_rows h t @ map (row_of W h) (enumerate n rs)"
    "\<forall>h'. h' \<noteq> h \<longrightarrow> journal_rows h' t' = journal_rows h' t"
  using assms
proof (induction rs arbitrary: n t thesis)
  case Nil
  then show thesis by simp
next
  case (Cons r rs)
  let ?t = "redb_insert (h, n) (record_bytes W r) t"
  have rows: "journal_rows h ?t = journal_rows h t @ [((h, n), record_bytes W r)]"
    using Cons.prems(4) redb_insert_last [OF Cons.prems(3)]
    by (simp add: journal_rows_def' filter_redb_insert [OF Cons.prems(2)])
  have others: "\<forall>h'. h' \<noteq> h \<longrightarrow> journal_rows h' ?t = journal_rows h' t"
    by (simp add: journal_rows_def' filter_redb_insert [OF Cons.prems(2)])
  have "\<forall>k\<in>fst ` set (journal_rows h ?t). k < (h, Suc n)"
    using Cons.prems(3) by (auto simp: rows less_prod_def)
  then obtain t' where t': "res_fold (insert_record W h) (enumerate (Suc n) rs) ?t = Inr t'" "redb_ok t'"
    "journal_rows h t' = journal_rows h ?t @ map (row_of W h) (enumerate (Suc n) rs)"
    "\<forall>h'. h' \<noteq> h \<longrightarrow> journal_rows h' t' = journal_rows h' ?t"
    using Cons.IH [of "Suc n" ?t] Cons.prems redb_ok_insert [OF Cons.prems(2)] by auto
  have "insert_record W h (n, r) t = Inr ?t"
    using Cons.prems by (simp add: insert_record_def journal_encode_ok try_from_def)
  with t' rows others show thesis by (intro Cons.prems(1) [of t']) (simp_all add: row_of_def)
qed

lemma decode_rows_ok:
  "list_all journal_record_ok rs \<Longrightarrow> decode_rows W (map (record_bytes W) rs) = Inr (Some rs)"
  by (induction rs) (simp_all add: journal_decode_encode)

lemma read_rows_ok:
  assumes "list_all journal_record_ok rs" and "journal_rows h t = map (row_of W h) (enumerate n rs)"
  shows "read_journal W h t = Inr (Some rs)"
proof -
  have "map snd (map (row_of W h) (enumerate n rs)) = map (record_bytes W) (map snd (enumerate n rs))"
    by (simp only: map_map) (simp add: row_of_def split: prod.splits)
  then have "map snd (journal_rows h t) = map (record_bytes W) rs" by (simp only: assms(2) map_snd_enumerate)
  then show ?thesis by (simp add: read_journal_def decode_rows_ok [OF assms(1)])
qed

end

lemma meta_keys [simp]:
  "META_DATABASE_ID \<noteq> META_JOURNAL_START" "META_DATABASE_ID \<noteq> META_JOURNAL_LAST"
  "META_CREATION_COVERAGE \<noteq> META_JOURNAL_START" "META_CREATION_COVERAGE \<noteq> META_JOURNAL_LAST"
  "META_JOURNAL_START \<noteq> META_JOURNAL_LAST" "META_DATABASE_ID \<noteq> META_CREATION_COVERAGE"
  by (simp_all add: META_DATABASE_ID_def META_CREATION_COVERAGE_def META_JOURNAL_START_def
      META_JOURNAL_LAST_def str_def)

lemmas meta_keys_sym [simp] = meta_keys [symmetric]

lemma ensure_meta_range:
  "k = META_JOURNAL_START \<or> k = META_JOURNAL_LAST \<Longrightarrow> map_of (snd (ensure_meta fresh cov t)) k = map_of t k"
  by (auto simp: ensure_meta_def Let_def map_of_redb_insert)

text \<open>The rows of every height after a sequence of recorded blocks: those recorded for it last.\<close>

definition latest_records :: "(u32 \<times> journal_record list) list \<Rightarrow> u32 \<Rightarrow> journal_record list" where
  "latest_records blocks h = (case map_of (rev blocks) h of None \<Rightarrow> [] | Some rs \<Rightarrow> rs)"

text \<open>The heights of the last run of consecutive blocks.\<close>

definition journal_run :: "(u32 \<times> journal_record list) list \<Rightarrow> u32 \<Rightarrow> u32 \<Rightarrow> bool" where
  "journal_run blocks a b \<longleftrightarrow> (\<exists>earlier covered. blocks = earlier @ covered \<and> map fst covered = [a..<Suc b] \<and>
     covered \<noteq> [] \<and> (earlier = [] \<or> Suc (fst (last earlier)) \<noteq> a))"

definition journal_state :: "wire_api \<Rightarrow> (u32 \<times> journal_record list) list \<Rightarrow> meta_table \<times> journal_table \<Rightarrow> bool" where
  "journal_state W blocks = (\<lambda>(meta, journal).
    redb_ok journal \<and>
    (\<forall>h. journal_rows h journal = map (row_of W h) (enumerate 0 (latest_records blocks h))) \<and>
    (if blocks = [] then map_of meta META_JOURNAL_START = None \<and> map_of meta META_JOURNAL_LAST = None
     else \<exists>a b. journal_run blocks a b \<and> a \<le> u32_max \<and> b \<le> u32_max \<and>
       map_of meta META_JOURNAL_START = Some (be_bytes 4 a) \<and> map_of meta META_JOURNAL_LAST = Some (be_bytes 4 b)))"

lemma journal_run_last: "journal_run blocks a b \<Longrightarrow> blocks \<noteq> [] \<and> fst (last blocks) = b \<and> a \<le> b"
proof -
  assume "journal_run blocks a b"
  then obtain earlier covered where c: "blocks = earlier @ covered" "map fst covered = [a..<Suc b]" "covered \<noteq> []"
    by (auto simp: journal_run_def)
  then have ne: "a \<le> b" by (metis le_less_Suc_eq list.map_disc_iff not_less_eq_eq upt_conv_Nil linorder_le_less_linear)
  then have "last [a..<Suc b] = b" by simp
  with c ne show ?thesis by (metis append_is_Nil_conv last_appendR last_map)
qed

lemma journal_run_extend:
  assumes "journal_run blocks a b"
  shows "journal_run (blocks @ [(Suc b, rs)]) a (Suc b)"
proof -
  from assms obtain earlier covered where "blocks = earlier @ covered" "map fst covered = [a..<Suc b]"
    "covered \<noteq> []" "earlier = [] \<or> Suc (fst (last earlier)) \<noteq> a" by (auto simp: journal_run_def)
  with journal_run_last [OF assms] show ?thesis
    unfolding journal_run_def by (intro exI [of _ earlier] exI [of _ "covered @ [(Suc b, rs)]"]) auto
qed

lemma journal_run_start:
  "blocks = [] \<or> Suc (fst (last blocks)) \<noteq> h \<Longrightarrow> journal_run (blocks @ [(h, rs)]) h h"
  unfolding journal_run_def by (intro exI [of _ blocks] exI [of _ "[(h, rs)]"]) auto

lemma latest_records_snoc:
  "latest_records (blocks @ [(h, rs)]) h' = (if h' = h then rs else latest_records blocks h')"
  by (simp add: latest_records_def)

lemma meta_height_be: "h \<le> u32_max \<Longrightarrow> map_of t k = Some (be_bytes 4 h) \<Longrightarrow> meta_height t k = Inr (Some h)"
  by (simp add: meta_height_def)

context consensus_wire
begin

lemma record_block_step:
  assumes "journal_state W blocks (meta, journal)" and "h \<le> u32_max"
    and "length rs \<le> Suc u32_max" and "list_all journal_record_ok rs"
  obtains s' where "record_block W fresh cov h rs (meta, journal) = Inr s'" "journal_state W (blocks @ [(h, rs)]) s'"
proof -
  let ?m = "snd (ensure_meta fresh cov meta)"
  let ?cleared = "fold redb_remove (map fst (journal_rows h journal)) journal"
  from assms(1) have ok: "redb_ok journal"
    and rows: "\<And>h. journal_rows h journal = map (row_of W h) (enumerate 0 (latest_records blocks h))"
    by (auto simp: journal_state_def)
  obtain j where j: "res_fold (insert_record W h) (enumerate 0 rs) ?cleared = Inr j" "redb_ok j"
      "journal_rows h j = map (row_of W h) (enumerate 0 rs)"
      "\<forall>h'. h' \<noteq> h \<longrightarrow> journal_rows h' j = journal_rows h' journal"
    using insert_records [OF clear_height(1) [OF ok], of h h 0 rs] assms(3,4)
    by (auto simp: clear_height(2) [OF ok])
  have j_rows: "journal_rows h' j = map (row_of W h') (enumerate 0 (latest_records (blocks @ [(h, rs)]) h'))" for h'
    using j(3,4) rows by (simp add: latest_records_snoc)
  show thesis
  proof (cases "\<exists>a. blocks \<noteq> [] \<and> journal_run blocks a (fst (last blocks)) \<and> h = Suc (fst (last blocks)) \<and>
      a \<le> u32_max \<and> map_of meta META_JOURNAL_START = Some (be_bytes 4 a)")
    case True
    then obtain a where a: "journal_run blocks a (fst (last blocks))" "h = Suc (fst (last blocks))" "blocks \<noteq> []"
      "a \<le> u32_max" "map_of meta META_JOURNAL_START = Some (be_bytes 4 a)" by blast
    with assms(1) have last': "map_of meta META_JOURNAL_LAST = Some (be_bytes 4 (fst (last blocks)))"
      by (auto simp: journal_state_def dest: journal_run_last)
    let ?s = "(redb_insert META_JOURNAL_LAST (be_bytes 4 h) ?m, j)"
    have "meta_height ?m META_JOURNAL_START = Inr (Some a)"
      "meta_height ?m META_JOURNAL_LAST = Inr (Some (fst (last blocks)))"
      using a assms(2) last' by (simp_all add: meta_height_be ensure_meta_range)
    then have "record_block W fresh cov h rs (meta, journal) = Inr ?s"
      using a(2) assms(2) j(1) by (simp add: record_block_def Let_def checked_add_def)
    moreover have "journal_state W (blocks @ [(h, rs)]) ?s"
      using j(2) j_rows a assms(2) journal_run_extend [OF a(1), of rs]
      by (auto simp: journal_state_def map_of_redb_insert ensure_meta_range)
    ultimately show thesis by (rule that)
  next
    case False
    let ?s = "(redb_insert META_JOURNAL_LAST (be_bytes 4 h) (redb_insert META_JOURNAL_START (be_bytes 4 h) ?m), j)"
    have gap: "blocks = [] \<or> Suc (fst (last blocks)) \<noteq> h"
    proof (rule ccontr)
      assume "\<not> ?thesis"
      moreover from this assms(1) obtain a b where "journal_run blocks a b" "a \<le> u32_max"
        "map_of meta META_JOURNAL_START = Some (be_bytes 4 a)" by (auto simp: journal_state_def)
      ultimately show False using False journal_run_last by metis
    qed
    have "record_block W fresh cov h rs (meta, journal) = Inr ?s"
    proof (cases "blocks = []")
      case True
      with assms(1) j(1) show ?thesis
        by (simp add: journal_state_def record_block_def Let_def meta_height_def ensure_meta_range)
    next
      case False
      with assms(1) obtain a b where ab: "journal_run blocks a b" "a \<le> u32_max" "b \<le> u32_max"
        "map_of meta META_JOURNAL_START = Some (be_bytes 4 a)" "map_of meta META_JOURNAL_LAST = Some (be_bytes 4 b)"
        by (auto simp: journal_state_def)
      then have "meta_height ?m META_JOURNAL_START = Inr (Some a)" "meta_height ?m META_JOURNAL_LAST = Inr (Some b)"
        by (simp_all add: meta_height_be ensure_meta_range)
      with gap False j(1) journal_run_last [OF ab(1)] show ?thesis
        by (simp add: record_block_def Let_def checked_add_def)
    qed
    moreover have "journal_state W (blocks @ [(h, rs)]) ?s"
      using j(2) j_rows assms(2) journal_run_start [OF gap, of rs]
      by (auto simp: journal_state_def map_of_redb_insert ensure_meta_range)
    ultimately show thesis by (rule that)
  qed
qed

lemma record_blocks:
  assumes "\<And>h rs. (h, rs) \<in> set blocks \<Longrightarrow>
      h \<le> u32_max \<and> length rs \<le> Suc u32_max \<and> list_all journal_record_ok rs"
  obtains s where "res_fold (\<lambda>(h, rs). record_block W fresh cov h rs) blocks ([], []) = Inr s" "journal_state W blocks s"
  using assms
proof (induction blocks arbitrary: thesis rule: rev_induct)
  case Nil
  then show thesis
    by (simp add: journal_state_def redb_ok_def journal_rows_def latest_records_def)
next
  case (snoc x blocks)
  obtain h rs where x: "x = (h, rs)" by fastforce
  obtain meta journal where s: "res_fold (\<lambda>(h, rs). record_block W fresh cov h rs) blocks ([], []) = Inr (meta, journal)"
      "journal_state W blocks (meta, journal)"
    using snoc.IH snoc.prems(2) by (metis UnCI prod.exhaust set_append)
  moreover have "h \<le> u32_max" "length rs \<le> Suc u32_max" "list_all journal_record_ok rs"
    using snoc.prems(2) [of h rs] by (simp_all add: x)
  ultimately obtain s' where "record_block W fresh cov h rs (meta, journal) = Inr s'"
      "journal_state W (blocks @ [(h, rs)]) s'"
    using record_block_step by blast
  with s show thesis by (intro snoc.prems(1) [of s']) (simp_all add: res_fold_append x)
qed

end

text \<open>
  C40: recording the blocks of the journal never fails on rows in range, and the range of heights it
  then reports is the last run of consecutive heights that were recorded, no shorter and no longer:
  coverage never spans a height that was skipped, and every height in the range reads back exactly
  the rows recorded for it, although a height may have been recorded before.
\<close>

theorem journal_covers_run:
  assumes "consensus_wire W" and "blocks \<noteq> []"
    and "\<forall>(h, rs)\<in>set blocks. h \<le> u32_max \<and> length rs \<le> Suc u32_max \<and> list_all journal_record_ok rs"
  shows "\<exists>meta journal a b earlier covered.
    res_fold (\<lambda>(h, rs). record_block W fresh cov h rs) blocks ([], []) = Inr (meta, journal) \<and>
    meta_height meta META_JOURNAL_START = Inr (Some a) \<and> meta_height meta META_JOURNAL_LAST = Inr (Some b) \<and>
    blocks = earlier @ covered \<and> covered \<noteq> [] \<and> map fst covered = [a..<Suc b] \<and>
    (earlier = [] \<or> Suc (fst (last earlier)) \<noteq> a) \<and>
    (\<forall>(h, rs)\<in>set covered. read_journal W h journal = Inr (Some rs))"
proof -
  have ok: "h \<le> u32_max \<and> length rs \<le> Suc u32_max \<and> list_all journal_record_ok rs"
    if "(h, rs) \<in> set blocks" for h rs using assms(3) that by fastforce
  obtain meta journal where run: "res_fold (\<lambda>(h, rs). record_block W fresh cov h rs) blocks ([], []) = Inr (meta, journal)"
    and state: "journal_state W blocks (meta, journal)"
    using consensus_wire.record_blocks [OF assms(1), of blocks fresh cov] ok by (metis prod.exhaust)
  from state assms(2) obtain a b where meta: "a \<le> u32_max" "b \<le> u32_max"
      "map_of meta META_JOURNAL_START = Some (be_bytes 4 a)" "map_of meta META_JOURNAL_LAST = Some (be_bytes 4 b)"
    and "journal_run blocks a b" by (auto simp: journal_state_def)
  then obtain earlier covered where c: "blocks = earlier @ covered" "covered \<noteq> []" "map fst covered = [a..<Suc b]"
    "earlier = [] \<or> Suc (fst (last earlier)) \<noteq> a" by (auto simp: journal_run_def)
  have "read_journal W h journal = Inr (Some rs)" if "(h, rs) \<in> set covered" for h rs
  proof (rule consensus_wire.read_rows_ok [OF assms(1)])
    show "list_all journal_record_ok rs" using ok [of h rs] that c(1) by simp
    have "distinct (map fst (rev covered))" using c(3) by (simp flip: rev_map)
    then have "map_of (rev covered) h = Some rs" using that by simp
    then have "latest_records blocks h = rs" by (simp add: latest_records_def c(1) map_add_def)
    with state show "journal_rows h journal = map (row_of W h) (enumerate 0 rs)" by (auto simp: journal_state_def)
  qed
  moreover have "meta_height meta META_JOURNAL_START = Inr (Some a)" "meta_height meta META_JOURNAL_LAST = Inr (Some b)"
    using meta by (simp_all add: meta_height_be)
  ultimately show ?thesis using run c by blast
qed

theorem journal_covers_run_witness:
  "\<exists>meta journal. res_fold (\<lambda>(h, rs). record_block bitcoin_wire (replicate 16 1) 5 h rs)
      [(5, []), (9, [sample_row]), (10, [])] ([], []) = Inr (meta, journal) \<and>
    meta_height meta META_JOURNAL_START = Inr (Some 9) \<and> read_journal bitcoin_wire 9 journal = Inr (Some [sample_row])"
proof -
  let ?b = "[(5, []), (9, [sample_row]), (10, [])] :: (u32 \<times> journal_record list) list"
  have split: "earlier = [(5, [])] \<and> covered = [(9, [sample_row]), (10, [])] \<and> a = 9"
    if "?b = earlier @ covered" "map fst covered = [a..<Suc b]" "covered \<noteq> []"
      "earlier = [] \<or> Suc (fst (last earlier)) \<noteq> a" for earlier covered a b
    using that(1,3,4) that(2) [symmetric]
    by (auto simp: Cons_eq_append_conv upt_eq_Cons_conv simp del: upt_Suc)
  have "\<forall>(h, rs)\<in>set ?b. h \<le> u32_max \<and> length rs \<le> Suc u32_max \<and> list_all journal_record_ok rs" "?b \<noteq> []"
    using sample_row_ok by (simp_all add: u32_max_def)
  from journal_covers_run [OF bw.consensus_wire_axioms this(2,1), where fresh = "replicate 16 1" and cov = 5]
  show ?thesis
  proof (elim exE conjE, goal_cases)
    case (1 meta journal a b earlier covered)
    from split [OF 1(4,6,5,7)] have "a = 9" "(9, [sample_row]) \<in> set covered" by simp_all
    with 1(8) have "read_journal bitcoin_wire 9 journal = Inr (Some [sample_row])" by blast
    with 1(1,2) \<open>a = 9\<close> show ?case by blast
  qed
qed

end
