(* ===== verification/Reorg.thy ===== *)
theory Reorg
  imports Dogemap_Journal
begin

text \<open>
  Following a chain that is reorganized (\<open>src/index/reorg.rs\<close>, with the loops that drive it:
  \<open>Updater::update_index\<close>, \<open>Updater::commit\<close> and \<open>Index::update\<close>), as built without the feature
  \<open>tap\<close>. Blocks are indexed in a write transaction that is committed now and then; near the tip of the
  node a savepoint of the database is taken every ten blocks, at most five of them are kept, and when a
  block does not continue the indexed chain the oldest one is restored.

  The database is redb's: the record \<open>savepoint_api\<close> has what is used of its savepoints, and the
  locale \<open>savepoint_store\<close> what is documented of them. A write transaction is a copy of the contents
  that a commit puts in place; a read sees the last commit. The node's answers come with each block it
  delivers, so it may change its mind between any two. The record \<open>block_api\<close> has the hash of a header
  and what a block does to the tables other than those here, as one step on them and the updater's
  caches; the steps are those of the theories on inscriptions, sats, dunes and DRC-20.
\<close>

section \<open>Blocks and tables\<close>

type_synonym block_hash = "byte list"

record block_header =
  prev_blockhash :: block_hash
  header_rest :: "byte list"

record 'b block_data =
  bd_header :: block_header
  bd_txdata :: "'b list"

record 'r index_db =
  height_to_block_hash :: "(u32, block_hash) redb"
  statistic_to_count :: "(u64, u64) redb"
  dogemap_feed_meta :: meta_table
  dogemap_feed_journal :: journal_table
  starting_timestamps :: "(u32, u128) redb"
  other_tables :: 'r

datatype reorg_error = Recoverable u32 u32 | Unrecoverable

datatype update_error = ReorgErr reorg_error | FeedErr feed_error | UpdatePanic rust_panic | OtherErr

datatype statistic = Commits | IndexDrc20 | IndexDunes | IndexSats | LostSats | OutputsTraversed | ReservedDunes
  | Dunes | SatRanges | Schema | IndexTransactions | Reorgs | Drc20DecisionsFromHeight

primrec statistic_key :: "statistic \<Rightarrow> u64" where
  "statistic_key Commits = 0"
| "statistic_key IndexDrc20 = 1"
| "statistic_key IndexDunes = 2"
| "statistic_key IndexSats = 3"
| "statistic_key LostSats = 4"
| "statistic_key OutputsTraversed = 5"
| "statistic_key ReservedDunes = 6"
| "statistic_key Dunes = 7"
| "statistic_key SatRanges = 8"
| "statistic_key Schema = 9"
| "statistic_key IndexTransactions = 10"
| "statistic_key Reorgs = 11"
| "statistic_key Drc20DecisionsFromHeight = 12"

record ('b, 'r) block_api =
  header_hash :: "block_header \<Rightarrow> block_hash"
  index_other :: "u32 \<Rightarrow> 'b block_data \<Rightarrow> 'r \<Rightarrow> ('r \<times> journal_record list) option"
  flush_other :: "'r \<Rightarrow> 'r \<times> u64 \<times> u64"
  feed_wire :: wire_api
  fresh_id :: "byte list"

record index_config =
  cfg_index_sats :: bool
  cfg_index_dunes :: bool
  cfg_first_inscription_height :: u32
  cfg_first_dune_height :: u32

definition count_of :: "statistic \<Rightarrow> 'r index_db \<Rightarrow> u64" where
  "count_of s db = (case map_of (statistic_to_count db) (statistic_key s) of None \<Rightarrow> 0 | Some n \<Rightarrow> n)"

definition increment_statistic :: "statistic \<Rightarrow> u64 \<Rightarrow> 'r index_db \<Rightarrow> update_error + 'r index_db" where
  "increment_statistic s n db =
    res_bind (lift_panic UpdatePanic (add_or_panic u64_max (count_of s db) n)) (\<lambda>v.
    Inr (db\<lparr>statistic_to_count := redb_insert (statistic_key s) v (statistic_to_count db)\<rparr>))"

definition block_count :: "'r index_db \<Rightarrow> update_error + u32" where
  "block_count db =
    (case height_to_block_hash db of
       [] \<Rightarrow> Inr 0
     | t \<Rightarrow> lift_panic UpdatePanic (add_or_panic u32_max (fst (last t)) 1))"

definition block_hash_at :: "'r index_db \<Rightarrow> u32 option \<Rightarrow> block_hash option" where
  "block_hash_at db height =
    (case height of
       Some h \<Rightarrow> map_of (height_to_block_hash db) h
     | None \<Rightarrow> (case height_to_block_hash db of [] \<Rightarrow> None | t \<Rightarrow> Some (snd (last t))))"

section \<open>The node\<close>

text \<open>\<open>get_block_count\<close> and \<open>get_block_hash\<close>, for a node whose best chain has these headers.\<close>

definition get_block_count :: "block_header list \<Rightarrow> u64" where
  "get_block_count chain = length chain - 1"

definition get_block_hash :: "('b, 'r) block_api \<Rightarrow> block_header list \<Rightarrow> u64 \<Rightarrow> block_hash option" where
  "get_block_hash A chain h = (if h < length chain then Some (header_hash A (chain ! h)) else None)"

text \<open>A block the node delivers, with its best chain and the time when the block is indexed.\<close>

record 'b delivery =
  dl_block :: "'b block_data"
  dl_chain :: "block_header list"
  dl_now :: u128
  dl_shutting_down :: bool

section \<open>Savepoints\<close>

record ('st, 'db) savepoint_api =
  db_content :: "'st \<Rightarrow> 'db"
  put_content :: "'db \<Rightarrow> 'st \<Rightarrow> 'st"
  list_persistent_savepoints :: "'st \<Rightarrow> u64 list"
  savepoint_content :: "'st \<Rightarrow> u64 \<Rightarrow> 'db"
  persistent_savepoint :: "'st \<Rightarrow> 'st"
  delete_persistent_savepoint :: "u64 \<Rightarrow> 'st \<Rightarrow> 'st"
  restore_savepoint :: "u64 \<Rightarrow> 'st \<Rightarrow> 'st"

definition MAX_SAVEPOINTS :: u32 where "MAX_SAVEPOINTS = 5"
definition SAVEPOINT_INTERVAL :: u32 where "SAVEPOINT_INTERVAL = 10"
definition CHAIN_TIP_DISTANCE :: u32 where "CHAIN_TIP_DISTANCE = 25"
definition HEADER_ONLY_COMMIT_INTERVAL :: u32 where "HEADER_ONLY_COMMIT_INTERVAL = 25000"

definition detect_reorg :: "('b, 'r) block_api \<Rightarrow> 'b delivery \<Rightarrow> u32 \<Rightarrow> 'r index_db \<Rightarrow> reorg_error + unit" where
  "detect_reorg A d height db =
    (case block_hash_at db (checked_sub height 1) of
       None \<Rightarrow> Inr ()
     | Some index_prev_blockhash \<Rightarrow>
         if index_prev_blockhash = prev_blockhash (bd_header (dl_block d)) then Inr ()
         else
           let max_recoverable_reorg_depth = (MAX_SAVEPOINTS - 1) * SAVEPOINT_INTERVAL + height mod SAVEPOINT_INTERVAL
           in case List.find (\<lambda>depth. block_hash_at db (checked_sub height depth) =
                  get_block_hash A (dl_chain d) (saturating_sub height depth)) [1..<max_recoverable_reorg_depth] of
                Some depth \<Rightarrow> Inl (Recoverable height depth)
              | None \<Rightarrow> Inl Unrecoverable)"

definition handle_reorg :: "('st, 'r index_db) savepoint_api \<Rightarrow> u32 \<Rightarrow> u32 \<Rightarrow> 'st \<Rightarrow> update_error + 'st" where
  "handle_reorg S height depth st =
    res_bind (case preserve_meta (dogemap_feed_meta (db_content S st)) of
        Inl e \<Rightarrow> Inl (FeedErr e) | Inr p \<Rightarrow> Inr p) (\<lambda>feed_generation.
    let reorgs_before = count_of Reorgs (db_content S st);
        savepoints = list_persistent_savepoints S st
    in if savepoints = [] then Inl (ReorgErr Unrecoverable)
       else
         let st1 = restore_savepoint S (Min (set savepoints)) st
         in res_bind (block_count (db_content S st1)) (\<lambda>restored_block_count.
            res_bind (lift_panic UpdatePanic (add_or_panic u32_max (saturating_sub height depth) 1)) (\<lambda>first_replaced_height.
            if restored_block_count > first_replaced_height then Inl (ReorgErr Unrecoverable)
            else
              res_bind (lift_panic UpdatePanic (add_or_panic u64_max reorgs_before 1)) (\<lambda>reorgs.
              let db = db_content S st1;
                  db = db\<lparr>statistic_to_count := redb_insert (statistic_key Reorgs) reorgs (statistic_to_count db)\<rparr>;
                  db = db\<lparr>dogemap_feed_meta := reinstate_meta feed_generation (dogemap_feed_meta db)\<rparr>
              in res_bind (increment_statistic Commits 1 db) (\<lambda>db.
                 Inr (put_content S db st1))))))"

definition savepoint_due :: "u32 \<Rightarrow> u32 \<Rightarrow> bool" where
  "savepoint_due height starting_height \<longleftrightarrow> SAVEPOINT_INTERVAL \<le> height \<and> height mod SAVEPOINT_INTERVAL = 0 \<and>
    saturating_sub starting_height height \<le> CHAIN_TIP_DISTANCE"

definition update_savepoints :: "('st, 'r index_db) savepoint_api \<Rightarrow> block_header list \<Rightarrow> u32 \<Rightarrow> 'st \<Rightarrow>
    'st \<times> update_error option" where
  "update_savepoints S chain height st =
    (if height < SAVEPOINT_INTERVAL \<or> height mod SAVEPOINT_INTERVAL = 0 then
       case try_from u32_max (get_block_count chain) of
         None \<Rightarrow> (st, Some (UpdatePanic UnwrapNone))
       | Some count' \<Rightarrow>
           if saturating_sub count' height \<le> CHAIN_TIP_DISTANCE then
             let savepoints = list_persistent_savepoints S st;
                 st1 = (if MAX_SAVEPOINTS \<le> length savepoints
                        then delete_persistent_savepoint S (Min (set savepoints)) st else st)
             in case increment_statistic Commits 1 (db_content S st1) of
                  Inl e \<Rightarrow> (st, Some e)
                | Inr db \<Rightarrow>
                    let st2 = put_content S db st1;
                        st3 = persistent_savepoint S st2
                    in case increment_statistic Commits 1 (db_content S st3) of
                         Inl e \<Rightarrow> (st2, Some e)
                       | Inr db \<Rightarrow> (put_content S db st3, None)
           else (st, None)
     else (st, None))"

section \<open>Indexing\<close>

text \<open>What every block leaves, whatever is done with its transactions.\<close>

definition updater_block_end :: "('b, 'r) block_api \<Rightarrow> index_config \<Rightarrow> 'b block_data \<Rightarrow> journal_record list \<Rightarrow>
    'r index_db \<times> u32 \<Rightarrow> update_error + 'r index_db \<times> u32" where
  "updater_block_end A C block feed_journal = (\<lambda>(db, height).
    res_bind (case record_block (feed_wire A) (fresh_id A) (cfg_first_inscription_height C) height feed_journal
          (dogemap_feed_meta db, dogemap_feed_journal db) of
        Inl e \<Rightarrow> Inl (FeedErr e)
      | Inr (meta, journal) \<Rightarrow> Inr (db\<lparr>dogemap_feed_meta := meta, dogemap_feed_journal := journal\<rparr>)) (\<lambda>db.
    let db = db\<lparr>height_to_block_hash := redb_insert height (header_hash A (bd_header block)) (height_to_block_hash db)\<rparr>
    in res_bind (lift_panic UpdatePanic (add_or_panic u32_max height 1)) (\<lambda>height. Inr (db, height))))"

text \<open>\<open>committed\<close> is what a read transaction sees, \<open>db\<close> what the write transaction holds.\<close>

definition updater_index_block :: "('b, 'r) block_api \<Rightarrow> index_config \<Rightarrow> 'r index_db \<Rightarrow> 'b delivery \<Rightarrow>
    'r index_db \<times> u32 \<Rightarrow> update_error + 'r index_db \<times> u32" where
  "updater_index_block A C committed d = (\<lambda>(db, height).
    res_bind (case detect_reorg A d height committed of Inl e \<Rightarrow> Inl (ReorgErr e) | Inr u \<Rightarrow> Inr u) (\<lambda>_.
    let block = dl_block d
    in if 0 < height \<and> bd_txdata block = [] \<and> \<not> cfg_index_sats C \<and> height < cfg_first_inscription_height C \<and>
          \<not> (cfg_index_dunes C \<and> cfg_first_dune_height C \<le> height)
       then updater_block_end A C block [] (db, height)
       else
         res_bind (ok_or OtherErr (index_other A height block (other_tables db))) (\<lambda>(other, feed_journal).
         updater_block_end A C block feed_journal (db\<lparr>other_tables := other\<rparr>, height))))"

definition commit :: "('st, 'r index_db) savepoint_api \<Rightarrow> ('b, 'r) block_api \<Rightarrow> block_header list \<Rightarrow> u32 \<Rightarrow>
    'r index_db \<Rightarrow> 'st \<Rightarrow> 'st \<times> update_error option" where
  "commit S A chain height db st =
    (let (other, outputs_traversed, sat_ranges) = flush_other A (other_tables db)
     in case res_bind (increment_statistic OutputsTraversed outputs_traversed (db\<lparr>other_tables := other\<rparr>)) (\<lambda>db.
             res_bind (increment_statistic SatRanges sat_ranges db) (increment_statistic Commits 1)) of
          Inl e \<Rightarrow> (st, Some e)
        | Inr db \<Rightarrow> update_savepoints S chain height (put_content S db st))"

definition insert_timestamp :: "u32 \<Rightarrow> u128 \<Rightarrow> 'r index_db \<Rightarrow> 'r index_db" where
  "insert_timestamp height now db = db\<lparr>starting_timestamps := redb_insert height now (starting_timestamps db)\<rparr>"

definition commit_interval :: "index_config \<Rightarrow> u32 \<Rightarrow> u32" where
  "commit_interval C height =
    (if \<not> cfg_index_sats C \<and> height < cfg_first_inscription_height C then HEADER_ONLY_COMMIT_INTERVAL else 1000)"

text \<open>
  The loop over the delivered blocks. \<open>chain\<close> is the node's chain at the last commit, which may come
  after the last block.
\<close>

fun update_loop :: "('st, 'r index_db) savepoint_api \<Rightarrow> ('b, 'r) block_api \<Rightarrow> index_config \<Rightarrow> u32 \<Rightarrow> block_header list \<Rightarrow>
    'b delivery list \<Rightarrow> nat \<Rightarrow> 'r index_db \<times> u32 \<Rightarrow> 'st \<Rightarrow> 'st \<times> update_error option" where
  "update_loop S A C starting_height chain [] uncommitted (db, height) st =
    (if uncommitted > 0 then commit S A chain height db st else (st, None))"
| "update_loop S A C starting_height chain (d # ds) uncommitted (db, height) st =
    (case updater_index_block A C (db_content S st) d (db, height) of
       Inl e \<Rightarrow> (st, Some e)
     | Inr (db, height) \<Rightarrow>
         if commit_interval C height \<le> Suc uncommitted \<or> savepoint_due height starting_height then
           case commit S A (dl_chain d) height db st of
             (st, Some e) \<Rightarrow> (st, Some e)
           | (st, None) \<Rightarrow>
               (case block_count (db_content S st) of
                  Inl e \<Rightarrow> (st, Some e)
                | Inr n \<Rightarrow>
                    if n \<noteq> height \<or> dl_shutting_down d then (st, None)
                    else update_loop S A C starting_height chain ds 0
                      (insert_timestamp height (dl_now d) (db_content S st), height) st)
         else if dl_shutting_down d then commit S A chain height db st
         else update_loop S A C starting_height chain ds (Suc uncommitted) (db, height) st)"

text \<open>One call of \<open>update_index\<close>: the node's chain and the time at its start, and the blocks it delivers from a height on.\<close>

record 'b run =
  run_chain :: "block_header list"
  run_now :: u128
  run_blocks :: "u32 \<Rightarrow> 'b delivery list"
  run_end_chain :: "block_header list"

definition update_index :: "('st, 'r index_db) savepoint_api \<Rightarrow> ('b, 'r) block_api \<Rightarrow> index_config \<Rightarrow> 'b run \<Rightarrow> u32 \<Rightarrow>
    'st \<Rightarrow> 'st \<times> update_error option" where
  "update_index S A C r height st =
    (case res_bind (lift_panic UpdatePanic (unwrap (try_from u32_max (get_block_count (run_chain r))))) (\<lambda>n.
          lift_panic UpdatePanic (add_or_panic u32_max n 1)) of
       Inl e \<Rightarrow> (st, Some e)
     | Inr starting_height \<Rightarrow>
         update_loop S A C starting_height (run_end_chain r) (run_blocks r height) 0
           (insert_timestamp height (run_now r) (db_content S st), height) st)"

text \<open>
  \<open>Index::update\<close>: update, roll back, and start over, one run after the other; \<^const>\<open>None\<close> if it has not
  returned when the runs are used up. The result has the store, the error, and whether the index is
  marked as reorganized beyond recovery.
\<close>

fun index_update :: "('st, 'r index_db) savepoint_api \<Rightarrow> ('b, 'r) block_api \<Rightarrow> index_config \<Rightarrow> 'b run list \<Rightarrow> 'st \<Rightarrow>
    ('st \<times> update_error option \<times> bool) option" where
  "index_update S A C [] st = None"
| "index_update S A C (r # rs) st =
    (case block_count (db_content S st) of
       Inl e \<Rightarrow> Some (st, Some e, False)
     | Inr height \<Rightarrow>
         (case update_index S A C r height st of
            (st, None) \<Rightarrow> Some (st, None, False)
          | (st, Some (ReorgErr (Recoverable height depth))) \<Rightarrow>
              (case handle_reorg S height depth st of
                 Inl e \<Rightarrow> Some (st, Some e, e = ReorgErr Unrecoverable)
               | Inr st \<Rightarrow> index_update S A C rs st)
          | (st, Some (ReorgErr Unrecoverable)) \<Rightarrow> Some (st, Some (ReorgErr Unrecoverable), True)
          | (st, Some e) \<Rightarrow> Some (st, Some e, False)))"

end
