(* ===== verification/Reorg_Safety.thy ===== *)
theory Reorg_Safety
  imports Reorg
begin

text \<open>
  What savepoints promise, and what every operation of the index keeps of it: the indexed blocks, at most
  five savepoints, and each a beginning of these blocks. \<open>kept\<close> says so for any way in which a savepoint
  is a beginning; \<open>store_inv\<close> is the instance in which the blocks form a chain. The loop over the
  delivered blocks ends on a chain when the deliveries form one.
\<close>

section \<open>The interface to savepoints\<close>

locale savepoint_store =
  fixes S :: "('st, 'db) savepoint_api"
  assumes distinct_ids: "distinct (list_persistent_savepoints S st)"
    and content_put: "db_content S (put_content S db st) = db"
    and ids_put: "list_persistent_savepoints S (put_content S db st) = list_persistent_savepoints S st"
    and saved_put: "savepoint_content S (put_content S db st) = savepoint_content S st"
    and content_take: "db_content S (persistent_savepoint S st) = db_content S st"
    and take_new: "\<exists>i. set (list_persistent_savepoints S (persistent_savepoint S st)) =
          insert i (set (list_persistent_savepoints S st)) \<and>
        (\<forall>j\<in>set (list_persistent_savepoints S st). j < i \<and>
          savepoint_content S (persistent_savepoint S st) j = savepoint_content S st j) \<and>
        savepoint_content S (persistent_savepoint S st) i = db_content S st"
    and content_delete: "db_content S (delete_persistent_savepoint S i st) = db_content S st"
    and ids_delete: "set (list_persistent_savepoints S (delete_persistent_savepoint S i st)) =
        set (list_persistent_savepoints S st) - {i}"
    and saved_delete: "j \<noteq> i \<Longrightarrow>
        savepoint_content S (delete_persistent_savepoint S i st) j = savepoint_content S st j"
    and content_restore: "i \<in> set (list_persistent_savepoints S st) \<Longrightarrow>
        db_content S (restore_savepoint S i st) = savepoint_content S st i"
    and ids_restore: "i \<in> set (list_persistent_savepoints S st) \<Longrightarrow>
        set (list_persistent_savepoints S (restore_savepoint S i st)) = {j \<in> set (list_persistent_savepoints S st). j \<le> i}"
    and saved_restore: "i \<in> set (list_persistent_savepoints S st) \<Longrightarrow> j \<le> i \<Longrightarrow>
        savepoint_content S (restore_savepoint S i st) j = savepoint_content S st j"
begin

lemma count_ids: "length (list_persistent_savepoints S st) = card (set (list_persistent_savepoints S st))"
  using distinct_ids [of st] by (simp add: distinct_card)

text \<open>Every savepoint has a property that the contents have when it is taken.\<close>

definition saved_all :: "('db \<Rightarrow> bool) \<Rightarrow> 'st \<Rightarrow> bool" where
  "saved_all P st \<longleftrightarrow> (\<forall>i\<in>set (list_persistent_savepoints S st). P (savepoint_content S st i))"

lemma saved_all_put [simp]: "saved_all P (put_content S db st) = saved_all P st"
  by (simp add: saved_all_def ids_put saved_put)

lemma saved_all_take: "saved_all P st \<Longrightarrow> P (db_content S st) \<Longrightarrow> saved_all P (persistent_savepoint S st)"
  using take_new [of st] by (auto simp: saved_all_def)

lemma saved_all_delete: "saved_all P st \<Longrightarrow> saved_all P (delete_persistent_savepoint S i st)"
  by (auto simp: saved_all_def ids_delete saved_delete)

lemma saved_all_mono: "saved_all P st \<Longrightarrow> (\<And>db. P db \<Longrightarrow> Q db) \<Longrightarrow> saved_all Q st"
  by (auto simp: saved_all_def)

lemma saved_all_restore:
  assumes "saved_all P st" and "i \<in> set (list_persistent_savepoints S st)"
  shows "saved_all P (restore_savepoint S i st)" "P (db_content S (restore_savepoint S i st))"
  using assms by (auto simp: saved_all_def ids_restore saved_restore content_restore)

lemma count_take: "length (list_persistent_savepoints S (persistent_savepoint S st)) =
    Suc (length (list_persistent_savepoints S st))"
proof -
  obtain i where i: "set (list_persistent_savepoints S (persistent_savepoint S st)) =
      insert i (set (list_persistent_savepoints S st))" "\<forall>j\<in>set (list_persistent_savepoints S st). j < i"
    using take_new [of st] by blast
  then have "i \<notin> set (list_persistent_savepoints S st)" by auto
  with i show ?thesis by (simp add: count_ids)
qed

lemma count_restore:
  assumes "i \<in> set (list_persistent_savepoints S st)"
  shows "length (list_persistent_savepoints S (restore_savepoint S i st)) \<le> length (list_persistent_savepoints S st)"
  unfolding count_ids ids_restore [OF assms] by (rule card_mono) auto

lemma count_delete:
  assumes "i \<in> set (list_persistent_savepoints S st)"
  shows "Suc (length (list_persistent_savepoints S (delete_persistent_savepoint S i st))) =
    length (list_persistent_savepoints S st)"
  unfolding count_ids ids_delete using assms by (metis List.finite_set card.remove)

end

text \<open>A database file with its savepoints: a new one has the least number above all others.\<close>

record 'db redb_file =
  rf_content :: 'db
  rf_savepoints :: "(u64 \<times> 'db) list"

definition redb_savepoints :: "('db redb_file, 'db) savepoint_api" where
  "redb_savepoints = \<lparr>db_content = rf_content,
     put_content = (\<lambda>db f. f\<lparr>rf_content := db\<rparr>),
     list_persistent_savepoints = (\<lambda>f. remdups (map fst (rf_savepoints f))),
     savepoint_content = (\<lambda>f i. the (map_of (rf_savepoints f) i)),
     persistent_savepoint = (\<lambda>f. f\<lparr>rf_savepoints :=
       rf_savepoints f @ [(Suc (fold max (map fst (rf_savepoints f)) 0), rf_content f)]\<rparr>),
     delete_persistent_savepoint = (\<lambda>i f. f\<lparr>rf_savepoints := filter (\<lambda>(j, db). j \<noteq> i) (rf_savepoints f)\<rparr>),
     restore_savepoint = (\<lambda>i f. f\<lparr>rf_content := the (map_of (rf_savepoints f) i),
       rf_savepoints := filter (\<lambda>(j, db). j \<le> i) (rf_savepoints f)\<rparr>)\<rparr>"

lemma fold_max_ge: "x \<in> set xs \<or> x \<le> m \<Longrightarrow> (x :: nat) \<le> fold max xs m"
proof (induction xs arbitrary: m)
  case (Cons a xs)
  show ?case using Cons.IH [of "max a m"] Cons.prems by (auto simp: le_max_iff_disj)
qed simp

lemma map_of_filter_key: "map_of (filter (\<lambda>(j, x). P j) xs) j = (if P j then map_of xs j else None)"
  by (induction xs) auto

lemma map_of_row: "i \<in> set (map fst xs) \<Longrightarrow> \<exists>x. map_of xs i = Some x"
  by (induction xs) auto

interpretation rs: savepoint_store redb_savepoints
proof
  fix st :: "'db redb_file" and i j :: u64 and db :: 'db
  let ?n = "Suc (fold max (map fst (rf_savepoints st)) 0)"
  have new: "k < ?n" if "k \<in> set (map fst (rf_savepoints st))" for k
    using fold_max_ge [of k "map fst (rf_savepoints st)" 0] that by (simp add: less_Suc_eq_le)
  show "\<exists>i. set (list_persistent_savepoints redb_savepoints (persistent_savepoint redb_savepoints st)) =
          insert i (set (list_persistent_savepoints redb_savepoints st)) \<and>
        (\<forall>j\<in>set (list_persistent_savepoints redb_savepoints st). j < i \<and>
          savepoint_content redb_savepoints (persistent_savepoint redb_savepoints st) j =
            savepoint_content redb_savepoints st j) \<and>
        savepoint_content redb_savepoints (persistent_savepoint redb_savepoints st) i = db_content redb_savepoints st"
  proof (intro exI [of _ ?n] conjI ballI)
    fix k assume "k \<in> set (list_persistent_savepoints redb_savepoints st)"
    then have k: "k \<in> set (map fst (rf_savepoints st))" by (simp add: redb_savepoints_def)
    then show "k < ?n" by (rule new)
    show "savepoint_content redb_savepoints (persistent_savepoint redb_savepoints st) k =
        savepoint_content redb_savepoints st k"
      using map_of_row [OF k] by (auto simp: redb_savepoints_def map_add_def)
  next
    have "map_of (rf_savepoints st) ?n = None"
      using new [of ?n] by (auto simp: map_of_eq_None_iff)
    then show "savepoint_content redb_savepoints (persistent_savepoint redb_savepoints st) ?n =
        db_content redb_savepoints st"
      by (simp add: redb_savepoints_def map_add_def)
  qed (auto simp: redb_savepoints_def)
qed (auto simp: redb_savepoints_def map_of_filter_key)

section \<open>Chains in the index\<close>

definition linked :: "('b, 'r) block_api \<Rightarrow> block_header list \<Rightarrow> bool" where
  "linked A hs \<longleftrightarrow> (\<forall>i. Suc i < length hs \<longrightarrow> prev_blockhash (hs ! Suc i) = header_hash A (hs ! i))"

definition indexed :: "('b, 'r) block_api \<Rightarrow> block_header list \<Rightarrow> 'r index_db \<Rightarrow> bool" where
  "indexed A hs db \<longleftrightarrow> height_to_block_hash db = enumerate 0 (map (header_hash A) hs)"

lemma linked_Nil [simp]: "linked A []" and linked_single [simp]: "linked A [h]"
  by (simp_all add: linked_def)

lemma linked_Cons: "linked A (h # hs) \<longleftrightarrow> linked A hs \<and> (hs = [] \<or> prev_blockhash (hd hs) = header_hash A h)"
proof (cases hs)
  case (Cons k ks)
  then show ?thesis
    unfolding linked_def by (auto simp: nth_Cons split: nat.splits)
qed simp

lemma linked_snoc: "linked A (hs @ [h]) \<longleftrightarrow> linked A hs \<and> (hs = [] \<or> prev_blockhash h = header_hash A (last hs))"
proof (induction hs)
  case (Cons k ks)
  then show ?case by (cases ks) (auto simp: linked_Cons)
qed simp

lemma linked_take: "linked A hs \<Longrightarrow> linked A (take n hs)"
  by (auto simp: linked_def)

lemma linked_drop: "linked A hs \<Longrightarrow> linked A (drop n hs)"
  by (auto simp: linked_def)

text \<open>Two chains that agree on one block agree on all blocks before it.\<close>

lemma linked_agree:
  assumes "linked A hs" and "linked A cs" and "inj_on (header_hash A) (set hs \<union> set cs)"
    and "n < length hs" and "n < length cs" and "hs ! n = cs ! n"
  shows "take (Suc n) hs = take (Suc n) cs"
  using assms(4-6)
proof (induction n)
  case 0
  then show ?case by (cases hs; cases cs) auto
next
  case (Suc n)
  have "header_hash A (hs ! n) = header_hash A (cs ! n)"
    using assms(1,2) Suc.prems unfolding linked_def by metis
  moreover have "hs ! n \<in> set hs \<union> set cs" "cs ! n \<in> set hs \<union> set cs" using Suc.prems by auto
  ultimately have "hs ! n = cs ! n" using assms(3) by (simp add: inj_on_def)
  with Suc show ?case by (simp add: take_Suc_conv_app_nth)
qed

lemma map_of_enumerate: "map_of (enumerate n xs) i = (if n \<le> i \<and> i < n + length xs then Some (xs ! (i - n)) else None)"
proof (induction xs arbitrary: n)
  case (Cons x xs)
  then show ?case by (auto simp: nth_Cons' le_less)
qed simp

lemma indexed_hash_at:
  "indexed A hs db \<Longrightarrow> block_hash_at db (Some i) = (if i < length hs then Some (header_hash A (hs ! i)) else None)"
  by (simp add: indexed_def block_hash_at_def map_of_enumerate)

lemma block_count_last:
  "height_to_block_hash db \<noteq> [] \<Longrightarrow>
    block_count db = lift_panic UpdatePanic (add_or_panic u32_max (fst (last (height_to_block_hash db))) 1)"
  by (cases "height_to_block_hash db") (simp_all add: block_count_def)

lemma indexed_count:
  assumes "indexed A hs db" and "length hs \<le> u32_max"
  shows "block_count db = Inr (length hs)"
proof (cases hs rule: rev_cases)
  case (snoc ks k)
  with assms have "height_to_block_hash db = enumerate 0 (map (header_hash A) ks) @ [(length ks, header_hash A k)]"
    by (simp add: indexed_def enumerate_append_eq)
  with assms(2) snoc show ?thesis using block_count_last [of db] by (simp add: add_or_panic_def)
qed (use assms in \<open>simp add: indexed_def block_count_def\<close>)

lemma indexed_unique:
  assumes "indexed A hs db" and "indexed A cs db" and "inj_on (header_hash A) (set hs \<union> set cs)"
  shows "hs = cs"
proof -
  have "map (header_hash A) hs = map (header_hash A) cs"
    using assms(1,2) unfolding indexed_def by (metis map_snd_enumerate)
  then show ?thesis using assms(3) by (rule map_inj_on)
qed

lemma increment_keeps:
  "increment_statistic s n db = Inr db' \<Longrightarrow> db' = db\<lparr>statistic_to_count := statistic_to_count db'\<rparr>"
  by (auto simp: increment_statistic_def res_simps)

lemma increment_indexed: "increment_statistic s n db = Inr db' \<Longrightarrow> indexed A hs db' = indexed A hs db"
  by (auto simp: increment_statistic_def res_simps indexed_def)

definition prefix_saved :: "('b, 'r) block_api \<Rightarrow> block_header list \<Rightarrow> 'r index_db \<Rightarrow> bool" where
  "prefix_saved A hs db \<longleftrightarrow> (\<exists>n\<le>length hs. indexed A (take n hs) db)"

text \<open>
  The invariant of the store: the indexed blocks, and savepoints of them. \<open>Q hs db\<close> says in which way the
  contents of a savepoint are a beginning of the blocks \<open>hs\<close>.
\<close>

definition kept :: "('st, 'r index_db) savepoint_api \<Rightarrow> ('b, 'r) block_api \<Rightarrow> (block_header list \<Rightarrow> 'r index_db \<Rightarrow> bool) \<Rightarrow>
    block_header list \<Rightarrow> 'st \<Rightarrow> bool" where
  "kept S A Q hs st \<longleftrightarrow> length hs \<le> u32_max \<and> indexed A hs (db_content S st) \<and>
    length (list_persistent_savepoints S st) \<le> MAX_SAVEPOINTS \<and>
    (\<forall>i\<in>set (list_persistent_savepoints S st). Q hs (savepoint_content S st i))"

lemma keptD:
  assumes "kept S A Q hs st"
  shows "length hs \<le> u32_max" "indexed A hs (db_content S st)" "length (list_persistent_savepoints S st) \<le> MAX_SAVEPOINTS"
  using assms by (simp_all add: kept_def)

text \<open>A chain, and savepoints of the same chain.\<close>

definition store_inv :: "('st, 'r index_db) savepoint_api \<Rightarrow> ('b, 'r) block_api \<Rightarrow> block_header list \<Rightarrow> 'st \<Rightarrow> bool" where
  "store_inv S A hs st \<longleftrightarrow> linked A hs \<and> length hs \<le> u32_max \<and> indexed A hs (db_content S st) \<and>
    length (list_persistent_savepoints S st) \<le> MAX_SAVEPOINTS \<and>
    (\<forall>i\<in>set (list_persistent_savepoints S st). prefix_saved A hs (savepoint_content S st i))"

lemma store_invD:
  assumes "store_inv S A hs st"
  shows "linked A hs" "length hs \<le> u32_max" "indexed A hs (db_content S st)"
    "length (list_persistent_savepoints S st) \<le> MAX_SAVEPOINTS"
    "\<forall>i\<in>set (list_persistent_savepoints S st). prefix_saved A hs (savepoint_content S st i)"
  using assms by (simp_all add: store_inv_def)

lemma store_inv_kept: "store_inv S A hs st \<longleftrightarrow> linked A hs \<and> kept S A (prefix_saved A) hs st"
  by (simp add: store_inv_def kept_def)

lemma prefix_saved_append:
  assumes "prefix_saved A hs db"
  shows "prefix_saved A (hs @ ks) db"
proof -
  from assms obtain n where "n \<le> length hs" "indexed A (take n hs) db" by (auto simp: prefix_saved_def)
  then show ?thesis unfolding prefix_saved_def by (intro exI [of _ n]) simp
qed

lemma prefix_saved_self: "indexed A hs db \<Longrightarrow> prefix_saved A hs db"
  by (auto simp: prefix_saved_def)

section \<open>Every operation keeps the invariant\<close>

locale index_store = savepoint_store S for S :: "('st, 'r index_db) savepoint_api"
begin

lemma kept_saved: "kept S A Q hs st \<Longrightarrow> saved_all (Q hs) st"
  by (simp add: saved_all_def kept_def)

lemma keptI:
  assumes "length hs \<le> u32_max" "indexed A hs (db_content S st)"
    "length (list_persistent_savepoints S st) \<le> MAX_SAVEPOINTS" "saved_all (Q hs) st"
  shows "kept S A Q hs st"
  using assms by (simp add: saved_all_def kept_def)

lemma kept_put:
  assumes "kept S A Q hs st" and "indexed A (hs @ ks) db" and "length (hs @ ks) \<le> u32_max"
    and "\<And>db. Q hs db \<Longrightarrow> Q (hs @ ks) db"
  shows "kept S A Q (hs @ ks) (put_content S db st)"
proof (rule keptI)
  show "saved_all (Q (hs @ ks)) (put_content S db st)"
    using kept_saved [OF assms(1)] assms(4) by (auto intro: saved_all_mono)
qed (use assms keptD(3) [OF assms(1)] in \<open>simp_all add: content_put ids_put\<close>)

lemma kept_put_same: "kept S A Q hs st \<Longrightarrow> indexed A hs db \<Longrightarrow> kept S A Q hs (put_content S db st)"
  using kept_put [of A Q hs st "[]" db] by (simp add: kept_def)

lemma kept_delete_oldest:
  assumes "kept S A Q hs st"
  defines "st' \<equiv> (if MAX_SAVEPOINTS \<le> length (list_persistent_savepoints S st)
    then delete_persistent_savepoint S (Min (set (list_persistent_savepoints S st))) st else st)"
  shows "kept S A Q hs st'" "length (list_persistent_savepoints S st') < MAX_SAVEPOINTS"
proof -
  let ?ids = "list_persistent_savepoints S st" and ?i = "Min (set (list_persistent_savepoints S st))"
  have "kept S A Q hs st' \<and> length (list_persistent_savepoints S st') < MAX_SAVEPOINTS"
  proof (cases "MAX_SAVEPOINTS \<le> length ?ids")
    case True
    then have "?i \<in> set ?ids" by (intro Min_in) (auto simp: MAX_SAVEPOINTS_def)
    note shorter = count_delete [OF this]
    have "kept S A Q hs (delete_persistent_savepoint S ?i st)"
      using keptD [OF assms(1)] saved_all_delete [OF kept_saved [OF assms(1)]] shorter
      by (intro keptI) (simp_all add: content_delete)
    with True shorter keptD(3) [OF assms(1)] show ?thesis by (simp add: st'_def)
  next
    case False
    then show ?thesis using assms(1) by (simp add: st'_def)
  qed
  then show "kept S A Q hs st'" "length (list_persistent_savepoints S st') < MAX_SAVEPOINTS" by blast+
qed

lemma kept_take:
  assumes "kept S A Q hs st" and "length (list_persistent_savepoints S st) < MAX_SAVEPOINTS"
    and "\<And>db. indexed A hs db \<Longrightarrow> Q hs db"
  shows "kept S A Q hs (persistent_savepoint S st)"
proof (rule keptI)
  show "saved_all (Q hs) (persistent_savepoint S st)"
    using saved_all_take [OF kept_saved [OF assms(1)]] keptD(2) [OF assms(1)] assms(3) by simp
qed (use assms keptD [OF assms(1)] in \<open>simp_all add: content_take count_take\<close>)

lemma kept_update_savepoints:
  assumes "kept S A Q hs st" and "\<And>db. indexed A hs db \<Longrightarrow> Q hs db"
  shows "kept S A Q hs (fst (update_savepoints S chain h st))"
proof -
  define st1 where "st1 = (if MAX_SAVEPOINTS \<le> length (list_persistent_savepoints S st)
    then delete_persistent_savepoint S (Min (set (list_persistent_savepoints S st))) st else st)"
  note del = kept_delete_oldest [OF assms(1), folded st1_def]
  have 2: "kept S A Q hs (put_content S db st1)" if "increment_statistic Commits 1 (db_content S st1) = Inr db" for db
    using kept_put_same [OF del(1)] keptD(2) [OF del(1)] increment_indexed [OF that, of A hs] by blast
  have 3: "kept S A Q hs (put_content S db' (persistent_savepoint S (put_content S db st1)))"
    if "increment_statistic Commits 1 (db_content S st1) = Inr db"
      "increment_statistic Commits 1 (db_content S (persistent_savepoint S (put_content S db st1))) = Inr db'" for db db'
  proof -
    have taken: "kept S A Q hs (persistent_savepoint S (put_content S db st1))"
      using 2 [OF that(1)] del(2) assms(2) by (intro kept_take) (simp_all only: ids_put)
    show ?thesis using kept_put_same [OF taken] keptD(2) [OF taken] increment_indexed [OF that(2), of A hs] by blast
  qed
  show ?thesis
    using assms(1) 2 3 unfolding update_savepoints_def Let_def st1_def [symmetric] by (auto simp del: split_paired_All split: option.splits sum.splits)
qed

lemma kept_commit:
  assumes "kept S A Q hs st" and "indexed A (hs @ ks) db" and "length (hs @ ks) \<le> u32_max"
    and "\<And>db. Q hs db \<Longrightarrow> Q (hs @ ks) db" and "\<And>db. indexed A (hs @ ks) db \<Longrightarrow> Q (hs @ ks) db"
  shows "kept S A Q hs (fst (commit S A chain h db st)) \<or> kept S A Q (hs @ ks) (fst (commit S A chain h db st))"
    and "snd (commit S A chain h db st) = None \<Longrightarrow> kept S A Q (hs @ ks) (fst (commit S A chain h db st))"
proof -
  obtain other t r where f: "flush_other A (other_tables db) = (other, t, r)" by (metis prod_cases3)
  let ?r = "res_bind (increment_statistic OutputsTraversed t (db\<lparr>other_tables := other\<rparr>)) (\<lambda>db.
             res_bind (increment_statistic SatRanges r db) (increment_statistic Commits 1))"
  have "indexed A (hs @ ks) db'" if "?r = Inr db'" for db'
  proof -
    from that obtain d1 d2 where "increment_statistic OutputsTraversed t (db\<lparr>other_tables := other\<rparr>) = Inr d1"
      "increment_statistic SatRanges r d1 = Inr d2" "increment_statistic Commits 1 d2 = Inr db'"
      by (auto simp: res_simps)
    then have "indexed A (hs @ ks) db' = indexed A (hs @ ks) (db\<lparr>other_tables := other\<rparr>)"
      by (simp only: increment_indexed)
    with assms(2) show ?thesis by (simp add: indexed_def)
  qed
  then have ok: "kept S A Q (hs @ ks) (fst (update_savepoints S chain h (put_content S db' st)))" if "?r = Inr db'" for db'
    using that assms by (intro kept_update_savepoints kept_put) auto
  have c: "commit S A chain h db st =
      (case ?r of Inl e \<Rightarrow> (st, Some e) | Inr db \<Rightarrow> update_savepoints S chain h (put_content S db st))"
    by (simp add: commit_def f)
  show "kept S A Q hs (fst (commit S A chain h db st)) \<or> kept S A Q (hs @ ks) (fst (commit S A chain h db st))"
    using ok assms(1) unfolding c by (cases ?r) auto
  show "kept S A Q (hs @ ks) (fst (commit S A chain h db st))" if "snd (commit S A chain h db st) = None"
    using ok that unfolding c by (cases ?r) auto
qed

lemma commit_inv:
  assumes "store_inv S A hs st" and "indexed A (hs @ ks) db" and "linked A (hs @ ks)" and "length (hs @ ks) \<le> u32_max"
  shows "store_inv S A hs (fst (commit S A chain h db st)) \<or> store_inv S A (hs @ ks) (fst (commit S A chain h db st))"
    and "snd (commit S A chain h db st) = None \<Longrightarrow> store_inv S A (hs @ ks) (fst (commit S A chain h db st))"
proof -
  have "kept S A (prefix_saved A) hs st" "linked A hs" using assms(1) by (simp_all add: store_inv_kept)
  from kept_commit [OF this(1) assms(2,4) prefix_saved_append prefix_saved_self] this(2) assms(3)
  show "store_inv S A hs (fst (commit S A chain h db st)) \<or> store_inv S A (hs @ ks) (fst (commit S A chain h db st))"
    and "snd (commit S A chain h db st) = None \<Longrightarrow> store_inv S A (hs @ ks) (fst (commit S A chain h db st))"
    by (auto simp: store_inv_kept)
qed

end

interpretation ri: index_store redb_savepoints ..

section \<open>Indexing and committing\<close>

abbreviation delivered :: "'b delivery \<Rightarrow> block_header" where
  "delivered d \<equiv> bd_header (dl_block d)"

lemma block_end_indexed:
  assumes "updater_block_end A C block js (db, h) = Inr (db', h')" and "indexed A hs db" and "h = length hs"
  shows "indexed A (hs @ [bd_header block]) db'" "h' = Suc h" "h' \<le> u32_max"
proof -
  have "redb_insert (length hs) x (enumerate 0 (map (header_hash A) hs)) =
      enumerate 0 (map (header_hash A) hs) @ [(length hs, x)]" for x
    by (rule redb_insert_last) (auto simp: in_set_enumerate_eq)
  then show "indexed A (hs @ [bd_header block]) db'" "h' = Suc h" "h' \<le> u32_max"
    using assms unfolding updater_block_end_def
    by (auto simp: res_simps Let_def indexed_def enumerate_append_eq split: sum.splits prod.splits)
qed

lemma index_block_indexed:
  assumes "updater_index_block A C committed d (db, h) = Inr (db', h')" and "indexed A hs db" and "h = length hs"
  shows "indexed A (hs @ [delivered d]) db'" "h' = Suc h" "h' \<le> u32_max" "detect_reorg A d h committed = Inr ()"
proof -
  from assms(1) obtain js o' where ends: "updater_block_end A C (dl_block d) js (db\<lparr>other_tables := o'\<rparr>, h) = Inr (db', h')"
    and det: "detect_reorg A d h committed = Inr ()"
    unfolding updater_index_block_def
    by (auto simp: res_simps Let_def split: sum.splits if_splits) (metis index_db.surjective index_db.update_convs(6))+
  have "indexed A hs (db\<lparr>other_tables := o'\<rparr>)" using assms(2) by (simp add: indexed_def)
  from block_end_indexed [OF ends this assms(3)]
  show "indexed A (hs @ [delivered d]) db'" "h' = Suc h" "h' \<le> u32_max" .
  show "detect_reorg A d h committed = Inr ()" by (rule det)
qed

lemma block_end_no_reorg: "updater_block_end A C block js s \<noteq> Inl (ReorgErr e)"
  by (cases s) (auto simp: updater_block_end_def res_bind_def lift_panic_def Let_def split: sum.splits prod.splits)

lemma index_block_reorg:
  assumes "updater_index_block A C committed d (db, h) = Inl (ReorgErr e)"
  shows "detect_reorg A d h committed = Inl e"
  using assms unfolding updater_index_block_def
  by (auto simp: block_end_no_reorg res_bind_def ok_or_def Let_def split: sum.splits if_splits option.splits prod.splits)

text \<open>Blocks after the first of a write transaction are not compared with the block before them.\<close>

lemma detect_blind: "indexed A hs db \<Longrightarrow> length hs < h \<Longrightarrow> detect_reorg A d h db = Inr ()"
proof -
  assume "indexed A hs db" and h: "length hs < h"
  then have "block_hash_at db (checked_sub h 1) = None" by (cases h) (simp_all add: checked_sub_def indexed_hash_at)
  then show ?thesis by (simp add: detect_reorg_def)
qed

lemma detect_links:
  assumes "indexed A hs db" and "detect_reorg A d (length hs) db = Inr ()"
  shows "hs = [] \<or> prev_blockhash (delivered d) = header_hash A (last hs)"
proof (cases "hs = []")
  case False
  then have "block_hash_at db (checked_sub (length hs) 1) = Some (header_hash A (last hs))"
    by (simp add: checked_sub_def indexed_hash_at [OF assms(1)] last_conv_nth Suc_le_eq)
  with assms(2) show ?thesis by (auto simp: detect_reorg_def Let_def split: if_splits option.splits)
qed simp

lemma increment_no_reorg: "increment_statistic s n db \<noteq> Inl (ReorgErr e)"
  by (auto simp: increment_statistic_def res_bind_def lift_panic_def split: sum.splits)

lemma commit_no_reorg: "snd (commit S A chain h db st) \<noteq> Some (ReorgErr e)"
  unfolding commit_def update_savepoints_def
  by (auto simp: increment_no_reorg Let_def res_bind_def split: sum.splits prod.splits option.splits if_splits)

section \<open>The update loop\<close>

text \<open>
  How the loop over the delivered blocks ends, from a committed chain \<open>hs\<close> and \<open>ks\<close> in the write
  transaction: on a chain that follows the deliveries, on all of them if nothing went wrong, and with
  an error of \<open>detect_reorg\<close> only if that is what it says of the committed chain and the next delivery.
\<close>

definition loop_outcome :: "('st, 'r index_db) savepoint_api \<Rightarrow> ('b, 'r) block_api \<Rightarrow> block_header list \<Rightarrow>
    block_header list \<Rightarrow> 'b delivery list \<Rightarrow> 'st \<times> update_error option \<Rightarrow> bool" where
  "loop_outcome S A hs ks ds res \<longleftrightarrow> (\<exists>hs'. store_inv S A hs' (fst res) \<and>
     (hs' = hs \<or> (\<exists>j\<le>length ds. hs' = hs @ ks @ map delivered (take j ds))) \<and>
     (snd res = None \<and> (\<forall>d\<in>set ds. \<not> dl_shutting_down d) \<longrightarrow> hs' = hs @ ks @ map delivered ds) \<and>
     (\<forall>e. snd res = Some (ReorgErr e) \<longrightarrow> (\<exists>j<length ds. hs' = hs @ ks @ map delivered (take j ds) \<and>
        detect_reorg A (ds ! j) (length hs') (db_content S (fst res)) = Inl e)))"

lemma loop_outcome_stop:
  assumes "store_inv S A hs st" and "\<And>e. r \<noteq> Some (ReorgErr e)" and "r \<noteq> None"
  shows "loop_outcome S A hs ks ds (st, r)"
  using assms unfolding loop_outcome_def by auto

text \<open>What holds after one more delivery holds before it.\<close>

lemma loop_outcome_step:
  assumes "loop_outcome S A hs' ks' ds res" and "hs' @ ks' = hs @ ks @ [delivered d]"
    and "hs' = hs \<or> hs' = hs @ ks @ [delivered d]"
  shows "loop_outcome S A hs ks (d # ds) res"
proof -
  from assms(1) obtain h where h: "store_inv S A h (fst res)"
    "h = hs' \<or> (\<exists>j\<le>length ds. h = hs' @ ks' @ map delivered (take j ds))"
    "snd res = None \<and> (\<forall>d\<in>set ds. \<not> dl_shutting_down d) \<longrightarrow> h = hs' @ ks' @ map delivered ds"
    "\<forall>e. snd res = Some (ReorgErr e) \<longrightarrow> (\<exists>j<length ds. h = hs' @ ks' @ map delivered (take j ds) \<and>
        detect_reorg A (ds ! j) (length h) (db_content S (fst res)) = Inl e)"
    unfolding loop_outcome_def by blast
  have eq: "hs' @ ks' @ map delivered (take j ds) = hs @ ks @ map delivered (take (Suc j) (d # ds))" for j
    using assms(2) by (metis append.assoc append_Cons append_Nil list.simps(9) take_Suc_Cons)
  have "h = hs \<or> (\<exists>j\<le>length (d # ds). h = hs @ ks @ map delivered (take j (d # ds)))"
    using h(2)
  proof (elim disjE exE conjE)
    assume "h = hs'"
    with assms(3) show ?thesis by (auto intro!: exI [of _ "Suc 0"])
  next
    fix j assume "j \<le> length ds" "h = hs' @ ks' @ map delivered (take j ds)"
    then show ?thesis using eq [of j] by (auto intro!: exI [of _ "Suc j"])
  qed
  moreover have "snd res = None \<and> (\<forall>d\<in>set (d # ds). \<not> dl_shutting_down d) \<longrightarrow> h = hs @ ks @ map delivered (d # ds)"
    using h(3) eq [of "length ds"] by auto
  moreover have "\<exists>j<length (d # ds). h = hs @ ks @ map delivered (take j (d # ds)) \<and>
      detect_reorg A ((d # ds) ! j) (length h) (db_content S (fst res)) = Inl e" if "snd res = Some (ReorgErr e)" for e
  proof -
    from h(4) that obtain j where "j < length ds" "h = hs' @ ks' @ map delivered (take j ds)"
      "detect_reorg A (ds ! j) (length h) (db_content S (fst res)) = Inl e" by blast
    then show ?thesis by (intro exI [of _ "Suc j"]) (simp add: eq)
  qed
  ultimately show ?thesis using h(1) unfolding loop_outcome_def by blast
qed

lemma indexed_timestamp [simp]: "indexed A hs (insert_timestamp h now db) = indexed A hs db"
  by (simp add: indexed_def insert_timestamp_def)

context index_store
begin

lemma commit_outcome:
  assumes "store_inv S A hs st" and "indexed A (hs @ ks @ map delivered ds) db" and "linked A (hs @ ks @ map delivered ds)"
    and "length (hs @ ks @ map delivered ds) \<le> u32_max" and "ds' = [] \<or> (\<exists>d\<in>set ds. dl_shutting_down d) \<or> snd (commit S A chain h db st) \<noteq> None"
  shows "loop_outcome S A hs ks (ds @ ds') (commit S A chain h db st)"
proof (cases "snd (commit S A chain h db st)")
  case None
  then have "store_inv S A (hs @ ks @ map delivered ds) (fst (commit S A chain h db st))"
    using commit_inv(2) [OF assms(1), of "ks @ map delivered ds"] assms(2-4) by blast
  with None assms(5) show ?thesis
    unfolding loop_outcome_def
    by (intro exI [of _ "hs @ ks @ map delivered ds"]) (auto intro!: exI [of _ "length ds"])
next
  case (Some e)
  moreover have "store_inv S A hs (fst (commit S A chain h db st)) \<or>
      store_inv S A (hs @ ks @ map delivered ds) (fst (commit S A chain h db st))"
    using commit_inv(1) [OF assms(1), of "ks @ map delivered ds"] assms(2-4) by blast
  ultimately show ?thesis
    using commit_no_reorg [of S A chain h db st] unfolding loop_outcome_def
    by (elim disjE) (force intro!: exI [of _ "length ds"])+
qed

lemma linked_next:
  assumes "store_inv S A hs st" and "linked A (hs @ ks)" and "detect_reorg A d (length (hs @ ks)) (db_content S st) = Inr ()"
    and "ks = [] \<or> prev_blockhash (delivered d) = header_hash A (last ks)"
  shows "linked A (hs @ ks @ [delivered d])"
proof (cases "ks = []")
  case True
  with assms detect_links [OF store_invD(3) [OF assms(1)]] show ?thesis by (simp add: linked_snoc)
next
  case False
  with assms show ?thesis using linked_snoc [of A "hs @ ks" "delivered d"] by auto
qed

lemma update_loop_outcome:
  assumes "store_inv S A hs st" and "indexed A (hs @ ks) db" and "linked A (hs @ ks)" and "length (hs @ ks) \<le> u32_max"
    and "linked A (map delivered ds)" and "ks = [] \<or> ds = [] \<or> prev_blockhash (delivered (hd ds)) = header_hash A (last ks)"
  shows "loop_outcome S A hs ks ds (update_loop S A C sh chain ds (length ks) (db, length (hs @ ks)) st)"
  using assms
proof (induction ds arbitrary: hs ks db st)
  case Nil
  show ?case
  proof (cases "ks = []")
    case True
    with Nil.prems(1) show ?thesis by (simp add: loop_outcome_def)
  next
    case False
    with commit_outcome [OF Nil.prems(1), of ks "[]" db "[]"] Nil.prems(2-4) show ?thesis by simp
  qed
next
  case (Cons d ds)
  let ?h = "length (hs @ ks)"
  show ?case
  proof (cases "updater_index_block A C (db_content S st) d (db, ?h)")
    case (Inl e)
    have reorg: "ks = [] \<and> detect_reorg A d ?h (db_content S st) = Inl e'" if "e = ReorgErr e'" for e'
      using index_block_reorg [OF Inl [unfolded that]] detect_blind [OF store_invD(3) [OF Cons.prems(1)], of ?h d]
      by (cases ks) auto
    have "loop_outcome S A hs ks (d # ds) (st, Some e)"
      unfolding loop_outcome_def
      by (intro exI [of _ hs]) (use Cons.prems(1) reorg in \<open>auto intro!: exI [of _ 0]\<close>)
    with Inl show ?thesis by simp
  next
    case (Inr r)
    obtain db' h' where r: "r = (db', h')" by fastforce
    note block = index_block_indexed [OF Inr [unfolded r] Cons.prems(2) refl]
    have h': "h' = length (hs @ ks @ [delivered d])" using block(2) by simp
    have chain: "linked A (hs @ ks @ [delivered d])"
      using linked_next [OF Cons.prems(1,3) block(4)] Cons.prems(6) by simp
    have ix: "indexed A (hs @ ks @ [delivered d]) db'" using block(1) by simp
    have len: "length (hs @ ks @ [delivered d]) \<le> u32_max" using block(3) h' by simp
    have rest: "linked A (map delivered ds)" "ds = [] \<or> prev_blockhash (delivered (hd ds)) = header_hash A (delivered d)"
      using Cons.prems(5) by (cases ds; auto simp: linked_Cons)+
    show ?thesis
    proof (cases "commit_interval C h' \<le> Suc (length ks) \<or> savepoint_due h' sh")
      case False
      have "loop_outcome S A hs (ks @ [delivered d]) ds
          (update_loop S A C sh chain ds (length (ks @ [delivered d])) (db', length (hs @ ks @ [delivered d])) st)"
        using Cons.IH [of hs st "ks @ [delivered d]" db'] Cons.prems(1) chain ix len rest by simp
      then have "loop_outcome S A hs ks (d # ds)
          (update_loop S A C sh chain ds (Suc (length ks)) (db', h') st)"
        using loop_outcome_step [of S A hs "ks @ [delivered d]" ds _ hs ks d] by (simp add: h')
      moreover have "loop_outcome S A hs ks (d # ds) (commit S A chain h' db' st)" if "dl_shutting_down d"
        using commit_outcome [OF Cons.prems(1), of ks "[d]" db' ds] chain ix len that by simp
      ultimately show ?thesis using False Inr by (simp add: r)
    next
      case True
      obtain st1 e where c: "commit S A (dl_chain d) h' db' st = (st1, e)" by fastforce
      have out: "loop_outcome S A hs ks (d # ds) (st1, e)" if "dl_shutting_down d \<or> e \<noteq> None"
        using commit_outcome [OF Cons.prems(1), of ks "[d]" db' ds "dl_chain d" h'] chain ix len that by (auto simp: c)
      let ?hs = "hs @ ks @ [delivered d]"
      have st1: "store_inv S A ?hs st1" if "e = None"
        using commit_inv(2) [OF Cons.prems(1), of "ks @ [delivered d]" db' "dl_chain d" h'] chain ix len that by (simp add: c)
      have n: "block_count (db_content S st1) = Inr h'" if "e = None"
        using indexed_count [OF store_invD(3,2) [OF st1 [OF that]]] by (simp add: h')
      show ?thesis
      proof (cases "dl_shutting_down d \<or> e \<noteq> None")
        case stop: True
        with True Inr out n show ?thesis by (auto simp: r c split: option.splits)
      next
        case go: False
        then have e: "e = None" by blast
        note st1 = st1 [OF e]
        have "loop_outcome S A ?hs [] ds (update_loop S A C sh chain ds (length []) (insert_timestamp h' (dl_now d) (db_content S st1), length (?hs @ [])) st1)"
          using Cons.IH [of ?hs st1 "[]" "insert_timestamp h' (dl_now d) (db_content S st1)"] st1 store_invD [OF st1] rest by simp
        then have "loop_outcome S A hs ks (d # ds) (update_loop S A C sh chain ds 0 (insert_timestamp h' (dl_now d) (db_content S st1), h') st1)"
          using loop_outcome_step [of S A ?hs "[]" ds _ hs ks d] by (simp add: h')
        with True Inr go n [OF e] show ?thesis by (simp add: r c)
      qed
    qed
  qed
qed

end

end
