(* ===== verification/Reorg_Properties.thy ===== *)
theory Reorg_Properties
  imports Reorg_Safety
begin

text \<open>
  What the update loop guarantees when the chain is reorganized: the states it can reach, where a
  rollback ends, and that following a node that has settled on a chain ends on that chain.
\<close>

section \<open>Rolling back\<close>

lemma saturating_Suc: "d \<le> h \<Longrightarrow> saturating_sub h d = h - d"
  by (simp add: saturating_sub_def)

lemma count_increment:
  "increment_statistic s n db = Inr db' \<Longrightarrow> s \<noteq> s' \<Longrightarrow> count_of s' db' = count_of s' db"
  by (cases s; cases s') (auto simp: increment_statistic_def res_simps count_of_def map_of_redb_insert)

definition keeps_generation :: "meta_table \<Rightarrow> meta_table \<Rightarrow> bool" where
  "keeps_generation m m' \<longleftrightarrow>
    (\<forall>i. map_of m META_DATABASE_ID = Some i \<longrightarrow> map_of m' META_DATABASE_ID = Some i) \<and>
    (\<forall>h. meta_height m META_CREATION_COVERAGE = Inr (Some h) \<longrightarrow>
       meta_height m' META_CREATION_COVERAGE = Inr (Some h))"

lemma reinstate_keeps:
  assumes "preserve_meta m = Inr p"
  shows "keeps_generation m (reinstate_meta p t)"
proof -
  from assms have i: "pm_database_id p = map_of m META_DATABASE_ID"
    and h: "meta_height m META_CREATION_COVERAGE = Inr (pm_creation_coverage_from p)"
    by (auto simp: preserve_meta_def read_meta_table_def res_simps split: option.splits if_splits)
  have "map_of (reinstate_meta p t) META_DATABASE_ID = Some i" if "map_of m META_DATABASE_ID = Some i" for i
    using i that by (auto simp: reinstate_meta_def Let_def map_of_redb_insert split: option.splits)
  moreover have "meta_height (reinstate_meta p t) META_CREATION_COVERAGE = Inr (Some n)"
    if "meta_height m META_CREATION_COVERAGE = Inr (Some n)" for n
  proof -
    have "n \<le> u32_max" using that from_be_bound(1)
      by (auto simp: meta_height_def split: option.splits if_splits)
    with h that show ?thesis by (auto simp: reinstate_meta_def Let_def meta_height_def map_of_redb_insert split: option.splits)
  qed
  ultimately show ?thesis by (simp add: keeps_generation_def)
qed

text \<open>What a rollback that succeeds has done.\<close>

definition rolled_back :: "('st, 'r index_db) savepoint_api \<Rightarrow> 'st \<Rightarrow> 'st \<Rightarrow> bool" where
  "rolled_back S st st' \<longleftrightarrow>
    count_of Reorgs (db_content S st') = Suc (count_of Reorgs (db_content S st)) \<and>
    (\<exists>i\<in>set (list_persistent_savepoints S st).
       (\<forall>j\<in>set (list_persistent_savepoints S st). i \<le> j) \<and>
       other_tables (db_content S st') = other_tables (savepoint_content S st i) \<and>
       dogemap_feed_journal (db_content S st') = dogemap_feed_journal (savepoint_content S st i)) \<and>
    keeps_generation (dogemap_feed_meta (db_content S st)) (dogemap_feed_meta (db_content S st'))"

context index_store
begin

lemma handle_reorg_kept:
  assumes "kept S A Q hs st" and "handle_reorg S h d st = Inr st'"
    and "\<And>hs db. Q hs db \<Longrightarrow> prefix_saved A hs db" and "\<And>hs db. indexed A hs db \<Longrightarrow> Q hs db"
  obtains n where "n \<le> length hs" "n \<le> Suc (saturating_sub h d)" "kept S A Q (take n hs) st'" "rolled_back S st st'"
proof -
  let ?ids = "set (list_persistent_savepoints S st)"
  let ?i = "Min ?ids"
  let ?st1 = "restore_savepoint S ?i st"
  from assms(2) obtain p n r db where pm: "preserve_meta (dogemap_feed_meta (db_content S st)) = Inr p"
    and ne: "list_persistent_savepoints S st \<noteq> []"
    and n: "block_count (db_content S ?st1) = Inr n" "n \<le> saturating_sub h d + 1"
    and inc: "increment_statistic Commits 1 ((db_content S ?st1)
        \<lparr>statistic_to_count := redb_insert (statistic_key Reorgs) (count_of Reorgs (db_content S st) + 1)
           (statistic_to_count (db_content S ?st1)),
         dogemap_feed_meta := reinstate_meta p (dogemap_feed_meta (db_content S ?st1))\<rparr>) = Inr db"
    and final: "st' = put_content S db ?st1"
    unfolding handle_reorg_def
    by (auto simp: res_simps Let_def not_less split: sum.splits if_splits)
  have i: "?i \<in> ?ids" using ne by (intro Min_in) auto
  from saved_all_restore(2) [OF kept_saved [OF assms(1)] i, THEN assms(3)] obtain k
    where k: "k \<le> length hs" "indexed A (take k hs) (db_content S ?st1)" by (auto simp: prefix_saved_def)
  have "k = n" using indexed_count [OF k(2)] n(1) keptD(1) [OF assms(1)] k(1) by simp
  have all: "saved_all (Q (take k hs)) ?st1"
  proof -
    have "Q (take k hs) (savepoint_content S st ?i)"
      using assms(4) [OF k(2)] by (simp add: content_restore [OF i])
    moreover have "set (list_persistent_savepoints S ?st1) = {?i}"
      using i Min_le [of ?ids] by (auto simp: ids_restore [OF i] intro: antisym)
    ultimately show ?thesis by (simp add: saved_all_def saved_restore [OF i])
  qed
  have "kept S A Q (take k hs) ?st1"
    using k all keptD [OF assms(1)] count_restore [OF i] by (intro keptI) auto
  moreover have "indexed A (take k hs) db"
    using k(2) increment_indexed [OF inc, of A "take k hs"] by (simp add: indexed_def)
  ultimately have "kept S A Q (take k hs) st'" unfolding final by (rule kept_put_same)
  moreover have "rolled_back S st st'"
  proof -
    have "count_of Reorgs db = Suc (count_of Reorgs (db_content S st))"
      using count_increment [OF inc, of Reorgs] by (simp add: count_of_def map_of_redb_insert)
    moreover have "other_tables db = other_tables (savepoint_content S st ?i)"
      "dogemap_feed_journal db = dogemap_feed_journal (savepoint_content S st ?i)"
      "dogemap_feed_meta db = reinstate_meta p (dogemap_feed_meta (db_content S ?st1))"
      using inc content_restore [OF i] by (auto simp: increment_statistic_def res_simps)
    moreover have "\<forall>j\<in>?ids. ?i \<le> j" by simp
    ultimately show ?thesis
      unfolding rolled_back_def final content_put using i reinstate_keeps [OF pm]
      by (auto intro!: bexI [of _ ?i])
  qed
  ultimately show thesis using that [of k] k(1) n(2) \<open>k = n\<close> by simp
qed

lemma handle_reorg_inv:
  assumes "store_inv S A hs st" and "handle_reorg S h d st = Inr st'"
  obtains n where "n \<le> length hs" "n \<le> Suc (saturating_sub h d)" "store_inv S A (take n hs) st'" "rolled_back S st st'"
proof -
  have "kept S A (prefix_saved A) hs st" using assms(1) by (simp add: store_inv_kept)
  from handle_reorg_kept [OF this assms(2) _ prefix_saved_self] obtain n where "n \<le> length hs"
    "n \<le> Suc (saturating_sub h d)" "kept S A (prefix_saved A) (take n hs) st'" "rolled_back S st st'" by blast
  then show thesis using assms(1) by (intro that [of n]) (auto simp: store_inv_kept linked_take)
qed

lemma update_index_outcome:
  assumes "store_inv S A hs st" and "linked A (map delivered (run_blocks r (length hs)))"
  shows "loop_outcome S A hs [] (run_blocks r (length hs)) (update_index S A C r (length hs) st)"
proof (cases "res_bind (lift_panic UpdatePanic (unwrap (try_from u32_max (get_block_count (run_chain r))))) (\<lambda>n.
          lift_panic UpdatePanic (add_or_panic u32_max n 1))")
  case (Inl e)
  then have "e \<noteq> ReorgErr x" for x by (auto simp: res_bind_def lift_panic_def split: sum.splits)
  with Inl assms(1) show ?thesis by (simp add: update_index_def loop_outcome_stop)
next
  case (Inr sh)
  with update_loop_outcome [of A hs st "[]" "insert_timestamp (length hs) (run_now r) (db_content S st)"
      "run_blocks r (length hs)"] assms store_invD [OF assms(1)]
  show ?thesis by (simp add: update_index_def)
qed

end

lemma handle_reorg_error: "handle_reorg S h d st = Inl (ReorgErr e) \<Longrightarrow> e = Unrecoverable"
  unfolding handle_reorg_def
  by (auto simp: res_bind_def lift_panic_def block_count_def increment_statistic_def Let_def
      split: sum.splits if_splits list.splits)

section \<open>What a detected reorganization says\<close>

lemma find_upt:
  assumes "List.find P [a..<b] = Some x"
  shows "P x" "a \<le> x" "x < b" "\<And>y. a \<le> y \<Longrightarrow> y < x \<Longrightarrow> \<not> P y"
proof -
  from assms obtain i where i: "i < b - a" "P (a + i)" "x = a + i" "\<forall>j<i. \<not> P (a + j)"
    by (auto simp: find_Some_iff)
  then show "P x" "a \<le> x" "x < b" by auto
  fix y assume "a \<le> y" "y < x"
  with i(3,4) show "\<not> P y" by (auto dest!: le_Suc_ex)
qed

lemma detect_recoverable:
  assumes "indexed A hs db" and "hs \<noteq> []" and "dl_chain d \<noteq> []" and "hs ! 0 = dl_chain d ! 0"
    and inj: "inj_on (header_hash A) (set hs \<union> set (dl_chain d))"
    and det: "detect_reorg A d (length hs) db = Inl (Recoverable h depth)"
  shows "h = length hs" "1 \<le> depth" "depth \<le> h" "h - depth < length (dl_chain d)"
    "hs ! (h - depth) = dl_chain d ! (h - depth)"
proof -
  let ?c = "dl_chain d"
  let ?P = "\<lambda>depth. block_hash_at db (checked_sub (length hs) depth) = get_block_hash A ?c (saturating_sub (length hs) depth)"
  from det have h: "h = length hs"
    and f: "List.find ?P [1..<(MAX_SAVEPOINTS - 1) * SAVEPOINT_INTERVAL + length hs mod SAVEPOINT_INTERVAL] = Some depth"
    by (auto simp: detect_reorg_def Let_def split: option.splits if_splits)
  note find = find_upt [OF f]
  have "?P (length hs)"
    using assms(2-4) by (simp add: checked_sub_def saturating_sub_def indexed_hash_at [OF assms(1)] get_block_hash_def)
  then have le: "depth \<le> length hs"
    using find(4) [of "length hs"] assms(2) by (cases "length hs < depth") (auto simp: Suc_le_eq)
  then have "length hs - depth < length hs" using find(2) by simp
  with find(1) le have in_c: "length hs - depth < length ?c"
    and "header_hash A (hs ! (length hs - depth)) = header_hash A (?c ! (length hs - depth))"
    by (auto simp: checked_sub_def saturating_sub_def indexed_hash_at [OF assms(1)] get_block_hash_def split: if_splits)
  moreover have "hs ! (length hs - depth) \<in> set hs" "?c ! (length hs - depth) \<in> set ?c"
    using in_c \<open>length hs - depth < length hs\<close> by simp_all
  ultimately have "hs ! (length hs - depth) = ?c ! (length hs - depth)" using inj by (auto dest: inj_onD)
  with h find(2) le in_c show "h = length hs" "1 \<le> depth" "depth \<le> h" "h - depth < length ?c"
    "hs ! (h - depth) = ?c ! (h - depth)" by simp_all
qed

lemma detect_on_chain:
  assumes "indexed A (take k c) db" and "linked A c" and "k < length c" and "delivered d = c ! k"
  shows "detect_reorg A d k db = Inr ()"
proof (cases k)
  case 0
  with assms(1) show ?thesis by (simp add: detect_reorg_def checked_sub_def block_hash_at_def indexed_def)
next
  case (Suc n)
  with assms have "prev_blockhash (delivered d) = header_hash A (c ! n)" by (simp add: linked_def)
  moreover have "block_hash_at db (checked_sub k 1) = Some (header_hash A (c ! n))"
    using assms(3) Suc by (simp add: checked_sub_def indexed_hash_at [OF assms(1)])
  ultimately show ?thesis by (simp add: detect_reorg_def)
qed

text \<open>The rollback that a detected reorganization calls for ends on a prefix of the node's chain.\<close>

context index_store
begin

lemma rollback_prefix:
  assumes "store_inv S A hs st" and "linked A (dl_chain d)" and "dl_chain d \<noteq> []" and "hs = [] \<or> hs ! 0 = dl_chain d ! 0"
    and "inj_on (header_hash A) (set hs \<union> set (dl_chain d))"
    and "detect_reorg A d (length hs) (db_content S st) = Inl (Recoverable h depth)"
    and "handle_reorg S h depth st = Inr st'"
  obtains n where "n \<le> length hs" "n \<le> length (dl_chain d)" "take n (dl_chain d) = take n hs"
    "store_inv S A (take n (dl_chain d)) st'" "rolled_back S st st'"
proof -
  have ne: "hs \<noteq> []"
    using assms(6) store_invD(3) [OF assms(1)]
    by (auto simp: detect_reorg_def checked_sub_def block_hash_at_def indexed_def)
  note rec = detect_recoverable [OF store_invD(3) [OF assms(1)] ne assms(3) _ assms(5,6)]
  from handle_reorg_inv [OF assms(1,7)] obtain n where n: "n \<le> length hs" "n \<le> Suc (saturating_sub h depth)"
    "store_inv S A (take n hs) st'" "rolled_back S st st'" .
  have agree: "take (Suc (h - depth)) hs = take (Suc (h - depth)) (dl_chain d)"
    using rec ne assms(4) store_invD(1) [OF assms(1)] by (intro linked_agree [OF _ assms(2,5)]) auto
  have le: "n \<le> Suc (h - depth)" using n(2) rec(3) ne assms(4) by (simp add: saturating_sub_def)
  then have "take n hs = take n (dl_chain d)"
    using arg_cong [OF agree, of "take n"] by (simp add: min_absorb1)
  with n le rec(4) ne assms(4) show thesis by (intro that [of n]) auto
qed

end

section \<open>Reachable states\<close>

text \<open>
  Any sequence of calls of \<open>update_index\<close>, with whatever blocks and chains the node delivers, and of
  rollbacks, from a database without blocks.
\<close>

inductive index_reachable :: "('st, 'r index_db) savepoint_api \<Rightarrow> ('b, 'r) block_api \<Rightarrow> index_config \<Rightarrow> 'st \<Rightarrow> bool"
  for S A C where
  fresh: "height_to_block_hash (db_content S st) = [] \<Longrightarrow> list_persistent_savepoints S st = [] \<Longrightarrow>
    index_reachable S A C st"
| updated: "index_reachable S A C st \<Longrightarrow> block_count (db_content S st) = Inr h \<Longrightarrow>
    update_index S A C r h st = (st', e) \<Longrightarrow> index_reachable S A C st'"
| rolled: "index_reachable S A C st \<Longrightarrow> handle_reorg S h depth st = Inr st' \<Longrightarrow> index_reachable S A C st'"

text \<open>
  A savepoint is a cut of the indexed blocks: a beginning of them, and the next block, if there is one,
  names the last block of the beginning. Inside a write transaction blocks need not be linked, but
  savepoints are only taken at its end, and the first block of the next one is compared with what was
  committed.
\<close>

definition joins :: "('b, 'r) block_api \<Rightarrow> block_header list \<Rightarrow> block_header list \<Rightarrow> bool" where
  "joins A hs ks \<longleftrightarrow> hs = [] \<or> ks = [] \<or> prev_blockhash (hd ks) = header_hash A (last hs)"

definition cut_saved :: "('b, 'r) block_api \<Rightarrow> block_header list \<Rightarrow> 'r index_db \<Rightarrow> bool" where
  "cut_saved A hs db \<longleftrightarrow> (\<exists>n\<le>length hs. indexed A (take n hs) db \<and> joins A (take n hs) (drop n hs))"

lemma cut_saved_self: "indexed A hs db \<Longrightarrow> cut_saved A hs db"
  by (auto simp: cut_saved_def joins_def intro!: exI [of _ "length hs"])

lemma cut_saved_prefix: "cut_saved A hs db \<Longrightarrow> prefix_saved A hs db"
  by (auto simp: cut_saved_def prefix_saved_def)

lemma cut_saved_append:
  assumes "cut_saved A hs db" and "joins A hs ks"
  shows "cut_saved A (hs @ ks) db"
proof -
  from assms(1) obtain n where n: "n \<le> length hs" "indexed A (take n hs) db" "joins A (take n hs) (drop n hs)"
    by (auto simp: cut_saved_def)
  have "joins A (take n hs) (drop n hs @ ks)"
    using n assms(2) by (cases "n = length hs") (auto simp: joins_def)
  with n show ?thesis unfolding cut_saved_def by (intro exI [of _ n]) simp
qed

context index_store
begin

lemma update_loop_kept:
  assumes "kept S A (cut_saved A) hs st" and "indexed A (hs @ ks) db" and "length (hs @ ks) \<le> u32_max" and "joins A hs ks"
  shows "\<exists>hs'. kept S A (cut_saved A) hs' (fst (update_loop S A C sh chain ds (length ks) (db, length (hs @ ks)) st))"
  using assms
proof (induction ds arbitrary: hs ks db st)
  case Nil
  note c = kept_commit(1) [OF Nil.prems(1-3) cut_saved_append [OF _ Nil.prems(4)] cut_saved_self]
  show ?case using c [of chain "length (hs @ ks)"] Nil.prems(1) by auto
next
  case (Cons d ds)
  let ?h = "length (hs @ ks)"
  show ?case
  proof (cases "updater_index_block A C (db_content S st) d (db, ?h)")
    case (Inl e)
    with Cons.prems(1) show ?thesis by auto
  next
    case (Inr r)
    obtain db' h' where r: "r = (db', h')" by fastforce
    note block = index_block_indexed [OF Inr [unfolded r] Cons.prems(2) refl]
    let ?ks = "ks @ [delivered d]"
    have h': "h' = length (hs @ ?ks)" using block(2) by simp
    have ix: "indexed A (hs @ ?ks) db'" and len: "length (hs @ ?ks) \<le> u32_max" using block(1,3) h' by simp_all
    have j: "joins A hs ?ks"
      using Cons.prems(4) detect_links [OF keptD(2) [OF Cons.prems(1)], of d] block(4) by (cases ks) (auto simp: joins_def)
    note c = kept_commit [OF Cons.prems(1) ix len cut_saved_append [OF _ j] cut_saved_self]
    have c1: "\<exists>hs'. kept S A (cut_saved A) hs' (fst (commit S A chain' h'' db' st))" for chain' h''
      using c(1) by blast
    have go: "\<exists>hs'. kept S A (cut_saved A) hs' (fst (update_loop S A C sh chain ds (Suc (length ks)) (db', h') st))"
      using Cons.IH [OF Cons.prems(1) ix len j] h' by simp
    have next_batch: "\<exists>hs'. kept S A (cut_saved A) hs' (fst (update_loop S A C sh chain ds 0 (insert_timestamp h' now (db_content S st1), h') st1))"
      if "commit S A chain' h' db' st = (st1, None)" for chain' st1 now
    proof -
      have k1: "kept S A (cut_saved A) (hs @ ?ks) st1" using c(2) [of chain' h'] that by simp
      from Cons.IH [OF k1, of "[]" "insert_timestamp h' now (db_content S st1)"] keptD [OF k1] show ?thesis
        by (simp add: h' joins_def)
    qed
    show ?thesis
      using Inr r c1 go next_batch
      by (auto simp: r split: prod.splits option.splits sum.splits) (metis fst_conv)+
  qed
qed

lemma update_index_kept:
  assumes "kept S A (cut_saved A) hs st"
  shows "\<exists>hs'. kept S A (cut_saved A) hs' (fst (update_index S A C r (length hs) st))"
  using update_loop_kept [OF assms, of "[]" "insert_timestamp (length hs) (run_now r) (db_content S st)"] keptD [OF assms] assms
  by (auto simp: update_index_def joins_def split: sum.splits)

lemma reachable_kept: "index_reachable S A C st \<Longrightarrow> \<exists>hs. kept S A (cut_saved A) hs st"
proof (induction rule: index_reachable.induct)
  case (fresh st)
  then have "kept S A (cut_saved A) [] st" by (simp add: kept_def indexed_def)
  then show ?case ..
next
  case (updated st h r st' e)
  then obtain hs where hs: "kept S A (cut_saved A) hs st" by blast
  with updated.hyps(2) have "h = length hs" using indexed_count [OF keptD(2,1) [OF hs]] by simp
  with update_index_kept [OF hs, of C r] updated.hyps(3) show ?case by simp
next
  case (rolled st h depth st')
  then obtain hs where "kept S A (cut_saved A) hs st" by blast
  from handle_reorg_kept [OF this rolled.hyps(2) cut_saved_prefix cut_saved_self] show ?case by blast
qed

end

text \<open>
  C7: in every state the index can reach by updating and rolling back, from a database without blocks and
  whatever blocks the node delivers: the heights of the indexed blocks run from 0 without a gap, there
  are at most five savepoints, every savepoint holds a beginning of the indexed blocks, and the block
  that follows this beginning in the index names its last block.
\<close>

theorem savepoints_are_cuts:
  assumes "index_store S" and "index_reachable S A C st"
  shows "\<exists>hs. height_to_block_hash (db_content S st) = enumerate 0 (map (header_hash A) hs) \<and>
    length (list_persistent_savepoints S st) \<le> 5 \<and>
    (\<forall>i\<in>set (list_persistent_savepoints S st). \<exists>n\<le>length hs.
       height_to_block_hash (savepoint_content S st i) = enumerate 0 (map (header_hash A) (take n hs)) \<and>
       (0 < n \<and> n < length hs \<longrightarrow> prev_blockhash (hs ! n) = header_hash A (hs ! (n - 1))))"
proof -
  obtain hs where hs: "kept S A (cut_saved A) hs st" using index_store.reachable_kept [OF assms] by blast
  have "\<exists>n\<le>length hs. height_to_block_hash db = enumerate 0 (map (header_hash A) (take n hs)) \<and>
      (0 < n \<and> n < length hs \<longrightarrow> prev_blockhash (hs ! n) = header_hash A (hs ! (n - 1)))" if "cut_saved A hs db" for db
  proof -
    from that obtain n where n: "n \<le> length hs" "indexed A (take n hs) db" "joins A (take n hs) (drop n hs)"
      by (auto simp: cut_saved_def)
    have "prev_blockhash (hs ! n) = header_hash A (hs ! (n - 1))" if "0 < n" "n < length hs"
    proof -
      have "last (take n hs) = hs ! (n - 1)" using that by (subst last_conv_nth) (auto simp: min_def)
      with n(3) that show ?thesis by (auto simp: joins_def hd_drop_conv_nth)
    qed
    with n(1,2) show ?thesis by (auto simp: indexed_def)
  qed
  with hs show ?thesis
    unfolding kept_def by (intro exI [of _ hs]) (auto simp: indexed_def MAX_SAVEPOINTS_def)
qed


section \<open>Following a node that has settled\<close>

text \<open>A run in which the node's chain does not change, and the process is not asked to stop.\<close>

definition stable_run :: "block_header list \<Rightarrow> 'b run \<Rightarrow> bool" where
  "stable_run c r \<longleftrightarrow> (\<forall>h. map delivered (run_blocks r h) = drop h c \<and>
     (\<forall>d\<in>set (run_blocks r h). dl_chain d = c \<and> \<not> dl_shutting_down d))"

lemma stable_delivery:
  assumes "stable_run c r" and "j < length (run_blocks r h)"
  shows "delivered (run_blocks r h ! j) = c ! (h + j)" "h + j < length c" "dl_chain (run_blocks r h ! j) = c"
proof -
  have m: "map delivered (run_blocks r h) = drop h c" using assms(1) by (simp add: stable_run_def)
  then have "length (run_blocks r h) = length c - h" by (metis length_drop length_map)
  then show "h + j < length c" using assms(2) by simp
  then show "delivered (run_blocks r h ! j) = c ! (h + j)"
    using arg_cong [OF m, of "\<lambda>xs. xs ! j"] assms(2) by simp
  show "dl_chain (run_blocks r h ! j) = c" using assms nth_mem unfolding stable_run_def by blast
qed

context index_store
begin

text \<open>From a beginning of the node's chain, an update reports no reorganization.\<close>

lemma settled_update:
  assumes "store_inv S A (take n c) st" and "n \<le> length c" and "linked A c" and "stable_run c r"
  obtains st' e where "update_index S A C r n st = (st', e)" "\<And>x. e \<noteq> Some (ReorgErr x)"
    "e = None \<Longrightarrow> indexed A c (db_content S st')"
proof -
  have ds: "map delivered (run_blocks r n) = drop n c" "\<forall>d\<in>set (run_blocks r n). \<not> dl_shutting_down d"
    using assms(4) by (simp_all add: stable_run_def)
  obtain st' e where u: "update_index S A C r n st = (st', e)" by fastforce
  have "loop_outcome S A (take n c) [] (run_blocks r n) (st', e)"
    using update_index_outcome [OF assms(1), of r C] assms(2) linked_drop [OF assms(3)] ds(1) u by (simp add: min_absorb2)
  then obtain hs where hs: "store_inv S A hs st'" "e = None \<longrightarrow> hs = take n c @ drop n c"
    "\<And>x. e = Some (ReorgErr x) \<Longrightarrow> \<exists>j<length (run_blocks r n). hs = take n c @ map delivered (take j (run_blocks r n)) \<and>
        detect_reorg A (run_blocks r n ! j) (length hs) (db_content S st') = Inl x"
    using ds unfolding loop_outcome_def by auto
  have "e \<noteq> Some (ReorgErr x)" for x
  proof
    assume "e = Some (ReorgErr x)"
    with hs(3) obtain j where j: "j < length (run_blocks r n)"
      "hs = take n c @ map delivered (take j (run_blocks r n))"
      "detect_reorg A (run_blocks r n ! j) (length hs) (db_content S st') = Inl x" by blast
    have "hs = take (n + j) c" using j(2) by (simp add: take_map ds(1) take_add flip: take_map)
    moreover have "length hs = n + j" using j(1,2) assms(2) by simp
    ultimately show False
      using detect_on_chain [of A "n + j" c "db_content S st'" "run_blocks r n ! j"] store_invD(3) [OF hs(1)] assms(3) j(3)
        stable_delivery [OF assms(4) j(1)] by simp
  qed
  moreover have "e = None \<Longrightarrow> indexed A c (db_content S st')" using hs(2) store_invD(3) [OF hs(1)] by simp
  ultimately show thesis using that u by blast
qed

end

lemma linked_same:
  assumes "linked A hs" and "linked A c" and "inj_on (header_hash A) (set hs \<union> set c)"
    and "length hs = length c" and "c \<noteq> []" and "last hs = last c"
  shows "hs = c"
proof -
  let ?n = "length c - 1"
  have n: "Suc ?n = length c" using assms(5) by simp
  have "hs \<noteq> []" using assms(4,5) by auto
  then have "hs ! ?n = c ! ?n" using assms(4-6) by (simp add: last_conv_nth)
  then have "take (Suc ?n) hs = take (Suc ?n) c"
    using n assms(4) by (intro linked_agree [OF assms(1-3)]) auto
  then show ?thesis unfolding n using assms(4) by simp
qed

text \<open>
  C5: following a node that has settled on a longer chain ends. Whatever chain the index is on, as long
  as it has the node's first block, \<open>Index::update\<close> returns after at most one rollback: the second run
  never starts a third. If it returns without an error, the index holds the node's chain, all of it and
  nothing else; and the only reorganization it ever reports to its caller is an unrecoverable one, and
  then the index is marked as such.
\<close>

theorem update_settles:
  assumes "index_store S" and "store_inv S A hs st" and "linked A c" and "hs = [] \<or> hs ! 0 = c ! 0"
    and "length hs < length c" and "inj_on (header_hash A) (set hs \<union> set c)"
    and "stable_run c r1" and "stable_run c r2"
  shows "\<exists>st' e flag. index_update S A C [r1, r2] st = Some (st', e, flag) \<and>
    (e = None \<longrightarrow> height_to_block_hash (db_content S st') = enumerate 0 (map (header_hash A) c) \<and> \<not> flag) \<and>
    (\<forall>x. e = Some (ReorgErr x) \<longrightarrow> x = Unrecoverable \<and> flag)"
proof -
  let ?ds = "run_blocks r1 (length hs)"
  have ds: "map delivered ?ds = drop (length hs) c" "\<forall>d\<in>set ?ds. \<not> dl_shutting_down d"
    using assms(7) by (simp_all add: stable_run_def)
  have n: "block_count (db_content S st) = Inr (length hs)"
    using indexed_count [OF store_invD(3,2) [OF assms(2)]] .
  obtain st1 e where u: "update_index S A C r1 (length hs) st = (st1, e)" by fastforce
  have "loop_outcome S A hs [] ?ds (st1, e)"
    using index_store.update_index_outcome [OF assms(1,2), of r1 C] linked_drop [OF assms(3), of "length hs"] ds(1) u by simp
  then obtain hs1 where hs1: "store_inv S A hs1 st1" "e = None \<Longrightarrow> hs1 = hs @ drop (length hs) c"
    "\<And>x. e = Some (ReorgErr x) \<Longrightarrow> \<exists>j<length ?ds. hs1 = hs @ map delivered (take j ?ds) \<and>
        detect_reorg A (?ds ! j) (length hs1) (db_content S st1) = Inl x"
    using ds unfolding loop_outcome_def by auto
  show ?thesis
  proof (cases "\<exists>h depth. e = Some (ReorgErr (Recoverable h depth))")
    case False
    have whole: "indexed A c (db_content S st1)" if "e = None"
    proof -
      have "last (hs @ drop (length hs) c) = last c" "c \<noteq> []" using assms(5) by (auto simp: last_drop)
      moreover have "inj_on (header_hash A) (set (hs @ drop (length hs) c) \<union> set c)"
        using assms(6) by (rule inj_on_subset) (auto dest: in_set_dropD)
      ultimately have "hs1 = c"
        unfolding hs1(2) [OF that] using store_invD(1) [OF hs1(1)] hs1(2) [OF that] assms(3,5)
        by (intro linked_same) auto
      with store_invD(3) [OF hs1(1)] show ?thesis by simp
    qed
    show ?thesis
    proof (cases e)
      case None
      with n u whole show ?thesis by (auto simp: indexed_def)
    next
      case (Some x)
      with False n u show ?thesis by (cases x) (auto split: reorg_error.splits)
    qed
  next
    case True
    then obtain h depth where e: "e = Some (ReorgErr (Recoverable h depth))" by blast
    from hs1(3) [OF e] obtain j where j: "j < length ?ds" "hs1 = hs @ map delivered (take j ?ds)"
      "detect_reorg A (?ds ! j) (length hs1) (db_content S st1) = Inl (Recoverable h depth)" by blast
    note chain = stable_delivery [OF assms(7) j(1)]
    have c0: "hs1 = [] \<or> hs1 ! 0 = c ! 0"
    proof (cases "hs = []")
      case True
      then have "hs1 = take j c" using j(2) ds(1) by (simp flip: take_map)
      then show ?thesis by (cases j) simp_all
    next
      case False
      with assms(4) show ?thesis by (simp add: j(2) nth_append)
    qed
    have "hs1 = hs @ take j (drop (length hs) c)" using j(2) ds(1) by (simp flip: take_map)
    then have sub: "inj_on (header_hash A) (set hs1 \<union> set c)"
      using assms(6) by (elim inj_on_subset) (auto dest: in_set_takeD in_set_dropD)
    show ?thesis
    proof (cases "handle_reorg S h depth st1")
      case (Inl x)
      with n u e handle_reorg_error [of S h depth st1] show ?thesis by auto
    next
      case (Inr st2)
      have "c \<noteq> []" using assms(5) by auto
      from index_store.rollback_prefix [OF assms(1) hs1(1), of "?ds ! j", unfolded chain(3), OF assms(3) this c0 sub j(3) Inr]
      obtain k where k: "k \<le> length c" "store_inv S A (take k c) st2" by blast
      have k_count: "block_count (db_content S st2) = Inr k"
        using indexed_count [OF store_invD(3,2) [OF k(2)]] k(1) by (simp add: min_absorb2)
      from index_store.settled_update [OF assms(1) k(2,1) assms(3,8), of C] obtain st3 e3
        where "update_index S A C r2 k st2 = (st3, e3)" "\<And>x. e3 \<noteq> Some (ReorgErr x)"
          "e3 = None \<Longrightarrow> indexed A c (db_content S st3)" by blast
      with n u e Inr k_count show ?thesis
        by (cases e3) (auto simp: indexed_def split: update_error.splits)
    qed
  qed
qed

section \<open>A small reorganization\<close>

text \<open>Headers with one-byte hashes; the node has replaced the second block by two others.\<close>

definition sample_header :: "byte \<Rightarrow> byte \<Rightarrow> block_header" where
  "sample_header h p = \<lparr>prev_blockhash = [p], header_rest = [h]\<rparr>"

definition old_chain :: "block_header list" where
  "old_chain = [sample_header 1 0, sample_header 2 1]"

definition new_chain :: "block_header list" where
  "new_chain = [sample_header 1 0, sample_header 3 1, sample_header 4 3]"

definition sample_blocks :: "(unit, unit) block_api" where
  "sample_blocks = \<lparr>header_hash = header_rest, index_other = (\<lambda>h b r. Some (r, [])),
     flush_other = (\<lambda>r. (r, 0, 0)), feed_wire = bitcoin_wire, fresh_id = replicate 16 7\<rparr>"

definition sample_config :: index_config where
  "sample_config = \<lparr>cfg_index_sats = False, cfg_index_dunes = False, cfg_first_inscription_height = 0,
     cfg_first_dune_height = 0\<rparr>"

definition sample_db :: "block_header list \<Rightarrow> unit index_db" where
  "sample_db hs = \<lparr>height_to_block_hash = enumerate 0 (map header_rest hs), statistic_to_count = [],
     dogemap_feed_meta = [], dogemap_feed_journal = [], starting_timestamps = [], other_tables = ()\<rparr>"

definition sample_file :: "unit index_db redb_file" where
  "sample_file = \<lparr>rf_content = sample_db old_chain, rf_savepoints = [(1, sample_db (take 1 old_chain))]\<rparr>"

definition sample_delivery :: "block_header \<Rightarrow> unit delivery" where
  "sample_delivery b = \<lparr>dl_block = \<lparr>bd_header = b, bd_txdata = []\<rparr>, dl_chain = new_chain, dl_now = 0,
     dl_shutting_down = False\<rparr>"

definition sample_run :: "unit run" where
  "sample_run = \<lparr>run_chain = new_chain, run_now = 0, run_blocks = (\<lambda>h. map sample_delivery (drop h new_chain)),
     run_end_chain = new_chain\<rparr>"

lemma redb_content [simp]: "db_content redb_savepoints f = rf_content f"
  and redb_ids [simp]: "list_persistent_savepoints redb_savepoints f = remdups (map fst (rf_savepoints f))"
  by (simp_all add: redb_savepoints_def)

lemmas sample_chain_defs = sample_blocks_def old_chain_def new_chain_def sample_header_def

lemma sample_linked: "linked sample_blocks old_chain" "linked sample_blocks new_chain"
  by (simp_all add: linked_Cons sample_chain_defs)

lemma sample_inj: "inj_on (header_hash sample_blocks) (set old_chain \<union> set new_chain)"
  by (auto simp: inj_on_def sample_chain_defs)

lemma sample_inv: "store_inv redb_savepoints sample_blocks old_chain sample_file"
  using sample_linked(1)
  by (auto simp: store_inv_def redb_savepoints_def sample_file_def sample_db_def indexed_def prefix_saved_def
      sample_blocks_def old_chain_def MAX_SAVEPOINTS_def u32_max_def intro!: exI [of _ 1])

lemma sample_stable: "stable_run new_chain sample_run"
  by (auto simp: stable_run_def sample_run_def sample_delivery_def comp_def)

theorem savepoints_are_cuts_witness:
  "\<exists>f hs. f = fst (update_index redb_savepoints sample_blocks sample_config sample_run 0
      \<lparr>rf_content = sample_db [], rf_savepoints = []\<rparr>) \<and>
    height_to_block_hash (db_content redb_savepoints f) = enumerate 0 (map (header_hash sample_blocks) hs) \<and>
    length (list_persistent_savepoints redb_savepoints f) \<le> 5"
proof -
  let ?f = "\<lparr>rf_content = sample_db [], rf_savepoints = []\<rparr>"
  have "index_reachable redb_savepoints sample_blocks sample_config ?f"
    by (rule fresh) (simp_all add: sample_db_def)
  from updated [OF this, of 0 sample_run, OF _ prod.collapse [symmetric]]
  have "index_reachable redb_savepoints sample_blocks sample_config
      (fst (update_index redb_savepoints sample_blocks sample_config sample_run 0 ?f))"
    by (simp add: sample_db_def block_count_def)
  from savepoints_are_cuts [OF ri.index_store_axioms this] show ?thesis by blast
qed


theorem update_settles_witness:
  "\<exists>f e flag. index_update redb_savepoints sample_blocks sample_config [sample_run, sample_run] sample_file = Some (f, e, flag) \<and>
    (e = None \<longrightarrow> height_to_block_hash (rf_content f) = enumerate 0 (map header_rest new_chain))"
proof -
  have "old_chain = [] \<or> old_chain ! 0 = new_chain ! 0" "length old_chain < length new_chain"
    by (simp_all add: old_chain_def new_chain_def)
  from update_settles [OF ri.index_store_axioms sample_inv sample_linked(2) this sample_inj sample_stable sample_stable,
      of sample_config]
  have "\<exists>f e flag. index_update redb_savepoints sample_blocks sample_config [sample_run, sample_run] sample_file = Some (f, e, flag) \<and>
      (e = None \<longrightarrow> height_to_block_hash (db_content redb_savepoints f) = enumerate 0 (map (header_hash sample_blocks) new_chain))"
    by blast
  then show ?thesis by (simp only: redb_content) (simp add: sample_blocks_def del: index_update.simps)
qed

end
