(* ===== verification/Feed_Wire.thy ===== *)
theory Feed_Wire
  imports Bytes Text Table "HOL-Library.Multiset"
begin

text \<open>
  The wire contract of the Dogemap feed (\<open>src/dogemap_feed.rs\<close>): the request parameters it accepts, the
  canonical JSON text that its digests are taken of, and the cursors that pages of events are linked by.
  Strings are lists of code points. A JSON object is the list of its members, with distinct names; the
  kind of number a JSON number is does not matter, since a number is refused. The base64 text of bytes is
  the base64 crate's: the record \<open>base64_api\<close>.
\<close>

section \<open>Request parameters\<close>

definition is_digit :: "rchar \<Rightarrow> bool" where
  "is_digit c \<longleftrightarrow> 48 \<le> c \<and> c \<le> 57"

definition parse_decimal_u64 :: "rchar list \<Rightarrow> u64 option" where
  "parse_decimal_u64 s =
    (let valid = (case s of
         [] \<Rightarrow> False
       | first # rest \<Rightarrow> s = [48] \<or> 49 \<le> first \<and> first \<le> 57 \<and> list_all is_digit rest \<and> length s \<le> 20)
     in if valid then parse_uint u64_max s else None)"

definition parse_decimal_u32 :: "rchar list \<Rightarrow> u32 option" where
  "parse_decimal_u32 s = Option.bind (parse_decimal_u64 s) (try_from u32_max)"

definition is_lower_hex :: "rchar list \<Rightarrow> nat \<Rightarrow> bool" where
  "is_lower_hex s len \<longleftrightarrow> length s = len \<and> list_all (\<lambda>b. is_digit b \<or> 97 \<le> b \<and> b \<le> 102) s"

definition parse_inscription_id :: "rchar list \<Rightarrow> (rchar list \<times> u32) option" where
  "parse_inscription_id s =
    Option.bind (split_once 105 s) (\<lambda>(txid, index).
      if \<not> is_lower_hex txid 64 then None
      else Option.bind (parse_decimal_u32 index) (\<lambda>n. Some (txid, n)))"

section \<open>Canonical JSON\<close>

datatype json =
    JNull
  | JBool bool
  | JNumber "rchar list"
  | JString "rchar list"
  | JArray "json list"
  | JObject "(rchar list \<times> json) list"

datatype rfc8785_error = JsonNumber

text \<open>\<open>encode_utf16\<close>: one unit, or a surrogate pair.\<close>

definition encode_utf16 :: "rchar list \<Rightarrow> nat list" where
  "encode_utf16 s = concat (map (\<lambda>c. if c < 0x10000 then [c]
     else [0xD800 + (c - 0x10000) div 0x400, 0xDC00 + (c - 0x10000) mod 0x400]) s)"

definition hex4 :: "nat \<Rightarrow> rchar list" where
  "hex4 n = map (\<lambda>i. let d = n div 16 ^ i mod 16 in if d < 10 then 48 + d else 87 + d) [3, 2, 1, 0]"

definition write_char :: "rchar \<Rightarrow> rchar list" where
  "write_char c =
    (if c = 34 then [92, 34]
     else if c = 92 then [92, 92]
     else if c = 8 then [92, 98]
     else if c = 12 then [92, 102]
     else if c = 10 then [92, 110]
     else if c = 13 then [92, 114]
     else if c = 9 then [92, 116]
     else if c < 0x20 then [92, 117] @ hex4 c
     else [c])"

definition write_string :: "rchar list \<Rightarrow> rchar list" where
  "write_string s = [34] @ concat (map write_char s) @ [34]"

text \<open>The members of an object in the order of the UTF-16 units of their names.\<close>

definition sort_members :: "(rchar list \<times> json) list \<Rightarrow> (rchar list \<times> json) list" where
  "sort_members ms = sort_key (\<lambda>m. encode_utf16 (fst m)) ms"

lemma size_insort_key [termination_simp]:
  "size_list f (insort_key k x xs) = size_list f (x # xs)"
  by (induction xs) auto

lemma size_sort_members [termination_simp]: "size_list f (sort_members ms) = size_list f ms"
  unfolding sort_members_def by (induction ms) (simp_all add: size_insort_key)

fun write_value :: "json \<Rightarrow> rfc8785_error + rchar list"
  and write_items :: "json list \<Rightarrow> rfc8785_error + rchar list"
  and write_members :: "(rchar list \<times> json) list \<Rightarrow> rfc8785_error + rchar list" where
  "write_value JNull = Inr (str ''null'')"
| "write_value (JBool b) = Inr (if b then str ''true'' else str ''false'')"
| "write_value (JNumber n) = Inl JsonNumber"
| "write_value (JString s) = Inr (write_string s)"
| "write_value (JArray vs) = res_bind (write_items vs) (\<lambda>t. Inr ([91] @ t @ [93]))"
| "write_value (JObject ms) = res_bind (write_members (sort_members ms)) (\<lambda>t. Inr ([123] @ t @ [125]))"
| "write_items [] = Inr []"
| "write_items (v # vs) =
    res_bind (write_value v) (\<lambda>t. res_bind (write_items vs) (\<lambda>ts.
      Inr (t @ (if vs = [] then [] else [44]) @ ts)))"
| "write_members [] = Inr []"
| "write_members ((k, v) # ms) =
    res_bind (write_value v) (\<lambda>t. res_bind (write_members ms) (\<lambda>ts.
      Inr (write_string k @ [58] @ t @ (if ms = [] then [] else [44]) @ ts)))"

definition rfc8785 :: "json \<Rightarrow> rfc8785_error + rchar list" where
  "rfc8785 v = write_value v"

section \<open>The digest of a block's events\<close>

definition FEED_VERSION :: "rchar list" where "FEED_VERSION = str ''dogemap-feed-v1''"
definition PARSER_PROFILE :: "rchar list" where "PARSER_PROFILE = str ''doginals-trac-1.0.2-compat-v1''"
definition ORDER_PROFILE :: "rchar list" where "ORDER_PROFILE = str ''ord-dogecoin-inscription-number-v1''"
definition CANDIDATE_FILTER :: "rchar list" where "CANDIDATE_FILTER = str ''dogemap-candidate-prefilter-v1''"

record events_hash_header =
  eh_network :: "rchar list"
  eh_genesis_hash :: "rchar list"
  eh_height :: u32
  eh_block_hash :: "rchar list"
  eh_parent_hash :: "rchar list option"
  eh_transfers_scope :: "rchar list"
  eh_creation_count :: u64

definition project_event :: "json \<Rightarrow> json" where
  "project_event event =
    (case event of
       JObject ms \<Rightarrow> JObject (map (\<lambda>(k, v). (k, case v of
           JObject raw_body \<Rightarrow> if k = str ''rawBody''
             then JObject (filter (\<lambda>m. fst m \<noteq> str ''bytes'' \<and> fst m \<noteq> str ''bodyRef'') raw_body) else v
         | _ \<Rightarrow> v)) ms)
     | _ \<Rightarrow> event)"

definition events_hash_input :: "events_hash_header \<Rightarrow> json list \<Rightarrow> json" where
  "events_hash_input header events = JObject [
     (str ''feedVersion'', JString FEED_VERSION),
     (str ''parserProfile'', JString PARSER_PROFILE),
     (str ''orderProfile'', JString ORDER_PROFILE),
     (str ''candidateFilter'', JString CANDIDATE_FILTER),
     (str ''network'', JString (eh_network header)),
     (str ''genesisHash'', JString (eh_genesis_hash header)),
     (str ''height'', JString (show_nat (eh_height header))),
     (str ''blockHash'', JString (eh_block_hash header)),
     (str ''parentHash'', (case eh_parent_hash header of Some h \<Rightarrow> JString h | None \<Rightarrow> JNull)),
     (str ''scope'', JObject [(str ''creations'', JString CANDIDATE_FILTER),
       (str ''transfers'', JString (eh_transfers_scope header))]),
     (str ''creationCount'', JString (show_nat (eh_creation_count header))),
     (str ''events'', JArray (map project_event events))]"

text \<open>The digest of the UTF-8 bytes of the text is the hash library's: an argument.\<close>

definition events_hash :: "(rchar list \<Rightarrow> rchar list) \<Rightarrow> events_hash_header \<Rightarrow> json list \<Rightarrow> rfc8785_error + rchar list" where
  "events_hash sha256_hex header events = res_bind (rfc8785 (events_hash_input header events)) (\<lambda>text. Inr (sha256_hex text))"

section \<open>Cursors\<close>

record base64_api =
  base64_encode :: "byte list \<Rightarrow> rchar list"
  base64_decode :: "rchar list \<Rightarrow> byte list option"

record block_cursor =
  bc_database_id :: "byte list"
  bc_reorg_epoch :: u64
  bc_height :: u32
  bc_block_hash :: "byte list"
  bc_events_hash :: "byte list"
  bc_next_ordinal :: u32

definition CURSOR_VERSION :: byte where "CURSOR_VERSION = 1"
definition CURSOR_BYTES :: usize where "CURSOR_BYTES = 1 + 16 + 8 + 4 + 32 + 32 + 4"
definition CURSOR_CHARS :: usize where "CURSOR_CHARS = (CURSOR_BYTES * 4 + 2) div 3"

definition cursor_encode :: "base64_api \<Rightarrow> block_cursor \<Rightarrow> rchar list" where
  "cursor_encode B c = base64_encode B ([CURSOR_VERSION] @ bc_database_id c @ be_bytes 8 (bc_reorg_epoch c) @
     be_bytes 4 (bc_height c) @ bc_block_hash c @ bc_events_hash c @ be_bytes 4 (bc_next_ordinal c))"

definition base64_char :: "rchar \<Rightarrow> bool" where
  "base64_char b \<longleftrightarrow> is_digit b \<or> 65 \<le> b \<and> b \<le> 90 \<or> 97 \<le> b \<and> b \<le> 122 \<or> b = 45 \<or> b = 95"

text \<open>
  \<open>cursor.len()\<close> counts bytes and the second test goes over bytes; a cursor of these characters is
  ASCII, and one with another character fails the second test either way.
\<close>

definition cursor_decode :: "base64_api \<Rightarrow> rchar list \<Rightarrow> block_cursor option" where
  "cursor_decode B cursor =
    (if length cursor \<noteq> CURSOR_CHARS \<or> \<not> list_all base64_char cursor then None
     else Option.bind (base64_decode B cursor) (\<lambda>bytes.
       if length bytes \<noteq> CURSOR_BYTES \<or> bytes ! 0 \<noteq> CURSOR_VERSION then None
       else if base64_encode B bytes \<noteq> cursor then None
       else case take_fields [16, 8, 4, 32, 32, 4] (drop 1 bytes) of
         [database_id, reorg_epoch, height, block_hash, digest, next_ordinal] \<Rightarrow>
           Some \<lparr>bc_database_id = database_id, bc_reorg_epoch = from_be reorg_epoch, bc_height = from_be height,
             bc_block_hash = block_hash, bc_events_hash = digest, bc_next_ordinal = from_be next_ordinal\<rparr>
       | _ \<Rightarrow> None))"

section \<open>Errors\<close>

datatype feed_error_code = InvalidRequest | InvalidCursor | UnknownInscription | SnapshotReplaced
  | CoverageUnavailable | ProviderRecovering | ContentUnavailable | NodeUnavailable

fun feed_error_name :: "feed_error_code \<Rightarrow> rchar list" where
  "feed_error_name InvalidRequest = str ''invalid_request''"
| "feed_error_name InvalidCursor = str ''invalid_cursor''"
| "feed_error_name UnknownInscription = str ''unknown_inscription''"
| "feed_error_name SnapshotReplaced = str ''snapshot_replaced''"
| "feed_error_name CoverageUnavailable = str ''coverage_unavailable''"
| "feed_error_name ProviderRecovering = str ''provider_recovering''"
| "feed_error_name ContentUnavailable = str ''content_unavailable''"
| "feed_error_name NodeUnavailable = str ''node_unavailable''"

fun http_status :: "feed_error_code \<Rightarrow> u16" where
  "http_status InvalidRequest = 400"
| "http_status InvalidCursor = 400"
| "http_status UnknownInscription = 404"
| "http_status SnapshotReplaced = 409"
| "http_status CoverageUnavailable = 503"
| "http_status ProviderRecovering = 503"
| "http_status ContentUnavailable = 503"
| "http_status NodeUnavailable = 503"

section \<open>Numbers have one spelling\<close>

lemma show_nat_snoc: "0 < a \<Longrightarrow> d < 10 \<Longrightarrow> show_nat (a * 10 + d) = show_nat a @ [48 + d]"
  using show_nat.simps [of "a * 10 + d"] by simp

lemma show_nat_hd: "hd (show_nat n) = 48 \<longleftrightarrow> n = 0"
proof (induction n rule: show_nat.induct)
  case (1 n)
  then show ?case by (cases "n < 10") (simp_all add: show_nat.simps [of n])
qed

lemma parse_digits_exact:
  assumes "parse_digits mx 0 s = Some n" and "s \<noteq> []" and "hd s = 48 \<longrightarrow> s = [48]"
  shows "s = show_nat n" "n \<le> mx"
proof -
  have "s = show_nat n \<and> n \<le> mx"
    using assms
  proof (induction s arbitrary: n rule: rev_induct)
    case (snoc c s)
    then obtain a where a: "parse_digits mx 0 s = Some a" and c: "48 \<le> c" "c \<le> 57"
      and n: "n = a * 10 + (c - 48)" "n \<le> mx"
      by (auto simp: parse_digits_append bind_eq_Some_conv checked_defs split: if_splits)
    show ?case
    proof (cases "s = []")
      case True
      moreover have "c - 48 < 10" using c by linarith
      ultimately show ?thesis using a c n by (simp add: show_nat.simps [of "c - 48"])
    next
      case False
      with snoc.prems(3) have "hd s \<noteq> 48" by auto
      with snoc.IH [OF a False] have s: "s = show_nat a" by blast
      with \<open>hd s \<noteq> 48\<close> have "0 < a" using show_nat_hd [of a] by auto
      then have "show_nat n = show_nat a @ [48 + (c - 48)]" unfolding n(1) using c by (intro show_nat_snoc) auto
      with s n c show ?thesis by simp
    qed
  qed simp
  then show "s = show_nat n" "n \<le> mx" by blast+
qed

lemma parse_decimal_u64_iff: "parse_decimal_u64 s = Some n \<longleftrightarrow> n \<le> u64_max \<and> s = show_nat n"
proof
  assume p: "parse_decimal_u64 s = Some n"
  then obtain first rest where s: "s = first # rest"
    and v: "s = [48] \<or> 49 \<le> first \<and> first \<le> 57 \<and> list_all is_digit rest"
    by (auto simp: parse_decimal_u64_def Let_def split: list.splits if_splits)
  then have digits: "\<forall>c\<in>set s. 48 \<le> c \<and> c \<le> 57" by (auto simp: list_all_iff is_digit_def)
  have "parse_digits u64_max 0 s = Some n"
    using p parse_uint_digits [of s u64_max] s digits by (auto simp: parse_decimal_u64_def split: if_splits)
  then show "n \<le> u64_max \<and> s = show_nat n"
    using parse_digits_exact [of u64_max s n] s v by auto
next
  assume n: "n \<le> u64_max \<and> s = show_nat n"
  obtain first rest where s: "show_nat n = first # rest" by (metis list.exhaust show_nat_nonempty)
  have digits: "\<forall>c\<in>set (first # rest). 48 \<le> c \<and> c \<le> 57" using show_nat_digits [of _ n] s by metis
  have "first # rest = [48] \<or> 49 \<le> first \<and> first \<le> 57 \<and> list_all is_digit rest"
  proof (cases "first = 48")
    case True
    then have "n = 0" using show_nat_hd [of n] s by simp
    then show ?thesis using s by (simp add: show_nat.simps [of 0])
  next
    case False
    with digits show ?thesis by (auto simp: list_all_iff is_digit_def)
  qed
  moreover have "length (show_nat n) \<le> 20" using n by (intro length_show_nat) (auto simp: u64_max_def)
  ultimately show "parse_decimal_u64 s = Some n"
    using n parse_uint_show [of n u64_max] unfolding parse_decimal_u64_def s by (auto simp: Let_def)
qed

lemma parse_decimal_u32_iff: "parse_decimal_u32 s = Some n \<longleftrightarrow> n \<le> u32_max \<and> s = show_nat n"
  by (auto simp: parse_decimal_u32_def bind_eq_Some_conv parse_decimal_u64_iff width_defs)

lemma split_once_Some: "split_once c s = Some (a, b) \<longleftrightarrow> s = a @ c # b \<and> c \<notin> set a"
proof
  show "s = a @ c # b \<and> c \<notin> set a" if "split_once c s = Some (a, b)"
    using that by (induction s arbitrary: a) (auto split: if_splits option.splits)
qed (auto simp: split_once_first)

text \<open>
  An inscription id in a request has one spelling: the parser accepts exactly 64 lower-case
  hexadecimal digits, the letter \<open>i\<close> and a number up to \<open>u32::MAX\<close> printed without leading zeros or a
  sign, and returns those two parts.
\<close>

theorem feed_inscription_id_exact:
  "parse_inscription_id s = Some (txid, n) \<longleftrightarrow>
    is_lower_hex txid 64 \<and> n \<le> u32_max \<and> s = txid @ str ''i'' @ show_nat n"
proof -
  have "105 \<notin> set txid" if "is_lower_hex txid 64"
    using that by (auto simp: is_lower_hex_def list_all_iff is_digit_def)
  then show ?thesis
    by (auto simp: parse_inscription_id_def bind_eq_Some_conv split_once_Some parse_decimal_u32_iff str_def
        split: if_splits)
qed

section \<open>Cursors are exact\<close>

locale base64_url =
  fixes B :: base64_api
  assumes decode_encode: "base64_decode B (base64_encode B bs) = Some bs"
    and length_encode: "length (base64_encode B bs) = (length bs * 4 + 2) div 3"
    and chars_encode: "list_all base64_char (base64_encode B bs)"

definition cursor_ok :: "block_cursor \<Rightarrow> bool" where
  "cursor_ok c \<longleftrightarrow> length (bc_database_id c) = 16 \<and> bc_reorg_epoch c \<le> u64_max \<and> bc_height c \<le> u32_max \<and>
    length (bc_block_hash c) = 32 \<and> length (bc_events_hash c) = 32 \<and> bc_next_ordinal c \<le> u32_max"

definition cursor_fields :: "block_cursor \<Rightarrow> byte list list" where
  "cursor_fields c = [bc_database_id c, be_bytes 8 (bc_reorg_epoch c), be_bytes 4 (bc_height c), bc_block_hash c,
     bc_events_hash c, be_bytes 4 (bc_next_ordinal c)]"

lemma cursor_sizes [simp]: "CURSOR_BYTES = 97" "CURSOR_CHARS = 130"
  by (simp_all add: CURSOR_BYTES_def CURSOR_CHARS_def)

lemma cursor_encode_fields: "cursor_encode B c = base64_encode B (CURSOR_VERSION # concat (cursor_fields c))"
  by (simp add: cursor_encode_def cursor_fields_def)

lemma cursor_fields_widths: "cursor_ok c \<Longrightarrow> map length (cursor_fields c) = [16, 8, 4, 32, 32, 4]"
  by (simp add: cursor_ok_def cursor_fields_def)

context base64_url
begin

lemma cursor_decode_encode:
  assumes "cursor_ok c"
  shows "cursor_decode B (cursor_encode B c) = Some c"
proof -
  have len: "length (concat (cursor_fields c)) = 96"
    unfolding length_concat cursor_fields_widths [OF assms] by simp
  have fields: "take_fields [16, 8, 4, 32, 32, 4] (concat (cursor_fields c)) = cursor_fields c"
    using take_fields_concat [OF cursor_fields_widths [OF assms], of "[]"] by simp
  have "cursor_decode B (cursor_encode B c) =
      (case cursor_fields c of [database_id, reorg_epoch, height, block_hash, digest, next_ordinal] \<Rightarrow>
           Some \<lparr>bc_database_id = database_id, bc_reorg_epoch = from_be reorg_epoch, bc_height = from_be height,
             bc_block_hash = block_hash, bc_events_hash = digest, bc_next_ordinal = from_be next_ordinal\<rparr>
       | _ \<Rightarrow> None)"
    unfolding cursor_decode_def cursor_encode_fields
    by (simp add: decode_encode length_encode chars_encode len fields del: take_fields.simps)
  with assms show ?thesis by (simp add: cursor_fields_def cursor_ok_def)
qed

lemma cursor_decode_inv:
  assumes "cursor_decode B s = Some c"
  shows "cursor_ok c" "cursor_encode B c = s"
proof -
  let ?fs = "\<lambda>bytes. take_fields [16, 8, 4, 32, 32, 4] (drop 1 bytes) :: byte list list"
  from assms obtain bytes where b: "length bytes = 97" "bytes ! 0 = CURSOR_VERSION" "base64_encode B bytes = s"
    and c: "(case ?fs bytes of [i, e, h, b, v, n] \<Rightarrow>
           Some \<lparr>bc_database_id = i, bc_reorg_epoch = from_be e, bc_height = from_be h,
             bc_block_hash = b, bc_events_hash = v, bc_next_ordinal = from_be n\<rparr> | _ \<Rightarrow> None) = Some c"
    unfolding cursor_decode_def by (auto simp: bind_eq_Some_conv simp del: take_fields.simps split: if_splits)
  have w: "map length (?fs bytes) = [16, 8, 4, 32, 32, 4]" using b(1) by (intro take_fields_widths) simp
  then obtain i e h k v n where fs: "?fs bytes = [i, e, h, k, v, n]" by (auto simp: map_eq_Cons_conv simp del: take_fields.simps)
  have len: "length i = 16" "length e = 8" "length h = 4" "length k = 32" "length v = 32" "length n = 4"
    using w unfolding fs by simp_all
  from c have c: "c = \<lparr>bc_database_id = i, bc_reorg_epoch = from_be e, bc_height = from_be h,
             bc_block_hash = k, bc_events_hash = v, bc_next_ordinal = from_be n\<rparr>" unfolding fs by simp
  show "cursor_ok c" using len by (simp add: c cursor_ok_def from_be_bound)
  have "cursor_fields c = ?fs bytes"
    unfolding fs using len by (simp add: c cursor_fields_def be_bytes_from_be)
  moreover have "concat (?fs bytes) = drop 1 bytes" using b(1) by (intro fields_cover) simp
  moreover have "bytes = CURSOR_VERSION # drop 1 bytes" using b(1,2) by (cases bytes) simp_all
  ultimately show "cursor_encode B c = s" using b(3) by (simp add: cursor_encode_fields)
qed

end

text \<open>The URL-safe alphabet without padding.\<close>

definition b64_digit :: "nat \<Rightarrow> rchar" where
  "b64_digit n = (if n < 26 then 65 + n else if n < 52 then 71 + n else if n < 62 then n - 4 else if n = 62 then 45 else 95)"

definition b64_value :: "rchar \<Rightarrow> nat" where
  "b64_value c = (if c = 45 then 62 else if c = 95 then 63 else if c \<le> 57 then c + 4 else if c \<le> 90 then c - 65 else c - 71)"

fun b64_encode :: "nat list \<Rightarrow> nat list" where
  "b64_encode [] = []"
| "b64_encode [a] = [a div 4, a mod 4 * 16]"
| "b64_encode [a, b] = [a div 4, a mod 4 * 16 + b div 16, b mod 16 * 4]"
| "b64_encode (a # b # c # r) =
    [a div 4, a mod 4 * 16 + b div 16, b mod 16 * 4 + c div 64, c mod 64] @ b64_encode r"

fun b64_decode :: "nat list \<Rightarrow> nat list" where
  "b64_decode (x # y # z # w # r) =
    [x * 4 + y div 16, y mod 16 * 16 + z div 4, z mod 4 * 64 + w] @ b64_decode r"
| "b64_decode [x, y, z] = [x * 4 + y div 16, y mod 16 * 16 + z div 4]"
| "b64_decode [x, y] = [x * 4 + y div 16]"
| "b64_decode [x] = []"
| "b64_decode [] = []"

definition url_safe :: base64_api where
  "url_safe = \<lparr>base64_encode = (\<lambda>bs. map b64_digit (b64_encode (map unat bs))),
     base64_decode = (\<lambda>s. if list_all base64_char s \<and> length s mod 4 \<noteq> 1
        then Some (map of_nat (b64_decode (map b64_value s))) else None)\<rparr>"

lemma b64_value_digit: "n < 64 \<Longrightarrow> b64_value (b64_digit n) = n"
  by (auto simp: b64_value_def b64_digit_def)

lemma b64_encode_digits: "list_all (\<lambda>a. a < 256) bs \<Longrightarrow> list_all (\<lambda>d. d < 64) (b64_encode bs)"
  by (induction bs rule: b64_encode.induct) auto

lemma length_b64_encode: "length (b64_encode bs) = (length bs * 4 + 2) div 3"
  by (induction bs rule: b64_encode.induct) auto

lemma b64_decode_encode: "list_all (\<lambda>a. a < 256) bs \<Longrightarrow> b64_decode (b64_encode bs) = bs"
proof (induction bs rule: b64_encode.induct)
  case (3 a b)
  then have "b div 16 < 16" by auto
  with 3 show ?case by simp
next
  case (4 a b c r)
  then have "b div 16 < 16" "c div 64 < 4" by auto
  with 4 show ?case by simp
qed simp_all

lemma bytes_below: "list_all (\<lambda>a. a < 256) (map unat (bs :: byte list))"
  by (simp add: list_all_iff)

interpretation us: base64_url url_safe
proof
  fix bs :: "byte list"
  note digits = b64_encode_digits [OF bytes_below, of bs]
  show chars: "list_all base64_char (base64_encode url_safe bs)"
    using digits by (auto simp: url_safe_def list_all_iff base64_char_def b64_digit_def is_digit_def)
  show len: "length (base64_encode url_safe bs) = (length bs * 4 + 2) div 3"
    by (simp add: url_safe_def length_b64_encode)
  have "map (b64_value \<circ> b64_digit) (b64_encode (map unat bs)) = b64_encode (map unat bs)"
    using digits by (intro map_idI) (auto simp: list_all_iff b64_value_digit)
  moreover have "((length bs * 4 + 2) div 3) mod 4 \<noteq> 1" by presburger
  ultimately show "base64_decode url_safe (base64_encode url_safe bs) = Some bs"
    using chars len b64_decode_encode [OF bytes_below, of bs]
    by (simp add: url_safe_def comp_def)
qed

text \<open>
  C38: a cursor has one spelling, and only what the feed issued is one: text is read as a cursor exactly
  when it is the text of a cursor whose fields have their sizes, so reading a cursor back gives the
  cursor, two texts of one cursor are equal, and nothing else is accepted.
\<close>

theorem cursor_exact:
  assumes "base64_url B"
  shows "cursor_decode B s = Some c \<longleftrightarrow> cursor_ok c \<and> cursor_encode B c = s"
  using base64_url.cursor_decode_encode [OF assms] base64_url.cursor_decode_inv [OF assms] by metis

theorem cursor_exact_witness:
  "cursor_decode url_safe (cursor_encode url_safe \<lparr>bc_database_id = replicate 16 7, bc_reorg_epoch = 2, bc_height = 5000000,
     bc_block_hash = replicate 32 1, bc_events_hash = replicate 32 255, bc_next_ordinal = 100\<rparr>) =
   Some \<lparr>bc_database_id = replicate 16 7, bc_reorg_epoch = 2, bc_height = 5000000,
     bc_block_hash = replicate 32 1, bc_events_hash = replicate 32 255, bc_next_ordinal = 100\<rparr>"
  by (subst cursor_exact [OF us.base64_url_axioms]) (simp add: cursor_ok_def width_defs)

section \<open>The canonical text\<close>

text \<open>The value with the members of every object in order, and what is printed for it.\<close>

lemma set_sort_members [simp]: "set (sort_members ms) = set ms"
  by (simp add: sort_members_def)

lemma size_member [termination_simp]:
  assumes "(a, b) \<in> set (sort_members ms)"
  shows "size b < Suc (size_list (\<lambda>x. Suc (size (snd x))) ms)"
proof -
  have "(a, b) \<in> set ms" using assms by simp
  then have "size b \<le> size_list (\<lambda>x. Suc (size (snd x))) ms" by (rule size_list_estimation') simp
  then show ?thesis by simp
qed

fun canon :: "json \<Rightarrow> json" where
  "canon (JArray vs) = JArray (map canon vs)"
| "canon (JObject ms) = JObject (map (\<lambda>m. (fst m, canon (snd m))) (sort_members ms))"
| "canon v = v"

fun number_free :: "json \<Rightarrow> bool" where
  "number_free (JNumber n) \<longleftrightarrow> False"
| "number_free (JArray vs) \<longleftrightarrow> (\<forall>v\<in>set vs. number_free v)"
| "number_free (JObject ms) \<longleftrightarrow> (\<forall>m\<in>set ms. number_free (snd m))"
| "number_free v \<longleftrightarrow> True"

fun print_json :: "json \<Rightarrow> rchar list"
  and print_items :: "json list \<Rightarrow> rchar list"
  and print_members :: "(rchar list \<times> json) list \<Rightarrow> rchar list" where
  "print_json JNull = str ''null''"
| "print_json (JBool b) = (if b then str ''true'' else str ''false'')"
| "print_json (JNumber n) = []"
| "print_json (JString s) = write_string s"
| "print_json (JArray vs) = [91] @ print_items vs @ [93]"
| "print_json (JObject ms) = [123] @ print_members ms @ [125]"
| "print_items [] = []"
| "print_items (v # vs) = print_json v @ (if vs = [] then [] else [44]) @ print_items vs"
| "print_members [] = []"
| "print_members ((k, v) # ms) = write_string k @ [58] @ print_json v @ (if ms = [] then [] else [44]) @ print_members ms"

lemma write_prints:
  "write_value v = (if number_free v then Inr (print_json (canon v)) else Inl JsonNumber)"
  "write_items vs = (if \<forall>v\<in>set vs. number_free v then Inr (print_items (map canon vs)) else Inl JsonNumber)"
  "write_members ms = (if \<forall>m\<in>set ms. number_free (snd m)
     then Inr (print_members (map (\<lambda>m. (fst m, canon (snd m))) ms)) else Inl JsonNumber)"
  by (induction v and vs and ms rule: write_value_write_items_write_members.induct) auto

text \<open>Every character of a string is written so that it can be told where it ends.\<close>

lemma hex4_inj:
  assumes "a < 32" and "b < 32" and "hex4 a = hex4 b"
  shows "a = b"
proof -
  let ?d = "\<lambda>d :: nat. if d < 10 then 48 + d else 87 + d"
  have inj: "d = e" if "?d d = ?d e" "d < 16" "e < 16" for d e using that by (simp split: if_splits)
  from assms(3) have "?d (a div 16 mod 16) = ?d (b div 16 mod 16)" "?d (a mod 16) = ?d (b mod 16)"
    by (simp_all only: hex4_def Let_def list.map list.inject power_one_right power_0 div_by_1)
  then have "a div 16 mod 16 = b div 16 mod 16" "a mod 16 = b mod 16" by (auto intro!: inj)
  moreover have "a div 16 < 16" "b div 16 < 16" using assms(1,2) by auto
  ultimately have "a div 16 = b div 16" "a mod 16 = b mod 16" by simp_all
  then show ?thesis by (metis div_mult_mod_eq)
qed

lemma length_hex4 [simp]: "length (hex4 n) = 4"
  by (simp add: hex4_def)

definition unescape :: "rchar \<Rightarrow> rchar" where
  "unescape e = (if e = 98 then 8 else if e = 102 then 12 else if e = 110 then 10 else if e = 114 then 13
     else if e = 116 then 9 else e)"

lemma write_char_forms:
  obtains (plain) "write_char c = [c]" "c \<noteq> 92"
  | (short) e where "write_char c = [92, e]" "e \<noteq> 117" "c = unescape e"
  | (long) "write_char c = 92 # 117 # hex4 c" "c < 32"
proof (cases "c \<in> {34, 92, 8, 12, 10, 13, 9}")
  case True
  then show thesis by (auto simp: write_char_def unescape_def intro!: short)
next
  case False
  then have "write_char c = (if c < 32 then [92, 117] @ hex4 c else [c])" "c \<noteq> 92" by (simp_all add: write_char_def)
  then show thesis using plain long by (cases "c < 32") simp_all
qed

lemma write_char_prefix:
  assumes "write_char c @ x = write_char d @ y"
  shows "c = d \<and> x = y"
proof (cases c rule: write_char_forms)
  case plain
  note c = this
  show ?thesis by (cases d rule: write_char_forms) (use assms c in simp_all)
next
  case (short e)
  note c = this
  show ?thesis by (cases d rule: write_char_forms) (use assms c(1,2) in \<open>simp_all add: c(3)\<close>)
next
  case long
  note c = this
  show ?thesis
  proof (cases d rule: write_char_forms)
    case long
    with assms c have "hex4 c @ x = hex4 d @ y" by simp
    then have "hex4 c = hex4 d" "x = y" by simp_all
    with hex4_inj c(2) long(2) show ?thesis by blast
  qed (use assms c in simp_all)
qed

lemma write_char_first: "hd (write_char c) \<noteq> 34" "write_char c \<noteq> []"
  by (auto simp: write_char_def)

lemma write_chars_prefix:
  "concat (map write_char s) @ 34 # x = concat (map write_char t) @ 34 # y \<Longrightarrow> s = t \<and> x = y"
proof (induction s arbitrary: t)
  case Nil
  then show ?case
  proof (cases t)
    case (Cons d t')
    with Nil have "hd (write_char d @ concat (map write_char t') @ 34 # y) = 34" by (metis concat.simps(1) list.map(1) append_Nil list.sel(1) concat.simps(2) list.map(2) append_assoc)
    with write_char_first [of d] show ?thesis by simp
  qed simp
next
  case (Cons c s)
  show ?case
  proof (cases t)
    case Nil
    with Cons.prems have "hd (write_char c @ concat (map write_char s) @ 34 # x) = 34" by simp
    with write_char_first [of c] show ?thesis by simp
  next
    case (Cons d t')
    with Cons.prems have "write_char c @ concat (map write_char s) @ 34 # x = write_char d @ concat (map write_char t') @ 34 # y"
      by simp
    from write_char_prefix [OF this] Cons.IH [of t'] Cons show ?thesis by auto
  qed
qed

lemma write_string_prefix: "write_string s @ x = write_string t @ y \<Longrightarrow> s = t \<and> x = y"
  using write_chars_prefix [of s x t y] by (simp add: write_string_def)

definition json_start :: "rchar \<Rightarrow> bool" where
  "json_start c \<longleftrightarrow> c \<in> {110, 116, 102, 34, 91, 123}"

lemma print_json_first:
  assumes "number_free v"
  obtains c t where "print_json v = c # t" "json_start c"
    "v = JNull \<and> c = 110 \<or> v = JBool True \<and> c = 116 \<or> v = JBool False \<and> c = 102 \<or> (\<exists>s. v = JString s \<and> c = 34) \<or>
     (\<exists>vs. v = JArray vs \<and> c = 91) \<or> (\<exists>ms. v = JObject ms \<and> c = 123)"
proof (cases v)
  case (JBool b)
  then show thesis using that by (cases b) (auto simp: str_def json_start_def)
qed (use assms that in \<open>auto simp: str_def json_start_def write_string_def\<close>)

lemma print_prefix:
  "number_free v \<Longrightarrow> number_free w \<Longrightarrow> print_json v @ x = print_json w @ y \<Longrightarrow> v = w \<and> x = y"
  "(\<forall>v\<in>set vs. number_free v) \<Longrightarrow> (\<forall>w\<in>set ws. number_free w) \<Longrightarrow>
     print_items vs @ 93 # x = print_items ws @ 93 # y \<Longrightarrow> vs = ws \<and> x = y"
  "(\<forall>m\<in>set ms. number_free (snd m)) \<Longrightarrow> (\<forall>m\<in>set ns. number_free (snd m)) \<Longrightarrow>
     print_members ms @ 125 # x = print_members ns @ 125 # y \<Longrightarrow> ms = ns \<and> x = y"
proof (induction v and vs and ms arbitrary: w x y and ws x y and ns x y
    rule: print_json_print_items_print_members.induct)
  case 1
  then show ?case by (auto simp: str_def elim: print_json_first)
next
  case (2 b)
  from 2(2) obtain c t where "print_json w = c # t"
    "w = JNull \<and> c = 110 \<or> w = JBool True \<and> c = 116 \<or> w = JBool False \<and> c = 102 \<or> (\<exists>s. w = JString s \<and> c = 34) \<or>
     (\<exists>vs. w = JArray vs \<and> c = 91) \<or> (\<exists>ms. w = JObject ms \<and> c = 123)" by (rule print_json_first)
  with 2(3) show ?case by (cases b) (auto simp: str_def)
next
  case (3 n)
  then show ?case by simp
next
  case (4 s)
  from 4(2,3) obtain t where w: "w = JString t" by (auto simp: write_string_def elim: print_json_first)
  with 4(3) show ?case using write_string_prefix [of s x t y] by simp
next
  case (5 vs)
  from 5(3,4) obtain ws where w: "w = JArray ws" by (auto elim: print_json_first)
  with 5(4) have "print_items vs @ 93 # x = print_items ws @ 93 # y" by simp
  with 5(1) [of ws x y] 5(2,3) w show ?case by simp
next
  case (6 ms)
  from 6(3,4) obtain ns where w: "w = JObject ns" by (auto elim: print_json_first)
  with 6(4) have "print_members ms @ 125 # x = print_members ns @ 125 # y" by simp
  with 6(1) [of ns x y] 6(2,3) w show ?case by simp
next
  case 7
  then show ?case
  proof (cases ws)
    case (Cons w ws')
    with 7(2) obtain c t where "print_json w = c # t" "json_start c" by (auto elim: print_json_first [of w])
    with 7(3) Cons show ?thesis by (simp add: json_start_def)
  qed simp
next
  case (8 v vs)
  from 8(3) obtain c t where v: "print_json v = c # t" "json_start c" by (auto elim: print_json_first [of v])
  with 8(5) obtain w ws' where ws: "ws = w # ws'" by (cases ws) (auto simp: json_start_def)
  let ?r = "\<lambda>vs z. (if vs = [] then [] else [44]) @ print_items vs @ 93 # z"
  from 8(5) ws have e: "print_json v @ ?r vs x = print_json w @ ?r ws' y" by simp
  have nf: "number_free v" "number_free w" using 8(3,4) ws by simp_all
  from 8(1) [OF nf e] have "v = w" and r: "?r vs x = ?r ws' y" by blast+
  moreover from r have "(vs = []) = (ws' = [])" by (auto split: if_splits)
  moreover from r this have "print_items vs @ 93 # x = print_items ws' @ 93 # y" by (auto split: if_splits)
  ultimately show ?case using 8(2) [of ws' x y] 8(3,4) ws by simp
next
  case 9
  then show ?case by (cases ns rule: print_members.cases) (auto simp: write_string_def)
next
  case (10 k v ms)
  from 10(5) obtain k' w ns' where ns: "ns = (k', w) # ns'"
    by (cases ns rule: print_members.cases) (auto simp: write_string_def)
  let ?r = "\<lambda>ms z. (if ms = [] then [] else [44]) @ print_members ms @ 125 # z"
  from 10(5) ns have "write_string k @ 58 # print_json v @ ?r ms x = write_string k' @ 58 # print_json w @ ?r ns' y" by simp
  from write_string_prefix [OF this] have k: "k = k'" and e: "print_json v @ ?r ms x = print_json w @ ?r ns' y" by simp_all
  have nf: "number_free v" "number_free w" using 10(3,4) ns by simp_all
  from 10(1) [OF nf e] have "v = w" and r: "?r ms x = ?r ns' y" by blast+
  moreover from r have "(ms = []) = (ns' = [])" by (auto split: if_splits)
  moreover from r this have "print_members ms @ 125 # x = print_members ns' @ 125 # y" by (auto split: if_splits)
  ultimately show ?case using 10(2) [of ns' x y] 10(3,4) ns k by simp
qed

lemma canon_number_free [simp]: "number_free (canon v) = number_free v"
  by (induction v rule: canon.induct) auto

text \<open>The order of the members does not matter, as long as no two names have the same UTF-16 units.\<close>

lemma canon_permute:
  assumes "mset ms = mset ns" and "distinct (map (\<lambda>m. encode_utf16 (fst m)) ms)"
  shows "canon (JObject ms) = canon (JObject ns)"
proof -
  let ?f = "\<lambda>m :: rchar list \<times> json. encode_utf16 (fst m)"
  have same: "set ms = set ns" "distinct ms = distinct ns"
    using mset_eq_setD [OF assms(1)] mset_eq_imp_distinct_iff [OF assms(1)] .
  then have "sort_key ?f ms = sort_key ?f ns"
    using assms(2) by (intro map_sorted_distinct_set_unique [of ?f]) (simp_all add: distinct_map)
  then show ?thesis by (simp add: sort_members_def)
qed

lemma rfc8785_same:
  assumes "number_free w"
  shows "rfc8785 v = Inl JsonNumber \<longleftrightarrow> \<not> number_free v" "rfc8785 v = rfc8785 w \<longleftrightarrow> number_free v \<and> canon v = canon w"
proof -
  have "canon v = canon w" if "number_free v" "print_json (canon v) = print_json (canon w)"
    using print_prefix(1) [of "canon v" "canon w" "[]" "[]"] that assms by simp
  then show "rfc8785 v = Inl JsonNumber \<longleftrightarrow> \<not> number_free v" "rfc8785 v = rfc8785 w \<longleftrightarrow> number_free v \<and> canon v = canon w"
    using assms by (auto simp: rfc8785_def write_prints)
qed

text \<open>
  The text the digests are taken of is canonical. Serializing fails exactly on a value that contains
  a number; otherwise it returns a text, and two values have the same text exactly when they are the
  same up to the order of the members of their objects: no two different lists of events have one text.
\<close>

theorem rfc8785_canonical:
  assumes "number_free w"
  shows "(rfc8785 v = Inl JsonNumber \<longleftrightarrow> \<not> number_free v) \<and> (rfc8785 v = rfc8785 w \<longleftrightarrow> number_free v \<and> canon v = canon w)"
  using rfc8785_same [OF assms] by blast

theorem rfc8785_canonical_witness:
  "rfc8785 (JObject [(str ''b'', JArray [JNull]), (str ''a'', JString (str ''x''))]) =
   rfc8785 (JObject [(str ''a'', JString (str ''x'')), (str ''b'', JArray [JNull])])"
  using rfc8785_canonical [of "JObject [(str ''a'', JString (str ''x'')), (str ''b'', JArray [JNull])]"
      "JObject [(str ''b'', JArray [JNull]), (str ''a'', JString (str ''x''))]"]
  by (simp add: sort_members_def encode_utf16_def str_def)

lemma canon_input:
  "canon (events_hash_input header events) = JObject [
     (str ''blockHash'', JString (eh_block_hash header)),
     (str ''candidateFilter'', JString CANDIDATE_FILTER),
     (str ''creationCount'', JString (show_nat (eh_creation_count header))),
     (str ''events'', JArray (map (canon \<circ> project_event) events)),
     (str ''feedVersion'', JString FEED_VERSION),
     (str ''genesisHash'', JString (eh_genesis_hash header)),
     (str ''height'', JString (show_nat (eh_height header))),
     (str ''network'', JString (eh_network header)),
     (str ''orderProfile'', JString ORDER_PROFILE),
     (str ''parentHash'', (case eh_parent_hash header of Some h \<Rightarrow> JString h | None \<Rightarrow> JNull)),
     (str ''parserProfile'', JString PARSER_PROFILE),
     (str ''scope'', JObject [(str ''creations'', JString CANDIDATE_FILTER),
       (str ''transfers'', JString (eh_transfers_scope header))])]"
  by (simp add: events_hash_input_def sort_members_def encode_utf16_def str_def split: option.splits)

lemma show_nat_inject [simp]: "show_nat a = show_nat b \<longleftrightarrow> a = b"
  using parse_digits_show [of a "max a b"] parse_digits_show [of b "max a b"] by (metis max.cobounded1 max.cobounded2 option.inject)

lemma number_free_input:
  "number_free (events_hash_input header events) \<longleftrightarrow> (\<forall>e\<in>set events. number_free (project_event e))"
  by (simp add: events_hash_input_def split: option.splits)

text \<open>
  C37: the digest of a block binds everything in it. For events without numbers the text that is hashed
  exists, and two blocks have the same text exactly when their networks, genesis hashes, heights, block
  and parent hashes, scopes and creation counts are equal and their events are, one by one, the same up
  to the order of members and what \<open>project_event\<close> leaves out.
\<close>

theorem events_hash_binds:
  assumes "\<forall>e\<in>set events. number_free (project_event e)" and "\<forall>e\<in>set events'. number_free (project_event e)"
  shows "(\<exists>t. rfc8785 (events_hash_input h events) = Inr t) \<and>
    (rfc8785 (events_hash_input h events) = rfc8785 (events_hash_input h' events') \<longleftrightarrow>
      h = h' \<and> map (canon \<circ> project_event) events = map (canon \<circ> project_event) events')"
proof -
  have nf: "number_free (events_hash_input h events)" "number_free (events_hash_input h' events')"
    using assms by (simp_all add: number_free_input)
  have "(case a of Some x \<Rightarrow> JString x | None \<Rightarrow> JNull) = (case b of Some x \<Rightarrow> JString x | None \<Rightarrow> JNull) \<longleftrightarrow> a = b" for a b
    by (auto split: option.splits)
  then have "canon (events_hash_input h events) = canon (events_hash_input h' events') \<longleftrightarrow>
      h = h' \<and> map (canon \<circ> project_event) events = map (canon \<circ> project_event) events'"
    unfolding canon_input by (auto intro: events_hash_header.equality)
  moreover have "\<exists>t. rfc8785 (events_hash_input h events) = Inr t"
    using nf(1) by (simp add: rfc8785_def write_prints)
  ultimately show ?thesis using rfc8785_same(2) [OF nf(2)] nf(1) by blast
qed

theorem events_hash_binds_witness:
  "rfc8785 (events_hash_input \<lparr>eh_network = str ''mainnet'', eh_genesis_hash = [], eh_height = 5, eh_block_hash = [],
      eh_parent_hash = None, eh_transfers_scope = str ''complete'', eh_creation_count = 1\<rparr> [JNull]) \<noteq>
   rfc8785 (events_hash_input \<lparr>eh_network = str ''mainnet'', eh_genesis_hash = [], eh_height = 5, eh_block_hash = [],
      eh_parent_hash = None, eh_transfers_scope = str ''complete'', eh_creation_count = 1\<rparr> [JNull, JNull])"
  by (subst events_hash_binds [THEN conjunct2]) (simp_all add: project_event_def)

end
