(* ===== verification/Dogemap_Feed.thy ===== *)
theory Dogemap_Feed
  imports Reorg_Properties Feed_Wire
begin

text \<open>
  Serving the Dogemap feed (\<open>src/index/dogemap_feed.rs\<close>): the identity a response is given under, the
  checks on a request for a block, the cache of built blocks and the pages of a block's events. Reading
  the inscription tables and asking the node for what they do not have is an argument, \<open>fd_build\<close>; so
  are hexadecimal text, the text of a block hash and base64, which are libraries'. Of the JSON of a page
  the parts that depend on the paging are kept.
\<close>

section \<open>Identity\<close>

datatype feed_failure = Refused feed_error_code | Internal

record feed_identity =
  fi_database_id :: "rchar list option"
  fi_reorg_epoch :: u64
  fi_checkpoint :: "(u32 \<times> block_hash) option"
  fi_creation_coverage_from :: u32
  fi_journal_start :: "u32 option"
  fi_journal_last :: "u32 option"

definition journal_active :: "feed_identity \<Rightarrow> bool" where
  "journal_active i =
    (case (fi_journal_start i, fi_journal_last i, fi_checkpoint i) of
       (Some _, Some l, Some (height, _)) \<Rightarrow> l = height
     | _ \<Rightarrow> False)"

definition transfer_coverage_from :: "feed_identity \<Rightarrow> u32 option" where
  "transfer_coverage_from i =
    (if journal_active i then map_option (\<lambda>start. max start (fi_creation_coverage_from i)) (fi_journal_start i) else None)"

definition transfers_journaled :: "feed_identity \<Rightarrow> u32 \<Rightarrow> bool" where
  "transfers_journaled i height \<longleftrightarrow> journal_active i \<and>
    (case fi_journal_start i of Some start \<Rightarrow> start \<le> height | None \<Rightarrow> False) \<and>
    (case fi_journal_last i of Some l \<Rightarrow> height \<le> l | None \<Rightarrow> False)"

text \<open>A request, a built block, and what the feed is given.\<close>

record block_request =
  rq_height :: u32
  rq_block_hash :: "rchar list"
  rq_database_id :: "rchar list"
  rq_reorg_epoch :: u64
  rq_cursor :: "block_cursor option"
  rq_limit :: usize

record built_block =
  bb_events :: "json list"
  bb_events_hash :: "rchar list"

record 'r feed_api =
  fd_hex_encode :: "byte list \<Rightarrow> rchar list"
  fd_hex_decode :: "rchar list \<Rightarrow> byte list option"
  fd_hash_text :: "block_hash \<Rightarrow> rchar list"
  fd_base64 :: base64_api
  fd_build :: "'r index_db \<Rightarrow> feed_identity \<Rightarrow> block_request \<Rightarrow> feed_failure + built_block"

definition read_identity :: "'r feed_api \<Rightarrow> u32 \<Rightarrow> 'r index_db \<Rightarrow> feed_error + feed_identity" where
  "read_identity F default_coverage db =
    res_bind (read_meta_table (dogemap_feed_meta db)) (\<lambda>meta.
    Inr \<lparr>fi_database_id = map_option (fd_hex_encode F) (fm_database_id meta),
      fi_reorg_epoch = count_of Reorgs db,
      fi_checkpoint = (case height_to_block_hash db of [] \<Rightarrow> None | t \<Rightarrow> Some (last t)),
      fi_creation_coverage_from = (case fm_creation_coverage_from meta of Some h \<Rightarrow> h | None \<Rightarrow> default_coverage),
      fi_journal_start = fm_journal_start meta, fi_journal_last = fm_journal_last meta\<rparr>)"

definition check_identity :: "feed_identity \<Rightarrow> rchar list \<Rightarrow> u64 \<Rightarrow> feed_failure + unit" where
  "check_identity identity database_id reorg_epoch =
    (case fi_database_id identity of
       None \<Rightarrow> Inl (Refused CoverageUnavailable)
     | Some current \<Rightarrow>
         if current \<noteq> database_id then Inl (Refused SnapshotReplaced)
         else if fi_reorg_epoch identity \<noteq> reorg_epoch then Inl (Refused SnapshotReplaced)
         else Inr ())"

section \<open>The cache\<close>

record cache_key =
  ck_database_id :: "rchar list"
  ck_reorg_epoch :: u64
  ck_height :: u32
  ck_block_hash :: block_hash
  ck_transfer_coverage_from :: "u32 option"

type_synonym block_cache = "(cache_key \<times> built_block) list"

definition BLOCK_CACHE_ENTRIES :: usize where "BLOCK_CACHE_ENTRIES = 64"

definition cache_get :: "cache_key \<Rightarrow> block_cache \<Rightarrow> built_block option" where
  "cache_get key entries = map_option snd (List.find (\<lambda>(k, b). k = key) entries)"

definition cache_insert :: "cache_key \<Rightarrow> built_block \<Rightarrow> block_cache \<Rightarrow> block_cache" where
  "cache_insert key built entries =
    (if list_ex (\<lambda>(k, b). k = key) entries then entries
     else (if BLOCK_CACHE_ENTRIES \<le> length entries then tl entries else entries) @ [(key, built)])"

text \<open>The cache never grows beyond its bound, and a new block is found under its key.\<close>

lemma cache_bounded: "length cache \<le> BLOCK_CACHE_ENTRIES \<Longrightarrow> length (cache_insert key built cache) \<le> BLOCK_CACHE_ENTRIES"
  by (auto simp: cache_insert_def BLOCK_CACHE_ENTRIES_def)

lemma cache_get_insert:
  assumes "cache_get key cache = None"
  shows "cache_get key (cache_insert key built cache) = Some built"
proof -
  have fresh: "\<forall>x\<in>set cache. fst x \<noteq> key" using assms by (auto simp: cache_get_def find_None_iff)
  then have "List.find (\<lambda>(k, b). k = key) xs = None" if "set xs \<subseteq> set cache" for xs
    using that by (fastforce simp: find_None_iff)
  moreover have "List.find (\<lambda>(k, b). k = key) (xs @ [(key, built)]) = Some (key, built)"
    if "List.find (\<lambda>(k, b). k = key) xs = None" for xs using that by (induction xs) (auto split: if_splits)
  moreover have "set (tl cache) \<subseteq> set cache" by (cases cache) auto
  moreover have "\<not> list_ex (\<lambda>(k, b). k = key) cache" using fresh by (auto simp: list_ex_iff)
  ultimately show ?thesis by (simp add: cache_get_def cache_insert_def)
qed

section \<open>Pages\<close>

record feed_page =
  fp_total :: usize
  fp_events :: "json list"
  fp_next_cursor :: "rchar list option"
  fp_complete :: bool

definition decode_array :: "'r feed_api \<Rightarrow> nat \<Rightarrow> feed_failure \<Rightarrow> rchar list \<Rightarrow> feed_failure + byte list" where
  "decode_array F n failure s =
    (case fd_hex_decode F s of
       None \<Rightarrow> Inl failure
     | Some bytes \<Rightarrow> if length bytes = n then Inr bytes else Inl failure)"

definition block_page :: "'r feed_api \<Rightarrow> block_request \<Rightarrow> built_block \<Rightarrow> feed_failure + feed_page" where
  "block_page F request built =
    (let total = length (bb_events built)
     in res_bind (decode_array F 16 (Refused InvalidRequest) (rq_database_id request)) (\<lambda>database_id.
        res_bind (decode_array F 32 (Refused InvalidRequest) (rq_block_hash request)) (\<lambda>block_hash.
        res_bind (decode_array F 32 Internal (bb_events_hash built)) (\<lambda>events_hash.
        res_bind (case rq_cursor request of
            None \<Rightarrow> Inr 0
          | Some cursor \<Rightarrow>
              if bc_database_id cursor \<noteq> database_id \<or> bc_reorg_epoch cursor \<noteq> rq_reorg_epoch request \<or>
                 bc_height cursor \<noteq> rq_height request \<or> bc_block_hash cursor \<noteq> block_hash \<or>
                 bc_events_hash cursor \<noteq> events_hash
              then Inl (Refused SnapshotReplaced)
              else
                let next' = bc_next_ordinal cursor
                in if next' = 0 \<or> total \<le> next' then Inl (Refused InvalidCursor) else Inr next') (\<lambda>start.
        let end' = min (saturating_add u64_max start (rq_limit request)) total
        in res_bind (if end' < total then
              res_bind (ok_or Internal (try_from u32_max end')) (\<lambda>next_ordinal.
              Inr (Some (cursor_encode (fd_base64 F) \<lparr>bc_database_id = database_id,
                bc_reorg_epoch = rq_reorg_epoch request, bc_height = rq_height request, bc_block_hash = block_hash,
                bc_events_hash = events_hash, bc_next_ordinal = next_ordinal\<rparr>)))
            else Inr None) (\<lambda>next_cursor.
        Inr \<lparr>fp_total = total, fp_events = take (end' - start) (drop start (bb_events built)),
          fp_next_cursor = next_cursor, fp_complete = (end' = total)\<rparr>))))))"

definition dogemap_feed_block :: "'r feed_api \<Rightarrow> u32 \<Rightarrow> 'r index_db \<Rightarrow> block_request \<Rightarrow> block_cache \<Rightarrow>
    (feed_failure + feed_page) \<times> block_cache" where
  "dogemap_feed_block F default_coverage db request cache =
    (case read_identity F default_coverage db of
       Inl e \<Rightarrow> (Inl Internal, cache)
     | Inr identity \<Rightarrow>
         (case check_identity identity (rq_database_id request) (rq_reorg_epoch request) of
            Inl e \<Rightarrow> (Inl e, cache)
          | Inr _ \<Rightarrow>
              (case fi_checkpoint identity of
                 None \<Rightarrow> (Inl (Refused CoverageUnavailable), cache)
               | Some (indexed_height, _) \<Rightarrow>
                   if rq_height request > indexed_height then (Inl (Refused CoverageUnavailable), cache)
                   else if rq_height request < fi_creation_coverage_from identity
                   then (Inl (Refused CoverageUnavailable), cache)
                   else
                     (case block_hash_at db (Some (rq_height request)) of
                        None \<Rightarrow> (Inl (Refused CoverageUnavailable), cache)
                      | Some block_hash \<Rightarrow>
                          if fd_hash_text F block_hash \<noteq> rq_block_hash request
                          then (Inl (Refused SnapshotReplaced), cache)
                          else
                            let key = \<lparr>ck_database_id = rq_database_id request, ck_reorg_epoch = rq_reorg_epoch request,
                                  ck_height = rq_height request, ck_block_hash = block_hash,
                                  ck_transfer_coverage_from = transfer_coverage_from identity\<rparr>
                            in (case cache_get key cache of
                                  Some built \<Rightarrow> (block_page F request built, cache)
                                | None \<Rightarrow>
                                    (case fd_build F db identity request of
                                       Inl e \<Rightarrow> (Inl e, cache)
                                     | Inr built \<Rightarrow> (block_page F request built, cache_insert key built cache)))))))"

section \<open>The pages of a block\<close>

text \<open>A client that asks for the first page and follows the cursors.\<close>

fun read_pages :: "'r feed_api \<Rightarrow> nat \<Rightarrow> block_request \<Rightarrow> built_block \<Rightarrow> json list option" where
  "read_pages F 0 request built = None"
| "read_pages F (Suc n) request built =
    (case block_page F request built of
       Inl e \<Rightarrow> None
     | Inr page \<Rightarrow>
         (case fp_next_cursor page of
            None \<Rightarrow> if fp_complete page then Some (fp_events page) else None
          | Some text \<Rightarrow>
              (case cursor_decode (fd_base64 F) text of
                 None \<Rightarrow> None
               | Some cursor \<Rightarrow>
                   map_option ((@) (fp_events page)) (read_pages F n (request\<lparr>rq_cursor := Some cursor\<rparr>) built))))"

definition request_ok :: "'r feed_api \<Rightarrow> block_request \<Rightarrow> built_block \<Rightarrow> bool" where
  "request_ok F rq b \<longleftrightarrow> (\<exists>i h e. fd_hex_decode F (rq_database_id rq) = Some i \<and> length i = 16 \<and>
     fd_hex_decode F (rq_block_hash rq) = Some h \<and> length h = 32 \<and>
     fd_hex_decode F (bb_events_hash b) = Some e \<and> length e = 32) \<and>
   rq_reorg_epoch rq \<le> u64_max \<and> rq_height rq \<le> u32_max \<and> 1 \<le> rq_limit rq \<and> length (bb_events b) \<le> u32_max"

text \<open>Where a request starts: at the beginning, or where a cursor of this block says.\<close>

definition starts_at :: "'r feed_api \<Rightarrow> block_request \<Rightarrow> built_block \<Rightarrow> nat \<Rightarrow> bool" where
  "starts_at F rq b n \<longleftrightarrow>
    (case rq_cursor rq of
       None \<Rightarrow> n = 0
     | Some c \<Rightarrow> Some (bc_database_id c) = fd_hex_decode F (rq_database_id rq) \<and> bc_reorg_epoch c = rq_reorg_epoch rq \<and>
         bc_height c = rq_height rq \<and> Some (bc_block_hash c) = fd_hex_decode F (rq_block_hash rq) \<and>
         Some (bc_events_hash c) = fd_hex_decode F (bb_events_hash b) \<and> bc_next_ordinal c = n \<and> 0 < n \<and> n < length (bb_events b))"

lemma block_page_from:
  assumes "request_ok F rq b" and "starts_at F rq b n"
  defines "m \<equiv> min (saturating_add u64_max n (rq_limit rq)) (length (bb_events b))"
  obtains c where "starts_at F (rq\<lparr>rq_cursor := Some c\<rparr>) b m \<or> m = length (bb_events b)" "cursor_ok c"
    "block_page F rq b = Inr \<lparr>fp_total = length (bb_events b), fp_events = take (m - n) (drop n (bb_events b)),
       fp_next_cursor = (if m < length (bb_events b) then Some (cursor_encode (fd_base64 F) c) else None),
       fp_complete = (m = length (bb_events b))\<rparr>"
proof -
  from assms(1) obtain i h e where hex: "fd_hex_decode F (rq_database_id rq) = Some i" "length i = 16"
     "fd_hex_decode F (rq_block_hash rq) = Some h" "length h = 32"
     "fd_hex_decode F (bb_events_hash b) = Some e" "length e = 32"
    and ok: "rq_reorg_epoch rq \<le> u64_max" "rq_height rq \<le> u32_max" "1 \<le> rq_limit rq" "length (bb_events b) \<le> u32_max"
    by (auto simp: request_ok_def)
  let ?c = "\<lparr>bc_database_id = i, bc_reorg_epoch = rq_reorg_epoch rq, bc_height = rq_height rq, bc_block_hash = h,
     bc_events_hash = e, bc_next_ordinal = m\<rparr>"
  have m: "m \<le> u32_max" "m \<le> length (bb_events b)" using ok(4) by (simp_all add: m_def)
  have pos: "0 < m \<or> m = length (bb_events b)" using ok(3) by (auto simp: m_def saturating_min u64_max_def)
  have start: "(case rq_cursor rq of
            None \<Rightarrow> Inr 0
          | Some cursor \<Rightarrow>
              if bc_database_id cursor \<noteq> i \<or> bc_reorg_epoch cursor \<noteq> rq_reorg_epoch rq \<or>
                 bc_height cursor \<noteq> rq_height rq \<or> bc_block_hash cursor \<noteq> h \<or> bc_events_hash cursor \<noteq> e
              then Inl (Refused SnapshotReplaced)
              else
                let next' = bc_next_ordinal cursor
                in if next' = 0 \<or> length (bb_events b) \<le> next' then Inl (Refused InvalidCursor) else Inr next') = Inr n"
    using assms(2) hex by (auto simp: starts_at_def Let_def split: option.splits)
  have page: "block_page F rq b = Inr \<lparr>fp_total = length (bb_events b), fp_events = take (m - n) (drop n (bb_events b)),
       fp_next_cursor = (if m < length (bb_events b) then Some (cursor_encode (fd_base64 F) ?c) else None),
       fp_complete = (m = length (bb_events b))\<rparr>"
    unfolding block_page_def decode_array_def hex option.case Let_def hex(2,4,6) if_P [OF refl] res_bind_simps start [unfolded Let_def]
      m_def [symmetric]
    using m(1) by (auto simp: try_from_def)
  have "cursor_ok ?c" using hex ok m by (simp add: cursor_ok_def)
  moreover have "starts_at F (rq\<lparr>rq_cursor := Some ?c\<rparr>) b m \<or> m = length (bb_events b)"
    using hex pos m(2) by (auto simp: starts_at_def)
  ultimately show thesis using page that by blast
qed

lemma request_ok_cursor [simp]: "request_ok F (rq\<lparr>rq_cursor := c\<rparr>) b = request_ok F rq b"
  by (simp add: request_ok_def)

lemma read_pages_from:
  assumes "base64_url (fd_base64 F)" and "request_ok F rq b" and "starts_at F rq b n" and "length (bb_events b) - n < k"
  shows "read_pages F k rq b = Some (drop n (bb_events b))"
  using assms(2-4)
proof (induction k arbitrary: rq n)
  case (Suc k)
  define m where "m = min (saturating_add u64_max n (rq_limit rq)) (length (bb_events b))"
  obtain c where c: "starts_at F (rq\<lparr>rq_cursor := Some c\<rparr>) b m \<or> m = length (bb_events b)" "cursor_ok c"
    and page: "block_page F rq b = Inr \<lparr>fp_total = length (bb_events b), fp_events = take (m - n) (drop n (bb_events b)),
       fp_next_cursor = (if m < length (bb_events b) then Some (cursor_encode (fd_base64 F) c) else None),
       fp_complete = (m = length (bb_events b))\<rparr>"
    using block_page_from [OF Suc.prems(1,2), folded m_def] by blast
  have dec: "cursor_decode (fd_base64 F) (cursor_encode (fd_base64 F) c) = Some c"
    using base64_url.cursor_decode_encode [OF assms(1) c(2)] .
  show ?case
  proof (cases "m < length (bb_events b)")
    case False
    then have "m = length (bb_events b)" by (simp add: m_def)
    with page show ?thesis by simp
  next
    case True
    then have "n < m" using Suc.prems(1) by (auto simp: m_def request_ok_def saturating_min u32_max_def u64_max_def min_def split: if_splits)
    have "read_pages F k (rq\<lparr>rq_cursor := Some c\<rparr>) b = Some (drop m (bb_events b))"
      by (rule Suc.IH) (use Suc.prems c True \<open>n < m\<close> in auto)
    moreover have "take (m - n) (drop n (bb_events b)) @ drop m (bb_events b) = drop n (bb_events b)"
      using append_take_drop_id [of "m - n" "drop n (bb_events b)"] \<open>n < m\<close> by simp
    ultimately show ?thesis using True page dec by simp
  qed
qed simp

text \<open>
  C20: paging loses and repeats nothing. A client that asks for the first page of a block and then follows
  the cursors it is given, decoded by the server, gets after at most one request more than there are
  events exactly the events of the block, in order, and the last page says that it is complete.
\<close>

theorem pages_cover_events:
  assumes "base64_url (fd_base64 F)" and "request_ok F rq built" and "rq_cursor rq = None"
  shows "read_pages F (Suc (length (bb_events built))) rq built = Some (bb_events built)"
  using read_pages_from [OF assms(1,2), of 0] assms(3) by (simp add: starts_at_def del: read_pages.simps)

definition sample_feed :: "unit feed_api" where
  "sample_feed = \<lparr>fd_hex_encode = map unat, fd_hex_decode = (\<lambda>s. Some (map of_nat s)), fd_hash_text = map unat,
     fd_base64 = url_safe, fd_build = (\<lambda>db i rq. Inr \<lparr>bb_events = [], bb_events_hash = replicate 32 0\<rparr>)\<rparr>"

definition sample_request :: block_request where
  "sample_request = \<lparr>rq_height = 5, rq_block_hash = replicate 32 0, rq_database_id = replicate 16 7, rq_reorg_epoch = 0,
     rq_cursor = None, rq_limit = 2\<rparr>"

theorem pages_cover_events_witness:
  "read_pages sample_feed 6 sample_request \<lparr>bb_events = replicate 5 JNull, bb_events_hash = replicate 32 9\<rparr> =
   Some (replicate 5 JNull)"
proof -
  have "base64_url (fd_base64 sample_feed)" using us.base64_url_axioms by (simp add: sample_feed_def)
  from pages_cover_events [OF this, of sample_request "\<lparr>bb_events = replicate 5 JNull, bb_events_hash = replicate 32 9\<rparr>"]
  show ?thesis by (simp add: request_ok_def sample_request_def sample_feed_def width_defs del: read_pages.simps)
qed

section \<open>After a rollback\<close>

lemma read_identity_meta:
  assumes "read_identity F cov db = Inr i"
  obtains m where "read_meta_table (dogemap_feed_meta db) = Inr m" "fi_database_id i = map_option (fd_hex_encode F) (fm_database_id m)"
    "fi_reorg_epoch i = count_of Reorgs db"
  using assms by (auto simp: read_identity_def res_simps)

lemma meta_database_id:
  "read_meta_table t = Inr m \<Longrightarrow> fm_database_id m = map_of t META_DATABASE_ID"
  by (auto simp: read_meta_table_def res_simps split: option.splits if_splits)

text \<open>
  C19: a rollback invalidates what was handed out before it. Once \<open>handle_reorg\<close> has succeeded, a request
  that carries the database id and the epoch of the database before (or any earlier epoch), with or
  without a cursor, is refused as replaced, whatever is in the cache, and leaves the cache as it is.
\<close>

theorem stale_requests_refused:
  assumes "index_store S" and "store_inv S A hs st" and "handle_reorg S h depth st = Inr st'"
    and "read_identity F cov (db_content S st) = Inr i" and "read_identity F cov (db_content S st') = Inr i'"
    and "fi_database_id i = Some (rq_database_id rq)" and "rq_reorg_epoch rq \<le> fi_reorg_epoch i"
  shows "dogemap_feed_block F cov (db_content S st') rq cache = (Inl (Refused SnapshotReplaced), cache)"
proof -
  from index_store.handle_reorg_inv [OF assms(1-3)] have r: "rolled_back S st st'" by blast
  from read_identity_meta [OF assms(4)] obtain m where m: "read_meta_table (dogemap_feed_meta (db_content S st)) = Inr m"
    "fi_database_id i = map_option (fd_hex_encode F) (fm_database_id m)" "fi_reorg_epoch i = count_of Reorgs (db_content S st)" .
  from read_identity_meta [OF assms(5)] obtain m' where m': "read_meta_table (dogemap_feed_meta (db_content S st')) = Inr m'"
    "fi_database_id i' = map_option (fd_hex_encode F) (fm_database_id m')" "fi_reorg_epoch i' = count_of Reorgs (db_content S st')" .
  from m(2) assms(6) obtain x where x: "fm_database_id m = Some x" "fd_hex_encode F x = rq_database_id rq" by (cases "fm_database_id m") auto
  then have "map_of (dogemap_feed_meta (db_content S st')) META_DATABASE_ID = Some x"
    using r meta_database_id [OF m(1)] by (simp add: rolled_back_def keeps_generation_def)
  then have "fi_database_id i' = Some (rq_database_id rq)" using m'(2) meta_database_id [OF m'(1)] x(2) by simp
  moreover have "fi_reorg_epoch i' = Suc (fi_reorg_epoch i)" using r m(3) m'(3) by (simp add: rolled_back_def)
  ultimately have "check_identity i' (rq_database_id rq) (rq_reorg_epoch rq) = Inl (Refused SnapshotReplaced)"
    using assms(7) by (simp add: check_identity_def)
  then show ?thesis using assms(5) by (simp add: dogemap_feed_block_def)
qed

definition fed_db :: "block_header list \<Rightarrow> unit index_db" where
  "fed_db hs = (sample_db hs)\<lparr>dogemap_feed_meta := [(META_DATABASE_ID, replicate 16 7)]\<rparr>"

definition fed_file :: "unit index_db redb_file" where
  "fed_file = \<lparr>rf_content = fed_db old_chain, rf_savepoints = [(1, fed_db (take 1 old_chain))]\<rparr>"

lemma fed_inv: "store_inv redb_savepoints sample_blocks old_chain fed_file"
  using sample_linked(1)
  by (auto simp: store_inv_def redb_savepoints_def fed_file_def fed_db_def sample_db_def indexed_def prefix_saved_def
      sample_blocks_def old_chain_def MAX_SAVEPOINTS_def u32_max_def intro!: exI [of _ 1])

lemma fed_meta: "read_meta_table [(META_DATABASE_ID, replicate 16 7)] =
    Inr \<lparr>fm_database_id = Some (replicate 16 7), fm_creation_coverage_from = None, fm_journal_start = None, fm_journal_last = None\<rparr>"
  by (simp add: read_meta_table_def meta_height_def)

lemma fed_rollback:
  obtains f where "handle_reorg redb_savepoints 2 2 fed_file = Inr f"
    "dogemap_feed_meta (rf_content f) = [(META_DATABASE_ID, replicate 16 7)]"
  by (simp add: handle_reorg_def redb_savepoints_def fed_file_def fed_db_def sample_db_def old_chain_def preserve_meta_def
      fed_meta block_count_def add_or_panic_def saturating_sub_def increment_statistic_def reinstate_meta_def
      count_of_def width_defs)

theorem stale_requests_refused_witness:
  "\<exists>f. handle_reorg redb_savepoints 2 2 fed_file = Inr f \<and>
    dogemap_feed_block sample_feed 0 (rf_content f) sample_request [] = (Inl (Refused SnapshotReplaced), [])"
proof -
  obtain f where f: "handle_reorg redb_savepoints 2 2 fed_file = Inr f"
    "dogemap_feed_meta (rf_content f) = [(META_DATABASE_ID, replicate 16 7)]" by (rule fed_rollback)
  obtain i' where i': "read_identity sample_feed 0 (db_content redb_savepoints f) = Inr i'"
    using f(2) by (simp add: read_identity_def fed_meta)
  obtain i where i: "read_identity sample_feed 0 (db_content redb_savepoints fed_file) = Inr i"
    "fi_database_id i = Some (rq_database_id sample_request)" "rq_reorg_epoch sample_request \<le> fi_reorg_epoch i"
    by (simp add: read_identity_def fed_file_def fed_db_def fed_meta sample_feed_def sample_request_def)
  from stale_requests_refused [OF ri.index_store_axioms fed_inv f(1) i(1) i' i(2,3), of "[]"] f(1) show ?thesis by auto
qed

end
