(* ===== verification/Tap_Text.thy ===== *)
theory Tap_Text
  imports Complex_Main Identifier Inscription
begin

text \<open>
  The text layer of the TAP protocol (\<open>src/index/updater/inscription_updater/tap/mod.rs\<close>): JSON values
  read and written the way a JavaScript writer does, numbers with decimals, tickers, addresses and the
  heights at which rules begin. Strings are lists of code points.

  What comes from libraries is in the record \<open>tap_env\<close>, with the network and the block at hand: lower
  case by the Unicode tables, grapheme clusters, the JSON reader and the quoting of a string
  (serde_json), floating-point numbers and their text, lossy UTF-8 decoding, Base58Check, SHA-256 and
  the secp256k1 operations.

  \<open>resolve_number_exact\<close> shows that scaling a decimal text by the decimals of a token is truncation of
  the exact rational value, in canonical digits.
\<close>

section \<open>Values and the environment\<close>

datatype 'f tjson =
    TNull
  | TBool bool
  | TInt int
  | TFloat 'f
  | TString "rchar list"
  | TArray "'f tjson list"
  | TObject "(rchar list \<times> 'f tjson) list"

record 'f tap_env =
  te_height :: u32
  te_timestamp :: u32
  te_mainnet :: bool
  te_ids :: txid_api
  te_lower :: "rchar list \<Rightarrow> rchar list"
  te_char_lower :: "rchar \<Rightarrow> rchar list"
  te_graphemes :: "rchar list \<Rightarrow> usize"
  te_json_from_str :: "rchar list \<Rightarrow> 'f tjson option"
  te_json_quote :: "rchar list \<Rightarrow> rchar list"
  te_float_text :: "'f \<Rightarrow> rchar list"
  te_float_bigint :: "'f \<Rightarrow> nat option"
  te_utf8_lossy :: "byte list \<Rightarrow> rchar list"
  te_base58check :: "rchar list \<Rightarrow> nat list option"
  te_hex_decode :: "rchar list \<Rightarrow> nat list option"
  te_sha256 :: "nat list \<Rightarrow> nat list"
  te_recovery_id_ok :: "int \<Rightarrow> bool"
  te_recover :: "nat list \<Rightarrow> nat list \<Rightarrow> int \<Rightarrow> nat list option"
  te_signature_ok :: "nat list \<Rightarrow> bool"
  te_verify :: "nat list \<Rightarrow> nat list \<Rightarrow> nat list \<Rightarrow> bool"

text \<open>\<open>Value::get\<close>, \<open>as_str\<close>, \<open>as_array\<close>.\<close>

definition tj_get :: "'f tjson \<Rightarrow> rchar list \<Rightarrow> 'f tjson option" where
  "tj_get v k = (case v of TObject m \<Rightarrow> map_of m k | _ \<Rightarrow> None)"

definition tj_str :: "'f tjson \<Rightarrow> rchar list option" where
  "tj_str v = (case v of TString s \<Rightarrow> Some s | _ \<Rightarrow> None)"

definition tj_array :: "'f tjson \<Rightarrow> 'f tjson list option" where
  "tj_array v = (case v of TArray xs \<Rightarrow> Some xs | _ \<Rightarrow> None)"

definition tj_is_object :: "'f tjson \<Rightarrow> bool" where
  "tj_is_object v = (case v of TObject m \<Rightarrow> True | _ \<Rightarrow> False)"

definition tj_is_number :: "'f tjson \<Rightarrow> bool" where
  "tj_is_number v = (case v of TInt i \<Rightarrow> True | TFloat f \<Rightarrow> True | _ \<Rightarrow> False)"

definition get_str :: "'f tjson \<Rightarrow> rchar list \<Rightarrow> rchar list option" where
  "get_str v k = Option.bind (tj_get v k) tj_str"

text \<open>\<open>get_mut(k)\<close> followed by an assignment: the value of an existing key changes.\<close>

definition tj_set :: "rchar list \<Rightarrow> 'f tjson \<Rightarrow> 'f tjson \<Rightarrow> 'f tjson" where
  "tj_set k v j = (case j of TObject m \<Rightarrow>
     TObject (map (\<lambda>(k', v'). if k' = k then (k', v) else (k', v')) m) | _ \<Rightarrow> j)"

section \<open>Strings\<close>

definition begins_with :: "'a list \<Rightarrow> 'a list \<Rightarrow> bool" where
  "begins_with p s \<longleftrightarrow> take (length p) s = p"

definition strip_prefix :: "'a list \<Rightarrow> 'a list \<Rightarrow> 'a list option" where
  "strip_prefix p s = (if begins_with p s then Some (drop (length p) s) else None)"

definition utf8_char :: "rchar \<Rightarrow> nat list" where
  "utf8_char c =
    (if c < 128 then [c]
     else if c < 2048 then [192 + c div 64, 128 + c mod 64]
     else if c < 65536 then [224 + c div 4096, 128 + c div 64 mod 64, 128 + c mod 64]
     else [240 + c div 262144, 128 + c div 4096 mod 64, 128 + c div 64 mod 64, 128 + c mod 64])"

definition utf8 :: "rchar list \<Rightarrow> nat list" where
  "utf8 s = concat (map utf8_char s)"

fun split_at :: "rchar \<Rightarrow> rchar list \<Rightarrow> rchar list list" where
  "split_at c [] = [[]]"
| "split_at c (x # xs) =
    (if x = c then [] # split_at c xs
     else (case split_at c xs of p # ps \<Rightarrow> (x # p) # ps | [] \<Rightarrow> [[x]]))"

fun join :: "rchar list \<Rightarrow> rchar list list \<Rightarrow> rchar list" where
  "join sep [] = []"
| "join sep [x] = x"
| "join sep (x # y # ys) = x @ sep @ join sep (y # ys)"

definition is_ascii_digit :: "rchar \<Rightarrow> bool" where
  "is_ascii_digit c \<longleftrightarrow> 48 \<le> c \<and> c \<le> 57"

definition is_ascii_hexdigit :: "rchar \<Rightarrow> bool" where
  "is_ascii_hexdigit c \<longleftrightarrow> is_ascii_digit c \<or> 97 \<le> c \<and> c \<le> 102 \<or> 65 \<le> c \<and> c \<le> 70"

definition to_digit :: "nat \<Rightarrow> rchar \<Rightarrow> nat option" where
  "to_digit radix c =
    (let d = (if is_ascii_digit c then c - 48
              else if 97 \<le> c \<and> c \<le> 122 then c - 87
              else if 65 \<le> c \<and> c \<le> 90 then c - 55
              else radix)
     in if d < radix then Some d else None)"

definition js_hex_value :: "rchar \<Rightarrow> nat" where
  "js_hex_value b =
    (if 48 \<le> b \<and> b \<le> 57 then b - 48
     else if 97 \<le> b \<and> b \<le> 102 then b - 97 + 10
     else if 65 \<le> b \<and> b \<le> 70 then b - 65 + 10
     else 0)"

definition from_hex :: "rchar list \<Rightarrow> nat" where
  "from_hex = foldl (\<lambda>a c. a * 16 + js_hex_value c) 0"

fun hex_width :: "nat \<Rightarrow> nat \<Rightarrow> rchar list" where
  "hex_width 0 n = []"
| "hex_width (Suc k) n = hex_width k (n div 16) @ [hex_digit (n mod 16)]"

section \<open>Signed integers\<close>

definition i128_min :: int where "i128_min = - (2 ^ 127)"
definition i128_max :: int where "i128_max = 2 ^ 127 - 1"

text \<open>The plain operators on \<open>i128\<close> of a release build, the saturating ones, \<open>Display\<close> and \<open>FromStr\<close>.\<close>

definition i128 :: "int \<Rightarrow> int" where
  "i128 x = (x + 2 ^ 127) mod 2 ^ 128 - 2 ^ 127"

definition i128_sat :: "int \<Rightarrow> int" where
  "i128_sat x = max i128_min (min i128_max x)"

definition show_int :: "int \<Rightarrow> rchar list" where
  "show_int i = (if i < 0 then 45 # show_nat (nat (- i)) else show_nat (nat i))"

definition parse_sint :: "int \<Rightarrow> int \<Rightarrow> rchar list \<Rightarrow> int option" where
  "parse_sint lo hi s =
    (case s of
       [] \<Rightarrow> None
     | c # rest \<Rightarrow>
         if c = 45 then
           (if rest = [] then None else map_option (\<lambda>n. - int n) (parse_digits (nat (- lo)) 0 rest))
         else map_option int (parse_uint (nat hi) s))"

definition parse_i128 :: "rchar list \<Rightarrow> int option" where
  "parse_i128 = parse_sint i128_min i128_max"

section \<open>Whitespace and numbers\<close>

definition is_js_whitespace :: "rchar \<Rightarrow> bool" where
  "is_js_whitespace c \<longleftrightarrow>
    c \<in> {9, 10, 11, 12, 13, 32, 160, 5760, 8232, 8233, 8239, 8287, 12288, 65279} \<or> 8192 \<le> c \<and> c \<le> 8202"

definition trim_js_whitespace :: "rchar list \<Rightarrow> rchar list" where
  "trim_js_whitespace s = rev (dropWhile is_js_whitespace (rev (dropWhile is_js_whitespace s)))"

fun valid_number_loop :: "bool \<Rightarrow> rchar list \<Rightarrow> bool" where
  "valid_number_loop seen_dot [] = True"
| "valid_number_loop seen_dot (c # cs) =
    (if is_ascii_digit c then valid_number_loop seen_dot cs
     else if c = 46 \<and> \<not> seen_dot then valid_number_loop True cs
     else False)"

definition is_valid_number :: "rchar list \<Rightarrow> bool" where
  "is_valid_number s \<longleftrightarrow> s = [] \<or> valid_number_loop False s"

fun first_non_zero :: "usize \<Rightarrow> rchar list \<Rightarrow> usize" where
  "first_non_zero i [] = i"
| "first_non_zero i (c # cs) = (if c \<noteq> 48 then i else first_non_zero (i + 1) cs)"

definition resolve_number_string :: "rchar list \<Rightarrow> u32 \<Rightarrow> rchar list option" where
  "resolve_number_string num decimals =
    (if \<not> is_valid_number num then None
     else
       let parts = split_at 46 num;
           int_part = (case parts of p # _ \<Rightarrow> p | [] \<Rightarrow> []);
           frac_part = (case parts of _ # p # _ \<Rightarrow> p | _ \<Rightarrow> [])
       in if 2 < length parts then None
          else
            let frac_part = frac_part @ replicate (decimals - length frac_part) 48;
                frac_trunc = take decimals frac_part;
                number = (if int_part \<noteq> [48] then int_part else []) @ frac_trunc;
                number = (if list_all (\<lambda>c. c = 48) number \<or> number = [] then [48] else number);
                n = first_non_zero 0 number;
                number = (if 0 < n then (if drop n number = [] then [48] else drop n number) else number)
            in Some (if number = [] then [48] else number))"

definition MAX_DEC_U64_STR :: "rchar list" where "MAX_DEC_U64_STR = str ''18446744073709551615''"
definition BURN_ADDRESS :: "rchar list" where "BURN_ADDRESS = str ''1BitcoinEaterAddressDontSendf59kuE''"


section \<open>Internal markers of lone surrogates\<close>

definition JS_SURROGATE_MARKER_START :: rchar where "JS_SURROGATE_MARKER_START = 57344"
definition JS_SURROGATE_MARKER_END :: rchar where "JS_SURROGATE_MARKER_END = 57345"

definition is_js_internal_marker_char :: "rchar \<Rightarrow> bool" where
  "is_js_internal_marker_char ch \<longleftrightarrow> ch = JS_SURROGATE_MARKER_START \<or> ch = JS_SURROGATE_MARKER_END"

definition js_internal_surrogate_marker :: "u16 \<Rightarrow> rchar list" where
  "js_internal_surrogate_marker code =
    [JS_SURROGATE_MARKER_START, 115] @ hex_width 4 code @ [JS_SURROGATE_MARKER_END]"

definition js_internal_scalar_marker :: "rchar \<Rightarrow> rchar list" where
  "js_internal_scalar_marker ch =
    [JS_SURROGATE_MARKER_START, 117] @ hex_width 6 ch @ [JS_SURROGATE_MARKER_END]"

text \<open>\<open>js_internal_marker_at\<close> at the beginning of a suffix: the kind, the value and what follows.\<close>

definition js_internal_marker_at :: "rchar list \<Rightarrow> (rchar \<times> nat \<times> rchar list) option" where
  "js_internal_marker_at s =
    (case s of
       c # kind # rest \<Rightarrow>
         if c \<noteq> JS_SURROGATE_MARKER_START \<or> kind \<noteq> 115 \<and> kind \<noteq> 117 then None
         else
           let hex_len = (if kind = 115 then 4 else 6);
               lo = (if kind = 115 then 55296 else 0);
               hi = (if kind = 115 then 57343 else 1114111);
               hex = take hex_len rest;
               value = from_hex hex
           in if length rest \<le> hex_len \<or> rest ! hex_len \<noteq> JS_SURROGATE_MARKER_END
                 \<or> \<not> list_all is_ascii_hexdigit hex \<or> value < lo \<or> hi < value then None
              else Some (kind, value, drop (hex_len + 1) rest)
     | _ \<Rightarrow> None)"

lemma marker_at_shorter: "js_internal_marker_at s = Some (kind, v, next) \<Longrightarrow> length next < length s"
  by (auto simp: js_internal_marker_at_def Let_def split: list.splits if_splits)

definition scalar_from_u32 :: "nat \<Rightarrow> rchar option" where
  "scalar_from_u32 n = (if n \<le> 1114111 \<and> \<not> (55296 \<le> n \<and> n \<le> 57343) then Some n else None)"

function segmenter_loop :: "rchar list \<Rightarrow> rchar list" where
  "segmenter_loop s =
    (case s of
       [] \<Rightarrow> []
     | ch # cs \<Rightarrow>
         (case js_internal_marker_at s of
            Some (kind, v, next) \<Rightarrow>
              (if kind = 115 then 65533 else case scalar_from_u32 v of Some c \<Rightarrow> c | None \<Rightarrow> 65533) # segmenter_loop next
          | None \<Rightarrow> ch # segmenter_loop cs))"
  by pat_completeness auto
termination
  by (relation "measure length") (auto dest: marker_at_shorter)

definition visible_length :: "'f tap_env \<Rightarrow> rchar list \<Rightarrow> usize" where
  "visible_length E s =
    te_graphemes E (if JS_SURROGATE_MARKER_START \<notin> set s then s else segmenter_loop s)"

function lowercase_loop :: "'f tap_env \<Rightarrow> rchar list \<Rightarrow> rchar list \<Rightarrow> rchar list" where
  "lowercase_loop E segment s =
    (case s of
       [] \<Rightarrow> te_lower E segment
     | ch # cs \<Rightarrow>
         (case js_internal_marker_at s of
            Some (kind, v, next) \<Rightarrow>
              te_lower E segment @
              (if kind = 115 then js_internal_surrogate_marker v
               else case scalar_from_u32 v of
                      Some c \<Rightarrow> concat (map (\<lambda>l. if is_js_internal_marker_char l then js_internal_scalar_marker l else [l])
                                    (te_char_lower E c))
                    | None \<Rightarrow> []) @
              lowercase_loop E [] next
          | None \<Rightarrow> lowercase_loop E (segment @ [ch]) cs))"
  by pat_completeness auto
termination
  by (relation "measure (length \<circ> snd \<circ> snd)") (auto dest: marker_at_shorter)

definition js_to_lowercase :: "'f tap_env \<Rightarrow> rchar list \<Rightarrow> rchar list" where
  "js_to_lowercase E s = (if JS_SURROGATE_MARKER_START \<notin> set s then te_lower E s else lowercase_loop E [] s)"

definition json_escaped_inner :: "'f tap_env \<Rightarrow> rchar list \<Rightarrow> rchar list" where
  "json_escaped_inner E s =
    (let quoted = te_json_quote E s in if 2 \<le> length quoted then butlast (drop 1 quoted) else [])"

function stringify_loop :: "'f tap_env \<Rightarrow> rchar list \<Rightarrow> rchar list \<Rightarrow> rchar list" where
  "stringify_loop E segment s =
    (case s of
       [] \<Rightarrow> json_escaped_inner E segment
     | ch # cs \<Rightarrow>
         (case js_internal_marker_at s of
            Some (kind, v, next) \<Rightarrow>
              json_escaped_inner E segment @
              (if kind = 115 then [92, 117] @ hex_width 4 v
               else case scalar_from_u32 v of Some c \<Rightarrow> json_escaped_inner E [c] | None \<Rightarrow> []) @
              stringify_loop E [] next
          | None \<Rightarrow> stringify_loop E (segment @ [ch]) cs))"
  by pat_completeness auto
termination
  by (relation "measure (length \<circ> snd \<circ> snd)") (auto dest: marker_at_shorter)

declare segmenter_loop.simps [simp del] lowercase_loop.simps [simp del] stringify_loop.simps [simp del]

definition js_json_stringify_str :: "'f tap_env \<Rightarrow> rchar list \<Rightarrow> rchar list" where
  "js_json_stringify_str E s =
    (if JS_SURROGATE_MARKER_START \<notin> set s then te_json_quote E s else [34] @ stringify_loop E [] s @ [34])"

definition json_stringify_lower :: "'f tap_env \<Rightarrow> rchar list \<Rightarrow> rchar list" where
  "json_stringify_lower E s = js_json_stringify_str E (js_to_lowercase E s)"

section \<open>Reading JSON\<close>

definition parse_u_escape :: "rchar list \<Rightarrow> u16 option" where
  "parse_u_escape s =
    (if length s < 6 \<or> s ! 0 \<noteq> 92 \<or> s ! 1 \<noteq> 117 then None
     else let hex = take 4 (drop 2 s) in if list_all is_ascii_hexdigit hex then Some (from_hex hex) else None)"

definition is_high_surrogate :: "u16 \<Rightarrow> bool" where
  "is_high_surrogate code \<longleftrightarrow> 55296 \<le> code \<and> code \<le> 56319"

definition is_low_surrogate :: "u16 \<Rightarrow> bool" where
  "is_low_surrogate code \<longleftrightarrow> 56320 \<le> code \<and> code \<le> 57343"

text \<open>One step inside a string, at a backslash: what is written and how much is read.\<close>

definition escape_step :: "rchar list \<Rightarrow> rchar list \<times> usize" where
  "escape_step s =
    (case parse_u_escape s of
       Some code \<Rightarrow>
         if is_high_surrogate code then
           (case parse_u_escape (drop 6 s) of
              Some next_code \<Rightarrow>
                if is_low_surrogate next_code then (take 12 s, 12) else (js_internal_surrogate_marker code, 6)
            | None \<Rightarrow> (js_internal_surrogate_marker code, 6))
         else if is_low_surrogate code then (js_internal_surrogate_marker code, 6)
         else if is_js_internal_marker_char code then (js_internal_scalar_marker code, 6)
         else (take 6 s, 6)
     | None \<Rightarrow> (take 2 s, length (take 2 s)))"

function preprocess_loop :: "bool \<Rightarrow> rchar list \<Rightarrow> rchar list" where
  "preprocess_loop in_string s =
    (case s of
       [] \<Rightarrow> []
     | b # bs \<Rightarrow>
         if \<not> in_string then utf8_char b @ preprocess_loop (b = 34) bs
         else if b = 34 then 34 # preprocess_loop False bs
         else if b = 92 then
           (case escape_step s of (out, n) \<Rightarrow> out @ preprocess_loop True (drop (max 1 n) s))
         else (if is_js_internal_marker_char b then js_internal_scalar_marker b else [b]) @ preprocess_loop True bs)"
  by pat_completeness auto
termination
  by (relation "measure (length \<circ> snd)") auto

declare preprocess_loop.simps [simp del]

definition preprocess_js_json_for_serde :: "rchar list \<Rightarrow> rchar list" where
  "preprocess_js_json_for_serde raw = preprocess_loop False raw"

definition js_json_string_parse_str :: "'f tap_env \<Rightarrow> rchar list \<Rightarrow> rchar list option" where
  "js_json_string_parse_str E raw =
    (case te_json_from_str E (preprocess_js_json_for_serde raw) of Some (TString s) \<Rightarrow> Some s | _ \<Rightarrow> None)"

fun stringify_would_throw :: "'f tjson \<Rightarrow> bool" where
  "stringify_would_throw (TObject m) =
    list_ex (\<lambda>(key, child). key \<in> {str ''max'', str ''lim'', str ''amt''} \<and> tj_is_number child \<or> stringify_would_throw child) m"
| "stringify_would_throw (TArray items) = list_ex stringify_would_throw items"
| "stringify_would_throw v = False"

fun js_value_to_string :: "'f tap_env \<Rightarrow> 'f tjson \<Rightarrow> rchar list" where
  "js_value_to_string E TNull = str ''null''"
| "js_value_to_string E (TBool b) = (if b then str ''true'' else str ''false'')"
| "js_value_to_string E (TInt i) = show_int i"
| "js_value_to_string E (TFloat f) = te_float_text E f"
| "js_value_to_string E (TString s) = s"
| "js_value_to_string E (TArray items) =
    join [44] (map (\<lambda>item. if item = TNull then [] else js_value_to_string E item) items)"
| "js_value_to_string E (TObject m) = str ''[object Object]''"

fun js_json_stringify :: "'f tap_env \<Rightarrow> 'f tjson \<Rightarrow> rchar list" where
  "js_json_stringify E TNull = str ''null''"
| "js_json_stringify E (TBool b) = (if b then str ''true'' else str ''false'')"
| "js_json_stringify E (TInt i) = show_int i"
| "js_json_stringify E (TFloat f) = te_float_text E f"
| "js_json_stringify E (TString s) = js_json_stringify_str E s"
| "js_json_stringify E (TArray items) = [91] @ join [44] (map (js_json_stringify E) items) @ [93]"
| "js_json_stringify E (TObject m) =
    [123] @ join [44] (map (\<lambda>(k, v). js_json_stringify_str E k @ [58] @ js_json_stringify E v) m) @ [125]"

section \<open>Integers out of values\<close>

fun parse_int_digits :: "nat \<Rightarrow> bool \<Rightarrow> int \<Rightarrow> rchar list \<Rightarrow> int option" where
  "parse_int_digits radix found acc [] = (if found then Some acc else None)"
| "parse_int_digits radix found acc (c # cs) =
    (case to_digit radix c of
       None \<Rightarrow> if found then Some acc else None
     | Some d \<Rightarrow> parse_int_digits radix True (i128_sat (i128_sat (acc * int radix) + int d)) cs)"

definition js_parse_int_with_string :: "'f tap_env \<Rightarrow> 'f tjson \<Rightarrow> (int \<times> rchar list) option" where
  "js_parse_int_with_string E v =
    (let js_s = js_value_to_string E v;
         s = dropWhile is_js_whitespace js_s;
         sign = (if begins_with [45] s then - 1 else 1);
         s = (if begins_with [45] s \<or> begins_with [43] s then drop 1 s else s);
         hex = begins_with (str ''0x'') s \<or> begins_with (str ''0X'') s;
         radix = (if hex then 16 else 10);
         digits = (if hex then drop 2 s else s)
     in map_option (\<lambda>acc. (i128_sat (acc * sign), js_s)) (parse_int_digits radix False 0 digits))"

definition js_parse_int :: "'f tap_env \<Rightarrow> 'f tjson \<Rightarrow> int option" where
  "js_parse_int E v = map_option fst (js_parse_int_with_string E v)"

definition js_parse_int_i32 :: "'f tap_env \<Rightarrow> 'f tjson \<Rightarrow> int option" where
  "js_parse_int_i32 E v =
    Option.bind (js_parse_int E v) (\<lambda>n. if - (2 ^ 31) \<le> n \<and> n < 2 ^ 31 then Some n else None)"

fun big_digits :: "nat \<Rightarrow> nat \<Rightarrow> rchar list \<Rightarrow> nat option" where
  "big_digits radix acc [] = Some acc"
| "big_digits radix acc (c # cs) =
    (case to_digit radix c of None \<Rightarrow> None | Some d \<Rightarrow> big_digits radix (acc * radix + d) cs)"

definition radix_prefix :: "rchar list \<Rightarrow> nat option" where
  "radix_prefix s =
    (if begins_with (str ''0x'') s \<or> begins_with (str ''0X'') s then Some 16
     else if begins_with (str ''0b'') s \<or> begins_with (str ''0B'') s then Some 2
     else if begins_with (str ''0o'') s \<or> begins_with (str ''0O'') s then Some 8
     else None)"

definition parse_js_bigint_string_to_biguint :: "rchar list \<Rightarrow> nat option" where
  "parse_js_bigint_string_to_biguint s =
    (let s = trim_js_whitespace s
     in if s = [] then Some 0
        else if begins_with [45] s then None
        else
          (case radix_prefix s of
             Some radix \<Rightarrow> if drop 2 s = [] then None else big_digits radix 0 (drop 2 s)
           | None \<Rightarrow>
               (case strip_prefix [43] s of
                  Some rest \<Rightarrow>
                    if radix_prefix rest \<noteq> None \<or> rest = [] then None else big_digits 10 0 rest
                | None \<Rightarrow> big_digits 10 0 s)))"

definition js_bigint_value_to_biguint :: "'f tap_env \<Rightarrow> 'f tjson \<Rightarrow> nat option" where
  "js_bigint_value_to_biguint E v =
    (case v of
       TBool b \<Rightarrow> Some (if b then 1 else 0)
     | TInt i \<Rightarrow> if i < 0 then None else Some (nat i)
     | TFloat f \<Rightarrow> te_float_bigint E f
     | TString s \<Rightarrow> parse_js_bigint_string_to_biguint s
     | TArray items \<Rightarrow> parse_js_bigint_string_to_biguint (js_value_to_string E v)
     | _ \<Rightarrow> None)"

text \<open>32 big-endian bytes.\<close>

definition big_endian :: "nat \<Rightarrow> nat \<Rightarrow> nat list" where
  "big_endian k n = map unat (rev (le_bytes k n))"

definition js_bigint_value_to_32 :: "'f tap_env \<Rightarrow> 'f tjson \<Rightarrow> nat list option" where
  "js_bigint_value_to_32 E v =
    Option.bind (js_bigint_value_to_biguint E v) (\<lambda>n. if n < 256 ^ 32 then Some (big_endian 32 n) else None)"

section \<open>Rules and their heights\<close>

datatype tap_feature =
    Bitmap | TapStart | FullTicker | Jubilee | Dmt | DmtNatRewards | PrivilegeActivation
  | ValueStringifyActivation | DmtParseintActivation | TokenAuthWhitelistFixActivation | TestnetFixActivation
  | TokenAuthorityStakingUpgradeActivation | MinerRewardShieldActivation
  | MinerRewardTransferExecutionShieldActivation

definition DOGE_TAP_DOGEMAP_START_HEIGHT :: u32 where "DOGE_TAP_DOGEMAP_START_HEIGHT = 4771259"
definition DOGE_TAP_FULL_TICKER_HEIGHT :: u32 where "DOGE_TAP_FULL_TICKER_HEIGHT = 5487639"
definition DOGE_TAP_DMT_PRECISE_HEIGHT :: u32 where "DOGE_TAP_DMT_PRECISE_HEIGHT = 5497100"

definition feature_height :: "'f tap_env \<Rightarrow> tap_feature \<Rightarrow> u32" where
  "feature_height E feature =
    (if \<not> te_mainnet E then 0
     else
       case feature of
         Bitmap \<Rightarrow> DOGE_TAP_DOGEMAP_START_HEIGHT
       | TapStart \<Rightarrow> DOGE_TAP_DOGEMAP_START_HEIGHT
       | Dmt \<Rightarrow> DOGE_TAP_DOGEMAP_START_HEIGHT
       | PrivilegeActivation \<Rightarrow> DOGE_TAP_DOGEMAP_START_HEIGHT
       | FullTicker \<Rightarrow> DOGE_TAP_FULL_TICKER_HEIGHT
       | DmtParseintActivation \<Rightarrow> DOGE_TAP_DMT_PRECISE_HEIGHT
       | Jubilee \<Rightarrow> 0
       | ValueStringifyActivation \<Rightarrow> u32_max
       | TokenAuthWhitelistFixActivation \<Rightarrow> u32_max
       | TestnetFixActivation \<Rightarrow> u32_max
       | DmtNatRewards \<Rightarrow> u32_max
       | TokenAuthorityStakingUpgradeActivation \<Rightarrow> u32_max
       | MinerRewardShieldActivation \<Rightarrow> u32_max
       | MinerRewardTransferExecutionShieldActivation \<Rightarrow> u32_max)"

definition tap_feature_enabled :: "'f tap_env \<Rightarrow> tap_feature \<Rightarrow> bool" where
  "tap_feature_enabled E feature \<longleftrightarrow> feature_height E feature \<le> te_height E"

definition parse_tap_json_value :: "'f tap_env \<Rightarrow> rchar list \<Rightarrow> 'f tjson option" where
  "parse_tap_json_value E s =
    Option.bind (te_json_from_str E (preprocess_js_json_for_serde s)) (\<lambda>value.
    if tap_feature_enabled E ValueStringifyActivation \<and> stringify_would_throw value then None else Some value)"

section \<open>Tickers and addresses\<close>

definition valid_tap_ticker_visible_len :: "u32 \<Rightarrow> u32 \<Rightarrow> usize \<Rightarrow> bool" where
  "valid_tap_ticker_visible_len full_height height len =
    (if height < full_height then len = 3 \<or> 5 \<le> len \<and> len \<le> 32 else 0 < len \<and> len \<le> 32)"

definition valid_brc20_ticker_visible_len :: "u32 \<Rightarrow> u32 \<Rightarrow> usize \<Rightarrow> bool" where
  "valid_brc20_ticker_visible_len full_height height len =
    (if height < full_height then len = 1 \<or> len = 2 \<or> len = 4 else False)"

definition valid_transfer_ticker_visible_len ::
  "'f tap_env \<Rightarrow> u32 \<Rightarrow> u32 \<Rightarrow> u32 \<Rightarrow> rchar list \<Rightarrow> usize \<Rightarrow> bool" where
  "valid_transfer_ticker_visible_len E full_height height jubilee tick len =
    (let t = js_to_lowercase E tick;
         is_neg = begins_with [45] t;
         is_dmt = begins_with (str ''dmt-'') t
     in if height < full_height then
          (if is_dmt then 5 \<le> len \<and> len \<le> 36
           else if \<not> is_neg then len = 3 \<or> 5 \<le> len \<and> len \<le> 32
           else if jubilee \<le> height then len = 4 \<or> 6 \<le> len \<and> len \<le> 33
           else False)
        else
          (if is_dmt then 0 < len \<and> len \<le> 36
           else if \<not> is_neg then 0 < len \<and> len \<le> 32
           else if jubilee \<le> height then 1 < len \<and> len \<le> 33
           else False))"

definition strip_prefix_for_len_check :: "'f tap_env \<Rightarrow> rchar list \<Rightarrow> rchar list" where
  "strip_prefix_for_len_check E tick =
    (let tl = js_to_lowercase E tick
     in if begins_with [45] tl then drop 1 tick
        else if begins_with (str ''dmt-'') tl then drop 4 tick
        else tick)"

definition validate_trade_main_ticker_len :: "'f tap_env \<Rightarrow> rchar list \<Rightarrow> bool" where
  "validate_trade_main_ticker_len E tick =
    valid_transfer_ticker_visible_len E (feature_height E FullTicker) (te_height E) (feature_height E Jubilee)
      tick (visible_length E tick)"

definition validate_trade_accept_ticker_len :: "'f tap_env \<Rightarrow> rchar list \<Rightarrow> bool" where
  "validate_trade_accept_ticker_len E tick =
    valid_tap_ticker_visible_len (feature_height E FullTicker) (te_height E)
      (visible_length E (strip_prefix_for_len_check E tick))"

definition doge_address_version :: "'f tap_env \<Rightarrow> rchar list \<Rightarrow> u8 option" where
  "doge_address_version E addr =
    Option.bind (te_base58check E (trim_js_whitespace addr)) (\<lambda>payload.
    if length payload = 21 then Some (payload ! 0) else None)"

definition is_valid_bitcoin_address :: "'f tap_env \<Rightarrow> rchar list \<Rightarrow> bool" where
  "is_valid_bitcoin_address E addr =
    (case doge_address_version E addr of
       None \<Rightarrow> False
     | Some version \<Rightarrow>
         let mainnet = version = 30 \<or> version = 22;
             testnet = version = 113 \<or> version = 196
         in if te_height E < feature_height E FullTicker then mainnet \<or> testnet
            else if te_mainnet E then mainnet else testnet)"

definition normalize_address :: "'f tap_env \<Rightarrow> rchar list \<Rightarrow> rchar list" where
  "normalize_address E addr =
    (let t = trim_js_whitespace addr; tl = te_lower E t in if begins_with (str ''bc1'') tl then tl else t)"

section \<open>Scaling a decimal text\<close>

text \<open>The digits before and after the point, and the value of a digit string.\<close>

definition digits_value :: "rchar list \<Rightarrow> nat" where
  "digits_value = foldl (\<lambda>a c. a * 10 + (c - 48)) 0"

definition whole_digits :: "rchar list \<Rightarrow> rchar list" where
  "whole_digits s = takeWhile (\<lambda>c. c \<noteq> 46) s"

definition fraction_digits :: "rchar list \<Rightarrow> rchar list" where
  "fraction_digits s = drop 1 (dropWhile (\<lambda>c. c \<noteq> 46) s)"

definition decimal_text_value :: "rchar list \<Rightarrow> rat" where
  "decimal_text_value s =
    of_nat (digits_value (whole_digits s)) +
    of_nat (digits_value (fraction_digits s)) / 10 ^ length (fraction_digits s)"

lemma digits_value_simps [simp]:
  "digits_value [] = 0"
  "digits_value (xs @ [c]) = digits_value xs * 10 + (c - 48)"
  by (simp_all add: digits_value_def)

lemma digits_value_append: "digits_value (xs @ ys) = digits_value xs * 10 ^ length ys + digits_value ys"
proof (induction ys rule: rev_induct)
  case (snoc y ys)
  have "digits_value (xs @ ys @ [y]) = digits_value ((xs @ ys) @ [y])" by simp
  also have "\<dots> = digits_value (xs @ ys) * 10 + (y - 48)" by (simp only: digits_value_simps)
  finally show ?case using snoc by (simp add: algebra_simps)
qed simp

lemma digits_value_zeros [simp]: "digits_value (replicate n 48) = 0"
  by (induction n) (simp_all add: digits_value_append [of "[48]", simplified] digits_value_def)

lemma digits_value_less: "list_all is_ascii_digit xs \<Longrightarrow> digits_value xs < 10 ^ length xs"
proof (induction xs rule: rev_induct)
  case (snoc x xs)
  then have "x - 48 \<le> 9" "digits_value xs < 10 ^ length xs" by (auto simp: is_ascii_digit_def)
  then show ?case by simp
qed simp

lemma show_digits_value:
  assumes "list_all is_ascii_digit xs" "xs \<noteq> []" "hd xs \<noteq> 48"
  shows "show_nat (digits_value xs) = xs \<and> 0 < digits_value xs"
  using assms
proof (induction xs rule: rev_induct)
  case (snoc x xs)
  then have x: "48 \<le> x" "x \<le> 57" by (auto simp: is_ascii_digit_def)
  show ?case
  proof (cases "xs = []")
    case True
    with snoc.prems x show ?thesis by (simp add: show_nat.simps [of "x - 48"] digits_value_def)
  next
    case False
    with snoc have "show_nat (digits_value xs) = xs" "0 < digits_value xs" by auto
    moreover define e where "e = x - 48"
    moreover have "e < 10" "48 + e = x" using x by (simp_all add: e_def)
    moreover have "(digits_value xs * 10 + e) div 10 = digits_value xs"
        "48 + (digits_value xs * 10 + e) mod 10 = x" "\<not> digits_value xs * 10 + e < 10"
      using \<open>e < 10\<close> \<open>48 + e = x\<close> \<open>0 < digits_value xs\<close> by simp_all
    ultimately show ?thesis
      unfolding digits_value_simps show_nat.simps [of "digits_value xs * 10 + (x - 48)"] by simp
  qed
qed simp

lemma first_non_zero_eq: "first_non_zero i xs = i + length (takeWhile (\<lambda>c. c = 48) xs)"
  by (induction i xs rule: first_non_zero.induct) auto

lemma strip_zeros:
  assumes "list_all is_ascii_digit xs" "\<not> list_all (\<lambda>c. c = 48) xs"
  shows "drop (first_non_zero 0 xs) xs = show_nat (digits_value xs)" and "drop (first_non_zero 0 xs) xs \<noteq> []"
proof -
  let ?d = "dropWhile (\<lambda>c. c = 48) xs"
  have d: "drop (first_non_zero 0 xs) xs = ?d" by (simp add: first_non_zero_eq dropWhile_eq_drop)
  have nz: "?d \<noteq> []" using assms(2) by (auto simp: dropWhile_eq_Nil_conv list_all_iff)
  have xs: "xs = replicate (length (takeWhile (\<lambda>c. c = 48) xs)) 48 @ ?d"
    by (metis (mono_tags, lifting) replicate_length_same set_takeWhileD takeWhile_dropWhile_id)
  have "digits_value xs = digits_value ?d"
    by (subst xs) (simp add: digits_value_append)
  moreover have "list_all is_ascii_digit ?d" using assms(1) by (auto simp: list_all_iff dest: set_dropWhileD)
  moreover have "hd ?d \<noteq> 48" using hd_dropWhile [OF nz] by simp
  ultimately show "drop (first_non_zero 0 xs) xs = show_nat (digits_value xs)" and "drop (first_non_zero 0 xs) xs \<noteq> []"
    using show_digits_value [of ?d] nz d by simp_all
qed

lemma valid_number_loop_digits: "valid_number_loop True s = list_all is_ascii_digit s"
  by (induction s) auto

lemma split_at_digits: "list_all is_ascii_digit s \<Longrightarrow> split_at 46 s = [s]"
  by (induction s) (auto simp: is_ascii_digit_def)

lemma valid_number_parts:
  "valid_number_loop False s \<Longrightarrow>
    list_all is_ascii_digit (whole_digits s) \<and> list_all is_ascii_digit (fraction_digits s) \<and>
    split_at 46 s = (if 46 \<in> set s then [whole_digits s, fraction_digits s] else [whole_digits s])"
proof (induction s)
  case Nil
  then show ?case by (simp add: whole_digits_def fraction_digits_def)
next
  case (Cons c cs)
  show ?case
  proof (cases "is_ascii_digit c")
    case True
    then have "c \<noteq> 46" by (auto simp: is_ascii_digit_def)
    with True Cons show ?thesis by (auto simp: whole_digits_def fraction_digits_def)
  next
    case False
    with Cons.prems have "c = 46" "list_all is_ascii_digit cs"
      by (auto simp: valid_number_loop_digits split: if_splits)
    then show ?thesis by (auto simp: whole_digits_def fraction_digits_def split_at_digits)
  qed
qed

lemma no_point_no_fraction: "46 \<notin> set s \<Longrightarrow> fraction_digits s = []"
  by (induction s) (auto simp: fraction_digits_def)

text \<open>The number of units a decimal text stands for.\<close>

definition units_of :: "rchar list \<Rightarrow> nat \<Rightarrow> nat" where
  "units_of s d = digits_value (whole_digits s @ take d (fraction_digits s @ replicate (d - length (fraction_digits s)) 48))"

lemma units_of_value:
  assumes "is_valid_number s"
  shows "int (units_of s d) = \<lfloor>decimal_text_value s * 10 ^ d\<rfloor>"
proof -
  let ?W = "digits_value (whole_digits s)" and ?f = "fraction_digits s"
  have f: "list_all is_ascii_digit ?f"
    using assms valid_number_parts [of s] by (auto simp: is_valid_number_def fraction_digits_def)
  show ?thesis
  proof (cases "length ?f \<le> d")
    case True
    have "(10::rat) ^ d = 10 ^ (d - length ?f) * 10 ^ length ?f"
      using True by (simp add: power_add [symmetric])
    then have "decimal_text_value s * 10 ^ d = of_nat (?W * 10 ^ d + digits_value ?f * 10 ^ (d - length ?f))"
      by (simp add: decimal_text_value_def algebra_simps)
    then have "\<lfloor>decimal_text_value s * 10 ^ d\<rfloor> = int (?W * 10 ^ d + digits_value ?f * 10 ^ (d - length ?f))"
      by (metis floor_of_nat)
    then show ?thesis using True by (simp add: units_of_def digits_value_append)
  next
    case False
    let ?t = "take d ?f" and ?r = "drop d ?f"
    have split: "digits_value ?f = digits_value ?t * 10 ^ length ?r + digits_value ?r"
      using digits_value_append [of ?t ?r] by simp
    have r: "digits_value ?r < 10 ^ length ?r"
      using f by (intro digits_value_less) (auto simp: list_all_iff dest: in_set_dropD)
    have len: "length ?f = d + length ?r" using False by simp
    have pow: "(10::rat) ^ length ?f = 10 ^ d * 10 ^ length ?r" by (simp only: len power_add)
    have "decimal_text_value s * 10 ^ d =
        of_nat (?W * 10 ^ d + digits_value ?t) + of_nat (digits_value ?r) / 10 ^ length ?r"
      unfolding decimal_text_value_def split pow by (simp add: add_divide_distrib distrib_right)
    moreover have "0 \<le> (of_nat (digits_value ?r) / 10 ^ length ?r :: rat)" by simp
    moreover have "(of_nat (digits_value ?r) / 10 ^ length ?r :: rat) < 1"
    proof -
      have "(of_nat (digits_value ?r) :: rat) < of_nat (10 ^ length ?r)" using r by (simp only: of_nat_less_iff)
      then show ?thesis by (simp add: divide_less_eq)
    qed
    ultimately have "\<lfloor>decimal_text_value s * 10 ^ d\<rfloor> = int (?W * 10 ^ d + digits_value ?t)"
      by (intro floor_unique) simp_all
    then show ?thesis using False by (simp add: units_of_def digits_value_append min_def)
  qed
qed

lemma canonical_number:
  assumes m: "list_all is_ascii_digit m"
  shows "(let number = (if list_all (\<lambda>c. c = 48) m \<or> m = [] then [48] else m);
              n = first_non_zero 0 number;
              number = (if 0 < n then (if drop n number = [] then [48] else drop n number) else number)
          in Some (if number = [] then [48] else number)) = Some (show_nat (digits_value m))"
proof (cases "list_all (\<lambda>c. c = 48) m \<or> m = []")
  case True
  then have "\<forall>c\<in>set m. c = 48" unfolding list_all_iff by auto
  then have "m = replicate (length m) 48" by (metis replicate_length_same)
  then have "digits_value m = 0" by (metis digits_value_zeros)
  with True show ?thesis by (simp add: Let_def show_nat.simps [of 0])
next
  case False
  then have "\<not> list_all (\<lambda>c. c = 48) m" by blast
  with False strip_zeros [OF m this] show ?thesis by (cases "first_non_zero 0 m") (auto simp: Let_def)
qed

lemma resolve_number_units:
  "resolve_number_string s d = (if is_valid_number s then Some (show_nat (units_of s d)) else None)"
proof (cases "is_valid_number s")
  case False
  then show ?thesis by (simp add: resolve_number_string_def)
next
  case True
  define frac where "frac = take d (fraction_digits s @ replicate (d - length (fraction_digits s)) 48)"
  define m where "m = (if whole_digits s \<noteq> [48] then whole_digits s else []) @ frac"
  have dig: "list_all is_ascii_digit (whole_digits s)" "list_all is_ascii_digit (fraction_digits s)"
    using True valid_number_parts [of s] by (auto simp: is_valid_number_def fraction_digits_def whole_digits_def)
  have m: "list_all is_ascii_digit m"
    using dig by (auto simp: m_def frac_def list_all_iff is_ascii_digit_def dest: in_set_takeD)
  have v: "digits_value m = units_of s d"
    unfolding units_of_def frac_def [symmetric] m_def by (auto simp: digits_value_append) (simp add: digits_value_def)
  have parts: "(case split_at 46 s of p # _ \<Rightarrow> p | [] \<Rightarrow> []) = whole_digits s"
      "(case split_at 46 s of _ # p # _ \<Rightarrow> p | _ \<Rightarrow> []) = fraction_digits s" "\<not> 2 < length (split_at 46 s)"
    using True valid_number_parts [of s] no_point_no_fraction [of s]
    by (auto simp: is_valid_number_def whole_digits_def fraction_digits_def split: if_splits)
  have "resolve_number_string s d = Some (show_nat (digits_value m))"
    using canonical_number [OF m] True parts(3)
    unfolding resolve_number_string_def parts(1,2) Let_def frac_def [symmetric] m_def [symmetric] by simp
  with True v show ?thesis by simp
qed

text \<open>
  C24: the units of an amount are exact. \<open>resolve_number_string\<close> succeeds exactly on texts of digits with at
  most one point, and gives the canonical decimal of the floor of the text's rational value times ten to
  the decimals of the token: digits beyond the decimals are cut off, never rounded, and no leading zero is
  left.
\<close>

theorem resolve_number_exact:
  "resolve_number_string s d =
    (if is_valid_number s then Some (show_nat (nat \<lfloor>decimal_text_value s * 10 ^ d\<rfloor>)) else None)"
proof -
  have "nat \<lfloor>decimal_text_value s * 10 ^ d\<rfloor> = units_of s d" if "is_valid_number s"
    using units_of_value [OF that] by (metis nat_int)
  then show ?thesis by (simp add: resolve_number_units)
qed

end
