(* ===== verification/Tap_Store.thy ===== *)
theory Tap_Store
  imports Tap_Text "HOL-Library.AList_Mapping"
begin

text \<open>
  The key-value store of the TAP protocol (\<open>tap/kv.rs\<close>, with the records of \<open>tap/records.rs\<close>): a table
  with an overlay of writes not yet flushed, an atomic batch over both that is committed or aborted, and
  lists kept as a length row and one row per element.

  A row holds the value that is serialized into it, with the type it was written with: reading it at
  another type fails, as decoding would. The optional delta log and the route index, which only observe
  writes, the number row of the lean mode and failures of the database are not modelled, so every result of
  the source is \<open>Ok\<close> here. Nor is the byte encoding: the source writes a value that holds a marker of a
  lone surrogate as text, in which the marker is lost, where the model keeps the value.

  The locale \<open>row_store\<close> is what the handlers rely on; it is interpreted on the store, and
  \<open>atomic_batch_exact\<close> shows that a batch that is committed has the effect of its operations and one
  that is aborted has none.
\<close>

section \<open>Records\<close>

record tap_deploy =
  dr_tick :: "rchar list"
  dr_max :: "rchar list"
  dr_lim :: "rchar list"
  dr_dec :: u32
  dr_blck :: u32
  dr_tx :: "rchar list"
  dr_vo :: u32
  dr_val :: "rchar list"
  dr_ins :: "rchar list"
  dr_num :: int
  dr_ts :: u32
  dr_addr :: "rchar list"
  dr_crsd :: bool
  dr_dmt :: bool
  dr_elem :: "rchar list option"
  dr_prj :: "rchar list option"
  dr_dim :: "rchar list option"
  dr_dt :: "rchar list option"
  dr_prv :: "rchar list option"
  dr_dta :: "rchar list option"

record tap_mint =
  mr_addr :: "rchar list"
  mr_blck :: u32
  mr_amt :: "rchar list"
  mr_bal :: "rchar list"
  mr_tx :: "rchar list option"
  mr_vo :: u32
  mr_val :: "rchar list"
  mr_ins :: "rchar list option"
  mr_num :: "int option"
  mr_ts :: u32
  mr_fail :: bool
  mr_dmtblck :: "u32 option"
  mr_dta :: "rchar list option"

record transfer_init =
  ti_addr :: "rchar list"
  ti_blck :: u32
  ti_amt :: "rchar list"
  ti_trf :: "rchar list"
  ti_bal :: "rchar list"
  ti_tx :: "rchar list"
  ti_vo :: u32
  ti_val :: "rchar list"
  ti_ins :: "rchar list"
  ti_num :: int
  ti_ts :: u32
  ti_fail :: bool
  ti_int :: bool
  ti_dta :: "rchar list option"

text \<open>
  Executed transfers, as \<open>TransferSendFlatRecord\<close> has them. The fields \<open>at\<close>, \<open>tt\<close>, \<open>st\<close>, \<open>rl\<close>, \<open>rf\<close>
  are set by token-auth only and left out; the sender's record has no \<open>tbal\<close>, the receiver's calls the
  sender \<open>faddr\<close> and has neither \<open>trf\<close> nor the sender's balance.
\<close>

record send_flat =
  sf_addr :: "rchar list"
  sf_taddr :: "rchar list"
  sf_blck :: u32
  sf_amt :: "rchar list"
  sf_trf :: "rchar list"
  sf_bal :: "rchar list"
  sf_tbal :: "rchar list"
  sf_tx :: "rchar list"
  sf_vo :: u32
  sf_val :: "rchar list"
  sf_ins :: "rchar list"
  sf_num :: int
  sf_ts :: u32
  sf_fail :: bool
  sf_int :: bool
  sf_dta :: "rchar list option"

record send_sender =
  ss_addr :: "rchar list"
  ss_taddr :: "rchar list"
  ss_blck :: u32
  ss_amt :: "rchar list"
  ss_trf :: "rchar list"
  ss_bal :: "rchar list"
  ss_tx :: "rchar list"
  ss_vo :: u32
  ss_val :: "rchar list"
  ss_ins :: "rchar list"
  ss_num :: int
  ss_ts :: u32
  ss_fail :: bool
  ss_int :: bool
  ss_dta :: "rchar list option"

record send_receiver =
  sr_faddr :: "rchar list"
  sr_addr :: "rchar list"
  sr_blck :: u32
  sr_amt :: "rchar list"
  sr_bal :: "rchar list"
  sr_tx :: "rchar list"
  sr_vo :: u32
  sr_val :: "rchar list"
  sr_ins :: "rchar list"
  sr_num :: int
  sr_ts :: u32
  sr_fail :: bool
  sr_int :: bool
  sr_dta :: "rchar list option"

record trade_offer =
  of_addr :: "rchar list"
  of_blck :: u32
  of_tick :: "rchar list"
  of_amt :: "rchar list"
  of_atick :: "rchar list"
  of_aamt :: "rchar list"
  of_vld :: int
  of_trf :: "rchar list"
  of_bal :: "rchar list"
  of_tx :: "rchar list"
  of_vo :: u32
  of_val :: "rchar list"
  of_ins :: "rchar list"
  of_num :: int
  of_ts :: u32
  of_fail :: bool

record buy_seller =
  bs_addr :: "rchar list"
  bs_saddr :: "rchar list"
  bs_blck :: u32
  bs_tick :: "rchar list"
  bs_amt :: "rchar list"
  bs_stick :: "rchar list"
  bs_samt :: "rchar list"
  bs_fee :: "rchar list"
  bs_fee_rcv :: "rchar list option"
  bs_tx :: "rchar list"
  bs_vo :: u32
  bs_val :: "rchar list"
  bs_ins :: "rchar list"
  bs_num :: int
  bs_sins :: "rchar list"
  bs_snum :: int
  bs_ts :: u32
  bs_fail :: bool

record buy_buyer =
  bb_baddr :: "rchar list"
  bb_addr :: "rchar list"
  bb_blck :: u32
  bb_btick :: "rchar list"
  bb_bamt :: "rchar list"
  bb_tick :: "rchar list"
  bb_amt :: "rchar list"
  bb_fee :: "rchar list"
  bb_fee_rcv :: "rchar list option"
  bb_tx :: "rchar list"
  bb_vo :: u32
  bb_val :: "rchar list"
  bb_bins :: "rchar list"
  bb_bnum :: int
  bb_ins :: "rchar list"
  bb_num :: int
  bb_ts :: u32
  bb_fail :: bool

record 'f accumulator =
  ac_op :: "rchar list"
  ac_json :: "'f tjson"
  ac_ins :: "rchar list"
  ac_blck :: u32
  ac_tx :: "rchar list"
  ac_vo :: u32
  ac_val :: "rchar list option"
  ac_num :: int
  ac_ts :: u32
  ac_addr :: "rchar list"

record 'f privilege_auth =
  pa_addr :: "rchar list"
  pa_auth :: "'f tjson"
  pa_sig :: "'f tjson"
  pa_hash :: "rchar list"
  pa_slt :: "rchar list"
  pa_blck :: u32
  pa_tx :: "rchar list"
  pa_vo :: u32
  pa_val :: "rchar list"
  pa_ins :: "rchar list"
  pa_num :: int
  pa_ts :: u32

datatype 'f tap_value =
    VString "rchar list"
  | VDeploy tap_deploy
  | VMint tap_mint
  | VMintFlat tap_mint
  | VMintSuperflat "rchar list" tap_mint
  | VTransferInit transfer_init
  | VTransferInitFlat transfer_init
  | VTransferInitSuperflat "rchar list" transfer_init
  | VSendSender send_sender
  | VSendReceiver send_receiver
  | VSendFlat send_flat
  | VSendSuperflat "rchar list" send_flat
  | VTradeOffer trade_offer
  | VBuySeller buy_seller
  | VBuyBuyer buy_buyer
  | VAccumulator "'f accumulator"
  | VPrivilegeAuth "'f privilege_auth"

section \<open>The store\<close>

type_synonym 'f rows = "rchar list \<rightharpoonup> 'f tap_value"

text \<open>
  \<open>tap_atomic_writes\<close>, \<open>tap_atomic_overlay\<close> and \<open>tap_atomic_list_len_cache\<close> are set and cleared
  together: one optional record.
\<close>

record 'f tap_atomic =
  at_writes :: "rchar list list"
  at_overlay :: "(rchar list, 'f tap_value option) mapping"
  at_list_len_cache :: "(rchar list, usize) mapping"

record 'f tap_store =
  ts_table :: "(rchar list, 'f tap_value) mapping"
  ts_overlay :: "(rchar list, 'f tap_value) mapping"
  ts_list_len_cache :: "(rchar list, usize) mapping"
  ts_atomic :: "'f tap_atomic option"

definition extend :: "('k, 'v) mapping \<Rightarrow> ('k, 'v) mapping \<Rightarrow> ('k, 'v) mapping" where
  "extend new m = Mapping.combine (\<lambda>old v. v) m new"

lemma lookup_upd [simp]:
  "Mapping.lookup (Mapping.update k v m) = (Mapping.lookup m)(k \<mapsto> v)"
  "Mapping.lookup (Mapping.delete k m) = (Mapping.lookup m)(k := None)"
  "Mapping.lookup (extend new m) = Mapping.lookup m ++ Mapping.lookup new"
  "Mapping.lookup Mapping.empty = Map.empty"
  by (auto simp: fun_eq_iff lookup_update' lookup_combine extend_def map_add_def combine_options_def
      split: option.splits)

definition batch_get :: "'f tap_store \<Rightarrow> rchar list \<Rightarrow> 'f tap_value option" where
  "batch_get st key = (case Mapping.lookup (ts_overlay st) key of Some v \<Rightarrow> Some v | None \<Rightarrow> Mapping.lookup (ts_table st) key)"

definition batch_put :: "rchar list \<Rightarrow> 'f tap_value \<Rightarrow> 'f tap_store \<Rightarrow> 'f tap_store" where
  "batch_put key v st = st\<lparr>ts_overlay := Mapping.update key v (ts_overlay st)\<rparr>"

definition batch_flush :: "'f tap_store \<Rightarrow> 'f tap_store" where
  "batch_flush st = st\<lparr>ts_table := extend (ts_overlay st) (ts_table st), ts_overlay := Mapping.empty\<rparr>"

definition batch_del :: "rchar list \<Rightarrow> 'f tap_store \<Rightarrow> 'f tap_store" where
  "batch_del key st =
    st\<lparr>ts_overlay := Mapping.delete key (ts_overlay st), ts_table := Mapping.delete key (ts_table st)\<rparr>"

definition atomic_store :: "rchar list \<Rightarrow> 'f tap_value option \<Rightarrow> 'f tap_atomic \<Rightarrow> 'f tap_atomic" where
  "atomic_store key v a =
    a\<lparr>at_writes := (if Mapping.lookup (at_overlay a) key = None then at_writes a @ [key] else at_writes a),
      at_overlay := Mapping.update key v (at_overlay a)\<rparr>"

definition tap_put :: "rchar list \<Rightarrow> 'f tap_value \<Rightarrow> 'f tap_store \<Rightarrow> 'f tap_store" where
  "tap_put key v st =
    (case ts_atomic st of
       Some a \<Rightarrow> st\<lparr>ts_atomic := Some (atomic_store key (Some v) a)\<rparr>
     | None \<Rightarrow> batch_put key v st)"

definition tap_del :: "rchar list \<Rightarrow> 'f tap_store \<Rightarrow> 'f tap_store" where
  "tap_del key st =
    (case ts_atomic st of
       Some a \<Rightarrow> st\<lparr>ts_atomic := Some (atomic_store key None a)\<rparr>
     | None \<Rightarrow> batch_del key st)"

definition tap_get :: "'f tap_store \<Rightarrow> rchar list \<Rightarrow> 'f tap_value option" where
  "tap_get st key =
    (case ts_atomic st of
       Some a \<Rightarrow> (case Mapping.lookup (at_overlay a) key of Some v \<Rightarrow> v | None \<Rightarrow> batch_get st key)
     | None \<Rightarrow> batch_get st key)"

text \<open>\<open>tap_get::<T>(key).ok().flatten()\<close> at the types the handlers read.\<close>

definition get_string :: "'f tap_store \<Rightarrow> rchar list \<Rightarrow> rchar list option" where
  "get_string st key = (case tap_get st key of Some (VString s) \<Rightarrow> Some s | _ \<Rightarrow> None)"

definition get_deploy :: "'f tap_store \<Rightarrow> rchar list \<Rightarrow> tap_deploy option" where
  "get_deploy st key = (case tap_get st key of Some (VDeploy d) \<Rightarrow> Some d | _ \<Rightarrow> None)"

definition get_transfer_init :: "'f tap_store \<Rightarrow> rchar list \<Rightarrow> transfer_init option" where
  "get_transfer_init st key = (case tap_get st key of Some (VTransferInit r) \<Rightarrow> Some r | _ \<Rightarrow> None)"

definition get_offer :: "'f tap_store \<Rightarrow> rchar list \<Rightarrow> trade_offer option" where
  "get_offer st key = (case tap_get st key of Some (VTradeOffer r) \<Rightarrow> Some r | _ \<Rightarrow> None)"

definition get_accumulator :: "'f tap_store \<Rightarrow> rchar list \<Rightarrow> 'f accumulator option" where
  "get_accumulator st key = (case tap_get st key of Some (VAccumulator a) \<Rightarrow> Some a | _ \<Rightarrow> None)"

definition get_privilege_auth :: "'f tap_store \<Rightarrow> rchar list \<Rightarrow> 'f privilege_auth option" where
  "get_privilege_auth st key = (case tap_get st key of Some (VPrivilegeAuth a) \<Rightarrow> Some a | _ \<Rightarrow> None)"

definition next_length :: "'f tap_store \<Rightarrow> rchar list \<Rightarrow> usize" where
  "next_length st length_key =
    (case get_string st length_key of
       Some s \<Rightarrow> (case parse_uint u64_max s of Some n \<Rightarrow> n | None \<Rightarrow> 0) + 1
     | None \<Rightarrow> 1)"

definition tap_set_list_record ::
  "rchar list \<Rightarrow> rchar list \<Rightarrow> 'f tap_value \<Rightarrow> 'f tap_store \<Rightarrow> usize \<times> 'f tap_store" where
  "tap_set_list_record length_key iterator_key data st =
    (let (len, st) =
       (case ts_atomic st of
          Some a \<Rightarrow>
            let len = (case Mapping.lookup (at_list_len_cache a) length_key of Some n \<Rightarrow> n + 1 | None \<Rightarrow> next_length st length_key)
            in (len, st\<lparr>ts_atomic := Some (a\<lparr>at_list_len_cache := Mapping.update length_key len (at_list_len_cache a)\<rparr>)\<rparr>)
        | None \<Rightarrow>
            let len = (case Mapping.lookup (ts_list_len_cache st) length_key of Some n \<Rightarrow> n + 1 | None \<Rightarrow> next_length st length_key)
            in (len, st\<lparr>ts_list_len_cache := Mapping.update length_key len (ts_list_len_cache st)\<rparr>));
         st = tap_put length_key (VString (show_nat len)) st;
         st = tap_put (iterator_key @ [47] @ show_nat (len - 1)) data st
     in (len, st))"

definition tap_atomic_begin :: "'f tap_store \<Rightarrow> 'f tap_store may_panic" where
  "tap_atomic_begin st =
    (if ts_atomic st \<noteq> None then Inl AssertFailed
     else Inr (st\<lparr>ts_atomic := Some \<lparr>at_writes = [], at_overlay = Mapping.empty, at_list_len_cache = Mapping.empty\<rparr>\<rparr>))"

definition tap_atomic_abort :: "'f tap_store \<Rightarrow> 'f tap_store" where
  "tap_atomic_abort st = st\<lparr>ts_atomic := None\<rparr>"

fun commit_writes :: "rchar list list \<Rightarrow> (rchar list, 'f tap_value option) mapping \<Rightarrow> 'f tap_store \<Rightarrow> 'f tap_store" where
  "commit_writes [] overlay st = st"
| "commit_writes (key # keys) overlay st =
    (case Mapping.lookup overlay key of
       None \<Rightarrow> commit_writes keys overlay st
     | Some value \<Rightarrow>
         commit_writes keys (Mapping.delete key overlay)
           (case value of Some v \<Rightarrow> batch_put key v st | None \<Rightarrow> batch_del key st))"

definition tap_atomic_commit :: "'f tap_store \<Rightarrow> 'f tap_store" where
  "tap_atomic_commit st =
    (case ts_atomic st of
       None \<Rightarrow> st
     | Some a \<Rightarrow>
         let st = commit_writes (at_writes a) (at_overlay a) (st\<lparr>ts_atomic := None\<rparr>)
         in st\<lparr>ts_list_len_cache := extend (at_list_len_cache a) (ts_list_len_cache st)\<rparr>)"

text \<open>\<open>tap_finalize_block\<close>: the overlay is flushed and the caches are cleared.\<close>

definition tap_finalize_block :: "'f tap_store \<Rightarrow> 'f tap_store" where
  "tap_finalize_block st = (batch_flush st)\<lparr>ts_list_len_cache := Mapping.empty\<rparr>"

section \<open>What the handlers rely on\<close>

locale row_store =
  fixes get :: "'s \<Rightarrow> 'k \<Rightarrow> 'v option"
    and put :: "'k \<Rightarrow> 'v \<Rightarrow> 's \<Rightarrow> 's"
    and del :: "'k \<Rightarrow> 's \<Rightarrow> 's"
  assumes get_put: "get (put k v s) = (get s)(k \<mapsto> v)"
    and get_del: "get (del k s) = (get s)(k := None)"
begin

lemma get_put_other: "k' \<noteq> k \<Longrightarrow> get (put k v s) k' = get s k'"
  by (simp add: get_put)

lemma get_del_other: "k' \<noteq> k \<Longrightarrow> get (del k s) k' = get s k'"
  by (simp add: get_del)

lemma put_frame: "k \<notin> K \<Longrightarrow> \<forall>x\<in>K. get (put k v s) x = get s x"
  by (auto simp: get_put)

text \<open>Writing rows one after the other.\<close>

lemma get_writes:
  "get (foldl (\<lambda>s (k, v). case v of Some v \<Rightarrow> put k v s | None \<Rightarrow> del k s) s ws) k =
    (case map_of (rev ws) k of Some v \<Rightarrow> v | None \<Rightarrow> get s k)"
proof (induction ws rule: rev_induct)
  case (snoc w ws)
  obtain k' v where "w = (k', v)" by fastforce
  with snoc show ?case by (auto simp: get_put get_del split: option.splits)
qed simp

end

interpretation batch: row_store batch_get batch_put batch_del
  by unfold_locales (auto simp: batch_get_def batch_put_def batch_del_def fun_eq_iff split: option.splits)

lemma batch_get_atomic [simp]: "batch_get (st\<lparr>ts_atomic := a\<rparr>) = batch_get st"
  by (simp add: batch_get_def fun_eq_iff split: option.split)

lemma batch_get_cache [simp]: "batch_get (st\<lparr>ts_list_len_cache := c\<rparr>) = batch_get st"
  by (simp add: batch_get_def fun_eq_iff split: option.split)

interpretation kv: row_store tap_get tap_put tap_del
proof unfold_locales
  fix k :: "rchar list" and v :: "'f tap_value" and s :: "'f tap_store"
  show "tap_get (tap_put k v s) = (tap_get s)(k \<mapsto> v)"
  proof (cases "ts_atomic s")
    case None
    then have "ts_atomic (batch_put k v s) = None" by (simp add: batch_put_def)
    with None show ?thesis by (auto simp: tap_get_def tap_put_def batch.get_put fun_eq_iff)
  next
    case (Some a)
    then show ?thesis by (auto simp: tap_get_def tap_put_def atomic_store_def fun_eq_iff split: option.splits)
  qed
  show "tap_get (tap_del k s) = (tap_get s)(k := None)"
  proof (cases "ts_atomic s")
    case None
    then have "ts_atomic (batch_del k s) = None" by (simp add: batch_del_def)
    with None show ?thesis by (auto simp: tap_get_def tap_del_def batch.get_del fun_eq_iff)
  next
    case (Some a)
    then show ?thesis by (auto simp: tap_get_def tap_del_def atomic_store_def fun_eq_iff split: option.splits)
  qed
qed

lemma finalize_keeps_rows: "ts_atomic st = None \<Longrightarrow> tap_get (tap_finalize_block st) = tap_get st"
  by (auto simp: tap_get_def tap_finalize_block_def batch_flush_def batch_get_def fun_eq_iff map_add_def
      split: option.splits)

section \<open>Lists and batches\<close>

definition cached_length :: "'f tap_store \<Rightarrow> rchar list \<Rightarrow> usize option" where
  "cached_length st = Mapping.lookup (case ts_atomic st of Some a \<Rightarrow> at_list_len_cache a | None \<Rightarrow> ts_list_len_cache st)"

text \<open>The cached lengths are those of the rows; \<open>L\<close> are the keys that hold lengths of lists.\<close>

definition coherent :: "rchar list set \<Rightarrow> 'f tap_store \<Rightarrow> bool" where
  "coherent L st \<longleftrightarrow>
    (\<forall>lk n. cached_length st lk = Some n \<longrightarrow> lk \<in> L \<and> n \<le> u64_max \<and> tap_get st lk = Some (VString (show_nat n)))"

datatype 'f store_op =
    Put "rchar list" "'f tap_value"
  | Del "rchar list"
  | Append "rchar list" "rchar list" "'f tap_value"

fun run_op :: "'f store_op \<Rightarrow> 'f tap_store \<Rightarrow> 'f tap_store" where
  "run_op (Put k v) st = tap_put k v st"
| "run_op (Del k) st = tap_del k st"
| "run_op (Append lk ik v) st = snd (tap_set_list_record lk ik v st)"

definition run_ops :: "'f store_op list \<Rightarrow> 'f tap_store \<Rightarrow> 'f tap_store" where
  "run_ops ops st = fold run_op ops st"

text \<open>The same operations on plain rows.\<close>

definition rows_length :: "'f rows \<Rightarrow> rchar list \<Rightarrow> usize" where
  "rows_length m lk =
    (case m lk of Some (VString s) \<Rightarrow> (case parse_uint u64_max s of Some n \<Rightarrow> n | None \<Rightarrow> 0) | _ \<Rightarrow> 0)"

fun rows_op :: "'f store_op \<Rightarrow> 'f rows \<Rightarrow> 'f rows" where
  "rows_op (Put k v) m = m(k \<mapsto> v)"
| "rows_op (Del k) m = m(k := None)"
| "rows_op (Append lk ik v) m =
    m(lk \<mapsto> VString (show_nat (rows_length m lk + 1)), ik @ [47] @ show_nat (rows_length m lk) \<mapsto> v)"

definition rows_ops :: "'f store_op list \<Rightarrow> 'f rows \<Rightarrow> 'f rows" where
  "rows_ops ops m = fold rows_op ops m"

fun op_ok :: "rchar list set \<Rightarrow> 'f store_op \<Rightarrow> bool" where
  "op_ok L (Put k v) \<longleftrightarrow> k \<notin> L"
| "op_ok L (Del k) \<longleftrightarrow> k \<notin> L"
| "op_ok L (Append lk ik v) \<longleftrightarrow> lk \<in> L \<and> (\<forall>n. ik @ [47] @ show_nat n \<notin> L)"

lemma rows_length_other: "lk \<noteq> k \<Longrightarrow> rows_length (m(k := v)) lk = rows_length m lk"
  by (simp add: rows_length_def)

lemma rows_length_same: "n \<le> u64_max \<Longrightarrow> rows_length (m(lk \<mapsto> VString (show_nat n))) lk = n"
  by (simp add: rows_length_def)

lemma next_length_rows: "next_length st lk = rows_length (tap_get st) lk + 1"
  by (auto simp: next_length_def rows_length_def get_string_def split: option.splits tap_value.splits)

lemma tap_get_cache [simp]:
  "ts_atomic st = None \<Longrightarrow> tap_get (st\<lparr>ts_list_len_cache := c\<rparr>) = tap_get st"
  "ts_atomic st = Some a \<Longrightarrow> tap_get (st\<lparr>ts_atomic := Some (a\<lparr>at_list_len_cache := c\<rparr>)\<rparr>) = tap_get st"
  by (auto simp: tap_get_def fun_eq_iff split: option.splits)

lemma cached_length_put [simp]: "cached_length (tap_put k v st) = cached_length st"
  by (auto simp: cached_length_def tap_put_def batch_put_def atomic_store_def split: option.splits)

lemma cached_length_del [simp]: "cached_length (tap_del k st) = cached_length st"
  by (auto simp: cached_length_def tap_del_def batch_del_def atomic_store_def split: option.splits)

lemma coherent_length:
  assumes "coherent L st"
  shows "(case cached_length st lk of Some n \<Rightarrow> n + 1 | None \<Rightarrow> next_length st lk) = rows_length (tap_get st) lk + 1"
  using assms by (auto simp: coherent_def next_length_rows rows_length_def split: option.splits)

definition remember :: "rchar list \<Rightarrow> usize \<Rightarrow> 'f tap_store \<Rightarrow> 'f tap_store" where
  "remember lk n st =
    (case ts_atomic st of
       Some a \<Rightarrow> st\<lparr>ts_atomic := Some (a\<lparr>at_list_len_cache := Mapping.update lk n (at_list_len_cache a)\<rparr>)\<rparr>
     | None \<Rightarrow> st\<lparr>ts_list_len_cache := Mapping.update lk n (ts_list_len_cache st)\<rparr>)"

lemma remember_simps [simp]:
  "tap_get (remember lk n st) = tap_get st"
  "cached_length (remember lk n st) = (cached_length st)(lk \<mapsto> n)"
  by (auto simp: remember_def cached_length_def split: option.splits)

lemma tap_set_list_record_eq:
  "tap_set_list_record lk ik v st =
    (let len = (case cached_length st lk of Some n \<Rightarrow> n + 1 | None \<Rightarrow> next_length st lk)
     in (len, tap_put (ik @ [47] @ show_nat (len - 1)) v (tap_put lk (VString (show_nat len)) (remember lk len st))))"
  by (auto simp: tap_set_list_record_def cached_length_def remember_def Let_def split: option.splits)

lemma append_rows:
  assumes "coherent L st"
  shows "tap_get (snd (tap_set_list_record lk ik v st)) = rows_op (Append lk ik v) (tap_get st)"
    and "fst (tap_set_list_record lk ik v st) = rows_length (tap_get st) lk + 1"
    and "cached_length (snd (tap_set_list_record lk ik v st)) =
      (cached_length st)(lk \<mapsto> rows_length (tap_get st) lk + 1)"
  using coherent_length [OF assms, of lk]
  by (simp_all add: tap_set_list_record_eq Let_def kv.get_put)

lemma run_op_rows:
  assumes "coherent L st" "op_ok L op" "\<forall>lk\<in>L. rows_length (tap_get st) lk < u64_max"
  shows "tap_get (run_op op st) = rows_op op (tap_get st)" and "coherent L (run_op op st)"
proof -
  show "tap_get (run_op op st) = rows_op op (tap_get st)"
    using append_rows(1) [OF assms(1)] by (cases op) (simp_all add: kv.get_put kv.get_del)
  show "coherent L (run_op op st)"
  proof (cases op)
    case (Append lk ik v)
    with assms(2,3) have "rows_length (tap_get st) lk + 1 \<le> u64_max" by auto
    moreover have "lk' \<noteq> ik @ [47] @ show_nat (rows_length (tap_get st) lk)" if "lk' \<in> L" for lk'
      using Append assms(2) that by auto
    ultimately show ?thesis
      using Append assms(1,2) append_rows [OF assms(1), of lk ik v]
      by (auto simp: coherent_def split: if_splits)
  next
    case (Put k v)
    with assms have "cached_length st k = None" by (cases "cached_length st k") (auto simp: coherent_def)
    with Put assms(1) show ?thesis by (auto simp: coherent_def kv.get_put)
  next
    case (Del k)
    with assms have "cached_length st k = None" by (cases "cached_length st k") (auto simp: coherent_def)
    with Del assms(1) show ?thesis by (auto simp: coherent_def kv.get_del)
  qed
qed

lemma rows_length_op:
  assumes "op_ok L op" "lk \<in> L" "rows_length m lk < u64_max"
  shows "rows_length (rows_op op m) lk \<le> rows_length m lk + 1"
proof -
  have p: "rows_length m lk + 1 \<le> u64_max" using assms(3) by simp
  show ?thesis
  proof (cases op)
    case (Append lk' ik v)
    have k: "lk \<noteq> ik @ [47] @ show_nat (rows_length m lk')" using Append assms(1,2) by auto
    show ?thesis
    proof (cases "lk = lk'")
      case True
      with Append p k show ?thesis by (metis order_refl rows_length_other rows_length_same rows_op.simps(3))
    next
      case False
      with Append k show ?thesis by (metis le_add1 rows_length_other rows_op.simps(3))
    qed
  qed (use assms in \<open>auto simp: rows_length_def split: option.splits tap_value.splits\<close>)
qed

lemma run_ops_rows:
  assumes "coherent L st" "list_all (op_ok L) ops" "\<forall>lk\<in>L. rows_length (tap_get st) lk + length ops \<le> u64_max"
  shows "tap_get (run_ops ops st) = rows_ops ops (tap_get st) \<and> coherent L (run_ops ops st)"
  using assms
proof (induction ops arbitrary: st)
  case Nil
  then show ?case by (simp add: run_ops_def rows_ops_def)
next
  case (Cons op ops)
  have s: "\<forall>lk\<in>L. rows_length (tap_get st) lk < u64_max" using Cons.prems(3) by force
  note r = run_op_rows [OF Cons.prems(1) _ s]
  have "\<forall>lk\<in>L. rows_length (tap_get (run_op op st)) lk + length ops \<le> u64_max"
  proof
    fix lk assume lk: "lk \<in> L"
    have "rows_length (rows_op op (tap_get st)) lk \<le> rows_length (tap_get st) lk + 1"
      using rows_length_op [of L op lk "tap_get st"] Cons.prems(2) lk s by auto
    with r(1) Cons.prems(2,3) lk show "rows_length (tap_get (run_op op st)) lk + length ops \<le> u64_max" by force
  qed
  with Cons.IH [of "run_op op st"] Cons.prems(2) r show ?case by (simp add: run_ops_def rows_ops_def)
qed

text \<open>Inside a batch the table and its overlay stay as they are, and every key written is listed once.\<close>

definition in_batch :: "'f tap_store \<Rightarrow> 'f tap_store \<Rightarrow> bool" where
  "in_batch st b \<longleftrightarrow>
    batch_get b = batch_get st \<and> ts_list_len_cache b = ts_list_len_cache st \<and>
    (\<exists>a. ts_atomic b = Some a \<and> distinct (at_writes a) \<and> set (at_writes a) = dom (Mapping.lookup (at_overlay a)))"

lemma in_batch_put:
  assumes "in_batch st b"
  shows "in_batch st (tap_put k v b)" and "in_batch st (tap_del k b)"
  using assms by (auto simp: in_batch_def tap_put_def tap_del_def atomic_store_def)

lemma in_batch_op: "in_batch st b \<Longrightarrow> in_batch st (run_op op b)"
proof (cases op)
  case (Append lk ik v)
  assume b: "in_batch st b"
  then obtain a where a: "ts_atomic b = Some a" by (auto simp: in_batch_def)
  have "in_batch st (b\<lparr>ts_atomic := Some (a\<lparr>at_list_len_cache := c\<rparr>)\<rparr>)" for c
    using b a by (auto simp: in_batch_def)
  with Append a show ?thesis by (simp add: tap_set_list_record_def Let_def in_batch_put)
qed (simp_all add: in_batch_put)

lemma in_batch_ops: "in_batch st b \<Longrightarrow> in_batch st (run_ops ops b)"
  by (induction ops arbitrary: b) (simp_all add: run_ops_def in_batch_op)

lemma commit_writes_fold:
  "distinct ks \<Longrightarrow> commit_writes ks ov st =
    foldl (\<lambda>s (k, v). case v of Some v \<Rightarrow> batch_put k v s | None \<Rightarrow> batch_del k s) st
      (map (\<lambda>k. (k, the (Mapping.lookup ov k))) (filter (\<lambda>k. Mapping.lookup ov k \<noteq> None) ks))"
proof (induction ks arbitrary: ov st)
  case (Cons k ks)
  let ?ws = "\<lambda>ov. map (\<lambda>k'. (k', the (Mapping.lookup ov k'))) (filter (\<lambda>k'. Mapping.lookup ov k' \<noteq> None) ks)"
  have w: "?ws (Mapping.delete k ov) = ?ws ov"
    using Cons.prems by (intro map_cong filter_cong) auto
  show ?case
  proof (cases "Mapping.lookup ov k")
    case None
    with Cons show ?thesis by simp
  next
    case (Some v)
    have "distinct ks" using Cons.prems by simp
    let ?F = "\<lambda>s (k, v). case v of Some v \<Rightarrow> batch_put k v s | None \<Rightarrow> batch_del k s"
    let ?s = "case v of Some v \<Rightarrow> batch_put k v st | None \<Rightarrow> batch_del k st"
    have "commit_writes (k # ks) ov st = commit_writes ks (Mapping.delete k ov) ?s" using Some by simp
    also have "\<dots> = foldl ?F ?s (?ws (Mapping.delete k ov))" by (rule Cons.IH [OF \<open>distinct ks\<close>])
    also have "\<dots> = foldl ?F ?s (?ws ov)" by (rule arg_cong [OF w])
    finally show ?thesis using Some by simp
  qed
qed simp

lemma commit_atomic: "ts_atomic st = None \<Longrightarrow> ts_atomic (commit_writes ks ov st) = None"
  by (induction ks ov st rule: commit_writes.induct)
    (auto simp: batch_put_def batch_del_def split: option.splits)

lemma commit_rows:
  assumes "in_batch st b"
  shows "tap_get (tap_atomic_commit b) = tap_get b"
proof -
  from assms obtain a where a: "ts_atomic b = Some a" "distinct (at_writes a)" "set (at_writes a) = dom (Mapping.lookup (at_overlay a))"
    by (auto simp: in_batch_def)
  let ?ov = "Mapping.lookup (at_overlay a)" and ?b = "b\<lparr>ts_atomic := None\<rparr>"
  have f: "filter (\<lambda>k. ?ov k \<noteq> None) (at_writes a) = at_writes a" using a(3) by (auto intro: filter_True)
  have m: "map_of (rev (map (\<lambda>k. (k, the (?ov k))) (at_writes a))) k =
      (if k \<in> set (at_writes a) then Some (the (?ov k)) else None)" for k
    by (simp add: rev_map map_of_map_restrict restrict_map_def)
  have "batch_get (commit_writes (at_writes a) (at_overlay a) ?b) k = (case ?ov k of Some v \<Rightarrow> v | None \<Rightarrow> batch_get b k)" for k
    using a(3) by (auto simp: commit_writes_fold [OF a(2)] f batch.get_writes m dom_def split: option.splits)
  with a(1) show ?thesis
    by (auto simp: tap_get_def tap_atomic_commit_def Let_def commit_atomic fun_eq_iff)
qed

lemma begin_batch:
  assumes "tap_atomic_begin st = Inr b"
  shows "in_batch st b" and "tap_get b = tap_get st" and "coherent L b" and "ts_atomic st = None"
  using assms
  by (auto simp: tap_atomic_begin_def in_batch_def tap_get_def coherent_def cached_length_def fun_eq_iff
      split: if_splits option.splits)

lemma abort_rows: "in_batch st b \<Longrightarrow> ts_atomic st = None \<Longrightarrow> tap_get (tap_atomic_abort b) = tap_get st"
  by (auto simp: in_batch_def tap_atomic_abort_def tap_get_def fun_eq_iff)

text \<open>
  C15: a batch of the key-value store is all or nothing. Whatever sequence of writes, deletions and list
  appends runs between \<open>tap_atomic_begin\<close> and the end of the batch, committing leaves exactly the rows
  that the same sequence leaves when it runs on the store directly, and that it leaves on plain rows;
  aborting leaves the rows as they were before the batch. (\<open>L\<close> are the keys that hold lengths of lists,
  which no other write touches, and no list grows past 64 bits.)
\<close>

theorem atomic_batch_exact:
  assumes "tap_atomic_begin st = Inr b" and "coherent L st" and "list_all (op_ok L) ops"
    and "\<forall>lk\<in>L. rows_length (tap_get st) lk + length ops \<le> u64_max"
  shows "tap_get (tap_atomic_commit (run_ops ops b)) = tap_get (run_ops ops st) \<and>
         tap_get (run_ops ops st) = rows_ops ops (tap_get st) \<and>
         tap_get (tap_atomic_abort (run_ops ops b)) = tap_get st"
proof -
  note b = begin_batch [OF assms(1)]
  have d: "tap_get (run_ops ops st) = rows_ops ops (tap_get st)" using run_ops_rows [OF assms(2-4)] by blast
  have "tap_get (run_ops ops b) = rows_ops ops (tap_get st)"
    using run_ops_rows [OF b(3) assms(3)] assms(4) b(2) by simp
  with d commit_rows [OF in_batch_ops [OF b(1)]] abort_rows [OF in_batch_ops [OF b(1)] b(4)] show ?thesis
    by metis
qed

definition sample_store :: "unit tap_store" where
  "sample_store = \<lparr>ts_table = Mapping.update (str ''h'') (VString (show_nat 1)) (Mapping.update (str ''b/x'') (VString (show_nat 5)) Mapping.empty),
    ts_overlay = Mapping.empty, ts_list_len_cache = Mapping.empty, ts_atomic = None\<rparr>"

definition sample_ops :: "unit store_op list" where
  "sample_ops = [Put (str ''b/y'') (VString (show_nat 2)), Append (str ''h'') (str ''hi'') (VString (str ''y'')),
    Del (str ''b/x'')]"

theorem atomic_batch_exact_witness:
  "\<exists>b. tap_atomic_begin sample_store = Inr b \<and>
    tap_get (tap_atomic_commit (run_ops sample_ops b)) (str ''b/x'') = None \<and>
    tap_get (tap_atomic_commit (run_ops sample_ops b)) (str ''h'') = Some (VString (show_nat 2)) \<and>
    tap_get (tap_atomic_abort (run_ops sample_ops b)) (str ''b/x'') = Some (VString (show_nat 5))"
proof -
  obtain b where b: "tap_atomic_begin sample_store = Inr b"
    by (simp add: tap_atomic_begin_def sample_store_def)
  have l: "rows_length (tap_get sample_store) (str ''h'') = 1"
    by (simp add: rows_length_def tap_get_def batch_get_def sample_store_def str_def width_defs)
  have "\<forall>n. str ''hi'' @ [47] @ show_nat n \<noteq> str ''h''" by (simp add: str_def)
  then have ok: "list_all (op_ok {str ''h''}) sample_ops" by (simp add: sample_ops_def str_def)
  have "coherent {str ''h''} sample_store"
    by (simp add: coherent_def cached_length_def sample_store_def)
  then have eq: "tap_get (tap_atomic_commit (run_ops sample_ops b)) = rows_ops sample_ops (tap_get sample_store)"
      "tap_get (tap_atomic_abort (run_ops sample_ops b)) = tap_get sample_store"
    using atomic_batch_exact [OF b _ ok] l by (simp_all add: sample_ops_def width_defs)
  have "rows_length ((tap_get sample_store)(str ''b/y'' \<mapsto> VString (show_nat 2))) (str ''h'') = 1"
    using l by (subst rows_length_other) (simp_all add: str_def)
  then have "rows_ops sample_ops (tap_get sample_store) (str ''b/x'') = None"
      "rows_ops sample_ops (tap_get sample_store) (str ''h'') = Some (VString (show_nat 2))"
    by (simp_all add: sample_ops_def rows_ops_def numeral_2_eq_2) (simp_all add: str_def)
  moreover have "tap_get sample_store (str ''b/x'') = Some (VString (show_nat 5))"
    by (simp add: tap_get_def batch_get_def sample_store_def str_def)
  ultimately show ?thesis using b eq by simp
qed

end
