(* ===== verification/Tap_Token.thy ===== *)
theory Tap_Token
  imports Tap_Store
begin

text \<open>
  The token handlers of the TAP protocol (\<open>tap/ops/deploy.rs\<close>, \<open>mint.rs\<close>, \<open>transfer.rs\<close>, \<open>send.rs\<close>,
  \<open>block.rs\<close> and what \<open>tap/mod.rs\<close> gives them): deploying and minting a token, making a balance
  transferable and moving it with the inscription, sending out of a balance, blocking transferables.

  A handler takes the environment of the block, the inscription with its place, its payload and its owner,
  and gives the store it leaves; where the source returns early the store is the one it was. A handler
  that first decides whether it acts and then acts is two definitions, one for each.
\<close>

section \<open>Keys and lists\<close>

definition key1 :: "rchar list \<Rightarrow> rchar list \<Rightarrow> rchar list" where
  "key1 p a = p @ [47] @ a"

definition key2 :: "rchar list \<Rightarrow> rchar list \<Rightarrow> rchar list \<Rightarrow> rchar list" where
  "key2 p a b = p @ [47] @ a @ [47] @ b"

definition key3 :: "rchar list \<Rightarrow> rchar list \<Rightarrow> rchar list \<Rightarrow> rchar list \<Rightarrow> rchar list" where
  "key3 p a b c = p @ [47] @ a @ [47] @ b @ [47] @ c"

definition tap_append :: "rchar list \<Rightarrow> rchar list \<Rightarrow> 'f tap_value \<Rightarrow> 'f tap_store \<Rightarrow> 'f tap_store" where
  "tap_append length_key iterator_key v st = snd (tap_set_list_record length_key iterator_key v st)"

text \<open>The pointers to a superflat row: by transaction, ticker and transaction, block, ticker and block.\<close>

definition point_to :: "'f tap_env \<Rightarrow> rchar list \<Rightarrow> rchar list \<Rightarrow> rchar list \<Rightarrow> rchar list \<Rightarrow> 'f tap_store \<Rightarrow> 'f tap_store" where
  "point_to E kind tick_key txs ptr st =
    (let h = show_nat (te_height E);
         st = tap_append (key2 (str ''tx'') kind txs) (key2 (str ''txi'') kind txs) (VString ptr) st;
         st = tap_append (key3 (str ''txt'') kind tick_key txs) (key3 (str ''txti'') kind tick_key txs) (VString ptr) st;
         st = tap_append (key2 (str ''blck'') kind h) (key2 (str ''blcki'') kind h) (VString ptr) st
     in tap_append (key3 (str ''blckt'') kind tick_key h) (key3 (str ''blckti'') kind tick_key h) (VString ptr) st)"

definition superflat ::
  "'f tap_env \<Rightarrow> rchar list \<Rightarrow> rchar list \<Rightarrow> rchar list \<Rightarrow> rchar list \<Rightarrow> rchar list \<Rightarrow> 'f tap_value \<Rightarrow> 'f tap_store \<Rightarrow> 'f tap_store" where
  "superflat E length_key iterator_key kind tick_key txs v st =
    (let (list_len, st) = tap_set_list_record length_key iterator_key v st
     in point_to E kind tick_key txs (key1 iterator_key (show_nat (list_len - 1))) st)"

text \<open>The holder list of a ticker and the list of the tickers an account owns.\<close>

definition add_holder :: "rchar list \<Rightarrow> rchar list \<Rightarrow> 'f tap_store \<Rightarrow> 'f tap_store" where
  "add_holder addr tick_key st =
    (if get_string st (key2 (str ''he'') addr tick_key) = None then
       tap_append (key1 (str ''h'') tick_key) (key1 (str ''hi'') tick_key) (VString addr)
         (tap_put (key2 (str ''he'') addr tick_key) (VString []) st)
     else st)"

definition add_owned :: "rchar list \<Rightarrow> rchar list \<Rightarrow> rchar list \<Rightarrow> 'f tap_store \<Rightarrow> 'f tap_store" where
  "add_owned addr tick_key label st =
    (if get_string st (key2 (str ''ato'') addr tick_key) = None then
       tap_put (key2 (str ''ato'') addr tick_key) (VString [])
         (tap_append (key1 (str ''atl'') addr) (key1 (str ''atli'') addr) (VString label) st)
     else st)"

definition tick_label :: "'f tap_env \<Rightarrow> rchar list \<Rightarrow> rchar list \<Rightarrow> rchar list" where
  "tick_label E tick_key fallback = (case js_json_string_parse_str E tick_key of Some t \<Rightarrow> t | None \<Rightarrow> fallback)"

text \<open>Amounts kept as text, read as \<open>i128\<close> and \<open>u128\<close>.\<close>

definition read_i128 :: "'f tap_store \<Rightarrow> rchar list \<Rightarrow> int option" where
  "read_i128 st key = Option.bind (get_string st key) parse_i128"

definition read_u128 :: "'f tap_store \<Rightarrow> rchar list \<Rightarrow> u128 option" where
  "read_u128 st key = Option.bind (get_string st key) (parse_uint u128_max)"

definition or_zero :: "'a option \<Rightarrow> ('a::zero)" where
  "or_zero x = (case x of Some a \<Rightarrow> a | None \<Rightarrow> 0)"

section \<open>What every handler reads\<close>

definition txid_text :: "'f tap_env \<Rightarrow> sat_point \<Rightarrow> rchar list" where
  "txid_text E p = txid_to_string (te_ids E) (op_txid (sp_outpoint p))"

definition in_creation :: "'f tap_env \<Rightarrow> inscription_id \<Rightarrow> sat_point \<Rightarrow> bool" where
  "in_creation E i p \<longleftrightarrow> txid_text E p = txid_to_string (te_ids E) (ii_txid i)"

definition id_text :: "'f tap_env \<Rightarrow> inscription_id \<Rightarrow> rchar list" where
  "id_text E i = inscription_id_to_string (te_ids E) i"

definition payload_json :: "'f tap_env \<Rightarrow> inscription \<Rightarrow> 'f tjson option" where
  "payload_json E payload = Option.bind (i_body payload) (\<lambda>body. parse_tap_json_value E (te_utf8_lossy E body))"

definition field_lower :: "'f tap_env \<Rightarrow> 'f tjson \<Rightarrow> rchar list \<Rightarrow> rchar list" where
  "field_lower E v k = te_lower E (case get_str v k of Some s \<Rightarrow> s | None \<Rightarrow> [])"

text \<open>An optional \<open>dta\<close> of at most 512 bytes: \<open>None\<close> is a refusal.\<close>

definition read_dta :: "'f tjson \<Rightarrow> rchar list option option" where
  "read_dta v =
    (case get_str v (str ''dta'') of
       None \<Rightarrow> Some None
     | Some s \<Rightarrow> if 512 < length (utf8 s) then None else Some (Some s))"

definition tap_get_locked_amount :: "'f tap_env \<Rightarrow> 'f tap_store \<Rightarrow> rchar list \<Rightarrow> rchar list \<Rightarrow> int" where
  "tap_get_locked_amount E st address tick_key =
    (if \<not> tap_feature_enabled E TokenAuthorityStakingUpgradeActivation then 0
     else or_zero (read_i128 st (key2 (str ''ll'') address tick_key)))"

definition tap_get_account_obligation_locked_amount ::
  "'f tap_env \<Rightarrow> 'f tap_store \<Rightarrow> rchar list \<Rightarrow> rchar list \<Rightarrow> int" where
  "tap_get_account_obligation_locked_amount E st address tick_key =
    (if \<not> tap_feature_enabled E TokenAuthorityStakingUpgradeActivation then 0
     else or_zero (read_i128 st (key3 (str ''oll'') (str ''a'') address tick_key)))"

definition tap_has_dmt_reward_address_mark :: "'f tap_store \<Rightarrow> rchar list \<Rightarrow> bool" where
  "tap_has_dmt_reward_address_mark st address \<longleftrightarrow> get_string st (key1 (str ''dmtrwd'') address) \<noteq> None"

definition tap_is_dmt_reward_address :: "'f tap_env \<Rightarrow> 'f tap_store \<Rightarrow> rchar list \<Rightarrow> bool" where
  "tap_is_dmt_reward_address E st address \<longleftrightarrow>
    tap_feature_enabled E MinerRewardShieldActivation \<and> tap_has_dmt_reward_address_mark st address"

definition tap_blocks_dmt_reward_transfer_execution :: "'f tap_env \<Rightarrow> 'f tap_store \<Rightarrow> rchar list \<Rightarrow> bool" where
  "tap_blocks_dmt_reward_transfer_execution E st address \<longleftrightarrow>
    tap_feature_enabled E MinerRewardTransferExecutionShieldActivation \<and>
    tap_has_dmt_reward_address_mark st address \<and> get_string st (key1 (str ''bltr'') address) \<noteq> None"

section \<open>Deploy\<close>

definition BRC20_PRIVILEGE_AUTHORITY :: "rchar list" where
  "BRC20_PRIVILEGE_AUTHORITY = str ''c14d3de97cecc573d86592240ef38bf5ba298c8c2eaf68e17b99dbbeedbab7e4i0''"

text \<open>The decimals of a deployment; \<open>None\<close> is a refusal.\<close>

definition deploy_decimals :: "'f tap_env \<Rightarrow> 'f tjson \<Rightarrow> u32 option" where
  "deploy_decimals E v =
    (case tj_get v (str ''dec'') of
       None \<Rightarrow> Some 18
     | Some dec_val \<Rightarrow>
         (case js_parse_int E dec_val of
            None \<Rightarrow> Some 18
          | Some parsed \<Rightarrow>
              if 0 \<le> parsed \<and> parsed < 18 then
                (if is_valid_number (js_value_to_string E dec_val) then Some (nat parsed) else None)
              else Some 18))"

definition supply_cap :: "u32 \<Rightarrow> u128" where
  "supply_cap decimals =
    (case Option.bind (resolve_number_string MAX_DEC_U64_STR decimals) (parse_uint u128_max) of
       Some cap \<Rightarrow> cap | None \<Rightarrow> u128_max)"

definition deploy_max :: "'f tap_env \<Rightarrow> 'f tjson \<Rightarrow> u32 \<Rightarrow> rchar list option" where
  "deploy_max E max_val decimals =
    Option.bind (resolve_number_string (js_value_to_string E max_val) decimals) (\<lambda>max_s.
    Option.bind (parse_uint u128_max max_s) (\<lambda>max.
    if max = 0 \<or> supply_cap decimals < max then None else Some max_s))"

definition deploy_limit :: "'f tap_env \<Rightarrow> 'f tjson \<Rightarrow> u32 \<Rightarrow> u128 option" where
  "deploy_limit E v decimals =
    (case tj_get v (str ''lim'') of
       None \<Rightarrow> Some 0
     | Some lim_val \<Rightarrow>
         Option.bind (resolve_number_string (js_value_to_string E lim_val) decimals) (\<lambda>lim_s.
         Option.bind (parse_uint u128_max lim_s) (\<lambda>lim.
         if lim = 0 \<or> supply_cap decimals < lim then None else Some lim)))"

definition deploy_privilege :: "'f tap_store \<Rightarrow> 'f tjson \<Rightarrow> bool \<Rightarrow> bool \<Rightarrow> rchar list option option" where
  "deploy_privilege st v is_tap is_brc20_deploy =
    (case tj_get v (str ''prv'') of
       None \<Rightarrow> Some (if is_brc20_deploy then Some BRC20_PRIVILEGE_AUTHORITY else None)
     | Some prv_val \<Rightarrow>
         (case tj_str prv_val of
            None \<Rightarrow> None
          | Some prv \<Rightarrow>
              if is_tap \<and> (get_string st (key1 (str ''prains'') prv) = None \<or>
                           get_string st (key1 (str ''prac'') prv) \<noteq> None) then None
              else Some (Some prv)))"

text \<open>The ticker that is deployed, whether the payload is a TAP one and whether it is a BRC-20 deployment.\<close>

definition deploy_ticker :: "'f tap_env \<Rightarrow> int \<Rightarrow> 'f tjson \<Rightarrow> (rchar list \<times> bool \<times> bool) option" where
  "deploy_ticker E number v =
    (let pr = field_lower E v (str ''p'');
         op = field_lower E v (str ''op'');
         tick = (case get_str v (str ''tick'') of Some t \<Rightarrow> t | None \<Rightarrow> []);
         is_tap_deploy = (pr = str ''tap'' \<and> op = str ''token-deploy'');
         is_brc20_deploy = (pr = str ''brc-20'' \<and> op = str ''deploy'');
         tick_lower = js_to_lowercase E tick;
         vis_len = visible_length E tick;
         full = feature_height E FullTicker
     in if tj_get v (str ''tick'') = None \<or> tj_get v (str ''p'') = None \<or> tj_get v (str ''op'') = None
           \<or> tick = [] \<or> \<not> (is_tap_deploy \<or> is_brc20_deploy)
           \<or> begins_with [45] tick_lower \<or> begins_with (str ''dmt-'') tick_lower
           \<or> is_tap_deploy \<and> \<not> tap_feature_enabled E TapStart
           \<or> is_tap_deploy \<and> \<not> valid_tap_ticker_visible_len full (te_height E) vis_len
           \<or> \<not> is_tap_deploy \<and> is_brc20_deploy \<and> \<not> valid_brc20_ticker_visible_len full (te_height E) vis_len
           \<or> number < 0 \<and> tap_feature_enabled E Jubilee
        then None
        else Some (if number < 0 then [45] @ tick_lower else tick_lower, pr = str ''tap'', is_brc20_deploy))"

definition deploy_record ::
  "'f tap_env \<Rightarrow> inscription_id \<Rightarrow> int \<Rightarrow> sat_point \<Rightarrow> inscription \<Rightarrow> rchar list \<Rightarrow> u64 \<Rightarrow> 'f tap_store \<Rightarrow> tap_deploy option" where
  "deploy_record E i number p payload owner value st =
    (if \<not> in_creation E i p then None
     else
       Option.bind (payload_json E payload) (\<lambda>v.
       Option.bind (deploy_ticker E number v) (\<lambda>(effective_tick, is_tap, is_brc20_deploy).
       Option.bind (tj_get v (str ''max'')) (\<lambda>max_val.
       Option.bind (read_dta v) (\<lambda>dta.
       Option.bind (deploy_decimals E v) (\<lambda>decimals.
       Option.bind (deploy_max E max_val decimals) (\<lambda>max_s.
       Option.bind (deploy_limit E v decimals) (\<lambda>limit.
       Option.bind (deploy_privilege st v is_tap is_brc20_deploy) (\<lambda>prv.
       if get_deploy st (key1 (str ''d'') (js_json_stringify_str E effective_tick)) \<noteq> None then None
       else Some \<lparr>dr_tick = effective_tick, dr_max = max_s, dr_lim = show_nat limit, dr_dec = decimals,
                  dr_blck = te_height E, dr_tx = txid_text E p, dr_vo = op_vout (sp_outpoint p),
                  dr_val = show_nat value, dr_ins = id_text E i, dr_num = number, dr_ts = te_timestamp E,
                  dr_addr = owner, dr_crsd = number < 0, dr_dmt = False, dr_elem = None, dr_prj = None,
                  dr_dim = None, dr_dt = None, dr_prv = prv, dr_dta = dta\<rparr>)))))))))"

definition index_deployments ::
  "'f tap_env \<Rightarrow> inscription_id \<Rightarrow> int \<Rightarrow> sat_point \<Rightarrow> inscription \<Rightarrow> rchar list \<Rightarrow> u64 \<Rightarrow> 'f tap_store \<Rightarrow> 'f tap_store" where
  "index_deployments E i number p payload owner value st =
    (case deploy_record E i number p payload owner value st of
       None \<Rightarrow> st
     | Some rec \<Rightarrow>
         let tick_key = js_json_stringify_str E (dr_tick rec);
             st = tap_put (key1 (str ''d'') tick_key) (VDeploy rec) st;
             st = tap_put (key1 (str ''dc'') tick_key) (VString (dr_max rec)) st
         in superflat E (str ''dl'') (str ''dli'') (str ''dpl'') tick_key (txid_text E p) (VString (dr_tick rec)) st)"

section \<open>Privileges\<close>

function append_js_node_utf8_bytes :: "rchar list \<Rightarrow> nat list" where
  "append_js_node_utf8_bytes s =
    (case s of
       [] \<Rightarrow> []
     | ch # cs \<Rightarrow>
         (case js_internal_marker_at s of
            Some (kind, v, next) \<Rightarrow>
              (if kind = 115 then utf8_char 65533 else case scalar_from_u32 v of Some c \<Rightarrow> utf8_char c | None \<Rightarrow> []) @
              append_js_node_utf8_bytes next
          | None \<Rightarrow> utf8_char ch @ append_js_node_utf8_bytes cs))"
  by pat_completeness auto
termination
  by (relation "measure length") (auto dest: marker_at_shorter)

declare append_js_node_utf8_bytes.simps [simp del]

definition js_string_node_utf8_bytes :: "rchar list \<Rightarrow> nat list" where
  "js_string_node_utf8_bytes s =
    (if JS_SURROGATE_MARKER_START \<notin> set s then utf8 s else append_js_node_utf8_bytes s)"

definition sha256_bytes :: "'f tap_env \<Rightarrow> rchar list \<Rightarrow> nat list" where
  "sha256_bytes E s = te_sha256 E (js_string_node_utf8_bytes s)"

definition build_sha256_json_plus_salt :: "'f tap_env \<Rightarrow> 'f tjson \<Rightarrow> rchar list \<Rightarrow> nat list" where
  "build_sha256_json_plus_salt E obj salt =
    te_sha256 E (utf8 (js_json_stringify E obj) @ js_string_node_utf8_bytes salt)"

definition build_mint_privilege_message_hash ::
  "'f tap_env \<Rightarrow> rchar list \<Rightarrow> rchar list \<Rightarrow> rchar list \<Rightarrow> rchar list \<Rightarrow> rchar list \<Rightarrow> rchar list option \<Rightarrow> rchar list \<Rightarrow> nat list" where
  "build_mint_privilege_message_hash E p op tmp_tick amt_str address ins_data prv_salt =
    sha256_bytes E (join [45] ([p, op, tmp_tick, amt_str, address] @
      (case ins_data of Some d \<Rightarrow> [d] | None \<Rightarrow> []) @ [prv_salt]))"

definition legacy_privilege_signature_gate :: "'f tjson option \<Rightarrow> bool option" where
  "legacy_privilege_signature_gate prv =
    (case prv of
       None \<Rightarrow> None
     | Some prv \<Rightarrow>
         if prv = TNull then None
         else
           (case tj_get prv (str ''sig'') of
              None \<Rightarrow> Some False
            | Some sg \<Rightarrow>
                if sg = TNull then None
                else if \<not> tj_is_object sg then Some False
                else Some (list_all (\<lambda>k. tj_get sg k \<noteq> None) [str ''v'', str ''r'', str ''s''] \<and>
                           list_all (\<lambda>k. tj_get prv k \<noteq> None) [str ''hash'', str ''address'', str ''salt''])))"

text \<open>\<open>trim_start_matches("0x")\<close> takes off every copy of the prefix.\<close>

fun trim_0x :: "rchar list \<Rightarrow> rchar list" where
  "trim_0x (a # b # s) = (if a = 48 \<and> b = 120 then trim_0x s else a # b # s)"
| "trim_0x s = s"

text \<open>The key that made a signature object over a hash, with the 64 bytes of the signature.\<close>

definition recover_key :: "'f tap_env \<Rightarrow> 'f tjson \<Rightarrow> rchar list \<Rightarrow> int \<Rightarrow> (nat list \<times> nat list) option" where
  "recover_key E sg hash_hex rec_id =
    Option.bind (Option.bind (tj_get sg (str ''r'')) (js_bigint_value_to_32 E)) (\<lambda>r.
    Option.bind (Option.bind (tj_get sg (str ''s'')) (js_bigint_value_to_32 E)) (\<lambda>s.
    Option.bind (te_hex_decode E (trim_0x hash_hex)) (\<lambda>hash.
    if length hash \<noteq> 32 \<or> \<not> te_recovery_id_ok E rec_id then None
    else Option.bind (te_recover E hash (r @ s) rec_id) (\<lambda>pubkey.
         if te_signature_ok E (r @ s) then Some (pubkey, r @ s) else None))))"

definition verify_privilege_signature_with_msg ::
  "'f tap_env \<Rightarrow> 'f tap_store \<Rightarrow> rchar list \<Rightarrow> 'f tjson \<Rightarrow> nat list \<Rightarrow> rchar list \<Rightarrow> (bool \<times> rchar list) option" where
  "verify_privilege_signature_with_msg E st deployed_prv prv_obj msg_hash address =
    Option.bind (tj_get prv_obj (str ''sig'')) (\<lambda>sg.
    Option.bind (get_str prv_obj (str ''address'')) (\<lambda>prv_addr.
    Option.bind (tj_get prv_obj (str ''salt'')) (\<lambda>_.
    Option.bind (get_str prv_obj (str ''hash'')) (\<lambda>hash_hex.
    Option.bind (Option.bind (tj_get sg (str ''v'')) (js_parse_int_i32 E)) (\<lambda>v_i.
    let rec_id = (if te_recovery_id_ok E v_i then v_i else if 27 \<le> v_i then v_i - 27 else v_i) in
    Option.bind (recover_key E sg hash_hex rec_id) (\<lambda>(pubkey, sig_bytes).
    let compact_sig_hex = hex_text sig_bytes;
        is_valid = te_verify E msg_hash sig_bytes pubkey;
        used = get_string st (key1 (str ''prah'') compact_sig_hex) \<noteq> None;
        link = Option.bind (get_string st (key1 (str ''prains'') deployed_prv)) (get_privilege_auth st)
    in case link of
         None \<Rightarrow> Some (False, compact_sig_hex)
       | Some rec \<Rightarrow>
           Option.bind (Option.bind (tj_get (pa_sig rec) (str ''v'')) (js_parse_int_i32 E)) (\<lambda>v2i.
           let rec_id2 = (if te_recovery_id_ok E v2i then v2i else v2i - 27) in
           Option.bind (recover_key E (pa_sig rec) (pa_hash rec) rec_id2) (\<lambda>(auth_pk, sig2).
           let ok2 = te_verify E (build_sha256_json_plus_salt E (pa_auth rec) (pa_slt rec)) sig2 auth_pk;
               cancelled = get_string st (key1 (str ''prac'') (pa_ins rec)) \<noteq> None;
               link_ok = \<not> cancelled \<and> ok2 \<and> pubkey = auth_pk \<and> prv_addr = address
           in Some (is_valid \<and> \<not> used \<and> link_ok, compact_sig_hex)))))))))"

section \<open>Mint\<close>

record 'f mint_request =
  mq_json :: "'f tjson"
  mq_tick :: "rchar list"
  mq_effective_tick :: "rchar list"
  mq_tick_key :: "rchar list"
  mq_dta :: "rchar list option"
  mq_deployed :: tap_deploy
  mq_tokens_left :: u128
  mq_amt_input :: "rchar list"
  mq_amount :: u128

definition mint_request_of ::
  "'f tap_env \<Rightarrow> inscription_id \<Rightarrow> int \<Rightarrow> sat_point \<Rightarrow> inscription \<Rightarrow> 'f tap_store \<Rightarrow> 'f mint_request option" where
  "mint_request_of E i number p payload st =
    (if \<not> in_creation E i p then None
     else
       Option.bind (payload_json E payload) (\<lambda>v.
       let pr = field_lower E v (str ''p'');
           op = field_lower E v (str ''op'');
           tick = (case get_str v (str ''tick'') of Some t \<Rightarrow> t | None \<Rightarrow> []);
           tick_lower = js_to_lowercase E tick
       in if pr \<noteq> str ''tap'' \<or> op \<noteq> str ''token-mint'' \<or> tick = []
             \<or> begins_with [45] tick_lower \<or> begins_with (str ''dmt-'') tick_lower
             \<or> \<not> valid_tap_ticker_visible_len (feature_height E FullTicker) (te_height E) (visible_length E tick)
             \<or> number < 0 \<and> tap_feature_enabled E Jubilee
          then None
          else
            let effective_tick = (if number < 0 then [45] @ tick_lower else tick_lower);
                tick_key = js_json_stringify_str E effective_tick
            in Option.bind (tj_get v (str ''amt'')) (\<lambda>amt_raw.
               Option.bind (read_dta v) (\<lambda>dta.
               Option.bind (get_deploy st (key1 (str ''d'') tick_key)) (\<lambda>deployed.
               Option.bind (read_u128 st (key1 (str ''dc'') tick_key)) (\<lambda>tokens_left.
               Option.bind (resolve_number_string (js_value_to_string E amt_raw) (dr_dec deployed)) (\<lambda>amt_norm.
               Option.bind (parse_uint u128_max amt_norm) (\<lambda>amount.
               Some \<lparr>mq_json = v, mq_tick = tick, mq_effective_tick = effective_tick, mq_tick_key = tick_key,
                     mq_dta = dta, mq_deployed = deployed, mq_tokens_left = tokens_left,
                     mq_amt_input = js_value_to_string E amt_raw, mq_amount = amount\<rparr>))))))))"

text \<open>The amount that is minted and whether the mint fails, before privileges.\<close>

definition tap_mint_amount :: "'f mint_request \<Rightarrow> u128 \<times> bool" where
  "tap_mint_amount q =
    (let limit = or_zero (parse_uint u128_max (dr_lim (mq_deployed q)))
     in if 0 < limit \<and> limit < mq_amount q then (mq_amount q, True)
        else let amount = (if mq_tokens_left q < mq_amount q then mq_tokens_left q else mq_amount q)
             in (amount, amount = 0))"

text \<open>The privilege of a deployment: \<open>None\<close> returns, else whether it fails and the signature it uses up.\<close>

definition mint_privilege ::
  "'f tap_env \<Rightarrow> 'f tap_store \<Rightarrow> 'f mint_request \<Rightarrow> rchar list \<Rightarrow> (bool \<times> rchar list option) option" where
  "mint_privilege E st q owner =
    (case dr_prv (mq_deployed q) of
       None \<Rightarrow> Some (False, None)
     | Some prv_dep \<Rightarrow>
         (case legacy_privilege_signature_gate (tj_get (mq_json q) (str ''prv'')) of
            None \<Rightarrow> None
          | Some False \<Rightarrow> Some (True, None)
          | Some True \<Rightarrow>
              Option.bind (tj_get (mq_json q) (str ''prv'')) (\<lambda>prv_obj.
              let prv_salt = (case tj_get prv_obj (str ''salt'') of Some s \<Rightarrow> js_value_to_string E s | None \<Rightarrow> []);
                  prv_addr = (case get_str prv_obj (str ''address'') of Some s \<Rightarrow> s | None \<Rightarrow> []);
                  msg_hash = build_mint_privilege_message_hash E (field_lower E (mq_json q) (str ''p''))
                    (field_lower E (mq_json q) (str ''op'')) (mq_tick q) (mq_amt_input q) prv_addr (mq_dta q) prv_salt
              in map_option (\<lambda>(ok, comp_hex). if ok then (False, Some comp_hex) else (True, None))
                   (verify_privilege_signature_with_msg E st prv_dep prv_obj msg_hash owner))))"

definition mint_apply ::
  "'f tap_env \<Rightarrow> inscription_id \<Rightarrow> int \<Rightarrow> sat_point \<Rightarrow> rchar list \<Rightarrow> u64 \<Rightarrow> 'f mint_request \<Rightarrow> u128 \<Rightarrow> bool
    \<Rightarrow> rchar list option \<Rightarrow> 'f tap_store \<Rightarrow> 'f tap_store" where
  "mint_apply E i number p owner value q amount fail used_compact_sig st =
    (let tick_key = mq_tick_key q;
         bal_key = key2 (str ''b'') owner tick_key;
         prev_balance = or_zero (read_u128 st bal_key);
         new_balance = (if \<not> fail then saturating_add u128_max prev_balance amount else prev_balance);
         st = (if fail then st
               else
                 let st = tap_put (key1 (str ''dc'') tick_key) (VString (show_nat (saturating_sub (mq_tokens_left q) amount))) st;
                     st = tap_put bal_key (VString (show_nat new_balance)) st
                 in add_owned owner tick_key (tick_label E tick_key (mq_effective_tick q)) (add_holder owner tick_key st));
         rec = \<lparr>mr_addr = owner, mr_blck = te_height E, mr_amt = show_nat amount, mr_bal = show_nat new_balance,
                mr_tx = Some (txid_text E p), mr_vo = op_vout (sp_outpoint p), mr_val = show_nat value,
                mr_ins = Some (id_text E i), mr_num = Some number, mr_ts = te_timestamp E, mr_fail = fail,
                mr_dmtblck = None, mr_dta = mq_dta q\<rparr>;
         st = tap_append (key2 (str ''aml'') owner tick_key) (key2 (str ''amli'') owner tick_key) (VMint rec) st;
         st = tap_append (key1 (str ''fml'') tick_key) (key1 (str ''fmli'') tick_key) (VMintFlat rec) st;
         st = superflat E (str ''sfml'') (str ''sfmli'') (str ''mnt'') tick_key (txid_text E p)
                (VMintSuperflat (mq_effective_tick q) rec) st
     in case used_compact_sig of
          Some sig_hex \<Rightarrow> tap_put (key1 (str ''prah'') sig_hex) (VString []) st
        | None \<Rightarrow> st)"

definition index_mints ::
  "'f tap_env \<Rightarrow> inscription_id \<Rightarrow> int \<Rightarrow> sat_point \<Rightarrow> inscription \<Rightarrow> rchar list \<Rightarrow> u64 \<Rightarrow> 'f tap_store \<Rightarrow> 'f tap_store" where
  "index_mints E i number p payload owner value st =
    (case mint_request_of E i number p payload st of
       None \<Rightarrow> st
     | Some q \<Rightarrow>
         (case tap_mint_amount q of (amount, fail) \<Rightarrow>
            (case (if fail then Some (True, None) else mint_privilege E st q owner) of
               None \<Rightarrow> st
             | Some (fail, used_compact_sig) \<Rightarrow>
                 mint_apply E i number p owner value q amount fail used_compact_sig st)))"

section \<open>Transfer\<close>

record transfer_request =
  tq_tick :: "rchar list"
  tq_tick_key :: "rchar list"
  tq_dta :: "rchar list option"
  tq_tokens_left :: u128
  tq_amount :: nat

definition transfer_request_of ::
  "'f tap_env \<Rightarrow> inscription_id \<Rightarrow> int \<Rightarrow> sat_point \<Rightarrow> inscription \<Rightarrow> rchar list \<Rightarrow> 'f tap_store \<Rightarrow> transfer_request option" where
  "transfer_request_of E i number p payload owner st =
    (if \<not> in_creation E i p then None
     else
       Option.bind (payload_json E payload) (\<lambda>v.
       let pr = field_lower E v (str ''p'');
           op = field_lower E v (str ''op'');
           tick = (case get_str v (str ''tick'') of Some t \<Rightarrow> t | None \<Rightarrow> [])
       in if pr \<noteq> str ''tap'' \<or> op \<noteq> str ''token-transfer'' \<or> tick = []
             \<or> begins_with [45] (js_to_lowercase E tick) \<and> \<not> tap_feature_enabled E Jubilee
             \<or> \<not> valid_transfer_ticker_visible_len E (feature_height E FullTicker) (te_height E) (feature_height E Jubilee)
                   tick (visible_length E tick)
          then None
          else
            Option.bind (tj_get v (str ''amt'')) (\<lambda>amt_raw.
            Option.bind (read_dta v) (\<lambda>dta.
            if number < 0 \<and> tap_feature_enabled E Jubilee then None
            else
              let tick = (if number < 0 then [45] @ tick else tick);
                  tick_key = json_stringify_lower E tick
              in if get_string st (key1 (str ''bltr'') owner) \<noteq> None then None
                 else
                   Option.bind (get_deploy st (key1 (str ''d'') tick_key)) (\<lambda>deployed.
                   Option.bind (read_u128 st (key2 (str ''b'') owner tick_key)) (\<lambda>tokens_left.
                   Option.bind (resolve_number_string (js_value_to_string E amt_raw) (dr_dec deployed)) (\<lambda>amt_norm.
                   Option.bind (big_digits 10 0 amt_norm) (\<lambda>amount.
                   Some \<lparr>tq_tick = tick, tq_tick_key = tick_key, tq_dta = dta, tq_tokens_left = tokens_left,
                         tq_amount = amount\<rparr>)))))))) "

definition index_token_transfer_created ::
  "'f tap_env \<Rightarrow> inscription_id \<Rightarrow> int \<Rightarrow> sat_point \<Rightarrow> inscription \<Rightarrow> rchar list \<Rightarrow> u64 \<Rightarrow> 'f tap_store \<Rightarrow> 'f tap_store" where
  "index_token_transfer_created E i number p payload owner value st =
    (case transfer_request_of E i number p payload owner st of
       None \<Rightarrow> st
     | Some q \<Rightarrow>
         let tick_key = tq_tick_key q;
             amount = tq_amount q;
             tr_key = key2 (str ''t'') owner tick_key;
             transferable = or_zero (read_u128 st tr_key);
             locked = nat (tap_get_locked_amount E st owner tick_key);
             obligation_locked = nat (tap_get_account_obligation_locked_amount E st owner tick_key);
             fail = tq_tokens_left q < transferable + locked + obligation_locked + amount
         in if \<not> fail \<and> u128_max < amount then st
            else
              let new_transferable = (if fail then transferable else saturating_add u128_max transferable amount);
                  st = (if fail then st
                        else tap_put (key1 (str ''tamt'') (id_text E i)) (VString (show_nat amount))
                               (tap_put tr_key (VString (show_nat new_transferable)) st));
                  rec = \<lparr>ti_addr = owner, ti_blck = te_height E, ti_amt = show_nat amount, ti_trf = show_nat new_transferable,
                         ti_bal = show_nat (tq_tokens_left q), ti_tx = txid_text E p, ti_vo = op_vout (sp_outpoint p),
                         ti_val = show_nat value, ti_ins = id_text E i, ti_num = number, ti_ts = te_timestamp E,
                         ti_fail = fail, ti_int = False, ti_dta = tq_dta q\<rparr>;
                  (list_len, st) = tap_set_list_record (key2 (str ''atrl'') owner tick_key) (key2 (str ''atrli'') owner tick_key)
                                     (VTransferInit rec) st;
                  st = (if fail then st
                        else tap_put (key1 (str ''kind'') (id_text E i)) (VString (str ''tl''))
                               (tap_put (key1 (str ''tl'') (id_text E i))
                                 (VString (key3 (str ''atrli'') owner tick_key (show_nat (list_len - 1)))) st));
                  st = tap_append (key1 (str ''ftrl'') tick_key) (key1 (str ''ftrli'') tick_key) (VTransferInitFlat rec) st
              in superflat E (str ''sftrl'') (str ''sftrli'') (str ''trf'') tick_key (txid_text E p)
                   (VTransferInitSuperflat (js_to_lowercase E (tq_tick q)) rec) st)"

text \<open>
  The rows of an executed transfer, one for the sender, one for the receiver and one for the ticker, and
  the row for all with the pointers to it.
\<close>

definition send_rows :: "rchar list \<Rightarrow> rchar list \<Rightarrow> send_flat \<Rightarrow> 'f tap_store \<Rightarrow> 'f tap_store" where
  "send_rows receiver tick_key r st =
    (let srec = \<lparr>ss_addr = sf_addr r, ss_taddr = sf_taddr r, ss_blck = sf_blck r, ss_amt = sf_amt r, ss_trf = sf_trf r,
                 ss_bal = sf_bal r, ss_tx = sf_tx r, ss_vo = sf_vo r, ss_val = sf_val r, ss_ins = sf_ins r,
                 ss_num = sf_num r, ss_ts = sf_ts r, ss_fail = sf_fail r, ss_int = sf_int r, ss_dta = sf_dta r\<rparr>;
         rrec = \<lparr>sr_faddr = sf_addr r, sr_addr = receiver, sr_blck = sf_blck r, sr_amt = sf_amt r, sr_bal = sf_tbal r,
                 sr_tx = sf_tx r, sr_vo = sf_vo r, sr_val = sf_val r, sr_ins = sf_ins r, sr_num = sf_num r,
                 sr_ts = sf_ts r, sr_fail = sf_fail r, sr_int = sf_int r, sr_dta = sf_dta r\<rparr>;
         st = tap_append (key2 (str ''strl'') (sf_addr r) tick_key) (key2 (str ''strli'') (sf_addr r) tick_key) (VSendSender srec) st;
         st = tap_append (key2 (str ''rstrl'') receiver tick_key) (key2 (str ''rstrli'') receiver tick_key) (VSendReceiver rrec) st
     in tap_append (key1 (str ''fstrl'') tick_key) (key1 (str ''fstrli'') tick_key) (VSendFlat r) st)"

definition send_superflat :: "'f tap_env \<Rightarrow> rchar list \<Rightarrow> rchar list \<Rightarrow> send_flat \<Rightarrow> 'f tap_store \<Rightarrow> 'f tap_store" where
  "send_superflat E tick_key label r st =
    superflat E (str ''sfstrl'') (str ''sfstrli'') (str ''snd'') tick_key (sf_tx r) (VSendSuperflat label r) st"

text \<open>The transfer link of an inscription, read back: the initial record and the ticker's key.\<close>

definition transfer_link ::
  "'f tap_env \<Rightarrow> inscription_id \<Rightarrow> sat_point \<Rightarrow> 'f tap_store \<Rightarrow> (transfer_init \<times> rchar list) option" where
  "transfer_link E i p st =
    (if in_creation E i p then None
     else
       Option.bind (get_string st (key1 (str ''tl'') (id_text E i))) (\<lambda>ptr.
       if ptr = [] then None
       else
         Option.bind (get_transfer_init st ptr) (\<lambda>atr.
         Option.bind (rsplit_once 47 ptr) (\<lambda>(ptr_without_index, index).
         if parse_uint u64_max index = None then None
         else
           Option.bind (strip_prefix (str ''atrli/'') ptr_without_index) (\<lambda>rest.
           Option.bind (split_once 47 rest) (\<lambda>(ptr_sender, tick_key).
           if ptr_sender \<noteq> ti_addr atr \<or> tick_key = [] \<or> ti_tx atr = txid_text E p
              \<or> get_deploy st (key1 (str ''d'') tick_key) = None then None
           else Some (atr, tick_key))))))) "

text \<open>What is left of a link once it is used: no amount, an empty link, no kind.\<close>

definition drop_link :: "'f tap_env \<Rightarrow> inscription_id \<Rightarrow> 'f tap_store \<Rightarrow> 'f tap_store" where
  "drop_link E i st = tap_del (key1 (str ''kind'') (id_text E i)) (tap_put (key1 (str ''tl'') (id_text E i)) (VString []) st)"

definition clear_amount :: "'f tap_env \<Rightarrow> inscription_id \<Rightarrow> 'f tap_store \<Rightarrow> 'f tap_store" where
  "clear_amount E i st = tap_put (key1 (str ''tamt'') (id_text E i)) (VString (show_nat 0)) st"

definition transfer_shielded ::
  "'f tap_env \<Rightarrow> inscription_id \<Rightarrow> transfer_init \<Rightarrow> rchar list \<Rightarrow> rchar list \<Rightarrow> 'f tap_store \<Rightarrow> 'f tap_store" where
  "transfer_shielded E i atr tick_key receiver st =
    (if receiver = ti_addr atr then st
     else
       let transfer_key = key2 (str ''t'') (ti_addr atr) tick_key;
           st = (case get_string st transfer_key of
                   Some s \<Rightarrow>
                     tap_put transfer_key (VString (show_int (max 0 (i128 (or_zero (parse_i128 s) - or_zero (parse_i128 (ti_amt atr))))))) st
                 | None \<Rightarrow> tap_del transfer_key st)
       in drop_link E i (clear_amount E i st))"

text \<open>The movement itself: from the balance and the transferable of the sender to the receiver.\<close>

definition tap_transfer_move ::
  "'f tap_env \<Rightarrow> inscription_id \<Rightarrow> sat_point \<Rightarrow> transfer_init \<Rightarrow> rchar list \<Rightarrow> rchar list \<Rightarrow> u64 \<Rightarrow> int \<Rightarrow> int \<Rightarrow> 'f tap_store \<Rightarrow> 'f tap_store" where
  "tap_transfer_move E i p atr tick_key receiver value bal trf st =
    (let sender = ti_addr atr;
         amount = or_zero (parse_i128 (ti_amt atr));
         fail = (i128 (trf - amount) < 0 \<or> i128 (bal - amount) < 0);
         transferable = (if fail \<and> i128 (trf - amount) < 0 then 0 else i128 (trf - amount));
         balance = (if fail then bal else i128 (bal - amount));
         recv_display = (if trim_js_whitespace receiver = [45] then BURN_ADDRESS else receiver);
         recv_bal_key = key2 (str ''b'') receiver tick_key;
         receiver_balance_current = or_zero (read_i128 st recv_bal_key);
         moves = \<not> fail \<and> receiver \<noteq> sender;
         receiver_balance = (if moves then i128 (receiver_balance_current + amount) else receiver_balance_current);
         st = (if \<not> moves then st
               else
                 let st = tap_put (key2 (str ''b'') sender tick_key) (VString (show_int balance)) st;
                     st = add_holder receiver tick_key (tap_put recv_bal_key (VString (show_int receiver_balance)) st)
                 in if get_string st (key2 (str ''ato'') receiver tick_key) = None then
                      tap_append (key1 (str ''atl'') receiver) (key1 (str ''atli'') receiver) (VString (tick_label E tick_key tick_key))
                        (tap_put (key2 (str ''ato'') receiver tick_key) (VString []) st)
                    else st);
         r = \<lparr>sf_addr = sender, sf_taddr = recv_display, sf_blck = te_height E, sf_amt = ti_amt atr,
              sf_trf = show_int transferable,
              sf_bal = show_int (if receiver = sender then receiver_balance_current else balance),
              sf_tbal = show_int receiver_balance, sf_tx = txid_text E p, sf_vo = op_vout (sp_outpoint p),
              sf_val = show_nat value, sf_ins = id_text E i, sf_num = ti_num atr, sf_ts = te_timestamp E,
              sf_fail = fail, sf_int = False, sf_dta = ti_dta atr\<rparr>;
         st = send_rows receiver tick_key r st;
         st = tap_put (key2 (str ''t'') sender tick_key) (VString (show_int transferable)) st;
         st = clear_amount E i st
     in send_superflat E tick_key (tick_label E tick_key tick_key) r st)"

definition index_token_transfer_executed ::
  "'f tap_env \<Rightarrow> inscription_id \<Rightarrow> sat_point \<Rightarrow> rchar list \<Rightarrow> u64 \<Rightarrow> 'f tap_store \<Rightarrow> 'f tap_store" where
  "index_token_transfer_executed E i p owner value st =
    (case transfer_link E i p st of
       None \<Rightarrow> st
     | Some (atr, tick_key) \<Rightarrow>
         let sender = ti_addr atr
         in if tap_blocks_dmt_reward_transfer_execution E st sender then transfer_shielded E i atr tick_key owner st
            else
              drop_link E i
                (case get_string st (key2 (str ''b'') sender tick_key) of
                   None \<Rightarrow> clear_amount E i (tap_del (key2 (str ''t'') sender tick_key) st)
                 | Some balance_s \<Rightarrow>
                     (case get_string st (key2 (str ''t'') sender tick_key) of
                        None \<Rightarrow> st
                      | Some transferable_s \<Rightarrow>
                          tap_transfer_move E i p atr tick_key owner value (or_zero (parse_i128 balance_s))
                            (or_zero (parse_i128 transferable_s)) st)))"

section \<open>Send\<close>

definition exec_internal_send_one ::
  "'f tap_env \<Rightarrow> rchar list \<Rightarrow> rchar list \<Rightarrow> rchar list \<Rightarrow> 'f tjson \<Rightarrow> rchar list option \<Rightarrow> rchar list \<Rightarrow> int \<Rightarrow> sat_point \<Rightarrow> u64
    \<Rightarrow> 'f tap_store \<Rightarrow> 'f tap_store" where
  "exec_internal_send_one E from_addr to_addr tick amt_val dta inscription num p value st =
    (let tick_key = json_stringify_lower E tick
     in case get_deploy st (key1 (str ''d'') tick_key) of
          None \<Rightarrow> st
        | Some deployed \<Rightarrow>
            (case (Option.bind (resolve_number_string (js_value_to_string E amt_val) (dr_dec deployed)) parse_i128,
                   Option.bind (resolve_number_string MAX_DEC_U64_STR (dr_dec deployed)) parse_i128) of
               (Some amount, Some max_amount) \<Rightarrow>
                 if amount \<le> 0 \<or> max_amount < amount then st
                 else
                   let from_balance = or_zero (read_i128 st (key2 (str ''b'') from_addr tick_key));
                       from_trf = or_zero (read_i128 st (key2 (str ''t'') from_addr tick_key));
                       from_locked = tap_get_locked_amount E st from_addr tick_key;
                       from_obligation_locked = tap_get_account_obligation_locked_amount E st from_addr tick_key;
                       to_balance = or_zero (read_i128 st (key2 (str ''b'') to_addr tick_key));
                       fail = i128 (i128 (i128 (i128 (from_balance - amount) - from_trf) - from_locked) - from_obligation_locked) < 0
                   in if from_addr = to_addr then st
                      else
                        let from_balance = (if fail then from_balance else i128 (from_balance - amount));
                            to_balance = (if fail then to_balance else i128 (to_balance + amount));
                            label = tick_label E tick_key (js_to_lowercase E tick);
                            st = (if fail then st
                                  else
                                    let st = tap_put (key2 (str ''b'') from_addr tick_key) (VString (show_int from_balance)) st;
                                        st = tap_put (key2 (str ''b'') to_addr tick_key) (VString (show_int to_balance)) st
                                    in add_owned to_addr tick_key label (add_holder to_addr tick_key st));
                            r = \<lparr>sf_addr = from_addr, sf_taddr = to_addr, sf_blck = te_height E, sf_amt = show_int amount,
                                 sf_trf = show_int from_trf, sf_bal = show_int from_balance, sf_tbal = show_int to_balance,
                                 sf_tx = txid_text E p, sf_vo = op_vout (sp_outpoint p), sf_val = show_nat value,
                                 sf_ins = inscription, sf_num = num, sf_ts = te_timestamp E, sf_fail = fail, sf_int = True,
                                 sf_dta = dta\<rparr>
                        in send_superflat E tick_key label r (send_rows to_addr tick_key r st)
             | _ \<Rightarrow> st))"

text \<open>An accumulator is kept for its inscription, listed for its owner and for all, with two pointers.\<close>

definition accumulate :: "'f tap_env \<Rightarrow> inscription_id \<Rightarrow> sat_point \<Rightarrow> rchar list \<Rightarrow> rchar list \<Rightarrow> 'f accumulator \<Rightarrow> 'f tap_store \<Rightarrow> 'f tap_store" where
  "accumulate E i p owner kind acc st =
    (let st = tap_put (key1 (str ''a'') (id_text E i)) (VAccumulator acc) st;
         st = tap_append (key1 (str ''al'') owner) (key1 (str ''ali'') owner) (VAccumulator acc) st;
         (list_len, st) = tap_set_list_record (str ''al'') (str ''ali'') (VAccumulator acc) st;
         ptr = VString (key1 (str ''ali'') (show_nat (list_len - 1)));
         txs = txid_text E p;
         h = show_nat (te_height E);
         st = tap_append (key2 (str ''tx'') kind txs) (key2 (str ''txi'') kind txs) ptr st
     in tap_append (key2 (str ''blck'') kind h) (key2 (str ''blcki'') kind h) ptr st)"

definition accumulator_of ::
  "'f tap_env \<Rightarrow> inscription_id \<Rightarrow> int \<Rightarrow> sat_point \<Rightarrow> rchar list \<Rightarrow> rchar list \<Rightarrow> 'f tjson \<Rightarrow> rchar list option \<Rightarrow> 'f accumulator" where
  "accumulator_of E i number p owner op v val =
    \<lparr>ac_op = op, ac_json = v, ac_ins = id_text E i, ac_blck = te_height E, ac_tx = txid_text E p,
     ac_vo = op_vout (sp_outpoint p), ac_val = val, ac_num = number, ac_ts = te_timestamp E, ac_addr = owner\<rparr>"

text \<open>One item of a send: its ticker, address, amount and data are checked and its address is normalized.\<close>

definition send_item :: "'f tap_env \<Rightarrow> 'f tjson \<Rightarrow> 'f tjson option" where
  "send_item E it =
    Option.bind (get_str it (str ''tick'')) (\<lambda>tick.
    Option.bind (get_str it (str ''address'')) (\<lambda>addr_raw.
    let addr_norm = normalize_address E addr_raw
    in if tj_get it (str ''amt'') = None
          \<or> \<not> valid_tap_ticker_visible_len (feature_height E FullTicker) (te_height E)
                (visible_length E (strip_prefix_for_len_check E tick))
          \<or> \<not> is_valid_bitcoin_address E addr_norm \<or> read_dta it = None then None
       else Some (tj_set (str ''address'') (TString addr_norm) it)))"

definition index_token_send_created ::
  "'f tap_env \<Rightarrow> inscription_id \<Rightarrow> int \<Rightarrow> sat_point \<Rightarrow> inscription \<Rightarrow> rchar list \<Rightarrow> 'f tap_store \<Rightarrow> 'f tap_store" where
  "index_token_send_created E i number p payload owner st =
    (if \<not> in_creation E i p then st
     else
       case payload_json E payload of
         None \<Rightarrow> st
       | Some v \<Rightarrow>
           if field_lower E v (str ''p'') \<noteq> str ''tap'' \<or> field_lower E v (str ''op'') \<noteq> str ''token-send'' then st
           else
             (case Option.bind (tj_get v (str ''items'')) tj_array of
                None \<Rightarrow> st
              | Some items \<Rightarrow>
                  if items = [] \<or> number < 0 \<and> tap_feature_enabled E Jubilee \<or> tap_is_dmt_reward_address E st owner then st
                  else
                    (case those (map (send_item E) items) of
                       None \<Rightarrow> st
                     | Some items \<Rightarrow>
                         accumulate E i p owner (str ''a-snd'')
                           (accumulator_of E i number p owner (str ''token-send'') (tj_set (str ''items'') (TArray items) v) None)
                           st)))"

text \<open>The accumulator an executed handler acts on: its owner and its operation have to match.\<close>

definition accumulator_for ::
  "'f tap_env \<Rightarrow> inscription_id \<Rightarrow> sat_point \<Rightarrow> rchar list \<Rightarrow> rchar list \<Rightarrow> 'f tap_store \<Rightarrow> 'f accumulator option" where
  "accumulator_for E i p owner op st =
    (if in_creation E i p then None
     else
       Option.bind (get_accumulator st (key1 (str ''a'') (id_text E i))) (\<lambda>acc.
       if ac_addr acc \<noteq> owner \<or> te_lower E (ac_op acc) \<noteq> op then None else Some acc))"

definition send_executed_item ::
  "'f tap_env \<Rightarrow> rchar list \<Rightarrow> rchar list \<Rightarrow> int \<Rightarrow> sat_point \<Rightarrow> u64 \<Rightarrow> 'f tjson \<Rightarrow> 'f tap_store \<Rightarrow> 'f tap_store" where
  "send_executed_item E owner inscription num p value item st =
    (case (read_dta item, get_str item (str ''tick''), get_str item (str ''address''), tj_get item (str ''amt'')) of
       (Some dta, Some tick, Some receiver, Some amt_raw) \<Rightarrow>
         exec_internal_send_one E owner receiver tick amt_raw dta inscription num p value st
     | _ \<Rightarrow> st)"

definition index_token_send_executed ::
  "'f tap_env \<Rightarrow> inscription_id \<Rightarrow> sat_point \<Rightarrow> rchar list \<Rightarrow> u64 \<Rightarrow> 'f tap_store \<Rightarrow> 'f tap_store" where
  "index_token_send_executed E i p owner value st =
    (case accumulator_for E i p owner (str ''token-send'') st of
       None \<Rightarrow> st
     | Some acc \<Rightarrow>
         let key = key1 (str ''a'') (id_text E i)
         in if tap_is_dmt_reward_address E st owner then tap_del key st
            else
              (case Option.bind (tj_get (ac_json acc) (str ''items'')) tj_array of
                 None \<Rightarrow> tap_del key st
               | Some items \<Rightarrow>
                   tap_del key (fold (send_executed_item E owner (id_text E i) (ac_num acc) p value) items st)))"

section \<open>Blocking transferables\<close>

definition block_created ::
  "'f tap_env \<Rightarrow> rchar list \<Rightarrow> inscription_id \<Rightarrow> int \<Rightarrow> sat_point \<Rightarrow> inscription \<Rightarrow> rchar list \<Rightarrow> u64 \<Rightarrow> 'f tap_store \<Rightarrow> 'f tap_store" where
  "block_created E wanted i number p payload owner value st =
    (if \<not> in_creation E i p then st
     else
       case payload_json E payload of
         None \<Rightarrow> st
       | Some v \<Rightarrow>
           if field_lower E v (str ''p'') \<noteq> str ''tap'' \<or> field_lower E v (str ''op'') \<noteq> wanted then st
           else accumulate E i p owner (str ''a-athc'') (accumulator_of E i number p owner wanted v (Some (show_nat value))) st)"

definition index_block_transferables_created ::
  "'f tap_env \<Rightarrow> inscription_id \<Rightarrow> int \<Rightarrow> sat_point \<Rightarrow> inscription \<Rightarrow> rchar list \<Rightarrow> u64 \<Rightarrow> 'f tap_store \<Rightarrow> 'f tap_store" where
  "index_block_transferables_created E = block_created E (str ''block-transferables'')"

definition index_unblock_transferables_created ::
  "'f tap_env \<Rightarrow> inscription_id \<Rightarrow> int \<Rightarrow> sat_point \<Rightarrow> inscription \<Rightarrow> rchar list \<Rightarrow> u64 \<Rightarrow> 'f tap_store \<Rightarrow> 'f tap_store" where
  "index_unblock_transferables_created E = block_created E (str ''unblock-transferables'')"

definition index_block_transferables_executed ::
  "'f tap_env \<Rightarrow> inscription_id \<Rightarrow> sat_point \<Rightarrow> rchar list \<Rightarrow> 'f tap_store \<Rightarrow> 'f tap_store" where
  "index_block_transferables_executed E i p owner st =
    (case accumulator_for E i p owner (str ''block-transferables'') st of
       None \<Rightarrow> st
     | Some acc \<Rightarrow>
         tap_del (key1 (str ''a'') (id_text E i))
           (if get_string st (key1 (str ''bltr'') owner) = None then tap_put (key1 (str ''bltr'') owner) (VString []) st else st))"

definition index_unblock_transferables_executed ::
  "'f tap_env \<Rightarrow> inscription_id \<Rightarrow> sat_point \<Rightarrow> rchar list \<Rightarrow> 'f tap_store \<Rightarrow> 'f tap_store" where
  "index_unblock_transferables_executed E i p owner st =
    (case accumulator_for E i p owner (str ''unblock-transferables'') st of
       None \<Rightarrow> st
     | Some acc \<Rightarrow>
         tap_del (key1 (str ''a'') (id_text E i))
           (if get_string st (key1 (str ''bltr'') owner) \<noteq> None then tap_del (key1 (str ''bltr'') owner) st else st))"

end
