(* ===== verification/Tap_Trade.thy ===== *)
theory Tap_Trade
  imports Tap_Token
begin

text \<open>
  Token trades of the TAP protocol (\<open>tap/ops/trade.rs\<close>): a seller inscribes an offer of one token against
  a choice of others, a buyer fills it, both act when they move their inscription to themselves, and a
  seller can cancel.
\<close>

section \<open>Creation\<close>

text \<open>A patch of the Bitcoin chain that the source switches off.\<close>

definition tap_token_trade_emergency_active :: "'f tap_env \<Rightarrow> bool" where
  "tap_token_trade_emergency_active E = False"

definition trade_side :: "'f tap_env \<Rightarrow> 'f tjson \<Rightarrow> int option" where
  "trade_side E v = Option.bind (tj_get v (str ''side'')) (js_parse_int E)"

text \<open>The checks of an offer and of a fill; \<open>None\<close> is a refusal.\<close>

definition trade_offer_fields :: "'f tap_env \<Rightarrow> 'f tjson \<Rightarrow> 'f tjson option" where
  "trade_offer_fields E v =
    Option.bind (Option.bind (tj_get v (str ''accept'')) tj_array) (\<lambda>accept_arr.
    if accept_arr = [] \<or> tj_get v (str ''valid'') = None
       \<or> \<not> list_all (\<lambda>it. case get_str it (str ''tick'') of None \<Rightarrow> False | Some t \<Rightarrow> validate_trade_accept_ticker_len E t) accept_arr
    then None else Some v)"

definition trade_fill_fields :: "'f tap_env \<Rightarrow> 'f tjson \<Rightarrow> 'f tjson option" where
  "trade_fill_fields E v =
    (if tj_get v (str ''trade'') = None \<or> tj_get v (str ''amt'') = None then None
     else
       case tj_get v (str ''fee_rcv'') of
         None \<Rightarrow> Some v
       | Some fr \<Rightarrow>
           Option.bind (tj_str fr) (\<lambda>s.
           let addr_norm = normalize_address E s
           in if is_valid_bitcoin_address E addr_norm then Some (tj_set (str ''fee_rcv'') (TString addr_norm) v) else None))"

definition trade_json :: "'f tap_env \<Rightarrow> int \<Rightarrow> int \<Rightarrow> 'f tjson \<Rightarrow> 'f tjson option" where
  "trade_json E number side v =
    (if side = 0 \<and> tj_get v (str ''trade'') \<noteq> None then
       (if number < 0 \<and> tap_feature_enabled E Jubilee then None else Some v)
     else
       Option.bind (get_str v (str ''tick'')) (\<lambda>tick.
       if begins_with [45] (js_to_lowercase E tick) \<and> \<not> tap_feature_enabled E Jubilee
          \<or> \<not> validate_trade_main_ticker_len E tick then None
       else
         map_option (\<lambda>v. if number < 0 \<and> \<not> tap_feature_enabled E Jubilee
                         then tj_set (str ''tick'') (TString ([45] @ tick)) v else v)
           (if side = 0 then trade_offer_fields E v else trade_fill_fields E v)))"

definition index_token_trade_created ::
  "'f tap_env \<Rightarrow> inscription_id \<Rightarrow> int \<Rightarrow> sat_point \<Rightarrow> inscription \<Rightarrow> rchar list \<Rightarrow> 'f tap_store \<Rightarrow> 'f tap_store" where
  "index_token_trade_created E i number p payload owner st =
    (if \<not> in_creation E i p then st
     else
       case payload_json E payload of
         None \<Rightarrow> st
       | Some v \<Rightarrow>
           if field_lower E v (str ''p'') \<noteq> str ''tap'' \<or> field_lower E v (str ''op'') \<noteq> str ''token-trade'' then st
           else
             (case trade_side E v of
                None \<Rightarrow> st
              | Some side \<Rightarrow>
                  if side \<noteq> 0 \<and> side \<noteq> 1 \<or> tap_token_trade_emergency_active E \<or> tap_is_dmt_reward_address E st owner then st
                  else
                    (case trade_json E number side v of
                       None \<Rightarrow> st
                     | Some v \<Rightarrow>
                         accumulate E i p owner (str ''a-t'')
                           (accumulator_of E i number p owner (str ''token-trade'') v None) st)))"

section \<open>Offers\<close>

text \<open>An amount of a token: positive, within the cap of its decimals.\<close>

definition capped_amount :: "rchar list \<Rightarrow> u32 \<Rightarrow> int option" where
  "capped_amount s dec =
    (if s = [] then None
     else
       Option.bind (Option.bind (resolve_number_string s dec) parse_i128) (\<lambda>amount.
       Option.bind (Option.bind (resolve_number_string MAX_DEC_U64_STR dec) parse_i128) (\<lambda>max_amount.
       if amount \<le> 0 \<or> max_amount < amount then None else Some amount)))"

definition amt_text :: "'f tap_env \<Rightarrow> 'f tjson \<Rightarrow> rchar list" where
  "amt_text E v = (case tj_get v (str ''amt'') of Some a \<Rightarrow> js_value_to_string E a | None \<Rightarrow> [])"

definition trade_cancel :: "'f tap_env \<Rightarrow> 'f accumulator \<Rightarrow> 'f tjson \<Rightarrow> 'f tap_store \<Rightarrow> 'f tap_store" where
  "trade_cancel E acc trade st =
    (case tj_str trade of
       None \<Rightarrow> st
     | Some trade_id \<Rightarrow>
         let lock_key = key1 (str ''tol'') (trim_js_whitespace trade_id)
         in case get_accumulator st lock_key of
              Some lock \<Rightarrow> if ac_addr lock = ac_addr acc then tap_del lock_key st else st
            | None \<Rightarrow> st)"

text \<open>One accepted token of an offer, if it is in order and its ticker not yet listed.\<close>

definition accept_amount :: "'f tap_env \<Rightarrow> 'f tap_store \<Rightarrow> 'f tjson \<Rightarrow> (rchar list \<times> int) option" where
  "accept_amount E st ac =
    Option.bind (get_str ac (str ''tick'')) (\<lambda>atick.
    if \<not> validate_trade_accept_ticker_len E atick then None
    else
      Option.bind (get_deploy st (key1 (str ''d'') (json_stringify_lower E atick))) (\<lambda>d.
      map_option (\<lambda>n. (atick, n)) (capped_amount (amt_text E ac) (dr_dec d))))"

definition offer_accept ::
  "'f tap_env \<Rightarrow> inscription_id \<Rightarrow> rchar list \<Rightarrow> rchar list \<Rightarrow> trade_offer \<Rightarrow> 'f tjson
    \<Rightarrow> rchar list list \<times> 'f tap_store \<Rightarrow> rchar list list \<times> 'f tap_store" where
  "offer_accept E i owner offer_tick_key offer ac s =
    (case s of (signatures, st) \<Rightarrow>
       (case accept_amount E st ac of
          None \<Rightarrow> (signatures, st)
        | Some (atick, aamt) \<Rightarrow>
            let sg = js_to_lowercase E atick;
                atick_key = json_stringify_lower E atick
            in if sg \<in> set signatures then (signatures, st)
               else
                 let rec = offer\<lparr>of_atick := sg, of_aamt := show_int aamt\<rparr>;
                     (list_len, st) = tap_set_list_record (key2 (str ''atrof'') owner offer_tick_key)
                                        (key2 (str ''atrofi'') owner offer_tick_key) (VTradeOffer rec) st;
                     st = tap_append (key1 (str ''fatrof'') offer_tick_key) (key1 (str ''fatrofi'') offer_tick_key) (VTradeOffer rec) st;
                     st = superflat E (str ''sfatrof'') (str ''sfatrofi'') (str ''to0'') offer_tick_key (of_tx rec) (VTradeOffer rec) st;
                     st = (if of_fail rec \<or> list_len = 0 then st
                           else
                             tap_append (key1 (str ''tor'') owner) (key1 (str ''tori'') owner) (VString (id_text E i))
                               (tap_put (key2 (str ''to'') (trim_js_whitespace (id_text E i)) atick_key)
                                  (VString (key3 (str ''atrofi'') owner offer_tick_key (show_nat (list_len - 1)))) st))
                 in (signatures @ [sg], st)))"

definition offer_validity :: "'f tap_env \<Rightarrow> 'f tjson \<Rightarrow> int" where
  "offer_validity E v =
    (case Option.bind (tj_get v (str ''valid'')) (js_parse_int E) of
       Some n \<Rightarrow> if - (2 ^ 63) \<le> n \<and> n < 2 ^ 63 then n else - 1
     | None \<Rightarrow> - 1)"

definition trade_offer_executed ::
  "'f tap_env \<Rightarrow> inscription_id \<Rightarrow> sat_point \<Rightarrow> rchar list \<Rightarrow> u64 \<Rightarrow> 'f accumulator \<Rightarrow> 'f tap_store \<Rightarrow> 'f tap_store" where
  "trade_offer_executed E i p owner value acc st =
    (case get_str (ac_json acc) (str ''tick'') of
       None \<Rightarrow> st
     | Some offer_tick \<Rightarrow>
         let offer_tick_key = json_stringify_lower E offer_tick
         in case (get_deploy st (key1 (str ''d'') offer_tick_key), Option.bind (tj_get (ac_json acc) (str ''accept'')) tj_array) of
              (Some d, Some accepts) \<Rightarrow>
                (case capped_amount (amt_text E (ac_json acc)) (dr_dec d) of
                   None \<Rightarrow> st
                 | Some offer_amount \<Rightarrow>
                     let trf = or_zero (read_i128 st (key2 (str ''t'') owner offer_tick_key));
                         bal = or_zero (read_i128 st (key2 (str ''b'') owner offer_tick_key));
                         locked = tap_get_locked_amount E st owner offer_tick_key;
                         obligation_locked = tap_get_account_obligation_locked_amount E st owner offer_tick_key;
                         vld = offer_validity E (ac_json acc);
                         expired = (vld < 0 \<or> vld < int (te_height E));
                         fail = (i128 (i128 (i128 (bal - trf) - locked) - obligation_locked) \<le> 0 \<or> expired);
                         tol_key = key1 (str ''tol'') (id_text E i);
                         st = (if \<not> fail \<and> get_accumulator st tol_key = None then tap_put tol_key (VAccumulator acc) st else st);
                         offer = \<lparr>of_addr = owner, of_blck = te_height E, of_tick = js_to_lowercase E offer_tick,
                                  of_amt = show_int offer_amount, of_atick = [], of_aamt = [],
                                  of_vld = (if expired then - 1 else vld), of_trf = show_int trf, of_bal = show_int bal,
                                  of_tx = txid_text E p, of_vo = op_vout (sp_outpoint p), of_val = show_nat value,
                                  of_ins = id_text E i, of_num = ac_num acc, of_ts = te_timestamp E, of_fail = fail\<rparr>
                     in snd (fold (offer_accept E i owner offer_tick_key offer) accepts ([], st)))
            | _ \<Rightarrow> st)"

section \<open>Fills\<close>

record trade_fill =
  fl_trade_id :: "rchar list"
  fl_offer :: trade_offer
  fl_accepted_tick :: "rchar list"
  fl_accepted_tick_key :: "rchar list"
  fl_accepted_amount :: int
  fl_fee_rcv :: "rchar list option"

text \<open>The offer that a fill refers to, and the amount the buyer names; \<open>None\<close> is a refusal.\<close>

definition trade_fill_of :: "'f tap_env \<Rightarrow> 'f accumulator \<Rightarrow> 'f tap_store \<Rightarrow> trade_fill option" where
  "trade_fill_of E acc st =
    Option.bind (get_str (ac_json acc) (str ''tick'')) (\<lambda>accepted_tick.
    Option.bind (get_str (ac_json acc) (str ''trade'')) (\<lambda>trade_id.
    let trade_id = trim_js_whitespace trade_id;
        accepted_tick_key = json_stringify_lower E accepted_tick
    in Option.bind (get_deploy st (key1 (str ''d'') accepted_tick_key)) (\<lambda>d.
       Option.bind (get_string st (key2 (str ''to'') trade_id accepted_tick_key)) (\<lambda>ptr.
       Option.bind (get_accumulator st (key1 (str ''tol'') trade_id)) (\<lambda>_.
       Option.bind (get_offer st ptr) (\<lambda>offer.
       if tap_is_dmt_reward_address E st (of_addr offer) \<or> of_addr offer = ac_addr acc
          \<or> js_to_lowercase E (of_atick offer) \<noteq> js_to_lowercase E accepted_tick
          \<or> tj_get (ac_json acc) (str ''amt'') = None then None
       else
         Option.bind (Option.bind (resolve_number_string (amt_text E (ac_json acc)) (dr_dec d)) parse_i128) (\<lambda>amount.
         Option.bind (Option.bind (resolve_number_string MAX_DEC_U64_STR (dr_dec d)) parse_i128) (\<lambda>max_amount.
         if amount \<le> 0 \<or> max_amount < amount then None
         else Some \<lparr>fl_trade_id = trade_id, fl_offer = offer, fl_accepted_tick = accepted_tick,
                    fl_accepted_tick_key = accepted_tick_key, fl_accepted_amount = amount,
                    fl_fee_rcv = get_str (ac_json acc) (str ''fee_rcv'')\<rparr>))))))))"

definition trade_fee :: "int \<Rightarrow> int" where
  "trade_fee amount = amount div 10000 * 30 + amount mod 10000 * 30 div 10000"

text \<open>The balances of a trade: seller to buyer, buyer to seller, and the fee.\<close>

definition trade_balances ::
  "'f tap_env \<Rightarrow> trade_fill \<Rightarrow> rchar list \<Rightarrow> int \<Rightarrow> int \<Rightarrow> int \<Rightarrow> int \<Rightarrow> int \<Rightarrow> int \<Rightarrow> int \<Rightarrow> 'f tap_store \<Rightarrow> 'f tap_store" where
  "trade_balances E q buyer offer_amt fee seller_bal_off buyer_bal_off buyer_bal_acc seller_bal_acc fee_bal_acc st =
    (let seller = of_addr (fl_offer q);
         offer_tick_key = json_stringify_lower E (of_tick (fl_offer q));
         accepted_tick_key = fl_accepted_tick_key q;
         amount = fl_accepted_amount q;
         st = tap_put (key2 (str ''b'') buyer offer_tick_key) (VString (show_int (i128 (buyer_bal_off + offer_amt)))) st;
         st = tap_put (key2 (str ''b'') seller offer_tick_key) (VString (show_int (i128 (seller_bal_off - offer_amt)))) st;
         st = add_owned buyer offer_tick_key (tick_label E offer_tick_key (of_tick (fl_offer q)))
                (add_holder buyer offer_tick_key st);
         st = tap_put (key2 (str ''b'') seller accepted_tick_key) (VString (show_int (i128 (seller_bal_acc + amount)))) st;
         st = tap_put (key2 (str ''b'') buyer accepted_tick_key) (VString (show_int (i128 (i128 (buyer_bal_acc - amount) - fee)))) st;
         st = add_owned seller accepted_tick_key (tick_label E accepted_tick_key (fl_accepted_tick q))
                (add_holder seller accepted_tick_key st)
     in case fl_fee_rcv q of
          None \<Rightarrow> st
        | Some rcv \<Rightarrow>
            add_owned rcv accepted_tick_key (tick_label E accepted_tick_key (fl_accepted_tick q))
              (add_holder rcv accepted_tick_key
                (tap_put (key2 (str ''b'') rcv accepted_tick_key) (VString (show_int (i128 (fee_bal_acc + fee)))) st)))"

text \<open>The rows of one leg of a trade.\<close>

definition trade_leg ::
  "'f tap_env \<Rightarrow> inscription_id \<Rightarrow> sat_point \<Rightarrow> u64 \<Rightarrow> int \<Rightarrow> bool \<Rightarrow> rchar list \<Rightarrow> rchar list \<Rightarrow> rchar list \<Rightarrow> rchar list
    \<Rightarrow> rchar list \<Rightarrow> int \<Rightarrow> int \<Rightarrow> int \<Rightarrow> 'f tap_store \<Rightarrow> 'f tap_store" where
  "trade_leg E i p value num fail sender receiver tick_key label amt trf bal tbal st =
    (let r = \<lparr>sf_addr = sender, sf_taddr = receiver, sf_blck = te_height E, sf_amt = amt, sf_trf = show_int trf,
              sf_bal = show_int bal, sf_tbal = show_int tbal, sf_tx = txid_text E p, sf_vo = op_vout (sp_outpoint p),
              sf_val = show_nat value, sf_ins = id_text E i, sf_num = num, sf_ts = te_timestamp E, sf_fail = fail,
              sf_int = True, sf_dta = None\<rparr>
     in send_superflat E tick_key label r (send_rows receiver tick_key r st))"

text \<open>The rows of a filled offer, for the buyer, the seller, the ticker and all.\<close>

definition trade_records ::
  "'f tap_env \<Rightarrow> inscription_id \<Rightarrow> sat_point \<Rightarrow> u64 \<Rightarrow> int \<Rightarrow> bool \<Rightarrow> trade_fill \<Rightarrow> rchar list \<Rightarrow> int \<Rightarrow> 'f tap_store \<Rightarrow> 'f tap_store" where
  "trade_records E i p value num fail q buyer fee st =
    (let offer = fl_offer q;
         seller = of_addr offer;
         txs = txid_text E p;
         offer_tick_key = json_stringify_lower E (of_tick offer);
         srec = \<lparr>bs_addr = buyer, bs_saddr = seller, bs_blck = te_height E, bs_tick = of_atick offer,
                 bs_amt = show_int (fl_accepted_amount q), bs_stick = of_tick offer, bs_samt = of_amt offer,
                 bs_fee = show_int fee, bs_fee_rcv = fl_fee_rcv q, bs_tx = txs, bs_vo = op_vout (sp_outpoint p),
                 bs_val = show_nat value, bs_ins = id_text E i, bs_num = num, bs_sins = of_ins offer,
                 bs_snum = of_num offer, bs_ts = te_timestamp E, bs_fail = fail\<rparr>;
         (list_len, st) = tap_set_list_record (key2 (str ''btrof'') buyer offer_tick_key)
                            (key2 (str ''btrofi'') buyer offer_tick_key) (VBuySeller srec) st;
         st = point_to E (str ''to1'') offer_tick_key txs (key3 (str ''btrofi'') buyer offer_tick_key (show_nat (list_len - 1))) st;
         brec = \<lparr>bb_baddr = buyer, bb_addr = seller, bb_blck = te_height E, bb_btick = of_atick offer,
                 bb_bamt = show_int (fl_accepted_amount q), bb_tick = of_tick offer, bb_amt = of_amt offer,
                 bb_fee = show_int fee, bb_fee_rcv = fl_fee_rcv q, bb_tx = txs, bb_vo = op_vout (sp_outpoint p),
                 bb_val = show_nat value, bb_bins = id_text E i, bb_bnum = num, bb_ins = of_ins offer,
                 bb_num = of_num offer, bb_ts = te_timestamp E, bb_fail = fail\<rparr>;
         st = tap_append (key2 (str ''rbtrof'') seller (fl_accepted_tick_key q)) (key2 (str ''rbtrofi'') seller (fl_accepted_tick_key q))
                (VBuyBuyer brec) st;
         st = tap_append (key1 (str ''fbtrof'') offer_tick_key) (key1 (str ''fbtrofi'') offer_tick_key) (VBuySeller srec) st
     in tap_append (str ''sfbtrof'') (str ''sfbtrofi'') (VBuySeller srec) st)"

text \<open>The fee, and whether seller or buyer cannot pay or the offer has expired.\<close>

definition fill_fee :: "trade_fill \<Rightarrow> int" where
  "fill_fee q = (if fl_fee_rcv q \<noteq> None then trade_fee (fl_accepted_amount q) else 0)"

definition trade_fails :: "'f tap_env \<Rightarrow> trade_fill \<Rightarrow> rchar list \<Rightarrow> 'f tap_store \<Rightarrow> bool" where
  "trade_fails E q buyer st \<longleftrightarrow>
    (let offer = fl_offer q;
         seller = of_addr offer;
         offer_amt = or_zero (parse_i128 (of_amt offer));
         off_key = json_stringify_lower E (of_tick offer);
         acc_key = fl_accepted_tick_key q;
         seller_bal_off = or_zero (read_i128 st (key2 (str ''b'') seller off_key));
         seller_trf_off = or_zero (read_i128 st (key2 (str ''t'') seller off_key));
         buyer_bal_acc = or_zero (read_i128 st (key2 (str ''b'') buyer acc_key));
         buyer_trf_acc = or_zero (read_i128 st (key2 (str ''t'') buyer acc_key))
     in i128 (i128 (i128 (i128 (seller_bal_off - offer_amt) - seller_trf_off)
          - tap_get_locked_amount E st seller off_key)
          - tap_get_account_obligation_locked_amount E st seller off_key) < 0
        \<or> i128 (i128 (i128 (i128 (i128 (buyer_bal_acc - fl_accepted_amount q) - fill_fee q) - buyer_trf_acc)
          - tap_get_locked_amount E st buyer acc_key)
          - tap_get_account_obligation_locked_amount E st buyer acc_key) < 0
        \<or> 0 \<le> of_vld offer \<and> of_vld offer < int (te_height E))"

definition trade_fill_executed ::
  "'f tap_env \<Rightarrow> inscription_id \<Rightarrow> sat_point \<Rightarrow> u64 \<Rightarrow> 'f accumulator \<Rightarrow> trade_fill \<Rightarrow> 'f tap_store \<Rightarrow> 'f tap_store" where
  "trade_fill_executed E i p value acc q st =
    (let offer = fl_offer q;
         seller = of_addr offer;
         buyer = ac_addr acc;
         amount = fl_accepted_amount q;
         offer_amt = or_zero (parse_i128 (of_amt offer));
         off_key = json_stringify_lower E (of_tick offer);
         acc_key = fl_accepted_tick_key q;
         seller_bal_off = or_zero (read_i128 st (key2 (str ''b'') seller off_key));
         buyer_bal_off = or_zero (read_i128 st (key2 (str ''b'') buyer off_key));
         seller_trf_off = or_zero (read_i128 st (key2 (str ''t'') seller off_key));
         buyer_bal_acc = or_zero (read_i128 st (key2 (str ''b'') buyer acc_key));
         seller_bal_acc = or_zero (read_i128 st (key2 (str ''b'') seller acc_key));
         buyer_trf_acc = or_zero (read_i128 st (key2 (str ''t'') buyer acc_key));
         rcv = (case fl_fee_rcv q of Some r \<Rightarrow> r | None \<Rightarrow> []);
         fee_bal_acc = or_zero (read_i128 st (key2 (str ''b'') rcv acc_key));
         fee = fill_fee q;
         fail = trade_fails E q buyer st;
         st = (if fail then st
               else trade_balances E q buyer offer_amt fee seller_bal_off buyer_bal_off buyer_bal_acc seller_bal_acc fee_bal_acc st);
         fee_bal_acc = (if \<not> fail \<and> fl_fee_rcv q \<noteq> None then i128 (fee_bal_acc + fee) else fee_bal_acc);
         acc_label = tick_label E acc_key (js_to_lowercase E (fl_accepted_tick q));
         st = trade_leg E i p value (ac_num acc) fail seller buyer off_key (tick_label E off_key (js_to_lowercase E (of_tick offer)))
                (of_amt offer) seller_trf_off
                (if fail then seller_bal_off else i128 (seller_bal_off - offer_amt))
                (if fail then buyer_bal_off else i128 (buyer_bal_off + offer_amt)) st;
         st = trade_leg E i p value (ac_num acc) fail buyer seller acc_key acc_label (show_int amount) buyer_trf_acc
                (if fail then buyer_bal_acc else i128 (buyer_bal_acc - amount))
                (if fail then seller_bal_acc else i128 (seller_bal_acc + amount)) st;
         st = (if 0 < fee then
                 trade_leg E i p value (ac_num acc) fail buyer rcv acc_key acc_label (show_int fee) buyer_trf_acc
                   (if fail then buyer_bal_acc else i128 (i128 (buyer_bal_acc - amount) - fee)) fee_bal_acc st
               else st);
         st = trade_records E i p value (ac_num acc) fail q buyer fee st
     in tap_del (key1 (str ''tol'') (fl_trade_id q)) st)"

definition index_token_trade_executed ::
  "'f tap_env \<Rightarrow> inscription_id \<Rightarrow> sat_point \<Rightarrow> rchar list \<Rightarrow> u64 \<Rightarrow> 'f tap_store \<Rightarrow> 'f tap_store" where
  "index_token_trade_executed E i p owner value st =
    (case accumulator_for E i p owner (str ''token-trade'') st of
       None \<Rightarrow> st
     | Some acc \<Rightarrow>
         tap_del (key1 (str ''a'') (id_text E i))
           (if tap_token_trade_emergency_active E \<or> tap_is_dmt_reward_address E st owner then st
            else if trade_side E (ac_json acc) = Some 0 then
              (case tj_get (ac_json acc) (str ''trade'') of
                 Some trade \<Rightarrow> trade_cancel E acc trade st
               | None \<Rightarrow> trade_offer_executed E i p owner value acc st)
            else if trade_side E (ac_json acc) = Some 1 then
              (case trade_fill_of E acc st of
                 None \<Rightarrow> st
               | Some q \<Rightarrow> trade_fill_executed E i p value acc q st)
            else st))"

end
