(* ===== verification/Tap_Ledger.thy ===== *)
theory Tap_Ledger
  imports Tap_Trade
begin

text \<open>
  What the TAP handlers do to the rows that carry money: the balances \<open>b\<close>, the transferables \<open>t\<close>, what is
  left to mint \<open>dc\<close> and the deployments \<open>d\<close>. The first segment of a key tells these rows from the logs,
  lists and links, so the logging of a handler leaves them alone; each handler then changes them by an
  equation of its own.
\<close>

named_theorems frame \<open>rows that an operation leaves alone\<close>

section \<open>Segments of keys\<close>

definition key_seg :: "rchar list \<Rightarrow> rchar list" where
  "key_seg k = takeWhile (\<lambda>c. c \<noteq> 47) k"

definition token_segs :: "rchar list set" where
  "token_segs = {str ''b'', str ''t'', str ''dc'', str ''d'', str ''ll'', str ''oll''}"

abbreviation token_row :: "rchar list \<Rightarrow> bool" where
  "token_row k \<equiv> key_seg k \<in> token_segs"

lemma key_seg_append [simp]: "key_seg (p @ 47 # r) = key_seg p"
  by (induction p) (auto simp: key_seg_def)

lemma key_seg_keys [simp]:
  "key_seg (key1 p a) = key_seg p" "key_seg (key2 p a b) = key_seg p" "key_seg (key3 p a b c) = key_seg p"
  by (simp_all add: key1_def key2_def key3_def)

lemma key_seg_plain: "47 \<notin> set p \<Longrightarrow> key_seg p = p"
  by (auto simp: key_seg_def takeWhile_eq_all_conv)

lemma seg_literals [simp]:
  "key_seg (str ''b'') = str ''b''" "key_seg (str ''t'') = str ''t''" "key_seg (str ''dc'') = str ''dc''"
  "key_seg (str ''d'') = str ''d''" "key_seg (str ''ll'') = str ''ll''" "key_seg (str ''oll'') = str ''oll''"
  by (simp_all add: key_seg_plain str_def)

lemma token_literals [simp]:
  "str ''b'' \<in> token_segs" "str ''t'' \<in> token_segs" "str ''dc'' \<in> token_segs" "str ''d'' \<in> token_segs"
  "str ''ll'' \<in> token_segs" "str ''oll'' \<in> token_segs"
  by (simp_all add: token_segs_def)

text \<open>The segments of the logs, lists and links.\<close>

definition log_segs :: "string list" where
  "log_segs = [''he'', ''h'', ''hi'', ''ato'', ''atl'', ''atli'', ''tx'', ''txi'', ''txt'', ''txti'', ''blck'', ''blcki'',
    ''blckt'', ''blckti'', ''dl'', ''dli'', ''aml'', ''amli'', ''fml'', ''fmli'', ''sfml'', ''sfmli'', ''prah'', ''tamt'',
    ''atrl'', ''atrli'', ''tl'', ''kind'', ''ftrl'', ''ftrli'', ''sftrl'', ''sftrli'', ''strl'', ''strli'', ''rstrl'',
    ''rstrli'', ''fstrl'', ''fstrli'', ''sfstrl'', ''sfstrli'', ''a'', ''al'', ''ali'', ''bltr'', ''tol'', ''to'', ''tor'',
    ''tori'', ''atrof'', ''atrofi'', ''fatrof'', ''fatrofi'', ''sfatrof'', ''sfatrofi'', ''btrof'', ''btrofi'', ''rbtrof'',
    ''rbtrofi'', ''fbtrof'', ''fbtrofi'', ''sfbtrof'', ''sfbtrofi'']"

lemma log_seg_literal: "s \<in> set log_segs \<Longrightarrow> key_seg (str s) = str s \<and> str s \<notin> token_segs"
  by (auto simp: log_segs_def key_seg_plain str_def token_segs_def)

lemma log_key [simp]: "s \<in> set log_segs \<Longrightarrow> key_seg (str s) \<notin> token_segs"
  using log_seg_literal by auto

lemma put_log_frame [frame]: "token_row k \<Longrightarrow> key_seg k' \<notin> token_segs \<Longrightarrow> tap_get (tap_put k' v st) k = tap_get st k"
  by (metis kv.get_put_other)

lemma del_log_frame [frame]: "token_row k \<Longrightarrow> key_seg k' \<notin> token_segs \<Longrightarrow> tap_get (tap_del k' st) k = tap_get st k"
  by (metis kv.get_del_other)

lemma set_list_frame [frame]:
  assumes "token_row k" "key_seg lk \<notin> token_segs" "key_seg ik \<notin> token_segs"
  shows "tap_get (snd (tap_set_list_record lk ik v st)) k = tap_get st k"
  using assms by (auto simp: tap_set_list_record_eq Let_def kv.get_put)

lemma append_frame [frame]:
  "token_row k \<Longrightarrow> key_seg lk \<notin> token_segs \<Longrightarrow> key_seg ik \<notin> token_segs \<Longrightarrow> tap_get (tap_append lk ik v st) k = tap_get st k"
  by (simp add: tap_append_def frame)

lemma point_to_frame [frame]: "token_row k \<Longrightarrow> tap_get (point_to E kind tick_key txs ptr st) k = tap_get st k"
  by (simp add: point_to_def Let_def frame log_segs_def)

lemma superflat_frame [frame]:
  "token_row k \<Longrightarrow> key_seg lk \<notin> token_segs \<Longrightarrow> key_seg ik \<notin> token_segs \<Longrightarrow>
    tap_get (superflat E lk ik kind tick_key txs v st) k = tap_get st k"
  by (simp add: superflat_def case_prod_beta frame)

lemma add_holder_frame [frame]: "token_row k \<Longrightarrow> tap_get (add_holder a tk st) k = tap_get st k"
  by (simp add: add_holder_def frame log_segs_def)

lemma add_owned_frame [frame]: "token_row k \<Longrightarrow> tap_get (add_owned a tk l st) k = tap_get st k"
  by (simp add: add_owned_def frame log_segs_def)

lemma send_rows_frame [frame]: "token_row k \<Longrightarrow> tap_get (send_rows a tk r st) k = tap_get st k"
  by (simp add: send_rows_def Let_def frame log_segs_def)

lemma send_superflat_frame [frame]: "token_row k \<Longrightarrow> tap_get (send_superflat E tk l r st) k = tap_get st k"
  by (simp add: send_superflat_def frame log_segs_def)

lemma accumulate_frame [frame]: "token_row k \<Longrightarrow> tap_get (accumulate E i p owner kind acc st) k = tap_get st k"
  by (simp add: accumulate_def Let_def case_prod_beta frame log_segs_def)

section \<open>Amounts as text\<close>

definition money_max :: nat where "money_max = 2 ^ 124"

lemma i128_id: "- (2 ^ 127) \<le> x \<Longrightarrow> x < 2 ^ 127 \<Longrightarrow> i128 x = x"
  by (simp add: i128_def)

lemma show_int_of_nat [simp]: "show_int (int n) = show_nat n"
  by (simp add: show_int_def)

lemma hd_show_nat: "show_nat n = c # rest \<Longrightarrow> c \<noteq> 45 \<and> c \<noteq> 43"
  using show_nat_digits [of c n] by auto

lemma parse_i128_show:
  "parse_i128 (show_nat n) = map_option int (parse_uint (nat i128_max) (show_nat n))"
  by (cases "show_nat n") (auto simp: parse_i128_def parse_sint_def dest: hd_show_nat)

lemma parse_i128_show_small [simp]: "n < 2 ^ 127 \<Longrightarrow> parse_i128 (show_nat n) = Some (int n)"
proof -
  assume "n < 2 ^ 127"
  then have "n \<le> nat i128_max" by (simp add: i128_max_def)
  then show ?thesis by (simp add: parse_i128_show)
qed

lemma parse_digits_bound: "parse_digits mx acc s = Some n \<Longrightarrow> acc \<le> mx \<Longrightarrow> n \<le> mx"
  by (induction s arbitrary: acc) (auto simp: checked_defs split: if_splits)

lemma parse_uint_bound: "parse_uint mx s = Some n \<Longrightarrow> n \<le> mx"
  by (auto simp: parse_uint_def Let_def dest: parse_digits_bound split: if_splits)

lemma read_amount_range:
  "0 \<le> or_zero (parse_i128 (show_nat n)) \<and> or_zero (parse_i128 (show_nat n)) < 2 ^ 127"
  using parse_uint_bound [of "nat i128_max" "show_nat n"]
  by (cases "parse_uint (nat i128_max) (show_nat n)") (auto simp: parse_i128_show or_zero_def i128_max_def)

lemma or_zero_simps [simp]: "or_zero (Some a) = a" "or_zero None = 0"
  by (simp_all add: or_zero_def)

lemma money_max_bounds: "n \<le> money_max \<Longrightarrow> n \<le> u128_max \<and> n < 2 ^ 127"
  by (simp add: money_max_def width_defs)

section \<open>Money in rows\<close>

text \<open>The rows of the ledger alone.\<close>

definition tok :: "'f tap_store \<Rightarrow> 'f rows" where
  "tok st = (\<lambda>k. if token_row k then tap_get st k else None)"

definition num_row :: "'f rows \<Rightarrow> rchar list \<Rightarrow> bool" where
  "num_row m k \<longleftrightarrow> m k = None \<or> (\<exists>n \<le> money_max. m k = Some (VString (show_nat n)))"

definition mon :: "'f rows \<Rightarrow> rchar list \<Rightarrow> nat" where
  "mon m k = (case m k of Some (VString s) \<Rightarrow> or_zero (parse_uint u128_max s) | _ \<Rightarrow> 0)"

abbreviation bal_key :: "rchar list \<Rightarrow> rchar list \<Rightarrow> rchar list" where
  "bal_key a tk \<equiv> key2 (str ''b'') a tk"

abbreviation trf_key :: "rchar list \<Rightarrow> rchar list \<Rightarrow> rchar list" where
  "trf_key a tk \<equiv> key2 (str ''t'') a tk"

abbreviation left_key :: "rchar list \<Rightarrow> rchar list" where
  "left_key tk \<equiv> key1 (str ''dc'') tk"

abbreviation deploy_key :: "rchar list \<Rightarrow> rchar list" where
  "deploy_key tk \<equiv> key1 (str ''d'') tk"

abbreviation slash_free :: "rchar list \<Rightarrow> bool" where
  "slash_free a \<equiv> 47 \<notin> set a"

definition bals :: "'f rows \<Rightarrow> rchar list \<Rightarrow> rchar list \<Rightarrow> nat" where
  "bals m tk = (\<lambda>a. if slash_free a then mon m (bal_key a tk) else 0)"

text \<open>The sum of a quantity over all accounts that have any.\<close>

definition sum_all :: "('a \<Rightarrow> nat) \<Rightarrow> nat" where
  "sum_all f = (\<Sum>a\<in>{a. f a \<noteq> 0}. f a)"

definition few :: "('a \<Rightarrow> nat) \<Rightarrow> bool" where
  "few f \<longleftrightarrow> finite {a. f a \<noteq> 0}"

lemma sum_all_sum: "finite S \<Longrightarrow> {a. f a \<noteq> 0} \<subseteq> S \<Longrightarrow> sum_all f = sum f S"
  by (auto simp: sum_all_def intro: sum.mono_neutral_left)

lemma few_upd [simp]: "few f \<Longrightarrow> few (f(x := v))"
  unfolding few_def by (rule finite_subset [of _ "insert x {a. f a \<noteq> 0}"]) auto

lemma sum_all_upd:
  assumes "few f"
  shows "sum_all (f(x := v)) + f x = sum_all f + v"
proof -
  let ?S = "insert x {a. f a \<noteq> 0}"
  have S: "finite ?S" "x \<in> ?S" using assms by (simp_all add: few_def)
  have "sum_all (f(x := v)) = sum (f(x := v)) ?S" using S by (intro sum_all_sum) auto
  also have "\<dots> = v + sum (f(x := v)) (?S - {x})" using sum.remove [OF S, of "f(x := v)"] by simp
  also have "sum (f(x := v)) (?S - {x}) = sum f (?S - {x})" by (intro sum.cong) auto
  finally have "sum_all (f(x := v)) = v + sum f (?S - {x})" .
  moreover have "sum_all f = sum f ?S" using S by (intro sum_all_sum) auto
  ultimately show ?thesis using sum.remove [OF S, of f] by simp
qed

lemma sum_all_pair:
  assumes "few f" "x \<noteq> y"
  shows "f x + f y \<le> sum_all f"
proof -
  let ?g = "f(x := 0)"
  have "sum_all ?g + f x = sum_all f + 0" using sum_all_upd [OF assms(1)] .
  moreover have "few ?g" using assms(1) by simp
  from sum_all_upd [where f = ?g and x = y and v = 0, OF this] have "?g y \<le> sum_all ?g" by linarith
  ultimately show ?thesis using assms(2) by simp
qed

lemma sum_all_one: "few f \<Longrightarrow> f x \<le> sum_all f"
  using sum_all_upd [of f x 0] by linarith

lemma sum_all_move:
  assumes "few f" "x \<noteq> y" "n \<le> f x"
  shows "sum_all (f(x := f x - n, y := f y + n)) = sum_all f"
proof -
  define g where "g = f(x := f x - n)"
  have "few g" unfolding g_def using assms(1) by simp
  from sum_all_upd [OF this, of y "f y + n"] have "sum_all (g(y := f y + n)) + g y = sum_all g + (f y + n)" .
  moreover have "g y = f y" using assms(2) by (simp add: g_def)
  moreover have "sum_all g + f x = sum_all f + (f x - n)" unfolding g_def using sum_all_upd [OF assms(1)] .
  ultimately show ?thesis using assms(3) by (simp add: g_def)
qed

lemma key_inj [simp]:
  "key1 p a = key1 p b \<longleftrightarrow> a = b"
  by (simp add: key1_def)

lemma bal_key_inj: "slash_free a \<Longrightarrow> slash_free b \<Longrightarrow> key2 p a tk = key2 p b tk' \<longleftrightarrow> a = b \<and> tk = tk'"
proof -
  have "a @ 47 # tk = b @ 47 # tk' \<Longrightarrow> slash_free a \<Longrightarrow> slash_free b \<Longrightarrow> a = b \<and> tk = tk'"
    by (metis option.inject prod.inject split_once_first)
  then show "slash_free a \<Longrightarrow> slash_free b \<Longrightarrow> key2 p a tk = key2 p b tk' \<longleftrightarrow> a = b \<and> tk = tk'"
    by (auto simp: key2_def)
qed

lemma seg_diff: "key_seg k \<noteq> key_seg k' \<Longrightarrow> k \<noteq> k'"
  by auto

lemma seg_literal_diff [simp]:
  "str ''b'' \<noteq> str ''t''" "str ''b'' \<noteq> str ''dc''" "str ''b'' \<noteq> str ''d''" "str ''t'' \<noteq> str ''b''" "str ''t'' \<noteq> str ''dc''"
  "str ''t'' \<noteq> str ''d''" "str ''dc'' \<noteq> str ''b''" "str ''dc'' \<noteq> str ''t''" "str ''dc'' \<noteq> str ''d''" "str ''d'' \<noteq> str ''b''"
  "str ''d'' \<noteq> str ''t''" "str ''d'' \<noteq> str ''dc''"
  by (simp_all add: str_def)

lemma key_diff [simp]:
  "bal_key a tk \<noteq> trf_key b tk'" "bal_key a tk \<noteq> left_key tk'" "bal_key a tk \<noteq> deploy_key tk'"
  "trf_key a tk \<noteq> bal_key b tk'" "trf_key a tk \<noteq> left_key tk'" "trf_key a tk \<noteq> deploy_key tk'"
  "left_key tk \<noteq> bal_key a tk'" "left_key tk \<noteq> trf_key a tk'" "left_key tk \<noteq> deploy_key tk'"
  "deploy_key tk \<noteq> bal_key a tk'" "deploy_key tk \<noteq> trf_key a tk'" "deploy_key tk \<noteq> left_key tk'"
  by (rule seg_diff; simp)+

lemma mon_same [simp]: "n \<le> u128_max \<Longrightarrow> mon (m(k \<mapsto> VString (show_nat n))) k = n"
  by (simp add: mon_def)

lemma mon_other [simp]: "k \<noteq> k' \<Longrightarrow> mon (m(k' := v)) k = mon m k"
  by (simp add: mon_def)

lemma mon_none: "m k = None \<Longrightarrow> mon m k = 0"
  by (simp add: mon_def)

lemma num_row_mon: "num_row m k \<Longrightarrow> mon m k \<le> money_max \<and> (m k = None \<or> m k = Some (VString (show_nat (mon m k))))"
  using money_max_bounds by (auto simp: num_row_def mon_def)

lemma bals_bal: "slash_free a \<Longrightarrow> n \<le> u128_max \<Longrightarrow>
  bals (m(bal_key a tk \<mapsto> VString (show_nat n))) tk' = (if tk' = tk then (bals m tk)(a := n) else bals m tk')"
  by (auto simp: bals_def fun_eq_iff bal_key_inj mon_def)

lemma bals_other: "key_seg k \<noteq> str ''b'' \<Longrightarrow> bals (m(k := v)) tk = bals m tk"
proof -
  assume "key_seg k \<noteq> str ''b''"
  then have "bal_key a tk \<noteq> k" for a using seg_diff [of "bal_key a tk" k] by simp
  then show ?thesis by (simp add: bals_def fun_eq_iff)
qed

section \<open>The ledger\<close>

text \<open>
  The money of a ticker adds up: what is left to mint and what the accounts hold is the supply of its
  deployment, and a ticker that is not deployed has no money.
\<close>

definition deployed :: "'f rows \<Rightarrow> rchar list \<Rightarrow> tap_deploy option" where
  "deployed m tk = (case m (deploy_key tk) of Some (VDeploy r) \<Rightarrow> Some r | _ \<Rightarrow> None)"

definition tick_ok :: "'f rows \<Rightarrow> rchar list \<Rightarrow> bool" where
  "tick_ok m tk \<longleftrightarrow>
    few (bals m tk) \<and>
    (case deployed m tk of
       Some r \<Rightarrow>
         \<exists>n \<le> money_max. dr_max r = show_nat n \<and> m (left_key tk) \<noteq> None \<and> mon m (left_key tk) + sum_all (bals m tk) = n
     | None \<Rightarrow> sum_all (bals m tk) = 0)"

definition ledger :: "'f rows \<Rightarrow> bool" where
  "ledger m \<longleftrightarrow>
    (\<forall>k. key_seg k \<in> token_segs \<longrightarrow> key_seg k \<noteq> str ''d'' \<longrightarrow> num_row m k) \<and>
    (\<forall>a tk. slash_free a \<longrightarrow> mon m (trf_key a tk) \<le> mon m (bal_key a tk)) \<and>
    (\<forall>tk. tick_ok m tk)"

lemma ledger_num: "ledger m \<Longrightarrow> key_seg k \<in> token_segs - {str ''d''} \<Longrightarrow> num_row m k"
  by (auto simp: ledger_def)

lemma ledger_bal_rows [simp]:
  "ledger m \<Longrightarrow> num_row m (bal_key a tk)" "ledger m \<Longrightarrow> num_row m (trf_key a tk)" "ledger m \<Longrightarrow> num_row m (left_key tk)"
  by (rule ledger_num; simp)+

lemma tick_sum_bound: "tick_ok m tk \<Longrightarrow> sum_all (bals m tk) \<le> money_max"
  by (auto simp: tick_ok_def split: option.splits)

lemma num_row_upd: "n \<le> money_max \<Longrightarrow> num_row m k \<Longrightarrow> num_row (m(k' \<mapsto> VString (show_nat n))) k"
  by (auto simp: num_row_def)

text \<open>Changing a balance, a transferable or what is left keeps the other rows of the ledger in order.\<close>

lemma tick_ok_change:
  assumes "tick_ok m tk" "few (bals m' tk)" "m' (deploy_key tk) = m (deploy_key tk)"
    and "m (left_key tk) \<noteq> None \<Longrightarrow> m' (left_key tk) \<noteq> None"
    and "mon m' (left_key tk) + sum_all (bals m' tk) = mon m (left_key tk) + sum_all (bals m tk)"
    and "deployed m tk = None \<Longrightarrow> sum_all (bals m' tk) = sum_all (bals m tk)"
  shows "tick_ok m' tk"
proof -
  have "deployed m' tk = deployed m tk" using assms(3) by (simp add: deployed_def)
  with assms show ?thesis by (cases "deployed m tk") (auto simp: tick_ok_def)
qed

lemma tick_ok_cong:
  assumes "tick_ok m tk" "bals m' tk = bals m tk" "m' (deploy_key tk) = m (deploy_key tk)" "m' (left_key tk) = m (left_key tk)"
  shows "tick_ok m' tk"
  using assms(2-4) by (intro tick_ok_change [OF assms(1)]) (use assms(1) in \<open>simp_all add: tick_ok_def mon_def\<close>)

lemma ledger_set_trf:
  assumes m: "ledger m" and a: "slash_free a" and n: "n \<le> mon m (bal_key a tk)"
  shows "ledger (m(trf_key a tk \<mapsto> VString (show_nat n)))"
  unfolding ledger_def
proof (intro conjI allI impI)
  let ?m = "m(trf_key a tk \<mapsto> VString (show_nat n))"
  have b: "n \<le> money_max" using n num_row_mon [of m "bal_key a tk"] m by force
  fix k assume "token_row k" "key_seg k \<noteq> str ''d''"
  then have "num_row m k" using m by (simp add: ledger_def)
  then show "num_row ?m k" by (rule num_row_upd [OF b])
next
  let ?m = "m(trf_key a tk \<mapsto> VString (show_nat n))"
  have b: "n \<le> u128_max" using n num_row_mon [of m "bal_key a tk"] m money_max_bounds by (force intro: order_trans)
  fix x tk' assume x: "slash_free x"
  show "mon ?m (trf_key x tk') \<le> mon ?m (bal_key x tk')"
  proof (cases "x = a \<and> tk' = tk")
    case True
    with n b show ?thesis by simp
  next
    case False
    with a x have "trf_key x tk' \<noteq> trf_key a tk" by (simp add: bal_key_inj)
    with m x show ?thesis by (simp add: ledger_def)
  qed
next
  fix tk'
  have "tick_ok m tk'" using m by (simp add: ledger_def)
  then show "tick_ok (m(trf_key a tk \<mapsto> VString (show_nat n))) tk'" by (rule tick_ok_cong) (simp_all add: bals_other)
qed

lemma ledger_del_trf:
  assumes m: "ledger m" and a: "slash_free a"
  shows "ledger (m(trf_key a tk := None))"
  unfolding ledger_def
proof (intro conjI allI impI)
  fix k assume "token_row k" "key_seg k \<noteq> str ''d''"
  then show "num_row (m(trf_key a tk := None)) k" using m by (auto simp: ledger_def num_row_def)
next
  fix x tk' assume x: "slash_free x"
  show "mon (m(trf_key a tk := None)) (trf_key x tk') \<le> mon (m(trf_key a tk := None)) (bal_key x tk')"
  proof (cases "trf_key x tk' = trf_key a tk")
    case True
    then show ?thesis by (simp add: mon_none)
  next
    case False
    with m x show ?thesis by (simp add: ledger_def)
  qed
next
  fix tk'
  have "tick_ok m tk'" using m by (simp add: ledger_def)
  then show "tick_ok (m(trf_key a tk := None)) tk'" by (rule tick_ok_cong) (simp_all add: bals_other)
qed

text \<open>Moving units from one account to another.\<close>

definition move :: "rchar list \<Rightarrow> rchar list \<Rightarrow> rchar list \<Rightarrow> nat \<Rightarrow> 'f rows \<Rightarrow> 'f rows" where
  "move x y tk n m =
    m(bal_key x tk \<mapsto> VString (show_nat (mon m (bal_key x tk) - n)),
      bal_key y tk \<mapsto> VString (show_nat (mon m (bal_key y tk) + n)))"

lemma move_bound:
  assumes "ledger m" "slash_free x" "slash_free y" "x \<noteq> y" "n \<le> mon m (bal_key x tk)"
  shows "mon m (bal_key y tk) + n \<le> money_max"
proof -
  have t: "tick_ok m tk" using assms(1) by (simp add: ledger_def)
  then have "bals m tk x + bals m tk y \<le> sum_all (bals m tk)"
    by (intro sum_all_pair) (auto simp: tick_ok_def assms(4))
  with tick_sum_bound [OF t] assms show ?thesis by (simp add: bals_def)
qed

lemma ledger_move:
  assumes m: "ledger m" and xy: "slash_free x" "slash_free y" "x \<noteq> y"
    and n: "n + mon m (trf_key x tk) \<le> mon m (bal_key x tk)"
  shows "ledger (move x y tk n m)"
  unfolding ledger_def
proof (intro conjI allI impI)
  let ?bx = "mon m (bal_key x tk)" and ?by = "mon m (bal_key y tk)"
  have by_le: "?by + n \<le> money_max" using move_bound [OF m xy] n by simp
  have bx_le: "?bx - n \<le> money_max" using num_row_mon [of m "bal_key x tk"] m by force
  fix k assume "token_row k" "key_seg k \<noteq> str ''d''"
  then have "num_row m k" using m by (simp add: ledger_def)
  then show "num_row (move x y tk n m) k"
    unfolding move_def by (rule num_row_upd [OF by_le num_row_upd [OF bx_le]])
next
  let ?bx = "mon m (bal_key x tk)" and ?by = "mon m (bal_key y tk)"
  have le: "?by + n \<le> u128_max" "?bx - n \<le> u128_max"
    using move_bound [OF m xy] n money_max_bounds num_row_mon [of m "bal_key x tk"] m by (auto intro: le_trans)
  fix a tk' assume a: "slash_free a"
  have t: "mon m (trf_key a tk') \<le> mon m (bal_key a tk')" using m a by (simp add: ledger_def)
  have "mon (move x y tk n m) (bal_key a tk') =
      (if tk' = tk \<and> a = y then ?by + n else if tk' = tk \<and> a = x then ?bx - n else mon m (bal_key a tk'))"
    using a xy le by (auto simp: move_def bal_key_inj)
  with t n show "mon (move x y tk n m) (trf_key a tk') \<le> mon (move x y tk n m) (bal_key a tk')"
    by (auto simp: move_def)
next
  let ?bx = "mon m (bal_key x tk)" and ?by = "mon m (bal_key y tk)"
  have le: "?by + n \<le> u128_max" "?bx - n \<le> u128_max"
    using move_bound [OF m xy] n money_max_bounds num_row_mon [of m "bal_key x tk"] m by (auto intro: le_trans)
  fix tk'
  have t: "tick_ok m tk'" using m by (simp add: ledger_def)
  have f: "few (bals m tk')" using t by (simp add: tick_ok_def)
  have b: "bals (move x y tk n m) tk' =
      (if tk' = tk then (bals m tk)(x := bals m tk x - n, y := bals m tk y + n) else bals m tk')"
    using xy le by (simp add: move_def bals_bal) (simp add: bals_def)
  show "tick_ok (move x y tk n m) tk'"
  proof (cases "tk' = tk")
    case True
    have "n \<le> bals m tk x" using n xy by (simp add: bals_def)
    then have "sum_all (bals (move x y tk n m) tk) = sum_all (bals m tk)"
      using b True f xy(3) by (simp add: sum_all_move)
    moreover have "few (bals (move x y tk n m) tk)" using True b f by simp
    ultimately show ?thesis using True by (intro tick_ok_change [OF t]) (simp_all add: move_def)
  next
    case False
    with t b show ?thesis by (intro tick_ok_cong [OF t]) (simp_all add: move_def)
  qed
qed

text \<open>Minting and deploying.\<close>

lemma ledger_mint:
  assumes m: "ledger m" and a: "slash_free a" and d: "m (deploy_key tk) = Some (VDeploy r)"
    and n: "n \<le> mon m (left_key tk)"
  shows "ledger (m(left_key tk \<mapsto> VString (show_nat (mon m (left_key tk) - n)),
                   bal_key a tk \<mapsto> VString (show_nat (mon m (bal_key a tk) + n))))" (is "ledger ?m")
    and "mon m (bal_key a tk) + n \<le> money_max"
proof -
  let ?l = "mon m (left_key tk)" and ?b = "mon m (bal_key a tk)"
  have t: "tick_ok m tk" using m by (simp add: ledger_def)
  have f: "few (bals m tk)" using t by (simp add: tick_ok_def)
  from t d obtain s where s: "s \<le> money_max" "dr_max r = show_nat s" "?l + sum_all (bals m tk) = s" "m (left_key tk) \<noteq> None"
    by (auto simp: tick_ok_def deployed_def)
  have "bals m tk a \<le> sum_all (bals m tk)" using sum_all_one [OF f] .
  then have le: "?b + n \<le> money_max" "?l - n \<le> money_max" using s n a by (simp_all add: bals_def)
  then show "?b + n \<le> money_max" by simp
  have u: "?b + n \<le> u128_max" "?l - n \<le> u128_max" using le money_max_bounds by blast+
  show "ledger ?m"
    unfolding ledger_def
  proof (intro conjI allI impI)
    fix k assume "token_row k" "key_seg k \<noteq> str ''d''"
    then have "num_row m k" using m by (simp add: ledger_def)
    then show "num_row ?m k" by (rule num_row_upd [OF le(1) num_row_upd [OF le(2)]])
  next
    fix x tk' assume x: "slash_free x"
    then have "mon m (trf_key x tk') \<le> mon m (bal_key x tk')" using m by (simp add: ledger_def)
    moreover have "mon ?m (bal_key x tk') = (if x = a \<and> tk' = tk then ?b + n else mon m (bal_key x tk'))"
      using x a u by (auto simp: bal_key_inj)
    ultimately show "mon ?m (trf_key x tk') \<le> mon ?m (bal_key x tk')" by (auto split: if_splits)
  next
    fix tk'
    have b: "bals ?m tk' = (if tk' = tk then (bals m tk)(a := ?b + n) else bals m tk')"
      using a u by (simp add: bals_bal bals_other)
    show "tick_ok ?m tk'"
    proof (cases "tk' = tk")
      case True
      have "sum_all ((bals m tk)(a := ?b + n)) + bals m tk a = sum_all (bals m tk) + (?b + n)"
        using sum_all_upd [OF f] .
      then have "sum_all (bals ?m tk) = sum_all (bals m tk) + n" using a b True by (simp add: bals_def)
      moreover have "mon ?m (left_key tk) = ?l - n" using u by simp
      moreover have "few (bals ?m tk)" using f b True by simp
      moreover have "?m (deploy_key tk) = m (deploy_key tk)" "?m (left_key tk) \<noteq> None" "deployed m tk \<noteq> None"
        using d by (simp_all add: deployed_def)
      ultimately have "tick_ok ?m tk" using n by (intro tick_ok_change [OF t]) simp_all
      with True show ?thesis by simp
    next
      case False
      moreover have t': "tick_ok m tk'" using m by (simp add: ledger_def)
      ultimately show ?thesis using b by (intro tick_ok_cong [OF t']) simp_all
    qed
  qed
qed

lemma ledger_deploy:
  assumes m: "ledger m" and d: "\<forall>r. m (deploy_key tk) \<noteq> Some (VDeploy r)"
    and r: "dr_max r = show_nat n" "n \<le> money_max"
  shows "ledger (m(deploy_key tk \<mapsto> VDeploy r, left_key tk \<mapsto> VString (show_nat n)))" (is "ledger ?m")
  unfolding ledger_def
proof (intro conjI allI impI)
  fix k assume k: "token_row k" "key_seg k \<noteq> str ''d''"
  then have "num_row m k" using m by (simp add: ledger_def)
  moreover have "k \<noteq> deploy_key tk" using k by auto
  ultimately show "num_row ?m k" using r(2) by (auto simp: num_row_def)
next
  fix x tk' assume "slash_free x"
  then show "mon ?m (trf_key x tk') \<le> mon ?m (bal_key x tk')" using m by (simp add: ledger_def)
next
  fix tk'
  have t: "tick_ok m tk'" using m by (simp add: ledger_def)
  have b: "bals ?m tk' = bals m tk'" by (simp add: bals_other)
  show "tick_ok ?m tk'"
  proof (cases "tk' = tk")
    case True
    have "sum_all (bals m tk) = 0"
      using t d True by (auto simp: tick_ok_def deployed_def split: option.splits tap_value.splits)
    moreover have "mon ?m (left_key tk) = n" using r(2) money_max_bounds by simp
    ultimately show ?thesis using t True r b by (simp add: tick_ok_def deployed_def)
  next
    case False
    with t b show ?thesis by (intro tick_ok_cong [OF t]) simp_all
  qed
qed

lemma ledger_empty: "ledger Map.empty"
  by (auto simp: ledger_def num_row_def mon_def tick_ok_def deployed_def bals_def sum_all_def few_def)

end
