(* ===== verification/Tap_Safety.thy ===== *)
theory Tap_Safety
  imports Tap_Ledger
begin

text \<open>
  What each TAP handler keeps: the ledger of every ticker adds up, transferables stay within balances, and
  the records that later steps read are well formed.
\<close>

section \<open>Reading the ledger\<close>

lemma tok_put: "tok (tap_put k v st) = (if token_row k then (tok st)(k \<mapsto> v) else tok st)"
  by (auto simp: tok_def kv.get_put fun_eq_iff)

lemma tok_del: "tok (tap_del k st) = (if token_row k then (tok st)(k := None) else tok st)"
  by (auto simp: tok_def kv.get_del fun_eq_iff)

lemma tok_frames [simp]:
  "key_seg lk \<notin> token_segs \<Longrightarrow> key_seg ik \<notin> token_segs \<Longrightarrow> tok (tap_append lk ik v st) = tok st"
  "key_seg lk \<notin> token_segs \<Longrightarrow> key_seg ik \<notin> token_segs \<Longrightarrow> tok (snd (tap_set_list_record lk ik v st)) = tok st"
  "tok (point_to E kind tick_key txs ptr st) = tok st"
  "key_seg lk \<notin> token_segs \<Longrightarrow> key_seg ik \<notin> token_segs \<Longrightarrow> tok (superflat E lk ik kind tick_key txs v st) = tok st"
  "tok (add_holder a tk st) = tok st"
  "tok (add_owned a tk l st) = tok st"
  "tok (send_rows a tk r st) = tok st"
  "tok (send_superflat E tk l r st) = tok st"
  "tok (accumulate E i p owner kind acc st) = tok st"
  by (simp_all add: tok_def fun_eq_iff frame)

lemma tok_get: "token_row k \<Longrightarrow> tap_get st k = tok st k"
  by (simp add: tok_def)

lemma read_rows:
  assumes "num_row (tok st) k" "token_row k"
  shows "or_zero (read_u128 st k) = mon (tok st) k"
    and "or_zero (read_i128 st k) = int (mon (tok st) k)"
    and "read_u128 st k = Some n \<Longrightarrow> n = mon (tok st) k"
    and "get_string st k = Some s \<Longrightarrow> s = show_nat (mon (tok st) k)"
    and "get_string st k = None \<longleftrightarrow> tok st k = None"
proof -
  from num_row_mon [OF assms(1)] have le: "mon (tok st) k \<le> u128_max" "mon (tok st) k < 2 ^ 127"
    using money_max_bounds by blast+
  from num_row_mon [OF assms(1)] have "tok st k = None \<or> tok st k = Some (VString (show_nat (mon (tok st) k)))" by blast
  then have g: "get_string st k = None \<and> tok st k = None \<and> mon (tok st) k = 0 \<or>
      get_string st k = Some (show_nat (mon (tok st) k)) \<and> tok st k \<noteq> None"
    by (auto simp: get_string_def tok_get [OF assms(2)] mon_none)
  then show "or_zero (read_u128 st k) = mon (tok st) k" "or_zero (read_i128 st k) = int (mon (tok st) k)"
      "read_u128 st k = Some n \<Longrightarrow> n = mon (tok st) k" "get_string st k = Some s \<Longrightarrow> s = show_nat (mon (tok st) k)"
      "get_string st k = None \<longleftrightarrow> tok st k = None"
    using le by (auto simp: read_u128_def read_i128_def)
qed

lemma ledger_reads:
  assumes "ledger (tok st)"
  shows "or_zero (read_u128 st (bal_key a tk)) = mon (tok st) (bal_key a tk)"
    and "or_zero (read_u128 st (trf_key a tk)) = mon (tok st) (trf_key a tk)"
    and "or_zero (read_i128 st (bal_key a tk)) = int (mon (tok st) (bal_key a tk))"
    and "or_zero (read_i128 st (trf_key a tk)) = int (mon (tok st) (trf_key a tk))"
    and "read_u128 st (bal_key a tk) = Some n \<Longrightarrow> n = mon (tok st) (bal_key a tk)"
    and "read_u128 st (left_key tk) = Some n \<Longrightarrow> n = mon (tok st) (left_key tk)"
    and "get_string st (bal_key a tk) = Some s \<Longrightarrow> s = show_nat (mon (tok st) (bal_key a tk))"
    and "get_string st (trf_key a tk) = Some s \<Longrightarrow> s = show_nat (mon (tok st) (trf_key a tk))"
    and "mon (tok st) (bal_key a tk) \<le> money_max" and "mon (tok st) (trf_key a tk) \<le> money_max"
  using assms read_rows [of st "bal_key a tk"] read_rows [of st "trf_key a tk"] read_rows [of st "left_key tk"]
    num_row_mon [of "tok st" "bal_key a tk"] num_row_mon [of "tok st" "trf_key a tk"]
  by simp_all

lemma locked_reads:
  assumes "ledger (tok st)"
  shows "0 \<le> tap_get_locked_amount E st a tk \<and> tap_get_locked_amount E st a tk \<le> int money_max"
    and "0 \<le> tap_get_account_obligation_locked_amount E st a tk \<and>
         tap_get_account_obligation_locked_amount E st a tk \<le> int money_max"
proof -
  have "num_row (tok st) (key2 (str ''ll'') a tk)" "num_row (tok st) (key3 (str ''oll'') (str ''a'') a tk)"
    by (rule ledger_num [OF assms], simp, simp add: str_def)+
  then show "0 \<le> tap_get_locked_amount E st a tk \<and> tap_get_locked_amount E st a tk \<le> int money_max"
    and "0 \<le> tap_get_account_obligation_locked_amount E st a tk \<and>
         tap_get_account_obligation_locked_amount E st a tk \<le> int money_max"
    using read_rows(2) [of st "key2 (str ''ll'') a tk"] read_rows(2) [of st "key3 (str ''oll'') (str ''a'') a tk"]
      num_row_mon [of "tok st" "key2 (str ''ll'') a tk"] num_row_mon [of "tok st" "key3 (str ''oll'') (str ''a'') a tk"]
    by (auto simp: tap_get_locked_amount_def tap_get_account_obligation_locked_amount_def)
qed

section \<open>Well-formed records\<close>

definition all_rows :: "('f tap_value \<Rightarrow> bool) \<Rightarrow> 'f tap_store \<Rightarrow> bool" where
  "all_rows P st \<longleftrightarrow> (\<forall>k v. tap_get st k = Some v \<longrightarrow> P v)"

definition acc_ok :: "'f tap_env \<Rightarrow> 'f accumulator \<Rightarrow> bool" where
  "acc_ok E acc \<longleftrightarrow>
    (te_lower E (ac_op acc) = str ''token-send'' \<longrightarrow>
      (\<forall>items item a. Option.bind (tj_get (ac_json acc) (str ''items'')) tj_array = Some items \<longrightarrow> item \<in> set items \<longrightarrow>
        get_str item (str ''address'') = Some a \<longrightarrow> slash_free a)) \<and>
    (te_lower E (ac_op acc) = str ''token-trade'' \<longrightarrow> trade_side E (ac_json acc) = Some 1 \<longrightarrow>
      (\<forall>a. get_str (ac_json acc) (str ''fee_rcv'') = Some a \<longrightarrow> slash_free a))"

definition value_ok :: "'f tap_env \<Rightarrow> 'f tap_value \<Rightarrow> bool" where
  "value_ok E v =
    (case v of
       VDeploy r \<Rightarrow> dr_dec r \<le> 18
     | VTransferInit r \<Rightarrow> \<exists>n. ti_amt r = show_nat n
     | VTradeOffer r \<Rightarrow> slash_free (of_addr r) \<and> (\<exists>n \<le> money_max. of_amt r = show_nat n)
     | VAccumulator acc \<Rightarrow> acc_ok E acc
     | _ \<Rightarrow> True)"

named_theorems keeps \<open>operations that keep the records of a store well formed\<close>

lemma value_ok_simps [simp]:
  "value_ok E (VString s)" "value_ok E (VMint mr)" "value_ok E (VMintFlat mr)" "value_ok E (VMintSuperflat s mr)"
  "value_ok E (VTransferInitFlat ti)" "value_ok E (VTransferInitSuperflat s ti)" "value_ok E (VSendSender ss)"
  "value_ok E (VSendReceiver sr)" "value_ok E (VSendFlat sf)" "value_ok E (VSendSuperflat s sf)"
  "value_ok E (VBuySeller bs)" "value_ok E (VBuyBuyer bb)" "value_ok E (VPrivilegeAuth pa)"
  "value_ok E (VDeploy r) \<longleftrightarrow> dr_dec r \<le> 18"
  "value_ok E (VTransferInit ti) \<longleftrightarrow> (\<exists>n. ti_amt ti = show_nat n)"
  "value_ok E (VTradeOffer r') \<longleftrightarrow> slash_free (of_addr r') \<and> (\<exists>n \<le> money_max. of_amt r' = show_nat n)"
  "value_ok E (VAccumulator acc) \<longleftrightarrow> acc_ok E acc"
  by (simp_all add: value_ok_def)

lemma values_put [keeps]: "all_rows P st \<Longrightarrow> P v \<Longrightarrow> all_rows P (tap_put k v st)"
  by (auto simp: all_rows_def kv.get_put)

lemma values_del [keeps]: "all_rows P st \<Longrightarrow> all_rows P (tap_del k st)"
  by (auto simp: all_rows_def kv.get_del)

lemma values_set_list [keeps]:
  "all_rows (value_ok E) st \<Longrightarrow> value_ok E v \<Longrightarrow> all_rows (value_ok E) (snd (tap_set_list_record lk ik v st))"
  by (simp add: tap_set_list_record_eq Let_def) (simp add: all_rows_def kv.get_put)

lemma values_append [keeps]:
  "all_rows (value_ok E) st \<Longrightarrow> value_ok E v \<Longrightarrow> all_rows (value_ok E) (tap_append lk ik v st)"
  by (simp add: tap_append_def keeps)

lemma values_point_to [keeps]: "all_rows (value_ok E) st \<Longrightarrow> all_rows (value_ok E) (point_to E' kind tick_key txs ptr st)"
  by (simp add: point_to_def Let_def keeps)

lemma values_superflat [keeps]:
  "all_rows (value_ok E) st \<Longrightarrow> value_ok E v \<Longrightarrow> all_rows (value_ok E) (superflat E' lk ik kind tick_key txs v st)"
  by (simp add: superflat_def case_prod_beta keeps)

lemma values_helpers [keeps]:
  assumes "all_rows (value_ok E) st"
  shows "all_rows (value_ok E) (add_holder a tk st)" and "all_rows (value_ok E) (add_owned a tk l st)"
    and "all_rows (value_ok E) (send_rows a tk r st)" and "all_rows (value_ok E) (send_superflat E' tk l r st)"
    and "all_rows (value_ok E) (drop_link E' i st)" and "all_rows (value_ok E) (clear_amount E' i st)"
  using assms
  by (simp_all add: add_holder_def add_owned_def send_rows_def send_superflat_def drop_link_def clear_amount_def Let_def keeps)

lemma values_accumulate [keeps]:
  "all_rows (value_ok E) st \<Longrightarrow> acc_ok E acc \<Longrightarrow> all_rows (value_ok E) (accumulate E' i p owner kind acc st)"
  by (simp add: accumulate_def Let_def case_prod_beta keeps)

definition tap_ok :: "'f tap_env \<Rightarrow> 'f tap_store \<Rightarrow> bool" where
  "tap_ok E st \<longleftrightarrow> ledger (tok st) \<and> all_rows (value_ok E) st"

lemma get_deploy_tok: "get_deploy st (deploy_key tk) = deployed (tok st) tk"
  by (simp add: get_deploy_def deployed_def tok_get)

lemma values_get:
  assumes "all_rows (value_ok E) st"
  shows "get_deploy st k = Some d \<Longrightarrow> dr_dec d \<le> 18"
    and "get_transfer_init st k = Some t \<Longrightarrow> \<exists>n. ti_amt t = show_nat n"
    and "get_offer st k = Some r \<Longrightarrow> slash_free (of_addr r) \<and> (\<exists>n \<le> money_max. of_amt r = show_nat n)"
    and "get_accumulator st k = Some acc \<Longrightarrow> acc_ok E acc"
  using assms
  by (auto simp: all_rows_def get_deploy_def get_transfer_init_def get_offer_def get_accumulator_def
      dest!: spec [of _ k] split: option.splits tap_value.splits)

section \<open>Caps\<close>

definition cap_units :: "u32 \<Rightarrow> nat" where
  "cap_units dec = 18446744073709551615 * 10 ^ dec"

lemma cap_units_bound: "dec \<le> 18 \<Longrightarrow> cap_units dec \<le> money_max"
proof -
  assume "dec \<le> 18"
  then have "(10::nat) ^ dec \<le> 10 ^ 18" by (rule power_increasing) simp
  then have "cap_units dec \<le> 18446744073709551615 * 10 ^ 18" unfolding cap_units_def by (rule mult_le_mono2)
  then show ?thesis by (simp add: money_max_def)
qed

lemma resolve_cap: "resolve_number_string MAX_DEC_U64_STR dec = Some (show_nat (cap_units dec))"
proof -
  have v: "is_valid_number MAX_DEC_U64_STR" by (simp add: is_valid_number_def MAX_DEC_U64_STR_def str_def is_ascii_digit_def)
  have "digits_value MAX_DEC_U64_STR = 18446744073709551615" by (simp add: digits_value_def MAX_DEC_U64_STR_def str_def)
  moreover have "whole_digits MAX_DEC_U64_STR = MAX_DEC_U64_STR" "fraction_digits MAX_DEC_U64_STR = []"
    by (simp_all add: whole_digits_def fraction_digits_def MAX_DEC_U64_STR_def str_def)
  ultimately have "units_of MAX_DEC_U64_STR dec = cap_units dec"
    by (simp add: units_of_def digits_value_append cap_units_def)
  with v show ?thesis by (simp add: resolve_number_units)
qed

lemma cap_reads:
  assumes "dec \<le> 18"
  shows "supply_cap dec = cap_units dec"
    and "Option.bind (resolve_number_string MAX_DEC_U64_STR dec) parse_i128 = Some (int (cap_units dec))"
  using money_max_bounds [OF cap_units_bound [OF assms]] by (simp_all add: supply_cap_def resolve_cap)

lemma resolve_reads:
  assumes "resolve_number_string s dec = Some t"
  shows "t = show_nat (units_of s dec)"
  using assms by (simp add: resolve_number_units split: if_splits)

lemma resolve_i128:
  assumes "Option.bind (resolve_number_string s dec) parse_i128 = Some amount" "amount \<le> int (cap_units dec)"
  obtains n where "amount = int n" "n \<le> cap_units dec"
proof -
  from assms(1) obtain t where "resolve_number_string s dec = Some t" "parse_i128 t = Some amount"
    by (auto simp: bind_eq_Some_conv)
  then have "0 \<le> amount" using resolve_reads [of s dec t] by (auto simp: parse_i128_show)
  with assms(2) that [of "nat amount"] show thesis by simp
qed

lemma digits_parse: "list_all is_ascii_digit s \<Longrightarrow> parse_digits mx acc s = Some n \<Longrightarrow> n = acc * 10 ^ length s + digits_value s"
proof (induction s arbitrary: acc)
  case Nil
  then show ?case by simp
next
  case (Cons c s)
  then have "parse_digits mx (acc * 10 + (c - 48)) s = Some n"
    by (auto simp: checked_defs split: if_splits)
  with Cons have "n = (acc * 10 + (c - 48)) * 10 ^ length s + digits_value s" by simp
  moreover have "digits_value (c # s) = (c - 48) * 10 ^ length s + digits_value s"
    using digits_value_append [of "[c]" s] by (simp add: digits_value_def)
  ultimately show ?case by (simp add: algebra_simps)
qed

lemma parse_uint_show_inv: "parse_uint mx (show_nat m) = Some n \<Longrightarrow> n = m"
proof -
  assume p: "parse_uint mx (show_nat m) = Some n"
  have d: "list_all is_ascii_digit (show_nat m)" by (auto simp: list_all_iff is_ascii_digit_def dest: show_nat_digits)
  have "parse_digits mx 0 (show_nat m) = Some n"
    using p parse_uint_digits [of "show_nat m" mx] show_nat_digits [of _ m] by auto
  then have "n = digits_value (show_nat m)" using digits_parse [OF d, of mx 0 n] by simp
  moreover have "parse_digits m 0 (show_nat m) = Some m" by (rule parse_digits_show) simp
  then have "m = digits_value (show_nat m)" using digits_parse [OF d, of m 0 m] by simp
  ultimately show ?thesis by simp
qed

section \<open>Deploy\<close>

lemma deploy_decimals_bound: "deploy_decimals E v = Some d \<Longrightarrow> d \<le> 18"
  by (auto simp: deploy_decimals_def split: option.splits if_splits)

lemma deploy_record_facts:
  assumes "deploy_record E i number p payload owner value st = Some r"
  shows "dr_dec r \<le> 18" and "\<exists>n \<le> supply_cap (dr_dec r). 0 < n \<and> dr_max r = show_nat n"
    and "get_deploy st (deploy_key (js_json_stringify_str E (dr_tick r))) = None"
proof -
  from assms obtain v max_val where d: "deploy_decimals E v = Some (dr_dec r)"
      "deploy_max E max_val (dr_dec r) = Some (dr_max r)"
      "get_deploy st (deploy_key (js_json_stringify_str E (dr_tick r))) = None"
    by (auto simp: deploy_record_def bind_eq_Some_conv split: if_splits)
  from d(1) show "dr_dec r \<le> 18" by (rule deploy_decimals_bound)
  from d(2) obtain n where "parse_uint u128_max (dr_max r) = Some n" "0 < n" "n \<le> supply_cap (dr_dec r)"
      "resolve_number_string (js_value_to_string E max_val) (dr_dec r) = Some (dr_max r)"
    by (auto simp: deploy_max_def bind_eq_Some_conv split: if_splits)
  moreover from this(4) have u: "dr_max r = show_nat (units_of (js_value_to_string E max_val) (dr_dec r))"
    by (rule resolve_reads)
  ultimately have "dr_max r = show_nat n" "n \<le> supply_cap (dr_dec r)" "0 < n"
    using parse_uint_show_inv by auto
  then show "\<exists>n \<le> supply_cap (dr_dec r). 0 < n \<and> dr_max r = show_nat n" by blast
  show "get_deploy st (deploy_key (js_json_stringify_str E (dr_tick r))) = None" by (rule d(3))
qed

lemma log_lits [simp]: "key_seg (str ''dl'') \<notin> token_segs" "key_seg (str ''dli'') \<notin> token_segs"
  "key_seg (str ''sfml'') \<notin> token_segs" "key_seg (str ''sfmli'') \<notin> token_segs" "key_seg (str ''aml'') \<notin> token_segs"
  "key_seg (str ''amli'') \<notin> token_segs" "key_seg (str ''fml'') \<notin> token_segs" "key_seg (str ''fmli'') \<notin> token_segs"
  "key_seg (str ''prah'') \<notin> token_segs" "key_seg (str ''tamt'') \<notin> token_segs" "key_seg (str ''atrl'') \<notin> token_segs"
  "key_seg (str ''atrli'') \<notin> token_segs" "key_seg (str ''kind'') \<notin> token_segs" "key_seg (str ''tl'') \<notin> token_segs"
  "key_seg (str ''ftrl'') \<notin> token_segs" "key_seg (str ''ftrli'') \<notin> token_segs" "key_seg (str ''sftrl'') \<notin> token_segs"
  "key_seg (str ''sftrli'') \<notin> token_segs" "key_seg (str ''ato'') \<notin> token_segs" "key_seg (str ''atl'') \<notin> token_segs"
  "key_seg (str ''atli'') \<notin> token_segs" "key_seg (str ''a'') \<notin> token_segs" "key_seg (str ''bltr'') \<notin> token_segs"
  "key_seg (str ''tol'') \<notin> token_segs" "key_seg (str ''to'') \<notin> token_segs" "key_seg (str ''tor'') \<notin> token_segs"
  "key_seg (str ''tori'') \<notin> token_segs" "key_seg (str ''atrof'') \<notin> token_segs" "key_seg (str ''atrofi'') \<notin> token_segs"
  "key_seg (str ''fatrof'') \<notin> token_segs" "key_seg (str ''fatrofi'') \<notin> token_segs" "key_seg (str ''sfatrof'') \<notin> token_segs"
  "key_seg (str ''sfatrofi'') \<notin> token_segs" "key_seg (str ''btrof'') \<notin> token_segs" "key_seg (str ''btrofi'') \<notin> token_segs"
  "key_seg (str ''rbtrof'') \<notin> token_segs" "key_seg (str ''rbtrofi'') \<notin> token_segs" "key_seg (str ''fbtrof'') \<notin> token_segs"
  "key_seg (str ''fbtrofi'') \<notin> token_segs" "key_seg (str ''sfbtrof'') \<notin> token_segs" "key_seg (str ''sfbtrofi'') \<notin> token_segs"
  by (simp_all add: log_segs_def)

lemma tok_links [simp]: "tok (drop_link E i st) = tok st" "tok (clear_amount E i st) = tok st"
  by (simp_all add: drop_link_def clear_amount_def tok_put tok_del)

lemma deploy_keeps:
  assumes "tap_ok E0 st"
  shows "tap_ok E0 (index_deployments E i number p payload owner value st)"
proof (cases "deploy_record E i number p payload owner value st")
  case None
  with assms show ?thesis by (simp add: index_deployments_def)
next
  case (Some r)
  let ?tk = "js_json_stringify_str E (dr_tick r)"
  note f = deploy_record_facts [OF Some]
  from f(2) obtain n where n: "n \<le> supply_cap (dr_dec r)" "dr_max r = show_nat n" by blast
  with f(1) have "n \<le> money_max" using cap_reads(1) [OF f(1)] cap_units_bound [OF f(1)] by simp
  moreover have "\<forall>r'. tok st (deploy_key ?tk) \<noteq> Some (VDeploy r')"
    using f(3) by (auto simp: get_deploy_tok deployed_def split: option.splits tap_value.splits)
  ultimately have "ledger ((tok st)(deploy_key ?tk \<mapsto> VDeploy r, left_key ?tk \<mapsto> VString (show_nat n)))"
    using assms n(2) by (intro ledger_deploy) (simp_all add: tap_ok_def)
  moreover have "tok (index_deployments E i number p payload owner value st) =
      (tok st)(deploy_key ?tk \<mapsto> VDeploy r, left_key ?tk \<mapsto> VString (show_nat n))"
    using Some n(2) by (simp add: index_deployments_def Let_def tok_put)
  moreover have "all_rows (value_ok E0) (index_deployments E i number p payload owner value st)"
    using Some assms f(1) by (simp add: index_deployments_def Let_def tap_ok_def keeps)
  ultimately show ?thesis by (simp add: tap_ok_def)
qed

section \<open>Mint\<close>

lemma mint_request_facts:
  assumes "mint_request_of E i number p payload st = Some q"
  shows "get_deploy st (deploy_key (mq_tick_key q)) = Some (mq_deployed q)"
    and "read_u128 st (left_key (mq_tick_key q)) = Some (mq_tokens_left q)"
  using assms by (auto simp: mint_request_of_def Let_def bind_eq_Some_conv split: if_splits)

lemma tap_mint_amount_bound: "tap_mint_amount q = (amount, False) \<Longrightarrow> 0 < amount \<and> amount \<le> mq_tokens_left q \<and> amount \<le> mq_amount q"
  by (auto simp: tap_mint_amount_def Let_def split: if_splits)

lemma tok_mint_apply:
  assumes "ledger (tok st)" "slash_free owner" "read_u128 st (left_key (mq_tick_key q)) = Some (mq_tokens_left q)"
    and "deployed (tok st) (mq_tick_key q) \<noteq> None" "\<not> fail \<Longrightarrow> amount \<le> mq_tokens_left q"
  shows "tok (mint_apply E i number p owner value q amount fail sg st) =
    (if fail then tok st
     else (tok st)(left_key (mq_tick_key q) \<mapsto> VString (show_nat (mon (tok st) (left_key (mq_tick_key q)) - amount)),
                   bal_key owner (mq_tick_key q) \<mapsto> VString (show_nat (mon (tok st) (bal_key owner (mq_tick_key q)) + amount))))"
proof (cases fail)
  case True
  then show ?thesis by (simp add: mint_apply_def Let_def tok_put split: option.split)
next
  case False
  let ?tk = "mq_tick_key q"
  from assms(4) obtain r where r: "tok st (deploy_key ?tk) = Some (VDeploy r)"
    by (auto simp: deployed_def split: option.splits tap_value.splits)
  have l: "mq_tokens_left q = mon (tok st) (left_key ?tk)" using ledger_reads(6) [OF assms(1,3)] .
  have a: "amount \<le> mon (tok st) (left_key ?tk)" using assms(5) False l by simp
  have "mon (tok st) (bal_key owner ?tk) + amount \<le> u128_max"
    using ledger_mint(2) [OF assms(1,2) r a] money_max_bounds by blast
  with False a l show ?thesis
    by (simp add: mint_apply_def Let_def tok_put ledger_reads(1) [OF assms(1)] checked_defs split: option.split)
qed

lemma mint_keeps:
  assumes "tap_ok E0 st" "slash_free owner"
  shows "tap_ok E0 (index_mints E i number p payload owner value st)"
proof (cases "mint_request_of E i number p payload st")
  case None
  with assms show ?thesis by (simp add: index_mints_def)
next
  case (Some q)
  note f = mint_request_facts [OF Some]
  obtain amount fail0 where a: "tap_mint_amount q = (amount, fail0)" by fastforce
  show ?thesis
  proof (cases "if fail0 then Some (True, None) else mint_privilege E st q owner")
    case None
    with Some a assms show ?thesis by (simp add: index_mints_def)
  next
    case p: (Some r)
    obtain fail sg where r: "r = (fail, sg)" by fastforce
    let ?st = "mint_apply E i number p owner value q amount fail sg st" and ?tk = "mq_tick_key q"
    have st: "index_mints E i number p payload owner value st = ?st"
      using Some a p r by (simp add: index_mints_def)
    have am: "\<not> fail \<Longrightarrow> amount \<le> mq_tokens_left q"
      using a p r tap_mint_amount_bound [of q amount] by (cases fail0) auto
    have l: "ledger (tok st)" using assms(1) by (simp add: tap_ok_def)
    have d: "tok st (deploy_key ?tk) = Some (VDeploy (mq_deployed q))"
      using f(1) by (auto simp: get_deploy_tok deployed_def split: option.splits tap_value.splits)
    have "mq_tokens_left q = mon (tok st) (left_key ?tk)" using ledger_reads(6) [OF l f(2)] .
    then have "ledger (tok ?st)"
      using tok_mint_apply [OF l assms(2) f(2), of fail amount E i number p "value" sg] f(1) am l
        ledger_mint(1) [OF l assms(2) d, of amount]
      by (simp add: get_deploy_tok)
    moreover have "all_rows (value_ok E0) ?st"
      using assms(1) by (simp add: mint_apply_def Let_def tap_ok_def keeps split: option.split)
    ultimately show ?thesis unfolding st by (simp add: tap_ok_def)
  qed
qed

section \<open>Transfer\<close>

lemma shown [simp]: "\<exists>n. show_nat a = show_nat n"
  by blast

lemma show_int_zero [simp]: "show_int 0 = show_nat 0"
  by (simp add: show_int_def)

lemma show_int_add [simp]: "show_int (int a + int b) = show_nat (a + b)"
  by (metis of_nat_add show_int_of_nat)

lemma show_int_diff: "b \<le> a \<Longrightarrow> show_int (int a - int b) = show_nat (a - b)"
  by (metis of_nat_diff show_int_of_nat)

lemma transfer_request_facts:
  assumes "transfer_request_of E i number p payload owner st = Some q"
  shows "read_u128 st (bal_key owner (tq_tick_key q)) = Some (tq_tokens_left q)"
  using assms by (auto simp: transfer_request_of_def Let_def bind_eq_Some_conv split: if_splits)

lemma tok_transfer_created:
  assumes "ledger (tok st)"
  shows "tok (index_token_transfer_created E i number p payload owner value st) = tok st \<or>
    (\<exists>tk n. n \<le> mon (tok st) (bal_key owner tk) \<and>
      tok (index_token_transfer_created E i number p payload owner value st) =
        (tok st)(trf_key owner tk \<mapsto> VString (show_nat n)))"
proof (cases "transfer_request_of E i number p payload owner st")
  case None
  then show ?thesis by (simp add: index_token_transfer_created_def)
next
  case (Some q)
  let ?tk = "tq_tick_key q"
  let ?t = "mon (tok st) (trf_key owner ?tk)"
  have l: "tq_tokens_left q = mon (tok st) (bal_key owner ?tk)"
    using ledger_reads(5) [OF assms transfer_request_facts [OF Some]] .
  define fail where "fail \<longleftrightarrow> tq_tokens_left q < ?t + nat (tap_get_locked_amount E st owner ?tk) +
    nat (tap_get_account_obligation_locked_amount E st owner ?tk) + tq_amount q"
  have "?t + tq_amount q \<le> u128_max \<and> ?t + tq_amount q \<le> mon (tok st) (bal_key owner ?tk)" if "\<not> fail"
    using that l ledger_reads(9) [OF assms, of owner ?tk] money_max_bounds
    by (auto simp: fail_def intro: order_trans)
  with Some show ?thesis
    unfolding index_token_transfer_created_def Some option.case Let_def ledger_reads(2) [OF assms] fail_def [symmetric]
    by (cases fail) (auto simp: case_prod_beta tok_put checked_defs)
qed

lemma transfer_created_keeps:
  assumes "tap_ok E0 st" "slash_free owner"
  shows "tap_ok E0 (index_token_transfer_created E i number p payload owner value st)"
proof -
  have l: "ledger (tok st)" using assms(1) by (simp add: tap_ok_def)
  have "all_rows (value_ok E0) (index_token_transfer_created E i number p payload owner value st)"
    using assms(1)
    by (auto simp: index_token_transfer_created_def Let_def case_prod_beta tap_ok_def keeps split: option.split)
  moreover have "ledger (tok (index_token_transfer_created E i number p payload owner value st))"
    using tok_transfer_created [OF l, of E i number p payload owner "value"] l ledger_set_trf [OF l assms(2)] by auto
  ultimately show ?thesis by (simp add: tap_ok_def)
qed

lemma split_once_fst: "split_once c s = Some (a, b) \<Longrightarrow> c \<notin> set a"
  by (induction s arbitrary: a) (auto split: if_splits)

lemma transfer_link_facts:
  assumes "transfer_link E i p st = Some (atr, tk)" "all_rows (value_ok E0) st"
  shows "slash_free (ti_addr atr)" and "\<exists>n. ti_amt atr = show_nat n" and "deployed (tok st) tk \<noteq> None"
proof -
  from assms(1) obtain ptr rest ps where l: "get_transfer_init st ptr = Some atr" "split_once 47 rest = Some (ps, tk)"
      "ps = ti_addr atr" "get_deploy st (deploy_key tk) \<noteq> None"
    by (auto simp: transfer_link_def bind_eq_Some_conv split: if_splits)
  show "slash_free (ti_addr atr)" using split_once_fst [OF l(2)] l(3) by simp
  show "\<exists>n. ti_amt atr = show_nat n" using values_get(2) [OF assms(2) l(1)] .
  show "deployed (tok st) tk \<noteq> None" using l(4) by (simp add: get_deploy_tok)
qed

lemma move_then_trf:
  "(move x y tk n m)(trf_key x tk \<mapsto> v) = move x y tk n (m(trf_key x tk \<mapsto> v))"
  by (simp add: move_def fun_upd_twist)

lemma tok_transfer_move:
  fixes tk :: "rchar list" and atr :: transfer_init and st :: "'f tap_store"
  assumes l: "ledger (tok st)" and s: "slash_free (ti_addr atr)" "slash_free receiver"
    and k: "or_zero (parse_i128 (ti_amt atr)) = int k" "k < 2 ^ 127"
  defines "b \<equiv> mon (tok st) (bal_key (ti_addr atr) tk)" and "t \<equiv> mon (tok st) (trf_key (ti_addr atr) tk)"
  shows "tok (tap_transfer_move E i p atr tk receiver value (int b) (int t) st) =
    (if k \<le> t then
       (if receiver = ti_addr atr then tok st else move (ti_addr atr) receiver tk k (tok st))
         (trf_key (ti_addr atr) tk \<mapsto> VString (show_nat (t - k)))
     else (tok st)(trf_key (ti_addr atr) tk \<mapsto> VString (show_nat 0)))"
proof -
  have tb: "t \<le> b" using l s by (simp add: ledger_def t_def b_def)
  have bm: "b < 2 ^ 127" "t < 2 ^ 127" using ledger_reads(9,10) [OF l] money_max_bounds by (auto simp: b_def t_def)
  have i: "i128 (int t - int k) = int t - int k" "i128 (int b - int k) = int b - int k"
    using bm k(2) by (auto intro!: i128_id)
  show ?thesis
  proof (cases "k \<le> t")
    case True
    then have nf: "\<not> (int t - int k < 0 \<or> int b - int k < 0)" using tb by auto
    have e: "show_int (int t - int k) = show_nat (t - k)" "show_int (int b - int k) = show_nat (b - k)"
      using True tb by (simp_all add: show_int_diff)
    have r: "show_int (i128 (int (mon (tok st) (bal_key receiver tk)) + int k)) = show_nat (mon (tok st) (bal_key receiver tk) + k)"
      if "receiver \<noteq> ti_addr atr"
    proof -
      have "mon (tok st) (bal_key receiver tk) + k < 2 ^ 127"
        using move_bound [OF l s(1,2), of k tk] that True tb money_max_bounds by (auto simp: b_def)
      then have "i128 (int (mon (tok st) (bal_key receiver tk) + k)) = int (mon (tok st) (bal_key receiver tk) + k)"
        by (intro i128_id) auto
      then show ?thesis by simp
    qed
    show ?thesis
      using True nf r
      unfolding tap_transfer_move_def Let_def k(1) i ledger_reads(3) [OF l] e
      by (auto simp: tok_put move_def b_def show_int_diff)
  next
    case False
    then have f: "int t - int k < 0" by simp
    with False show ?thesis
      unfolding tap_transfer_move_def Let_def k(1) i
      by (simp add: tok_put)
  qed
qed

end
