(* ===== verification/Tap_Steps.thy ===== *)
theory Tap_Steps
  imports Tap_Safety
begin

text \<open>
  The executed handlers of the TAP protocol keep the ledger: transfers, sends and trades.
\<close>

section \<open>Executed transfers\<close>

lemma tap_transfer_move_keeps:
  assumes ok: "tap_ok E0 st" and s: "slash_free (ti_addr atr)" and o: "slash_free owner"
    and k: "or_zero (parse_i128 (ti_amt atr)) = int k" "k < 2 ^ 127"
  shows "tap_ok E0 (tap_transfer_move E i p atr tk owner value (int (mon (tok st) (bal_key (ti_addr atr) tk)))
    (int (mon (tok st) (trf_key (ti_addr atr) tk))) st)"
proof -
  let ?s = "ti_addr atr"
  let ?b = "mon (tok st) (bal_key ?s tk)" and ?t = "mon (tok st) (trf_key ?s tk)"
  let ?m = "(tok st)(trf_key ?s tk \<mapsto> VString (show_nat (?t - k)))"
  have l: "ledger (tok st)" and v: "all_rows (value_ok E0) st" using ok by (simp_all add: tap_ok_def)
  have tb: "?t \<le> ?b" using l s by (simp add: ledger_def)
  have m: "ledger ?m" using tb by (intro ledger_set_trf [OF l s]) simp
  have "mon ?m (trf_key ?s tk) = ?t - k" using ledger_reads(10) [OF l, of ?s tk] money_max_bounds by simp
  then have mv: "ledger (move ?s owner tk k ?m)" if "owner \<noteq> ?s" "k \<le> ?t"
    using that tb by (intro ledger_move [OF m s o]) auto
  have "ledger (tok (tap_transfer_move E i p atr tk owner value (int ?b) (int ?t) st))"
    unfolding tok_transfer_move [OF l s o k]
    using m mv ledger_set_trf [OF l s, of 0 tk] by (simp add: move_then_trf)
  moreover have "all_rows (value_ok E0) (tap_transfer_move E i p atr tk owner value (int ?b) (int ?t) st)"
    using v by (simp add: tap_transfer_move_def Let_def keeps)
  ultimately show ?thesis by (simp add: tap_ok_def)
qed

lemma transfer_shielded_keeps:
  assumes ok: "tap_ok E0 st" and s: "slash_free (ti_addr atr)"
    and k: "or_zero (parse_i128 (ti_amt atr)) = int k" "k < 2 ^ 127"
  shows "tap_ok E0 (transfer_shielded E i atr tk owner st)"
proof -
  let ?s = "ti_addr atr"
  let ?b = "mon (tok st) (bal_key ?s tk)" and ?t = "mon (tok st) (trf_key ?s tk)"
  have l: "ledger (tok st)" and v: "all_rows (value_ok E0) st" using ok by (simp_all add: tap_ok_def)
  have tb: "?t \<le> ?b" using l s by (simp add: ledger_def)
  have small: "?t < 2 ^ 127" using ledger_reads(10) [OF l] money_max_bounds by blast
  have "i128 (int ?t - int k) = int ?t - int k" using small k(2) by (intro i128_id) auto
  then have e: "show_int (max 0 (i128 (int ?t - int k))) = show_nat (?t - k)"
    by (cases "k \<le> ?t") (auto simp: max_def show_int_diff)
  have g: "or_zero (parse_i128 x) = int ?t" if "get_string st (trf_key ?s tk) = Some x" for x
    using ledger_reads(8) [OF l that] small by simp
  have "ledger ((tok st)(trf_key ?s tk \<mapsto> VString (show_nat (?t - k))))"
    using tb by (intro ledger_set_trf [OF l s]) simp
  then have "ledger (tok (transfer_shielded E i atr tk owner st))"
    using l ledger_del_trf [OF l s] e g k(1)
    by (cases "get_string st (trf_key ?s tk)") (simp_all add: transfer_shielded_def Let_def tok_put tok_del)
  moreover have "all_rows (value_ok E0) (transfer_shielded E i atr tk owner st)"
    using v by (cases "get_string st (trf_key ?s tk)") (simp_all add: transfer_shielded_def Let_def keeps)
  ultimately show ?thesis by (simp add: tap_ok_def)
qed

lemma link_amount:
  assumes "\<exists>n. s = show_nat n"
  obtains k where "or_zero (parse_i128 s) = int k" "k < 2 ^ 127"
proof -
  have "0 \<le> or_zero (parse_i128 s)" "or_zero (parse_i128 s) < 2 ^ 127" using assms read_amount_range by auto
  then show thesis using that [of "nat (or_zero (parse_i128 s))"] by (simp add: nat_less_iff)
qed

lemma tap_ok_links [simp]: "tap_ok E0 st \<Longrightarrow> tap_ok E0 (drop_link E i st)" "tap_ok E0 st \<Longrightarrow> tap_ok E0 (clear_amount E i st)"
  by (simp_all add: tap_ok_def keeps)

lemma transfer_executed_keeps:
  assumes ok: "tap_ok E0 st" and o: "slash_free owner"
  shows "tap_ok E0 (index_token_transfer_executed E i p owner value st)"
proof (cases "transfer_link E i p st")
  case None
  with ok show ?thesis by (simp add: index_token_transfer_executed_def)
next
  case (Some r)
  obtain atr tk where r: "r = (atr, tk)" by fastforce
  have l: "ledger (tok st)" and v: "all_rows (value_ok E0) st" using ok by (simp_all add: tap_ok_def)
  note f = transfer_link_facts [OF Some [unfolded r] v]
  let ?s = "ti_addr atr"
  obtain k where k: "or_zero (parse_i128 (ti_amt atr)) = int k" "k < 2 ^ 127" using link_amount [OF f(2)] .
  have small: "mon (tok st) (bal_key ?s tk) < 2 ^ 127" "mon (tok st) (trf_key ?s tk) < 2 ^ 127"
    using ledger_reads(9,10) [OF l] money_max_bounds by blast+
  have del: "tap_ok E0 (tap_del (trf_key ?s tk) st)"
    using ledger_del_trf [OF l f(1)] v by (simp add: tap_ok_def tok_del keeps)
  have mv: "tap_ok E0 (tap_transfer_move E i p atr tk owner value (or_zero (parse_i128 x)) (or_zero (parse_i128 y)) st)"
    if "get_string st (bal_key ?s tk) = Some x" "get_string st (trf_key ?s tk) = Some y" for x y
    using tap_transfer_move_keeps [OF ok f(1) o k, of E i p tk "value"] ledger_reads(7) [OF l that(1)] ledger_reads(8) [OF l that(2)]
      small by simp
  show ?thesis
    using Some r transfer_shielded_keeps [OF ok f(1) k, of E i tk owner] del mv ok
    by (cases "get_string st (bal_key ?s tk)"; cases "get_string st (trf_key ?s tk)")
      (simp_all add: index_token_transfer_executed_def Let_def)
qed

section \<open>Spending\<close>

text \<open>What the handlers of sends and trades compute to see whether an account can spend: no step wraps.\<close>

lemma spend_check:
  assumes "b \<le> int money_max" "0 \<le> b" "n \<le> int money_max" "0 \<le> n" "t \<le> int money_max" "0 \<le> t"
    and "l \<le> int money_max" "0 \<le> l" "h \<le> int money_max" "0 \<le> h"
  shows "i128 (b - n) = b - n" and "i128 (b - n - t) = b - n - t" and "i128 (b - n - t - l) = b - n - t - l"
    and "i128 (b - n - t - l - h) = b - n - t - l - h"
  using assms by (auto intro!: i128_id simp: money_max_def)

lemma i128_money: "n \<le> money_max \<Longrightarrow> i128 (int n) = int n"
  using money_max_bounds [of n] by (intro i128_id) auto

section \<open>Sends\<close>

lemma tok_send_one:
  assumes ok: "tap_ok E0 st" and f: "slash_free x" and t: "slash_free y"
  shows "tok (exec_internal_send_one E x y tick amt_val dta ins num p value st) = tok st \<or>
    (\<exists>tk n. x \<noteq> y \<and> n + mon (tok st) (trf_key x tk) \<le> mon (tok st) (bal_key x tk) \<and>
      tok (exec_internal_send_one E x y tick amt_val dta ins num p value st) = move x y tk n (tok st))"
proof -
  have l: "ledger (tok st)" and v: "all_rows (value_ok E0) st" using ok by (simp_all add: tap_ok_def)
  let ?tk = "json_stringify_lower E tick"
  let ?b = "mon (tok st) (bal_key x ?tk)" and ?c = "mon (tok st) (bal_key y ?tk)" and ?t = "mon (tok st) (trf_key x ?tk)"
  show ?thesis
  proof (cases "get_deploy st (deploy_key ?tk)")
    case None
    then show ?thesis by (simp add: exec_internal_send_one_def)
  next
    case (Some d)
    have dec: "dr_dec d \<le> 18" using values_get(1) [OF v Some] .
    show ?thesis
    proof (cases "Option.bind (resolve_number_string (js_value_to_string E amt_val) (dr_dec d)) parse_i128")
      case None
      with Some show ?thesis by (simp add: exec_internal_send_one_def)
    next
      case am: (Some amount)
      show ?thesis
      proof (cases "amount \<le> 0 \<or> int (cap_units (dr_dec d)) < amount \<or> x = y")
        case True
        then show ?thesis
          by (elim disjE) (use Some am in \<open>simp_all add: exec_internal_send_one_def cap_reads(2) [OF dec] Let_def\<close>)
      next
        case False
        then obtain n where n: "amount = int n" "n \<le> cap_units (dr_dec d)" using resolve_i128 [OF am] by auto
        have nm: "n \<le> money_max" using n(2) cap_units_bound [OF dec] by simp
        let ?l = "tap_get_locked_amount E st x ?tk" and ?o = "tap_get_account_obligation_locked_amount E st x ?tk"
        note c = spend_check [of "int ?b" "int n" "int ?t" ?l ?o]
        define fail where "fail \<longleftrightarrow> int ?b - int n - int ?t - ?l < ?o"
        have le: "n + ?t \<le> ?b" if "\<not> fail" using that locked_reads [OF l, of E x ?tk] by (simp add: fail_def)
        then have "?c + n \<le> money_max" if "\<not> fail" using move_bound [OF l f t, of n ?tk] False that by simp
        then have "show_int (i128 (int ?c + int n)) = show_nat (?c + n)" if "\<not> fail"
          using i128_money [of "?c + n"] that by simp
        moreover have "show_int (int ?b - int n) = show_nat (?b - n)" if "\<not> fail" using le that by (simp add: show_int_diff)
        ultimately have "tok (exec_internal_send_one E x y tick amt_val dta ins num p value st) =
            (if fail then tok st else move x y ?tk n (tok st))"
          using Some am False n(1)
          by (simp add: exec_internal_send_one_def cap_reads(2) [OF dec] Let_def ledger_reads(3,4,9,10) [OF l] locked_reads [OF l] nm c
              fail_def [symmetric] tok_put move_def)
        with le False show ?thesis by (cases fail) auto
      qed
    qed
  qed
qed

lemma send_one_keeps:
  assumes ok: "tap_ok E0 st" and f: "slash_free x" and t: "slash_free y"
  shows "tap_ok E0 (exec_internal_send_one E x y tick amt_val dta ins num p value st)"
proof -
  have l: "ledger (tok st)" and v: "all_rows (value_ok E0) st" using ok by (simp_all add: tap_ok_def)
  have "ledger (tok (exec_internal_send_one E x y tick amt_val dta ins num p value st))"
    using tok_send_one [OF assms, of E tick amt_val dta ins num p "value"] ledger_move [OF l f t] l by metis
  moreover have "all_rows (value_ok E0) (exec_internal_send_one E x y tick amt_val dta ins num p value st)"
    using v by (simp add: exec_internal_send_one_def Let_def keeps split: option.split)
  ultimately show ?thesis by (simp add: tap_ok_def)
qed

section \<open>The libraries\<close>

text \<open>
  What the argument relies on: an address that Base58Check decodes has no slash, and lower case leaves
  lower-case ASCII alone. The libraries do not change from block to block.
\<close>

definition env_ok :: "'f tap_env \<Rightarrow> bool" where
  "env_ok E \<longleftrightarrow>
    (\<forall>s payload. te_base58check E s = Some payload \<longrightarrow> slash_free s) \<and>
    (\<forall>s. list_all (\<lambda>c. c < 65 \<or> 90 < c \<and> c < 128) s \<longrightarrow> te_lower E s = s)"

definition at_block :: "'f tap_env \<Rightarrow> u32 \<Rightarrow> u32 \<Rightarrow> 'f tap_env" where
  "at_block E h t = E\<lparr>te_height := h, te_timestamp := t\<rparr>"

lemma at_block_libraries [simp]:
  "te_lower (at_block E h t) = te_lower E" "te_base58check (at_block E h t) = te_base58check E"
  by (simp_all add: at_block_def)

lemma env_ok_lower:
  assumes "env_ok E"
  shows "te_lower E (str ''token-send'') = str ''token-send''" and "te_lower E (str ''token-trade'') = str ''token-trade''"
    and "te_lower E (str ''block-transferables'') = str ''block-transferables''"
    and "te_lower E (str ''unblock-transferables'') = str ''unblock-transferables''"
  using assms by (simp_all add: env_ok_def str_def)

lemma js_value_to_string_at_block [simp]: "js_value_to_string (at_block E h t) v = js_value_to_string E v"
proof (induction v rule: js_value_to_string.induct [of _ E])
  case (6 E items)
  then have "map (\<lambda>item. if item = TNull then [] else js_value_to_string (at_block E h t) item) items =
      map (\<lambda>item. if item = TNull then [] else js_value_to_string E item) items"
    by (intro map_cong) auto
  then show ?case by (simp only: js_value_to_string.simps)
qed (simp_all add: at_block_def)

lemma trade_side_at_block [simp]: "trade_side (at_block E h t) = trade_side E"
proof -
  have "js_parse_int (at_block E h t) = js_parse_int E"
    by (simp add: fun_eq_iff js_parse_int_def js_parse_int_with_string_def)
  then show ?thesis by (intro ext) (simp only: trade_side_def)
qed

lemma trim_keeps_slash: "slash_free (trim_js_whitespace s) \<Longrightarrow> slash_free s"
proof -
  have d: "47 \<in> set s \<Longrightarrow> 47 \<in> set (dropWhile is_js_whitespace s)" for s
    by (induction s) (auto simp: is_js_whitespace_def)
  show "slash_free (trim_js_whitespace s) \<Longrightarrow> slash_free s"
    using d [of s] d [of "rev (dropWhile is_js_whitespace s)"] by (auto simp: trim_js_whitespace_def)
qed

lemma valid_address_slash_free: "env_ok E \<Longrightarrow> is_valid_bitcoin_address E a \<Longrightarrow> slash_free a"
  by (rule trim_keeps_slash)
    (auto simp: is_valid_bitcoin_address_def doge_address_version_def env_ok_def bind_eq_Some_conv split: option.splits)

lemma env_ok_at_block [simp]: "env_ok (at_block E h t) = env_ok E"
  by (simp add: env_ok_def)

lemma tj_get_set: "tj_get (tj_set k v j) k' = (if k' = k then map_option (\<lambda>_. v) (tj_get j k) else tj_get j k')"
proof (cases j)
  case (TObject m)
  have "map_of (map (\<lambda>(k', v'). if k' = k then (k', v) else (k', v')) m) k' =
      (if k' = k then map_option (\<lambda>_. v) (map_of m k) else map_of m k')"
    by (induction m) auto
  with TObject show ?thesis by (simp add: tj_get_def tj_set_def)
qed (simp_all add: tj_get_def tj_set_def)

lemma those_set: "those xs = Some ys \<Longrightarrow> y \<in> set ys \<Longrightarrow> Some y \<in> set xs"
  by (induction xs arbitrary: ys) (auto split: option.splits)

lemma send_item_address:
  assumes "env_ok E" "send_item E it = Some it'" "get_str it' (str ''address'') = Some a"
  shows "slash_free a"
  using assms(2,3) valid_address_slash_free [OF assms(1)]
  by (auto simp: send_item_def Let_def bind_eq_Some_conv get_str_def tj_get_set tj_str_def split: if_splits)

lemma send_created_keeps:
  assumes "env_ok E0" "tap_ok E0 st"
  shows "tap_ok E0 (index_token_send_created (at_block E0 h t) i number p payload owner st)"
proof -
  let ?E = "at_block E0 h t"
  have acc: "acc_ok E0 (accumulator_of ?E i number p owner (str ''token-send'') (tj_set (str ''items'') (TArray items) v) None)"
    if "those (map (send_item ?E) items0) = Some items" for items0 items v
  proof -
    have "slash_free a" if item: "item \<in> set items" "get_str item (str ''address'') = Some a" for item a
    proof -
      from those_set [OF \<open>those _ = _\<close> item(1)] obtain it where "send_item ?E it = Some item" by auto
      from send_item_address [OF _ this item(2)] assms(1) show ?thesis by simp
    qed
    moreover have "str ''token-send'' \<noteq> str ''token-trade''" by (simp add: str_def)
    ultimately show ?thesis
      using env_ok_lower(1) [OF assms(1)]
      by (auto simp: acc_ok_def accumulator_of_def tj_get_set tj_array_def bind_eq_Some_conv)
  qed
  with assms(2) show ?thesis
    by (auto simp: index_token_send_created_def tap_ok_def keeps split: option.split)
qed

lemma accumulator_for_facts:
  assumes "accumulator_for E i p owner op st = Some acc" "all_rows (value_ok E0) st"
  shows "acc_ok E0 acc" and "ac_addr acc = owner" and "te_lower E (ac_op acc) = op"
  using assms values_get(4) [OF assms(2)] by (auto simp: accumulator_for_def bind_eq_Some_conv split: if_splits)

lemma del_log_keeps: "tap_ok E0 st \<Longrightarrow> key_seg k \<notin> token_segs \<Longrightarrow> tap_ok E0 (tap_del k st)"
  by (simp add: tap_ok_def tok_del keeps)

lemma put_log_keeps: "tap_ok E0 st \<Longrightarrow> key_seg k \<notin> token_segs \<Longrightarrow> value_ok E0 v \<Longrightarrow> tap_ok E0 (tap_put k v st)"
  by (simp add: tap_ok_def tok_put keeps)

lemma send_executed_keeps:
  assumes ok: "tap_ok E0 st" and o: "slash_free owner"
  shows "tap_ok E0 (index_token_send_executed (at_block E0 h t) i p owner value st)"
proof (cases "accumulator_for (at_block E0 h t) i p owner (str ''token-send'') st")
  case None
  with ok show ?thesis by (simp add: index_token_send_executed_def)
next
  case (Some acc)
  have v: "all_rows (value_ok E0) st" using ok by (simp add: tap_ok_def)
  note f = accumulator_for_facts [OF Some v]
  have items: "tap_ok E0 (fold (send_executed_item (at_block E0 h t) owner ins n p value) items s)"
    if "tap_ok E0 s" "\<forall>item\<in>set items. \<forall>a. get_str item (str ''address'') = Some a \<longrightarrow> slash_free a" for items s ins n
    using that
  proof (induction items arbitrary: s)
    case (Cons item items)
    have "tap_ok E0 (send_executed_item (at_block E0 h t) owner ins n p value item s)"
      using Cons.prems send_one_keeps [OF _ o] by (auto simp: send_executed_item_def split: option.split)
    with Cons show ?case by simp
  qed simp
  have "\<forall>item\<in>set items. \<forall>a. get_str item (str ''address'') = Some a \<longrightarrow> slash_free a"
    if "Option.bind (tj_get (ac_json acc) (str ''items'')) tj_array = Some items" for items
    using f(1,3) that by (auto simp: acc_ok_def)
  with Some ok show ?thesis
    by (auto simp: index_token_send_executed_def Let_def intro!: del_log_keeps items split: option.split)
qed

section \<open>Blocking\<close>

lemma block_keeps:
  assumes "env_ok E0" "tap_ok E0 st"
  shows "tap_ok E0 (index_block_transferables_created (at_block E0 h t) i number p payload owner value st)"
    and "tap_ok E0 (index_unblock_transferables_created (at_block E0 h t) i number p payload owner value st)"
    and "tap_ok E0 (index_block_transferables_executed (at_block E0 h t) i p owner st)"
    and "tap_ok E0 (index_unblock_transferables_executed (at_block E0 h t) i p owner st)"
proof -
  have "acc_ok E0 (accumulator_of E i number p owner op v val)"
    if "op = str ''block-transferables'' \<or> op = str ''unblock-transferables''" for E op v val
    using that env_ok_lower [OF assms(1)] by (auto simp: acc_ok_def accumulator_of_def str_def)
  then have "tap_ok E0 (block_created E op i number p payload owner value st)"
    if "op = str ''block-transferables'' \<or> op = str ''unblock-transferables''" for E op
    using that assms(2) by (auto simp: block_created_def tap_ok_def keeps split: option.split)
  then show "tap_ok E0 (index_block_transferables_created (at_block E0 h t) i number p payload owner value st)"
    and "tap_ok E0 (index_unblock_transferables_created (at_block E0 h t) i number p payload owner value st)"
    by (simp_all add: index_block_transferables_created_def index_unblock_transferables_created_def)
  show "tap_ok E0 (index_block_transferables_executed (at_block E0 h t) i p owner st)"
    and "tap_ok E0 (index_unblock_transferables_executed (at_block E0 h t) i p owner st)"
    using assms(2)
    by (simp_all add: index_block_transferables_executed_def index_unblock_transferables_executed_def
        del_log_keeps put_log_keeps split: option.split)
qed

end
