(* ===== verification/Tap_Swap.thy ===== *)
theory Tap_Swap
  imports Tap_Steps
begin

text \<open>
  Trades and the ledger: creating, offering and cancelling a trade leave all money where it is, and a fill
  whose fee goes to neither side is two or three movements (\<open>traded\<close>). Where the two tickers are one, only
  the buyer's payment moves: what was offered stays with the seller.
\<close>

section \<open>Creation, offers and cancellations\<close>

lemma trade_fee_rcv_slash_free:
  assumes "env_ok E" "trade_json E number side v = Some v'" "trade_side E v' = Some 1" "trade_side E v = Some side"
    and "get_str v' (str ''fee_rcv'') = Some a"
  shows "slash_free a"
proof -
  have lits: "str ''side'' \<noteq> str ''fee_rcv''" "str ''side'' \<noteq> str ''tick''" "str ''fee_rcv'' \<noteq> str ''tick''"
      "str ''fee_rcv'' \<noteq> str ''side''"
    by (simp_all add: str_def)
  have side: "trade_side E v' = trade_side E v"
    using assms(2) lits
    by (auto simp: trade_json_def trade_offer_fields_def trade_fill_fields_def Let_def bind_eq_Some_conv trade_side_def
        tj_get_set split: if_splits option.splits)
  with assms(3,4) have s: "side = 1" by simp
  from assms(2) s obtain w where w: "trade_fill_fields E v = Some w" "get_str v' (str ''fee_rcv'') = get_str w (str ''fee_rcv'')"
    using lits by (auto simp: trade_json_def bind_eq_Some_conv get_str_def tj_get_set split: if_splits)
  with assms(5) have "get_str w (str ''fee_rcv'') = Some a" by simp
  with w(1) show ?thesis
    using valid_address_slash_free [OF assms(1)]
    by (auto simp: trade_fill_fields_def Let_def bind_eq_Some_conv get_str_def tj_get_set tj_str_def split: if_splits option.splits)
qed

lemma trade_created_keeps:
  assumes "env_ok E0" "tap_ok E0 st"
  shows "tap_ok E0 (index_token_trade_created (at_block E0 h t) i number p payload owner st)"
proof -
  let ?E = "at_block E0 h t"
  have "acc_ok E0 (accumulator_of ?E i number p owner (str ''token-trade'') v' None)"
    if "trade_json ?E number side v = Some v'" "trade_side E0 v = Some side" for v v' side
  proof -
    have "slash_free a" if "trade_side E0 v' = Some 1" "get_str v' (str ''fee_rcv'') = Some a" for a
      using trade_fee_rcv_slash_free [OF _ \<open>trade_json _ _ _ _ = _\<close>, of a] that \<open>trade_side E0 v = _\<close> assms(1) by simp
    moreover have "str ''token-trade'' \<noteq> str ''token-send''" by (simp add: str_def)
    ultimately show ?thesis
      using env_ok_lower(2) [OF assms(1)] by (auto simp: acc_ok_def accumulator_of_def)
  qed
  with assms(2) show ?thesis
    by (auto simp: index_token_trade_created_def tap_ok_def keeps split: option.split)
qed

lemma trade_cancel_keeps: "tap_ok E0 st \<Longrightarrow> tap_ok E0 (trade_cancel E acc trade st)"
  by (simp add: trade_cancel_def Let_def del_log_keeps split: option.split)

lemma capped_amount_bound:
  assumes "capped_amount s dec = Some amount" "dec \<le> 18"
  obtains n where "amount = int n" "n \<le> money_max"
proof -
  from assms(1) cap_reads(2) [OF assms(2)]
  have r: "Option.bind (resolve_number_string s dec) parse_i128 = Some amount" "amount \<le> int (cap_units dec)"
    by (auto simp: capped_amount_def bind_eq_Some_conv split: if_splits)
  then obtain n where n: "amount = int n" "n \<le> cap_units dec" by (rule resolve_i128)
  then have "n \<le> money_max" using cap_units_bound [OF assms(2)] by simp
  with n(1) show thesis by (rule that)
qed

lemma offer_accept_keeps:
  assumes "tap_ok E0 (snd s)" "value_ok E0 (VTradeOffer offer)"
  shows "tap_ok E0 (snd (offer_accept E i owner otk offer ac s))"
proof -
  obtain sgs st where s: "s = (sgs, st)" by fastforce
  have v: "value_ok E0 (VTradeOffer (offer\<lparr>of_atick := x, of_aamt := y\<rparr>))" for x y using assms(2) by simp
  show ?thesis
  proof (cases "accept_amount E st ac")
    case None
    with assms s show ?thesis by (simp add: offer_accept_def)
  next
    case (Some r)
    with assms s v show ?thesis
      by (cases r) (simp add: offer_accept_def Let_def case_prod_beta tap_ok_def tok_put keeps)
  qed
qed

lemma offer_accepts_keep:
  "tap_ok E0 (snd s) \<Longrightarrow> value_ok E0 (VTradeOffer offer) \<Longrightarrow>
    tap_ok E0 (snd (fold (offer_accept E i owner otk offer) accepts s))"
  by (induction accepts arbitrary: s) (simp_all add: offer_accept_keeps)

lemma trade_offer_keeps:
  assumes ok: "tap_ok E0 st" and o: "slash_free owner" and acc: "acc_ok E0 acc"
  shows "tap_ok E0 (trade_offer_executed E i p owner value acc st)"
proof -
  have v: "all_rows (value_ok E0) st" using ok by (simp add: tap_ok_def)
  have amt: "\<exists>n \<le> money_max. show_int amount = show_nat n"
    if "get_deploy st k = Some d" "capped_amount s (dr_dec d) = Some amount" for k d s amount
    using capped_amount_bound [OF that(2) values_get(1) [OF v that(1)]] by (metis show_int_of_nat)
  show ?thesis
    using ok o acc
    by (auto simp: trade_offer_executed_def Let_def intro!: offer_accepts_keep put_log_keeps split: option.split dest: amt)
qed

section \<open>Fills\<close>

lemma trade_fill_facts:
  assumes "trade_fill_of E acc st = Some q" "all_rows (value_ok E0) st"
  shows "slash_free (of_addr (fl_offer q))" and "\<exists>n \<le> money_max. of_amt (fl_offer q) = show_nat n"
    and "of_addr (fl_offer q) \<noteq> ac_addr acc" and "\<exists>n \<le> money_max. 0 < n \<and> fl_accepted_amount q = int n"
    and "fl_fee_rcv q = get_str (ac_json acc) (str ''fee_rcv'')"
proof -
  from assms(1) obtain k d ptr where d: "get_deploy st k = Some d" and o: "get_offer st ptr = Some (fl_offer q)"
    and a: "of_addr (fl_offer q) \<noteq> ac_addr acc"
      "Option.bind (resolve_number_string (amt_text E (ac_json acc)) (dr_dec d)) parse_i128 = Some (fl_accepted_amount q)"
      "\<exists>mx. Option.bind (resolve_number_string MAX_DEC_U64_STR (dr_dec d)) parse_i128 = Some mx \<and> fl_accepted_amount q \<le> mx"
      "0 < fl_accepted_amount q" "fl_fee_rcv q = get_str (ac_json acc) (str ''fee_rcv'')"
    by (fastforce simp: trade_fill_of_def Let_def bind_eq_Some_conv split: if_splits)
  show "of_addr (fl_offer q) \<noteq> ac_addr acc" "fl_fee_rcv q = get_str (ac_json acc) (str ''fee_rcv'')" by (fact a)+
  show "slash_free (of_addr (fl_offer q))" "\<exists>n \<le> money_max. of_amt (fl_offer q) = show_nat n"
    using values_get(3) [OF assms(2) o] by blast+
  have dec: "dr_dec d \<le> 18" using values_get(1) [OF assms(2) d] .
  with a(3) have "fl_accepted_amount q \<le> int (cap_units (dr_dec d))" using cap_reads(2) [OF dec] by auto
  then obtain n where "fl_accepted_amount q = int n" "n \<le> cap_units (dr_dec d)" using resolve_i128 [OF a(2)] by blast
  with a(4) cap_units_bound [OF dec] show "\<exists>n \<le> money_max. 0 < n \<and> fl_accepted_amount q = int n"
    by (intro exI [of _ n]) auto
qed

lemma trade_fee_nat: "\<exists>f \<le> n. trade_fee (int n) = int f"
proof -
  have "trade_fee (int n) = int (n div 10000 * 30 + n mod 10000 * 30 div 10000)" by (simp add: trade_fee_def zdiv_int zmod_int)
  moreover have "n mod 10000 * 30 div 10000 \<le> n mod 10000 * 10000 div 10000" by (intro div_le_mono) simp
  then have "n div 10000 * 30 + n mod 10000 * 30 div 10000 \<le> n div 10000 * 10000 + n mod 10000" by simp
  then have "n div 10000 * 30 + n mod 10000 * 30 div 10000 \<le> n" by simp
  ultimately show ?thesis by blast
qed

lemma buy_check:
  assumes "b \<le> int money_max" "0 \<le> b" "n \<le> int money_max" "0 \<le> n" "f \<le> int money_max" "0 \<le> f"
    and "t \<le> int money_max" "0 \<le> t" "l \<le> int money_max" "0 \<le> l" "h \<le> int money_max" "0 \<le> h"
  shows "i128 (b - n) = b - n" and "i128 (b - n - f) = b - n - f" and "i128 (b - n - f - t) = b - n - f - t"
    and "i128 (b - n - f - t - l) = b - n - f - t - l" and "i128 (b - n - f - t - l - h) = b - n - f - t - l - h"
  using assms by (auto intro!: i128_id simp: money_max_def)

text \<open>
  The movements of a fill. Where both tickers are one, the writes of the second leg overwrite those of
  the first, and what was offered does not move.
\<close>

definition traded ::
  "rchar list \<Rightarrow> rchar list \<Rightarrow> rchar list \<Rightarrow> nat \<Rightarrow> rchar list \<Rightarrow> nat \<Rightarrow> rchar list option \<Rightarrow> nat \<Rightarrow> 'f rows \<Rightarrow> 'f rows" where
  "traded seller buyer off n ack k rcv f m =
    (let m' = move buyer seller ack k (if off = ack then m else move seller buyer off n m)
     in case rcv of None \<Rightarrow> m' | Some r \<Rightarrow> move buyer r ack f m')"

lemma mon_move:
  assumes "ledger m" "slash_free x" "slash_free y" "x \<noteq> y" "n \<le> mon m (bal_key x tk)"
  shows "slash_free a \<Longrightarrow> mon (move x y tk n m) (bal_key a tk') =
      (if tk' = tk \<and> a = y then mon m (bal_key y tk) + n else if tk' = tk \<and> a = x then mon m (bal_key x tk) - n
       else mon m (bal_key a tk'))"
    and "mon (move x y tk n m) (trf_key a tk') = mon m (trf_key a tk')"
proof -
  have "mon m (bal_key y tk) + n \<le> u128_max" "mon m (bal_key x tk) - n \<le> u128_max"
    using move_bound [OF assms] money_max_bounds num_row_mon [of m "bal_key x tk"] assms(1) by (auto intro: le_trans)
  then show "slash_free a \<Longrightarrow> mon (move x y tk n m) (bal_key a tk') =
      (if tk' = tk \<and> a = y then mon m (bal_key y tk) + n else if tk' = tk \<and> a = x then mon m (bal_key x tk) - n
       else mon m (bal_key a tk'))"
    using assms(2-4) by (auto simp: move_def bal_key_inj)
  show "mon (move x y tk n m) (trf_key a tk') = mon m (trf_key a tk')" by (simp add: move_def)
qed

lemma ledger_traded:
  assumes m: "ledger m" and sf: "slash_free s" "slash_free b" "s \<noteq> b"
    and r: "\<And>r. rcv = Some r \<Longrightarrow> slash_free r \<and> r \<noteq> b" and f: "rcv = None \<Longrightarrow> f = 0"
    and n: "n + mon m (trf_key s off) \<le> mon m (bal_key s off)"
    and k: "k + f + mon m (trf_key b ack) \<le> mon m (bal_key b ack)"
  shows "ledger (traded s b off n ack k rcv f m)"
proof -
  let ?m1 = "if off = ack then m else move s b off n m"
  let ?m2 = "move b s ack k ?m1"
  have n': "n \<le> mon m (bal_key s off)" using n by simp
  have l1: "ledger ?m1" using m ledger_move [OF m sf n] by simp
  have b1: "mon ?m1 (bal_key b ack) = mon m (bal_key b ack)" using mon_move(1) [OF m sf n' sf(2), of ack] by simp
  have mon1: "mon ?m1 (trf_key b ack) = mon m (trf_key b ack)" using mon_move(2) [OF m sf n'] by simp
  have k': "k \<le> mon ?m1 (bal_key b ack)" using k b1 by simp
  have l2: "ledger ?m2" by (rule ledger_move [OF l1 sf(2,1) sf(3) [symmetric]]) (use k b1 mon1 in simp)
  note mon2 = mon_move [OF l1 sf(2,1) sf(3) [symmetric] k']
  have "mon ?m2 (bal_key b ack) = mon m (bal_key b ack) - k" using mon2(1) [OF sf(2), of ack] sf(3) b1 by simp
  then have "f + mon ?m2 (trf_key b ack) \<le> mon ?m2 (bal_key b ack)" using k mon1 mon2(2) by simp
  from ledger_move [OF l2 sf(2) _ _ this] have "ledger (move b x ack f ?m2)" if "rcv = Some x" for x
    using r [OF that] by blast
  with l2 show ?thesis by (cases rcv) (simp_all add: traded_def del: if_split)
qed

lemma trade_logs [simp]:
  "tok (trade_leg E i p value num fail x y tk l amt trf bal tbal st) = tok st"
  "tok (trade_records E i p value num fail q buyer fee st) = tok st"
  by (simp_all add: trade_leg_def trade_records_def Let_def case_prod_beta)

lemma trade_logs_keep [keeps]:
  assumes "all_rows (value_ok E0) st"
  shows "all_rows (value_ok E0) (trade_leg E i p value num fail x y tk l amt trf bal tbal st)"
    and "all_rows (value_ok E0) (trade_records E i p value num fail q buyer fee st)"
    and "all_rows (value_ok E0) (trade_balances E q buyer oa fee a b c d e st)"
  using assms by (simp_all add: trade_leg_def trade_records_def trade_balances_def Let_def case_prod_beta keeps split: option.split)

lemma tok_fill:
  "tok (trade_fill_executed E i p value acc q st) =
    (if trade_fails E q (ac_addr acc) st then tok st
     else tok (trade_balances E q (ac_addr acc) (or_zero (parse_i128 (of_amt (fl_offer q)))) (fill_fee q)
       (or_zero (read_i128 st (bal_key (of_addr (fl_offer q)) (json_stringify_lower E (of_tick (fl_offer q))))))
       (or_zero (read_i128 st (bal_key (ac_addr acc) (json_stringify_lower E (of_tick (fl_offer q))))))
       (or_zero (read_i128 st (bal_key (ac_addr acc) (fl_accepted_tick_key q))))
       (or_zero (read_i128 st (bal_key (of_addr (fl_offer q)) (fl_accepted_tick_key q))))
       (or_zero (read_i128 st (bal_key (case fl_fee_rcv q of Some r \<Rightarrow> r | None \<Rightarrow> []) (fl_accepted_tick_key q)))) st))"
  by (simp add: trade_fill_executed_def Let_def tok_del)

text \<open>A fill is sound when its fee goes to neither side.\<close>

definition sound_fill :: "'f accumulator \<Rightarrow> trade_fill \<Rightarrow> bool" where
  "sound_fill acc q \<longleftrightarrow>
    fl_fee_rcv q \<noteq> Some (ac_addr acc) \<and> fl_fee_rcv q \<noteq> Some (of_addr (fl_offer q))"

lemma fill_pays:
  assumes l: "ledger (tok st)" and n: "of_amt (fl_offer q) = show_nat n" "n \<le> money_max"
    and k: "fl_accepted_amount q = int k" "k \<le> money_max" and f: "fill_fee q = int f" "f \<le> k"
    and ok: "\<not> trade_fails E q buyer st"
  defines "off \<equiv> json_stringify_lower E (of_tick (fl_offer q))" and "seller \<equiv> of_addr (fl_offer q)"
  shows "n + mon (tok st) (trf_key seller off) \<le> mon (tok st) (bal_key seller off)"
    and "k + f + mon (tok st) (trf_key buyer (fl_accepted_tick_key q)) \<le> mon (tok st) (bal_key buyer (fl_accepted_tick_key q))"
proof -
  have p: "or_zero (parse_i128 (show_nat n)) = int n" using money_max_bounds [OF n(2)] by simp
  have fm: "f \<le> money_max" using f(2) k(2) by simp
  let ?ak = "fl_accepted_tick_key q"
  note c = spend_check [of "int (mon (tok st) (bal_key seller off))" "int n" "int (mon (tok st) (trf_key seller off))"
      "tap_get_locked_amount E st seller off" "tap_get_account_obligation_locked_amount E st seller off"]
  note d = buy_check [of "int (mon (tok st) (bal_key buyer ?ak))" "int k" "int f" "int (mon (tok st) (trf_key buyer ?ak))"
      "tap_get_locked_amount E st buyer ?ak" "tap_get_account_obligation_locked_amount E st buyer ?ak"]
  note r = ledger_reads(9,10) [OF l] locked_reads [OF l]
  have "int n + int (mon (tok st) (trf_key seller off)) + tap_get_locked_amount E st seller off +
      tap_get_account_obligation_locked_amount E st seller off \<le> int (mon (tok st) (bal_key seller off))"
    and "int k + int f + int (mon (tok st) (trf_key buyer ?ak)) + tap_get_locked_amount E st buyer ?ak +
      tap_get_account_obligation_locked_amount E st buyer ?ak \<le> int (mon (tok st) (bal_key buyer ?ak))"
    using ok unfolding trade_fails_def Let_def n(1) p k(1) f(1) ledger_reads(3,4) [OF l] off_def [symmetric] seller_def [symmetric]
    by (simp_all add: c d r n(2) k(2) fm)
  then show "n + mon (tok st) (trf_key seller off) \<le> mon (tok st) (bal_key seller off)"
    and "k + f + mon (tok st) (trf_key buyer ?ak) \<le> mon (tok st) (bal_key buyer ?ak)"
    using r(3,4) [of E seller off] r(3,4) [of E buyer ?ak] by linarith+
qed

lemma tok_trade_balances:
  fixes E :: "'f tap_env" and st :: "'f tap_store"
  assumes l: "ledger (tok st)" and sf: "slash_free (of_addr (fl_offer q))" "slash_free buyer" "of_addr (fl_offer q) \<noteq> buyer"
    and r: "\<And>r. fl_fee_rcv q = Some r \<Longrightarrow> slash_free r \<and> r \<noteq> buyer \<and> r \<noteq> of_addr (fl_offer q)"
    and k: "fl_accepted_amount q = int k"
  defines "off \<equiv> json_stringify_lower E (of_tick (fl_offer q))" and "seller \<equiv> of_addr (fl_offer q)"
    and "ack \<equiv> fl_accepted_tick_key q"
  assumes nt: "n + mon (tok st) (trf_key seller off) \<le> mon (tok st) (bal_key seller off)"
    and kf: "k + f \<le> mon (tok st) (bal_key buyer ack)"
    and f0: "fl_fee_rcv q = None \<Longrightarrow> f = 0"
  shows "tok (trade_balances E q buyer (int n) (int f) (int (mon (tok st) (bal_key seller off)))
      (int (mon (tok st) (bal_key buyer off))) (int (mon (tok st) (bal_key buyer ack)))
      (int (mon (tok st) (bal_key seller ack)))
      (int (mon (tok st) (bal_key (case fl_fee_rcv q of Some r \<Rightarrow> r | None \<Rightarrow> []) ack))) st) =
    traded seller buyer off n ack k (fl_fee_rcv q) f (tok st)"
proof -
  let ?M = "\<lambda>a tk. mon (tok st) (bal_key a tk)"
  note s = sf [folded seller_def]
  have n: "n \<le> ?M seller off" using nt by simp
  have up: "show_int (i128 (int (?M y tk) + int j)) = show_nat (?M y tk + j)"
    if "slash_free x" "slash_free y" "x \<noteq> y" "j \<le> ?M x tk" for x y tk j
    using i128_money [OF move_bound [OF l that]] by simp
  have down: "i128 (int (?M x tk) - int j) = int (?M x tk - j)" if "j \<le> ?M x tk" for x tk j
    using that i128_money [of "?M x tk - j"] ledger_reads(9) [OF l, of x tk] by (simp add: of_nat_diff)
  have bk: "k \<le> ?M buyer ack" "f \<le> ?M buyer ack - k" using kf by simp_all
  have b2: "i128 (int (?M buyer ack - k) - int f) = int (?M buyer ack - k - f)"
    using i128_money [of "?M buyer ack - k - f"] ledger_reads(9) [OF l, of buyer ack] bk(2)
    by (simp only: of_nat_diff [symmetric])
  let ?m1 = "if off = ack then tok st else move seller buyer off n (tok st)"
  have l1: "ledger ?m1" using l ledger_move [OF l s nt] by simp
  have m1: "mon ?m1 (bal_key a ack) = ?M a ack" if "slash_free a" for a
    using mon_move(1) [OF l s n that, of ack] by simp
  let ?m2 = "move buyer seller ack k ?m1"
  have m2': "?m2 = (tok st)(bal_key buyer off \<mapsto> VString (show_nat (?M buyer off + n)),
      bal_key seller off \<mapsto> VString (show_nat (?M seller off - n)),
      bal_key seller ack \<mapsto> VString (show_nat (?M seller ack + k)),
      bal_key buyer ack \<mapsto> VString (show_nat (?M buyer ack - k)))"
    using s m1 by (cases "off = ack") (auto simp: move_def bal_key_inj fun_eq_iff)
  have kb: "k \<le> mon ?m1 (bal_key buyer ack)" using bk(1) m1 [OF s(2)] by simp
  have m2: "mon ?m2 (bal_key a ack) = (if a = buyer then ?M buyer ack - k else ?M a ack)" if "slash_free a" "a \<noteq> seller" for a
  proof -
    from mon_move(1) [OF l1 s(2,1) s(3) [symmetric] kb that(1), of ack] that m1 s(2) show ?thesis by simp
  qed
  show ?thesis
  proof (cases "fl_fee_rcv q")
    case None
    then show ?thesis
      using up [OF s n] down [OF n] up [OF s(2,1) s(3) [symmetric] bk(1)] down [OF bk(1)] b2 f0
      unfolding traded_def Let_def unfolding m2'
      by (simp add: trade_balances_def Let_def k tok_put off_def ack_def seller_def)
  next
    case (Some x)
    then have x: "slash_free x" "x \<noteq> buyer" "x \<noteq> seller" using r by (simp_all add: seller_def)
    have "f \<le> ?M buyer ack" using kf by simp
    then have fee: "show_int (i128 (int (?M x ack) + int f)) = show_nat (?M x ack + f)" using up [OF s(2) x(1)] x(2) by simp
    have m3: "move buyer x ack f ?m2 = ?m2(bal_key buyer ack \<mapsto> VString (show_nat (?M buyer ack - k - f)),
        bal_key x ack \<mapsto> VString (show_nat (?M x ack + f)))"
      using m2 [of buyer] m2 [of x] s x by (simp add: move_def [of buyer x])
    show ?thesis
      using up [OF s n] down [OF n] up [OF s(2,1) s(3) [symmetric] bk(1)] down [OF bk(1)] b2 Some fee
      unfolding traded_def Let_def Some option.case unfolding m3 unfolding m2'
      by (simp add: trade_balances_def Let_def Some k tok_put off_def ack_def seller_def)
  qed
qed

lemma trade_fill_keeps:
  assumes ok: "tap_ok E0 st" and b: "slash_free (ac_addr acc)" and acc: "acc_ok E0 acc"
    and tr: "te_lower E0 (ac_op acc) = str ''token-trade''" "trade_side E0 (ac_json acc) = Some 1"
    and q: "trade_fill_of E acc st = Some q" and sound: "sound_fill acc q"
  shows "tap_ok E0 (trade_fill_executed E i p value acc q st)"
proof -
  have l: "ledger (tok st)" and v: "all_rows (value_ok E0) st" using ok by (simp_all add: tap_ok_def)
  note f = trade_fill_facts [OF q v]
  let ?s = "of_addr (fl_offer q)" and ?b = "ac_addr acc" and ?off = "json_stringify_lower E (of_tick (fl_offer q))"
  let ?ak = "fl_accepted_tick_key q" and ?st = "trade_fill_executed E i p value acc q st"
  obtain n where n: "of_amt (fl_offer q) = show_nat n" "n \<le> money_max" using f(2) by blast
  obtain k where k: "fl_accepted_amount q = int k" "k \<le> money_max" using f(4) by blast
  obtain fe where fe: "fill_fee q = int fe" "fe \<le> k" "fl_fee_rcv q = None \<Longrightarrow> fe = 0"
    using trade_fee_nat [of k] k(1) by (cases "fl_fee_rcv q") (auto simp: fill_fee_def)
  have r: "slash_free r \<and> r \<noteq> ?b \<and> r \<noteq> ?s" if "fl_fee_rcv q = Some r" for r
    using that acc tr f(5) sound by (auto simp: acc_ok_def sound_fill_def)
  have on: "or_zero (parse_i128 (show_nat n)) = int n" using money_max_bounds [OF n(2)] by simp
  have "ledger (tok ?st)"
  proof (cases "trade_fails E q ?b st")
    case True
    with l show ?thesis by (simp add: tok_fill)
  next
    case False
    note pays = fill_pays [OF l n k fe(1,2) False]
    have kf: "k + fe \<le> mon (tok st) (bal_key ?b ?ak)" using pays(2) by simp
    have "tok ?st = traded ?s ?b ?off n ?ak k (fl_fee_rcv q) fe (tok st)"
      using False tok_trade_balances [OF l f(1) b f(3) r k(1) pays(1) kf fe(3)]
      by (simp add: tok_fill ledger_reads(3) [OF l] n(1) on fe(1))
    moreover have "ledger (traded ?s ?b ?off n ?ak k (fl_fee_rcv q) fe (tok st))"
      using r fe(3) by (intro ledger_traded [OF l f(1) b f(3) _ _ pays]) auto
    ultimately show ?thesis by simp
  qed
  moreover have "all_rows (value_ok E0) ?st"
    using v by (simp add: trade_fill_executed_def Let_def keeps)
  ultimately show ?thesis by (simp add: tap_ok_def)
qed

text \<open>The fill that a moved trade inscription executes, if any.\<close>

definition executed_fill ::
  "'f tap_env \<Rightarrow> inscription_id \<Rightarrow> sat_point \<Rightarrow> rchar list \<Rightarrow> 'f tap_store \<Rightarrow> ('f accumulator \<times> trade_fill) option" where
  "executed_fill E i p owner st =
    Option.bind (accumulator_for E i p owner (str ''token-trade'') st) (\<lambda>acc.
    if trade_side E (ac_json acc) = Some 1 then map_option (Pair acc) (trade_fill_of E acc st) else None)"

definition sound_trade :: "'f tap_env \<Rightarrow> inscription_id \<Rightarrow> sat_point \<Rightarrow> rchar list \<Rightarrow> 'f tap_store \<Rightarrow> bool" where
  "sound_trade E i p owner st \<longleftrightarrow>
    (case executed_fill E i p owner st of None \<Rightarrow> True | Some (acc, q) \<Rightarrow> sound_fill acc q)"

lemma trade_executed_keeps:
  assumes ok: "tap_ok E0 st" and o: "slash_free owner" and sound: "sound_trade (at_block E0 h t) i p owner st"
  shows "tap_ok E0 (index_token_trade_executed (at_block E0 h t) i p owner value st)"
proof (cases "accumulator_for (at_block E0 h t) i p owner (str ''token-trade'') st")
  case None
  with ok show ?thesis by (simp add: index_token_trade_executed_def)
next
  case (Some acc)
  let ?E = "at_block E0 h t"
  have v: "all_rows (value_ok E0) st" using ok by (simp add: tap_ok_def)
  note f = accumulator_for_facts [OF Some v]
  have fill: "tap_ok E0 (trade_fill_executed ?E i p value acc q st)"
    if "trade_side E0 (ac_json acc) = Some 1" "trade_fill_of ?E acc st = Some q" for q
    using trade_fill_keeps [OF ok _ f(1) _ that] sound Some that o f
    by (simp add: sound_trade_def executed_fill_def)
  have offer: "tap_ok E0 (trade_offer_executed ?E i p owner value acc st)"
    by (rule trade_offer_keeps [OF ok o f(1)])
  show ?thesis
    using Some ok fill offer
    by (auto simp: index_token_trade_executed_def intro!: del_log_keeps trade_cancel_keeps split: option.split)
qed

end
