(* ===== verification/Tap_Properties.thy ===== *)
theory Tap_Properties
  imports Tap_Swap "HOL-Library.Code_Target_Numeral"
begin

text \<open>
  The TAP token ledger as a whole: whatever sequence of the modelled handlers a chain of blocks runs, the
  supply of every ticker is conserved, as long as no executed fill pays its fee to the buyer or the
  seller. What such a fill does is the subject of \<open>Tap_Fill\<close>.
\<close>

section \<open>Reachable stores\<close>

definition empty_tap_store :: "'f tap_store" where
  "empty_tap_store = \<lparr>ts_table = Mapping.empty, ts_overlay = Mapping.empty, ts_list_len_cache = Mapping.empty, ts_atomic = None\<rparr>"

text \<open>
  Each handler may run at any block, on any inscription; the address of the owner has no slash.
\<close>

inductive tap_reachable :: "'f tap_env \<Rightarrow> 'f tap_store \<Rightarrow> bool" for E :: "'f tap_env" where
  empty: "tap_reachable E empty_tap_store"
| block_end: "tap_reachable E st \<Longrightarrow> ts_atomic st = None \<Longrightarrow> tap_reachable E (tap_finalize_block st)"
| deploy: "tap_reachable E st \<Longrightarrow> tap_reachable E (index_deployments (at_block E h t) i number p payload owner value st)"
| mint: "tap_reachable E st \<Longrightarrow> slash_free owner \<Longrightarrow>
    tap_reachable E (index_mints (at_block E h t) i number p payload owner value st)"
| transfer_created: "tap_reachable E st \<Longrightarrow> slash_free owner \<Longrightarrow>
    tap_reachable E (index_token_transfer_created (at_block E h t) i number p payload owner value st)"
| transfer_executed: "tap_reachable E st \<Longrightarrow> slash_free owner \<Longrightarrow>
    tap_reachable E (index_token_transfer_executed (at_block E h t) i p owner value st)"
| send_created: "tap_reachable E st \<Longrightarrow>
    tap_reachable E (index_token_send_created (at_block E h t) i number p payload owner st)"
| send_executed: "tap_reachable E st \<Longrightarrow> slash_free owner \<Longrightarrow>
    tap_reachable E (index_token_send_executed (at_block E h t) i p owner value st)"
| trade_created: "tap_reachable E st \<Longrightarrow>
    tap_reachable E (index_token_trade_created (at_block E h t) i number p payload owner st)"
| trade_executed: "tap_reachable E st \<Longrightarrow> slash_free owner \<Longrightarrow> sound_trade (at_block E h t) i p owner st \<Longrightarrow>
    tap_reachable E (index_token_trade_executed (at_block E h t) i p owner value st)"
| block_created: "tap_reachable E st \<Longrightarrow>
    tap_reachable E (index_block_transferables_created (at_block E h t) i number p payload owner value st)"
| block_executed: "tap_reachable E st \<Longrightarrow>
    tap_reachable E (index_block_transferables_executed (at_block E h t) i p owner st)"
| unblock_created: "tap_reachable E st \<Longrightarrow>
    tap_reachable E (index_unblock_transferables_created (at_block E h t) i number p payload owner value st)"
| unblock_executed: "tap_reachable E st \<Longrightarrow>
    tap_reachable E (index_unblock_transferables_executed (at_block E h t) i p owner st)"

lemma empty_tap_ok: "tap_ok E (empty_tap_store :: 'f tap_store)"
proof -
  have e: "tap_get (empty_tap_store :: 'f tap_store) k = None" for k
    by (simp add: tap_get_def batch_get_def empty_tap_store_def)
  have "tok (empty_tap_store :: 'f tap_store) = Map.empty" by (simp add: tok_def e cong: if_cong)
  with ledger_empty show ?thesis by (simp add: tap_ok_def all_rows_def e)
qed

lemma finalize_ok: "tap_ok E st \<Longrightarrow> ts_atomic st = None \<Longrightarrow> tap_ok E (tap_finalize_block st)"
  by (simp add: tap_ok_def all_rows_def tok_def finalize_keeps_rows cong: if_cong)

lemmas handlers_keep = deploy_keeps mint_keeps transfer_created_keeps transfer_executed_keeps send_created_keeps
  send_executed_keeps trade_created_keeps trade_executed_keeps block_keeps finalize_ok empty_tap_ok

lemma reachable_ok: "tap_reachable E st \<Longrightarrow> env_ok E \<Longrightarrow> tap_ok E st"
  by (induction rule: tap_reachable.induct) (simp_all add: handlers_keep)

section \<open>The supply\<close>

text \<open>What the accounts hold of a ticker, and the sum.\<close>

definition tap_balances :: "'f tap_store \<Rightarrow> rchar list \<Rightarrow> rchar list \<Rightarrow> nat" where
  "tap_balances st tick_key = (\<lambda>a. if slash_free a then or_zero (read_u128 st (key2 (str ''b'') a tick_key)) else 0)"

lemma tap_balances_bals: "ledger (tok st) \<Longrightarrow> tap_balances st tk = bals (tok st) tk"
  by (simp add: tap_balances_def bals_def fun_eq_iff ledger_reads(1))

text \<open>
  C8: tokens are neither made nor lost. In every store that the modelled handlers reach, from the empty
  store, in any order and over any blocks, with no fee of a fill paid to its own buyer or seller: for every
  deployed ticker, what is left to mint and what all accounts hold add up to exactly the maximum of the
  deployment (which is below 2 ^ 124, so none of the \<open>i128\<close> computations wraps), only finitely many accounts
  hold any, and no account has more marked as transferable than it holds. A ticker that is not deployed is
  held by nobody.
\<close>

theorem token_supply_conserved:
  assumes "env_ok E" and "tap_reachable E st"
  shows "finite {a. tap_balances st tk a \<noteq> 0} \<and>
    (case get_deploy st (key1 (str ''d'') tk) of
       Some r \<Rightarrow>
         (\<exists>left. get_string st (key1 (str ''dc'') tk) = Some (show_nat left) \<and>
           dr_max r = show_nat (left + (\<Sum>a | tap_balances st tk a \<noteq> 0. tap_balances st tk a)) \<and>
           left + (\<Sum>a | tap_balances st tk a \<noteq> 0. tap_balances st tk a) \<le> 2 ^ 124)
     | None \<Rightarrow> \<forall>a. tap_balances st tk a = 0) \<and>
    (\<forall>a. slash_free a \<longrightarrow> or_zero (read_u128 st (key2 (str ''t'') a tk)) \<le> tap_balances st tk a)"
proof -
  have l: "ledger (tok st)" using reachable_ok [OF assms(2,1)] by (simp add: tap_ok_def)
  note b = tap_balances_bals [OF l, of tk]
  have t: "tick_ok (tok st) tk" using l by (simp add: ledger_def)
  have few: "few (bals (tok st) tk)" using t by (simp add: tick_ok_def)
  have "get_string st (left_key tk) = Some (show_nat (mon (tok st) (left_key tk)))" if "tok st (left_key tk) \<noteq> None"
    using read_rows(4,5) [of st "left_key tk"] l that by (cases "get_string st (left_key tk)") auto
  then have dep: "\<exists>left. get_string st (left_key tk) = Some (show_nat left) \<and> dr_max r = show_nat (left + sum_all (bals (tok st) tk)) \<and>
      left + sum_all (bals (tok st) tk) \<le> 2 ^ 124" if "deployed (tok st) tk = Some r" for r
    using t that by (auto simp: tick_ok_def money_max_def)
  have none: "bals (tok st) tk a = 0" if "deployed (tok st) tk = None" for a
    using t that sum_all_one [OF few, of a] by (simp add: tick_ok_def)
  have "\<forall>a. slash_free a \<longrightarrow> or_zero (read_u128 st (trf_key a tk)) \<le> bals (tok st) tk a"
    using l by (simp add: bals_def ledger_reads(2) [OF l] ledger_def)
  with few dep none show ?thesis
    unfolding b get_deploy_tok few_def sum_all_def by (simp split: option.split)
qed

section \<open>A run of the handlers\<close>

text \<open>
  An environment for examples, off the main network: lower case of ASCII, one grapheme per code point,
  a reader that knows the payloads below, and one address that decodes.
\<close>

definition deploy_bb :: string where \<open>deploy_bb = ''{"p":"tap","op":"token-deploy","tick":"bb","max":"1000","dec":"0"}''\<close>
definition mint_bb :: string where \<open>mint_bb = ''{"p":"tap","op":"token-mint","tick":"bb","amt":"50"}''\<close>

definition offer_bb :: string where
  \<open>offer_bb = ''{"p":"tap","op":"token-trade","side":"0","tick":"bb","amt":"10","accept":[{"tick":"bb","amt":"500"}],"valid":"200"}''\<close>
definition fill_bb :: string where
  \<open>fill_bb = ''{"p":"tap","op":"token-trade","side":"1","trade":"05i0","tick":"bb","amt":"40","fee_rcv":"buyer"}''\<close>

definition text_members :: "(string \<times> string) list \<Rightarrow> (rchar list \<times> unit tjson) list" where
  "text_members kvs = map (\<lambda>(k, v). (str k, TString (str v))) kvs"

definition text_object :: "(string \<times> string) list \<Rightarrow> unit tjson" where
  "text_object kvs = TObject (text_members kvs)"

definition offer_doc :: "unit tjson" where
  "offer_doc = TObject (text_members [(''p'', ''tap''), (''op'', ''token-trade''), (''side'', ''0''), (''tick'', ''bb''), (''amt'', ''10'')] @
    [(str ''accept'', TArray [text_object [(''tick'', ''bb''), (''amt'', ''500'')]])] @ text_members [(''valid'', ''200'')])"

definition fill_doc :: "unit tjson" where
  "fill_doc = text_object [(''p'', ''tap''), (''op'', ''token-trade''), (''side'', ''1''), (''trade'', ''05i0''), (''tick'', ''bb''),
    (''amt'', ''40''), (''fee_rcv'', ''buyer'')]"

definition sample_docs :: "(string \<times> unit tjson) list" where
  "sample_docs =
    [(deploy_bb, text_object [(''p'', ''tap''), (''op'', ''token-deploy''), (''tick'', ''bb''), (''max'', ''1000''), (''dec'', ''0'')]),
     (mint_bb, text_object [(''p'', ''tap''), (''op'', ''token-mint''), (''tick'', ''bb''), (''amt'', ''50'')]),
     (offer_bb, offer_doc), (fill_bb, fill_doc)]"

lemma width_code [code]:
  "u8_max = 255" "u16_max = 65535" "u32_max = 4294967295" "u64_max = 18446744073709551615"
  "u128_max = 340282366920938463463374607431768211455"
  "i128_max = 170141183460469231731687303715884105727" "i128_min = - 170141183460469231731687303715884105728"
  by (simp_all add: width_defs i128_max_def i128_min_def)

definition sample_tap_env :: "unit tap_env" where
  "sample_tap_env = \<lparr>te_height = 0, te_timestamp = 0, te_mainnet = False, te_ids = hex_api,
    te_lower = map (\<lambda>c. if 65 \<le> c \<and> c \<le> 90 then c + 32 else c),
    te_char_lower = (\<lambda>c. [if 65 \<le> c \<and> c \<le> 90 then c + 32 else c]), te_graphemes = length,
    te_json_from_str = (\<lambda>s. map_of (map (\<lambda>(k, v). (str k, v)) sample_docs) s),
    te_json_quote = (\<lambda>s. [34] @ s @ [34]), te_float_text = (\<lambda>_. []), te_float_bigint = (\<lambda>_. None),
    te_utf8_lossy = map unat, te_base58check = (\<lambda>s. if s = str ''buyer'' then Some (113 # replicate 20 0) else None),
    te_hex_decode = (\<lambda>_. None), te_sha256 = (\<lambda>_. []), te_recovery_id_ok = (\<lambda>_. False), te_recover = (\<lambda>_ _ _. None),
    te_signature_ok = (\<lambda>_. False), te_verify = (\<lambda>_ _ _. False)\<rparr>"

definition sample_ins :: "nat \<Rightarrow> inscription_id" where
  "sample_ins n = \<lparr>ii_txid = [of_nat n], ii_index = 0\<rparr>"

definition sample_place :: "nat \<Rightarrow> sat_point" where
  "sample_place n = \<lparr>sp_outpoint = \<lparr>op_txid = [of_nat n], op_vout = 0\<rparr>, sp_offset = 0\<rparr>"

definition sample_payload :: "string \<Rightarrow> inscription" where
  "sample_payload s = \<lparr>i_body = Some (map of_nat (str s)), i_content_type = None, i_delegate = None\<rparr>"

definition deployed_store :: "unit tap_store" where
  "deployed_store = index_deployments (at_block sample_tap_env 100 0) (sample_ins 1) 1 (sample_place 1)
    (sample_payload deploy_bb) (str ''deployer'') 0 empty_tap_store"

definition minted_store :: "unit tap_store" where
  "minted_store = index_mints (at_block sample_tap_env 101 60) (sample_ins 2) 2 (sample_place 2)
    (sample_payload mint_bb) (str ''buyer'') 0 deployed_store"

definition bb_key :: "rchar list" where
  "bb_key = [34] @ str ''bb'' @ [34]"

lemma sample_tap_env_ok: "env_ok sample_tap_env"
proof -
  have "map (\<lambda>c. if 65 \<le> c \<and> c \<le> 90 then c + 32 else c) s = s" if "list_all (\<lambda>c. c < 65 \<or> 90 < c \<and> c < 128) s" for s :: "rchar list"
    using that by (intro map_idI) (auto simp: list_all_iff)
  then show ?thesis by (simp add: env_ok_def sample_tap_env_def str_def)
qed

lemma minted_reachable: "tap_reachable sample_tap_env minted_store"
  unfolding minted_store_def deployed_store_def
  by (intro tap_reachable.mint tap_reachable.deploy tap_reachable.empty) (simp add: str_def)

lemma shown_inj: "show_nat a = show_nat b \<longleftrightarrow> a = b"
  by (metis order_refl parse_uint_show parse_uint_show_inv)

lemma minted_rows:
  "get_string minted_store (key1 (str ''dc'') bb_key) = Some (str ''950'') \<and>
   map_option dr_max (get_deploy minted_store (key1 (str ''d'') bb_key)) = Some (str ''1000'')"
  by code_simp

theorem token_supply_conserved_witness:
  "(\<Sum>a | tap_balances minted_store bb_key a \<noteq> 0. tap_balances minted_store bb_key a) = 50"
proof -
  have sn: "show_nat 950 = str ''950''" "show_nat 1000 = str ''1000''" by (simp_all add: show_nat.simps str_def)
  obtain r where r: "get_deploy minted_store (key1 (str ''d'') bb_key) = Some r" "dr_max r = show_nat 1000"
    using minted_rows sn by auto
  from token_supply_conserved [OF sample_tap_env_ok minted_reachable, of bb_key] r minted_rows
  obtain left where "show_nat left = show_nat 950"
      "show_nat 1000 = show_nat (left + (\<Sum>a | tap_balances minted_store bb_key a \<noteq> 0. tap_balances minted_store bb_key a))"
    by (auto simp: sn)
  then have "left = 950" "1000 = left + (\<Sum>a | tap_balances minted_store bb_key a \<noteq> 0. tap_balances minted_store bb_key a)"
    by (simp_all only: shown_inj)
  then show ?thesis by simp
qed

end
