(* ===== verification/Tap_Fill.thy ===== *)
theory Tap_Fill
  imports Tap_Properties
begin

text \<open>
  What a fill of a trade does to the supply of the accepted ticker, in every reachable store and for every
  receiver of the fee, and a run of the handlers from the empty store to a fill that makes units out of
  nothing.
\<close>

section \<open>Fills\<close>

text \<open>What a fill that does not fail makes of the balances of the accepted ticker, whoever receives the fee.\<close>

definition paid :: "rchar list \<Rightarrow> rchar list \<Rightarrow> nat \<Rightarrow> rchar list option \<Rightarrow> nat \<Rightarrow> (rchar list \<Rightarrow> nat) \<Rightarrow> rchar list \<Rightarrow> nat" where
  "paid seller buyer k rcv f B =
    (let B' = B(seller := B seller + k, buyer := B buyer - k - f)
     in case rcv of None \<Rightarrow> B' | Some r \<Rightarrow> B'(r := B r + f))"

lemma bals_trade_balances:
  fixes E :: "'f tap_env" and st :: "'f tap_store"
  assumes l: "ledger (tok st)" and sf: "slash_free (of_addr (fl_offer q))" "slash_free buyer" "of_addr (fl_offer q) \<noteq> buyer"
    and r: "\<And>r. fl_fee_rcv q = Some r \<Longrightarrow> slash_free r"
    and k: "fl_accepted_amount q = int k" "k \<le> money_max"
  defines "off \<equiv> json_stringify_lower E (of_tick (fl_offer q))" and "seller \<equiv> of_addr (fl_offer q)"
    and "ack \<equiv> fl_accepted_tick_key q"
  assumes n: "n \<le> mon (tok st) (bal_key seller off)" and kf: "k + f \<le> mon (tok st) (bal_key buyer ack)"
  shows "bals (tok (trade_balances E q buyer (int n) (int f) (int (mon (tok st) (bal_key seller off)))
      (int (mon (tok st) (bal_key buyer off))) (int (mon (tok st) (bal_key buyer ack)))
      (int (mon (tok st) (bal_key seller ack)))
      (int (mon (tok st) (bal_key (case fl_fee_rcv q of Some r \<Rightarrow> r | None \<Rightarrow> []) ack))) st)) ack =
    paid seller buyer k (fl_fee_rcv q) f (bals (tok st) ack)"
proof -
  let ?M = "\<lambda>a tk. mon (tok st) (bal_key a tk)"
  note s = sf [folded seller_def]
  have top: "?M a tk \<le> money_max" for a tk by (rule ledger_reads(9) [OF l])
  have small: "j \<le> money_max" if "j \<le> ?M a tk" for a tk j using that top [of a tk] by simp
  have sums: "?M a tk + j \<le> u128_max" "int (?M a tk) + int j < 2 ^ 127" if "j \<le> money_max" for a tk j
    using top [of a tk] that by (simp_all add: money_max_def width_defs)
  have up: "show_int (i128 (int (?M a tk) + int j)) = show_nat (?M a tk + j)" if "j \<le> money_max" for a tk j
    using sums(2) [OF that, of a tk] by (simp add: i128_id flip: of_nat_add)
  have down: "i128 (int (?M a tk) - int j) = int (?M a tk - j)" if "j \<le> ?M a tk" for a tk j
    using that i128_money [of "?M a tk - j"] top [of a tk] by (simp add: of_nat_diff)
  have bk: "k \<le> ?M buyer ack" "f \<le> ?M buyer ack - k" "f \<le> money_max" using kf small [of f buyer ack] by simp_all
  have b2: "i128 (int (?M buyer ack - k) - int f) = int (?M buyer ack - k - f)"
    using i128_money [of "?M buyer ack - k - f"] top [of buyer ack] bk(2) by (simp only: of_nat_diff [symmetric])
  have low: "?M a tk - j \<le> u128_max" for a tk j using sums(1) [of 0 a tk] by simp
  note w = up [OF small [OF n]] down [OF n] up [OF k(2)] down [OF bk(1)] b2
  note v = sums(1) [OF small [OF n]] low [of seller off n] sums(1) [OF k(2)] low [of buyer ack "k + f"] sums(1) [OF bk(3)]
  have B: "bals (tok st) ack a = ?M a ack" if "slash_free a" for a using that by (simp add: bals_def)
  let ?m = "(tok st)(bal_key buyer off \<mapsto> VString (show_nat (?M buyer off + n)),
      bal_key seller off \<mapsto> VString (show_nat (?M seller off - n)),
      bal_key seller ack \<mapsto> VString (show_nat (?M seller ack + k)),
      bal_key buyer ack \<mapsto> VString (show_nat (?M buyer ack - k - f)))"
  have two: "bals ?m ack = (bals (tok st) ack)(seller := ?M seller ack + k, buyer := ?M buyer ack - k - f)"
    using s v by (auto simp: bals_bal fun_eq_iff)
  show ?thesis
  proof (cases "fl_fee_rcv q")
    case None
    then have "tok (trade_balances E q buyer (int n) (int f) (int (?M seller off)) (int (?M buyer off)) (int (?M buyer ack))
        (int (?M seller ack)) (int (?M [] ack)) st) = ?m"
      by (simp add: trade_balances_def Let_def k tok_put w off_def [symmetric] ack_def [symmetric] seller_def [symmetric])
    then show ?thesis using two None B s by (simp add: paid_def)
  next
    case (Some x)
    have x: "slash_free x" using r [OF Some] .
    have "tok (trade_balances E q buyer (int n) (int f) (int (?M seller off)) (int (?M buyer off)) (int (?M buyer ack))
        (int (?M seller ack)) (int (?M x ack)) st) = ?m(bal_key x ack \<mapsto> VString (show_nat (?M x ack + f)))"
      using Some by (simp add: trade_balances_def Let_def k tok_put w up [OF bk(3)] off_def [symmetric] ack_def [symmetric]
          seller_def [symmetric])
    moreover have "bals (?m(bal_key x ack \<mapsto> VString (show_nat (?M x ack + f)))) ack = (bals ?m ack)(x := ?M x ack + f)"
      using bals_bal [OF x sums(1) [OF bk(3), of x ack], of ?m ack ack] by simp
    ultimately show ?thesis using two Some B s x by (simp add: paid_def)
  qed
qed

lemma sum_all_paid:
  assumes "few B" and "seller \<noteq> buyer" and "k + f \<le> B buyer" and "rcv = None \<Longrightarrow> f = 0"
  shows "few (paid seller buyer k rcv f B)"
    and "rcv = Some buyer \<Longrightarrow> sum_all (paid seller buyer k rcv f B) = sum_all B + k + f"
    and "rcv = Some seller \<Longrightarrow> sum_all (paid seller buyer k rcv f B) + k = sum_all B"
    and "rcv \<noteq> Some buyer \<Longrightarrow> rcv \<noteq> Some seller \<Longrightarrow> sum_all (paid seller buyer k rcv f B) = sum_all B"
proof -
  let ?S = "B(seller := B seller + k)"
  let ?T = "?S(buyer := B buyer - k - f)"
  have S: "sum_all ?S = sum_all B + k" using sum_all_upd [OF assms(1), of seller "B seller + k"] by simp
  have T: "sum_all ?T + k + f = sum_all B + k"
    using sum_all_upd [of ?S buyer "B buyer - k - f"] assms S by simp
  have U: "sum_all (?T(r := B r + f)) + ?T r = sum_all ?T + (B r + f)" for r
    using assms(1) by (intro sum_all_upd) simp
  show "few (paid seller buyer k rcv f B)" using assms(1) by (simp add: paid_def Let_def split: option.split)
  show "rcv = Some buyer \<Longrightarrow> sum_all (paid seller buyer k rcv f B) = sum_all B + k + f"
    using U [of buyer] T assms(3) by (simp add: paid_def)
  show "rcv = Some seller \<Longrightarrow> sum_all (paid seller buyer k rcv f B) + k = sum_all B"
    using U [of seller] T assms(2) by (simp add: paid_def)
  show "sum_all (paid seller buyer k rcv f B) = sum_all B" if "rcv \<noteq> Some buyer" "rcv \<noteq> Some seller"
  proof (cases rcv)
    case None
    with T assms(4) show ?thesis by (simp add: paid_def)
  next
    case (Some r)
    with U [of r] T that show ?thesis by (simp add: paid_def)
  qed
qed

definition tap_total :: "'f tap_store \<Rightarrow> rchar list \<Rightarrow> nat" where
  "tap_total st tk = (\<Sum>a | tap_balances st tk a \<noteq> 0. tap_balances st tk a)"

lemma read_u128_tok:
  "token_row k \<Longrightarrow> read_u128 st k = Option.bind (case tok st k of Some (VString s) \<Rightarrow> Some s | _ \<Rightarrow> None) (parse_uint u128_max)"
  by (simp add: read_u128_def get_string_def tok_get)

lemma tap_total_bals: "tap_total st tk = sum_all (bals (tok st) tk)"
proof -
  have "tap_balances st tk = bals (tok st) tk"
    by (auto simp: tap_balances_def bals_def fun_eq_iff read_u128_tok mon_def split: option.splits tap_value.splits)
  then show ?thesis by (simp add: tap_total_def sum_all_def)
qed

text \<open>
  C16: what a fill does to the supply. In a store that the handlers reach, let a moved inscription execute a
  fill that neither side lacks the tokens for. When the fee goes to a third party, or there is none, the
  accounts together hold as much of the accepted ticker as before. When the buyer names its own address
  as the receiver of the fee, they hold more: the payment and the fee appear out of nothing, because the
  balance of the receiver is read before the buyer is debited and written last. When it names the
  seller's, the payment is lost.
\<close>

theorem fill_changes_supply:
  assumes "env_ok E" and "tap_reachable E st" and "slash_free owner"
    and "executed_fill (at_block E h t) i p owner st = Some (acc, q)"
    and "\<not> tap_is_dmt_reward_address (at_block E h t) st owner" and "\<not> trade_fails (at_block E h t) q owner st"
  shows "0 < fl_accepted_amount q \<and>
    int (tap_total (index_token_trade_executed (at_block E h t) i p owner value st) (fl_accepted_tick_key q)) =
      int (tap_total st (fl_accepted_tick_key q)) +
      (if fl_fee_rcv q = Some owner then fl_accepted_amount q + trade_fee (fl_accepted_amount q)
       else if fl_fee_rcv q = Some (of_addr (fl_offer q)) then - fl_accepted_amount q
       else 0)"
proof -
  let ?E = "at_block E h t" and ?ak = "fl_accepted_tick_key q" and ?s = "of_addr (fl_offer q)"
  let ?st = "index_token_trade_executed ?E i p owner value st"
  have ok: "tap_ok E st" by (rule reachable_ok [OF assms(2,1)])
  then have l: "ledger (tok st)" and v: "all_rows (value_ok E) st" by (simp_all add: tap_ok_def)
  from assms(4) have acc: "accumulator_for ?E i p owner (str ''token-trade'') st = Some acc"
    and side: "trade_side ?E (ac_json acc) = Some 1" and q: "trade_fill_of ?E acc st = Some q"
    by (auto simp: executed_fill_def bind_eq_Some_conv split: if_splits)
  note a = accumulator_for_facts [OF acc v]
  note f = trade_fill_facts [OF q v]
  obtain n where n: "of_amt (fl_offer q) = show_nat n" "n \<le> money_max" using f(2) by blast
  obtain k where k: "fl_accepted_amount q = int k" "k \<le> money_max" "0 < k" using f(4) by auto
  obtain fe where fe: "fill_fee q = int fe" "fe \<le> k" "fl_fee_rcv q = None \<Longrightarrow> fe = 0"
    using trade_fee_nat [of k] k(1) by (cases "fl_fee_rcv q") (auto simp: fill_fee_def)
  have r: "slash_free r" if "fl_fee_rcv q = Some r" for r
    using that a(1,3) side f(5) by (auto simp: acc_ok_def)
  have on: "or_zero (parse_i128 (show_nat n)) = int n" using money_max_bounds [OF n(2)] by simp
  note pays = fill_pays [OF l n k(1,2) fe(1,2) assms(6)]
  have ns: "n \<le> mon (tok st) (bal_key ?s (json_stringify_lower ?E (of_tick (fl_offer q))))"
    and kf: "k + fe \<le> mon (tok st) (bal_key owner ?ak)" using pays by simp_all
  have "?st = tap_del (key1 (str ''a'') (id_text ?E i)) (trade_fill_executed ?E i p value acc q st)"
    using acc side q assms(5) by (simp add: index_token_trade_executed_def tap_token_trade_emergency_active_def)
  from arg_cong [OF this, of tok] have "tok ?st = tok (trade_fill_executed ?E i p value acc q st)" by (simp add: tok_del)
  then have "bals (tok ?st) ?ak = paid ?s owner k (fl_fee_rcv q) fe (bals (tok st) ?ak)"
    using bals_trade_balances [OF l f(1) assms(3) _ r k(1,2) ns kf] f(3) a(2) assms(6)
    by (simp add: tok_fill ledger_reads(3) [OF l] n(1) on fe(1))
  moreover have "few (bals (tok st) ?ak)" using l by (simp add: ledger_def tick_ok_def)
  moreover have "k + fe \<le> bals (tok st) ?ak owner" using kf assms(3) by (simp add: bals_def)
  moreover have "?s \<noteq> owner" using f(3) a(2) by simp
  ultimately show ?thesis
    using sum_all_paid [of "bals (tok st) ?ak" ?s owner k fe "fl_fee_rcv q"] fe(1,3) k
    by (auto simp: tap_total_bals fill_fee_def)
qed

section \<open>A fill that pays its fee to the buyer\<close>

text \<open>
  The run goes on: the seller mints 50 units as well, offers 10 of them for 500 and moves the offer; the
  buyer inscribes a fill of that offer with 40 units, its own address as the receiver of the fee, and
  moves it. What the offer asks for plays no role.
\<close>

abbreviation run_env :: "unit tap_env" where
  "run_env \<equiv> at_block sample_tap_env 102 120"

definition both_store :: "unit tap_store" where
  "both_store = index_mints (at_block sample_tap_env 101 60) (sample_ins 3) 3 (sample_place 3)
    (sample_payload mint_bb) (str ''seller'') 0 minted_store"

definition offer_acc :: "unit accumulator" where
  "offer_acc = accumulator_of run_env (sample_ins 5) 5 (sample_place 5) (str ''seller'') (str ''token-trade'') offer_doc None"

definition fill_acc :: "unit accumulator" where
  "fill_acc = accumulator_of run_env (sample_ins 7) 7 (sample_place 7) (str ''buyer'') (str ''token-trade'') fill_doc None"

definition inscribed_offer :: "unit tap_store" where
  "inscribed_offer = index_token_trade_created run_env (sample_ins 5) 5 (sample_place 5) (sample_payload offer_bb) (str ''seller'') both_store"

definition open_offer :: "unit tap_store" where
  "open_offer = index_token_trade_executed run_env (sample_ins 5) (sample_place 6) (str ''seller'') 0 inscribed_offer"

definition inscribed_fill :: "unit tap_store" where
  "inscribed_fill = index_token_trade_created run_env (sample_ins 7) 7 (sample_place 7) (sample_payload fill_bb) (str ''buyer'') open_offer"

lemma both_rows:
  "map (map_option dr_dec \<circ> get_deploy both_store) [key1 (str ''d'') bb_key] = [Some 0] \<and>
   map (get_string both_store) [bal_key (str ''seller'') bb_key, bal_key (str ''buyer'') bb_key, trf_key (str ''seller'') bb_key,
     trf_key (str ''buyer'') bb_key, key1 (str ''dmtrwd'') (str ''seller''), key1 (str ''dmtrwd'') (str ''buyer''),
     key2 (str ''atrof'') (str ''seller'') bb_key, key2 (str ''ll'') (str ''seller'') bb_key, key2 (str ''ll'') (str ''buyer'') bb_key,
     key3 (str ''oll'') (str ''a'') (str ''seller'') bb_key, key3 (str ''oll'') (str ''a'') (str ''buyer'') bb_key] =
     [Some (str ''50''), Some (str ''50''), None, None, None, None, None, None, None, None, None] \<and>
   get_accumulator both_store (key1 (str ''tol'') (str ''05i0'')) = None \<and>
   cached_length both_store (key2 (str ''atrof'') (str ''seller'') bb_key) = None"
  by code_simp

lemma run_checks:
  "in_creation run_env (sample_ins 5) (sample_place 5) \<and> in_creation run_env (sample_ins 7) (sample_place 7) \<and>
   \<not> in_creation run_env (sample_ins 5) (sample_place 6) \<and> \<not> in_creation run_env (sample_ins 7) (sample_place 8) \<and>
   id_text run_env (sample_ins 5) = str ''05i0'' \<and> id_text run_env (sample_ins 7) = str ''07i0'' \<and>
   trim_js_whitespace (str ''05i0'') = str ''05i0'' \<and> json_stringify_lower run_env (str ''bb'') = bb_key \<and>
   js_to_lowercase run_env (str ''bb'') = str ''bb'' \<and> te_lower run_env (str ''token-trade'') = str ''token-trade'' \<and>
   validate_trade_accept_ticker_len run_env (str ''bb'') \<and> capped_amount (str ''10'') 0 = Some 10 \<and>
   capped_amount (str ''500'') 0 = Some 500 \<and> parse_i128 (str ''10'') = Some 10 \<and>
   parse_i128 (str ''50'') = Some 50 \<and> resolve_number_string (str ''40'') 0 = Some (str ''40'') \<and> parse_i128 (str ''40'') = Some 40 \<and>
   Option.bind (resolve_number_string MAX_DEC_U64_STR 0) parse_i128 = Some 18446744073709551615 \<and> trade_fee 40 = 0"
  by code_simp

lemma offer_checks:
  "payload_json run_env (sample_payload offer_bb) = Some offer_doc \<and> field_lower run_env offer_doc (str ''p'') = str ''tap'' \<and>
   field_lower run_env offer_doc (str ''op'') = str ''token-trade'' \<and> trade_side run_env offer_doc = Some 0 \<and>
   trade_json run_env 5 0 offer_doc = Some offer_doc \<and> tj_get offer_doc (str ''trade'') = None \<and>
   get_str offer_doc (str ''tick'') = Some (str ''bb'') \<and> amt_text run_env offer_doc = str ''10'' \<and>
   Option.bind (tj_get offer_doc (str ''accept'')) tj_array = Some [text_object [(''tick'', ''bb''), (''amt'', ''500'')]] \<and>
   offer_validity run_env offer_doc = 200 \<and>
   get_str (text_object [(''tick'', ''bb''), (''amt'', ''500'')]) (str ''tick'') = Some (str ''bb'') \<and>
   amt_text run_env (text_object [(''tick'', ''bb''), (''amt'', ''500'')]) = str ''500''"
  by code_simp

lemma fill_checks:
  "payload_json run_env (sample_payload fill_bb) = Some fill_doc \<and> field_lower run_env fill_doc (str ''p'') = str ''tap'' \<and>
   field_lower run_env fill_doc (str ''op'') = str ''token-trade'' \<and> trade_side run_env fill_doc = Some 1 \<and>
   trade_json run_env 7 1 fill_doc = Some fill_doc \<and> get_str fill_doc (str ''trade'') = Some (str ''05i0'') \<and>
   get_str fill_doc (str ''tick'') = Some (str ''bb'') \<and> amt_text run_env fill_doc = str ''40'' \<and>
   tj_get fill_doc (str ''amt'') \<noteq> None \<and> get_str fill_doc (str ''fee_rcv'') = Some (str ''buyer'')"
  by code_simp


text \<open>Rows that a list append does not touch.\<close>

lemma fill_append_frame:
  assumes "key_seg k \<noteq> key_seg lk" "key_seg k \<noteq> key_seg ik"
  shows "tap_get (tap_append lk ik v st) k = tap_get st k"
    and "tap_get (snd (tap_set_list_record lk ik v st)) k = tap_get st k"
    and "cached_length (tap_append lk ik v st) k = cached_length st k"
    and "cached_length (snd (tap_set_list_record lk ik v st)) k = cached_length st k"
proof -
  have k: "k \<noteq> lk" "k \<noteq> ik @ 47 # r" for r using assms by (auto dest: arg_cong [of _ _ key_seg])
  show "tap_get (snd (tap_set_list_record lk ik v st)) k = tap_get st k"
    "cached_length (snd (tap_set_list_record lk ik v st)) k = cached_length st k"
    using k by (simp_all add: tap_set_list_record_eq Let_def kv.get_put)
  then show "tap_get (tap_append lk ik v st) k = tap_get st k" "cached_length (tap_append lk ik v st) k = cached_length st k"
    by (simp_all add: tap_append_def)
qed

definition trade_segs :: "rchar list set" where
  "trade_segs = {str ''a'', str ''tol'', str ''to'', str ''atrofi'', str ''atrof'', str ''dmtrwd''}"

lemma trade_seg_lits:
  "key_seg (str ''a'') = str ''a''" "key_seg (str ''tol'') = str ''tol''" "key_seg (str ''to'') = str ''to''"
  "key_seg (str ''atrofi'') = str ''atrofi''" "key_seg (str ''atrof'') = str ''atrof''" "key_seg (str ''dmtrwd'') = str ''dmtrwd''"
  "key_seg (str ''al'') = str ''al''" "key_seg (str ''ali'') = str ''ali''" "key_seg (str ''tx'') = str ''tx''"
  "key_seg (str ''txi'') = str ''txi''" "key_seg (str ''txt'') = str ''txt''" "key_seg (str ''txti'') = str ''txti''"
  "key_seg (str ''blck'') = str ''blck''" "key_seg (str ''blcki'') = str ''blcki''" "key_seg (str ''blckt'') = str ''blckt''"
  "key_seg (str ''blckti'') = str ''blckti''" "key_seg (str ''fatrof'') = str ''fatrof''" "key_seg (str ''fatrofi'') = str ''fatrofi''"
  "key_seg (str ''sfatrof'') = str ''sfatrof''" "key_seg (str ''sfatrofi'') = str ''sfatrofi''" "key_seg (str ''tor'') = str ''tor''"
  "key_seg (str ''tori'') = str ''tori''"
  by (simp_all add: key_seg_plain str_def)

lemma str_eq: "str x = str y \<longleftrightarrow> x = y"
  by (auto simp: str_def inj_on_def dest: map_injective)

lemma trade_frames:
  assumes "key_seg k \<in> trade_segs"
  shows "tap_get (accumulate E i p owner kind acc st) k =
      (if k = key1 (str ''a'') (id_text E i) then Some (VAccumulator acc) else tap_get st k)"
    and "cached_length (accumulate E i p owner kind acc st) k = cached_length st k"
    and "tap_get (superflat E (str ''sfatrof'') (str ''sfatrofi'') kind tick_key txs v st) k = tap_get st k"
  using assms
  by (auto simp: accumulate_def superflat_def point_to_def Let_def case_prod_beta fill_append_frame kv.get_put trade_segs_def
      trade_seg_lits str_eq)

text \<open>The store of the open offer is that of the two mints, a batch of log rows, and four rows of the offer.\<close>

lemma inscribed_offer_eq:
  "inscribed_offer = accumulate run_env (sample_ins 5) (sample_place 5) (str ''seller'') (str ''a-t'') offer_acc both_store"
  using both_rows run_checks offer_checks
  by (simp add: inscribed_offer_def index_token_trade_created_def offer_acc_def tap_token_trade_emergency_active_def
      tap_is_dmt_reward_address_def tap_has_dmt_reward_address_mark_def)

definition the_offer :: trade_offer where
  "the_offer = \<lparr>of_addr = str ''seller'', of_blck = 102, of_tick = str ''bb'', of_amt = show_int 10, of_atick = str ''bb'',
    of_aamt = show_int 500, of_vld = 200, of_trf = show_int 0, of_bal = show_int 50, of_tx = txid_text run_env (sample_place 6), of_vo = 0,
    of_val = show_nat 0, of_ins = str ''05i0'', of_num = 5, of_ts = 120, of_fail = False\<rparr>"


lemma same_token_rows: "tok st = tok st' \<Longrightarrow> token_row k \<Longrightarrow> tap_get st k = tap_get st' k"
  by (simp add: tok_get)

lemma inscribed_offer_reads:
  "token_row k \<Longrightarrow> tap_get inscribed_offer k = tap_get both_store k"
  "key_seg k \<in> trade_segs \<Longrightarrow> tap_get inscribed_offer k =
     (if k = key1 (str ''a'') (str ''05i0'') then Some (VAccumulator offer_acc) else tap_get both_store k)"
  "key_seg k \<in> trade_segs \<Longrightarrow> cached_length inscribed_offer k = cached_length both_store k"
  using run_checks by (auto simp: inscribed_offer_eq trade_frames intro: same_token_rows)

lemma both_reads:
  assumes "tok st = tok both_store"
  shows "\<exists>d. get_deploy st (key1 (str ''d'') bb_key) = Some d \<and> dr_dec d = 0"
    and "read_i128 st (bal_key (str ''seller'') bb_key) = Some 50" and "read_i128 st (bal_key (str ''buyer'') bb_key) = Some 50"
    and "read_i128 st (trf_key (str ''seller'') bb_key) = None" and "read_i128 st (trf_key (str ''buyer'') bb_key) = None"
    and "tap_get_locked_amount run_env st (str ''seller'') bb_key = 0" and "tap_get_locked_amount run_env st (str ''buyer'') bb_key = 0"
    and "tap_get_account_obligation_locked_amount run_env st (str ''seller'') bb_key = 0"
    and "tap_get_account_obligation_locked_amount run_env st (str ''buyer'') bb_key = 0"
  using both_rows run_checks same_token_rows [OF assms]
  by (auto simp: read_i128_def get_string_def get_deploy_def tap_get_locked_amount_def
      tap_get_account_obligation_locked_amount_def)

abbreviation offer_ptr :: "rchar list" where
  "offer_ptr \<equiv> key3 (str ''atrofi'') (str ''seller'') bb_key (show_nat 0)"

definition offer_rows :: "unit tap_store \<Rightarrow> unit tap_store" where
  "offer_rows st =
    tap_append (key1 (str ''tor'') (str ''seller'')) (key1 (str ''tori'') (str ''seller'')) (VString (str ''05i0''))
      (tap_put (key2 (str ''to'') (str ''05i0'') bb_key) (VString offer_ptr)
        (superflat run_env (str ''sfatrof'') (str ''sfatrofi'') (str ''to0'') bb_key (of_tx the_offer) (VTradeOffer the_offer)
          (tap_append (key1 (str ''fatrof'') bb_key) (key1 (str ''fatrofi'') bb_key) (VTradeOffer the_offer)
            (snd (tap_set_list_record (key2 (str ''atrof'') (str ''seller'') bb_key) (key2 (str ''atrofi'') (str ''seller'') bb_key)
              (VTradeOffer the_offer) (tap_put (key1 (str ''tol'') (str ''05i0'')) (VAccumulator offer_acc) st))))))"

lemma first_offer:
  "fst (tap_set_list_record (key2 (str ''atrof'') (str ''seller'') bb_key) ik v
    (tap_put (key1 (str ''tol'') (str ''05i0'')) w inscribed_offer)) = 1"
proof -
  let ?k = "key2 (str ''atrof'') (str ''seller'') bb_key" and ?t = "key1 (str ''tol'') (str ''05i0'')"
  have k: "key_seg ?k \<in> trade_segs" "?k \<noteq> ?t" "?k \<noteq> key1 (str ''a'') (str ''05i0'')"
    by (auto simp: trade_segs_def trade_seg_lits str_eq dest: arg_cong [of _ _ key_seg])
  have "get_string inscribed_offer ?k = None" "cached_length inscribed_offer ?k = None"
    using both_rows k by (simp_all add: get_string_def inscribed_offer_reads(2,3))
  with k show ?thesis by (simp add: tap_set_list_record_eq Let_def next_length_def get_string_def kv.get_put)
qed

lemma tok_inscribed_offer: "tok inscribed_offer = tok both_store"
  by (simp add: inscribed_offer_eq)

lemma offer_executed:
  "trade_offer_executed run_env (sample_ins 5) (sample_place 6) (str ''seller'') 0 offer_acc inscribed_offer = offer_rows inscribed_offer"
proof -
  note r = both_reads [OF tok_inscribed_offer]
  obtain d where d: "get_deploy inscribed_offer (key1 (str ''d'') bb_key) = Some d" "dr_dec d = 0" using r(1) by blast
  have acc: "ac_json offer_acc = offer_doc" "ac_num offer_acc = 5" by (simp_all add: offer_acc_def accumulator_of_def)
  have tol: "get_accumulator inscribed_offer (key1 (str ''tol'') (str ''05i0'')) = None"
    using both_rows by (auto simp: get_accumulator_def inscribed_offer_reads(2) trade_segs_def trade_seg_lits str_eq
        dest!: arg_cong [of "key1 _ _" _ key_seg])
  have i: "i128 50 = 50" by (simp add: i128_def)
  have h: "te_height run_env = 102" "te_timestamp run_env = 120" by (simp_all add: at_block_def)
  have "deploy_key bb_key \<noteq> key1 (str ''tol'') (str ''05i0'')" by (auto simp: trade_seg_lits str_eq dest: arg_cong [of _ _ key_seg])
  then have d': "get_deploy (tap_put (key1 (str ''tol'') (str ''05i0'')) v inscribed_offer) (deploy_key bb_key) = Some d" for v
    using d(1) by (simp add: get_deploy_def kv.get_put)
  have p: "op_vout (sp_outpoint (sample_place 6)) = 0" by (simp add: sample_place_def)
  show ?thesis
    using run_checks offer_checks d d' r tol i p acc h
    by (simp add: trade_offer_executed_def Let_def case_prod_beta offer_accept_def accept_amount_def offer_rows_def the_offer_def first_offer)
qed

lemma offer_found:
  "accumulator_for run_env (sample_ins 5) (sample_place 6) (str ''seller'') (str ''token-trade'') inscribed_offer = Some offer_acc"
  "ac_json offer_acc = offer_doc"
proof -
  have "get_accumulator inscribed_offer (key1 (str ''a'') (str ''05i0'')) = Some offer_acc"
    by (simp add: get_accumulator_def inscribed_offer_reads(2) trade_segs_def trade_seg_lits)
  moreover have "ac_addr offer_acc = str ''seller''" "ac_op offer_acc = str ''token-trade''"
    by (simp_all add: offer_acc_def accumulator_of_def)
  ultimately show "accumulator_for run_env (sample_ins 5) (sample_place 6) (str ''seller'') (str ''token-trade'') inscribed_offer = Some offer_acc"
    using run_checks by (simp add: accumulator_for_def)
  show "ac_json offer_acc = offer_doc" by (simp add: offer_acc_def accumulator_of_def)
qed

lemma open_offer_eq: "open_offer = tap_del (key1 (str ''a'') (str ''05i0'')) (offer_rows inscribed_offer)"
proof -
  have "\<not> tap_is_dmt_reward_address run_env inscribed_offer (str ''seller'')"
    using both_rows by (auto simp: tap_is_dmt_reward_address_def tap_has_dmt_reward_address_mark_def get_string_def
        inscribed_offer_reads(2) trade_segs_def trade_seg_lits str_eq dest!: arg_cong [of "key1 _ _" _ key_seg])
  then show ?thesis
    using run_checks offer_checks offer_found
    by (simp add: open_offer_def index_token_trade_executed_def tap_token_trade_emergency_active_def offer_executed)
qed

lemma tok_open_offer: "tok open_offer = tok both_store"
  by (simp add: open_offer_eq offer_rows_def tok_del tok_put tok_inscribed_offer)

lemma seg_keys: "key_seg x \<noteq> key_seg y \<Longrightarrow> (x = y) = False"
  by auto

lemma offer_rows_get:
  assumes "key_seg k \<in> trade_segs"
  shows "tap_get (offer_rows inscribed_offer) k =
    (if k = key2 (str ''to'') (str ''05i0'') bb_key then Some (VString offer_ptr)
     else if k = offer_ptr then Some (VTradeOffer the_offer)
     else if k = key2 (str ''atrof'') (str ''seller'') bb_key then Some (VString (show_nat 1))
     else if k = key1 (str ''tol'') (str ''05i0'') then Some (VAccumulator offer_acc)
     else tap_get inscribed_offer k)"
proof -
  have ptr: "key2 (str ''atrofi'') (str ''seller'') bb_key @ 47 # show_nat 0 = offer_ptr" by (simp add: key2_def key3_def)
  note first = first_offer [of "key2 (str ''atrofi'') (str ''seller'') bb_key" "VTradeOffer the_offer" "VAccumulator offer_acc"]
  have "tap_get (snd (tap_set_list_record (key2 (str ''atrof'') (str ''seller'') bb_key) (key2 (str ''atrofi'') (str ''seller'') bb_key)
      (VTradeOffer the_offer) (tap_put (key1 (str ''tol'') (str ''05i0'')) (VAccumulator offer_acc) inscribed_offer))) k =
    (if k = offer_ptr then Some (VTradeOffer the_offer)
     else if k = key2 (str ''atrof'') (str ''seller'') bb_key then Some (VString (show_nat 1))
     else if k = key1 (str ''tol'') (str ''05i0'') then Some (VAccumulator offer_acc) else tap_get inscribed_offer k)"
    using first by (auto simp: tap_set_list_record_eq Let_def kv.get_put ptr)
  then show ?thesis
    using assms by (auto simp: offer_rows_def fill_append_frame trade_frames kv.get_put trade_segs_def trade_seg_lits str_eq)
qed

lemma open_offer_rows:
  "tap_get open_offer (key1 (str ''tol'') (str ''05i0'')) = Some (VAccumulator offer_acc)"
  "tap_get open_offer (key2 (str ''to'') (str ''05i0'') bb_key) = Some (VString offer_ptr)"
  "tap_get open_offer offer_ptr = Some (VTradeOffer the_offer)"
  "tap_get open_offer (key1 (str ''dmtrwd'') a) = tap_get both_store (key1 (str ''dmtrwd'') a)"
  by (simp_all add: open_offer_eq kv.get_del offer_rows_get inscribed_offer_reads(2) seg_keys trade_segs_def trade_seg_lits str_eq)

lemma inscribed_fill_eq:
  "inscribed_fill = accumulate run_env (sample_ins 7) (sample_place 7) (str ''buyer'') (str ''a-t'') fill_acc open_offer"
  using both_rows run_checks fill_checks
  by (simp add: inscribed_fill_def index_token_trade_created_def fill_acc_def tap_token_trade_emergency_active_def
      tap_is_dmt_reward_address_def tap_has_dmt_reward_address_mark_def get_string_def open_offer_rows)

lemma inscribed_fill_rows:
  "tap_get inscribed_fill (key1 (str ''a'') (str ''07i0'')) = Some (VAccumulator fill_acc)"
  "tap_get inscribed_fill (key1 (str ''tol'') (str ''05i0'')) = Some (VAccumulator offer_acc)"
  "tap_get inscribed_fill (key2 (str ''to'') (str ''05i0'') bb_key) = Some (VString offer_ptr)"
  "tap_get inscribed_fill offer_ptr = Some (VTradeOffer the_offer)"
  "tap_get inscribed_fill (key1 (str ''dmtrwd'') a) = tap_get both_store (key1 (str ''dmtrwd'') a)"
  "tok inscribed_fill = tok both_store"
  using run_checks
  by (simp_all add: inscribed_fill_eq trade_frames open_offer_rows tok_open_offer seg_keys trade_segs_def trade_seg_lits str_eq)

definition the_fill :: trade_fill where
  "the_fill = \<lparr>fl_trade_id = str ''05i0'', fl_offer = the_offer, fl_accepted_tick = str ''bb'', fl_accepted_tick_key = bb_key,
    fl_accepted_amount = 40, fl_fee_rcv = Some (str ''buyer'')\<rparr>"

lemma not_rewarded: "a \<in> {str ''seller'', str ''buyer''} \<Longrightarrow> \<not> tap_is_dmt_reward_address run_env inscribed_fill a"
  using both_rows by (auto simp: tap_is_dmt_reward_address_def tap_has_dmt_reward_address_mark_def get_string_def inscribed_fill_rows)

lemma fill_executed:
  "executed_fill run_env (sample_ins 7) (sample_place 8) (str ''buyer'') inscribed_fill = Some (fill_acc, the_fill)"
proof -
  have acc: "ac_addr fill_acc = str ''buyer''" "ac_op fill_acc = str ''token-trade''" "ac_json fill_acc = fill_doc"
    by (simp_all add: fill_acc_def accumulator_of_def)
  have "accumulator_for run_env (sample_ins 7) (sample_place 8) (str ''buyer'') (str ''token-trade'') inscribed_fill = Some fill_acc"
    using run_checks acc by (simp add: accumulator_for_def get_accumulator_def inscribed_fill_rows)
  moreover obtain d where "get_deploy inscribed_fill (key1 (str ''d'') bb_key) = Some d" "dr_dec d = 0"
    using both_reads(1) [OF inscribed_fill_rows(6)] by blast
  moreover have "of_addr the_offer = str ''seller''" "of_atick the_offer = str ''bb''" by (simp_all add: the_offer_def)
  moreover have "str ''seller'' \<noteq> str ''buyer''" by (simp add: str_eq)
  ultimately show ?thesis
    using run_checks fill_checks acc not_rewarded
    by (simp add: executed_fill_def trade_fill_of_def the_fill_def Let_def get_string_def get_accumulator_def get_offer_def
        inscribed_fill_rows)
qed

lemma fill_affordable: "\<not> trade_fails run_env the_fill (str ''buyer'') inscribed_fill"
proof -
  have "parse_i128 (show_int 10) = Some 10" "i128 40 = 40" "i128 10 = 10"
    by (simp_all add: show_int_def i128_def)
  moreover have "te_height run_env = 102" by (simp add: at_block_def)
  ultimately show ?thesis
    using both_reads [OF inscribed_fill_rows(6)] run_checks
    by (simp add: trade_fails_def the_fill_def the_offer_def fill_fee_def Let_def)
qed

lemma inscribed_fill_reachable: "tap_reachable sample_tap_env inscribed_fill"
proof -
  have "sound_trade run_env (sample_ins 5) (sample_place 6) (str ''seller'') inscribed_offer"
    using offer_found offer_checks by (simp add: sound_trade_def executed_fill_def)
  then show ?thesis
    unfolding inscribed_fill_def open_offer_def inscribed_offer_def both_store_def
    by (intro tap_reachable.trade_created tap_reachable.trade_executed tap_reachable.mint minted_reachable) (simp_all add: str_def)
qed

theorem fill_changes_supply_witness:
  "tap_reachable sample_tap_env inscribed_fill \<and>
   tap_total (index_token_trade_executed run_env (sample_ins 7) (sample_place 8) (str ''buyer'') 0 inscribed_fill) bb_key =
     tap_total inscribed_fill bb_key + 40"
proof -
  note ex = fill_changes_supply [OF sample_tap_env_ok inscribed_fill_reachable _ fill_executed]
  show ?thesis using ex [of 0] not_rewarded [of "str ''buyer''"] fill_affordable inscribed_fill_reachable run_checks
    by (simp add: the_fill_def) (simp add: str_def)
qed

end
