(* ===== verification/Spec2Isabelle.thy ===== *)
theory Spec2Isabelle
  imports Dune_Updater Decimal Sat Drc20_Block Builder_Properties Sat_Properties Dogemap_Feed Tap_Fill
begin

text \<open>
  \<^bold>\<open>A verification development for \<open>ord\<close> on Dogecoin.\<close>

  \<^bold>\<open>The program.\<close> The program follows the chain of a Dogecoin node and keeps an index of it in a
  database. \<open>Index::update\<close> (\<open>src/index.rs\<close>) runs an \<open>Updater\<close> (\<open>src/index/updater.rs\<close>) that fetches
  blocks, indexes each in a write transaction and commits now and then; \<open>Reorg\<close>
  (\<open>src/index/reorg.rs\<close>) takes savepoints near the tip and rolls back to one when the chain is
  reorganized. For a block the updater assigns sat ranges to outputs, moves and creates inscriptions
  (\<open>inscription_updater.rs\<close>), hands the operations found to the DRC-20 ledger (\<open>drc20_updater.rs\<close>),
  lets the dune updater (\<open>dune_updater.rs\<close>) read dunestones, and leaves the moves of the block in the
  journal of the Dogemap feed (\<open>index/dogemap_feed.rs\<close>). Built with the feature \<open>tap\<close>, the inscription
  updater also runs the TAP protocol (\<open>inscription_updater/tap/\<close>), whose handlers keep tokens in a
  key-value store. A wallet builds transactions that send
  inscriptions without spending others (\<open>transaction_builder.rs\<close>), and a server answers from the index.

  \<^bold>\<open>The theories.\<close>
  \<^item> \<open>Prelude\<close>, \<open>Table\<close>, \<open>Text\<close>, \<open>Bytes\<close>: Rust integers and their checked, saturating and panicking
    operators, results as sums with the \<open>?\<close> operator as \<open>res_bind\<close>, loops with \<open>?\<close> as \<open>res_fold\<close>, hash
    maps, redb tables as sorted association lists (the locale \<open>table\<close>, interpreted for both), numbers as
    text, byte layouts.
  \<^item> \<open>Varint\<close> (\<open>dunes/varint.rs\<close>; the locale \<open>prefix_codec\<close>), \<open>Dune_Name\<close> (\<open>dune.rs\<close>,
    \<open>spaced_dune.rs\<close>), \<open>Dunestone\<close> (\<open>dunestone.rs\<close> with edicts, etchings, flags and tags), \<open>Entry\<close>
    (\<open>index/entry.rs\<close>), \<open>Dune_Updater\<close> (\<open>dune_updater.rs\<close>), \<open>Decimal\<close> (\<open>decimal.rs\<close>, \<open>pile.rs\<close>).
  \<^item> \<open>Identifier\<close> (\<open>inscription_id.rs\<close>, \<open>sat_point.rs\<close>), \<open>Sat\<close> (\<open>sat.rs\<close>, \<open>height.rs\<close>, \<open>epoch.rs\<close>,
    \<open>rarity.rs\<close>), \<open>Inscription\<close> (\<open>inscription.rs\<close>, \<open>tag.rs\<close>, \<open>media.rs\<close>).
  \<^item> \<open>Fetcher\<close> (\<open>index/fetcher.rs\<close>, and of \<open>updater.rs\<close> the thread that fetches values and the lookahead
    of the TAP build): batches, their answers in any order, chunks in parallel.
  \<^item> \<open>Drc20\<close> (\<open>drc20/\<close> and \<open>drc20_updater.rs\<close>, with its prefetch over \<open>Fetcher\<close>), with \<open>Drc20_Ledger\<close>, \<open>Drc20_Safety\<close>,
    \<open>Drc20_Properties\<close> and \<open>Drc20_Block\<close> for its invariant and what each operation does.
  \<^item> \<open>Inscription_Updater\<close> (\<open>inscription_updater.rs\<close>), with \<open>Inscription_Location\<close>,
    \<open>Inscription_Invariant\<close>, \<open>Inscription_Block\<close>, \<open>Inscription_Coinbase\<close>, \<open>Inscription_Values\<close>,
    \<open>Inscription_Tracking\<close> and \<open>Inscription_Properties\<close>: where an inscription goes in a transaction, in the
    fees and in the coinbase, against the specification \<open>track_block\<close>.
  \<^item> \<open>Sat_Index\<close> (the sat branch of \<open>updater.rs\<close>), with \<open>Sat_Flow\<close> and \<open>Sat_Properties\<close>:
    ranges as sequences of sats, how they are dealt to outputs, and what becomes of ranges too long for their row.
  \<^item> \<open>Fee_Rate\<close>, \<open>Transaction_Builder\<close>, \<open>Builder_Safety\<close>, \<open>Builder_Properties\<close>
    (\<open>fee_rate.rs\<close>, \<open>transaction_builder.rs\<close>).
  \<^item> \<open>Dogemap_Journal\<close> (journal rows and range; the locale \<open>consensus_wire\<close>), \<open>Reorg\<close>,
    \<open>Reorg_Safety\<close>, \<open>Reorg_Properties\<close> (the update loop, savepoints and rollbacks; the locales
    \<open>savepoint_store\<close> and \<open>index_store\<close>, the step relation \<open>index_reachable\<close>), \<open>Feed_Wire\<close>
    (\<open>src/dogemap_feed.rs\<close>; the locale \<open>base64_url\<close>), \<open>Dogemap_Feed\<close> (serving a block of the feed).
  \<^item> \<open>Tap_Text\<close> (\<open>tap/mod.rs\<close>: JSON as JavaScript has it, amounts, tickers, addresses, heights),
    \<open>Tap_Store\<close> (\<open>tap/kv.rs\<close>, \<open>tap/records.rs\<close>; the locale \<open>row_store\<close>), \<open>Tap_Token\<close> (\<open>tap/ops/\<close>:
    \<open>deploy.rs\<close>, \<open>mint.rs\<close>, \<open>transfer.rs\<close>, \<open>send.rs\<close>, \<open>block.rs\<close>), \<open>Tap_Trade\<close> (\<open>trade.rs\<close>), with
    \<open>Tap_Ledger\<close> (the rows that carry money, apart from the logs), \<open>Tap_Safety\<close>, \<open>Tap_Steps\<close> and
    \<open>Tap_Swap\<close> (what each handler keeps), \<open>Tap_Properties\<close> (the relation \<open>tap_reachable\<close> and the supply)
    and \<open>Tap_Fill\<close> (the exact effect of a fill on the supply).

  \<^bold>\<open>How the code is modelled.\<close> A struct is a record, an enum a datatype, a function of the source a
  function here, with every early return and panic a value of a sum type: \<open>Inl\<close> an error, and among the
  errors the panics of \<open>rust_panic\<close>. Unsigned integers are natural numbers, and every operator that can
  leave its range says what happens there; bytes are \<open>8 word\<close>. Tables are maps with distinct keys or
  sorted lists where their order matters. Loops are recursions on the data they consume; the update
  loop, which may run for ever while the node keeps changing its mind, consumes a list of runs, and that
  two of them are enough for a node that has settled is a theorem. Tables of other components are
  arguments where a component does not look at them.

  \<^bold>\<open>What comes from libraries\<close> is an argument with named assumptions, each shown to hold of a concrete
  function: scripts and transactions of the bitcoin crate (\<open>chain_api\<close>, \<open>wire_api\<close>), the text of txids
  (\<open>txid_api\<close>), big decimals (\<open>drc_env\<close>), redb's savepoints (\<open>savepoint_api\<close>), base64
  (\<open>base64_api\<close>), hexadecimal text and hashes, the data files of sat numbers (\<open>data_ok\<close>, which the
  repository's files meet), the answers of the node (\<open>answers_batches\<close>: one response for each request of a
  batch, in any order), and
  for TAP the record \<open>tap_env\<close> (lower case, graphemes, the JSON reader, Base58Check, SHA-256, secp256k1), of
  which \<open>env_ok\<close> assumes that decodable addresses have no slash and that lower-case ASCII stays as it is.

  \<^bold>\<open>What is shown.\<close>
  \<^item> Ledgers conserve: what dunes are held and burned adds up to what was issued; DRC-20 balances add up to
    what was minted, within the supply, and no message or block makes the ledger fail; what TAP accounts
    hold of a ticker and what is left to mint add up to its maximum in every reachable store, unless a fill
    pays its fee to its own buyer or seller, and by exactly how much such a fill makes or destroys units.
  \<^item> Positions are right: after a block an inscription is where following its sat through the
    transactions, the fees and the coinbase puts it; the two location tables stay inverse to each other;
    no spent output holds one; a transaction deals the sats of its inputs to its outputs in order, or is
    refused for want of sats; fetched values come back in the order they were asked for.
  \<^item> The chain is followed: in every reachable state, whatever the node delivers, the index has no gap and
    its savepoints are beginnings of it that the following block continues; a rollback ends on a beginning of the node's chain; updating towards a node that has settled
    ends, on its chain or with a reported failure; requests from before a rollback are refused.
  \<^item> The wallet is safe: the builder spends nothing but the outgoing output and cardinal ones, never panics
    for a whole fee rate, pays the exact fee and succeeds when the wallet can pay.
  \<^item> Formats are exact: encodings are read back, and where the code means them to be canonical nothing
    else is accepted (dune names, journal rows, cursors), digests bind all of a block, paging loses and
    repeats nothing, the journal reports exactly the heights it has, TAP amounts are cut off and never
    rounded, and a batch of the TAP store is all or nothing.
  \<^item> Operations do what they say on every branch: minting, deploying, transferring, cenotaphs, refusals.

  \<^bold>\<open>Bounds and assumptions worth knowing.\<close> The inscription and sat theorems speak of blocks that the
  updater indexes without an error, with distinct txids and outputs that do not exceed the inputs. That
  an update settles assumes that the blocks of one call form a chain, as those of a settled node do;
  \<open>detect_reorg\<close> does not look at blocks of the open transaction (\<open>detect_blind\<close>), so for other nodes only
  the cuts at savepoints are shown to join. No two of the headers in question have the same hash. The
  stored form of a sat range limits its length to less than 2 ^ 37 sats (\<open>sat_range_round_trip\<close>), which
  almost every block of Dogecoin exceeds: the index then refuses to spend the output
  (\<open>long_range_unspendable\<close>), and nothing is claimed of the conservation of sats. The two data files of
  sat numbers disagree, and a sat is read back from its text exactly when they agree for it (\<open>in_place\<close>).
  A TAP supply is at most 2 ^ 124 (18 decimals on a 64-bit
  maximum), which is why no \<open>i128\<close> of the handlers wraps; the addresses of owners are taken to have no slash,
  since they are segments of keys.

  \<^bold>\<open>Not modelled.\<close> Of the feature \<open>tap\<close>: token authorities, staking and locks (\<open>auth.rs\<close>), digital matter,
  bitmaps, privilege inscriptions, the routing of inscriptions to handlers, the byte encoding of rows, the
  export and the reader (the other components are modelled as a default build has them, without it);
  the HTTP server, its templates and the subcommands, which
  format what the index returns; RPC clients and HTTP, the fetching of blocks with its retries, and threads as such; options,
  settings and file handling; failures of the database itself; how the events of a feed block are
  gathered from the tables and the node; \<open>degree.rs\<close>, which no module includes.
\<close>

end
